(* ===== verification/Db_Prelude.thy ===== *)
theory Db_Prelude
  imports Main "HOL-Library.Word"
begin

text \<open>
  Shared vocabulary of the development: the machine integers of the C++ sources,
  their little-endian memory image (what \<^verbatim>\<open>write(&x, sizeof x)\<close> emits on
  the x86-64 targets of the build), the outcomes of a C++ call and the limit on the
  size of one allocation.
\<close>

unbundle bit_operations_syntax

named_theorems stream_simps \<open>the effect of stream operations on buffers\<close>
named_theorems consumes_rules \<open>composition rules for decoders\<close>
named_theorems stable_intros \<open>decoders whose result does not depend on what follows\<close>
named_theorems forward_intros \<open>decoders that never move the read position backwards\<close>
named_theorems ok_simps \<open>unfolding of representability predicates\<close>

section \<open>Machine integers and identifiers\<close>

type_synonym byte = "8 word"
type_synonym u32 = "32 word"
type_synonym u64 = "64 word"

text \<open>
  A \<^verbatim>\<open>uuid_t\<close> is 16 raw bytes that the sources only copy and compare for
  equality. It is identified with the 128-bit number those bytes spell.
\<close>

type_synonym uuid = "128 word"
type_synonym lsn = u64
type_synonym row_id = u64

text \<open>A \<^verbatim>\<open>fs::path\<close> is the list of its components below the data directory.\<close>

type_synonym path = "string list"

section \<open>Little-endian memory images\<close>

primrec le_bytes :: "nat \<Rightarrow> 'a::len word \<Rightarrow> byte list" where
  "le_bytes 0 w = []"
| "le_bytes (Suc n) w = ucast w # le_bytes n (drop_bit 8 w)"

primrec le_word :: "byte list \<Rightarrow> 'a::len word" where
  "le_word [] = 0"
| "le_word (b # bs) = ucast b OR push_bit 8 (le_word bs)"

lemma length_le_bytes [simp]: "length (le_bytes n w) = n"
  by (induction n arbitrary: w) auto

lemma le_word_take_bit: "le_word (le_bytes n w) = take_bit (8 * n) w"
proof (induction n arbitrary: w)
  case 0
  then show ?case by simp
next
  case (Suc n)
  show ?case
    by (rule bit_eqI) (auto simp: Suc bit_simps less_diff_conv2)
qed

lemma le_word_le_bytes [simp]:
  "LENGTH('a::len) = 8 * n \<Longrightarrow> le_word (le_bytes n (w :: 'a word)) = w"
  by (simp add: le_word_take_bit take_bit_word_eq_self)

lemma bit_le_wordD: "bit (le_word bs :: 'a::len word) n \<Longrightarrow> n < 8 * length bs"
  by (induction bs arbitrary: n) (fastforce simp: bit_simps dest: bit_imp_le_length)+

lemma le_bytes_le_word:
  "8 * length bs \<le> LENGTH('a::len) \<Longrightarrow> le_bytes (length bs) (le_word bs :: 'a word) = bs"
proof (induction bs)
  case Nil
  then show ?case by simp
next
  case (Cons b bs)
  have "ucast (ucast b OR push_bit 8 (le_word bs) :: 'a word) = b"
    using Cons.prems by (intro bit_eqI) (auto simp: bit_simps)
  moreover have "drop_bit 8 (ucast b OR push_bit 8 (le_word bs) :: 'a word) = le_word bs"
    using Cons.prems by (intro bit_eqI) (auto simp: bit_simps dest: bit_imp_le_length bit_le_wordD)
  ultimately show ?case
    using Cons by (simp del: drop_bit_or)
qed

section \<open>Characters and bytes\<close>

text \<open>A \<^verbatim>\<open>char\<close> of a \<^verbatim>\<open>std::string\<close> is one byte of its buffer.\<close>

definition byte_of_char :: "char \<Rightarrow> byte" where
  "byte_of_char c = word_of_nat (of_char c)"

definition char_of_byte :: "byte \<Rightarrow> char" where
  "char_of_byte b = char_of (unat b)"

lemma char_of_byte_of_char [simp]: "char_of_byte (byte_of_char c) = c"
  by (simp add: char_of_byte_def byte_of_char_def unat_of_nat)

lemma byte_of_char_of_byte [simp]: "byte_of_char (char_of_byte b) = b"
proof -
  have "unat b < 256" using unsigned_less [of b, where 'a = nat] by simp
  then show ?thesis by (simp add: char_of_byte_def byte_of_char_def)
qed

abbreviation bytes_of_string :: "string \<Rightarrow> byte list" where
  "bytes_of_string s \<equiv> map byte_of_char s"

abbreviation string_of_bytes :: "byte list \<Rightarrow> string" where
  "string_of_bytes bs \<equiv> map char_of_byte bs"

lemma string_bytes_inverse [simp]:
  "string_of_bytes (bytes_of_string s) = s" "bytes_of_string (string_of_bytes bs) = bs"
  by (induction s, simp_all) (induction bs, simp_all)

lemma char_byte_comp [simp]:
  "char_of_byte \<circ> byte_of_char = id" "byte_of_char \<circ> char_of_byte = id"
  by auto

section \<open>Outcomes of a C++ call\<close>

text \<open>
  A call returns normally (\<open>Done\<close>), returns \<^verbatim>\<open>false\<close> from a function whose
  result is a success flag (\<open>Failed\<close>), throws (\<open>Raised\<close>), or has undefined behaviour
  such as an access outside an object (\<open>Undef\<close>). Where the code completes the message of an exception
  with a name or a number, the model keeps its constant part.
\<close>

datatype exn =
    RuntimeError string
  | LogicError string
  | OutOfRange string
  | InvalidArgument string
  | LengthError
  | UniqueConstraintViolation string
  | DbDoesntExists string

datatype 'a outcome = Done 'a | Failed | Raised exn | Undef

primrec obind :: "'a outcome \<Rightarrow> ('a \<Rightarrow> 'b outcome) \<Rightarrow> 'b outcome" where
  "obind (Done x) f = f x"
| "obind Failed f = Failed"
| "obind (Raised e) f = Raised e"
| "obind Undef f = Undef"

lemma obind_Done_conv: "obind m f = Done y \<longleftrightarrow> (\<exists>x. m = Done x \<and> f x = Done y)"
  by (cases m) auto

lemma obind_assoc: "obind (obind m f) g = obind m (\<lambda>x. obind (f x) g)"
  by (cases m) auto

lemma obind_Done_right [simp]: "obind m Done = m"
  by (cases m) auto

text \<open>A loop over a list whose body may throw.\<close>

primrec ofold :: "('a \<Rightarrow> 's \<Rightarrow> 's outcome) \<Rightarrow> 'a list \<Rightarrow> 's \<Rightarrow> 's outcome" where
  "ofold f [] s = Done s"
| "ofold f (x # xs) s = obind (f x s) (ofold f xs)"

lemma ofold_append: "ofold f (xs @ ys) s = obind (ofold f xs s) (ofold f ys)"
proof (induction xs arbitrary: s)
  case (Cons x xs)
  then have "ofold f (xs @ ys) = (\<lambda>s. obind (ofold f xs s) (ofold f ys))" by (rule ext)
  then show ?case by (simp add: obind_assoc)
qed simp

lemma ofold_invariant:
  assumes "\<And>x s s'. x \<in> set xs \<Longrightarrow> P s \<Longrightarrow> f x s = Done s' \<Longrightarrow> P s'"
  shows "P s \<Longrightarrow> ofold f xs s = Done s' \<Longrightarrow> P s'"
  using assms by (induction xs arbitrary: s) (auto simp: obind_Done_conv)

text \<open>
  No object is larger than \<^verbatim>\<open>PTRDIFF_MAX\<close> bytes: \<^verbatim>\<open>resize\<close> and
  \<^verbatim>\<open>reserve\<close> throw \<^verbatim>\<open>std::length_error\<close> beyond it. Exhaustion of physical
  memory below that limit is not modelled.
\<close>

definition max_alloc :: nat where
  "max_alloc = 2 ^ 63 - 1"

lemma max_alloc_less: "n \<le> max_alloc \<Longrightarrow> n < 2 ^ 64"
  by (simp add: max_alloc_def)

lemma unat_of_nat_alloc [simp]: "n \<le> max_alloc \<Longrightarrow> unat (word_of_nat n :: u64) = n"
  by (simp add: unat_of_nat max_alloc_def)

end
