(* ===== verification/Data_Token.thy ===== *)
theory Data_Token
  imports Db_Prelude
begin

text \<open>
  Typed values: \<^verbatim>\<open>types/include/data_type.hpp\<close>, \<^verbatim>\<open>data_token.hpp\<close> and
  \<^verbatim>\<open>data_token.cpp\<close> under \<^verbatim>\<open>src/deltabase/src\<close>. A token is a type tag and raw
  bytes; the comparison operators reinterpret the bytes. Comparisons of
  \<^verbatim>\<open>double\<close> follow IEEE 754 on the 64-bit pattern, \<^verbatim>\<open>char\<close> is signed, and
  \<^verbatim>\<open>std::string\<close> compares as unsigned bytes.
\<close>

section \<open>Data types\<close>

text \<open>An \<^verbatim>\<open>enum class : uint64_t\<close> read from a file may hold a value without an enumerator: \<open>DT_Other\<close>.\<close>

datatype data_type =
    DT_UNDEFINED | DT_NULL | DT_INTEGER | DT_REAL | DT_CHAR | DT_BOOL | DT_STRING
  | DT_Other u64

fun dt_code :: "data_type \<Rightarrow> u64" where
  "dt_code DT_UNDEFINED = 0"
| "dt_code DT_NULL = 1"
| "dt_code DT_INTEGER = 2"
| "dt_code DT_REAL = 3"
| "dt_code DT_CHAR = 4"
| "dt_code DT_BOOL = 5"
| "dt_code DT_STRING = 6"
| "dt_code (DT_Other v) = v"

definition dt_of_code :: "u64 \<Rightarrow> data_type" where
  "dt_of_code v =
     (if v = 0 then DT_UNDEFINED else if v = 1 then DT_NULL else if v = 2 then DT_INTEGER
      else if v = 3 then DT_REAL else if v = 4 then DT_CHAR else if v = 5 then DT_BOOL
      else if v = 6 then DT_STRING else DT_Other v)"

fun ok_dt :: "data_type \<Rightarrow> bool" where
  "ok_dt (DT_Other v) = (v > 6)"
| "ok_dt t = True"

lemma dt_of_code_code [simp]: "ok_dt t \<Longrightarrow> dt_of_code (dt_code t) = t"
  by (cases t) (auto simp: dt_of_code_def)

lemma dt_code_of_code [simp]: "dt_code (dt_of_code v) = v"
  by (simp add: dt_of_code_def)

lemma ok_dt_of_code [simp]: "ok_dt (dt_of_code v)"
  unfolding dt_of_code_def by (simp add: word_unat_eq_iff word_less_nat_alt)

lemma dt_code_inj: "ok_dt s \<Longrightarrow> ok_dt t \<Longrightarrow> dt_code s = dt_code t \<longleftrightarrow> s = t"
  by (metis dt_of_code_code)

section \<open>Tokens\<close>

record data_token =
  tok_bytes :: "byte list"
  tok_type :: data_type

definition null_token :: data_token where
  "null_token = \<lparr>tok_bytes = [], tok_type = DT_NULL\<rparr>"

text \<open>\<^verbatim>\<open>DataToken::as<T>\<close>; a violated \<^verbatim>\<open>assert\<close> is \<open>Undef\<close>.\<close>

definition as_int :: "data_token \<Rightarrow> int outcome" where
  "as_int t = (if length (tok_bytes t) = 4 then Done (sint (le_word (tok_bytes t) :: u32)) else Undef)"

definition as_double :: "data_token \<Rightarrow> u64 outcome" where
  "as_double t = (if length (tok_bytes t) = 8 then Done (le_word (tok_bytes t)) else Undef)"

definition as_bool :: "data_token \<Rightarrow> bool outcome" where
  "as_bool t = (case tok_bytes t of [] \<Rightarrow> Undef | b # _ \<Rightarrow> Done (b \<noteq> 0))"

definition as_char :: "data_token \<Rightarrow> int outcome" where
  "as_char t = (case tok_bytes t of [] \<Rightarrow> Undef | b # _ \<Rightarrow> Done (sint b))"

definition as_string :: "data_token \<Rightarrow> byte list outcome" where
  "as_string t = Done (tok_bytes t)"

text \<open>IEEE 754 binary64: the pattern is a sign bit and a magnitude; magnitudes above infinity are NaN.\<close>

definition dbl_magnitude :: "u64 \<Rightarrow> nat" where
  "dbl_magnitude w = unat w mod 2 ^ 63"

definition dbl_nan :: "u64 \<Rightarrow> bool" where
  "dbl_nan w \<longleftrightarrow> dbl_magnitude w > 0x7FF0000000000000"

definition dbl_key :: "u64 \<Rightarrow> int" where
  "dbl_key w = (if unat w \<ge> 2 ^ 63 then - int (dbl_magnitude w) else int (dbl_magnitude w))"

definition dbl_eq :: "u64 \<Rightarrow> u64 \<Rightarrow> bool" where
  "dbl_eq a b \<longleftrightarrow> \<not> dbl_nan a \<and> \<not> dbl_nan b \<and> dbl_key a = dbl_key b"

definition dbl_less :: "u64 \<Rightarrow> u64 \<Rightarrow> bool" where
  "dbl_less a b \<longleftrightarrow> \<not> dbl_nan a \<and> \<not> dbl_nan b \<and> dbl_key a < dbl_key b"

definition dbl_le :: "u64 \<Rightarrow> u64 \<Rightarrow> bool" where
  "dbl_le a b \<longleftrightarrow> \<not> dbl_nan a \<and> \<not> dbl_nan b \<and> dbl_key a \<le> dbl_key b"

text \<open>Lexicographic order on byte strings, shorter prefix first.\<close>

fun lex_less :: "byte list \<Rightarrow> byte list \<Rightarrow> bool" where
  "lex_less xs [] = False"
| "lex_less [] (y # ys) = True"
| "lex_less (x # xs) (y # ys) = (x < y \<or> (x = y \<and> lex_less xs ys))"

definition olift2 :: "('a \<Rightarrow> 'a \<Rightarrow> bool) \<Rightarrow> 'a outcome \<Rightarrow> 'a outcome \<Rightarrow> bool outcome" where
  "olift2 f a b = obind a (\<lambda>x. obind b (\<lambda>y. Done (f x y)))"

section \<open>Comparison operators\<close>

text \<open>\<^verbatim>\<open>operator==\<close>\<close>

definition tok_eq :: "data_token \<Rightarrow> data_token \<Rightarrow> bool outcome" where
  "tok_eq l r =
     (if tok_type l \<noteq> tok_type r then Done False
      else case tok_type l of
        DT_NULL \<Rightarrow> Done True
      | DT_INTEGER \<Rightarrow> olift2 (=) (as_int l) (as_int r)
      | DT_REAL \<Rightarrow> olift2 dbl_eq (as_double l) (as_double r)
      | DT_CHAR \<Rightarrow> olift2 (=) (as_char l) (as_char r)
      | DT_BOOL \<Rightarrow> olift2 (=) (as_bool l) (as_bool r)
      | DT_STRING \<Rightarrow> olift2 (=) (as_string l) (as_string r)
      | _ \<Rightarrow> Done (tok_bytes l = tok_bytes r))"

text \<open>\<^verbatim>\<open>operator!=\<close>\<close>

definition tok_neq :: "data_token \<Rightarrow> data_token \<Rightarrow> bool outcome" where
  "tok_neq l r = obind (tok_eq l r) (\<lambda>b. Done (\<not> b))"

text \<open>\<^verbatim>\<open>operator<\<close>: tokens of different types are ordered by their type codes.\<close>

definition tok_less :: "data_token \<Rightarrow> data_token \<Rightarrow> bool outcome" where
  "tok_less l r =
     (if tok_type l \<noteq> tok_type r then Done (dt_code (tok_type l) < dt_code (tok_type r))
      else case tok_type l of
        DT_INTEGER \<Rightarrow> olift2 (<) (as_int l) (as_int r)
      | DT_REAL \<Rightarrow> olift2 dbl_less (as_double l) (as_double r)
      | DT_CHAR \<Rightarrow> olift2 (<) (as_char l) (as_char r)
      | DT_BOOL \<Rightarrow> olift2 (<) (as_bool l) (as_bool r)
      | DT_STRING \<Rightarrow> olift2 lex_less (as_string l) (as_string r)
      | _ \<Rightarrow> Done (lex_less (tok_bytes l) (tok_bytes r)))"

text \<open>\<^verbatim>\<open>operator<=\<close> is \<^verbatim>\<open>lhs < rhs || lhs == rhs\<close>, \<^verbatim>\<open>operator>\<close> swaps, \<^verbatim>\<open>operator>=\<close> negates \<^verbatim>\<open><\<close>.\<close>

definition tok_le :: "data_token \<Rightarrow> data_token \<Rightarrow> bool outcome" where
  "tok_le l r = obind (tok_less l r) (\<lambda>b. if b then Done True else tok_eq l r)"

definition tok_greater :: "data_token \<Rightarrow> data_token \<Rightarrow> bool outcome" where
  "tok_greater l r = tok_less r l"

definition tok_ge :: "data_token \<Rightarrow> data_token \<Rightarrow> bool outcome" where
  "tok_ge l r = obind (tok_less l r) (\<lambda>b. Done (\<not> b))"

text \<open>\<^verbatim>\<open>IndexBPlusTree::compare_token\<close>\<close>

definition compare_token :: "data_token \<Rightarrow> data_token \<Rightarrow> int outcome" where
  "compare_token a b =
     obind (tok_eq a b) (\<lambda>e. if e then Done 0
       else obind (tok_less a b) (\<lambda>l. Done (if l then -1 else 1)))"

section \<open>Well-formed tokens\<close>

text \<open>The bytes have the size of the type, as \<^verbatim>\<open>DataToken(const SqlToken&)\<close> builds them, and no NaN.\<close>

fun wf_token :: "data_token \<Rightarrow> bool" where
  "wf_token t = (case tok_type t of
       DT_INTEGER \<Rightarrow> length (tok_bytes t) = 4
     | DT_REAL \<Rightarrow> length (tok_bytes t) = 8 \<and> \<not> dbl_nan (le_word (tok_bytes t))
     | DT_CHAR \<Rightarrow> length (tok_bytes t) = 1
     | DT_BOOL \<Rightarrow> length (tok_bytes t) = 1
     | DT_STRING \<Rightarrow> True
     | DT_NULL \<Rightarrow> tok_bytes t = []
     | _ \<Rightarrow> True)"

text \<open>
  The order the operators implement, as a key: type code first, then a number or a byte string.
\<close>

definition tok_num :: "data_token \<Rightarrow> int" where
  "tok_num t = (case tok_type t of
       DT_INTEGER \<Rightarrow> sint (le_word (tok_bytes t) :: u32)
     | DT_REAL \<Rightarrow> dbl_key (le_word (tok_bytes t))
     | DT_CHAR \<Rightarrow> sint (hd (tok_bytes t))
     | DT_BOOL \<Rightarrow> of_bool (hd (tok_bytes t) \<noteq> 0)
     | _ \<Rightarrow> 0)"

definition tok_str :: "data_token \<Rightarrow> byte list" where
  "tok_str t = (case tok_type t of
       DT_INTEGER \<Rightarrow> [] | DT_REAL \<Rightarrow> [] | DT_CHAR \<Rightarrow> [] | DT_BOOL \<Rightarrow> [] | _ \<Rightarrow> tok_bytes t)"

definition tok_key_less :: "data_token \<Rightarrow> data_token \<Rightarrow> bool" where
  "tok_key_less a b \<longleftrightarrow>
     dt_code (tok_type a) < dt_code (tok_type b)
     \<or> (tok_type a = tok_type b \<and>
         (tok_num a < tok_num b \<or> (tok_num a = tok_num b \<and> lex_less (tok_str a) (tok_str b))))"

definition tok_key_eq :: "data_token \<Rightarrow> data_token \<Rightarrow> bool" where
  "tok_key_eq a b \<longleftrightarrow> tok_type a = tok_type b \<and> tok_num a = tok_num b \<and> tok_str a = tok_str b"

lemma lex_less_irrefl [simp]: "\<not> lex_less xs xs"
  by (induction xs) auto

lemma lex_less_trans: "lex_less xs ys \<Longrightarrow> lex_less ys zs \<Longrightarrow> lex_less xs zs"
proof (induction xs zs arbitrary: ys rule: lex_less.induct)
  case (1 xs)
  then show ?case by simp
next
  case (2 y ys)
  then show ?case by simp
next
  case (3 x xs z zs)
  then show ?case by (cases ys) (auto dest: less_trans)
qed

lemma lex_less_total: "xs \<noteq> ys \<Longrightarrow> lex_less xs ys \<or> lex_less ys xs"
  by (induction xs ys rule: lex_less.induct) (auto simp: neq_Nil_conv)

lemma length1E: "length xs = Suc 0 \<Longrightarrow> \<exists>b. xs = [b]"
  by (cases xs) auto

lemmas tok_defs = olift2_def as_int_def as_double_def as_bool_def as_char_def as_string_def
  tok_num_def tok_str_def

lemma tok_eq_wf:
  assumes "wf_token a" and "wf_token b"
  shows "tok_eq a b = Done (tok_key_eq a b)"
proof (cases "tok_type a = tok_type b")
  case True
  then obtain t where "tok_type a = t" "tok_type b = t" by blast
  then show ?thesis
    using assms by (cases t) (auto simp: tok_eq_def tok_key_eq_def tok_defs dbl_eq_def dest!: length1E)
next
  case False
  then show ?thesis by (simp add: tok_eq_def tok_key_eq_def)
qed

lemma tok_less_wf:
  assumes "wf_token a" and "wf_token b"
  shows "tok_less a b = Done (tok_key_less a b)"
proof (cases "tok_type a = tok_type b")
  case True
  then obtain t where "tok_type a = t" "tok_type b = t" by blast
  then show ?thesis
    using assms by (cases t) (auto simp: tok_less_def tok_key_less_def tok_defs dbl_less_def dest!: length1E)
next
  case False
  then show ?thesis by (simp add: tok_less_def tok_key_less_def)
qed

lemma tok_key_less_irrefl [simp]: "\<not> tok_key_less a a"
  by (simp add: tok_key_less_def)

lemma tok_key_less_trans: "tok_key_less a b \<Longrightarrow> tok_key_less b c \<Longrightarrow> tok_key_less a c"
  by (auto simp: tok_key_less_def dest: lex_less_trans)

lemma tok_key_trichotomy:
  assumes "ok_dt (tok_type a)" and "ok_dt (tok_type b)"
  shows "tok_key_less a b \<or> tok_key_eq a b \<or> tok_key_less b a"
  using assms dt_code_inj [OF assms] lex_less_total [of "tok_str a" "tok_str b"]
  by (auto simp: tok_key_less_def tok_key_eq_def not_less_iff_gr_or_eq)

lemma tok_key_less_not_eq: "tok_key_less a b \<Longrightarrow> \<not> tok_key_eq a b"
  by (auto simp: tok_key_less_def tok_key_eq_def)

section \<open>Properties\<close>

definition string_token :: "byte list \<Rightarrow> data_token" where
  "string_token bs = \<lparr>tok_bytes = bs, tok_type = DT_STRING\<rparr>"

text \<open>On well-formed values the operators \<^verbatim>\<open><\<close> and \<^verbatim>\<open>==\<close> implement a total order on which index
  lookups can rely: exactly one of \<^verbatim>\<open>a < b\<close>, \<^verbatim>\<open>a == b\<close>, \<^verbatim>\<open>b < a\<close> holds, for values of any types.\<close>

theorem token_order_trichotomy:
  assumes "wf_token a" and "wf_token b" and "ok_dt (tok_type a)" and "ok_dt (tok_type b)"
  shows "(tok_less a b, tok_eq a b, tok_less b a) \<in>
    {(Done True, Done False, Done False), (Done False, Done True, Done False), (Done False, Done False, Done True)}"
proof -
  have "\<not> (tok_key_less a b \<and> tok_key_less b a)"
    using tok_key_less_trans [of a b a] by auto
  moreover have "tok_key_eq a b \<longleftrightarrow> tok_key_eq b a" by (auto simp: tok_key_eq_def)
  ultimately show ?thesis
    using assms(1,2) tok_key_trichotomy [OF assms(3,4)] tok_key_less_not_eq
    by (auto simp: tok_less_wf tok_eq_wf simp del: wf_token.simps)
qed

theorem token_order_trichotomy_witness:
  "(tok_less null_token (string_token [1]), tok_eq null_token (string_token [1]), tok_less (string_token [1]) null_token)
   \<in> {(Done True, Done False, Done False), (Done False, Done True, Done False), (Done False, Done False, Done True)}"
  by (rule token_order_trichotomy) (simp_all add: null_token_def string_token_def)

text \<open>\<^verbatim>\<open><\<close> is transitive on well-formed values.\<close>

theorem token_order_transitive:
  assumes "wf_token a" and "wf_token b" and "wf_token c"
    and "tok_less a b = Done True" and "tok_less b c = Done True"
  shows "tok_less a c = Done True"
  using assms tok_key_less_trans [of a b c] by (simp add: tok_less_wf del: wf_token.simps)

theorem token_order_transitive_witness:
  "tok_less (string_token [1]) (string_token [2, 0]) = Done True"
  by (rule token_order_transitive [of _ "string_token [1, 9]"])
    (simp_all add: string_token_def tok_less_def tok_defs)

end
