(* ===== verification/Sql_Token.thy ===== *)
theory Sql_Token
  imports Data_Token
begin

text \<open>
  SQL tokens (\<^verbatim>\<open>types/include/sql_token.hpp\<close>, \<^verbatim>\<open>types/sql_token.cpp\<close>), the dictionaries of
  \<^verbatim>\<open>sql/include/dictionary.hpp\<close> and the conversion of a literal to a typed value
  (\<^verbatim>\<open>DataToken(const SqlToken&)\<close>, \<^verbatim>\<open>types/data_token.cpp\<close>). \<^verbatim>\<open>std::stoi\<close> and
  \<^verbatim>\<open>std::stod\<close> are modelled on decimal input, the only numbers the lexer forms.
\<close>

section \<open>Enumerations and tokens\<close>

datatype sql_token_type = TT_UNKNOWN | TT_KEYWORD | TT_IDENTIFIER | TT_LITERAL | TT_OPERATOR | TT_SYMBOL

datatype sql_keyword =
    KW_UNKNOWN | KW_SELECT | KW_FROM | KW_INSERT | KW_INTO | KW_VALUES | KW_UPDATE | KW_SET | KW_DELETE
  | KW_WHERE | KW_CREATE | KW_DROP | KW_DATABASE | KW_TABLE | KW_STRING | KW_INTEGER | KW_REAL | KW_CHAR
  | KW_BOOL | KW_NULL | KW_PRIMARY | KW_KEY | KW_NOT | KW_AUTOINCREMENT | KW_UNIQUE | KW_SCHEMA | KW_INDEX
  | KW_ON | KW_IS | KW_ALTER | KW_ADD | KW_COLUMN

datatype sql_symbol = SY_UNKNOWN | SY_LPAREN | SY_RPAREN | SY_COMMA | SY_PERIOD | SY_SEMICOLON

datatype sql_operator =
    OP_EQ | OP_NEQ | OP_GR | OP_GRE | OP_LT | OP_LTE | OP_IS | OP_AND | OP_OR | OP_NOT
  | OP_PLUS | OP_MINUS | OP_MUL | OP_DIV | OP_ASSIGN

datatype sql_literal = LIT_INTEGER | LIT_STRING | LIT_BOOL | LIT_CHAR | LIT_REAL | LIT_NULL | LIT_COUNT

datatype sql_detail =
    NoDetail
  | DKeyword sql_keyword
  | DOperator sql_operator
  | DSymbol sql_symbol
  | DLiteral sql_literal

record sql_token =
  st_type :: sql_token_type
  st_value :: string
  st_line :: nat
  st_pos :: nat
  st_detail :: sql_detail

section \<open>Dictionaries\<close>

definition keywords_map :: "(string \<times> sql_keyword) list" where
  "keywords_map =
     [(''add'', KW_ADD), (''alter'', KW_ALTER), (''autoincrement'', KW_AUTOINCREMENT), (''bool'', KW_BOOL),
      (''char'', KW_CHAR), (''column'', KW_COLUMN), (''create'', KW_CREATE), (''database'', KW_DATABASE),
      (''delete'', KW_DELETE), (''drop'', KW_DROP), (''from'', KW_FROM), (''index'', KW_INDEX),
      (''insert'', KW_INSERT), (''integer'', KW_INTEGER), (''into'', KW_INTO), (''is'', KW_IS),
      (''key'', KW_KEY), (''not'', KW_NOT), (''null'', KW_NULL), (''on'', KW_ON), (''primary'', KW_PRIMARY),
      (''real'', KW_REAL), (''schema'', KW_SCHEMA), (''select'', KW_SELECT), (''set'', KW_SET),
      (''string'', KW_STRING), (''table'', KW_TABLE), (''unique'', KW_UNIQUE), (''update'', KW_UPDATE),
      (''values'', KW_VALUES), (''where'', KW_WHERE)]"

definition data_types_map :: "(string \<times> sql_keyword) list" where
  "data_types_map =
     [(''string'', KW_STRING), (''integer'', KW_INTEGER), (''real'', KW_REAL), (''char'', KW_CHAR),
      (''bool'', KW_BOOL), (''null'', KW_NULL)]"

definition kw_to_data_type_map :: "(sql_keyword \<times> data_type) list" where
  "kw_to_data_type_map =
     [(KW_INTEGER, DT_INTEGER), (KW_STRING, DT_STRING), (KW_REAL, DT_REAL), (KW_BOOL, DT_BOOL),
      (KW_CHAR, DT_CHAR), (KW_NULL, DT_NULL)]"

definition is_data_type_kw :: "sql_keyword \<Rightarrow> bool" where
  "is_data_type_kw kw = list_ex (\<lambda>(key, value). value = kw) data_types_map"

definition to_data_type :: "sql_keyword \<Rightarrow> data_type" where
  "to_data_type kw = (case map_of kw_to_data_type_map kw of Some t \<Rightarrow> t | None \<Rightarrow> DT_UNDEFINED)"

definition constraints_map :: "(string \<times> sql_keyword) list" where
  "constraints_map =
     [(''not'', KW_NOT), (''null'', KW_NULL), (''primary'', KW_PRIMARY), (''key'', KW_KEY),
      (''autoincrement'', KW_AUTOINCREMENT), (''unique'', KW_UNIQUE)]"

definition is_constraint_kw :: "sql_keyword \<Rightarrow> bool" where
  "is_constraint_kw kw = list_ex (\<lambda>(key, value). value = kw) constraints_map"

definition symbols_map :: "(string \<times> sql_symbol) list" where
  "symbols_map =
     [(''('', SY_LPAREN), ('')'', SY_RPAREN), ('','', SY_COMMA), (''.'', SY_PERIOD), ('';'', SY_SEMICOLON)]"

definition operators_map :: "(string \<times> sql_operator) list" where
  "operators_map =
     [(''=='', OP_EQ), (''!='', OP_NEQ), (''>'', OP_GR), (''>='', OP_GRE), (''<'', OP_LT), (''<='', OP_LTE),
      (''is'', OP_IS), (''and'', OP_AND), (''or'', OP_OR), (''not'', OP_NOT), (''+'', OP_PLUS), (''-'', OP_MINUS),
      (''*'', OP_MUL), (''/'', OP_DIV), (''='', OP_ASSIGN)]"

section \<open>Token predicates\<close>

definition is_keyword :: "sql_token \<Rightarrow> bool" where
  "is_keyword t \<longleftrightarrow> st_type t = TT_KEYWORD"

definition is_literal :: "sql_token \<Rightarrow> bool" where
  "is_literal t \<longleftrightarrow> st_type t = TT_LITERAL"

definition is_identifier :: "sql_token \<Rightarrow> bool" where
  "is_identifier t \<longleftrightarrow> st_type t = TT_IDENTIFIER"

text \<open>\<^verbatim>\<open>get_detail<T>\<close>, one instance per alternative.\<close>

fun get_keyword :: "sql_token \<Rightarrow> sql_keyword outcome" where
  "get_keyword t = (case st_detail t of DKeyword k \<Rightarrow> Done k
     | _ \<Rightarrow> Raised (RuntimeError ''Invalid detail type requested''))"

fun get_operator :: "sql_token \<Rightarrow> sql_operator outcome" where
  "get_operator t = (case st_detail t of DOperator k \<Rightarrow> Done k
     | _ \<Rightarrow> Raised (RuntimeError ''Invalid detail type requested''))"

fun get_symbol :: "sql_token \<Rightarrow> sql_symbol outcome" where
  "get_symbol t = (case st_detail t of DSymbol k \<Rightarrow> Done k
     | _ \<Rightarrow> Raised (RuntimeError ''Invalid detail type requested''))"

fun get_literal :: "sql_token \<Rightarrow> sql_literal outcome" where
  "get_literal t = (case st_detail t of DLiteral k \<Rightarrow> Done k
     | _ \<Rightarrow> Raised (RuntimeError ''Invalid detail type requested''))"

definition is_data_type :: "sql_token \<Rightarrow> bool outcome" where
  "is_data_type t = (if \<not> is_keyword t then Done False else obind (get_keyword t) (\<lambda>kw. Done (is_data_type_kw kw)))"

definition is_constraint :: "sql_token \<Rightarrow> bool outcome" where
  "is_constraint t =
     (if \<not> is_keyword t then Done False
      else obind (get_keyword t) (\<lambda>kw.
        Done (kw = KW_PRIMARY \<or> kw = KW_UNIQUE \<or> kw = KW_NOT \<or> kw = KW_NULL \<or> kw = KW_AUTOINCREMENT)))"

section \<open>Decimal numbers\<close>

definition is_space :: "char \<Rightarrow> bool" where
  "is_space c \<longleftrightarrow> of_char c \<in> {9 :: nat, 10, 11, 12, 13, 32}"

definition is_digit :: "char \<Rightarrow> bool" where
  "is_digit c \<longleftrightarrow> 48 \<le> (of_char c :: nat) \<and> (of_char c :: nat) \<le> 57"

definition digit_value :: "char \<Rightarrow> nat" where
  "digit_value c = of_char c - 48"

definition digits_value :: "string \<Rightarrow> nat" where
  "digits_value ds = foldl (\<lambda>n c. 10 * n + digit_value c) 0 ds"

text \<open>The optional sign: whether it is a minus, and what follows.\<close>

fun read_sign :: "string \<Rightarrow> bool \<times> string" where
  "read_sign (c # cs) = (if c = CHR ''-'' then (True, cs) else if c = CHR ''+'' then (False, cs) else (False, c # cs))"
| "read_sign [] = (False, [])"

definition stoi :: "string \<Rightarrow> int outcome" where
  "stoi s =
     (let (neg, cs) = read_sign (dropWhile is_space s);
          ds = takeWhile is_digit cs;
          v = (if neg then - int (digits_value ds) else int (digits_value ds))
      in if ds = [] then Raised (InvalidArgument ''stoi'')
         else if v < - (2 ^ 31) \<or> v \<ge> 2 ^ 31 then Raised (OutOfRange ''stoi'')
         else Done v)"

text \<open>
  \<open>dbl_of_ratio m d\<close> is the magnitude of the binary64 number nearest to \<open>m / d\<close>, ties to even, and whether
  the conversion was exact: \<open>e\<close> is the exponent of the leading bit, at least that of the subnormal numbers.
\<close>

fun bit_length :: "nat \<Rightarrow> nat" where
  "bit_length n = (if n = 0 then 0 else Suc (bit_length (n div 2)))"

declare bit_length.simps [simp del]

definition ratio_exponent :: "nat \<Rightarrow> nat \<Rightarrow> int" where
  "ratio_exponent m d =
     (let e = int (bit_length m) - int (bit_length d);
          ge = (if e \<ge> 0 then m \<ge> d * 2 ^ nat e else m * 2 ^ nat (- e) \<ge> d)
      in if ge then e else e - 1)"

definition round_half_even :: "nat \<Rightarrow> nat \<Rightarrow> nat" where
  "round_half_even n d =
     (let q = n div d; r = n mod d
      in if 2 * r < d \<or> (2 * r = d \<and> even q) then q else q + 1)"

definition dbl_of_ratio :: "nat \<Rightarrow> nat \<Rightarrow> nat \<times> bool" where
  "dbl_of_ratio m d =
     (if m = 0 then (0, True)
      else
        let e = max (ratio_exponent m d) (-1022);
            n = (if e \<le> 52 then m * 2 ^ nat (52 - e) else m);
            k = (if e \<le> 52 then d else d * 2 ^ nat (e - 52))
        in (nat (e + 1022) * 2 ^ 52 + round_half_even n k, n mod k = 0))"

definition stod :: "string \<Rightarrow> u64 outcome" where
  "stod s =
     (let (neg, cs) = read_sign (dropWhile is_space s);
          ip = takeWhile is_digit cs;
          rest = dropWhile is_digit cs;
          fp = (case rest of c # cs' \<Rightarrow> if c = CHR ''.'' then takeWhile is_digit cs' else [] | [] \<Rightarrow> []);
          (mag, exact) = dbl_of_ratio (digits_value (ip @ fp)) (10 ^ length fp)
      in if ip @ fp = [] then Raised (InvalidArgument ''stod'')
         else if mag \<ge> 0x7FF0000000000000 then Raised (OutOfRange ''stod'')
         else if mag < 2 ^ 52 \<and> \<not> exact then Raised (OutOfRange ''stod'')
         else Done (if neg then word_of_nat (2 ^ 63 + mag) else word_of_nat mag))"

section \<open>Literals as values\<close>

definition token_of_sql :: "sql_token \<Rightarrow> data_token outcome" where
  "token_of_sql t =
     (if \<not> is_literal t then Raised (InvalidArgument ''Cannot convert non-literal SQL token to a data token'')
      else obind (get_literal t) (\<lambda>literal_type. case literal_type of
        LIT_INTEGER \<Rightarrow> obind (stoi (st_value t)) (\<lambda>v.
          Done \<lparr>tok_bytes = le_bytes 4 (word_of_int v :: u32), tok_type = DT_INTEGER\<rparr>)
      | LIT_REAL \<Rightarrow> obind (stod (st_value t)) (\<lambda>v.
          Done \<lparr>tok_bytes = le_bytes 8 v, tok_type = DT_REAL\<rparr>)
      | LIT_STRING \<Rightarrow> Done \<lparr>tok_bytes = bytes_of_string (st_value t), tok_type = DT_STRING\<rparr>
      | LIT_BOOL \<Rightarrow> Done \<lparr>tok_bytes = [if st_value t = ''true'' \<or> st_value t = ''1'' then 1 else 0],
                       tok_type = DT_BOOL\<rparr>
      | LIT_CHAR \<Rightarrow> Done \<lparr>tok_bytes = [case st_value t of c # _ \<Rightarrow> byte_of_char c | [] \<Rightarrow> 0], tok_type = DT_CHAR\<rparr>
      | LIT_NULL \<Rightarrow> Done null_token
      | LIT_COUNT \<Rightarrow> Raised (InvalidArgument
          ''Cannot convert SQL token to a data token: invalid value type: '')))"

section \<open>Facts about conversions\<close>

lemma le_word_of_int: "le_word (le_bytes 4 (word_of_int v :: u32)) = (word_of_int v :: u32)"
  by simp

lemma stoi_range: "stoi s = Done v \<Longrightarrow> - (2 ^ 31) \<le> v \<and> v < 2 ^ 31"
  by (auto simp: stoi_def Let_def split: prod.splits if_splits)

lemma stod_not_nan: "stod s = Done w \<Longrightarrow> \<not> dbl_nan w"
proof -
  assume "stod s = Done w"
  then obtain mag neg where mag: "mag < 0x7FF0000000000000"
    and w: "w = (if neg then word_of_nat (2 ^ 63 + mag) else word_of_nat mag)"
    by (auto simp: stod_def Let_def not_le split: prod.splits if_splits)
  have "unat (word_of_nat mag :: u64) = mag" "unat (word_of_nat (2 ^ 63 + mag) :: u64) = 2 ^ 63 + mag"
    using mag by (simp_all only: unsigned_of_nat) (simp_all add: take_bit_nat_eq_self)
  then have "dbl_magnitude w = mag"
    using mag unfolding w by (cases neg) (simp_all add: dbl_magnitude_def)
  then show ?thesis using mag by (simp add: dbl_nan_def)
qed

lemma literal_cases:
  assumes "token_of_sql t = Done d"
  obtains l where "get_literal t = Done l" and "l \<noteq> LIT_COUNT"
proof -
  obtain l where l: "get_literal t = Done l"
    using assms by (auto simp: token_of_sql_def obind_Done_conv simp del: get_literal.simps split: if_splits)
  moreover have "l \<noteq> LIT_COUNT"
    using assms l by (auto simp: token_of_sql_def simp del: get_literal.simps split: if_splits)
  ultimately show thesis by (rule that)
qed

section \<open>Properties\<close>

definition int_literal :: "string \<Rightarrow> sql_token" where
  "int_literal s = \<lparr>st_type = TT_LITERAL, st_value = s, st_line = 1, st_pos = 0, st_detail = DLiteral LIT_INTEGER\<rparr>"

lemma stoi_42: "stoi ''42'' = Done 42"
  by (simp add: stoi_def is_space_def is_digit_def digits_value_def digit_value_def)

text \<open>The value built from a literal always has the byte layout of its type (four bytes for an integer, eight
  bytes that are not NaN for a real, one byte for a bool or char, none for NULL), so that no later
  \<^verbatim>\<open>DataToken::as<T>\<close> on it fails its assertion.\<close>

theorem literal_value_wellformed:
  assumes "token_of_sql t = Done d"
  shows "wf_token d \<and> tok_type d \<in> {DT_INTEGER, DT_REAL, DT_STRING, DT_BOOL, DT_CHAR, DT_NULL}"
proof -
  obtain l where l: "get_literal t = Done l" "l \<noteq> LIT_COUNT" using literal_cases [OF assms] .
  have lit: "is_literal t" using assms by (auto simp: token_of_sql_def split: if_splits)
  show ?thesis
    using assms l lit stod_not_nan
    by (cases l) (auto simp: token_of_sql_def obind_Done_conv null_token_def simp del: get_literal.simps)
qed

theorem literal_value_wellformed_witness: "\<exists>d. token_of_sql (int_literal ''42'') = Done d \<and> wf_token d"
proof -
  have "\<exists>d. token_of_sql (int_literal ''42'') = Done d"
    using stoi_42 by (simp add: token_of_sql_def int_literal_def is_literal_def)
  with literal_value_wellformed show ?thesis by blast
qed

text \<open>An integer literal denotes its decimal value: whenever \<^verbatim>\<open>std::stoi\<close> accepts the text, the
  four bytes stored read back as that number, and otherwise the conversion throws what \<^verbatim>\<open>std::stoi\<close>
  throws.\<close>

theorem integer_literal_value:
  "obind (token_of_sql (int_literal s)) as_int = stoi s"
proof (cases "stoi s")
  case (Done v)
  then have "sint (word_of_int v :: u32) = v"
    using stoi_range [OF Done] by (simp add: signed_of_int signed_take_bit_int_eq_self)
  with Done show ?thesis
    by (simp add: token_of_sql_def int_literal_def is_literal_def as_int_def)
qed (simp_all add: token_of_sql_def int_literal_def is_literal_def)

end
