(* ===== verification/Sql_Ast.thy ===== *)
theory Sql_Ast
  imports Sql_Token
begin

text \<open>
  The abstract syntax of SQL statements, \<^verbatim>\<open>types/include/ast_tree.hpp\<close>. The operands of a
  \<^verbatim>\<open>BinaryExpr\<close> are owning pointers: a null pointer, as \<^verbatim>\<open>NOT\<close> has for its left operand, is \<open>None\<close>.
\<close>

datatype ast_node_type =
    NT_IDENTIFIER | NT_TABLE_IDENTIFIER | NT_COLUMN_IDENTIFIER | NT_LITERAL | NT_BINARY_EXPR | NT_SELECT
  | NT_INSERT | NT_UPDATE | NT_DELETE | NT_CREATE_TABLE | NT_CREATE_DATABASE | NT_CREATE_SCHEMA
  | NT_CREATE_INDEX | NT_DROP_INDEX | NT_ALTER_TABLE | NT_ADD_COLUMN

datatype ast_operator =
    AO_UNDEFINED | AO_OR | AO_AND | AO_NOT | AO_EQ | AO_NEQ | AO_GR | AO_GRE | AO_LT | AO_LTE | AO_IS | AO_ASSIGN

definition ast_operators_priorities :: "(ast_operator \<times> int) list" where
  "ast_operators_priorities =
     [(AO_OR, 1), (AO_AND, 2), (AO_NOT, 3), (AO_EQ, 4), (AO_NEQ, 4), (AO_GR, 4), (AO_GRE, 4), (AO_LT, 4),
      (AO_LTE, 4), (AO_IS, 4), (AO_ASSIGN, 4)]"

record table_identifier =
  ti_table_name :: sql_token
  ti_schema_name :: "sql_token option"

record column_definition =
  cd_name :: sql_token
  cd_type :: sql_token
  cd_constraints :: "sql_token list"

datatype ast_node = AstNode (an_type: ast_node_type) (an_value: ast_node_value)
and ast_node_value =
    VToken sql_token
  | VBinary binary_expr
  | VSelect table_identifier "sql_token list" "binary_expr option" "u64 option"
  | VInsert table_identifier "sql_token list" "sql_token list list"
  | VUpdate table_identifier "binary_expr list" "binary_expr option"
  | VDelete table_identifier "binary_expr option"
  | VCreateTable table_identifier "column_definition list"
  | VCreateDb sql_token
  | VCreateSchema sql_token
  | VCreateIndex table_identifier sql_token sql_token bool
  | VDropIndex table_identifier sql_token
  | VColumnDefinition column_definition
  | VAlterTable table_identifier "column_definition list"
and binary_expr = BinaryExpr (be_op: ast_operator) (be_left: "ast_node option") (be_right: "ast_node option")

end
