(* ===== verification/Db_Types.thy ===== *)
theory Db_Types
  imports Data_Token
begin

text \<open>
  The stored objects of \<^verbatim>\<open>src/deltabase/src/types\<close>: rows, data pages, table, column, index and
  schema metadata, index pages and files, the database configuration, and the operations of
  \<^verbatim>\<open>MetaTable\<close>.
\<close>

section \<open>Rows and pages\<close>

definition OBSOLETE :: u32 where
  "OBSOLETE = 1"

record data_row =
  dr_id :: row_id
  dr_flags :: u32
  dr_tokens :: "data_token list"

text \<open>\<^verbatim>\<open>has_flag\<close>, \<^verbatim>\<open>|=\<close> and \<^verbatim>\<open>&= ~\<close> on \<^verbatim>\<open>DataRowFlags\<close>.\<close>

definition has_flag :: "u32 \<Rightarrow> u32 \<Rightarrow> bool" where
  "has_flag v flag \<longleftrightarrow> v AND flag \<noteq> 0"

definition set_obsolete :: "data_row \<Rightarrow> data_row" where
  "set_obsolete r = r\<lparr>dr_flags := dr_flags r OR OBSOLETE\<rparr>"

definition clear_obsolete :: "data_row \<Rightarrow> data_row" where
  "clear_obsolete r = r\<lparr>dr_flags := dr_flags r AND NOT OBSOLETE\<rparr>"

abbreviation obsolete :: "data_row \<Rightarrow> bool" where
  "obsolete r \<equiv> has_flag (dr_flags r) OBSOLETE"

record data_page =
  dp_id :: uuid
  dp_next :: uuid
  dp_table_id :: uuid
  dp_min_rid :: row_id
  dp_max_rid :: row_id
  dp_rows_count :: u64
  dp_last_lsn :: lsn
  dp_size :: u64
  dp_path :: path
  dp_rows :: "data_row list"

definition DP_MAX_SIZE :: u64 where
  "DP_MAX_SIZE = 32 * 1024"

definition DP_HEADER_SIZE :: u64 where
  "DP_HEADER_SIZE = 16 * 3 + 8 * 2 + 8 + 8"

text \<open>\<^verbatim>\<open>DataPage::make\<close>; \<open>to_string\<close> is \<^verbatim>\<open>UUID::to_string\<close>.\<close>

definition data_page_make :: "(uuid \<Rightarrow> string) \<Rightarrow> path \<Rightarrow> uuid \<Rightarrow> uuid \<Rightarrow> data_page" where
  "data_page_make to_string base_path table_id page_id =
     \<lparr>dp_id = page_id, dp_next = 0, dp_table_id = table_id, dp_min_rid = 0, dp_max_rid = 0,
      dp_rows_count = 0, dp_last_lsn = 0, dp_size = DP_HEADER_SIZE, dp_path = base_path @ [to_string page_id],
      dp_rows = []\<rparr>"

section \<open>Metadata\<close>

record meta_column =
  mc_id :: uuid
  mc_table_id :: uuid
  mc_name :: string
  mc_type :: data_type
  mc_flags :: u32

record meta_index =
  mi_id :: uuid
  mi_table_id :: uuid
  mi_column_id :: uuid
  mi_root_page_id :: uuid
  mi_name :: string
  mi_key_type :: data_type
  mi_is_unique :: bool

record meta_schema =
  sc_id :: uuid
  sc_name :: string
  sc_db_name :: string

record meta_table =
  mt_id :: uuid
  mt_schema_id :: uuid
  mt_name :: string
  mt_columns :: "meta_column list"
  mt_indexes :: "meta_index list"
  mt_last_rid :: row_id
  mt_total_rows :: u64
  mt_live_rows :: u64

section \<open>Indexes\<close>

type_synonym index_page_id = u64
type_synonym row_ptr = "uuid \<times> row_id"

datatype index_node =
    InternalIndexNode (in_keys: "data_token list") (in_children: "index_page_id list")
  | LeafIndexNode (in_keys: "data_token list") (in_rows: "row_ptr list") (in_next_leaf: index_page_id)

record index_page =
  ip_id :: index_page_id
  ip_parent :: index_page_id
  ip_index_id :: uuid
  ip_is_leaf :: bool
  ip_data :: index_node

record index_file =
  if_index_id :: uuid
  if_root_page :: index_page_id
  if_last_page :: index_page_id
  if_last_lsn :: lsn
  if_pages :: "index_page list"

section \<open>Configuration\<close>

text \<open>The three enumerations are \<^verbatim>\<open>int\<close>s that the engine copies.\<close>

record config =
  cfg_db_name :: "string option"
  cfg_default_schema :: string
  cfg_db_path :: string
  cfg_io_type :: u32
  cfg_planner_type :: u32
  cfg_serializer_type :: u32
  cfg_last_checkpoint_lsn :: lsn

section \<open>MetaTable operations\<close>

definition has_column :: "meta_table \<Rightarrow> string \<Rightarrow> bool" where
  "has_column mt name \<longleftrightarrow> list_ex (\<lambda>c. mc_name c = name) (mt_columns mt)"

definition get_column_by_name :: "meta_table \<Rightarrow> string \<Rightarrow> meta_column outcome" where
  "get_column_by_name mt name =
     (case find (\<lambda>c. mc_name c = name) (mt_columns mt) of
        Some c \<Rightarrow> Done c
      | None \<Rightarrow> Raised (RuntimeError ''MetaTable::get_column: column not found''))"

definition get_column_by_pos :: "meta_table \<Rightarrow> int \<Rightarrow> meta_column outcome" where
  "get_column_by_pos mt pos =
     (if pos < 0 \<or> pos \<ge> int (length (mt_columns mt))
      then Raised (RuntimeError ''MetaTable::get_column: column at pos not found'')
      else Done (mt_columns mt ! nat pos))"

definition get_column_by_id :: "meta_table \<Rightarrow> uuid \<Rightarrow> meta_column outcome" where
  "get_column_by_id mt cid =
     (case find (\<lambda>c. mc_id c = cid) (mt_columns mt) of
        Some c \<Rightarrow> Done c
      | None \<Rightarrow> Raised (RuntimeError ''MetaTable::get_column: column not found''))"

text \<open>The loop \<^verbatim>\<open>for (i = 0; i < columns.size(); ++i) if (...) return i;\<close>\<close>

fun find_idx :: "('a \<Rightarrow> bool) \<Rightarrow> 'a list \<Rightarrow> nat option" where
  "find_idx P [] = None"
| "find_idx P (x # xs) = (if P x then Some 0 else map_option Suc (find_idx P xs))"

definition get_column_idx_by_name :: "meta_table \<Rightarrow> string \<Rightarrow> int" where
  "get_column_idx_by_name mt name =
     (case find_idx (\<lambda>c. mc_name c = name) (mt_columns mt) of Some i \<Rightarrow> int i | None \<Rightarrow> -1)"

definition get_column_idx_by_id :: "meta_table \<Rightarrow> uuid \<Rightarrow> int outcome" where
  "get_column_idx_by_id mt cid =
     (case find_idx (\<lambda>c. mc_id c = cid) (mt_columns mt) of
        Some i \<Rightarrow> Done (int i)
      | None \<Rightarrow> Raised (RuntimeError ''MetaTable::get_column_idx: column doesnt exist''))"

text \<open>The two filling loops of \<^verbatim>\<open>make_row\<close>, over the remaining indices.\<close>

fun fill_by_index :: "nat \<Rightarrow> data_token list \<Rightarrow> data_token list \<Rightarrow> data_token list" where
  "fill_by_index i [] acc = acc"
| "fill_by_index i (t # ts) acc = (if i < length acc then fill_by_index (Suc i) ts (acc[i := t]) else acc)"

fun fill_by_name ::
  "meta_table \<Rightarrow> nat \<Rightarrow> string list \<Rightarrow> data_token list \<Rightarrow> data_token list \<Rightarrow> data_token list" where
  "fill_by_name mt i [] row acc = acc"
| "fill_by_name mt i (c # cs) row acc =
     (let col_idx = get_column_idx_by_name mt c
      in fill_by_name mt (Suc i) cs row
           (if col_idx \<noteq> -1 \<and> i < length row then acc[nat col_idx := row ! i] else acc))"

definition make_row ::
  "string list option \<Rightarrow> data_token list \<Rightarrow> meta_table \<Rightarrow> data_row \<times> meta_table" where
  "make_row cols row mt =
     (let rid = mt_last_rid mt;
          mt' = mt\<lparr>mt_last_rid := rid + 1, mt_total_rows := mt_total_rows mt + 1,
                   mt_live_rows := mt_live_rows mt + 1\<rparr>;
          base = replicate (length (mt_columns mt)) null_token;
          tokens = (case cols of None \<Rightarrow> fill_by_index 0 row base
                               | Some cs \<Rightarrow> fill_by_name mt 0 cs row base)
      in (\<lparr>dr_id = rid, dr_flags = 0, dr_tokens = tokens\<rparr>, mt'))"

section \<open>Facts about rows and columns\<close>

lemma obsolete_set [simp]: "obsolete (set_obsolete r)"
proof -
  have "(dr_flags r OR 1) AND 1 = (1 :: u32)"
    by (rule bit_eqI) (auto simp: bit_simps)
  then show ?thesis by (simp add: has_flag_def set_obsolete_def OBSOLETE_def)
qed

lemma obsolete_clear [simp]: "\<not> obsolete (clear_obsolete r)"
proof -
  have "(dr_flags r AND NOT 1) AND 1 = (0 :: u32)"
    by (rule bit_eqI) (auto simp: bit_simps)
  then show ?thesis by (simp add: has_flag_def clear_obsolete_def OBSOLETE_def)
qed

lemma set_obsolete_sel [simp]:
  "dr_id (set_obsolete r) = dr_id r" "dr_tokens (set_obsolete r) = dr_tokens r"
  by (simp_all add: set_obsolete_def)

lemma clear_obsolete_sel [simp]:
  "dr_id (clear_obsolete r) = dr_id r" "dr_tokens (clear_obsolete r) = dr_tokens r"
  by (simp_all add: clear_obsolete_def)

lemma set_obsolete_idem [simp]: "set_obsolete (set_obsolete r) = set_obsolete r"
  by (simp add: set_obsolete_def or.assoc)

lemma find_idx_Some:
  "find_idx P xs = Some i \<longleftrightarrow> i < length xs \<and> P (xs ! i) \<and> (\<forall>j<i. \<not> P (xs ! j))"
proof (induction xs arbitrary: i)
  case Nil
  then show ?case by simp
next
  case (Cons x xs)
  show ?case
    by (cases i) (auto simp: Cons All_less_Suc2)
qed

lemma find_idx_None: "find_idx P xs = None \<longleftrightarrow> (\<forall>x\<in>set xs. \<not> P x)"
  by (induction xs) auto

lemma length_fill_by_index [simp]: "length (fill_by_index i ts acc) = length acc"
  by (induction i ts acc rule: fill_by_index.induct) auto

lemma length_fill_by_name [simp]: "length (fill_by_name mt i cs row acc) = length acc"
  by (induction mt i cs row acc rule: fill_by_name.induct) (auto simp: Let_def)

end
