(* ===== verification/Evaluator.thy ===== *)
theory Evaluator
  imports Sql_Ast Db_Types
begin

text \<open>
  The evaluation of \<^verbatim>\<open>WHERE\<close> conditions on a row, \<^verbatim>\<open>src/deltabase/src/executor/evaluator.cpp\<close>.
\<close>

section \<open>Comparisons\<close>

definition ev_eq :: "data_token \<Rightarrow> data_token \<Rightarrow> bool outcome" where
  "ev_eq l r =
     (if tok_type l = DT_NULL \<or> tok_type r = DT_NULL then Done (tok_type l = tok_type r)
      else if tok_type l \<noteq> tok_type r then Done False
      else case tok_type l of
        DT_NULL \<Rightarrow> Done True
      | DT_INTEGER \<Rightarrow> olift2 (=) (as_int l) (as_int r)
      | DT_REAL \<Rightarrow> olift2 dbl_eq (as_double l) (as_double r)
      | DT_STRING \<Rightarrow> olift2 (=) (as_string l) (as_string r)
      | DT_BOOL \<Rightarrow> olift2 (=) (as_bool l) (as_bool r)
      | DT_CHAR \<Rightarrow> olift2 (=) (as_char l) (as_char r)
      | _ \<Rightarrow> Done False)"

text \<open>The overloads of \<^verbatim>\<open>lt\<close> and \<^verbatim>\<open>lte\<close> return \<^verbatim>\<open>left > right\<close> and \<^verbatim>\<open>left >= right\<close>.\<close>

definition ev_lt :: "data_token \<Rightarrow> data_token \<Rightarrow> bool outcome" where
  "ev_lt l r =
     (if tok_type l \<noteq> tok_type r then Done False
      else case tok_type l of
        DT_INTEGER \<Rightarrow> olift2 (>) (as_int l) (as_int r)
      | DT_REAL \<Rightarrow> olift2 (\<lambda>x y. dbl_less y x) (as_double l) (as_double r)
      | DT_STRING \<Rightarrow> olift2 (\<lambda>x y. lex_less y x) (as_string l) (as_string r)
      | DT_CHAR \<Rightarrow> olift2 (>) (as_char l) (as_char r)
      | _ \<Rightarrow> Done False)"

definition ev_lte :: "data_token \<Rightarrow> data_token \<Rightarrow> bool outcome" where
  "ev_lte l r =
     (if tok_type l \<noteq> tok_type r then Done False
      else case tok_type l of
        DT_INTEGER \<Rightarrow> olift2 (\<ge>) (as_int l) (as_int r)
      | DT_REAL \<Rightarrow> olift2 (\<lambda>x y. dbl_le y x) (as_double l) (as_double r)
      | DT_STRING \<Rightarrow> olift2 (\<lambda>x y. \<not> lex_less x y) (as_string l) (as_string r)
      | DT_CHAR \<Rightarrow> olift2 (\<ge>) (as_char l) (as_char r)
      | _ \<Rightarrow> Done False)"

definition ev_gr :: "data_token \<Rightarrow> data_token \<Rightarrow> bool outcome" where
  "ev_gr l r =
     (if tok_type l \<noteq> tok_type r then Done False
      else case tok_type l of
        DT_INTEGER \<Rightarrow> olift2 (>) (as_int l) (as_int r)
      | DT_REAL \<Rightarrow> olift2 (\<lambda>x y. dbl_less y x) (as_double l) (as_double r)
      | DT_STRING \<Rightarrow> olift2 (\<lambda>x y. lex_less y x) (as_string l) (as_string r)
      | DT_CHAR \<Rightarrow> olift2 (>) (as_char l) (as_char r)
      | _ \<Rightarrow> Done False)"

definition ev_gre :: "data_token \<Rightarrow> data_token \<Rightarrow> bool outcome" where
  "ev_gre l r =
     (if tok_type l \<noteq> tok_type r then Done False
      else case tok_type l of
        DT_INTEGER \<Rightarrow> olift2 (\<ge>) (as_int l) (as_int r)
      | DT_REAL \<Rightarrow> olift2 (\<lambda>x y. dbl_le y x) (as_double l) (as_double r)
      | DT_STRING \<Rightarrow> olift2 (\<lambda>x y. \<not> lex_less x y) (as_string l) (as_string r)
      | DT_CHAR \<Rightarrow> olift2 (\<ge>) (as_char l) (as_char r)
      | _ \<Rightarrow> Done False)"

fun ev_compare :: "data_token \<Rightarrow> data_token \<Rightarrow> ast_operator \<Rightarrow> bool outcome" where
  "ev_compare l r AO_EQ = ev_eq l r"
| "ev_compare l r AO_NEQ = obind (ev_eq l r) (\<lambda>b. Done (\<not> b))"
| "ev_compare l r AO_LT = ev_lt l r"
| "ev_compare l r AO_LTE = ev_lte l r"
| "ev_compare l r AO_GR = ev_gr l r"
| "ev_compare l r AO_GRE = ev_gre l r"
| "ev_compare l r AO_IS = ev_eq l r"
| "ev_compare l r _ = Done False"

section \<open>Conditions\<close>

text \<open>\<^verbatim>\<open>std::get<SqlToken>\<close> on an operand: a null pointer is dereferenced, another alternative throws.\<close>

fun operand_token :: "ast_node option \<Rightarrow> sql_token outcome" where
  "operand_token None = Undef"
| "operand_token (Some (AstNode ty (VToken t))) = Done t"
| "operand_token (Some _) = Raised (RuntimeError ''bad_variant_access'')"

text \<open>\<^verbatim>\<open>row.tokens.at(i)\<close> throws outside the vector (an index of -1 is a huge one), \<^verbatim>\<open>row.tokens[i]\<close> is undefined there.\<close>

definition tokens_at :: "data_token list \<Rightarrow> int \<Rightarrow> data_token outcome" where
  "tokens_at ts i = (if 0 \<le> i \<and> i < int (length ts) then Done (ts ! nat i) else Raised (OutOfRange ''vector::_M_range_check''))"

definition tokens_index :: "data_token list \<Rightarrow> int \<Rightarrow> data_token outcome" where
  "tokens_index ts i = (if 0 \<le> i \<and> i < int (length ts) then Done (ts ! nat i) else Undef)"

definition evaluate :: "meta_table \<Rightarrow> meta_table \<Rightarrow> data_row \<Rightarrow> binary_expr \<Rightarrow> bool outcome" where
  "evaluate table_member table row expr =
     obind (operand_token (be_left expr)) (\<lambda>left.
     obind (operand_token (be_right expr)) (\<lambda>right.
       if is_identifier left \<and> is_literal right then
         obind (tokens_at (dr_tokens row) (get_column_idx_by_name table (st_value left))) (\<lambda>left_value.
         obind (token_of_sql right) (\<lambda>right_literal.
         ev_compare left_value right_literal (be_op expr)))
       else if is_identifier left \<and> is_identifier right then
         obind (tokens_index (dr_tokens row) (get_column_idx_by_name table_member (st_value left))) (\<lambda>left_value.
         obind (tokens_index (dr_tokens row) (get_column_idx_by_name table_member (st_value right))) (\<lambda>right_value.
         ev_compare left_value right_value (be_op expr)))
       else if is_literal left \<and> is_literal right then
         obind (token_of_sql left) (\<lambda>left_literal.
         obind (token_of_sql right) (\<lambda>right_literal.
         ev_compare left_literal right_literal (be_op expr)))
       else Raised (RuntimeError ''Evaluator::evaluate: Invalid comparison'')))"

section \<open>Properties\<close>

definition int_token :: "int \<Rightarrow> data_token" where
  "int_token v = \<lparr>tok_bytes = le_bytes 4 (word_of_int v :: u32), tok_type = DT_INTEGER\<rparr>"

lemma int_literal_42: "token_of_sql (int_literal ''42'') = Done (int_token 42)"
  using stoi_42 by (simp add: token_of_sql_def int_literal_def is_literal_def int_token_def)

lemma dbl_less_key: "\<not> dbl_nan a \<Longrightarrow> \<not> dbl_nan b \<Longrightarrow> dbl_less a b \<longleftrightarrow> dbl_key a < dbl_key b"
  by (simp add: dbl_less_def)

lemma dbl_le_key: "\<not> dbl_nan a \<Longrightarrow> \<not> dbl_nan b \<Longrightarrow> dbl_le a b \<longleftrightarrow> dbl_key a \<le> dbl_key b"
  by (simp add: dbl_le_def)

text \<open>On well-formed values of the same ordered type (integer, real, char or string) the conditions
  \<^verbatim>\<open>==\<close>, \<^verbatim>\<open>!=\<close>, \<^verbatim>\<open>>\<close> and \<^verbatim>\<open>>=\<close> decide equality and the order of the values that the storage engine
  uses for index keys.\<close>

theorem condition_order:
  assumes "wf_token l" and "wf_token r" and "tok_type l = tok_type r"
    and "tok_type l \<in> {DT_INTEGER, DT_REAL, DT_CHAR, DT_STRING}"
  shows "ev_compare l r AO_EQ = tok_eq l r \<and> ev_compare l r AO_NEQ = tok_neq l r \<and>
    ev_compare l r AO_GR = tok_less r l \<and> ev_compare l r AO_GRE = tok_ge l r"
proof -
  consider "tok_type l = DT_INTEGER" | "tok_type l = DT_REAL" | "tok_type l = DT_CHAR" | "tok_type l = DT_STRING"
    using assms(4) by blast
  then show ?thesis
    using assms(1-3)
    by cases (auto simp: ev_eq_def ev_gr_def ev_gre_def tok_eq_def tok_neq_def tok_less_def tok_ge_def
        tok_defs dbl_less_key dbl_le_key not_less dest!: length1E)
qed

theorem condition_order_witness:
  "ev_compare (int_token 7) (int_token 5) AO_GR = tok_less (int_token 5) (int_token 7)"
  using condition_order [of "int_token 7" "int_token 5"] by (simp add: int_token_def)

text \<open>The conditions \<^verbatim>\<open><\<close> and \<^verbatim>\<open><=\<close> are evaluated exactly as \<^verbatim>\<open>>\<close> and \<^verbatim>\<open>>=\<close>, on all values.\<close>

theorem less_than_is_greater_than:
  "ev_compare l r AO_LT = ev_compare l r AO_GR \<and> ev_compare l r AO_LTE = ev_compare l r AO_GRE"
  by (simp add: ev_lt_def ev_gr_def ev_lte_def ev_gre_def)

text \<open>A condition \<^verbatim>\<open>column op literal\<close> on a row that has a value for every column of the table
  compares the value of the first column of that name with the value of the literal.\<close>

theorem condition_column_literal:
  assumes "find_idx (\<lambda>c. mc_name c = st_value col) (mt_columns table) = Some i"
    and "length (dr_tokens row) = length (mt_columns table)"
    and "is_identifier col" and "token_of_sql lit = Done v"
  shows "evaluate tm table row (BinaryExpr op (Some (AstNode ct (VToken col))) (Some (AstNode lt (VToken lit)))) =
    ev_compare (dr_tokens row ! i) v op"
proof -
  have "is_literal lit" using assms(4) by (auto simp: token_of_sql_def split: if_splits)
  moreover have "i < length (mt_columns table)" using assms(1) by (simp add: find_idx_Some)
  ultimately show ?thesis
    using assms by (simp add: evaluate_def tokens_at_def get_column_idx_by_name_def)
qed

definition id_token :: "string \<Rightarrow> sql_token" where
  "id_token s = \<lparr>st_type = TT_IDENTIFIER, st_value = s, st_line = 1, st_pos = 0, st_detail = NoDetail\<rparr>"

definition one_column :: meta_table where
  "one_column = \<lparr>mt_id = 1, mt_schema_id = 2, mt_name = ''t'',
     mt_columns = [\<lparr>mc_id = 3, mc_table_id = 1, mc_name = ''a'', mc_type = DT_INTEGER, mc_flags = 0\<rparr>],
     mt_indexes = [], mt_last_rid = 8, mt_total_rows = 8, mt_live_rows = 6\<rparr>"

theorem condition_column_literal_witness:
  "evaluate one_column one_column \<lparr>dr_id = 1, dr_flags = 0, dr_tokens = [int_token 7]\<rparr>
     (BinaryExpr AO_GR (Some (AstNode NT_IDENTIFIER (VToken (id_token ''a''))))
        (Some (AstNode NT_LITERAL (VToken (int_literal ''42''))))) = ev_compare (int_token 7) (int_token 42) AO_GR"
  using condition_column_literal [OF _ _ _ int_literal_42, of "id_token ''a''" one_column 0
      "\<lparr>dr_id = 1, dr_flags = 0, dr_tokens = [int_token 7]\<rparr>"]
  by (simp add: one_column_def id_token_def is_identifier_def)

end
