(* ===== verification/Memory_Stream.thy ===== *)
theory Memory_Stream
  imports Db_Prelude
begin

text \<open>
  The byte streams of \<^verbatim>\<open>src/deltabase/src/misc/memory_stream.cpp\<close>:
  \<^verbatim>\<open>MemoryStream\<close> (a growable buffer with a write position) and
  \<^verbatim>\<open>ReadOnlyMemoryStream\<close> (a buffer with a read position), the byte swap of
  \<^verbatim>\<open>misc/include/utils.hpp\<close>, and the calculus in which every decoder of the
  development is verified: \<open>consumes m bs x\<close> says that the decoder \<open>m\<close>, standing before
  the bytes \<open>bs\<close> anywhere in a buffer, returns \<open>x\<close> and advances by exactly \<open>bs\<close>.
\<close>

section \<open>MemoryStream\<close>

record mem_stream =
  ms_buffer :: "byte list"
  ms_position :: nat

definition ms_new :: mem_stream where
  "ms_new = \<lparr>ms_buffer = [], ms_position = 0\<rparr>"

text \<open>\<^verbatim>\<open>write\<close>: grow to \<^verbatim>\<open>position_ + count\<close> if needed (new bytes are zero), overwrite there, advance.\<close>

definition ms_write :: "byte list \<Rightarrow> mem_stream \<Rightarrow> mem_stream" where
  "ms_write src st =
     (let count = length src; pos = ms_position st;
          buf = (if pos + count > length (ms_buffer st)
                 then ms_buffer st @ replicate (pos + count - length (ms_buffer st)) 0
                 else ms_buffer st)
      in st\<lparr>ms_buffer := take pos buf @ src @ drop (pos + count) buf, ms_position := pos + count\<rparr>)"

text \<open>\<^verbatim>\<open>read\<close>: the bytes copied out (their number is the value returned) and the advanced stream.\<close>

definition ms_read :: "nat \<Rightarrow> mem_stream \<Rightarrow> byte list \<times> mem_stream" where
  "ms_read count st =
     (let pos = ms_position st;
          n = (if pos + count > length (ms_buffer st) then length (ms_buffer st) - pos else count)
      in (take n (drop pos (ms_buffer st)), st\<lparr>ms_position := pos + n\<rparr>))"

text \<open>\<^verbatim>\<open>append\<close>: insert at the end of the buffer, whatever the position is, and advance by that many.\<close>

definition ms_append :: "mem_stream \<Rightarrow> nat \<Rightarrow> mem_stream \<Rightarrow> mem_stream" where
  "ms_append other count st =
     (let n = min count (length (ms_buffer other))
      in st\<lparr>ms_buffer := ms_buffer st @ take n (ms_buffer other), ms_position := ms_position st + n\<rparr>)"

definition ms_seek :: "nat \<Rightarrow> mem_stream \<Rightarrow> mem_stream outcome" where
  "ms_seek pos st =
     (if pos > length (ms_buffer st) then Raised (OutOfRange ''seek past end'')
      else Done (st\<lparr>ms_position := pos\<rparr>))"

definition ms_size :: "mem_stream \<Rightarrow> nat" where
  "ms_size st = length (ms_buffer st)"

definition to_big_endian_u64 :: "u64 \<Rightarrow> u64" where
  "to_big_endian_u64 v =
     push_bit 56 (v AND 0x00000000000000FF)
     OR push_bit 40 (v AND 0x000000000000FF00)
     OR push_bit 24 (v AND 0x0000000000FF0000)
     OR push_bit 8 (v AND 0x00000000FF000000)
     OR drop_bit 8 (v AND 0x000000FF00000000)
     OR drop_bit 24 (v AND 0x0000FF0000000000)
     OR drop_bit 40 (v AND 0x00FF000000000000)
     OR drop_bit 56 (v AND 0xFF00000000000000)"

definition from_big_endian_u64 :: "u64 \<Rightarrow> u64" where
  "from_big_endian_u64 v = to_big_endian_u64 v"

definition ms_write_u64 :: "u64 \<Rightarrow> bool \<Rightarrow> mem_stream \<Rightarrow> mem_stream" where
  "ms_write_u64 v big_endian st =
     ms_write (le_bytes 8 (if big_endian then to_big_endian_u64 v else v)) st"

definition ms_write_uuid :: "uuid \<Rightarrow> mem_stream \<Rightarrow> mem_stream" where
  "ms_write_uuid u st = ms_write (le_bytes 16 u) st"

definition ms_write_bytes :: "byte list \<Rightarrow> bool \<Rightarrow> mem_stream \<Rightarrow> mem_stream" where
  "ms_write_bytes bs big_endian st =
     (let size = (if big_endian then to_big_endian_u64 (word_of_nat (length bs))
                  else word_of_nat (length bs) :: u64);
          st1 = ms_write (le_bytes 8 size) st
      in if bs \<noteq> [] then ms_write bs st1 else st1)"

definition ms_write_string :: "string \<Rightarrow> bool \<Rightarrow> mem_stream \<Rightarrow> mem_stream" where
  "ms_write_string value big_endian st =
     (let size = (if big_endian then to_big_endian_u64 (word_of_nat (length value))
                  else word_of_nat (length value) :: u64);
          st1 = ms_write (le_bytes 8 size) st
      in if value \<noteq> [] then ms_write (bytes_of_string value) st1 else st1)"

section \<open>ReadOnlyMemoryStream\<close>

record ro_stream =
  ro_buffer :: "byte list"
  ro_position :: nat

definition ro_new :: "byte list \<Rightarrow> ro_stream" where
  "ro_new buf = \<lparr>ro_buffer = buf, ro_position = 0\<rparr>"

type_synonym 'a reader = "ro_stream \<Rightarrow> ('a \<times> ro_stream) outcome"

text \<open>
  \<^verbatim>\<open>read\<close>: the sum \<^verbatim>\<open>position_ + count\<close> is a 64-bit one and wraps. When the
  wrapped sum passes the check, \<^verbatim>\<open>memcpy\<close> reads past the buffer.
\<close>

definition ro_read :: "nat \<Rightarrow> byte list reader" where
  "ro_read count st =
     (let pos = ro_position st; size = length (ro_buffer st);
          n = (if (pos + count) mod 2 ^ 64 > size then size - pos else count)
      in if pos + n \<le> size
         then Done (take n (drop pos (ro_buffer st)), st\<lparr>ro_position := pos + n\<rparr>)
         else Undef)"

definition ro_seek :: "nat \<Rightarrow> ro_stream \<Rightarrow> ro_stream outcome" where
  "ro_seek pos st =
     (if pos > length (ro_buffer st) then Raised (OutOfRange ''seek past end'')
      else Done (st\<lparr>ro_position := pos\<rparr>))"

definition ro_remaining :: "ro_stream \<Rightarrow> nat" where
  "ro_remaining st = length (ro_buffer st) - ro_position st"

section \<open>Decoders\<close>

definition rreturn :: "'a \<Rightarrow> 'a reader" where
  "rreturn x st = Done (x, st)"

definition rbind :: "'a reader \<Rightarrow> ('a \<Rightarrow> 'b reader) \<Rightarrow> 'b reader" where
  "rbind m f st = obind (m st) (\<lambda>(x, st'). f x st')"

definition rfail :: "'a reader" where
  "rfail st = Failed"

text \<open>\<^verbatim>\<open>resize\<close> or \<^verbatim>\<open>reserve\<close> of \<open>n\<close> elements of \<open>sz\<close> bytes.\<close>

definition ralloc :: "nat \<Rightarrow> nat \<Rightarrow> unit reader" where
  "ralloc n sz st = (if n * sz > max_alloc then Raised LengthError else Done ((), st))"

text \<open>\<^verbatim>\<open>if (stream.read(&x, n) != n) return false;\<close>\<close>

definition rd_exact :: "nat \<Rightarrow> byte list reader" where
  "rd_exact n = rbind (ro_read n) (\<lambda>bs. if length bs = n then rreturn bs else rfail)"

text \<open>
  \<^verbatim>\<open>memcpy\<close> into an object whose bytes were \<open>old\<close>: a short read leaves its tail.
  \<open>rd_some\<close> is \<^verbatim>\<open>if (!stream.read(&x, n)) return false;\<close>, which only an empty read
  fails, and \<open>rd_any\<close> is a read whose result is not looked at.
\<close>

definition overlay :: "byte list \<Rightarrow> byte list \<Rightarrow> byte list" where
  "overlay old bs = bs @ drop (length bs) old"

definition rd_some :: "nat \<Rightarrow> byte list \<Rightarrow> byte list reader" where
  "rd_some n old = rbind (ro_read n) (\<lambda>bs. if bs = [] then rfail else rreturn (overlay old bs))"

definition rd_any :: "nat \<Rightarrow> byte list \<Rightarrow> byte list reader" where
  "rd_any n old = rbind (ro_read n) (\<lambda>bs. rreturn (overlay old bs))"

definition rd_word :: "nat \<Rightarrow> 'a::len word reader" where
  "rd_word n = rbind (rd_exact n) (\<lambda>bs. rreturn (le_word bs))"

text \<open>A loop \<^verbatim>\<open>for (i = 0; i < n; ++i) { ...; out.push_back(x); }\<close> that leaves on the first failure.\<close>

primrec rd_seq :: "nat \<Rightarrow> 'a reader \<Rightarrow> 'a list reader" where
  "rd_seq 0 m = rreturn []"
| "rd_seq (Suc n) m = rbind m (\<lambda>x. rbind (rd_seq n m) (\<lambda>xs. rreturn (x # xs)))"

definition ro_read_string :: "bool \<Rightarrow> string reader" where
  "ro_read_string big_endian =
     rbind (rd_word 8) (\<lambda>size_be :: u64.
       let size = unat (if big_endian then from_big_endian_u64 size_be else size_be)
       in (\<lambda>st. if size > ro_remaining st then Failed
                else rbind (ralloc size 1) (\<lambda>_.
                       if size = 0 then rreturn []
                       else rbind (rd_exact size) (\<lambda>bs. rreturn (string_of_bytes bs))) st))"

definition ro_read_bytes :: "bool \<Rightarrow> byte list reader" where
  "ro_read_bytes big_endian =
     rbind (rd_word 8) (\<lambda>size_be :: u64.
       let size = unat (if big_endian then from_big_endian_u64 size_be else size_be)
       in (\<lambda>st. if size > ro_remaining st then Failed
                else rbind (ralloc size 1) (\<lambda>_.
                       if size = 0 then rreturn [] else rd_exact size) st))"

definition ro_read_uuid :: "uuid reader" where
  "ro_read_uuid = rd_word 16"

text \<open>
  \<^verbatim>\<open>read_u64\<close> swaps the value its argument had on entry, reads into a local and never
  stores it back: the caller's variable \<open>out\<close> is returned unchanged.
\<close>

definition ro_read_u64 :: "u64 \<Rightarrow> bool \<Rightarrow> u64 reader" where
  "ro_read_u64 out big_endian = rbind (rd_exact 8) (\<lambda>_. rreturn out)"

section \<open>Writing at the end of a stream\<close>

text \<open>Serialisers only ever write with the position at the end; there writing and appending both extend the buffer.\<close>

definition at_end :: "mem_stream \<Rightarrow> bool" where
  "at_end st \<longleftrightarrow> ms_position st = length (ms_buffer st)"

lemma at_end_new [stream_simps]: "at_end ms_new" "ms_buffer ms_new = []"
  by (simp_all add: at_end_def ms_new_def)

lemma at_end_write [stream_simps]:
  "at_end st \<Longrightarrow> at_end (ms_write bs st)"
  "at_end st \<Longrightarrow> ms_buffer (ms_write bs st) = ms_buffer st @ bs"
  by (simp_all add: at_end_def ms_write_def Let_def)

lemma at_end_append [stream_simps]:
  "at_end st \<Longrightarrow> at_end (ms_append other (ms_size other) st)"
  "ms_buffer (ms_append other (ms_size other) st) = ms_buffer st @ ms_buffer other"
  by (simp_all add: at_end_def ms_append_def ms_size_def Let_def)

lemma seek_start [stream_simps]: "ms_seek 0 st = Done (st\<lparr>ms_position := 0\<rparr>)"
  by (simp add: ms_seek_def)

lemma at_end_write_uuid [stream_simps]:
  "at_end st \<Longrightarrow> at_end (ms_write_uuid u st)"
  "at_end st \<Longrightarrow> ms_buffer (ms_write_uuid u st) = ms_buffer st @ le_bytes 16 u"
  by (simp_all add: ms_write_uuid_def stream_simps)

lemma at_end_write_string [stream_simps]:
  "at_end st \<Longrightarrow> at_end (ms_write_string v True st)"
  "at_end st \<Longrightarrow> ms_buffer (ms_write_string v True st) =
     ms_buffer st @ le_bytes 8 (to_big_endian_u64 (word_of_nat (length v))) @ bytes_of_string v"
  by (auto simp: ms_write_string_def stream_simps Let_def)

lemma at_end_write_bytes [stream_simps]:
  "at_end st \<Longrightarrow> at_end (ms_write_bytes bs True st)"
  "at_end st \<Longrightarrow> ms_buffer (ms_write_bytes bs True st) =
     ms_buffer st @ le_bytes 8 (to_big_endian_u64 (word_of_nat (length bs))) @ bs"
  by (auto simp: ms_write_bytes_def stream_simps Let_def)

lemma at_end_write_u64 [stream_simps]:
  "at_end st \<Longrightarrow> at_end (ms_write_u64 v be st)"
  "at_end st \<Longrightarrow> ms_buffer (ms_write_u64 v be st) =
     ms_buffer st @ le_bytes 8 (if be then to_big_endian_u64 v else v)"
  by (auto simp: ms_write_u64_def stream_simps)

section \<open>The decoder calculus\<close>

definition consumes :: "'a reader \<Rightarrow> byte list \<Rightarrow> 'a \<Rightarrow> bool" where
  "consumes m bs x \<longleftrightarrow>
     (\<forall>pre post. length (pre @ bs @ post) \<le> max_alloc \<longrightarrow>
        m \<lparr>ro_buffer = pre @ bs @ post, ro_position = length pre\<rparr> =
        Done (x, \<lparr>ro_buffer = pre @ bs @ post, ro_position = length (pre @ bs)\<rparr>))"

lemma consumesI:
  assumes "\<And>pre post. length (pre @ bs @ post) \<le> max_alloc \<Longrightarrow>
    m \<lparr>ro_buffer = pre @ bs @ post, ro_position = length pre\<rparr> =
    Done (x, \<lparr>ro_buffer = pre @ bs @ post, ro_position = length (pre @ bs)\<rparr>)"
  shows "consumes m bs x"
  using assms by (simp add: consumes_def)

lemma consumesD:
  "consumes m bs x \<Longrightarrow> length (pre @ bs @ post) \<le> max_alloc \<Longrightarrow>
   m \<lparr>ro_buffer = pre @ bs @ post, ro_position = length pre\<rparr> =
   Done (x, \<lparr>ro_buffer = pre @ bs @ post, ro_position = length (pre @ bs)\<rparr>)"
  by (simp add: consumes_def)

lemma consumes_new:
  "consumes m bs x \<Longrightarrow> length (bs @ post) \<le> max_alloc \<Longrightarrow>
   m (ro_new (bs @ post)) = Done (x, \<lparr>ro_buffer = bs @ post, ro_position = length bs\<rparr>)"
  using consumesD [of m bs x "[]" post] by (simp add: ro_new_def)

lemma consumes_return: "consumes (rreturn x) [] x"
  by (rule consumesI) (simp add: rreturn_def)

lemma consumes_returnI: "x = y \<Longrightarrow> consumes (rreturn x) [] y"
  by (simp add: consumes_return)

lemma consumes_bind:
  assumes "consumes m bs x" and "consumes (f x) cs y"
  shows "consumes (rbind m f) (bs @ cs) y"
proof (rule consumesI)
  fix pre post
  assume len: "length (pre @ (bs @ cs) @ post) \<le> max_alloc"
  have "m \<lparr>ro_buffer = pre @ bs @ cs @ post, ro_position = length pre\<rparr> =
    Done (x, \<lparr>ro_buffer = pre @ bs @ cs @ post, ro_position = length (pre @ bs)\<rparr>)"
    using consumesD [OF assms(1), of pre "cs @ post"] len by simp
  moreover have "f x \<lparr>ro_buffer = (pre @ bs) @ cs @ post, ro_position = length (pre @ bs)\<rparr> =
    Done (y, \<lparr>ro_buffer = (pre @ bs) @ cs @ post, ro_position = length ((pre @ bs) @ cs)\<rparr>)"
    using consumesD [OF assms(2), of "pre @ bs" post] len by simp
  ultimately show "rbind m f \<lparr>ro_buffer = pre @ (bs @ cs) @ post, ro_position = length pre\<rparr> =
    Done (y, \<lparr>ro_buffer = pre @ (bs @ cs) @ post, ro_position = length (pre @ bs @ cs)\<rparr>)"
    by (simp add: rbind_def add.assoc)
qed

lemma consumes_last:
  "consumes m bs x \<Longrightarrow> y = g x \<Longrightarrow> consumes (rbind m (\<lambda>x. rreturn (g x))) bs y"
  using consumes_bind [of m bs x "\<lambda>x. rreturn (g x)" "[]" y] by (simp add: consumes_return)

lemma consumes_bind_nil: "consumes m bs x \<Longrightarrow> consumes (f x) [] y \<Longrightarrow> consumes (rbind m f) bs y"
  using consumes_bind [of m bs x f "[]" y] by simp

lemma consumes_alloc:
  "n * sz \<le> max_alloc \<Longrightarrow> consumes (f ()) bs y \<Longrightarrow> consumes (rbind (ralloc n sz) f) bs y"
  by (rule consumesI) (simp add: rbind_def ralloc_def consumesD)

lemma ro_read_inside:
  "length (pre @ bs @ post) \<le> max_alloc \<Longrightarrow>
   ro_read (length bs) \<lparr>ro_buffer = pre @ bs @ post, ro_position = length pre\<rparr> =
   Done (bs, \<lparr>ro_buffer = pre @ bs @ post, ro_position = length (pre @ bs)\<rparr>)"
  using max_alloc_less [of "length pre + length bs"] by (simp add: ro_read_def Let_def)

lemma consumes_exact: "n = length bs \<Longrightarrow> consumes (rd_exact n) bs bs"
  by (rule consumesI) (simp add: rd_exact_def rbind_def rreturn_def ro_read_inside [simplified])

lemma consumes_some: "n = length bs \<Longrightarrow> length old = n \<Longrightarrow> bs \<noteq> [] \<Longrightarrow> consumes (rd_some n old) bs bs"
  by (rule consumesI) (simp add: rd_some_def rbind_def rreturn_def overlay_def ro_read_inside [simplified])

lemma consumes_any: "n = length bs \<Longrightarrow> length old = n \<Longrightarrow> consumes (rd_any n old) bs bs"
  by (rule consumesI) (simp add: rd_any_def rbind_def rreturn_def overlay_def ro_read_inside [simplified])

lemma consumes_word:
  "LENGTH('a::len) = 8 * n \<Longrightarrow> consumes (rd_word n) (le_bytes n (w :: 'a word)) w"
  unfolding rd_word_def by (rule consumes_last, rule consumes_exact) simp_all

lemmas consumes_u64 = consumes_word [where 'a = 64, of 8, simplified]
lemmas consumes_u32 = consumes_word [where 'a = 32, of 4, simplified]
lemmas consumes_uuid = consumes_word [where 'a = 128, of 16, simplified]

lemma consumes_seq:
  assumes "\<And>x. x \<in> set xs \<Longrightarrow> consumes m (enc x) x"
  shows "consumes (rd_seq (length xs) m) (concat (map enc xs)) xs"
  using assms
proof (induction xs)
  case Nil
  then show ?case by (simp add: consumes_return)
next
  case (Cons x xs)
  show ?case
    by (simp, rule consumes_bind, rule Cons.prems, simp, rule consumes_last, rule Cons.IH)
      (simp_all add: Cons.prems)
qed

text \<open>A decoder that consumes a string consumes nothing else from it: encodings are prefix-free.\<close>

lemma consumes_unique:
  assumes "consumes m bs x" and "consumes m cs y" and "bs @ r = cs @ s"
    and "length (bs @ r) \<le> max_alloc"
  shows "x = y \<and> bs = cs \<and> r = s"
proof -
  have "m (ro_new (bs @ r)) = Done (x, \<lparr>ro_buffer = bs @ r, ro_position = length bs\<rparr>)"
    using assms(1,4) by (rule consumes_new)
  moreover have "m (ro_new (bs @ r)) = Done (y, \<lparr>ro_buffer = cs @ s, ro_position = length cs\<rparr>)"
    using consumes_new [OF assms(2), of s] assms(3,4) by simp
  ultimately show ?thesis
    using assms(3) by (auto simp: append_eq_append_conv)
qed

section \<open>Truncated input\<close>

text \<open>
  A decoder is stable when a successful run only looked at the bytes it consumed: more bytes behind
  them change nothing. All decoders whose reads check the returned count are stable, and a stable
  decoder rejects every proper prefix of what it accepts.
\<close>

definition stable :: "'a reader \<Rightarrow> bool" where
  "stable m \<longleftrightarrow> (\<forall>st x st' ext. m st = Done (x, st') \<longrightarrow> ro_position st \<le> length (ro_buffer st) \<longrightarrow>
     length (ro_buffer st @ ext) \<le> max_alloc \<longrightarrow>
     ro_buffer st' = ro_buffer st \<and> ro_position st' \<le> length (ro_buffer st) \<and>
     m (st\<lparr>ro_buffer := ro_buffer st @ ext\<rparr>) = Done (x, st'\<lparr>ro_buffer := ro_buffer st @ ext\<rparr>))"

lemma stableD:
  assumes "stable m" and "m st = Done (x, st')" and "ro_position st \<le> length (ro_buffer st)"
    and "length (ro_buffer st @ ext) \<le> max_alloc"
  shows "ro_buffer st' = ro_buffer st" and "ro_position st' \<le> length (ro_buffer st')"
    and "m (st\<lparr>ro_buffer := ro_buffer st @ ext\<rparr>) = Done (x, st'\<lparr>ro_buffer := ro_buffer st @ ext\<rparr>)"
proof -
  have "ro_buffer st' = ro_buffer st \<and> ro_position st' \<le> length (ro_buffer st) \<and>
     m (st\<lparr>ro_buffer := ro_buffer st @ ext\<rparr>) = Done (x, st'\<lparr>ro_buffer := ro_buffer st @ ext\<rparr>)"
    using assms(1) [unfolded stable_def, rule_format, OF assms(2-4)] .
  then show "ro_buffer st' = ro_buffer st" and "ro_position st' \<le> length (ro_buffer st')"
    and "m (st\<lparr>ro_buffer := ro_buffer st @ ext\<rparr>) = Done (x, st'\<lparr>ro_buffer := ro_buffer st @ ext\<rparr>)"
    by simp_all
qed

lemma stable_return [stable_intros]: "stable (rreturn x)"
  by (simp add: stable_def rreturn_def)

lemma stable_fail [stable_intros]: "stable rfail" "stable (\<lambda>_. Undef)"
  by (simp_all add: stable_def rfail_def)

lemma stable_alloc [stable_intros]: "stable (ralloc n sz)"
  by (simp add: stable_def ralloc_def)

lemma stable_if [stable_intros]: "(P \<Longrightarrow> stable a) \<Longrightarrow> (\<not> P \<Longrightarrow> stable b) \<Longrightarrow> stable (if P then a else b)"
  by simp

lemma stable_bind [stable_intros]:
  assumes "stable m" and "\<And>x. stable (f x)"
  shows "stable (rbind m f)"
  unfolding stable_def
proof (intro allI impI)
  fix st y st2 ext
  assume run: "rbind m f st = Done (y, st2)" and pos: "ro_position st \<le> length (ro_buffer st)"
    and len: "length (ro_buffer st @ ext) \<le> max_alloc"
  obtain x st1 where 1: "m st = Done (x, st1)" and 2: "f x st1 = Done (y, st2)"
    using run by (auto simp: rbind_def obind_Done_conv)
  note m = stableD [OF assms(1) 1 pos len]
  note f = stableD [OF assms(2) 2 m(2), of ext]
  show "ro_buffer st2 = ro_buffer st \<and> ro_position st2 \<le> length (ro_buffer st) \<and>
     rbind m f (st\<lparr>ro_buffer := ro_buffer st @ ext\<rparr>) = Done (y, st2\<lparr>ro_buffer := ro_buffer st @ ext\<rparr>)"
    using m f len by (simp add: rbind_def)
qed

lemma rd_exact_Done:
  assumes "ro_position st \<le> length (ro_buffer st)" and "length (ro_buffer st) \<le> max_alloc"
  shows "rd_exact n st = Done r \<longleftrightarrow> ro_position st + n \<le> length (ro_buffer st) \<and>
    r = (take n (drop (ro_position st) (ro_buffer st)), st\<lparr>ro_position := ro_position st + n\<rparr>)"
proof (cases "ro_position st + n \<le> length (ro_buffer st)")
  case True
  moreover have "(ro_position st + n) mod 2 ^ 64 = ro_position st + n"
    using True assms(2) max_alloc_less by (intro mod_less) (meson le_trans)
  ultimately show ?thesis
    by (auto simp: rd_exact_def rbind_def ro_read_def rreturn_def Let_def)
next
  case False
  then show ?thesis
    by (cases "length (ro_buffer st) < (ro_position st + n) mod 2 ^ 64")
      (use assms(1) in \<open>auto simp add: rd_exact_def rbind_def ro_read_def rfail_def Let_def\<close>)
qed

lemma stable_exact [stable_intros]: "stable (rd_exact n)"
  unfolding stable_def
proof (intro allI impI)
  fix st x st' ext
  assume run: "rd_exact n st = Done (x, st')" and pos: "ro_position st \<le> length (ro_buffer st)"
    and len: "length (ro_buffer st @ ext) \<le> max_alloc"
  have len': "length (ro_buffer st) \<le> max_alloc" using len by simp
  from run show "ro_buffer st' = ro_buffer st \<and> ro_position st' \<le> length (ro_buffer st) \<and>
     rd_exact n (st\<lparr>ro_buffer := ro_buffer st @ ext\<rparr>) = Done (x, st'\<lparr>ro_buffer := ro_buffer st @ ext\<rparr>)"
    using pos len by (simp add: rd_exact_Done [OF pos len'] rd_exact_Done)
qed

lemma stable_word [stable_intros]: "stable (rd_word n)"
  unfolding rd_word_def by (intro stable_intros)

lemma stable_seq [stable_intros]: "stable m \<Longrightarrow> stable (rd_seq n m)"
  by (induction n) (simp_all add: stable_intros)

lemma truncated_rejected:
  assumes "stable m" and "consumes m bs x" and "length bs \<le> max_alloc" and "k < length bs"
  shows "m (ro_new (take k bs)) \<noteq> Done r"
proof
  assume "m (ro_new (take k bs)) = Done r"
  then obtain y st' where run: "m (ro_new (take k bs)) = Done (y, st')" by (cases r) auto
  have "ro_position (ro_new (take k bs)) \<le> length (ro_buffer (ro_new (take k bs)))"
    and "length (ro_buffer (ro_new (take k bs)) @ drop k bs) \<le> max_alloc"
    using assms(3) by (simp_all add: ro_new_def)
  note st = stableD [OF assms(1) run this]
  have "m (ro_new bs) = Done (y, st'\<lparr>ro_buffer := bs\<rparr>)"
    using st(3) by (simp add: ro_new_def)
  moreover have "m (ro_new bs) = Done (x, \<lparr>ro_buffer = bs, ro_position = length bs\<rparr>)"
    using consumes_new [OF assms(2), of "[]"] assms(3) by simp
  ultimately have "ro_position st' = length bs" by (cases st') auto
  then show False using st(1,2) assms(4) by (simp add: ro_new_def)
qed

section \<open>Progress\<close>

text \<open>Every decoder only moves the read position forward, within the buffer: loops over a stream end.\<close>

definition forward :: "'a reader \<Rightarrow> bool" where
  "forward m \<longleftrightarrow> (\<forall>st x st'. m st = Done (x, st') \<longrightarrow>
     ro_buffer st' = ro_buffer st \<and> ro_position st \<le> ro_position st' \<and>
     (ro_position st \<le> length (ro_buffer st) \<longrightarrow> ro_position st' \<le> length (ro_buffer st)))"

lemma forwardD:
  assumes "forward m" and "m st = Done (x, st')"
  shows "ro_buffer st' = ro_buffer st" "ro_position st \<le> ro_position st'"
    "ro_position st \<le> length (ro_buffer st) \<Longrightarrow> ro_position st' \<le> length (ro_buffer st)"
  using assms unfolding forward_def by blast+

lemma forward_remaining: "forward m \<Longrightarrow> m st = Done (x, st') \<Longrightarrow> ro_remaining st' \<le> ro_remaining st"
  by (simp add: ro_remaining_def forwardD diff_le_mono2)

lemma forward_return [forward_intros]: "forward (rreturn x)"
  by (simp add: forward_def rreturn_def)

lemma forward_fail [forward_intros]: "forward rfail" "forward (\<lambda>_. Undef)"
  by (simp_all add: forward_def rfail_def)

lemma forward_alloc [forward_intros]: "forward (ralloc n sz)"
  by (simp add: forward_def ralloc_def)

lemma forward_if [forward_intros]: "(P \<Longrightarrow> forward a) \<Longrightarrow> (\<not> P \<Longrightarrow> forward b) \<Longrightarrow> forward (if P then a else b)"
  by simp

lemma forward_read [forward_intros]: "forward (ro_read n)"
  by (auto simp: forward_def ro_read_def Let_def split: if_splits)

lemma forward_bind [forward_intros]:
  assumes "forward m" and "\<And>x. forward (f x)"
  shows "forward (rbind m f)"
  unfolding forward_def
proof (intro allI impI)
  fix st y st2
  assume "rbind m f st = Done (y, st2)"
  then obtain x st1 where 1: "m st = Done (x, st1)" and 2: "f x st1 = Done (y, st2)"
    by (auto simp: rbind_def obind_Done_conv)
  show "ro_buffer st2 = ro_buffer st \<and> ro_position st \<le> ro_position st2 \<and>
     (ro_position st \<le> length (ro_buffer st) \<longrightarrow> ro_position st2 \<le> length (ro_buffer st))"
    using forwardD [OF assms(1) 1] forwardD [OF assms(2) 2] by auto
qed

lemma forward_exact [forward_intros]: "forward (rd_exact n)" "forward (rd_some n old)" "forward (rd_any n old)"
  unfolding rd_exact_def rd_some_def rd_any_def by (intro forward_intros)+

lemma forward_word [forward_intros]: "forward (rd_word n)"
  unfolding rd_word_def by (intro forward_intros)

lemma forward_seq [forward_intros]: "forward m \<Longrightarrow> forward (rd_seq n m)"
  by (induction n) (simp_all add: forward_intros)

section \<open>Codecs\<close>

text \<open>
  The contract between a serialiser and the components that store or send its output:
  decoding an encoding of a representable value returns it. What the clients need,
  unambiguous concatenation and counted sequences, follows once and for all.
\<close>

locale codec =
  fixes enc :: "'a \<Rightarrow> byte list"
    and dec :: "'a reader"
    and ok :: "'a \<Rightarrow> bool"
  assumes dec_enc: "ok x \<Longrightarrow> consumes dec (enc x) x"
begin

lemma decode: "ok x \<Longrightarrow> length (enc x @ rest) \<le> max_alloc \<Longrightarrow>
    dec (ro_new (enc x @ rest)) = Done (x, \<lparr>ro_buffer = enc x @ rest, ro_position = length (enc x)\<rparr>)"
  by (rule consumes_new [OF dec_enc])

lemma unambiguous:
  "ok x \<Longrightarrow> ok y \<Longrightarrow> enc x @ r = enc y @ s \<Longrightarrow> length (enc x @ r) \<le> max_alloc \<Longrightarrow> x = y \<and> r = s"
  using consumes_unique [OF dec_enc dec_enc] by blast

lemma sequence:
  "list_all ok xs \<Longrightarrow> consumes (rd_seq (length xs) dec) (concat (map enc xs)) xs"
  by (rule consumes_seq) (simp add: list_all_iff dec_enc)

end

section \<open>Byte order and length-prefixed fields\<close>

lemma bit_to_big_endian:
  "n < 64 \<Longrightarrow> bit (to_big_endian_u64 v) n = bit v (8 * (7 - n div 8) + n mod 8)"
proof -
  have "list_all (\<lambda>n. bit (to_big_endian_u64 v) n = bit v (8 * (7 - n div 8) + n mod 8)) [0..<64]"
    unfolding to_big_endian_u64_def by (simp add: upt_rec bit_simps) (simp add: numeral_eq_Suc)
  then show "n < 64 \<Longrightarrow> ?thesis" by (simp add: list_all_iff)
qed

lemma big_endian_involution [simp]: "from_big_endian_u64 (to_big_endian_u64 v) = v"
proof (rule bit_word_eqI)
  fix n
  assume "n < LENGTH(64)"
  then have n: "n < 64" by simp
  define m where "m = 8 * (7 - n div 8) + n mod 8"
  have m: "m < 64" "8 * (7 - m div 8) + m mod 8 = n"
    using n unfolding m_def by (auto simp: div_less_iff_less_mult)
  show "bit (from_big_endian_u64 (to_big_endian_u64 v)) n = bit v n"
    using bit_to_big_endian [OF n, of "to_big_endian_u64 v"] bit_to_big_endian [OF m(1), of v] m(2)
    by (simp add: from_big_endian_u64_def m_def)
qed

lemma consumes_u64_be:
  "consumes (f (to_big_endian_u64 w)) cs y \<Longrightarrow>
   consumes (rbind (rd_word 8) f) (le_bytes 8 (to_big_endian_u64 w) @ cs) y"
  by (rule consumes_bind [OF consumes_u64])

lemma consumes_sized_bytes:
  assumes "length bs \<le> max_alloc"
  shows "consumes (\<lambda>st. if length bs > ro_remaining st then Failed
     else rbind (ralloc (length bs) 1) (\<lambda>_. if length bs = 0 then rreturn [] else rd_exact (length bs)) st)
     bs bs"
proof (rule consumesI)
  fix pre post
  assume "length (pre @ bs @ post) \<le> max_alloc"
  then show "(if length bs > ro_remaining \<lparr>ro_buffer = pre @ bs @ post, ro_position = length pre\<rparr> then Failed
     else rbind (ralloc (length bs) 1) (\<lambda>_. if length bs = 0 then rreturn [] else rd_exact (length bs))
            \<lparr>ro_buffer = pre @ bs @ post, ro_position = length pre\<rparr>) =
     Done (bs, \<lparr>ro_buffer = pre @ bs @ post, ro_position = length (pre @ bs)\<rparr>)"
    using assms consumesD [OF consumes_exact [OF refl], of pre bs post]
    by (cases "bs = []") (simp_all add: ro_remaining_def rbind_def ralloc_def rreturn_def)
qed

lemma consumes_bytes:
  assumes "length bs \<le> max_alloc"
  shows "consumes (ro_read_bytes True) (ms_buffer (ms_write_bytes bs True ms_new)) bs"
  unfolding ro_read_bytes_def
  by (simp add: stream_simps, rule consumes_u64_be)
    (use assms in \<open>simp add: Let_def consumes_sized_bytes [simplified]\<close>)

lemma ro_read_string_bytes: "ro_read_string be = rbind (ro_read_bytes be) (\<lambda>bs. rreturn (string_of_bytes bs))"
proof
  fix st
  show "ro_read_string be st = rbind (ro_read_bytes be) (\<lambda>bs. rreturn (string_of_bytes bs)) st"
    by (cases "rd_word 8 st :: (u64 \<times> ro_stream) outcome")
      (auto simp: ro_read_string_def ro_read_bytes_def rbind_def ralloc_def rreturn_def Let_def)
qed

lemma consumes_string:
  assumes "length v \<le> max_alloc"
  shows "consumes (ro_read_string True) (ms_buffer (ms_write_string v True ms_new)) v"
proof -
  have "ms_buffer (ms_write_string v True ms_new) =
      ms_buffer (ms_write_bytes (bytes_of_string v) True ms_new)"
    by (simp add: stream_simps)
  moreover have "consumes (ro_read_bytes True)
      (ms_buffer (ms_write_bytes (bytes_of_string v) True ms_new)) (bytes_of_string v)"
    using assms by (intro consumes_bytes) simp
  ultimately show ?thesis
    unfolding ro_read_string_bytes by (metis consumes_last string_bytes_inverse(1))
qed

interpretation bytes_be: codec "\<lambda>bs. ms_buffer (ms_write_bytes bs True ms_new)"
  "ro_read_bytes True" "\<lambda>bs. length bs \<le> max_alloc"
  by unfold_locales (rule consumes_bytes)

interpretation string_be: codec "\<lambda>v. ms_buffer (ms_write_string v True ms_new)"
  "ro_read_string True" "\<lambda>v. length v \<le> max_alloc"
  by unfold_locales (rule consumes_string)

end
