(* ===== verification/Net_Protocol.thy ===== *)
theory Net_Protocol
  imports Memory_Stream Db_Types
begin

text \<open>
  The messages between client and server (\<^verbatim>\<open>types/include/net_message.hpp\<close>, \<^verbatim>\<open>net_error.hpp\<close>), their encoding
  \<^verbatim>\<open>network/std_protocol.cpp\<close>, and the encoding of query results \<^verbatim>\<open>network/query_result_serializer.cpp\<close>.
  Numbers other than lengths are written in the byte order of the host, which is little-endian.
\<close>

section \<open>Messages\<close>

text \<open>An \<^verbatim>\<open>enum class : uint8_t\<close> read from the wire may hold a value without an enumerator: \<open>NE_Other\<close>.\<close>

datatype net_error_code =
    NE_SUCCESS | NE_START_STREAM | NE_STREAM_CHUNK | NE_END_STREAM
  | NE_PROTOCOL_VIOLATION | NE_DB_NOT_EXISTS | NE_SQL_ERROR | NE_UNINITIALIZED_SESSION
  | NE_Other byte

fun ne_code :: "net_error_code \<Rightarrow> byte" where
  "ne_code NE_SUCCESS = 0"
| "ne_code NE_START_STREAM = 1"
| "ne_code NE_STREAM_CHUNK = 2"
| "ne_code NE_END_STREAM = 3"
| "ne_code NE_PROTOCOL_VIOLATION = 100"
| "ne_code NE_DB_NOT_EXISTS = 101"
| "ne_code NE_SQL_ERROR = 102"
| "ne_code NE_UNINITIALIZED_SESSION = 103"
| "ne_code (NE_Other b) = b"

definition ne_of_code :: "byte \<Rightarrow> net_error_code" where
  "ne_of_code b =
     (if b = 0 then NE_SUCCESS else if b = 1 then NE_START_STREAM else if b = 2 then NE_STREAM_CHUNK
      else if b = 3 then NE_END_STREAM else if b = 100 then NE_PROTOCOL_VIOLATION else if b = 101 then NE_DB_NOT_EXISTS
      else if b = 102 then NE_SQL_ERROR else if b = 103 then NE_UNINITIALIZED_SESSION else NE_Other b)"

fun ok_ne :: "net_error_code \<Rightarrow> bool" where
  "ok_ne (NE_Other b) = (b \<notin> {0, 1, 2, 3, 100, 101, 102, 103})"
| "ok_ne _ = True"

lemma ne_of_code_code [simp]: "ok_ne e \<Longrightarrow> ne_of_code (ne_code e) = e"
  by (cases e) (auto simp: ne_of_code_def)

type_synonym request_id = u32

datatype net_message =
    PingNetMessage request_id
  | PongNetMessage uuid net_error_code request_id "byte list"
  | QueryNetMessage uuid request_id string
  | CreateDbNetMessage uuid request_id string
  | AttachDbNetMessage uuid request_id string
  | CancelStreamMessage uuid request_id
  | CloseNetMessage uuid request_id

text \<open>\<^verbatim>\<open>NetMessageType\<close>\<close>

fun message_type :: "net_message \<Rightarrow> byte" where
  "message_type (PingNetMessage _) = 1"
| "message_type (PongNetMessage _ _ _ _) = 2"
| "message_type (QueryNetMessage _ _ _) = 3"
| "message_type (CreateDbNetMessage _ _ _) = 4"
| "message_type (AttachDbNetMessage _ _ _) = 5"
| "message_type (CloseNetMessage _ _) = 6"
| "message_type (CancelStreamMessage _ _) = 7"

definition null_uuid :: uuid where
  "null_uuid = 0"

definition protocol_violation_message :: net_message where
  "protocol_violation_message = CloseNetMessage null_uuid 0"

section \<open>Encoding\<close>

definition ms_write_message_type :: "byte \<Rightarrow> mem_stream \<Rightarrow> mem_stream" where
  "ms_write_message_type t st = ms_write [t] st"

definition ms_write_request_id :: "request_id \<Rightarrow> mem_stream \<Rightarrow> mem_stream" where
  "ms_write_request_id r st = ms_write (le_bytes 4 r) st"

fun encode_message :: "net_message \<Rightarrow> byte list" where
  "encode_message (PingNetMessage r) =
     ms_buffer (ms_write_request_id r (ms_write_message_type 1 ms_new))"
| "encode_message (PongNetMessage s e r payload) =
     ms_buffer (ms_write_bytes payload True (ms_write [ne_code e] (ms_write_request_id r (ms_write_uuid s (ms_write_message_type 2 ms_new)))))"
| "encode_message (QueryNetMessage s r query) =
     ms_buffer (ms_write_string query True (ms_write_request_id r (ms_write_uuid s (ms_write_message_type 3 ms_new))))"
| "encode_message (CreateDbNetMessage s r db_name) =
     ms_buffer (ms_write_string db_name True (ms_write_request_id r (ms_write_uuid s (ms_write_message_type 4 ms_new))))"
| "encode_message (AttachDbNetMessage s r db_name) =
     ms_buffer (ms_write_string db_name True (ms_write_request_id r (ms_write_uuid s (ms_write_message_type 5 ms_new))))"
| "encode_message (CancelStreamMessage s r) =
     ms_buffer (ms_write_request_id r (ms_write_uuid s (ms_write_message_type 7 ms_new)))"
| "encode_message (CloseNetMessage s r) =
     ms_buffer (ms_write_request_id r (ms_write_uuid s (ms_write_message_type 6 ms_new)))"

section \<open>Parsing\<close>

definition rd_request_id :: "request_id reader" where
  "rd_request_id = rd_word 4"

definition rd_session :: "(uuid \<Rightarrow> request_id \<Rightarrow> 'a reader) \<Rightarrow> 'a reader" where
  "rd_session f = rbind ro_read_uuid (\<lambda>session_id. rbind rd_request_id (\<lambda>request_id. f session_id request_id))"

text \<open>The \<^verbatim>\<open>switch\<close> over the type.\<close>

definition rd_body :: "byte \<Rightarrow> net_message reader" where
  "rd_body raw_type =
    (if raw_type = 1 then rbind rd_request_id (\<lambda>r. rreturn (PingNetMessage r))
     else if raw_type = 2 then
       rd_session (\<lambda>s r. rbind (rd_word 1) (\<lambda>raw_err. rbind (ro_read_bytes True) (\<lambda>payload.
         rreturn (PongNetMessage s (ne_of_code raw_err) r payload))))
     else if raw_type = 3 then rd_session (\<lambda>s r. rbind (ro_read_string True) (\<lambda>query. rreturn (QueryNetMessage s r query)))
     else if raw_type = 4 then rd_session (\<lambda>s r. rbind (ro_read_string True) (\<lambda>name. rreturn (CreateDbNetMessage s r name)))
     else if raw_type = 5 then rd_session (\<lambda>s r. rbind (ro_read_string True) (\<lambda>name. rreturn (AttachDbNetMessage s r name)))
     else if raw_type = 7 then rd_session (\<lambda>s r. rreturn (CancelStreamMessage s r))
     else if raw_type = 6 then rd_session (\<lambda>s r. rreturn (CloseNetMessage s r))
     else rfail)"

definition rd_message :: "net_message reader" where
  "rd_message = rbind (rd_word 1) rd_body"

text \<open>Every failed read returns the message of a protocol violation.\<close>

definition parse_message :: "byte list \<Rightarrow> net_message outcome" where
  "parse_message data =
     (case rd_message (ro_new data) of
        Done (m, _) \<Rightarrow> Done m
      | Failed \<Rightarrow> Done protocol_violation_message
      | Raised e \<Rightarrow> Raised e
      | Undef \<Rightarrow> Undef)"

section \<open>Query results\<close>

record output_column =
  oc_name :: string
  oc_type :: data_type

record data_table =
  dt_table_name :: string
  dt_output_schema :: "output_column list"
  dt_rows :: "data_row list"

definition serialize_token :: "data_token \<Rightarrow> mem_stream \<Rightarrow> mem_stream" where
  "serialize_token token st = ms_write_bytes (tok_bytes token) True (ms_write_u64 (dt_code (tok_type token)) True st)"

definition serialize_column :: "output_column \<Rightarrow> mem_stream \<Rightarrow> mem_stream" where
  "serialize_column column st = ms_write_u64 (dt_code (oc_type column)) True (ms_write_string (oc_name column) True st)"

definition serialize_row :: "data_row \<Rightarrow> mem_stream \<Rightarrow> mem_stream" where
  "serialize_row row st = fold serialize_token (dr_tokens row) (ms_write_u64 (word_of_nat (length (dr_tokens row))) True st)"

definition serialize_result :: "data_table \<Rightarrow> byte list" where
  "serialize_result table =
     ms_buffer (fold serialize_row (dt_rows table) (ms_write_u64 (word_of_nat (length (dt_rows table))) True
       (fold serialize_column (dt_output_schema table)
         (ms_write_u64 (word_of_nat (length (dt_output_schema table))) True ms_new))))"

text \<open>The sizes of \<^verbatim>\<open>OutputColumn\<close>, \<^verbatim>\<open>DataRow\<close> and \<^verbatim>\<open>DataToken\<close> in the calls of \<^verbatim>\<open>reserve\<close>.\<close>

definition deserialize_column :: "output_column reader" where
  "deserialize_column = rbind (ro_read_string True) (\<lambda>name. rbind (ro_read_u64 0 True) (\<lambda>raw_type.
     rreturn \<lparr>oc_name = name, oc_type = dt_of_code raw_type\<rparr>))"

definition deserialize_row :: "data_row reader" where
  "deserialize_row = rbind (ro_read_u64 0 True) (\<lambda>token_count.
     rbind (ralloc (unat token_count) 32) (\<lambda>_.
     rbind (rd_seq (unat token_count) (rbind (ro_read_bytes True) (\<lambda>token_bytes.
       rreturn \<lparr>tok_bytes = token_bytes, tok_type = dt_of_code 0\<rparr>))) (\<lambda>tokens.
     rreturn \<lparr>dr_id = 0, dr_flags = 0, dr_tokens = tokens\<rparr>)))"

definition deserialize_result :: "(output_column list \<times> data_row list) reader" where
  "deserialize_result = rbind (ro_read_u64 0 True) (\<lambda>column_count.
     rbind (ralloc (unat column_count) 40) (\<lambda>_.
     rbind (rd_seq (unat column_count) deserialize_column) (\<lambda>schema.
     rbind (ro_read_u64 0 True) (\<lambda>row_count.
     rbind (ralloc (unat row_count) 40) (\<lambda>_.
     rbind (rd_seq (unat row_count) deserialize_row) (\<lambda>rows.
     rreturn (schema, rows)))))))"

section \<open>Round trip\<close>

lemma at_end_write_message_type [stream_simps]:
  "at_end st \<Longrightarrow> at_end (ms_write_message_type t st)"
  "at_end st \<Longrightarrow> ms_buffer (ms_write_message_type t st) = ms_buffer st @ [t]"
  by (simp_all add: ms_write_message_type_def stream_simps)

lemma at_end_write_request_id [stream_simps]:
  "at_end st \<Longrightarrow> at_end (ms_write_request_id r st)"
  "at_end st \<Longrightarrow> ms_buffer (ms_write_request_id r st) = ms_buffer st @ le_bytes 4 r"
  by (simp_all add: ms_write_request_id_def stream_simps)

fun message_ok :: "net_message \<Rightarrow> bool" where
  "message_ok (PongNetMessage _ e _ payload) = (ok_ne e \<and> length payload \<le> max_alloc)"
| "message_ok (QueryNetMessage _ _ query) = (length query \<le> max_alloc)"
| "message_ok (CreateDbNetMessage _ _ db_name) = (length db_name \<le> max_alloc)"
| "message_ok (AttachDbNetMessage _ _ db_name) = (length db_name \<le> max_alloc)"
| "message_ok _ = True"

lemma consumes_byte: "consumes (rd_word 1) [b :: byte] b"
proof -
  have "le_bytes 1 b = [b]" by (simp add: le_bytes_def)
  then show ?thesis using consumes_word [where 'a = 8, of 1 b] by simp
qed

lemma consumes_session:
  assumes "consumes (f s r) bs x"
  shows "consumes (rd_session f) (le_bytes 16 s @ le_bytes 4 r @ bs) x"
proof -
  have "consumes (rbind (rd_word 4) (f s)) (le_bytes 4 r @ bs) x" using consumes_bind [where f = "f s", OF consumes_u32 assms] .
  then show ?thesis unfolding rd_session_def ro_read_uuid_def rd_request_id_def
    using consumes_bind [where f = "\<lambda>s. rbind (rd_word 4) (f s)", OF consumes_uuid] by blast
qed

lemma consumes_bytes_field:
  "length bs \<le> max_alloc \<Longrightarrow> y = g bs \<Longrightarrow>
   consumes (rbind (ro_read_bytes True) (\<lambda>x. rreturn (g x))) (le_bytes 8 (to_big_endian_u64 (word_of_nat (length bs))) @ bs) y"
  using consumes_bytes [of bs] by (intro consumes_last) (simp add: stream_simps)

lemma consumes_string_field:
  "length v \<le> max_alloc \<Longrightarrow> y = g v \<Longrightarrow>
   consumes (rbind (ro_read_string True) (\<lambda>x. rreturn (g x)))
     (le_bytes 8 (to_big_endian_u64 (word_of_nat (length v))) @ bytes_of_string v) y"
  using consumes_string [of v] by (intro consumes_last) (simp add: stream_simps)

lemma consumes_type: "consumes (f t) bs x \<Longrightarrow> consumes (rbind (rd_word 1) f) ((t :: byte) # bs) x"
  using consumes_bind [where f = f, OF consumes_byte, of t bs x] by simp

lemma consumes_body:
  "message_ok m \<Longrightarrow> \<exists>bs. encode_message m = message_type m # bs \<and> consumes (rd_body (message_type m)) bs m"
proof (cases m)
  case (PingNetMessage r)
  then show ?thesis
    by (simp add: stream_simps rd_body_def rd_request_id_def consumes_last [OF consumes_u32])
next
  case (PongNetMessage s e r payload)
  assume "message_ok m"
  then have "consumes (rbind (rd_word 1) (\<lambda>raw_err. rbind (ro_read_bytes True) (\<lambda>payload.
      rreturn (PongNetMessage s (ne_of_code raw_err) r payload))))
      (ne_code e # le_bytes 8 (to_big_endian_u64 (word_of_nat (length payload))) @ payload) m"
    using PongNetMessage by (intro consumes_type consumes_bytes_field) simp_all
  from consumes_session [where f = "\<lambda>s r. rbind (rd_word 1) (\<lambda>raw_err. rbind (ro_read_bytes True) (\<lambda>payload.
      rreturn (PongNetMessage s (ne_of_code raw_err) r payload)))", OF this]
  show ?thesis using PongNetMessage by (simp add: stream_simps rd_body_def)
qed (auto simp: stream_simps rd_body_def intro!: consumes_session consumes_session [where bs = "[]", simplified]
    consumes_string_field consumes_return)

lemma consumes_message:
  assumes "message_ok m"
  shows "consumes rd_message (encode_message m) m"
  using consumes_body [OF assms] consumes_type [of rd_body] by (auto simp: rd_message_def)

interpretation message: codec encode_message rd_message message_ok
  by unfold_locales (rule consumes_message)

section \<open>Arbitrary input\<close>

text \<open>A reader that returns or fails on every input: it neither throws nor reads outside the buffer.\<close>

definition total_reader :: "'a reader \<Rightarrow> bool" where
  "total_reader m \<longleftrightarrow> (\<forall>st. ro_position st \<le> length (ro_buffer st) \<longrightarrow> length (ro_buffer st) \<le> max_alloc \<longrightarrow>
     m st = Failed \<or> (\<exists>x p. m st = Done (x, st\<lparr>ro_position := p\<rparr>) \<and> p \<le> length (ro_buffer st)))"

lemma total_readerD:
  assumes "total_reader m" and "ro_position st \<le> length (ro_buffer st)" and "length (ro_buffer st) \<le> max_alloc"
  shows "m st = Failed \<or> (\<exists>x p. m st = Done (x, st\<lparr>ro_position := p\<rparr>) \<and> p \<le> length (ro_buffer st))"
  using assms by (simp add: total_reader_def)

named_theorems total_intros

lemma total_return [total_intros]: "total_reader (rreturn x)"
  unfolding total_reader_def rreturn_def by (metis ro_stream.surjective ro_stream.update_convs(2))

lemma total_fail [total_intros]: "total_reader rfail"
  by (simp add: total_reader_def rfail_def)

lemma total_if [total_intros]: "total_reader a \<Longrightarrow> total_reader b \<Longrightarrow> total_reader (if P then a else b)"
  by simp

lemma total_bind [total_intros]:
  assumes "total_reader m" and "\<And>x. total_reader (f x)"
  shows "total_reader (rbind m f)"
  unfolding total_reader_def
proof (intro allI impI)
  fix st :: ro_stream assume st: "ro_position st \<le> length (ro_buffer st)" "length (ro_buffer st) \<le> max_alloc"
  from total_readerD [OF assms(1) st]
  show "rbind m f st = Failed \<or> (\<exists>x p. rbind m f st = Done (x, st\<lparr>ro_position := p\<rparr>) \<and> p \<le> length (ro_buffer st))"
  proof (elim disjE exE conjE)
    fix x p assume "m st = Done (x, st\<lparr>ro_position := p\<rparr>)" "p \<le> length (ro_buffer st)"
    then show ?thesis using total_readerD [OF assms(2), of "st\<lparr>ro_position := p\<rparr>" x] st(2) by (auto simp: rbind_def)
  qed (simp add: rbind_def)
qed

lemma total_exact [total_intros]:
  assumes "n \<le> max_alloc"
  shows "total_reader (rd_exact n)"
  unfolding total_reader_def
proof (intro allI impI)
  fix st :: ro_stream assume st: "ro_position st \<le> length (ro_buffer st)" "length (ro_buffer st) \<le> max_alloc"
  then have "(ro_position st + n) mod 2 ^ 64 = ro_position st + n" using assms by (simp add: max_alloc_def)
  then show "rd_exact n st = Failed \<or> (\<exists>x p. rd_exact n st = Done (x, st\<lparr>ro_position := p\<rparr>) \<and> p \<le> length (ro_buffer st))"
    using st by (auto simp: rd_exact_def rbind_def ro_read_def Let_def rreturn_def rfail_def)
qed

lemma total_word [total_intros]: "n \<le> max_alloc \<Longrightarrow> total_reader (rd_word n)"
  unfolding rd_word_def by (intro total_intros)

lemma total_sized:
  "total_reader (\<lambda>st. if n > ro_remaining st then Failed
     else rbind (ralloc n 1) (\<lambda>_. if n = 0 then rreturn [] else rd_exact n) st)"
  unfolding total_reader_def
proof (intro allI impI)
  fix st :: ro_stream assume st: "ro_position st \<le> length (ro_buffer st)" "length (ro_buffer st) \<le> max_alloc"
  show "(if n > ro_remaining st then Failed
     else rbind (ralloc n 1) (\<lambda>_. if n = 0 then rreturn [] else rd_exact n) st) = Failed \<or>
    (\<exists>x p. (if n > ro_remaining st then Failed
     else rbind (ralloc n 1) (\<lambda>_. if n = 0 then rreturn [] else rd_exact n) st) = Done (x, st\<lparr>ro_position := p\<rparr>) \<and>
       p \<le> length (ro_buffer st))"
  proof (cases "n > ro_remaining st")
    case False
    then have "n \<le> max_alloc" using st by (simp add: ro_remaining_def)
    then show ?thesis
      using False total_readerD [OF total_exact st, of n] total_readerD [OF total_return st, of "[]"]
      by (cases "n = 0") (simp_all add: rbind_def ralloc_def)
  qed simp
qed

lemma total_bytes [total_intros]: "total_reader (ro_read_bytes be)"
  unfolding ro_read_bytes_def Let_def by (intro total_intros total_sized) (simp add: max_alloc_def)

lemma total_string [total_intros]: "total_reader (ro_read_string be)"
  unfolding ro_read_string_bytes by (intro total_intros)

lemma total_message: "total_reader rd_message"
  unfolding rd_message_def rd_body_def rd_session_def rd_request_id_def ro_read_uuid_def
  by (intro total_intros) (simp_all add: max_alloc_def)

text \<open>A successful read of a field looks at nothing behind it.\<close>

lemma stable_guard:
  assumes "stable m"
  shows "stable (\<lambda>st. if n > ro_remaining st then Failed else m st)"
  unfolding stable_def
proof (intro allI impI)
  fix st x st' ext
  assume run: "(if n > ro_remaining st then Failed else m st) = Done (x, st')"
    and pos: "ro_position st \<le> length (ro_buffer st)" and len: "length (ro_buffer st @ ext) \<le> max_alloc"
  have le: "\<not> n > ro_remaining st" using run by auto
  with run have "m st = Done (x, st')" by simp
  note d = stableD [OF assms this pos len]
  have "\<not> n > ro_remaining (st\<lparr>ro_buffer := ro_buffer st @ ext\<rparr>)" using le by (simp add: ro_remaining_def)
  then show "ro_buffer st' = ro_buffer st \<and> ro_position st' \<le> length (ro_buffer st) \<and>
    (if n > ro_remaining (st\<lparr>ro_buffer := ro_buffer st @ ext\<rparr>) then Failed else m (st\<lparr>ro_buffer := ro_buffer st @ ext\<rparr>)) =
    Done (x, st'\<lparr>ro_buffer := ro_buffer st @ ext\<rparr>)" using d by simp
qed

lemma stable_bytes [stable_intros]: "stable (ro_read_bytes be)"
  unfolding ro_read_bytes_def Let_def by (intro stable_intros stable_guard)

lemma stable_string [stable_intros]: "stable (ro_read_string be)"
  unfolding ro_read_string_bytes by (intro stable_intros)

lemma stable_message: "stable rd_message"
  unfolding rd_message_def rd_body_def rd_session_def rd_request_id_def ro_read_uuid_def by (intro stable_intros)

section \<open>Results on the wire\<close>

text \<open>The decoder a client needs: it reads the fields in the order in which \<^verbatim>\<open>serialize\<close> writes them.\<close>

definition rd_u64 :: "u64 reader" where
  "rd_u64 = rbind (rd_word 8) (\<lambda>w. rreturn (from_big_endian_u64 w))"

definition rd_token :: "data_token reader" where
  "rd_token = rbind rd_u64 (\<lambda>t. rbind (ro_read_bytes True) (\<lambda>bs. rreturn \<lparr>tok_bytes = bs, tok_type = dt_of_code t\<rparr>))"

definition rd_column :: "output_column reader" where
  "rd_column = rbind (ro_read_string True) (\<lambda>n. rbind rd_u64 (\<lambda>t. rreturn \<lparr>oc_name = n, oc_type = dt_of_code t\<rparr>))"

definition rd_tokens :: "data_token list reader" where
  "rd_tokens = rbind rd_u64 (\<lambda>n. rd_seq (unat n) rd_token)"

definition rd_result :: "(output_column list \<times> data_token list list) reader" where
  "rd_result = rbind rd_u64 (\<lambda>n. rbind (rd_seq (unat n) rd_column) (\<lambda>schema.
     rbind rd_u64 (\<lambda>k. rbind (rd_seq (unat k) rd_tokens) (\<lambda>rows. rreturn (schema, rows)))))"

definition token_fits :: "data_token \<Rightarrow> bool" where
  "token_fits t \<longleftrightarrow> ok_dt (tok_type t) \<and> length (tok_bytes t) \<le> max_alloc"

definition column_fits :: "output_column \<Rightarrow> bool" where
  "column_fits c \<longleftrightarrow> ok_dt (oc_type c) \<and> length (oc_name c) \<le> max_alloc"

definition table_fits :: "data_table \<Rightarrow> bool" where
  "table_fits t \<longleftrightarrow> list_all column_fits (dt_output_schema t) \<and> length (dt_output_schema t) \<le> max_alloc \<and>
     list_all (\<lambda>r. list_all token_fits (dr_tokens r) \<and> length (dr_tokens r) \<le> max_alloc) (dt_rows t) \<and>
     length (dt_rows t) \<le> max_alloc"

definition u64_bytes :: "u64 \<Rightarrow> byte list" where
  "u64_bytes v = le_bytes 8 (to_big_endian_u64 v)"

definition token_bytes :: "data_token \<Rightarrow> byte list" where
  "token_bytes t = u64_bytes (dt_code (tok_type t)) @ u64_bytes (word_of_nat (length (tok_bytes t))) @ tok_bytes t"

definition column_bytes :: "output_column \<Rightarrow> byte list" where
  "column_bytes c = (u64_bytes (word_of_nat (length (oc_name c))) @ bytes_of_string (oc_name c)) @ u64_bytes (dt_code (oc_type c))"

definition tokens_bytes :: "data_token list \<Rightarrow> byte list" where
  "tokens_bytes ts = u64_bytes (word_of_nat (length ts)) @ concat (map token_bytes ts)"

lemma fold_at_end:
  assumes "\<And>x st. at_end st \<Longrightarrow> at_end (w x st) \<and> ms_buffer (w x st) = ms_buffer st @ enc x"
  shows "at_end st \<Longrightarrow> at_end (fold w xs st) \<and> ms_buffer (fold w xs st) = ms_buffer st @ concat (map enc xs)"
proof (induction xs arbitrary: st)
  case (Cons x xs)
  show ?case using Cons.IH [of "w x st"] assms [OF Cons.prems, of x] by simp
qed simp

lemma at_end_token: "at_end st \<Longrightarrow> at_end (serialize_token t st) \<and> ms_buffer (serialize_token t st) = ms_buffer st @ token_bytes t"
  by (simp add: serialize_token_def token_bytes_def u64_bytes_def stream_simps)

lemma at_end_column: "at_end st \<Longrightarrow> at_end (serialize_column c st) \<and> ms_buffer (serialize_column c st) = ms_buffer st @ column_bytes c"
  by (simp add: serialize_column_def column_bytes_def u64_bytes_def stream_simps)

lemma at_end_row:
  "at_end st \<Longrightarrow> at_end (serialize_row r st) \<and> ms_buffer (serialize_row r st) = ms_buffer st @ tokens_bytes (dr_tokens r)"
  using fold_at_end [of serialize_token token_bytes, OF at_end_token,
      of "ms_write_u64 (word_of_nat (length (dr_tokens r))) True st" "dr_tokens r"]
  by (simp add: serialize_row_def tokens_bytes_def u64_bytes_def stream_simps)

lemma serialize_result_bytes:
  "serialize_result t = u64_bytes (word_of_nat (length (dt_output_schema t))) @ concat (map column_bytes (dt_output_schema t)) @
     u64_bytes (word_of_nat (length (dt_rows t))) @ concat (map (\<lambda>r. tokens_bytes (dr_tokens r)) (dt_rows t))"
proof -
  let ?st = "fold serialize_column (dt_output_schema t) (ms_write_u64 (word_of_nat (length (dt_output_schema t))) True ms_new)"
  have 1: "at_end ?st" "ms_buffer ?st = u64_bytes (word_of_nat (length (dt_output_schema t))) @ concat (map column_bytes (dt_output_schema t))"
    using fold_at_end [of serialize_column column_bytes, OF at_end_column] by (simp_all add: stream_simps u64_bytes_def)
  then show ?thesis
    using fold_at_end [of serialize_row "\<lambda>r. tokens_bytes (dr_tokens r)", OF at_end_row]
    by (simp add: serialize_result_def stream_simps u64_bytes_def)
qed

lemma consumes_rd_u64: "consumes rd_u64 (u64_bytes v) v"
  unfolding rd_u64_def u64_bytes_def by (rule consumes_last [OF consumes_u64]) simp

lemma consumes_token: "token_fits t \<Longrightarrow> consumes rd_token (token_bytes t) t"
  unfolding rd_token_def token_bytes_def u64_bytes_def
  by (rule consumes_bind [OF consumes_rd_u64 [unfolded u64_bytes_def]])
    (rule consumes_bytes_field, simp_all add: token_fits_def)

lemma consumes_column:
  assumes "column_fits c"
  shows "consumes rd_column (column_bytes c) c"
  unfolding rd_column_def column_bytes_def
proof (rule consumes_bind)
  show "consumes (ro_read_string True) (u64_bytes (word_of_nat (length (oc_name c))) @ bytes_of_string (oc_name c)) (oc_name c)"
    using consumes_string [of "oc_name c"] assms by (simp add: stream_simps u64_bytes_def column_fits_def)
  show "consumes (rbind rd_u64 (\<lambda>t. rreturn \<lparr>oc_name = oc_name c, oc_type = dt_of_code t\<rparr>)) (u64_bytes (dt_code (oc_type c))) c"
    by (rule consumes_last [OF consumes_rd_u64]) (use assms in \<open>simp add: column_fits_def\<close>)
qed

lemma consumes_counted:
  assumes "\<And>x. x \<in> set xs \<Longrightarrow> consumes m (enc x) x" and "length xs \<le> max_alloc"
  shows "consumes (rbind rd_u64 (\<lambda>n. rd_seq (unat n) m)) (u64_bytes (word_of_nat (length xs)) @ concat (map enc xs)) xs"
  by (rule consumes_bind [OF consumes_rd_u64]) (use assms in \<open>simp add: consumes_seq\<close>)

lemma consumes_result:
  assumes "table_fits t"
  shows "consumes rd_result (serialize_result t) (dt_output_schema t, map dr_tokens (dt_rows t))"
proof -
  have c: "consumes (rd_seq (length (dt_output_schema t)) rd_column) (concat (map column_bytes (dt_output_schema t))) (dt_output_schema t)"
    by (rule consumes_seq) (use assms in \<open>auto simp: table_fits_def list_all_iff intro: consumes_column\<close>)
  have "consumes rd_tokens (tokens_bytes ts) ts" if "ts \<in> set (map dr_tokens (dt_rows t))" for ts
    unfolding rd_tokens_def tokens_bytes_def
    by (rule consumes_counted) (use that assms in \<open>auto simp: table_fits_def list_all_iff intro: consumes_token\<close>)
  from consumes_seq [of "map dr_tokens (dt_rows t)" rd_tokens tokens_bytes, OF this]
  have r: "consumes (rd_seq (length (dt_rows t)) rd_tokens) (concat (map (\<lambda>r. tokens_bytes (dr_tokens r)) (dt_rows t))) (map dr_tokens (dt_rows t))"
    by (simp add: comp_def)
  show ?thesis
    unfolding rd_result_def serialize_result_bytes
    by (rule consumes_bind [OF consumes_rd_u64], rule consumes_bind [of _ _ "dt_output_schema t"],
        use c assms in \<open>simp add: table_fits_def\<close>, rule consumes_bind [OF consumes_rd_u64], rule consumes_last [of _ _ "map dr_tokens (dt_rows t)"])
      (use r assms in \<open>simp_all add: table_fits_def\<close>)
qed

section \<open>Properties\<close>

text \<open>C35: every message is parsed back from its encoding.\<close>

theorem message_roundtrip:
  assumes "message_ok m" and "length (encode_message m) \<le> max_alloc"
  shows "parse_message (encode_message m) = Done m"
  using message.decode [OF assms(1), of "[]"] assms(2) by (simp add: parse_message_def)

theorem message_roundtrip_witness:
  "parse_message (encode_message (QueryNetMessage 7 1 ''SELECT'')) = Done (QueryNetMessage 7 1 ''SELECT'')"
  by (rule message_roundtrip) (simp_all add: max_alloc_def stream_simps)

text \<open>C36: parsing returns a message for every sequence of bytes a client may send, without an exception and without
  reading outside of it, and a message that was cut short is answered as a violation of the protocol.\<close>

theorem parse_message_robust:
  assumes "length data \<le> max_alloc"
  shows "(\<exists>m. parse_message data = Done m) \<and>
    (\<forall>m k. message_ok m \<longrightarrow> length (encode_message m) \<le> max_alloc \<longrightarrow> k < length (encode_message m) \<longrightarrow>
       data = take k (encode_message m) \<longrightarrow> parse_message data = Done protocol_violation_message)"
proof -
  have r: "rd_message (ro_new data) = Failed \<or> (\<exists>x. rd_message (ro_new data) = Done x)"
    using total_readerD [OF total_message, of "ro_new data"] assms by (auto simp: ro_new_def)
  then have "\<exists>m. parse_message data = Done m" by (auto simp: parse_message_def)
  moreover have "parse_message data = Done protocol_violation_message"
    if "message_ok m" "length (encode_message m) \<le> max_alloc" "k < length (encode_message m)" "data = take k (encode_message m)" for m k
    using truncated_rejected [OF stable_message consumes_message [OF that(1)] that(2,3)] r that(4)
    by (auto simp: parse_message_def)
  ultimately show ?thesis by blast
qed

theorem parse_message_robust_witness:
  "parse_message (take 3 (encode_message (PingNetMessage 5))) = Done protocol_violation_message"
proof -
  have "length (take 3 (encode_message (PingNetMessage 5))) \<le> max_alloc" by (simp add: max_alloc_def)
  from parse_message_robust [OF this] show ?thesis
    by (elim conjE allE [of _ "PingNetMessage 5"] allE [of _ 3]) (simp add: max_alloc_def stream_simps)
qed

text \<open>The encoding of a query result is unambiguous: a client that reads the fields in order recovers the columns with
  their types and the values of all rows.\<close>

theorem result_roundtrip:
  assumes "table_fits t" and "length (serialize_result t) \<le> max_alloc"
  shows "\<exists>st. rd_result (ro_new (serialize_result t)) = Done ((dt_output_schema t, map dr_tokens (dt_rows t)), st)"
  using consumes_new [OF consumes_result [OF assms(1)], of "[]"] assms(2) by simp

definition sample_result :: data_table where
  "sample_result = \<lparr>dt_table_name = ''t'', dt_output_schema = [\<lparr>oc_name = ''a'', oc_type = DT_STRING\<rparr>],
     dt_rows = [\<lparr>dr_id = 1, dr_flags = 0, dr_tokens = [string_token [65]]\<rparr>]\<rparr>"

theorem result_roundtrip_witness:
  "\<exists>st. rd_result (ro_new (serialize_result sample_result)) = Done (([\<lparr>oc_name = ''a'', oc_type = DT_STRING\<rparr>], [[string_token [65]]]), st)"
  using result_roundtrip [of sample_result]
  by (simp add: table_fits_def sample_result_def column_fits_def token_fits_def string_token_def max_alloc_def
      serialize_result_bytes column_bytes_def tokens_bytes_def token_bytes_def u64_bytes_def)

text \<open>\<^verbatim>\<open>QueryResultSerializer::deserialize\<close> accepts every result and returns no column and no row of it, since
  \<^verbatim>\<open>read_u64\<close> leaves the counters at zero.\<close>

theorem deserialize_result_empty:
  assumes "length (serialize_result t) \<le> max_alloc"
  shows "\<exists>st. deserialize_result (ro_new (serialize_result t)) = Done (([], []), st)"
proof -
  let ?a = "u64_bytes (word_of_nat (length (dt_output_schema t)))"
  obtain bs where bs: "serialize_result t = ?a @ bs" "8 \<le> length bs" by (simp add: serialize_result_bytes u64_bytes_def)
  have pure: "rbind (ralloc 0 k) f = f ()" "rbind (rreturn x) g = g x" for k x and f :: "unit \<Rightarrow> 'b reader" and g :: "'c \<Rightarrow> 'd reader"
    by (auto simp: rbind_def ralloc_def rreturn_def)
  have u: "consumes (ro_read_u64 0 True) w 0" if "length w = 8" for w
    unfolding ro_read_u64_def by (rule consumes_last [OF consumes_exact]) (simp_all add: that)
  let ?rest = "\<lambda>row_count. rbind (ralloc (unat row_count) 40) (\<lambda>_. rbind (rd_seq (unat row_count) deserialize_row) (\<lambda>rows. rreturn ([], rows)))"
  have "consumes (rbind (ro_read_u64 0 True) ?rest) (take 8 bs) ([], [])"
    by (rule consumes_bind_nil [OF u]) (use bs(2) in \<open>simp_all add: pure consumes_return\<close>)
  then have "consumes deserialize_result (?a @ take 8 bs) ([], [])"
    unfolding deserialize_result_def by (intro consumes_bind [OF u]) (simp_all add: pure u64_bytes_def)
  then show ?thesis using consumes_new [of deserialize_result "?a @ take 8 bs" _ "drop 8 bs"] bs(1) assms by simp
qed

theorem deserialize_result_empty_witness:
  "\<exists>st. deserialize_result (ro_new (serialize_result sample_result)) = Done (([], []), st)"
  by (rule deserialize_result_empty)
    (simp add: sample_result_def string_token_def max_alloc_def
      serialize_result_bytes column_bytes_def tokens_bytes_def token_bytes_def u64_bytes_def)

end
