(* ===== verification/Db_Interface.thy ===== *)
theory Db_Interface
  imports Evaluator Net_Protocol
begin

text \<open>
  The interface \<^verbatim>\<open>IDbInstance\<close> between query execution and storage (\<^verbatim>\<open>storage/include/db_instance.hpp\<close>), query plans
  (\<^verbatim>\<open>types/include/query_plan.hpp\<close>) and the conversions of \<^verbatim>\<open>misc/convert.cpp\<close>. Programs on a state \<open>'s\<close> that may
  throw, be undefined or not return form a monad; an exception keeps the changes made before it.
\<close>

section \<open>Programs\<close>

type_synonym ('s, 'a) prog = "'s \<Rightarrow> ('a outcome \<times> 's) option"

definition xreturn :: "'a \<Rightarrow> ('s, 'a) prog" where
  "xreturn x s = Some (Done x, s)"

definition xraise :: "exn \<Rightarrow> ('s, 'a) prog" where
  "xraise e s = Some (Raised e, s)"

definition xundef :: "('s, 'a) prog" where
  "xundef s = Some (Undef, s)"

definition xlift :: "'a outcome \<Rightarrow> ('s, 'a) prog" where
  "xlift x s = Some (x, s)"

definition xbind :: "('s, 'a) prog \<Rightarrow> ('a \<Rightarrow> ('s, 'b) prog) \<Rightarrow> ('s, 'b) prog" where
  "xbind m f s =
     Option.bind (m s) (\<lambda>(x, s). case x of
        Done y \<Rightarrow> f y s
      | Failed \<Rightarrow> Some (Failed, s)
      | Raised e \<Rightarrow> Some (Raised e, s)
      | Undef \<Rightarrow> Some (Undef, s))"

text \<open>Dereferencing a pointer.\<close>

definition deref :: "'a option \<Rightarrow> ('s, 'a) prog" where
  "deref p = (case p of None \<Rightarrow> xundef | Some x \<Rightarrow> xreturn x)"

lemma xbind_simps [simp]:
  "xbind (xreturn x) f = f x" "xbind (xraise e) f = xraise e" "xbind xundef f = xundef" "xbind (xlift (Done y)) f = f y"
  "xbind (xlift (Raised e)) f = xraise e" "xbind (xlift Undef) f = xundef"
  by (auto simp: xbind_def xreturn_def xraise_def xundef_def xlift_def fun_eq_iff)

lemma xbind_assoc: "xbind (xbind m f) g = xbind m (\<lambda>x. xbind (f x) g)"
  by (auto simp: xbind_def fun_eq_iff split: outcome.splits Option.bind_splits)

lemma deref_simps [simp]: "deref None = xundef" "deref (Some x) = xreturn x"
  by (simp_all add: deref_def)

lemma xbind_Done: "m s = Some (Done x, s') \<Longrightarrow> xbind m f s = f x s'"
  by (simp add: xbind_def)

lemma xbind_DoneD:
  assumes "xbind m f s = Some (Done y, s'')"
  obtains x s' where "m s = Some (Done x, s')" "f x s' = Some (Done y, s'')"
  using assms by (auto simp: xbind_def split: outcome.splits Option.bind_splits)

section \<open>Plans\<close>

datatype assignment = AssignLiteral uuid data_token | AssignColumn uuid uuid

datatype plan_node =
    SeqScanPlanNode string string
  | IndexScanPlanNode string string uuid binary_expr
  | ValuesPlanNode "data_row list"
  | FilterPlanNode meta_table binary_expr plan_node
  | ProjectPlanNode meta_table "string list" plan_node
  | LimitPlanNode u64 plan_node
  | InsertPlanNode string string "string list option" plan_node
  | UpdatePlanNode string string "assignment list" plan_node
  | DeletePlanNode string string plan_node
  | CreateDbPlanNode string
  | CreateTablePlanNode string meta_schema "column_definition list"
  | CreateIndexPlanNode string string string string bool
  | DropIndexPlanNode string string string

datatype query_plan_type =
  QP_SELECT | QP_INSERT | QP_UPDATE | QP_DELETE | QP_CREATE_DB | QP_CREATE_TABLE | QP_CREATE_INDEX | QP_DROP_INDEX

record query_plan =
  qp_needs_stream :: bool
  qp_db_specific :: bool
  qp_type :: query_plan_type
  qp_root :: plan_node

section \<open>The interface of a database instance\<close>

record scan_cursor =
  cur_page :: uuid
  cur_slot :: int
  cur_chunk_size :: int
  cur_initialized :: bool

text \<open>A transaction is a handle \<open>'t\<close>; its methods work on the state as well.\<close>

record ('s, 't) db_instance =
  db_seq_scan_begin :: "string \<Rightarrow> string \<Rightarrow> ('s, scan_cursor) prog"
  db_seq_scan_next :: "scan_cursor \<Rightarrow> data_row \<Rightarrow> ('s, bool \<times> scan_cursor \<times> data_row) prog"
  db_index_scan :: "string \<Rightarrow> string \<Rightarrow> uuid \<Rightarrow> binary_expr \<Rightarrow> ('s, data_table) prog"
  db_make_txn :: "('s, 't) prog"
  db_txn_begin :: "'t \<Rightarrow> ('s, unit) prog"
  db_txn_commit :: "'t \<Rightarrow> ('s, unit) prog"
  db_insert_row :: "string \<Rightarrow> string \<Rightarrow> string list option \<Rightarrow> data_token list \<Rightarrow> 't \<Rightarrow> ('s, unit) prog"
  db_update_row :: "string \<Rightarrow> string \<Rightarrow> assignment list \<Rightarrow> data_row list \<Rightarrow> 't \<Rightarrow> ('s, unit) prog"
  db_delete_rows :: "string \<Rightarrow> string \<Rightarrow> data_row list \<Rightarrow> 't \<Rightarrow> ('s, unit) prog"
  db_get_table :: "string \<Rightarrow> string \<Rightarrow> ('s, meta_table option) prog"
  db_get_table_by :: "table_identifier \<Rightarrow> ('s, meta_table option) prog"
  db_exists_table :: "table_identifier \<Rightarrow> ('s, bool) prog"
  db_get_schema :: "string \<Rightarrow> ('s, meta_schema option) prog"
  db_get_config :: "('s, config) prog"
  db_exists_db :: "string \<Rightarrow> ('s, bool) prog"
  db_create_table :: "string \<Rightarrow> string \<Rightarrow> column_definition list \<Rightarrow> 't \<Rightarrow> ('s, unit) prog"
  db_create_schema :: "string \<Rightarrow> 't \<Rightarrow> ('s, unit) prog"
  db_exists_schema :: "string \<Rightarrow> ('s, bool) prog"
  db_create_index :: "string \<Rightarrow> string \<Rightarrow> string \<Rightarrow> string \<Rightarrow> bool \<Rightarrow> 't \<Rightarrow> ('s, unit) prog"
  db_exists_index :: "string \<Rightarrow> table_identifier \<Rightarrow> ('s, bool) prog"
  db_drop_index :: "string \<Rightarrow> string \<Rightarrow> string \<Rightarrow> 't \<Rightarrow> ('s, unit) prog"

section \<open>Conversions\<close>

definition convert_schema :: "meta_table \<Rightarrow> output_column list" where
  "convert_schema mt = map (\<lambda>column. \<lparr>oc_name = mc_name column, oc_type = mc_type column\<rparr>) (mt_columns mt)"

definition convert_int :: "int \<Rightarrow> byte list" where
  "convert_int v = le_bytes 4 (word_of_int v :: u32)"

definition convert_to_dt :: "sql_token \<Rightarrow> data_type outcome" where
  "convert_to_dt token =
     (if \<not> is_keyword token
      then Raised (InvalidArgument ''convert_to_dt: cannot convert SQL token to data type: token is not a keyword'')
      else obind (get_keyword token) (\<lambda>keyword.
        if to_data_type keyword = DT_UNDEFINED
        then Raised (RuntimeError ''convert_to_dt: cannot convert SQL token to a data type: unknown type keyword'')
        else Done (to_data_type keyword)))"

text \<open>The flags of \<^verbatim>\<open>MetaColumnFlags\<close>. The loop looks at each token and, behind \<^verbatim>\<open>NOT\<close>, at the next one.\<close>

definition MCF_PK :: u32 where
  "MCF_PK = 1"

definition MCF_AI :: u32 where
  "MCF_AI = 4"

definition MCF_NN :: u32 where
  "MCF_NN = 8"

definition MCF_UN :: u32 where
  "MCF_UN = 16"

fun followed_by_null :: "sql_token list \<Rightarrow> bool outcome" where
  "followed_by_null (t # _) = (if is_keyword t then obind (get_keyword t) (\<lambda>k. Done (k = KW_NULL)) else Done False)"
| "followed_by_null [] = Done False"

fun mcf_loop :: "sql_token list \<Rightarrow> u32 \<Rightarrow> u32 outcome" where
  "mcf_loop [] flags = Done flags"
| "mcf_loop (t # ts) flags =
     (if \<not> is_keyword t then mcf_loop ts flags
      else obind (get_keyword t) (\<lambda>keyword.
        if keyword = KW_PRIMARY then mcf_loop ts (flags OR MCF_PK)
        else if keyword = KW_UNIQUE then mcf_loop ts (flags OR MCF_UN)
        else if keyword = KW_AUTOINCREMENT then mcf_loop ts (flags OR MCF_AI)
        else if keyword = KW_NOT then
          obind (followed_by_null ts) (\<lambda>b. mcf_loop ts (if b then flags OR MCF_NN else flags))
        else mcf_loop ts flags))"

definition convert_to_mcf :: "sql_token list \<Rightarrow> u32 outcome" where
  "convert_to_mcf tokens = mcf_loop tokens 0"

text \<open>The identifiers of the column are assigned by the caller; \<open>column_id\<close> and \<open>table_id\<close> are what it holds before.\<close>

definition convert_column :: "uuid \<Rightarrow> uuid \<Rightarrow> column_definition \<Rightarrow> meta_column outcome" where
  "convert_column column_id table_id column_def =
     obind (convert_to_dt (cd_type column_def)) (\<lambda>type.
     obind (convert_to_mcf (cd_constraints column_def)) (\<lambda>flags.
     Done \<lparr>mc_id = column_id, mc_table_id = table_id, mc_name = st_value (cd_name column_def), mc_type = type, mc_flags = flags\<rparr>))"

text \<open>\<^verbatim>\<open>DataRow(const std::vector<SqlToken>&)\<close>\<close>

fun tokens_of_sql :: "sql_token list \<Rightarrow> data_token list outcome" where
  "tokens_of_sql [] = Done []"
| "tokens_of_sql (t # ts) = obind (token_of_sql t) (\<lambda>x. obind (tokens_of_sql ts) (\<lambda>xs. Done (x # xs)))"

definition data_row_of_sql :: "sql_token list \<Rightarrow> data_row outcome" where
  "data_row_of_sql sql_tokens = obind (tokens_of_sql sql_tokens) (\<lambda>ts. Done \<lparr>dr_id = 0, dr_flags = 0, dr_tokens = ts\<rparr>)"

end
