(* ===== verification/Semantic_Analyzer.thy ===== *)
theory Semantic_Analyzer
  imports Db_Interface
begin

text \<open>
  The semantic analysis of statements, \<^verbatim>\<open>executor/semantic_analyzer.cpp\<close>. It checks names and types against the catalog
  of a database instance and marks the columns that are assigned to: the statement it returns is the one the planner sees.
\<close>

section \<open>Results\<close>

record analysis_result =
  ar_is_valid :: bool
  ar_err :: "exn option"
  ar_is_system_query :: "bool option"

definition analysis_ok :: analysis_result where
  "analysis_ok = \<lparr>ar_is_valid = True, ar_err = None, ar_is_system_query = Some False\<rparr>"

definition analysis_error :: "exn \<Rightarrow> analysis_result" where
  "analysis_error e = \<lparr>ar_is_valid = False, ar_err = Some e, ar_is_system_query = None\<rparr>"

definition analysis_system :: analysis_result where
  "analysis_system = \<lparr>ar_is_valid = True, ar_err = None, ar_is_system_query = Some True\<rparr>"

definition analysis_system_error :: "exn \<Rightarrow> analysis_result" where
  "analysis_system_error e = \<lparr>ar_is_valid = False, ar_err = Some e, ar_is_system_query = Some True\<rparr>"

definition TableDoesntExist :: exn where
  "TableDoesntExist = RuntimeError ''Table doesnt exist''"

definition TableExists :: exn where
  "TableExists = RuntimeError ''Table already exists''"

definition ColumnDoesntExists :: exn where
  "ColumnDoesntExists = RuntimeError ''Column doesnt exists''"

definition IndexDoesntExist :: exn where
  "IndexDoesntExist = RuntimeError ''Index does not exist on table''"

definition DbExists :: exn where
  "DbExists = RuntimeError ''Database already exists''"

section \<open>Types\<close>

definition compat_table :: "(data_type \<times> data_type list) list" where
  "compat_table =
     [(DT_INTEGER, [DT_INTEGER]), (DT_REAL, [DT_REAL, DT_INTEGER]), (DT_STRING, [DT_STRING, DT_CHAR]), (DT_CHAR, [DT_CHAR]),
      (DT_BOOL, [DT_BOOL]), (DT_NULL, [DT_NULL, DT_INTEGER, DT_REAL, DT_STRING, DT_CHAR, DT_BOOL])]"

definition literal_to_data_type_table :: "(sql_literal \<times> data_type) list" where
  "literal_to_data_type_table =
     [(LIT_INTEGER, DT_INTEGER), (LIT_STRING, DT_STRING), (LIT_CHAR, DT_CHAR), (LIT_BOOL, DT_BOOL), (LIT_REAL, DT_REAL),
      (LIT_NULL, DT_NULL)]"

definition is_compatible :: "sql_literal \<Rightarrow> data_type \<Rightarrow> bool" where
  "is_compatible lit col =
     (if lit = LIT_NULL then True
      else case map_of compat_table col of
             None \<Rightarrow> False
           | Some arr \<Rightarrow>
               let type = (case map_of literal_to_data_type_table lit of Some t \<Rightarrow> t | None \<Rightarrow> DT_UNDEFINED)
               in list_ex (\<lambda>t. t = type) arr)"

section \<open>Conditions\<close>

text \<open>\<^verbatim>\<open>std::get<SqlLiteral>(token.detail)\<close>\<close>

definition detail_literal :: "sql_token \<Rightarrow> sql_literal outcome" where
  "detail_literal t = (case st_detail t of DLiteral l \<Rightarrow> Done l | _ \<Rightarrow> Raised (RuntimeError ''bad_variant_access''))"

text \<open>\<^verbatim>\<open>std::get<SqlToken>(node->value)\<close>\<close>

definition node_token :: "ast_node \<Rightarrow> sql_token outcome" where
  "node_token node = (case an_value node of VToken t \<Rightarrow> Done t | _ \<Rightarrow> Raised (RuntimeError ''bad_variant_access''))"

definition check_column_value :: "ast_operator \<Rightarrow> ast_node \<Rightarrow> ast_node \<Rightarrow> meta_table \<Rightarrow> analysis_result outcome" where
  "check_column_value op column_node value_node table =
     obind (node_token column_node) (\<lambda>column_token.
     obind (node_token value_node) (\<lambda>value_token.
     obind (detail_literal value_token) (\<lambda>literal_type.
       if op = AO_IS \<and> literal_type \<noteq> LIT_NULL then Done (analysis_error (RuntimeError ''IS operator can only be used with NULL''))
       else if \<not> has_column table (st_value column_token) then Done (analysis_error ColumnDoesntExists)
       else obind (get_column_by_name table (st_value column_token)) (\<lambda>column.
         if \<not> is_compatible literal_type (mc_type column) then Done (analysis_error (RuntimeError ''Incompatible types conversion''))
         else Done analysis_ok))))"

definition analyze_column_comparison :: "ast_operator \<Rightarrow> ast_node \<Rightarrow> ast_node \<Rightarrow> meta_table \<Rightarrow> analysis_result outcome" where
  "analyze_column_comparison op left right table =
     (if an_type left = NT_IDENTIFIER \<and> an_type right = NT_LITERAL then check_column_value op left right table
      else if an_type right = NT_IDENTIFIER \<and> an_type left = NT_LITERAL then check_column_value op right left table
      else Done (analysis_error (RuntimeError ''Invalid WHERE expression: comparison must be between column and literal'')))"

definition is_comparison :: "ast_operator \<Rightarrow> bool" where
  "is_comparison op \<longleftrightarrow> op \<in> {AO_EQ, AO_NEQ, AO_GR, AO_LT, AO_GRE, AO_LTE, AO_IS}"

text \<open>\<^verbatim>\<open>analyze_where(std::get<BinaryExpr>(operand->value), table)\<close> for an operand of a logical operator.\<close>

fun analyze_where :: "binary_expr \<Rightarrow> meta_table \<Rightarrow> analysis_result outcome"
  and analyze_operand :: "ast_node option \<Rightarrow> meta_table \<Rightarrow> analysis_result outcome" where
  "analyze_where (BinaryExpr op left right) table =
     (if op = AO_ASSIGN then Done (analysis_error (RuntimeError ''Invalid condition operator''))
      else if is_comparison op then
        (case (left, right) of
           (Some l, Some r) \<Rightarrow>
             obind (analyze_column_comparison op l r table) (\<lambda>res. if \<not> ar_is_valid res then Done res else Done analysis_ok)
         | _ \<Rightarrow> Done (analysis_error (RuntimeError ''Incomplete comparison expression'')))
      else if op = AO_AND \<or> op = AO_OR then
        obind (analyze_operand left table) (\<lambda>res1.
        obind (analyze_operand right table) (\<lambda>res2.
          if \<not> ar_is_valid res1 then Done res1 else if \<not> ar_is_valid res2 then Done res2 else Done analysis_ok))
      else if op = AO_NOT then
        obind (analyze_operand left table) (\<lambda>res. if \<not> ar_is_valid res then Done res else Done analysis_ok)
      else Done analysis_ok)"
| "analyze_operand None table = Undef"
| "analyze_operand (Some (AstNode ty (VBinary e))) table = analyze_where e table"
| "analyze_operand (Some (AstNode ty _)) table = Raised (RuntimeError ''bad_variant_access'')"

section \<open>Statements\<close>

definition analyze_opt_where :: "binary_expr option \<Rightarrow> meta_table \<Rightarrow> analysis_result outcome" where
  "analyze_opt_where wh table =
     (case wh of
        None \<Rightarrow> Done analysis_ok
      | Some e \<Rightarrow> obind (analyze_where e table) (\<lambda>res. if \<not> ar_is_valid res then Done res else Done analysis_ok))"

text \<open>The checks all statements on a table begin with: its name, its existence; then \<open>f\<close> on the table.\<close>

definition with_table ::
    "('s, 't) db_instance \<Rightarrow> string \<Rightarrow> table_identifier \<Rightarrow> (meta_table \<Rightarrow> analysis_result outcome) \<Rightarrow> ('s, analysis_result) prog" where
  "with_table db missing table f =
     (if st_value (ti_table_name table) = [] then xreturn (analysis_error (RuntimeError missing))
      else xbind (db_exists_table db table) (\<lambda>b.
        if \<not> b then xreturn (analysis_error TableDoesntExist)
        else xbind (db_get_table_by db table) (\<lambda>p. xbind (deref p) (\<lambda>mt. xlift (f mt)))))"

definition missing_column :: "meta_table \<Rightarrow> sql_token list \<Rightarrow> bool" where
  "missing_column table columns \<longleftrightarrow> list_ex (\<lambda>col. \<not> has_column table (st_value col)) columns"

definition analyze_select ::
    "('s, 't) db_instance \<Rightarrow> table_identifier \<Rightarrow> sql_token list \<Rightarrow> binary_expr option \<Rightarrow> ('s, analysis_result) prog" where
  "analyze_select db table columns wh =
     with_table db ''Select statement missing target table'' table (\<lambda>mt.
       if missing_column mt columns then Done (analysis_error ColumnDoesntExists) else analyze_opt_where wh mt)"

text \<open>The values of one row: \<^verbatim>\<open>stmt.columns.at(i)\<close> throws behind the end of the column list. \<open>Some\<close> is a result the
  loops return with; a string literal as a result converts to \<^verbatim>\<open>true\<close>.\<close>

fun analyze_values :: "meta_table \<Rightarrow> sql_token list \<Rightarrow> nat \<Rightarrow> sql_token list \<Rightarrow> analysis_result option outcome" where
  "analyze_values table columns i [] = Done None"
| "analyze_values table columns i (value # values) =
     (case st_detail value of
        DLiteral literal_type \<Rightarrow>
          if length columns \<le> i then Raised (OutOfRange ''vector::_M_range_check'')
          else if \<not> has_column table (st_value (columns ! i)) then Done (Some analysis_ok)
          else obind (get_column_by_name table (st_value (columns ! i))) (\<lambda>column.
            if \<not> is_compatible literal_type (mc_type column)
            then Done (Some (analysis_error (RuntimeError ''Incompatible types conversion'')))
            else analyze_values table columns (Suc i) values)
      | _ \<Rightarrow> Done (Some (analysis_error (RuntimeError ''Invalid literal token type''))))"

fun analyze_rows :: "meta_table \<Rightarrow> sql_token list \<Rightarrow> sql_token list list \<Rightarrow> analysis_result outcome" where
  "analyze_rows table columns [] = Done analysis_ok"
| "analyze_rows table columns (values # rest) =
     obind (analyze_values table columns 0 values) (\<lambda>res.
       case res of Some r \<Rightarrow> Done r | None \<Rightarrow> analyze_rows table columns rest)"

definition analyze_insert ::
    "('s, 't) db_instance \<Rightarrow> table_identifier \<Rightarrow> sql_token list \<Rightarrow> sql_token list list \<Rightarrow> ('s, analysis_result) prog" where
  "analyze_insert db table columns values =
     with_table db ''Insert statement missing target table'' table (\<lambda>mt.
       if missing_column mt columns then Done (analysis_error ColumnDoesntExists) else analyze_rows mt columns values)"

text \<open>The node of the column is marked in place before its name is looked up.\<close>

definition mark_column :: "binary_expr \<Rightarrow> binary_expr" where
  "mark_column expr =
     BinaryExpr (be_op expr) (map_option (\<lambda>n. AstNode NT_COLUMN_IDENTIFIER (an_value n)) (be_left expr)) (be_right expr)"

definition analyze_column_assignment :: "binary_expr \<Rightarrow> meta_table \<Rightarrow> (analysis_result \<times> binary_expr) outcome" where
  "analyze_column_assignment expr table =
     (if be_op expr \<noteq> AO_ASSIGN then Done (analysis_error (RuntimeError ''Invalid assignment: expected =''), expr)
      else case (be_left expr, be_right expr) of
        (Some l, Some r) \<Rightarrow>
          if an_type l \<noteq> NT_IDENTIFIER \<or> an_type r \<noteq> NT_LITERAL
          then Done (analysis_error (RuntimeError ''Invalid assignment: you can assign only literal to a identifier''), expr)
          else obind (node_token l) (\<lambda>column_token.
            if \<not> has_column table (st_value column_token) then Done (analysis_error ColumnDoesntExists, mark_column expr)
            else obind (get_column_by_name table (st_value column_token)) (\<lambda>column.
                 obind (node_token r) (\<lambda>value_token.
                 obind (detail_literal value_token) (\<lambda>literal_type.
                   if \<not> is_compatible literal_type (mc_type column)
                   then Done (analysis_error (RuntimeError ''Incompatible types conversion in assignment''), mark_column expr)
                   else Done (analysis_ok, mark_column expr)))))
      | _ \<Rightarrow> Undef)"

fun analyze_assignments :: "meta_table \<Rightarrow> binary_expr list \<Rightarrow> (analysis_result \<times> binary_expr list) outcome" where
  "analyze_assignments table [] = Done (analysis_ok, [])"
| "analyze_assignments table (a # as) =
     obind (analyze_column_assignment a table) (\<lambda>(res, a').
       if \<not> ar_is_valid res then Done (res, a' # as)
       else obind (analyze_assignments table as) (\<lambda>(res, as'). Done (res, a' # as')))"

definition analyze_update ::
    "('s, 't) db_instance \<Rightarrow> table_identifier \<Rightarrow> binary_expr list \<Rightarrow> binary_expr option \<Rightarrow>
     ('s, analysis_result \<times> binary_expr list) prog" where
  "analyze_update db table assignments wh =
     (if st_value (ti_table_name table) = []
      then xreturn (analysis_error (RuntimeError ''Update statement missing target table''), assignments)
      else if assignments = [] then xreturn (analysis_error (RuntimeError ''Update statement missing assignments''), assignments)
      else xbind (db_exists_table db table) (\<lambda>b.
        if \<not> b then xreturn (analysis_error TableDoesntExist, assignments)
        else xbind (db_get_table_by db table) (\<lambda>p. xbind (deref p) (\<lambda>mt.
             xbind (xlift (analyze_assignments mt assignments)) (\<lambda>(res, assignments).
               if \<not> ar_is_valid res then xreturn (res, assignments)
               else xlift (obind (analyze_opt_where wh mt) (\<lambda>res. Done (res, assignments))))))))"

definition analyze_delete ::
    "('s, 't) db_instance \<Rightarrow> table_identifier \<Rightarrow> binary_expr option \<Rightarrow> ('s, analysis_result) prog" where
  "analyze_delete db table wh = with_table db ''Delete statement missing target table'' table (analyze_opt_where wh)"

definition analyze_create_table :: "('s, 't) db_instance \<Rightarrow> table_identifier \<Rightarrow> ('s, analysis_result) prog" where
  "analyze_create_table db table =
     xbind (db_exists_table db table) (\<lambda>b. xreturn (if b then analysis_error TableExists else analysis_ok))"

definition analyze_create_index ::
    "('s, 't) db_instance \<Rightarrow> table_identifier \<Rightarrow> sql_token \<Rightarrow> sql_token \<Rightarrow> ('s, analysis_result) prog" where
  "analyze_create_index db table index_name column_name =
     xbind (db_exists_table db table) (\<lambda>b.
       if \<not> b then xreturn (analysis_error TableDoesntExist)
       else xbind (db_get_table_by db table) (\<lambda>p. xbind (deref p) (\<lambda>mt.
         if list_ex (\<lambda>index. mi_name index = st_value index_name) (mt_indexes mt)
         then xreturn (analysis_error (RuntimeError ''Index already exists''))
         else if \<not> has_column mt (st_value column_name) then xreturn (analysis_error (RuntimeError ''Column doesnt exists''))
         else xreturn analysis_ok)))"

definition analyze_drop_index ::
    "('s, 't) db_instance \<Rightarrow> table_identifier \<Rightarrow> sql_token \<Rightarrow> ('s, analysis_result) prog" where
  "analyze_drop_index db table index_name =
     xbind (db_exists_table db table) (\<lambda>b.
       if \<not> b then xreturn (analysis_error TableDoesntExist)
       else xbind (db_exists_index db (st_value index_name) table) (\<lambda>b.
         xreturn (if b then analysis_ok else analysis_error IndexDoesntExist)))"

text \<open>\<^verbatim>\<open>GenericQueryValidator\<close> asks a storage manager of the same configuration.\<close>

definition analyze_create_db :: "('s, 't) db_instance \<Rightarrow> sql_token \<Rightarrow> ('s, analysis_result) prog" where
  "analyze_create_db db name =
     xbind (db_exists_db db (st_value name)) (\<lambda>b. xreturn (if b then analysis_system_error DbExists else analysis_system))"

definition unchanged :: "ast_node \<Rightarrow> ('s, analysis_result) prog \<Rightarrow> ('s, analysis_result \<times> ast_node) prog" where
  "unchanged node m = xbind m (\<lambda>res. xreturn (res, node))"

text \<open>\<^verbatim>\<open>std::get\<close> of another alternative than the one that is stored.\<close>

definition bad_variant :: "('s, 'a) prog" where
  "bad_variant = xraise (RuntimeError ''bad_variant_access'')"

definition analyze :: "('s, 't) db_instance \<Rightarrow> ast_node \<Rightarrow> ('s, analysis_result \<times> ast_node) prog" where
  "analyze db node =
     (if an_type node = NT_SELECT then
        (case an_value node of
           VSelect table columns wh lim \<Rightarrow> unchanged node (analyze_select db table columns wh) | _ \<Rightarrow> bad_variant)
      else if an_type node = NT_INSERT then
        (case an_value node of
           VInsert table columns values \<Rightarrow> unchanged node (analyze_insert db table columns values) | _ \<Rightarrow> bad_variant)
      else if an_type node = NT_UPDATE then
        (case an_value node of
           VUpdate table assignments wh \<Rightarrow>
             xbind (analyze_update db table assignments wh) (\<lambda>(res, assignments).
               xreturn (res, AstNode NT_UPDATE (VUpdate table assignments wh)))
         | _ \<Rightarrow> bad_variant)
      else if an_type node = NT_DELETE then
        (case an_value node of VDelete table wh \<Rightarrow> unchanged node (analyze_delete db table wh) | _ \<Rightarrow> bad_variant)
      else if an_type node = NT_CREATE_DATABASE then
        (case an_value node of VCreateDb name \<Rightarrow> unchanged node (analyze_create_db db name) | _ \<Rightarrow> bad_variant)
      else if an_type node = NT_CREATE_TABLE then
        (case an_value node of VCreateTable table _ \<Rightarrow> unchanged node (analyze_create_table db table) | _ \<Rightarrow> bad_variant)
      else if an_type node = NT_CREATE_INDEX then
        (case an_value node of
           VCreateIndex table index_name column_name _ \<Rightarrow> unchanged node (analyze_create_index db table index_name column_name)
         | _ \<Rightarrow> bad_variant)
      else if an_type node = NT_DROP_INDEX then
        (case an_value node of VDropIndex table index_name \<Rightarrow> unchanged node (analyze_drop_index db table index_name) | _ \<Rightarrow> bad_variant)
      else xraise (RuntimeError ''SemanticAnalyzer::analyze: Unsupported AST node type for semantic analysis''))"

end
