(* ===== verification/Planner.thy ===== *)
theory Planner
  imports Semantic_Analyzer Complex_Main
begin

text \<open>
  The planner \<^verbatim>\<open>executor/std_planner.cpp\<close>: the choice between a sequential and an index scan, the plan of every statement, and
  the estimate that decides whether a result is streamed. Costs are \<^verbatim>\<open>double\<close>s; their arithmetic is a parameter, so
  that what is shown holds however operations round and whatever a division by zero yields.
\<close>

record 'd float_ops =
  fp_of_u64 :: "u64 \<Rightarrow> 'd"
  fp_const :: "rat \<Rightarrow> 'd"
  fp_add :: "'d \<Rightarrow> 'd \<Rightarrow> 'd"
  fp_mult :: "'d \<Rightarrow> 'd \<Rightarrow> 'd"
  fp_div :: "'d \<Rightarrow> 'd \<Rightarrow> 'd"
  fp_log2 :: "'d \<Rightarrow> 'd"
  fp_less :: "'d \<Rightarrow> 'd \<Rightarrow> bool"
  fp_le :: "'d \<Rightarrow> 'd \<Rightarrow> bool"

section \<open>Estimates\<close>

primrec estimate_seq_scan_selectivity :: "'d float_ops \<Rightarrow> meta_table \<Rightarrow> plan_node \<Rightarrow> 'd" where
  "estimate_seq_scan_selectivity fp table (SeqScanPlanNode _ _) =
     (if mt_total_rows table = 0 then fp_const fp 0 else fp_div fp (fp_of_u64 fp (mt_live_rows table)) (fp_of_u64 fp (mt_total_rows table)))"
| "estimate_seq_scan_selectivity fp table (FilterPlanNode _ _ child) =
     fp_mult fp (estimate_seq_scan_selectivity fp table child) (fp_const fp (3 / 10))"
| "estimate_seq_scan_selectivity fp table (ProjectPlanNode _ _ child) =
     fp_mult fp (estimate_seq_scan_selectivity fp table child) (fp_const fp 1)"
| "estimate_seq_scan_selectivity fp table (LimitPlanNode limit child) =
     (if mt_live_rows table = 0 then fp_const fp 0
      else
        let estimated_rows = fp_mult fp (fp_of_u64 fp (mt_live_rows table)) (estimate_seq_scan_selectivity fp table child);
            capped_rows = (if fp_less fp (fp_of_u64 fp limit) estimated_rows then fp_of_u64 fp limit else estimated_rows)
        in fp_div fp capped_rows (fp_of_u64 fp (mt_live_rows table)))"
| "estimate_seq_scan_selectivity fp table (IndexScanPlanNode _ _ _ _) = fp_const fp 1"
| "estimate_seq_scan_selectivity fp table (ValuesPlanNode _) = fp_const fp 1"
| "estimate_seq_scan_selectivity fp table (InsertPlanNode _ _ _ _) = fp_const fp 1"
| "estimate_seq_scan_selectivity fp table (UpdatePlanNode _ _ _ _) = fp_const fp 1"
| "estimate_seq_scan_selectivity fp table (DeletePlanNode _ _ _) = fp_const fp 1"
| "estimate_seq_scan_selectivity fp table (CreateDbPlanNode _) = fp_const fp 1"
| "estimate_seq_scan_selectivity fp table (CreateTablePlanNode _ _ _) = fp_const fp 1"
| "estimate_seq_scan_selectivity fp table (CreateIndexPlanNode _ _ _ _ _) = fp_const fp 1"
| "estimate_seq_scan_selectivity fp table (DropIndexPlanNode _ _ _) = fp_const fp 1"

definition should_stream_for_seq_scan :: "'d float_ops \<Rightarrow> meta_table \<Rightarrow> plan_node \<Rightarrow> bool" where
  "should_stream_for_seq_scan fp table node =
     (let estimated_rows = fp_mult fp (fp_of_u64 fp (mt_total_rows table)) (estimate_seq_scan_selectivity fp table node)
      in fp_le fp (fp_const fp 2048) estimated_rows)"

definition estimate_selectivity :: "'d float_ops \<Rightarrow> binary_expr \<Rightarrow> meta_index \<Rightarrow> 'd" where
  "estimate_selectivity fp condition idx =
     (case be_op condition of
        AO_EQ \<Rightarrow> if mi_is_unique idx then fp_const fp (1 / 10) else fp_const fp 1
      | AO_LT \<Rightarrow> fp_const fp (3 / 10)
      | AO_LTE \<Rightarrow> fp_const fp (3 / 10)
      | AO_GR \<Rightarrow> fp_const fp (3 / 10)
      | AO_GRE \<Rightarrow> fp_const fp (3 / 10)
      | _ \<Rightarrow> fp_const fp 1)"

definition estimate_index_scan :: "'d float_ops \<Rightarrow> meta_table \<Rightarrow> meta_index \<Rightarrow> binary_expr \<Rightarrow> 'd" where
  "estimate_index_scan fp table idx condition =
     (if mt_live_rows table = 0 then fp_const fp 0
      else
        let N = fp_of_u64 fp (mt_total_rows table);
            live = fp_of_u64 fp (mt_live_rows table);
            live_ratio = fp_div fp live N;
            sel = estimate_selectivity fp condition idx;
            K_live = fp_mult fp live sel;
            K_index = fp_div fp K_live live_ratio;
            btree_cost = fp_log2 fp N
        in fp_add fp btree_cost K_index)"

section \<open>The scan\<close>

definition is_null_literal :: "ast_node option \<Rightarrow> bool outcome" where
  "is_null_literal p =
     (case p of
        None \<Rightarrow> Done False
      | Some node \<Rightarrow>
          if an_type node \<noteq> NT_LITERAL then Done False
          else obind (node_token node) (\<lambda>token. Done (st_detail token = DLiteral LIT_NULL)))"

definition is_null_predicate :: "binary_expr \<Rightarrow> bool outcome" where
  "is_null_predicate condition =
     (if be_op condition = AO_IS then Done True
      else if be_op condition \<noteq> AO_EQ \<and> be_op condition \<noteq> AO_NEQ then Done False
      else obind (is_null_literal (be_left condition)) (\<lambda>b.
        if b then Done True else is_null_literal (be_right condition)))"

text \<open>The loop over the indexes keeps the cheapest scan so far; \<open>None\<close> stands for the sequential one.\<close>

fun choose_index :: "'d float_ops \<Rightarrow> meta_table \<Rightarrow> binary_expr \<Rightarrow> meta_index list \<Rightarrow> 'd \<Rightarrow> meta_index option \<Rightarrow> meta_index option outcome" where
  "choose_index fp table condition [] best_cost best = Done best"
| "choose_index fp table condition (idx # rest) best_cost best =
     (case be_left condition of
        None \<Rightarrow> Undef
      | Some left \<Rightarrow>
          if an_type left \<noteq> NT_IDENTIFIER then Raised (RuntimeError ''choose_scan_type: left token must be column identifier'')
          else obind (node_token left) (\<lambda>token.
               obind (get_column_by_name table (st_value token)) (\<lambda>column.
                 if mi_column_id idx \<noteq> mc_id column then choose_index fp table condition rest best_cost best
                 else
                   let cost = estimate_index_scan fp table idx condition
                   in if fp_less fp cost best_cost then choose_index fp table condition rest cost (Some idx)
                      else choose_index fp table condition rest best_cost best)))"

definition choose_scan_type :: "'d float_ops \<Rightarrow> meta_table \<Rightarrow> binary_expr option \<Rightarrow> meta_index option outcome" where
  "choose_scan_type fp table condition =
     (case condition of
        None \<Rightarrow> Done None
      | Some c \<Rightarrow>
          obind (is_null_predicate c) (\<lambda>b.
            if b then Done None
            else choose_index fp table c (mt_indexes table) (fp_of_u64 fp (mt_total_rows table)) None))"

section \<open>Plans of statements\<close>

record 'd planner =
  pl_config :: config
  pl_fp :: "'d float_ops"

definition schema_of :: "'d planner \<Rightarrow> table_identifier \<Rightarrow> string" where
  "schema_of pl table = (case ti_schema_name table of Some t \<Rightarrow> st_value t | None \<Rightarrow> cfg_default_schema (pl_config pl))"

definition table_of :: "table_identifier \<Rightarrow> string" where
  "table_of table = st_value (ti_table_name table)"

text \<open>A filter over a scan, where the statement has a condition.\<close>

definition filter_over :: "('s, 't) db_instance \<Rightarrow> table_identifier \<Rightarrow> binary_expr option \<Rightarrow> plan_node \<Rightarrow> ('s, plan_node) prog" where
  "filter_over db table wh node =
     (case wh of
        None \<Rightarrow> xreturn node
      | Some c \<Rightarrow> xbind (db_get_table_by db table) (\<lambda>p. xbind (deref p) (\<lambda>mt. xreturn (FilterPlanNode mt c node))))"

definition plan_select ::
    "('s, 't) db_instance \<Rightarrow> 'd planner \<Rightarrow> table_identifier \<Rightarrow> sql_token list \<Rightarrow> binary_expr option \<Rightarrow> u64 option \<Rightarrow>
     ('s, query_plan) prog" where
  "plan_select db pl table columns wh row_limit =
     xbind (db_get_table_by db table) (\<lambda>p.
     xbind (deref p) (\<lambda>mt.
     xbind (xlift (choose_scan_type (pl_fp pl) mt wh)) (\<lambda>chosen.
     xbind (case chosen of
              Some idx \<Rightarrow>
                xbind (deref wh) (\<lambda>c. xreturn (IndexScanPlanNode (table_of table) (schema_of pl table) (mi_id idx) c))
            | None \<Rightarrow> filter_over db table wh (SeqScanPlanNode (table_of table) (schema_of pl table))) (\<lambda>node.
     xbind (if columns = [] then xreturn node
            else xbind (db_get_table_by db table) (\<lambda>p. xbind (deref p) (\<lambda>mt.
                   xreturn (ProjectPlanNode mt (map st_value columns) node)))) (\<lambda>node.
     let node = (case row_limit of Some n \<Rightarrow> LimitPlanNode n node | None \<Rightarrow> node)
     in xreturn \<lparr>qp_needs_stream = (if chosen = None then should_stream_for_seq_scan (pl_fp pl) mt node else False),
                 qp_db_specific = True, qp_type = QP_SELECT, qp_root = node\<rparr>)))))"

fun rows_of_sql :: "sql_token list list \<Rightarrow> data_row list outcome" where
  "rows_of_sql [] = Done []"
| "rows_of_sql (v # vs) = obind (data_row_of_sql v) (\<lambda>r. obind (rows_of_sql vs) (\<lambda>rs. Done (r # rs)))"

definition plan_insert :: "'d planner \<Rightarrow> table_identifier \<Rightarrow> sql_token list \<Rightarrow> sql_token list list \<Rightarrow> ('s, query_plan) prog" where
  "plan_insert pl table columns values =
     xbind (xlift (rows_of_sql values)) (\<lambda>rows.
     let cols = (if columns = [] then None else Some (map st_value columns))
     in xreturn \<lparr>qp_needs_stream = False, qp_db_specific = True, qp_type = QP_INSERT,
                 qp_root = InsertPlanNode (table_of table) (schema_of pl table) cols (ValuesPlanNode rows)\<rparr>)"

text \<open>\<^verbatim>\<open>table->get_column(token)\<close>; the pointer may be null.\<close>

definition column_of :: "meta_table option \<Rightarrow> ast_node \<Rightarrow> meta_column outcome" where
  "column_of mt node =
     obind (node_token node) (\<lambda>t. case mt of None \<Rightarrow> Undef | Some table \<Rightarrow> get_column_by_name table (st_value t))"

text \<open>An assignment between nodes of other types is left out.\<close>

definition plan_assignment :: "meta_table option \<Rightarrow> binary_expr \<Rightarrow> assignment list outcome" where
  "plan_assignment mt a =
     (case be_left a of
        None \<Rightarrow> Undef
      | Some l \<Rightarrow>
          if an_type l \<noteq> NT_COLUMN_IDENTIFIER then Done []
          else case be_right a of
            None \<Rightarrow> Undef
          | Some r \<Rightarrow>
              if an_type r = NT_LITERAL then
                obind (column_of mt l) (\<lambda>col. obind (node_token r) (\<lambda>rt. obind (token_of_sql rt) (\<lambda>v. Done [AssignLiteral (mc_id col) v])))
              else if an_type r = NT_COLUMN_IDENTIFIER then
                obind (column_of mt l) (\<lambda>left. obind (column_of mt r) (\<lambda>right. Done [AssignColumn (mc_id left) (mc_id right)]))
              else Done [])"

fun plan_assignments :: "meta_table option \<Rightarrow> binary_expr list \<Rightarrow> assignment list outcome" where
  "plan_assignments mt [] = Done []"
| "plan_assignments mt (a # as) = obind (plan_assignment mt a) (\<lambda>x. obind (plan_assignments mt as) (\<lambda>xs. Done (x @ xs)))"

definition plan_update ::
    "('s, 't) db_instance \<Rightarrow> 'd planner \<Rightarrow> table_identifier \<Rightarrow> binary_expr list \<Rightarrow> binary_expr option \<Rightarrow> ('s, query_plan) prog" where
  "plan_update db pl table assignments wh =
     xbind (db_get_table_by db table) (\<lambda>p.
     xbind (xlift (plan_assignments p assignments)) (\<lambda>asg.
     xbind (filter_over db table wh (SeqScanPlanNode (table_of table) (schema_of pl table))) (\<lambda>root.
     xreturn \<lparr>qp_needs_stream = False, qp_db_specific = True, qp_type = QP_UPDATE,
              qp_root = UpdatePlanNode (table_of table) (schema_of pl table) asg root\<rparr>)))"

definition plan_delete :: "('s, 't) db_instance \<Rightarrow> 'd planner \<Rightarrow> table_identifier \<Rightarrow> binary_expr option \<Rightarrow> ('s, query_plan) prog" where
  "plan_delete db pl table wh =
     xbind (filter_over db table wh (SeqScanPlanNode (table_of table) (schema_of pl table))) (\<lambda>root.
     xreturn \<lparr>qp_needs_stream = False, qp_db_specific = True, qp_type = QP_DELETE,
              qp_root = DeletePlanNode (table_of table) (schema_of pl table) root\<rparr>)"

definition plan_create_db :: "sql_token \<Rightarrow> ('s, query_plan) prog" where
  "plan_create_db name =
     xreturn \<lparr>qp_needs_stream = False, qp_db_specific = False, qp_type = QP_CREATE_DB, qp_root = CreateDbPlanNode (st_value name)\<rparr>"

definition plan_create_table ::
    "('s, 't) db_instance \<Rightarrow> 'd planner \<Rightarrow> table_identifier \<Rightarrow> column_definition list \<Rightarrow> ('s, query_plan) prog" where
  "plan_create_table db pl table columns =
     xbind (db_get_schema db (schema_of pl table)) (\<lambda>p. xbind (deref p) (\<lambda>schema.
     xreturn \<lparr>qp_needs_stream = False, qp_db_specific = True, qp_type = QP_CREATE_TABLE,
              qp_root = CreateTablePlanNode (table_of table) schema columns\<rparr>))"

definition plan_create_index :: "'d planner \<Rightarrow> table_identifier \<Rightarrow> sql_token \<Rightarrow> sql_token \<Rightarrow> bool \<Rightarrow> ('s, query_plan) prog" where
  "plan_create_index pl table index_name column_name is_unique =
     xreturn \<lparr>qp_needs_stream = False, qp_db_specific = True, qp_type = QP_CREATE_INDEX,
              qp_root = CreateIndexPlanNode (st_value index_name) (table_of table) (schema_of pl table) (st_value column_name) is_unique\<rparr>"

definition plan_drop_index :: "'d planner \<Rightarrow> table_identifier \<Rightarrow> sql_token \<Rightarrow> ('s, query_plan) prog" where
  "plan_drop_index pl table index_name =
     xreturn \<lparr>qp_needs_stream = False, qp_db_specific = True, qp_type = QP_DROP_INDEX,
              qp_root = DropIndexPlanNode (st_value index_name) (table_of table) (schema_of pl table)\<rparr>"

definition plan :: "('s, 't) db_instance \<Rightarrow> 'd planner \<Rightarrow> ast_node \<Rightarrow> ('s, query_plan) prog" where
  "plan db pl ast =
     (if an_type ast = NT_SELECT then
        (case an_value ast of VSelect table columns wh row_limit \<Rightarrow> plan_select db pl table columns wh row_limit | _ \<Rightarrow> bad_variant)
      else if an_type ast = NT_INSERT then
        (case an_value ast of VInsert table columns values \<Rightarrow> plan_insert pl table columns values | _ \<Rightarrow> bad_variant)
      else if an_type ast = NT_UPDATE then
        (case an_value ast of VUpdate table assignments wh \<Rightarrow> plan_update db pl table assignments wh | _ \<Rightarrow> bad_variant)
      else if an_type ast = NT_DELETE then
        (case an_value ast of VDelete table wh \<Rightarrow> plan_delete db pl table wh | _ \<Rightarrow> bad_variant)
      else if an_type ast = NT_CREATE_DATABASE then
        (case an_value ast of VCreateDb name \<Rightarrow> plan_create_db name | _ \<Rightarrow> bad_variant)
      else if an_type ast = NT_CREATE_TABLE then
        (case an_value ast of VCreateTable table columns \<Rightarrow> plan_create_table db pl table columns | _ \<Rightarrow> bad_variant)
      else if an_type ast = NT_CREATE_INDEX then
        (case an_value ast of
           VCreateIndex table index_name column_name is_unique \<Rightarrow> plan_create_index pl table index_name column_name is_unique
         | _ \<Rightarrow> bad_variant)
      else if an_type ast = NT_DROP_INDEX then
        (case an_value ast of VDropIndex table index_name \<Rightarrow> plan_drop_index pl table index_name | _ \<Rightarrow> bad_variant)
      else xraise (RuntimeError ''Unsupported query in StdPlanner::plan''))"

end
