(* ===== verification/Node_Executor.thy ===== *)
theory Node_Executor
  imports Planner
begin

text \<open>
  The executors of plan nodes, \<^verbatim>\<open>executor/node_executor.cpp\<close>, and the results of queries, \<^verbatim>\<open>types/execution_result.cpp\<close>. An
  executor is a tree of nodes with their state; \<open>next\<close> yields the tree after the call. The loops of filters, insertions,
  updates and deletions run until the child has no more rows, which it may never report.
\<close>

section \<open>Executors\<close>

datatype executor =
    SeqScanNodeExecutor string string scan_cursor
  | IndexScanNodeExecutor string string uuid binary_expr data_table nat
  | FilterNodeExecutor binary_expr meta_table executor
  | ProjectionNodeExecutor meta_table "string list" "int list" executor
  | LimitNodeExecutor u64 u64 executor
  | InsertNodeExecutor string string "string list option" executor bool
  | ValuesNodeExecutor "data_row list" nat
  | UpdateNodeExecutor string string "assignment list" executor bool
  | DeleteNodeExecutor string string executor bool
  | CreateTableNodeExecutor string meta_schema "column_definition list"
  | CreateDbNodeExecutor string
  | CreateIndexNodeExecutor string string string string bool
  | DropIndexNodeExecutor string string string

definition empty_row :: data_row where
  "empty_row = \<lparr>dr_id = 0, dr_flags = 0, dr_tokens = []\<rparr>"

definition empty_data_table :: data_table where
  "empty_data_table = \<lparr>dt_table_name = [], dt_output_schema = [], dt_rows = []\<rparr>"

definition no_cursor :: scan_cursor where
  "no_cursor = \<lparr>cur_page = 0, cur_slot = 0, cur_chunk_size = 0, cur_initialized = False\<rparr>"

primrec from_plan :: "plan_node \<Rightarrow> executor" where
  "from_plan (SeqScanPlanNode table schema) = SeqScanNodeExecutor table schema no_cursor"
| "from_plan (IndexScanPlanNode table schema index_id condition) = IndexScanNodeExecutor table schema index_id condition empty_data_table 0"
| "from_plan (FilterPlanNode mt wh child) = FilterNodeExecutor wh mt (from_plan child)"
| "from_plan (ProjectPlanNode mt columns child) = ProjectionNodeExecutor mt columns [] (from_plan child)"
| "from_plan (LimitPlanNode limit child) = LimitNodeExecutor limit 0 (from_plan child)"
| "from_plan (InsertPlanNode table schema cols child) = InsertNodeExecutor table schema cols (from_plan child) False"
| "from_plan (ValuesPlanNode values) = ValuesNodeExecutor values 0"
| "from_plan (UpdatePlanNode table schema asg child) = UpdateNodeExecutor table schema asg (from_plan child) False"
| "from_plan (DeletePlanNode table schema child) = DeleteNodeExecutor table schema (from_plan child) False"
| "from_plan (CreateTablePlanNode table schema columns) = CreateTableNodeExecutor table schema columns"
| "from_plan (CreateDbPlanNode name) = CreateDbNodeExecutor name"
| "from_plan (CreateIndexPlanNode index table schema column is_unique) = CreateIndexNodeExecutor index table column schema is_unique"
| "from_plan (DropIndexPlanNode index table schema) = DropIndexNodeExecutor index table schema"

section \<open>open\<close>

text \<open>\<^verbatim>\<open>assert(idx >= 0)\<close>: a column that is not in the table ends the process.\<close>

fun projection_indices :: "meta_table \<Rightarrow> string list \<Rightarrow> int list outcome" where
  "projection_indices table [] = Done []"
| "projection_indices table (column # columns) =
     (let idx = get_column_idx_by_name table column
      in if idx < 0 then Undef else obind (projection_indices table columns) (\<lambda>is. Done (idx # is)))"

primrec ex_open :: "('s, 't) db_instance \<Rightarrow> executor \<Rightarrow> ('s, executor) prog" where
  "ex_open db (SeqScanNodeExecutor table schema cursor) =
     xbind (db_seq_scan_begin db table schema) (\<lambda>c. xreturn (SeqScanNodeExecutor table schema c))"
| "ex_open db (IndexScanNodeExecutor table schema index_id condition dt i) =
     xbind (db_index_scan db table schema index_id condition) (\<lambda>dt. xreturn (IndexScanNodeExecutor table schema index_id condition dt i))"
| "ex_open db (FilterNodeExecutor condition mt child) = xbind (ex_open db child) (\<lambda>c. xreturn (FilterNodeExecutor condition mt c))"
| "ex_open db (ProjectionNodeExecutor mt columns indices child) =
     xbind (ex_open db child) (\<lambda>c. xbind (xlift (projection_indices mt columns)) (\<lambda>is.
       xreturn (ProjectionNodeExecutor mt columns (sort is) c)))"
| "ex_open db (LimitNodeExecutor limit current child) = xbind (ex_open db child) (\<lambda>c. xreturn (LimitNodeExecutor limit current c))"
| "ex_open db (InsertNodeExecutor table schema cols child executed) =
     xbind (ex_open db child) (\<lambda>c. xreturn (InsertNodeExecutor table schema cols c executed))"
| "ex_open db (ValuesNodeExecutor rows i) = xreturn (ValuesNodeExecutor rows i)"
| "ex_open db (UpdateNodeExecutor table schema asg child executed) =
     xbind (ex_open db child) (\<lambda>c. xreturn (UpdateNodeExecutor table schema asg c executed))"
| "ex_open db (DeleteNodeExecutor table schema child executed) =
     xbind (ex_open db child) (\<lambda>c. xreturn (DeleteNodeExecutor table schema c executed))"
| "ex_open db (CreateTableNodeExecutor table schema columns) = xreturn (CreateTableNodeExecutor table schema columns)"
| "ex_open db (CreateDbNodeExecutor name) = xreturn (CreateDbNodeExecutor name)"
| "ex_open db (CreateIndexNodeExecutor index table column schema is_unique) =
     xreturn (CreateIndexNodeExecutor index table column schema is_unique)"
| "ex_open db (DropIndexNodeExecutor index table schema) = xreturn (DropIndexNodeExecutor index table schema)"

section \<open>output\_schema\<close>

definition table_schema :: "('s, 't) db_instance \<Rightarrow> string \<Rightarrow> string \<Rightarrow> ('s, output_column list) prog" where
  "table_schema db table schema = xbind (db_get_table db table schema) (\<lambda>p. xbind (deref p) (\<lambda>mt. xreturn (convert_schema mt)))"

fun projected_schema :: "meta_table \<Rightarrow> int list \<Rightarrow> output_column list outcome" where
  "projected_schema mt [] = Done []"
| "projected_schema mt (i # is) =
     (if 0 \<le> i \<and> i < int (length (mt_columns mt))
      then obind (projected_schema mt is) (\<lambda>cs.
        Done (\<lparr>oc_name = mc_name (mt_columns mt ! nat i), oc_type = mc_type (mt_columns mt ! nat i)\<rparr> # cs))
      else Undef)"

primrec ex_output_schema :: "('s, 't) db_instance \<Rightarrow> executor \<Rightarrow> ('s, output_column list) prog" where
  "ex_output_schema db (SeqScanNodeExecutor table schema cursor) = table_schema db table schema"
| "ex_output_schema db (IndexScanNodeExecutor table schema index_id condition dt i) = table_schema db table schema"
| "ex_output_schema db (FilterNodeExecutor condition mt child) = ex_output_schema db child"
| "ex_output_schema db (ProjectionNodeExecutor mt columns indices child) = xlift (projected_schema mt indices)"
| "ex_output_schema db (LimitNodeExecutor limit current child) = ex_output_schema db child"
| "ex_output_schema db (InsertNodeExecutor table schema cols child executed) =
     xreturn [\<lparr>oc_name = ''affected_rows'', oc_type = DT_INTEGER\<rparr>]"
| "ex_output_schema db (ValuesNodeExecutor rows i) = xreturn []"
| "ex_output_schema db (UpdateNodeExecutor table schema asg child executed) =
     xreturn [\<lparr>oc_name = ''affected rows'', oc_type = DT_INTEGER\<rparr>]"
| "ex_output_schema db (DeleteNodeExecutor table schema child executed) =
     xreturn [\<lparr>oc_name = ''affected rows'', oc_type = DT_INTEGER\<rparr>]"
| "ex_output_schema db (CreateTableNodeExecutor table schema columns) = xreturn []"
| "ex_output_schema db (CreateDbNodeExecutor name) = xreturn []"
| "ex_output_schema db (CreateIndexNodeExecutor index table column schema is_unique) = xreturn []"
| "ex_output_schema db (DropIndexNodeExecutor index table schema) = xreturn []"

section \<open>next\<close>

text \<open>\<open>xcont r f\<close> goes on with \<open>f\<close> after a call that ended with \<open>r\<close>.\<close>

definition xcont :: "('a outcome \<times> 's) option \<Rightarrow> ('a \<Rightarrow> 's \<Rightarrow> ('b outcome \<times> 's) option) \<Rightarrow> ('b outcome \<times> 's) option" where
  "xcont r f =
     Option.bind r (\<lambda>(x, s). case x of
        Done y \<Rightarrow> f y s
      | Failed \<Rightarrow> Some (Failed, s)
      | Raised e \<Rightarrow> Some (Raised e, s)
      | Undef \<Rightarrow> Some (Undef, s))"

lemma xbind_xcont: "xbind m f s = xcont (m s) f"
  by (simp add: xbind_def xcont_def)

lemma xbind_fun: "xbind m f = (\<lambda>s. xcont (m s) f)"
  by (rule ext) (rule xbind_xcont)

lemma xcont_simps [simp]:
  "xcont (Some (Done x, s)) f = f x s" "xcont (Some (Raised e, s)) f = Some (Raised e, s)"
  "xcont (Some (Undef, s)) f = Some (Undef, s)" "xcont (xreturn x s) f = f x s" "xcont None f = None"
  by (simp_all add: xcont_def xreturn_def)

lemma xcont_mono [partial_function_mono]:
  assumes "mono_option B" and "\<And>y s. mono_option (\<lambda>f. C y s f)"
  shows "mono_option (\<lambda>f. xcont (B f) (\<lambda>y s. C y s f))"
  unfolding xcont_def
proof (rule bind_mono [OF assms(1)], goal_cases)
  case (1 r)
  show ?case by (cases r; cases "fst r") (simp_all add: assms(2) option.const_mono)
qed

text \<open>
  The calls of the recursion: \<open>next\<close> on a node, the loop that collects the rows of a child, and the loop that inserts them.
  A call reports what \<open>next\<close> returns, the node and the row variable after it; the loops report the rows they have seen.
\<close>

datatype 't ex_call =
    CNext executor data_row
  | CDrain executor "data_row list"
  | CInsert string string "string list option" executor 't "data_row list"

record ex_result =
  er_more :: bool
  er_node :: executor
  er_out :: data_row
  er_rows :: "data_row list"

definition ex_return :: "bool \<Rightarrow> executor \<Rightarrow> data_row \<Rightarrow> ('s, ex_result) prog" where
  "ex_return found node out = xreturn \<lparr>er_more = found, er_node = node, er_out = out, er_rows = []\<rparr>"

text \<open>\<^verbatim>\<open>out.tokens = {affected_rows_count}; return false\<close>\<close>

definition affected :: "nat \<Rightarrow> executor \<Rightarrow> data_row \<Rightarrow> ('s, ex_result) prog" where
  "affected n node out =
     ex_return False node (out\<lparr>dr_tokens := [\<lparr>tok_bytes = convert_int (int n), tok_type = DT_INTEGER\<rparr>]\<rparr>)"

fun project_tokens :: "int list \<Rightarrow> data_token list \<Rightarrow> data_token list outcome" where
  "project_tokens [] ts = Done []"
| "project_tokens (i # is) ts = obind (tokens_index ts i) (\<lambda>t. obind (project_tokens is ts) (\<lambda>xs. Done (t # xs)))"

text \<open>A statement that runs in a transaction of its own. An exception leaves the transaction as it is.\<close>

definition in_txn :: "('s, 't) db_instance \<Rightarrow> ('t \<Rightarrow> ('s, unit) prog) \<Rightarrow> ('s, unit) prog" where
  "in_txn db f =
     xbind (db_make_txn db) (\<lambda>txn. xbind (db_txn_begin db txn) (\<lambda>_. xbind (f txn) (\<lambda>_. db_txn_commit db txn)))"

definition begin_txn :: "('s, 't) db_instance \<Rightarrow> ('s, 't) prog" where
  "begin_txn db = xbind (db_make_txn db) (\<lambda>txn. xbind (db_txn_begin db txn) (\<lambda>_. xreturn txn))"

text \<open>
  \<open>next\<close> on the nodes without a child (it is not used on the others). \<open>make_db name\<close> constructs and destroys
  \<^verbatim>\<open>StdDbInstance(Config::std(name))\<close>.
\<close>

definition next_in_list :: "data_row list \<Rightarrow> nat \<Rightarrow> (nat \<Rightarrow> executor) \<Rightarrow> data_row \<Rightarrow> ('s, ex_result) prog" where
  "next_in_list rows i node out =
     (if length rows \<le> i then ex_return False (node i) out else ex_return True (node (Suc i)) (rows ! i))"

fun leaf_next ::
    "('s, 't) db_instance \<Rightarrow> (string \<Rightarrow> ('s, unit) prog) \<Rightarrow> executor \<Rightarrow> data_row \<Rightarrow> ('s, ex_result) prog" where
  "leaf_next db make_db (SeqScanNodeExecutor table schema cursor) out =
     xbind (db_seq_scan_next db cursor out) (\<lambda>(found, cursor, out). ex_return found (SeqScanNodeExecutor table schema cursor) out)"
| "leaf_next db make_db (IndexScanNodeExecutor table schema index_id condition dt i) out =
     next_in_list (dt_rows dt) i (IndexScanNodeExecutor table schema index_id condition dt) out"
| "leaf_next db make_db (ValuesNodeExecutor rows i) out = next_in_list rows i (ValuesNodeExecutor rows) out"
| "leaf_next db make_db (CreateTableNodeExecutor table schema columns) out =
     xbind (in_txn db (db_create_table db table (sc_name schema) columns)) (\<lambda>_.
       ex_return False (CreateTableNodeExecutor table schema columns) out)"
| "leaf_next db make_db (CreateDbNodeExecutor name) out =
     xbind (make_db name) (\<lambda>_. ex_return False (CreateDbNodeExecutor name) out)"
| "leaf_next db make_db (CreateIndexNodeExecutor index table column schema is_unique) out =
     xbind (in_txn db (db_create_index db index table column schema is_unique)) (\<lambda>_.
       ex_return False (CreateIndexNodeExecutor index table column schema is_unique) out)"
| "leaf_next db make_db (DropIndexNodeExecutor index table schema) out =
     xbind (in_txn db (db_drop_index db index table schema)) (\<lambda>_. ex_return False (DropIndexNodeExecutor index table schema) out)"
| "leaf_next db make_db ex out = xundef"

text \<open>The ends of \<open>next\<close> of the nodes that change a table, after the loop over the child.\<close>

definition finish_insert ::
    "('s, 't) db_instance \<Rightarrow> string \<Rightarrow> string \<Rightarrow> string list option \<Rightarrow> 't \<Rightarrow> data_row \<Rightarrow> ex_result \<Rightarrow> ('s, ex_result) prog" where
  "finish_insert db table schema cols txn out r =
     xbind (db_txn_commit db txn) (\<lambda>_. affected (length (er_rows r)) (InsertNodeExecutor table schema cols (er_node r) True) out)"

definition finish_update ::
    "('s, 't) db_instance \<Rightarrow> string \<Rightarrow> string \<Rightarrow> assignment list \<Rightarrow> 't \<Rightarrow> data_row \<Rightarrow> ex_result \<Rightarrow> ('s, ex_result) prog" where
  "finish_update db table schema asg txn out r =
     xbind (db_update_row db table schema asg (er_rows r) txn) (\<lambda>_. xbind (db_txn_commit db txn) (\<lambda>_.
     affected (length (er_rows r)) (UpdateNodeExecutor table schema asg (er_node r) True) out))"

definition finish_delete ::
    "('s, 't) db_instance \<Rightarrow> string \<Rightarrow> string \<Rightarrow> 't \<Rightarrow> data_row \<Rightarrow> ex_result \<Rightarrow> ('s, ex_result) prog" where
  "finish_delete db table schema txn out r =
     xbind (db_delete_rows db table schema (er_rows r) txn) (\<lambda>_. xbind (db_txn_commit db txn) (\<lambda>_.
     affected (length (er_rows r)) (DeleteNodeExecutor table schema (er_node r) True) out))"

partial_function (option) ex_run ::
    "('s, 't) db_instance \<times> (string \<Rightarrow> ('s, unit) prog) \<times> 's \<times> 't ex_call \<Rightarrow> (ex_result outcome \<times> 's) option" where
  "ex_run conf =
     (case conf of (db, make_db, s, call) \<Rightarrow> (case call of
        CNext ex out \<Rightarrow>
          (case ex of
             FilterNodeExecutor condition mt child \<Rightarrow>
               xcont (ex_run (db, make_db, s, CNext child empty_row)) (\<lambda>r s.
                 if \<not> er_more r then ex_return False (FilterNodeExecutor condition mt (er_node r)) out s
                 else xcont (xlift (evaluate mt mt (er_out r) condition) s) (\<lambda>found s.
                   if found then ex_return True (FilterNodeExecutor condition mt (er_node r)) (er_out r) s
                   else ex_run (db, make_db, s, CNext (FilterNodeExecutor condition mt (er_node r)) out)))
           | ProjectionNodeExecutor mt columns indices child \<Rightarrow>
               xcont (ex_run (db, make_db, s, CNext child empty_row)) (\<lambda>r s.
                 if \<not> er_more r then ex_return False (ProjectionNodeExecutor mt columns indices (er_node r)) out s
                 else xcont (xlift (project_tokens indices (dr_tokens (er_out r))) s) (\<lambda>ts s.
                   ex_return True (ProjectionNodeExecutor mt columns indices (er_node r)) (out\<lparr>dr_tokens := dr_tokens out @ ts\<rparr>) s))
           | LimitNodeExecutor limit current child \<Rightarrow>
               if current \<ge> limit then ex_return False (LimitNodeExecutor limit (current + 1) child) out s
               else xcont (ex_run (db, make_db, s, CNext child out)) (\<lambda>r s.
                 ex_return (er_more r) (LimitNodeExecutor limit (current + 1) (er_node r)) (er_out r) s)
           | InsertNodeExecutor table schema cols child executed \<Rightarrow>
               if executed then ex_return False ex out s
               else xcont (begin_txn db s) (\<lambda>txn s.
                    xcont (ex_run (db, make_db, s, CInsert table schema cols child txn [])) (\<lambda>r s.
                    finish_insert db table schema cols txn out r s))
           | UpdateNodeExecutor table schema asg child executed \<Rightarrow>
               if executed then ex_return False ex out s
               else xcont (begin_txn db s) (\<lambda>txn s.
                    xcont (ex_run (db, make_db, s, CDrain child [])) (\<lambda>r s.
                    finish_update db table schema asg txn out r s))
           | DeleteNodeExecutor table schema child executed \<Rightarrow>
               if executed then ex_return False ex out s
               else xcont (begin_txn db s) (\<lambda>txn s.
                    xcont (ex_run (db, make_db, s, CDrain child [])) (\<lambda>r s.
                    finish_delete db table schema txn out r s))
           | _ \<Rightarrow> leaf_next db make_db ex out s)
      | CDrain child rows \<Rightarrow>
          xcont (ex_run (db, make_db, s, CNext child empty_row)) (\<lambda>r s.
            if \<not> er_more r then xreturn (r\<lparr>er_rows := rows\<rparr>) s
            else ex_run (db, make_db, s, CDrain (er_node r) (rows @ [er_out r])))
      | CInsert table schema cols child txn rows \<Rightarrow>
          xcont (ex_run (db, make_db, s, CNext child empty_row)) (\<lambda>r s.
            if \<not> er_more r then xreturn (r\<lparr>er_rows := rows\<rparr>) s
            else xcont (db_insert_row db table schema cols (dr_tokens (er_out r)) txn s) (\<lambda>_ s.
              ex_run (db, make_db, s, CInsert table schema cols (er_node r) txn (rows @ [er_out r]))))))"

text \<open>\<^verbatim>\<open>INodeExecutor::next\<close>\<close>

definition ex_next ::
    "('s, 't) db_instance \<Rightarrow> (string \<Rightarrow> ('s, unit) prog) \<Rightarrow> executor \<Rightarrow> data_row \<Rightarrow> ('s, bool \<times> executor \<times> data_row) prog" where
  "ex_next db make_db ex out =
     xbind (\<lambda>s. ex_run (db, make_db, s, CNext ex out)) (\<lambda>r. xreturn (er_more r, er_node r, er_out r))"

section \<open>Results\<close>

datatype execution_result =
    MaterializedResult data_table nat
  | StreamedResult executor
  | EmptyExecutionResult

fun result_next ::
    "('s, 't) db_instance \<Rightarrow> (string \<Rightarrow> ('s, unit) prog) \<Rightarrow> execution_result \<Rightarrow> data_row \<Rightarrow>
     ('s, bool \<times> execution_result \<times> data_row) prog" where
  "result_next db make_db (MaterializedResult table current) out =
     (if length (dt_rows table) \<le> current then xreturn (False, MaterializedResult table current, out)
      else xreturn (True, MaterializedResult table (Suc current), dt_rows table ! current))"
| "result_next db make_db (StreamedResult ex) out =
     xbind (ex_next db make_db ex out) (\<lambda>(b, ex, out). xreturn (b, StreamedResult ex, out))"
| "result_next db make_db EmptyExecutionResult out = xreturn (False, EmptyExecutionResult, out)"

fun result_output_schema :: "('s, 't) db_instance \<Rightarrow> execution_result \<Rightarrow> ('s, output_column list) prog" where
  "result_output_schema db (MaterializedResult table current) = xreturn (dt_output_schema table)"
| "result_output_schema db (StreamedResult ex) = ex_output_schema db ex"
| "result_output_schema db EmptyExecutionResult = xreturn []"

section \<open>Reading rows\<close>

text \<open>
  What query execution relies on. \<open>delivers s c rows\<close>: in state \<open>s\<close> the cursor \<open>c\<close> has \<open>rows\<close> before it;
  \<^verbatim>\<open>seq_scan_next\<close> hands them out one by one and changes what no cursor has before it.
\<close>

locale row_source =
  fixes db :: "('s, 't) db_instance" and delivers :: "'s \<Rightarrow> scan_cursor \<Rightarrow> data_row list \<Rightarrow> bool"
  assumes next_end: "delivers s c [] \<Longrightarrow>
      \<exists>c' s'. db_seq_scan_next db c out s = Some (Done (False, c', out), s') \<and> delivers s' = delivers s"
    and next_row: "delivers s c (x # xs) \<Longrightarrow>
      \<exists>c' s'. db_seq_scan_next db c out s = Some (Done (True, c', x), s') \<and> delivers s' = delivers s \<and> delivers s c' xs"

text \<open>
  What an executor still delivers. A row is given as the change \<open>next\<close> makes to the variable it is handed: a scan
  overwrites it, a projection appends to its tokens.
\<close>

definition matches :: "meta_table \<Rightarrow> binary_expr \<Rightarrow> data_row \<Rightarrow> bool" where
  "matches mt condition row \<longleftrightarrow> evaluate mt mt row condition = Done True"

definition evaluable :: "meta_table \<Rightarrow> binary_expr \<Rightarrow> data_row list \<Rightarrow> bool" where
  "evaluable mt condition rows \<longleftrightarrow> list_all (\<lambda>row. \<exists>b. evaluate mt mt row condition = Done b) rows"

abbreviation overwrite :: "data_row list \<Rightarrow> (data_row \<Rightarrow> data_row) list" where
  "overwrite rows \<equiv> map (\<lambda>r _. r) rows"

abbreviation fresh_rows :: "(data_row \<Rightarrow> data_row) list \<Rightarrow> data_row list" where
  "fresh_rows fs \<equiv> map (\<lambda>f. f empty_row) fs"

definition append_tokens :: "data_token list \<Rightarrow> data_row \<Rightarrow> data_row" where
  "append_tokens ts row = row\<lparr>dr_tokens := dr_tokens row @ ts\<rparr>"

primrec yields :: "(scan_cursor \<Rightarrow> data_row list \<Rightarrow> bool) \<Rightarrow> executor \<Rightarrow> (data_row \<Rightarrow> data_row) list \<Rightarrow> bool" where
  "yields src (SeqScanNodeExecutor table schema cursor) fs \<longleftrightarrow> (\<exists>rows. src cursor rows \<and> fs = overwrite rows)"
| "yields src (IndexScanNodeExecutor table schema index_id condition dt i) fs \<longleftrightarrow> fs = overwrite (drop i (dt_rows dt))"
| "yields src (ValuesNodeExecutor rows i) fs \<longleftrightarrow> fs = overwrite (drop i rows)"
| "yields src (FilterNodeExecutor condition mt child) fs \<longleftrightarrow>
     (\<exists>gs. yields src child gs \<and> evaluable mt condition (fresh_rows gs) \<and>
       fs = overwrite (filter (matches mt condition) (fresh_rows gs)))"
| "yields src (ProjectionNodeExecutor mt columns indices child) fs \<longleftrightarrow>
     (\<exists>gs tss. yields src child gs \<and> list_all2 (\<lambda>r ts. project_tokens indices (dr_tokens r) = Done ts) (fresh_rows gs) tss \<and>
       fs = map append_tokens tss)"
| "yields src (LimitNodeExecutor limit current child) fs \<longleftrightarrow>
     (\<exists>gs. yields src child gs \<and> fs = take (unat limit - unat current) gs)"
| "yields src (InsertNodeExecutor table schema cols child executed) fs \<longleftrightarrow> False"
| "yields src (UpdateNodeExecutor table schema asg child executed) fs \<longleftrightarrow> False"
| "yields src (DeleteNodeExecutor table schema child executed) fs \<longleftrightarrow> False"
| "yields src (CreateTableNodeExecutor table schema columns) fs \<longleftrightarrow> False"
| "yields src (CreateDbNodeExecutor name) fs \<longleftrightarrow> False"
| "yields src (CreateIndexNodeExecutor index table column schema is_unique) fs \<longleftrightarrow> False"
| "yields src (DropIndexNodeExecutor index table schema) fs \<longleftrightarrow> False"

text \<open>The height of the tree, which \<open>next\<close> keeps.\<close>

primrec height :: "executor \<Rightarrow> nat" where
  "height (SeqScanNodeExecutor table schema cursor) = 0"
| "height (IndexScanNodeExecutor table schema index_id condition dt i) = 0"
| "height (ValuesNodeExecutor rows i) = 0"
| "height (FilterNodeExecutor condition mt child) = Suc (height child)"
| "height (ProjectionNodeExecutor mt columns indices child) = Suc (height child)"
| "height (LimitNodeExecutor limit current child) = Suc (height child)"
| "height (InsertNodeExecutor table schema cols child executed) = Suc (height child)"
| "height (UpdateNodeExecutor table schema asg child executed) = Suc (height child)"
| "height (DeleteNodeExecutor table schema child executed) = Suc (height child)"
| "height (CreateTableNodeExecutor table schema columns) = 0"
| "height (CreateDbNodeExecutor name) = 0"
| "height (CreateIndexNodeExecutor index table column schema is_unique) = 0"
| "height (DropIndexNodeExecutor index table schema) = 0"

lemmas ex_run_call = ex_run.simps [where conf = "(db, make_db, s, call)" for db make_db s call, simplified]

lemma ex_run_leaf:
  "ex_run (db, make_db, s, CNext (SeqScanNodeExecutor table schema cursor) out) =
     leaf_next db make_db (SeqScanNodeExecutor table schema cursor) out s"
  "ex_run (db, make_db, s, CNext (IndexScanNodeExecutor table schema index_id condition dt i) out) =
     leaf_next db make_db (IndexScanNodeExecutor table schema index_id condition dt i) out s"
  "ex_run (db, make_db, s, CNext (ValuesNodeExecutor rows i) out) = leaf_next db make_db (ValuesNodeExecutor rows i) out s"
  by (subst ex_run_call, simp)+

lemma xcont_ex_return [simp]:
  "xcont (ex_return more_rows node out s) f = f \<lparr>er_more = more_rows, er_node = node, er_out = out, er_rows = []\<rparr> s"
  by (simp add: ex_return_def)

lemma word_less_Suc: "(k :: u64) < n \<Longrightarrow> unat (k + 1) = Suc (unat k)"
proof -
  assume "k < n"
  then have "Suc (unat k) \<le> unat n" by (simp add: word_less_nat_alt Suc_le_eq)
  also have "unat n < 2 ^ 64" using unsigned_less [of n] by simp
  finally show "unat (k + 1) = Suc (unat k)" by (simp add: unat_word_ariths)
qed

lemma drop_Cons_conv: "drop i xs = y # ys \<longleftrightarrow> i < length xs \<and> y = xs ! i \<and> ys = drop (Suc i) xs"
  by (metis Cons_nth_drop_Suc drop_all list.inject list.simps(3) not_le)

context row_source
begin

text \<open>\<open>next\<close> on an executor that delivers \<open>fs\<close>.\<close>

definition steps :: "(string \<Rightarrow> ('s, unit) prog) \<Rightarrow> executor \<Rightarrow> (data_row \<Rightarrow> data_row) list \<Rightarrow> data_row \<Rightarrow> 's \<Rightarrow> bool" where
  "steps make_db ex fs out s \<longleftrightarrow>
     (\<exists>ex' s'. delivers s' = delivers s \<and>
       (case fs of
          [] \<Rightarrow> ex_run (db, make_db, s, CNext ex out) = ex_return False ex' out s'
        | f # gs \<Rightarrow> ex_run (db, make_db, s, CNext ex out) = ex_return True ex' (f out) s' \<and> yields (delivers s) ex' gs \<and>
            height ex' = height ex))"

lemma steps_endE:
  assumes "steps make_db ex [] out s"
  obtains ex' s' where "ex_run (db, make_db, s, CNext ex out) = ex_return False ex' out s'" "delivers s' = delivers s"
  using assms by (auto simp: steps_def)

lemma steps_rowE:
  assumes "steps make_db ex (f # fs) out s"
  obtains ex' s' where "ex_run (db, make_db, s, CNext ex out) = ex_return True ex' (f out) s'" "delivers s' = delivers s"
    "yields (delivers s) ex' fs" "height ex' = height ex"
  using assms by (auto simp: steps_def)

lemma steps_endI:
  "ex_run (db, make_db, s, CNext ex out) = ex_return False ex' out s' \<Longrightarrow> delivers s' = delivers s \<Longrightarrow> steps make_db ex [] out s"
  by (auto simp: steps_def)

lemma steps_rowI:
  "ex_run (db, make_db, s, CNext ex out) = ex_return True ex' (f out) s' \<Longrightarrow> delivers s' = delivers s \<Longrightarrow>
   yields (delivers s) ex' fs \<Longrightarrow> height ex' = height ex \<Longrightarrow> steps make_db ex (f # fs) out s"
  by (auto simp: steps_def)

lemma steps_scan:
  assumes "delivers s c rows"
  shows "steps make_db (SeqScanNodeExecutor table schema c) (overwrite rows) out s"
proof (cases rows)
  case Nil
  obtain c' s' where "db_seq_scan_next db c out s = Some (Done (False, c', out), s')" "delivers s' = delivers s"
    using next_end assms Nil by blast
  then show ?thesis using Nil by (auto simp: steps_def ex_run_leaf xbind_def)
next
  case (Cons x xs)
  obtain c' s' where "db_seq_scan_next db c out s = Some (Done (True, c', x), s')" "delivers s' = delivers s" "delivers s c' xs"
    using next_row assms Cons by blast
  then show ?thesis using Cons by (fastforce simp: steps_def ex_run_leaf xbind_def)
qed

lemma steps_next_in_list:
  assumes "\<And>s. ex_run (db, make_db, s, CNext (node i) out) = next_in_list rows i node out s"
    and "height (node (Suc i)) = height (node i)" and "yields (delivers s) (node (Suc i)) (overwrite (drop (Suc i) rows))"
  shows "steps make_db (node i) (overwrite (drop i rows)) out s"
proof (cases "i < length rows")
  case True
  then have "overwrite (drop i rows) = (\<lambda>_. rows ! i) # overwrite (drop (Suc i) rows)" by (simp flip: Cons_nth_drop_Suc)
  with True assms show ?thesis by (auto simp: next_in_list_def intro: steps_rowI)
next
  case False
  with assms(1) show ?thesis by (auto simp: next_in_list_def intro: steps_endI)
qed

lemma steps_list:
  "steps make_db (ValuesNodeExecutor rows i) (overwrite (drop i rows)) out s"
  "steps make_db (IndexScanNodeExecutor table schema index_id condition dt j) (overwrite (drop j (dt_rows dt))) out s"
  by (rule steps_next_in_list; simp add: ex_run_leaf)+

text \<open>The three nodes that read from a child all of whose trees take steps.\<close>

lemma steps_filter:
  assumes child: "\<And>ex gs out s. height ex = n \<Longrightarrow> yields (delivers s) ex gs \<Longrightarrow> steps make_db ex gs out s"
  shows "height ex = n \<Longrightarrow> yields (delivers s) ex gs \<Longrightarrow> evaluable mt c (fresh_rows gs) \<Longrightarrow>
    steps make_db (FilterNodeExecutor c mt ex) (overwrite (filter (matches mt c) (fresh_rows gs))) out s"
proof (induction gs arbitrary: ex s)
  case Nil
  obtain ex' s' where "ex_run (db, make_db, s, CNext ex empty_row) = ex_return False ex' empty_row s'" "delivers s' = delivers s"
    using steps_endE [OF child [OF Nil(1,2)]] by blast
  then show ?case
    by (auto simp: ex_run_call [where call = "CNext (FilterNodeExecutor c mt ex) out"] intro: steps_endI)
next
  case (Cons g gs)
  obtain ex' s' where r: "ex_run (db, make_db, s, CNext ex empty_row) = ex_return True ex' (g empty_row) s'"
    "delivers s' = delivers s" "yields (delivers s) ex' gs" "height ex' = height ex"
    using steps_rowE [OF child [OF Cons.prems(1,2)]] by blast
  obtain b where b: "evaluate mt mt (g empty_row) c = Done b" using Cons.prems(3) by (auto simp: evaluable_def)
  have run: "ex_run (db, make_db, s, CNext (FilterNodeExecutor c mt ex) out) =
      (if b then ex_return True (FilterNodeExecutor c mt ex') (g empty_row) s'
       else ex_run (db, make_db, s', CNext (FilterNodeExecutor c mt ex') out))"
    by (subst ex_run_call) (simp add: r(1) b xlift_def)
  have "evaluable mt c (fresh_rows gs)" using Cons.prems(3) by (simp add: evaluable_def)
  with Cons.IH [of ex' s'] Cons.prems(1) r
  have IH: "steps make_db (FilterNodeExecutor c mt ex') (overwrite (filter (matches mt c) (fresh_rows gs))) out s'" by simp
  show ?case
  proof (cases b)
    case True
    with b have m: "overwrite (filter (matches mt c) (fresh_rows (g # gs))) =
        (\<lambda>_. g empty_row) # overwrite (filter (matches mt c) (fresh_rows gs))"
      by (simp add: matches_def)
    show ?thesis unfolding m using True run r \<open>evaluable mt c (fresh_rows gs)\<close> by (auto intro!: steps_rowI)
  next
    case False
    with b have m: "filter (matches mt c) (fresh_rows (g # gs)) = filter (matches mt c) (fresh_rows gs)"
      by (simp add: matches_def)
    show ?thesis unfolding m using False run r IH by (simp add: steps_def cong: list.case_cong)
  qed
qed

lemma steps_projection:
  assumes child: "steps make_db ex gs empty_row s"
    and ts: "list_all2 (\<lambda>r ts. project_tokens is (dr_tokens r) = Done ts) (fresh_rows gs) tss"
  shows "steps make_db (ProjectionNodeExecutor mt cols is ex) (map append_tokens tss) out s"
proof (cases gs)
  case Nil
  then obtain ex' s' where "ex_run (db, make_db, s, CNext ex empty_row) = ex_return False ex' empty_row s'" "delivers s' = delivers s"
    using steps_endE child by blast
  then show ?thesis using Nil ts
    by (auto simp: ex_run_call [where call = "CNext (ProjectionNodeExecutor mt cols is ex) out"] intro: steps_endI)
next
  case (Cons g hs)
  with ts obtain t us where t: "tss = t # us" "project_tokens is (dr_tokens (g empty_row)) = Done t"
    "list_all2 (\<lambda>r ts. project_tokens is (dr_tokens r) = Done ts) (fresh_rows hs) us"
    by (auto simp: list_all2_Cons1)
  obtain ex' s' where "ex_run (db, make_db, s, CNext ex empty_row) = ex_return True ex' (g empty_row) s'"
    "delivers s' = delivers s" "yields (delivers s) ex' hs" "height ex' = height ex"
    using steps_rowE child unfolding Cons by blast
  then show ?thesis unfolding t(1) list.map using t(2,3)
    by (intro steps_rowI [of make_db s _ out "ProjectionNodeExecutor mt cols is ex'" _ s'])
      (auto simp: ex_run_call [where call = "CNext (ProjectionNodeExecutor mt cols is ex) out"] xlift_def append_tokens_def)
qed

lemma steps_limit:
  assumes child: "steps make_db ex gs out s"
  shows "steps make_db (LimitNodeExecutor limit current ex) (take (unat limit - unat current) gs) out s"
proof (cases "current \<ge> limit")
  case True
  then show ?thesis
    by (auto simp: steps_def word_le_nat_alt ex_run_call [where call = "CNext (LimitNodeExecutor limit current ex) out"])
next
  case False
  then have lt: "current < limit" by simp
  then have d: "unat limit - unat current = Suc (unat limit - unat (current + 1))"
    using word_less_Suc [OF lt] by (simp add: word_less_nat_alt)
  show ?thesis
  proof (cases gs)
    case Nil
    then obtain ex' s' where "ex_run (db, make_db, s, CNext ex out) = ex_return False ex' out s'" "delivers s' = delivers s"
      using steps_endE child by blast
    then show ?thesis unfolding Nil take_Nil using lt
      by (intro steps_endI [of make_db s _ out "LimitNodeExecutor limit (current + 1) ex'" s'])
        (auto simp: ex_run_call [where call = "CNext (LimitNodeExecutor limit current ex) out"])
  next
    case (Cons g hs)
    obtain ex' s' where "ex_run (db, make_db, s, CNext ex out) = ex_return True ex' (g out) s'"
      "delivers s' = delivers s" "yields (delivers s) ex' hs" "height ex' = height ex"
      using steps_rowE child unfolding Cons by blast
    then show ?thesis unfolding Cons d take_Suc_Cons using lt
      by (intro steps_rowI [of make_db s _ out "LimitNodeExecutor limit (current + 1) ex'" g s'])
        (auto simp: ex_run_call [where call = "CNext (LimitNodeExecutor limit current ex) out"])
  qed
qed

lemma next_steps: "yields (delivers s) ex fs \<Longrightarrow> steps make_db ex fs out s"
proof (induction "height ex" arbitrary: ex fs out s rule: less_induct)
  case less
  note IH = less.hyps and y = less.prems
  show ?case
  proof (cases ex)
    case (FilterNodeExecutor c mt child)
    then have child: "steps make_db e gs out s" if "height e = height child" "yields (delivers s) e gs" for e gs out s
      using IH that by simp
    from y FilterNodeExecutor steps_filter [OF child] show ?thesis by auto
  next
    case (ProjectionNodeExecutor mt columns indices child)
    then obtain gs tss where "yields (delivers s) child gs" "fs = map append_tokens tss"
      and ts: "list_all2 (\<lambda>r ts. project_tokens indices (dr_tokens r) = Done ts) (fresh_rows gs) tss"
      using y by auto
    with IH [of child] ProjectionNodeExecutor steps_projection [OF _ ts] show ?thesis by simp
  next
    case (LimitNodeExecutor limit current child)
    then obtain gs where "yields (delivers s) child gs" "fs = take (unat limit - unat current) gs" using y by auto
    with IH [of child] LimitNodeExecutor steps_limit show ?thesis by simp
  qed (use y steps_scan steps_list in auto)
qed

text \<open>The loop that \<^verbatim>\<open>UPDATE\<close> and \<^verbatim>\<open>DELETE\<close> collect their rows with.\<close>

lemma drain_rows:
  "yields (delivers s) ex gs \<Longrightarrow>
   \<exists>r s'. ex_run (db, make_db, s, CDrain ex acc) = Some (Done r, s') \<and> er_rows r = acc @ fresh_rows gs \<and> delivers s' = delivers s"
proof (induction gs arbitrary: ex s acc)
  case Nil
  obtain ex' s' where "ex_run (db, make_db, s, CNext ex empty_row) = ex_return False ex' empty_row s'" "delivers s' = delivers s"
    using steps_endE [OF next_steps [OF Nil, where make_db = make_db and out = empty_row]] by metis
  then show ?case by (simp add: ex_run_call [where call = "CDrain ex acc"] xreturn_def)
next
  case (Cons g gs)
  obtain ex' s' where r: "ex_run (db, make_db, s, CNext ex empty_row) = ex_return True ex' (g empty_row) s'"
    "delivers s' = delivers s" "yields (delivers s) ex' gs"
    using steps_rowE [OF next_steps [OF Cons.prems, where make_db = make_db and out = empty_row]] by metis
  with Cons.IH [of s' ex' "acc @ [g empty_row]"] show ?case by (simp add: ex_run_call [where call = "CDrain ex acc"])
qed

end

section \<open>INSERT\<close>

text \<open>What \<^verbatim>\<open>INSERT\<close> promises: its rows are inserted in their order by one transaction.\<close>

primrec insert_all ::
    "('s, 't) db_instance \<Rightarrow> string \<Rightarrow> string \<Rightarrow> string list option \<Rightarrow> 't \<Rightarrow> data_row list \<Rightarrow> ('s, unit) prog" where
  "insert_all db table schema cols txn [] = xreturn ()"
| "insert_all db table schema cols txn (row # rows) =
     xbind (db_insert_row db table schema cols (dr_tokens row) txn) (\<lambda>_. insert_all db table schema cols txn rows)"

lemma xcont_assoc: "xcont (xcont m f) g = xcont m (\<lambda>x s. xcont (f x s) g)"
  by (auto simp: xcont_def split: outcome.splits Option.bind_splits)

lemma insert_loop:
  "i \<le> length rows \<Longrightarrow> ex_run (db, make_db, s, CInsert table schema cols (ValuesNodeExecutor rows i) txn acc) =
     xcont (insert_all db table schema cols txn (drop i rows) s) (\<lambda>_. xreturn
       \<lparr>er_more = False, er_node = ValuesNodeExecutor rows (length rows), er_out = empty_row, er_rows = acc @ drop i rows\<rparr>)"
proof (induction "length rows - i" arbitrary: i acc s)
  case 0
  then show ?case
    by (subst ex_run_call) (simp add: ex_run_leaf next_in_list_def)
next
  case (Suc n)
  then have i: "i < length rows" and d: "drop i rows = rows ! i # drop (Suc i) rows" by (simp_all add: Cons_nth_drop_Suc)
  have "ex_run (db, make_db, s, CInsert table schema cols (ValuesNodeExecutor rows i) txn acc) =
      xcont (db_insert_row db table schema cols (dr_tokens (rows ! i)) txn s) (\<lambda>_ s.
        ex_run (db, make_db, s, CInsert table schema cols (ValuesNodeExecutor rows (Suc i)) txn (acc @ [rows ! i])))"
    using i by (subst ex_run_call) (simp add: ex_run_leaf next_in_list_def)
  also have "\<dots> = xcont (db_insert_row db table schema cols (dr_tokens (rows ! i)) txn s) (\<lambda>_ s.
        xcont (insert_all db table schema cols txn (drop (Suc i) rows) s) (\<lambda>_. xreturn
          \<lparr>er_more = False, er_node = ValuesNodeExecutor rows (length rows), er_out = empty_row, er_rows = acc @ drop i rows\<rparr>))"
    using Suc i d by simp
  finally show ?case unfolding d by (simp add: xbind_xcont xcont_assoc)
qed

text \<open>C10: the executor of an INSERT plan begins one transaction, inserts the rows of the statement in their order, commits
  and is then spent. It always reports that it has no row, so the count of inserted rows it leaves in the row variable is never
  delivered; when a row is refused the exception leaves the transaction neither committed nor rolled back.\<close>

theorem insert_in_one_transaction:
  "ex_run (db, make_db, s, CNext (from_plan (InsertPlanNode table schema cols (ValuesPlanNode rows))) out) =
     xbind (begin_txn db) (\<lambda>txn.
     xbind (insert_all db table schema cols txn rows) (\<lambda>_.
     xbind (db_txn_commit db txn) (\<lambda>_.
     affected (length rows) (InsertNodeExecutor table schema cols (ValuesNodeExecutor rows (length rows)) True) out))) s"
  by (subst ex_run_call) (simp add: insert_loop finish_insert_def xbind_fun xcont_assoc)

end
