(* ===== verification/Storage_Serializer.thy ===== *)
theory Storage_Serializer
  imports Db_Types Memory_Stream
begin

text \<open>
  \<^verbatim>\<open>src/deltabase/src/storage/std_storage_serializer.cpp\<close>: the binary images of rows, pages,
  metadata, index files and the configuration, and their decoders. Each pair is proved to be a
  \<open>codec\<close> on the values whose strings and vectors fit an allocation. A vector of \<open>n\<close> elements
  reserves \<open>n\<close> times the size of the element on x86-64 (80 bytes for \<^verbatim>\<open>MetaColumn\<close>, 112 for
  \<^verbatim>\<open>MetaIndex\<close>, 32 for \<^verbatim>\<open>DataToken\<close>, 40 for \<^verbatim>\<open>DataRow\<close>, 104 for
  \<^verbatim>\<open>IndexPage\<close>, 24 for \<^verbatim>\<open>RowPtr\<close>, 8 for \<^verbatim>\<open>IndexPageId\<close>).

  Decoders of objects whose \<^verbatim>\<open>out\<close> parameter keeps a part of its old value take that value
  as the argument \<open>out\<close>. The others fill a fresh object, as every call of them does.
\<close>

section \<open>Helpers\<close>

definition ms_rewind :: "mem_stream \<Rightarrow> mem_stream" where
  "ms_rewind st = (case ms_seek 0 st of Done st' \<Rightarrow> st' | _ \<Rightarrow> st)"

definition write_str :: "string \<Rightarrow> mem_stream \<Rightarrow> mem_stream" where
  "write_str str st =
     (let size = word_of_nat (length str) :: u64;
          st = ms_write (le_bytes 8 size) st
      in ms_write (bytes_of_string str) st)"

definition read_str :: "string reader" where
  "read_str =
     rbind (rd_word 8) (\<lambda>size :: u64.
     rbind (ralloc (unat size) 1) (\<lambda>_.
     rbind (rd_exact (unat size)) (\<lambda>bs.
     rreturn (string_of_bytes bs))))"

fun has_dynamic_size :: "data_type \<Rightarrow> bool" where
  "has_dynamic_size DT_STRING = True"
| "has_dynamic_size _ = False"

fun get_data_type_size :: "data_type \<Rightarrow> u64 outcome" where
  "get_data_type_size DT_INTEGER = Done 4"
| "get_data_type_size DT_REAL = Done 8"
| "get_data_type_size DT_BOOL = Done 1"
| "get_data_type_size DT_CHAR = Done 1"
| "get_data_type_size _ = Raised (RuntimeError ''StdBinarySerializer:get_data_type_size: failed to get size of type '')"

text \<open>A C++ \<^verbatim>\<open>bool\<close> is one byte, 0 or 1; an object holding another byte has undefined behaviour when read.\<close>

definition bool_byte :: "bool \<Rightarrow> byte list" where
  "bool_byte b = [if b then 1 else 0]"

definition rd_bool :: "bool reader" where
  "rd_bool = rbind (rd_exact 1) (\<lambda>bs.
     if bs = [0] then rreturn False else if bs = [1] then rreturn True else (\<lambda>_. Undef))"

definition rd_data_type :: "data_type reader" where
  "rd_data_type = rbind (rd_word 8) (\<lambda>v. rreturn (dt_of_code v))"

section \<open>Serialisers\<close>

definition serialize_mc :: "meta_column \<Rightarrow> mem_stream" where
  "serialize_mc column =
     (let st = ms_new;
          st = ms_write (le_bytes 16 (mc_id column)) st;
          st = ms_write (le_bytes 16 (mc_table_id column)) st;
          st = write_str (mc_name column) st;
          st = ms_write (le_bytes 8 (dt_code (mc_type column))) st;
          st = ms_write (le_bytes 4 (mc_flags column)) st
      in ms_rewind st)"

definition serialize_mi :: "meta_index \<Rightarrow> mem_stream" where
  "serialize_mi index =
     (let st = ms_new;
          st = ms_write (le_bytes 16 (mi_id index)) st;
          st = ms_write (le_bytes 16 (mi_table_id index)) st;
          st = ms_write (le_bytes 16 (mi_column_id index)) st;
          st = ms_write (le_bytes 16 (mi_root_page_id index)) st;
          st = write_str (mi_name index) st;
          st = ms_write (bool_byte (mi_is_unique index)) st;
          st = ms_write (le_bytes 8 (dt_code (mi_key_type index))) st
      in ms_rewind st)"

definition serialize_mt :: "meta_table \<Rightarrow> mem_stream" where
  "serialize_mt table =
     (let st = ms_new;
          st = ms_write (le_bytes 16 (mt_id table)) st;
          st = ms_write (le_bytes 16 (mt_schema_id table)) st;
          st = write_str (mt_name table) st;
          st = ms_write (le_bytes 8 (mt_total_rows table)) st;
          st = ms_write (le_bytes 8 (mt_live_rows table)) st;
          column_count = word_of_nat (length (mt_columns table)) :: u64;
          st = ms_write (le_bytes 8 column_count) st;
          st = fold (\<lambda>column. ms_write (ms_buffer (serialize_mc column))) (mt_columns table) st;
          st = ms_write (le_bytes 8 (mt_last_rid table)) st;
          indexes_count = word_of_nat (length (mt_indexes table)) :: u64;
          st = ms_write (le_bytes 8 indexes_count) st;
          st = fold (\<lambda>index. ms_write (ms_buffer (serialize_mi index))) (mt_indexes table) st
      in ms_rewind st)"

definition serialize_ms :: "meta_schema \<Rightarrow> mem_stream" where
  "serialize_ms schema =
     (let st = ms_new;
          st = ms_write (le_bytes 16 (sc_id schema)) st;
          st = write_str (sc_name schema) st;
          st = write_str (sc_db_name schema) st
      in ms_rewind st)"

definition serialize_dt :: "data_token \<Rightarrow> mem_stream" where
  "serialize_dt token =
     (let st = ms_new;
          st = ms_write (le_bytes 8 (dt_code (tok_type token))) st;
          st = (if tok_type token \<noteq> DT_NULL
                then let size = word_of_nat (length (tok_bytes token)) :: u64;
                         st = ms_write (le_bytes 8 size) st
                     in ms_write (tok_bytes token) st
                else st)
      in ms_rewind st)"

definition serialize_dr :: "data_row \<Rightarrow> mem_stream" where
  "serialize_dr row =
     (let st = ms_new;
          st = ms_write (le_bytes 8 (dr_id row)) st;
          st = ms_write (le_bytes 4 (dr_flags row)) st;
          tokens_count = word_of_nat (length (dr_tokens row)) :: u64;
          st = ms_write (le_bytes 8 tokens_count) st;
          st = fold (\<lambda>token st. let tok = serialize_dt token in ms_append tok (ms_size tok) st)
                 (dr_tokens row) st
      in ms_rewind st)"

definition serialize_dp :: "data_page \<Rightarrow> mem_stream" where
  "serialize_dp page =
     (let st = ms_new;
          st = ms_write (le_bytes 16 (dp_id page)) st;
          st = ms_write (le_bytes 16 (dp_next page)) st;
          st = ms_write (le_bytes 16 (dp_table_id page)) st;
          st = ms_write (le_bytes 8 (dp_min_rid page)) st;
          st = ms_write (le_bytes 8 (dp_max_rid page)) st;
          rows_count = word_of_nat (length (dp_rows page)) :: u64;
          st = ms_write (le_bytes 8 rows_count) st;
          st = ms_write (le_bytes 8 (dp_last_lsn page)) st;
          st = fold (\<lambda>row st. let r = serialize_dr row in ms_append r (ms_size r) st)
                 (dp_rows page) st
      in ms_rewind st)"

definition serialize_ip :: "index_page \<Rightarrow> mem_stream" where
  "serialize_ip page =
     (let st = ms_new;
          st = ms_write (le_bytes 8 (ip_id page)) st;
          st = ms_write (le_bytes 8 (ip_parent page)) st;
          st = ms_write (le_bytes 16 (ip_index_id page)) st;
          st = ms_write (bool_byte (ip_is_leaf page)) st;
          st = (case ip_data page of
                  InternalIndexNode keys children \<Rightarrow>
                    (let keys_count = word_of_nat (length keys) :: u64;
                         st = ms_write (le_bytes 8 keys_count) st;
                         st = fold (\<lambda>key st. let tok = serialize_dt key in ms_append tok (ms_size tok) st)
                                keys st;
                         children_count = word_of_nat (length children) :: u64;
                         st = ms_write (le_bytes 8 children_count) st
                     in fold (\<lambda>child_id. ms_write (le_bytes 8 child_id)) children st)
                | LeafIndexNode keys rows next_leaf \<Rightarrow>
                    (let keys_count = word_of_nat (length keys) :: u64;
                         st = ms_write (le_bytes 8 keys_count) st;
                         st = fold (\<lambda>key st. let tok = serialize_dt key in ms_append tok (ms_size tok) st)
                                keys st;
                         rows_count = word_of_nat (length rows) :: u64;
                         st = ms_write (le_bytes 8 rows_count) st;
                         st = fold (\<lambda>row st. ms_write (le_bytes 8 (snd row))
                                               (ms_write (le_bytes 16 (fst row)) st)) rows st
                     in ms_write (le_bytes 8 next_leaf) st))
      in ms_rewind st)"

definition serialize_if :: "index_file \<Rightarrow> mem_stream" where
  "serialize_if file =
     (let st = ms_new;
          st = ms_write (le_bytes 16 (if_index_id file)) st;
          st = ms_write (le_bytes 8 (if_root_page file)) st;
          st = ms_write (le_bytes 8 (if_last_lsn file)) st;
          pages_count = word_of_nat (length (if_pages file)) :: u64;
          st = ms_write (le_bytes 8 pages_count) st;
          st = fold (\<lambda>page st. let p = serialize_ip page in ms_append p (ms_size p) st)
                 (if_pages file) st
      in ms_rewind st)"

definition serialize_cfg :: "config \<Rightarrow> mem_stream" where
  "serialize_cfg db =
     (let st = ms_new;
          st = write_str (case cfg_db_name db of Some s \<Rightarrow> s | None \<Rightarrow> []) st;
          st = write_str (cfg_default_schema db) st;
          st = write_str (cfg_db_path db) st;
          st = ms_write (le_bytes 4 (cfg_io_type db)) st;
          st = ms_write (le_bytes 4 (cfg_planner_type db)) st;
          st = ms_write (le_bytes 4 (cfg_serializer_type db)) st;
          st = ms_write (le_bytes 8 (cfg_last_checkpoint_lsn db)) st
      in ms_rewind st)"

section \<open>Decoders\<close>

definition deserialize_mc :: "meta_column reader" where
  "deserialize_mc =
     rbind (rd_word 16) (\<lambda>cid.
     rbind (rd_word 16) (\<lambda>table_id.
     rbind read_str (\<lambda>name.
     rbind rd_data_type (\<lambda>type.
     rbind (rd_word 4) (\<lambda>flags.
     rreturn \<lparr>mc_id = cid, mc_table_id = table_id, mc_name = name, mc_type = type, mc_flags = flags\<rparr>)))))"

definition deserialize_mi :: "meta_index reader" where
  "deserialize_mi =
     rbind (rd_word 16) (\<lambda>iid.
     rbind (rd_word 16) (\<lambda>table_id.
     rbind (rd_word 16) (\<lambda>column_id.
     rbind (rd_word 16) (\<lambda>root_page_id.
     rbind read_str (\<lambda>name.
     rbind rd_bool (\<lambda>is_unique.
     rbind rd_data_type (\<lambda>key_type.
     rreturn \<lparr>mi_id = iid, mi_table_id = table_id, mi_column_id = column_id,
       mi_root_page_id = root_page_id, mi_name = name, mi_key_type = key_type,
       mi_is_unique = is_unique\<rparr>)))))))"

definition deserialize_mt :: "meta_table \<Rightarrow> meta_table reader" where
  "deserialize_mt out =
     rbind (rd_any 16 (le_bytes 16 (mt_id out))) (\<lambda>tid.
     rbind (rd_any 16 (le_bytes 16 (mt_schema_id out))) (\<lambda>schema_id.
     rbind read_str (\<lambda>name.
     rbind (rd_any 8 (le_bytes 8 (mt_total_rows out))) (\<lambda>total_rows.
     rbind (rd_any 8 (le_bytes 8 (mt_live_rows out))) (\<lambda>live_rows.
     rbind (rd_word 8) (\<lambda>column_count :: u64.
     rbind (ralloc (unat column_count) 80) (\<lambda>_.
     rbind (rd_seq (unat column_count) deserialize_mc) (\<lambda>columns.
     rbind (rd_word 8) (\<lambda>last_rid.
     rbind (rd_word 8) (\<lambda>indexes_count :: u64.
     rbind (ralloc (unat indexes_count) 112) (\<lambda>_.
     rbind (rd_seq (unat indexes_count) deserialize_mi) (\<lambda>indexes.
     rreturn \<lparr>mt_id = le_word tid, mt_schema_id = le_word schema_id, mt_name = name,
       mt_columns = columns, mt_indexes = indexes, mt_last_rid = last_rid,
       mt_total_rows = le_word total_rows, mt_live_rows = le_word live_rows\<rparr>))))))))))))"

definition deserialize_ms :: "meta_schema \<Rightarrow> meta_schema reader" where
  "deserialize_ms out =
     rbind (rd_any 16 (le_bytes 16 (sc_id out))) (\<lambda>sid.
     rbind read_str (\<lambda>name.
     rbind read_str (\<lambda>db_name.
     rreturn \<lparr>sc_id = le_word sid, sc_name = name, sc_db_name = db_name\<rparr>)))"

definition deserialize_dt :: "data_token reader" where
  "deserialize_dt =
     rbind rd_data_type (\<lambda>type.
     if type \<noteq> DT_NULL then
       rbind (rd_word 8) (\<lambda>size :: u64.
       rbind (ralloc (unat size) 1) (\<lambda>_.
       rbind (rd_exact (unat size)) (\<lambda>bytes.
       rreturn \<lparr>tok_bytes = bytes, tok_type = type\<rparr>)))
     else rreturn \<lparr>tok_bytes = [], tok_type = type\<rparr>)"

definition deserialize_dr :: "data_row reader" where
  "deserialize_dr =
     rbind (rd_word 8) (\<lambda>rid.
     rbind (rd_word 4) (\<lambda>flags.
     rbind (rd_word 8) (\<lambda>tokens_count :: u64.
     rbind (ralloc (unat tokens_count) 32) (\<lambda>_.
     rbind (rd_seq (unat tokens_count) deserialize_dt) (\<lambda>tokens.
     rreturn \<lparr>dr_id = rid, dr_flags = flags, dr_tokens = tokens\<rparr>)))))"

definition deserialize_dp :: "data_page \<Rightarrow> data_page reader" where
  "deserialize_dp out =
     rbind (rd_word 16) (\<lambda>pid.
     rbind (rd_word 16) (\<lambda>next.
     rbind (rd_word 16) (\<lambda>table_id.
     rbind (rd_word 8) (\<lambda>min_rid.
     rbind (rd_word 8) (\<lambda>max_rid.
     rbind (rd_word 8) (\<lambda>rows_count :: u64.
     rbind (rd_word 8) (\<lambda>last_lsn.
     rbind (ralloc (unat rows_count) 40) (\<lambda>_.
     rbind (rd_seq (unat rows_count) deserialize_dr) (\<lambda>rows.
     rreturn (out\<lparr>dp_id := pid, dp_next := next, dp_table_id := table_id, dp_min_rid := min_rid,
       dp_max_rid := max_rid, dp_rows_count := rows_count, dp_last_lsn := last_lsn,
       dp_rows := rows\<rparr>))))))))))"

definition read_row_ptr :: "row_ptr reader" where
  "read_row_ptr = rbind (rd_word 16) (\<lambda>page. rbind (rd_word 8) (\<lambda>row. rreturn (page, row)))"

definition deserialize_ip :: "index_page reader" where
  "deserialize_ip =
     rbind (rd_word 8) (\<lambda>pid.
     rbind (rd_word 8) (\<lambda>parent.
     rbind (rd_word 16) (\<lambda>index_id.
     rbind rd_bool (\<lambda>is_leaf.
     rbind (if is_leaf then
         rbind (rd_word 8) (\<lambda>keys_count :: u64.
         rbind (ralloc (unat keys_count) 32) (\<lambda>_.
         rbind (rd_seq (unat keys_count) deserialize_dt) (\<lambda>keys.
         rbind (rd_word 8) (\<lambda>rows_count :: u64.
         rbind (ralloc (unat rows_count) 24) (\<lambda>_.
         rbind (rd_seq (unat rows_count) read_row_ptr) (\<lambda>rows.
         rbind (rd_word 8) (\<lambda>next_leaf.
         rreturn (LeafIndexNode keys rows next_leaf))))))))
       else
         rbind (rd_word 8) (\<lambda>keys_count :: u64.
         rbind (ralloc (unat keys_count) 32) (\<lambda>_.
         rbind (rd_seq (unat keys_count) deserialize_dt) (\<lambda>keys.
         rbind (rd_word 8) (\<lambda>children_count :: u64.
         rbind (ralloc (unat children_count) 8) (\<lambda>_.
         rbind (rd_seq (unat children_count) (rd_word 8)) (\<lambda>children.
         rreturn (InternalIndexNode keys children)))))))) (\<lambda>data.
     rreturn \<lparr>ip_id = pid, ip_parent = parent, ip_index_id = index_id, ip_is_leaf = is_leaf,
       ip_data = data\<rparr>)))))"

definition deserialize_if :: "index_file \<Rightarrow> index_file reader" where
  "deserialize_if out =
     rbind (rd_word 16) (\<lambda>index_id.
     rbind (rd_word 8) (\<lambda>root_page.
     rbind (rd_word 8) (\<lambda>last_lsn.
     rbind (rd_word 8) (\<lambda>pages_count :: u64.
     rbind (ralloc (unat pages_count) 104) (\<lambda>_.
     rbind (rd_seq (unat pages_count) deserialize_ip) (\<lambda>pages.
     rreturn (out\<lparr>if_index_id := index_id, if_root_page := root_page, if_last_lsn := last_lsn,
       if_pages := pages\<rparr>)))))))"

text \<open>The members of \<^verbatim>\<open>Config\<close> that are not stored are not part of \<open>config\<close>.\<close>

definition deserialize_cfg :: "config reader" where
  "deserialize_cfg =
     rbind read_str (\<lambda>db_name.
     rbind read_str (\<lambda>default_schema.
     rbind read_str (\<lambda>db_path.
     rbind (rd_word 4) (\<lambda>io_type.
     rbind (rd_word 4) (\<lambda>planner_type.
     rbind (rd_word 4) (\<lambda>serializer_type.
     rbind (rd_word 8) (\<lambda>last_checkpoint_lsn.
     rreturn \<lparr>cfg_db_name = Some db_name, cfg_default_schema = default_schema, cfg_db_path = db_path,
       cfg_io_type = io_type, cfg_planner_type = planner_type, cfg_serializer_type = serializer_type,
       cfg_last_checkpoint_lsn = last_checkpoint_lsn\<rparr>)))))))"

section \<open>Size estimates\<close>

definition estimate_size_token :: "data_token \<Rightarrow> u64" where
  "estimate_size_token token =
     (let size = 8 :: u64;
          size = (if has_dynamic_size (tok_type token) then size + 8 else size)
      in size + word_of_nat (length (tok_bytes token)))"

definition estimate_size :: "data_row \<Rightarrow> u64" where
  "estimate_size row =
     fold (\<lambda>token size. size + estimate_size_token token) (dr_tokens row) (8 + 4 + 8)"

section \<open>The bytes written\<close>

definition str_bytes :: "string \<Rightarrow> byte list" where
  "str_bytes s = le_bytes 8 (word_of_nat (length s) :: u64) @ bytes_of_string s"

lemma ms_rewind_buffer [stream_simps]: "ms_buffer (ms_rewind st) = ms_buffer st"
  by (simp add: ms_rewind_def stream_simps)

lemma at_end_write_str [stream_simps]:
  "at_end st \<Longrightarrow> at_end (write_str s st)"
  "at_end st \<Longrightarrow> ms_buffer (write_str s st) = ms_buffer st @ str_bytes s"
  by (simp_all add: write_str_def str_bytes_def stream_simps Let_def)

lemma fold_write_at_end [stream_simps]:
  assumes "at_end st"
  shows "at_end (fold (\<lambda>x. ms_write (f x)) xs st) \<and>
    ms_buffer (fold (\<lambda>x. ms_write (f x)) xs st) = ms_buffer st @ concat (map f xs)"
  using assms by (induction xs arbitrary: st) (simp_all add: stream_simps)

lemma fold_append_at_end [stream_simps]:
  assumes "at_end st"
  shows "at_end (fold (\<lambda>x st. ms_append (f x) (ms_size (f x)) st) xs st) \<and>
    ms_buffer (fold (\<lambda>x st. ms_append (f x) (ms_size (f x)) st) xs st) =
      ms_buffer st @ concat (map (\<lambda>x. ms_buffer (f x)) xs)"
  using assms by (induction xs arbitrary: st) (simp_all add: stream_simps)

lemma fold_write2_at_end [stream_simps]:
  assumes "at_end st"
  shows "at_end (fold (\<lambda>x st. ms_write (g x) (ms_write (f x) st)) xs st) \<and>
    ms_buffer (fold (\<lambda>x st. ms_write (g x) (ms_write (f x) st)) xs st) =
      ms_buffer st @ concat (map (\<lambda>x. f x @ g x) xs)"
  using assms by (induction xs arbitrary: st) (simp_all add: stream_simps)

section \<open>Representable values\<close>

definition ok_vec :: "nat \<Rightarrow> 'a list \<Rightarrow> bool" where
  "ok_vec sz xs \<longleftrightarrow> length xs * sz \<le> max_alloc"

definition ok_str :: "'a list \<Rightarrow> bool" where
  "ok_str s \<longleftrightarrow> length s \<le> max_alloc"

definition ok_mc :: "meta_column \<Rightarrow> bool" where
  "ok_mc c \<longleftrightarrow> ok_str (mc_name c) \<and> ok_dt (mc_type c)"

definition ok_mi :: "meta_index \<Rightarrow> bool" where
  "ok_mi i \<longleftrightarrow> ok_str (mi_name i) \<and> ok_dt (mi_key_type i)"

definition ok_mt :: "meta_table \<Rightarrow> bool" where
  "ok_mt t \<longleftrightarrow> ok_str (mt_name t) \<and> ok_vec 80 (mt_columns t) \<and> list_all ok_mc (mt_columns t) \<and>
     ok_vec 112 (mt_indexes t) \<and> list_all ok_mi (mt_indexes t)"

definition ok_ms :: "meta_schema \<Rightarrow> bool" where
  "ok_ms s \<longleftrightarrow> ok_str (sc_name s) \<and> ok_str (sc_db_name s)"

definition ok_token :: "data_token \<Rightarrow> bool" where
  "ok_token t \<longleftrightarrow> ok_dt (tok_type t) \<and> ok_str (tok_bytes t) \<and>
     (tok_type t = DT_NULL \<longrightarrow> tok_bytes t = [])"

definition ok_dr :: "data_row \<Rightarrow> bool" where
  "ok_dr r \<longleftrightarrow> ok_vec 32 (dr_tokens r) \<and> list_all ok_token (dr_tokens r)"

text \<open>
  A page is restored except for \<^verbatim>\<open>size\<close> and \<^verbatim>\<open>path\<close>, which keep the values of
  \<open>out\<close>, and its row count is the number of its rows.
\<close>

definition ok_dp :: "data_page \<Rightarrow> data_page \<Rightarrow> bool" where
  "ok_dp out p \<longleftrightarrow> ok_vec 40 (dp_rows p) \<and> list_all ok_dr (dp_rows p) \<and>
     dp_rows_count p = word_of_nat (length (dp_rows p)) \<and> dp_size p = dp_size out \<and> dp_path p = dp_path out"

fun ok_node :: "bool \<Rightarrow> index_node \<Rightarrow> bool" where
  "ok_node is_leaf (InternalIndexNode keys children) \<longleftrightarrow>
     \<not> is_leaf \<and> ok_vec 32 keys \<and> list_all ok_token keys \<and> ok_vec 8 children"
| "ok_node is_leaf (LeafIndexNode keys rows next_leaf) \<longleftrightarrow>
     is_leaf \<and> ok_vec 32 keys \<and> list_all ok_token keys \<and> ok_vec 24 rows"

definition ok_ip :: "index_page \<Rightarrow> bool" where
  "ok_ip p \<longleftrightarrow> ok_node (ip_is_leaf p) (ip_data p)"

definition ok_if :: "index_file \<Rightarrow> index_file \<Rightarrow> bool" where
  "ok_if out f \<longleftrightarrow> ok_vec 104 (if_pages f) \<and> list_all ok_ip (if_pages f) \<and> if_last_page f = if_last_page out"

definition ok_cfg :: "config \<Rightarrow> bool" where
  "ok_cfg c \<longleftrightarrow> cfg_db_name c \<noteq> None \<and> ok_str (the (cfg_db_name c)) \<and>
     ok_str (cfg_default_schema c) \<and> ok_str (cfg_db_path c)"

lemmas ok_storage_simps =
  ok_mc_def ok_mi_def ok_mt_def ok_ms_def ok_token_def ok_dr_def ok_dp_def ok_ip_def ok_if_def ok_cfg_def

section \<open>Every decoder inverts its serialiser\<close>

lemma ok_vec_unat [simp]: "ok_vec sz xs \<Longrightarrow> 0 < sz \<Longrightarrow> unat (word_of_nat (length xs) :: u64) = length xs"
proof -
  assume "ok_vec sz xs" and "0 < sz"
  then have "length xs \<le> max_alloc"
    by (cases sz) (simp_all add: ok_vec_def)
  then show ?thesis by simp
qed

lemma consumes_vec_alloc:
  "ok_vec sz xs \<Longrightarrow> 0 < sz \<Longrightarrow> consumes (f ()) bs y \<Longrightarrow>
   consumes (rbind (ralloc (unat (word_of_nat (length xs) :: u64)) sz) f) bs y"
  by (rule consumes_alloc) (simp_all, simp add: ok_vec_def)

lemma consumes_vec:
  assumes "ok_vec sz xs" and "0 < sz" and "list_all P xs" and "\<And>x. P x \<Longrightarrow> consumes m (enc x) x"
  shows "consumes (rd_seq (unat (word_of_nat (length xs) :: u64)) m) (concat (map enc xs)) xs"
  using assms(1,2) by (simp, intro consumes_seq assms(4)) (use assms(3) in \<open>simp add: list_all_iff\<close>)

lemma consumes_sized:
  assumes "ok_str bs" and "\<And>x. x = bs \<Longrightarrow> consumes (f x) [] y"
  shows "consumes (rbind (ralloc (unat (word_of_nat (length bs) :: u64)) 1)
     (\<lambda>_. rbind (rd_exact (unat (word_of_nat (length bs) :: u64))) f)) bs y"
  using assms consumes_bind [OF consumes_exact [of "length bs" bs], of f "[]" y]
  by (intro consumes_alloc) (simp_all add: ok_str_def)

lemma consumes_str: "ok_str s \<Longrightarrow> consumes read_str (str_bytes s) s"
  unfolding read_str_def str_bytes_def
  by (rule consumes_bind [OF consumes_u64])
    (use consumes_sized [of "bytes_of_string s" "\<lambda>bs. rreturn (string_of_bytes bs)" s]
     in \<open>simp add: ok_str_def consumes_return\<close>)

lemma consumes_bool: "consumes rd_bool (bool_byte b) b"
  unfolding rd_bool_def bool_byte_def
  using consumes_bind [OF consumes_exact [of 1 "[if b then 1 else 0]"], where cs = "[]" and y = b]
  by (cases b) (simp_all add: consumes_return)

lemma consumes_data_type: "ok_dt t \<Longrightarrow> consumes rd_data_type (le_bytes 8 (dt_code t)) t"
  unfolding rd_data_type_def by (rule consumes_last, rule consumes_u64) simp

lemma consumes_any_word:
  "LENGTH('a::len) = 8 * n \<Longrightarrow> length old = n \<Longrightarrow> consumes (f (le_bytes n (w :: 'a word))) cs y \<Longrightarrow>
   consumes (rbind (rd_any n old) f) (le_bytes n w @ cs) y"
  by (rule consumes_bind, rule consumes_any) simp_all

lemmas consumes_field =
  consumes_any_word [where 'a = 128 and n = 16, simplified] consumes_any_word [where 'a = 64 and n = 8, simplified]
  consumes_bind consumes_last
lemmas consumes_prim = consumes_u64 consumes_u32 consumes_uuid consumes_str consumes_bool consumes_data_type

lemma deserialize_mc_ok: "ok_mc c \<Longrightarrow> consumes deserialize_mc (ms_buffer (serialize_mc c)) c"
  unfolding deserialize_mc_def serialize_mc_def ok_mc_def
  by (simp add: Let_def stream_simps) ((rule consumes_field consumes_prim | simp)+)

lemma deserialize_mi_ok: "ok_mi i \<Longrightarrow> consumes deserialize_mi (ms_buffer (serialize_mi i)) i"
  unfolding deserialize_mi_def serialize_mi_def ok_mi_def
  by (simp add: Let_def stream_simps) ((rule consumes_field consumes_prim | simp)+)

lemma deserialize_ms_ok: "ok_ms s \<Longrightarrow> consumes (deserialize_ms out) (ms_buffer (serialize_ms s)) s"
  unfolding deserialize_ms_def serialize_ms_def ok_ms_def
  by (simp add: Let_def stream_simps) ((rule consumes_field consumes_prim | simp)+)

lemma deserialize_cfg_ok: "ok_cfg c \<Longrightarrow> consumes deserialize_cfg (ms_buffer (serialize_cfg c)) c"
  unfolding deserialize_cfg_def serialize_cfg_def ok_cfg_def
  by (clarsimp simp add: Let_def stream_simps) ((rule consumes_field consumes_prim | simp)+)

lemma deserialize_mt_ok: "ok_mt t \<Longrightarrow> consumes (deserialize_mt out) (ms_buffer (serialize_mt t)) t"
  unfolding deserialize_mt_def serialize_mt_def ok_mt_def
  by (clarsimp simp add: Let_def stream_simps)
    ((rule consumes_vec_alloc consumes_field consumes_prim
       consumes_vec [where sz = 80, OF _ _ _ deserialize_mc_ok]
       consumes_vec [where sz = 112, OF _ _ _ deserialize_mi_ok] | simp)+)

lemma deserialize_dt_ok: "ok_token t \<Longrightarrow> consumes deserialize_dt (ms_buffer (serialize_dt t)) t"
proof (cases "tok_type t = DT_NULL")
  case True
  assume "ok_token t"
  with True have "t = \<lparr>tok_bytes = [], tok_type = DT_NULL\<rparr>"
    by (simp add: ok_token_def)
  then show ?thesis
    by (simp add: deserialize_dt_def serialize_dt_def Let_def stream_simps)
      (rule consumes_bind_nil [OF consumes_data_type [of DT_NULL, simplified]], simp add: consumes_return)
next
  case False
  assume "ok_token t"
  with False show ?thesis
    unfolding deserialize_dt_def serialize_dt_def ok_token_def
    by (simp add: Let_def stream_simps)
      (rule consumes_bind [OF consumes_data_type], simp, simp del: One_nat_def,
       rule consumes_bind [OF consumes_u64], rule consumes_sized, simp, rule consumes_returnI, simp)
qed

lemmas consumes_tokens = consumes_vec [where sz = 32, OF _ _ _ deserialize_dt_ok]

lemma deserialize_dr_ok: "ok_dr r \<Longrightarrow> consumes deserialize_dr (ms_buffer (serialize_dr r)) r"
  unfolding deserialize_dr_def serialize_dr_def ok_dr_def
  by (clarsimp simp add: Let_def stream_simps)
    ((rule consumes_vec_alloc consumes_field consumes_prim consumes_tokens | simp)+)

lemma deserialize_dp_ok: "ok_dp out p \<Longrightarrow> consumes (deserialize_dp out) (ms_buffer (serialize_dp p)) p"
  unfolding deserialize_dp_def serialize_dp_def ok_dp_def
  by (clarsimp simp add: Let_def stream_simps)
    ((rule consumes_vec_alloc consumes_field consumes_prim
       consumes_vec [where sz = 40, OF _ _ _ deserialize_dr_ok] | simp)+)

lemma consumes_row_ptr: "consumes read_row_ptr (le_bytes 16 (fst r) @ le_bytes 8 (snd r)) r"
  unfolding read_row_ptr_def by ((rule consumes_field consumes_prim | simp)+)

lemma deserialize_ip_ok: "ok_ip p \<Longrightarrow> consumes deserialize_ip (ms_buffer (serialize_ip p)) p"
proof (cases "ip_data p")
  case (InternalIndexNode keys children)
  assume "ok_ip p"
  with InternalIndexNode show ?thesis
    unfolding deserialize_ip_def serialize_ip_def ok_ip_def
    by (clarsimp simp add: Let_def stream_simps)
      (rule consumes_bind, rule consumes_prim, rule consumes_bind, rule consumes_prim,
       rule consumes_bind, rule consumes_prim, rule consumes_bind, rule consumes_prim, simp, rule consumes_last,
       (rule consumes_vec_alloc consumes_field consumes_prim consumes_tokens
         consumes_vec [where sz = 8 and P = "\<lambda>_. True", OF _ _ _ consumes_u64] | simp add: list.pred_True)+)
next
  case (LeafIndexNode keys rows next_leaf)
  assume "ok_ip p"
  with LeafIndexNode show ?thesis
    unfolding deserialize_ip_def serialize_ip_def ok_ip_def
    by (clarsimp simp add: Let_def stream_simps)
      (rule consumes_bind, rule consumes_prim, rule consumes_bind, rule consumes_prim,
       rule consumes_bind, rule consumes_prim, rule consumes_bind, rule consumes_prim, simp, rule consumes_last,
       (rule consumes_vec_alloc consumes_field consumes_prim consumes_tokens
         consumes_vec [where sz = 24 and P = "\<lambda>_. True", OF _ _ _ consumes_row_ptr] | simp add: list.pred_True)+)
qed

lemma deserialize_if_ok: "ok_if out f \<Longrightarrow> consumes (deserialize_if out) (ms_buffer (serialize_if f)) f"
  unfolding deserialize_if_def serialize_if_def ok_if_def
  by (clarsimp simp add: Let_def stream_simps)
    ((rule consumes_vec_alloc consumes_field consumes_prim
       consumes_vec [where sz = 104, OF _ _ _ deserialize_ip_ok] | simp)+)

interpretation mc: codec "\<lambda>c. ms_buffer (serialize_mc c)" deserialize_mc ok_mc
  by unfold_locales (rule deserialize_mc_ok)

interpretation mi: codec "\<lambda>i. ms_buffer (serialize_mi i)" deserialize_mi ok_mi
  by unfold_locales (rule deserialize_mi_ok)

interpretation mt: codec "\<lambda>t. ms_buffer (serialize_mt t)" "deserialize_mt out" ok_mt for out
  by unfold_locales (rule deserialize_mt_ok)

interpretation ms: codec "\<lambda>s. ms_buffer (serialize_ms s)" "deserialize_ms out" ok_ms for out
  by unfold_locales (rule deserialize_ms_ok)

interpretation dt: codec "\<lambda>t. ms_buffer (serialize_dt t)" deserialize_dt ok_token
  by unfold_locales (rule deserialize_dt_ok)

interpretation dr: codec "\<lambda>r. ms_buffer (serialize_dr r)" deserialize_dr ok_dr
  by unfold_locales (rule deserialize_dr_ok)

interpretation dp: codec "\<lambda>p. ms_buffer (serialize_dp p)" "deserialize_dp out" "ok_dp out" for out
  by unfold_locales (rule deserialize_dp_ok)

interpretation ip: codec "\<lambda>p. ms_buffer (serialize_ip p)" deserialize_ip ok_ip
  by unfold_locales (rule deserialize_ip_ok)

interpretation ix: codec "\<lambda>f. ms_buffer (serialize_if f)" "deserialize_if out" "ok_if out" for out
  by unfold_locales (rule deserialize_if_ok)

interpretation cfg: codec "\<lambda>c. ms_buffer (serialize_cfg c)" deserialize_cfg ok_cfg
  by unfold_locales (rule deserialize_cfg_ok)

section \<open>Serialised sizes\<close>

lemma length_serialize_dt:
  "length (ms_buffer (serialize_dt t)) = (if tok_type t = DT_NULL then 8 else 16 + length (tok_bytes t))"
  by (simp add: serialize_dt_def Let_def stream_simps)

lemma length_serialize_dr:
  "length (ms_buffer (serialize_dr r)) = 20 + (\<Sum>t\<leftarrow>dr_tokens r. length (ms_buffer (serialize_dt t)))"
  by (simp add: serialize_dr_def Let_def stream_simps length_concat o_def)

lemma fold_plus_sum_list: "fold (\<lambda>x a. a + f x) xs a = a + (\<Sum>x\<leftarrow>xs. f x :: 'a::comm_monoid_add)"
  by (induction xs arbitrary: a) (simp_all add: ac_simps)

lemma estimate_size_token_length:
  "(tok_type t = DT_NULL \<longrightarrow> tok_bytes t = []) \<Longrightarrow>
   word_of_nat (length (ms_buffer (serialize_dt t))) =
   estimate_size_token t + (if tok_type t \<in> {DT_NULL, DT_STRING} then 0 else 8)"
  by (cases "tok_type t") (auto simp: length_serialize_dt estimate_size_token_def Let_def)

lemma estimate_size_tokens:
  "list_all ok_token ts \<Longrightarrow>
   word_of_nat (\<Sum>t\<leftarrow>ts. length (ms_buffer (serialize_dt t))) =
   (\<Sum>t\<leftarrow>ts. estimate_size_token t) + 8 * word_of_nat (length (filter (\<lambda>t. tok_type t \<notin> {DT_NULL, DT_STRING}) ts))"
proof (induction ts)
  case Nil
  then show ?case by simp
next
  case (Cons t ts)
  then have "word_of_nat (length (ms_buffer (serialize_dt t))) =
    estimate_size_token t + (if tok_type t \<in> {DT_NULL, DT_STRING} then 0 else 8)"
    by (intro estimate_size_token_length) (simp add: ok_token_def)
  with Cons show ?case by (simp add: algebra_simps)
qed

section \<open>Stability\<close>

lemma stable_data_type [stable_intros]: "stable rd_data_type"
  unfolding rd_data_type_def by (intro stable_intros)

lemma stable_bool [stable_intros]: "stable rd_bool"
  unfolding rd_bool_def by (intro stable_intros)

lemma stable_str [stable_intros]: "stable read_str"
  unfolding read_str_def by (intro stable_intros)

lemma stable_dt [stable_intros]: "stable deserialize_dt"
  unfolding deserialize_dt_def by (intro stable_intros)

lemma stable_dr [stable_intros]: "stable deserialize_dr"
  unfolding deserialize_dr_def by (intro stable_intros)

lemma stable_dp [stable_intros]: "stable (deserialize_dp out)"
  unfolding deserialize_dp_def by (intro stable_intros)

lemma stable_row_ptr [stable_intros]: "stable read_row_ptr"
  unfolding read_row_ptr_def by (intro stable_intros)

lemma stable_ip [stable_intros]: "stable deserialize_ip"
  unfolding deserialize_ip_def by (intro stable_intros)

lemma stable_if_file [stable_intros]: "stable (deserialize_if out)"
  unfolding deserialize_if_def by (intro stable_intros)

section \<open>Progress\<close>

lemma forward_data_type [forward_intros]: "forward rd_data_type"
  unfolding rd_data_type_def by (intro forward_intros)

lemma forward_bool [forward_intros]: "forward rd_bool"
  unfolding rd_bool_def by (intro forward_intros)

lemma forward_str [forward_intros]: "forward read_str"
  unfolding read_str_def by (intro forward_intros)

lemma forward_dt [forward_intros]: "forward deserialize_dt"
  unfolding deserialize_dt_def by (intro forward_intros)

lemma forward_dr [forward_intros]: "forward deserialize_dr"
  unfolding deserialize_dr_def by (intro forward_intros)

lemma forward_dp [forward_intros]: "forward (deserialize_dp out)"
  unfolding deserialize_dp_def by (intro forward_intros)

lemma forward_mc [forward_intros]: "forward deserialize_mc"
  unfolding deserialize_mc_def by (intro forward_intros)

lemma forward_mi [forward_intros]: "forward deserialize_mi"
  unfolding deserialize_mi_def by (intro forward_intros)

lemma forward_mt [forward_intros]: "forward (deserialize_mt out)"
  unfolding deserialize_mt_def by (intro forward_intros)

lemma forward_ms [forward_intros]: "forward (deserialize_ms out)"
  unfolding deserialize_ms_def by (intro forward_intros)

section \<open>Properties\<close>

lemma length_serialize_dp:
  "length (ms_buffer (serialize_dp p)) = 80 + (\<Sum>r\<leftarrow>dp_rows p. length (ms_buffer (serialize_dr r)))"
  by (simp add: serialize_dp_def Let_def stream_simps length_concat o_def)

lemma serialize_dp_untouched [simp]:
  "serialize_dp (p\<lparr>dp_rows_count := n, dp_size := s, dp_path := path\<rparr>) = serialize_dp p"
  by (simp add: serialize_dp_def)

lemma serialize_if_untouched [simp]: "serialize_if (f\<lparr>if_last_page := l\<rparr>) = serialize_if f"
  by (simp add: serialize_if_def)

text \<open>Sample values on which the properties are exercised.\<close>

definition sample_row :: data_row where
  "sample_row = \<lparr>dr_id = 7, dr_flags = 0, dr_tokens = [\<lparr>tok_bytes = [104, 105], tok_type = DT_STRING\<rparr>,
     null_token, \<lparr>tok_bytes = [42, 0, 0, 0], tok_type = DT_INTEGER\<rparr>]\<rparr>"

definition sample_page :: data_page where
  "sample_page = (data_page_make (\<lambda>_. ''p'') [''data''] 3 5)\<lparr>dp_rows := [sample_row, set_obsolete sample_row],
     dp_rows_count := 2, dp_last_lsn := 9\<rparr>"

definition sample_table :: meta_table where
  "sample_table = \<lparr>mt_id = 1, mt_schema_id = 2, mt_name = ''t'',
     mt_columns = [\<lparr>mc_id = 3, mc_table_id = 1, mc_name = ''a'', mc_type = DT_STRING, mc_flags = 1\<rparr>],
     mt_indexes = [\<lparr>mi_id = 4, mi_table_id = 1, mi_column_id = 3, mi_root_page_id = 0, mi_name = ''ix'',
       mi_key_type = DT_STRING, mi_is_unique = True\<rparr>],
     mt_last_rid = 8, mt_total_rows = 8, mt_live_rows = 6\<rparr>"

definition sample_index :: index_file where
  "sample_index = \<lparr>if_index_id = 4, if_root_page = 1, if_last_page = 1, if_last_lsn = 12,
     if_pages = [\<lparr>ip_id = 1, ip_parent = 0, ip_index_id = 4, ip_is_leaf = True,
       ip_data = LeafIndexNode [\<lparr>tok_bytes = [104, 105], tok_type = DT_STRING\<rparr>] [(5, 7)] 0\<rparr>]\<rparr>"

lemmas sample_simps = sample_row_def sample_page_def sample_table_def sample_index_def data_page_make_def
  set_obsolete_def null_token_def ok_storage_simps ok_vec_def ok_str_def max_alloc_def

text \<open>C19: a data page written by \<^verbatim>\<open>serialize_dp\<close> and read back by \<^verbatim>\<open>deserialize_dp\<close>,
  with any bytes behind it, is the page with its row count set to the number of rows; only the in-memory
  fields \<^verbatim>\<open>size\<close> and \<^verbatim>\<open>path\<close> keep the values of the object read into, and exactly the
  bytes of the page are consumed.\<close>

theorem data_page_roundtrip:
  assumes "ok_vec 40 (dp_rows p)" and "list_all ok_dr (dp_rows p)"
    and "length (ms_buffer (serialize_dp p) @ rest) \<le> max_alloc"
  shows "deserialize_dp out (ro_new (ms_buffer (serialize_dp p) @ rest)) =
    Done (p\<lparr>dp_rows_count := word_of_nat (length (dp_rows p)), dp_size := dp_size out, dp_path := dp_path out\<rparr>,
          \<lparr>ro_buffer = ms_buffer (serialize_dp p) @ rest, ro_position = length (ms_buffer (serialize_dp p))\<rparr>)"
proof -
  let ?p = "p\<lparr>dp_rows_count := word_of_nat (length (dp_rows p)), dp_size := dp_size out, dp_path := dp_path out\<rparr>"
  have "ok_dp out ?p" using assms(1,2) by (simp add: ok_dp_def)
  from dp.decode [OF this, of rest] assms(3) show ?thesis by simp
qed

theorem data_page_roundtrip_witness:
  "deserialize_dp (data_page_make (\<lambda>_. ''x'') [] 0 0) (ro_new (ms_buffer (serialize_dp sample_page) @ [1, 2])) =
   Done (sample_page\<lparr>dp_rows_count := 2, dp_size := DP_HEADER_SIZE, dp_path := [''x'']\<rparr>,
     \<lparr>ro_buffer = ms_buffer (serialize_dp sample_page) @ [1, 2],
      ro_position = length (ms_buffer (serialize_dp sample_page))\<rparr>)"
  using data_page_roundtrip [of sample_page "[1, 2]" "data_page_make (\<lambda>_. ''x'') [] 0 0"]
  by (simp add: length_serialize_dp length_serialize_dr length_serialize_dt sample_simps)

text \<open>C20: a data page file cut short anywhere is never accepted: \<^verbatim>\<open>deserialize_dp\<close> returns
  \<^verbatim>\<open>false\<close> or throws on every proper prefix of a serialised page.\<close>

theorem data_page_truncated:
  assumes "ok_vec 40 (dp_rows p)" and "list_all ok_dr (dp_rows p)"
    and "length (ms_buffer (serialize_dp p)) \<le> max_alloc" and "k < length (ms_buffer (serialize_dp p))"
  shows "deserialize_dp out (ro_new (take k (ms_buffer (serialize_dp p)))) \<noteq> Done r"
proof -
  let ?p = "p\<lparr>dp_rows_count := word_of_nat (length (dp_rows p)), dp_size := dp_size out, dp_path := dp_path out\<rparr>"
  have "ok_dp out ?p" using assms(1,2) by (simp add: ok_dp_def)
  from truncated_rejected [OF stable_dp deserialize_dp_ok [OF this]] assms(3,4)
  show ?thesis by simp
qed

theorem data_page_truncated_witness:
  "\<forall>r. deserialize_dp sample_page (ro_new (take 100 (ms_buffer (serialize_dp sample_page)))) \<noteq> Done r"
  using data_page_truncated [of sample_page 100 sample_page]
  by (simp add: length_serialize_dp length_serialize_dr length_serialize_dt sample_simps)

text \<open>A table descriptor survives \<^verbatim>\<open>serialize_mt\<close> and \<^verbatim>\<open>deserialize_mt\<close> completely
  (columns, indexes, row counters), whatever the object read into held before.\<close>

theorem table_roundtrip:
  assumes "ok_mt t" and "length (ms_buffer (serialize_mt t) @ rest) \<le> max_alloc"
  shows "deserialize_mt out (ro_new (ms_buffer (serialize_mt t) @ rest)) =
    Done (t, \<lparr>ro_buffer = ms_buffer (serialize_mt t) @ rest, ro_position = length (ms_buffer (serialize_mt t))\<rparr>)"
  using assms by (rule mt.decode)

theorem table_roundtrip_witness:
  "deserialize_mt (sample_table\<lparr>mt_columns := []\<rparr>) (ro_new (ms_buffer (serialize_mt sample_table) @ [])) =
   Done (sample_table, \<lparr>ro_buffer = ms_buffer (serialize_mt sample_table),
     ro_position = length (ms_buffer (serialize_mt sample_table))\<rparr>)"
  using table_roundtrip [of sample_table "[]" "sample_table\<lparr>mt_columns := []\<rparr>"]
  by (simp add: serialize_mt_def serialize_mc_def serialize_mi_def Let_def stream_simps str_bytes_def
      bool_byte_def sample_simps)

text \<open>An index file survives \<^verbatim>\<open>serialize_if\<close> and \<^verbatim>\<open>deserialize_if\<close> except for the
  page allocation counter \<^verbatim>\<open>last_page\<close>, which is not stored: the decoded file has the counter of
  the object read into.\<close>

theorem index_file_roundtrip:
  assumes "ok_vec 104 (if_pages f)" and "list_all ok_ip (if_pages f)"
    and "length (ms_buffer (serialize_if f) @ rest) \<le> max_alloc"
  shows "deserialize_if out (ro_new (ms_buffer (serialize_if f) @ rest)) =
    Done (f\<lparr>if_last_page := if_last_page out\<rparr>,
      \<lparr>ro_buffer = ms_buffer (serialize_if f) @ rest, ro_position = length (ms_buffer (serialize_if f))\<rparr>)"
proof -
  have "ok_if out (f\<lparr>if_last_page := if_last_page out\<rparr>)" using assms(1,2) by (simp add: ok_if_def)
  from ix.decode [OF this, of rest] assms(3) show ?thesis by simp
qed

theorem index_file_roundtrip_witness:
  "deserialize_if (sample_index\<lparr>if_last_page := 0\<rparr>) (ro_new (ms_buffer (serialize_if sample_index) @ [])) =
   Done (sample_index\<lparr>if_last_page := 0\<rparr>, \<lparr>ro_buffer = ms_buffer (serialize_if sample_index),
     ro_position = length (ms_buffer (serialize_if sample_index))\<rparr>)"
  using index_file_roundtrip [of sample_index "[]" "sample_index\<lparr>if_last_page := 0\<rparr>"]
  by (simp add: serialize_if_def serialize_ip_def serialize_dt_def Let_def stream_simps bool_byte_def sample_simps)

text \<open>\<^verbatim>\<open>estimate_size\<close>, from which a page's fill level is computed, is the serialised length of
  the row less eight bytes for every token that is neither NULL nor a string: their length prefix is
  written but not counted.\<close>

theorem estimate_size_gap:
  assumes "list_all ok_token (dr_tokens r)"
  shows "word_of_nat (length (ms_buffer (serialize_dr r))) =
    estimate_size r + 8 * word_of_nat (length (filter (\<lambda>t. tok_type t \<notin> {DT_NULL, DT_STRING}) (dr_tokens r)))"
  using estimate_size_tokens [OF assms]
  by (simp add: length_serialize_dr estimate_size_def fold_plus_sum_list)

theorem estimate_size_gap_witness:
  "word_of_nat (length (ms_buffer (serialize_dr sample_row))) = estimate_size sample_row + 8"
  using estimate_size_gap [of sample_row] by (simp add: sample_simps)

end
