(* ===== verification/File_System.thy ===== *)
theory File_System
  imports Db_Prelude "HOL-Library.AList" "HOL-Library.Sublist"
begin

text \<open>
  The directory tree the storage layer works on and the operations of \<^verbatim>\<open>storage/file_utils.cpp\<close>. A path is
  the list of its components below the data directory; directories list their entries in the order in which an
  iteration visits them. The calls of \<^verbatim>\<open>std::filesystem\<close> and of POSIX are modelled by their documented
  effect on the tree; failures of the device (a full disk, a failing \<^verbatim>\<open>flock\<close>) are not.

  Abstractly the tree is a partial map from paths to contents, \<open>fs_file\<close>: the lemmas show that writing a file
  updates this map at one path, creating directories leaves it alone and removing a tree drops the paths below it.
\<close>

section \<open>Trees\<close>

datatype fs_node = File "byte list" | Dir "(string \<times> fs_node) list"

fun fs_get :: "fs_node \<Rightarrow> path \<Rightarrow> fs_node option" where
  "fs_get n [] = Some n"
| "fs_get (File c) (x # p) = None"
| "fs_get (Dir es) (x # p) = (case map_of es x of None \<Rightarrow> None | Some m \<Rightarrow> fs_get m p)"

definition fs_exists :: "fs_node \<Rightarrow> path \<Rightarrow> bool" where
  "fs_exists n p \<longleftrightarrow> fs_get n p \<noteq> None"

fun is_file :: "fs_node \<Rightarrow> bool" where
  "is_file (File c) = True"
| "is_file (Dir es) = False"

definition is_regular_file :: "fs_node \<Rightarrow> path \<Rightarrow> bool" where
  "is_regular_file n p \<longleftrightarrow> (case fs_get n p of Some m \<Rightarrow> is_file m | None \<Rightarrow> False)"

definition is_directory :: "fs_node \<Rightarrow> path \<Rightarrow> bool" where
  "is_directory n p \<longleftrightarrow> (case fs_get n p of Some m \<Rightarrow> \<not> is_file m | None \<Rightarrow> False)"

text \<open>\<^verbatim>\<open>create_directories\<close>: a component that is a file is an error.\<close>

fun fs_mkdirs :: "fs_node \<Rightarrow> path \<Rightarrow> fs_node option" where
  "fs_mkdirs (Dir es) [] = Some (Dir es)"
| "fs_mkdirs (File c) p = None"
| "fs_mkdirs (Dir es) (x # p) =
     map_option (\<lambda>m. Dir (AList.update x m es))
       (fs_mkdirs (case map_of es x of Some m \<Rightarrow> m | None \<Rightarrow> Dir []) p)"

text \<open>\<^verbatim>\<open>open\<close> with \<^verbatim>\<open>O_CREAT | O_TRUNC\<close> followed by writing the content: the directory must exist.\<close>

fun fs_store :: "fs_node \<Rightarrow> path \<Rightarrow> byte list \<Rightarrow> fs_node option" where
  "fs_store (File b) [] c = Some (File c)"
| "fs_store (Dir es) [] c = None"
| "fs_store (File b) (x # p) c = None"
| "fs_store (Dir es) (x # p) c =
     (case map_of es x of
        Some m \<Rightarrow> map_option (\<lambda>m'. Dir (AList.update x m' es)) (fs_store m p c)
      | None \<Rightarrow> if p = [] then Some (Dir (AList.update x (File c) es)) else None)"

text \<open>\<^verbatim>\<open>remove_all\<close> below the data directory; a path that does not exist is left alone.\<close>

fun fs_remove :: "fs_node \<Rightarrow> path \<Rightarrow> fs_node" where
  "fs_remove n [] = n"
| "fs_remove (File c) (x # p) = File c"
| "fs_remove (Dir es) (x # p) =
     (case map_of es x of
        None \<Rightarrow> Dir es
      | Some m \<Rightarrow> if p = [] then Dir (AList.delete x es) else Dir (AList.update x (fs_remove m p) es))"

section \<open>Files\<close>

definition read_file :: "fs_node \<Rightarrow> path \<Rightarrow> byte list outcome" where
  "read_file n p =
     (case fs_get n p of
        Some (File c) \<Rightarrow> Done c
      | Some (Dir es) \<Rightarrow> Raised (RuntimeError ''Error reading file: '')
      | None \<Rightarrow> Raised (RuntimeError ''Cannot open file: ''))"

definition create_directories :: "fs_node \<Rightarrow> path \<Rightarrow> fs_node outcome" where
  "create_directories n p =
     (case fs_mkdirs n p of Some m \<Rightarrow> Done m | None \<Rightarrow> Raised (RuntimeError ''filesystem error''))"

definition write_file :: "fs_node \<Rightarrow> path \<Rightarrow> byte list \<Rightarrow> fs_node outcome" where
  "write_file n p c =
     obind (if \<not> fs_exists n (butlast p) then create_directories n (butlast p) else Done n) (\<lambda>n.
     case fs_store n p c of
       Some m \<Rightarrow> Done m
     | None \<Rightarrow> Raised (RuntimeError ''Cannot open file for writing: ''))"

definition exists_file :: "fs_node \<Rightarrow> path \<Rightarrow> bool" where
  "exists_file n p \<longleftrightarrow> fs_exists n p \<and> is_regular_file n p"

definition fsync_file :: "fs_node \<Rightarrow> path \<Rightarrow> byte list \<Rightarrow> fs_node outcome" where
  "fsync_file n p c =
     obind (create_directories n (butlast p)) (\<lambda>n.
     case fs_store n p c of
       Some m \<Rightarrow> Done m
     | None \<Rightarrow> Raised (RuntimeError ''fsync_file: open failed''))"

section \<open>The map of files\<close>

definition fs_file :: "fs_node \<Rightarrow> path \<Rightarrow> byte list option" where
  "fs_file n p = (case fs_get n p of Some (File c) \<Rightarrow> Some c | _ \<Rightarrow> None)"

fun wf_fs :: "fs_node \<Rightarrow> bool" where
  "wf_fs (File c) = True"
| "wf_fs (Dir es) = (distinct (map fst es) \<and> list_all (\<lambda>e. wf_fs (snd e)) es)"

lemma fs_file_Nil [simp]: "fs_file (Dir es) [] = None" "fs_file (File c) [] = Some c"
  by (simp_all add: fs_file_def)

lemma fs_file_File [simp]: "fs_file (File c) (x # p) = None"
  by (simp add: fs_file_def)

lemma fs_file_Dir: "fs_file (Dir es) (x # p) = (case map_of es x of None \<Rightarrow> None | Some m \<Rightarrow> fs_file m p)"
  by (simp add: fs_file_def split: option.splits)

lemma fs_file_empty [simp]: "fs_file (Dir []) p = None"
  by (cases p) (simp_all add: fs_file_Dir)

lemma fs_file_get: "fs_file n p = Some c \<longleftrightarrow> fs_get n p = Some (File c)"
  by (auto simp: fs_file_def split: option.splits fs_node.splits)

lemma fs_get_append: "fs_get n (p @ q) = (case fs_get n p of None \<Rightarrow> None | Some m \<Rightarrow> fs_get m q)"
  by (induction n p rule: fs_get.induct) (auto split: option.splits)

lemma fs_mkdirs_file: "fs_mkdirs n p = Some n' \<Longrightarrow> fs_file n' = fs_file n"
proof (induction n p arbitrary: n' rule: fs_mkdirs.induct)
  case (3 es x p)
  then obtain m where m: "fs_mkdirs (case map_of es x of Some m \<Rightarrow> m | None \<Rightarrow> Dir []) p = Some m"
    and n': "n' = Dir (AList.update x m es)" by auto
  from "3.IH" [OF m] have IH: "fs_file m = fs_file (case map_of es x of Some m \<Rightarrow> m | None \<Rightarrow> Dir [])" .
  show ?case
  proof
    fix q show "fs_file n' q = fs_file (Dir es) q"
      by (cases q) (auto simp: n' fs_file_Dir update_conv IH split: option.splits)
  qed
qed auto

lemma fs_mkdirs_dir: "fs_mkdirs n p = Some n' \<Longrightarrow> \<exists>es. fs_get n' p = Some (Dir es)"
  by (induction n p arbitrary: n' rule: fs_mkdirs.induct) (auto simp: update_conv)

lemma fs_store_file: "fs_store n p c = Some n' \<Longrightarrow> fs_file n' = (fs_file n)(p \<mapsto> c)"
proof (induction n p c arbitrary: n' rule: fs_store.induct)
  case (1 b c)
  show ?case
  proof
    fix q show "fs_file n' q = ((fs_file (File b))([] \<mapsto> c)) q" using 1 by (cases q) auto
  qed
next
  case (4 es x p c)
  show ?case
  proof
    fix q show "fs_file n' q = ((fs_file (Dir es))(x # p \<mapsto> c)) q"
    proof (cases q)
      case Nil
      then show ?thesis using "4.prems" by (auto split: option.splits if_splits)
    next
      case (Cons y r)
      show ?thesis
      proof (cases "map_of es x")
        case None
        with "4.prems" have "p = []" "n' = Dir (AList.update x (File c) es)" by (auto split: if_splits)
        with Cons None show ?thesis by (cases r) (auto simp: fs_file_Dir update_conv)
      next
        case (Some m)
        with "4.prems" obtain m' where "fs_store m p c = Some m'" "n' = Dir (AList.update x m' es)" by auto
        with Cons Some "4.IH" [OF Some] show ?thesis by (auto simp: fs_file_Dir update_conv)
      qed
    qed
  qed
qed auto

lemma fs_remove_file:
  "fs_file (fs_remove n p) q = (if p \<noteq> [] \<and> prefix p q then None else fs_file n q)"
proof (induction n p arbitrary: q rule: fs_remove.induct)
  case (3 es x p)
  then show ?case
    by (cases q; cases "map_of es x")
      (auto simp: fs_file_Dir update_conv delete_conv restrict_map_def)
qed (auto split: fs_node.splits dest: prefix_length_le simp: fs_file_def prefix_def)

text \<open>A directory can be created unless a file is in the way.\<close>

lemma fs_mkdirs_Some: "(\<exists>n'. fs_mkdirs n p = Some n') \<longleftrightarrow> (\<forall>q. prefix q p \<longrightarrow> fs_file n q = None)"
proof (induction n p rule: fs_mkdirs.induct)
  case (2 c p)
  have "prefix [] p \<and> fs_file (File c) [] \<noteq> None" by simp
  then show ?case by (metis fs_mkdirs.simps(2) option.distinct(1))
next
  case (3 es x p)
  let ?m = "case map_of es x of Some m \<Rightarrow> m | None \<Rightarrow> Dir []"
  have "(\<forall>q. prefix q (x # p) \<longrightarrow> fs_file (Dir es) q = None) \<longleftrightarrow> (\<forall>q. prefix q p \<longrightarrow> fs_file ?m q = None)"
    by (auto simp: prefix_Cons fs_file_Dir split: option.splits)
  with 3 show ?case by auto
qed (auto simp: fs_file_def)

lemma fs_store_Some:
  "fs_get n p = Some (Dir es) \<Longrightarrow> \<not> is_directory n (p @ [x]) \<Longrightarrow> \<exists>n'. fs_store n (p @ [x]) c = Some n'"
proof (induction p arbitrary: n)
  case Nil
  then obtain es' where "n = Dir es'" by (cases n) auto
  with Nil show ?case
    by (cases "map_of es' x") (auto simp: is_directory_def elim: is_file.elims split: fs_node.splits option.splits)
next
  case (Cons y p)
  then obtain es' m where "n = Dir es'" "map_of es' y = Some m" "fs_get m p = Some (Dir es)"
    by (cases n) (auto split: option.splits)
  moreover with Cons.prems(2) have "\<not> is_directory m (p @ [x])" by (simp add: is_directory_def)
  ultimately show ?case using Cons.IH by fastforce
qed

lemma wf_fs_map_of: "wf_fs (Dir es) \<Longrightarrow> map_of es x = Some m \<Longrightarrow> wf_fs m"
  by (auto simp: list_all_iff dest!: map_of_SomeD)

lemma wf_fs_get: "wf_fs n \<Longrightarrow> fs_get n p = Some m \<Longrightarrow> wf_fs m"
  by (induction n p rule: fs_get.induct) (auto split: option.splits dest: wf_fs_map_of simp del: wf_fs.simps)

lemma list_all_AList_update:
  "list_all (\<lambda>e. P (snd e)) es \<Longrightarrow> P v \<Longrightarrow> list_all (\<lambda>e. P (snd e)) (AList.update x v es)"
  by (induction es) auto

lemma wf_fs_update: "wf_fs (Dir es) \<Longrightarrow> wf_fs m \<Longrightarrow> wf_fs (Dir (AList.update x m es))"
  by (simp add: distinct_update list_all_AList_update)

lemma fs_mkdirs_wf: "wf_fs n \<Longrightarrow> fs_mkdirs n p = Some n' \<Longrightarrow> wf_fs n'"
proof (induction n p arbitrary: n' rule: fs_mkdirs.induct)
  case (3 es x p)
  then obtain m where m: "fs_mkdirs (case map_of es x of Some m \<Rightarrow> m | None \<Rightarrow> Dir []) p = Some m"
    and n': "n' = Dir (AList.update x m es)" by auto
  have "wf_fs (case map_of es x of Some m \<Rightarrow> m | None \<Rightarrow> Dir [])"
    using wf_fs_map_of [OF "3.prems"(1)] by (auto split: option.splits)
  from "3.IH" [OF this m] show ?case unfolding n' by (rule wf_fs_update [OF "3.prems"(1)])
qed auto

lemma fs_store_wf: "wf_fs n \<Longrightarrow> fs_store n p c = Some n' \<Longrightarrow> wf_fs n'"
proof (induction n p c arbitrary: n' rule: fs_store.induct)
  case (4 es x p c)
  show ?case
  proof (cases "map_of es x")
    case None
    with "4.prems" show ?thesis
      using wf_fs_update [OF "4.prems"(1), of "File c" x] by (auto simp del: wf_fs.simps split: if_splits) simp
  next
    case (Some m)
    with "4.prems" obtain m' where "fs_store m p c = Some m'" "n' = Dir (AList.update x m' es)" by auto
    with "4.IH" [OF Some wf_fs_map_of [OF "4.prems"(1) Some]] "4.prems"(1) show ?thesis
      by (auto intro: wf_fs_update simp del: wf_fs.simps)
  qed
qed auto

lemma list_all_AList_delete: "list_all P es \<Longrightarrow> list_all P (AList.delete x es)"
  by (induction es) auto

lemma fs_remove_wf: "wf_fs n \<Longrightarrow> wf_fs (fs_remove n p)"
proof (induction n p rule: fs_remove.induct)
  case (3 es x p)
  show ?case
  proof (cases "map_of es x")
    case (Some m)
    then have "wf_fs (fs_remove m p)" if "p \<noteq> []"
      using "3.IH" [OF Some that] wf_fs_map_of [OF "3.prems" Some] by simp
    with Some "3.prems" show ?thesis
      using wf_fs_update [OF "3.prems"] by (auto simp: distinct_delete list_all_AList_delete)
  qed (use "3.prems" in simp)
qed auto

section \<open>Stores of named values\<close>

text \<open>
  The contract of a store whose \<open>put\<close> may fail: a \<open>put\<close> that succeeds changes the value of one key.
\<close>

locale named_store =
  fixes find :: "'s \<Rightarrow> 'k \<Rightarrow> 'v option"
    and put :: "'s \<Rightarrow> 'k \<Rightarrow> 'v \<Rightarrow> 's outcome"
    and ok :: "'s \<Rightarrow> bool"
  assumes put_find: "ok s \<Longrightarrow> put s k v = Done s' \<Longrightarrow> find s' = (find s)(k \<mapsto> v)"
    and put_ok: "ok s \<Longrightarrow> put s k v = Done s' \<Longrightarrow> ok s'"
begin

lemma read_back: "ok s \<Longrightarrow> put s k v = Done s' \<Longrightarrow> find s' k = Some v"
  by (simp add: put_find)

lemma frame: "ok s \<Longrightarrow> put s k v = Done s' \<Longrightarrow> l \<noteq> k \<Longrightarrow> find s' l = find s l"
  by (simp add: put_find)

lemma overwrite:
  "ok s \<Longrightarrow> put s k v = Done s' \<Longrightarrow> put s' k w = Done s'' \<Longrightarrow> find s'' = (find s)(k \<mapsto> w)"
  using put_find [of s k v s'] put_find [of s' k w s''] put_ok [of s k v s'] by simp

lemma commute:
  "ok s \<Longrightarrow> k \<noteq> l \<Longrightarrow> put s k v = Done s1 \<Longrightarrow> put s1 l w = Done s2 \<Longrightarrow>
   put s l w = Done t1 \<Longrightarrow> put t1 k v = Done t2 \<Longrightarrow> find s2 = find t2"
  using put_find [of s k v s1] put_find [of s1 l w s2] put_find [of s l w t1] put_find [of t1 k v t2]
    put_ok [of s k v s1] put_ok [of s l w t1]
  by (simp add: fun_upd_twist)

end

lemma create_directories_Done: "create_directories n p = Done m \<longleftrightarrow> fs_mkdirs n p = Some m"
  by (simp add: create_directories_def split: option.splits)

lemma write_file_Done:
  "write_file n p c = Done n' \<Longrightarrow> \<exists>m. (m = n \<or> fs_mkdirs n (butlast p) = Some m) \<and> fs_store m p c = Some n'"
  by (auto simp: write_file_def obind_Done_conv create_directories_Done split: option.splits if_splits)

lemma fsync_file_Done:
  "fsync_file n p c = Done n' \<Longrightarrow> \<exists>m. fs_mkdirs n (butlast p) = Some m \<and> fs_store m p c = Some n'"
  by (auto simp: fsync_file_def obind_Done_conv create_directories_Done split: option.splits)

interpretation fwrite: named_store fs_file write_file wf_fs
proof
  fix s k v s' assume "wf_fs s" and w: "write_file s k v = Done s'"
  obtain m where m: "m = s \<or> fs_mkdirs s (butlast k) = Some m" "fs_store m k v = Some s'"
    using write_file_Done [OF w] by blast
  then have "fs_file m = fs_file s" by (auto dest: fs_mkdirs_file)
  then show "fs_file s' = (fs_file s)(k \<mapsto> v)" using fs_store_file [OF m(2)] by simp
  from m(1) \<open>wf_fs s\<close> have "wf_fs m" by (auto dest: fs_mkdirs_wf)
  with m(2) show "wf_fs s'" by (rule fs_store_wf [rotated])
qed

interpretation fsync: named_store fs_file fsync_file wf_fs
proof
  fix s k v s' assume "wf_fs s" and w: "fsync_file s k v = Done s'"
  obtain m where m: "fs_mkdirs s (butlast k) = Some m" "fs_store m k v = Some s'"
    using fsync_file_Done [OF w] by blast
  show "fs_file s' = (fs_file s)(k \<mapsto> v)" using fs_store_file [OF m(2)] fs_mkdirs_file [OF m(1)] by simp
  show "wf_fs s'" using fs_store_wf [OF fs_mkdirs_wf [OF \<open>wf_fs s\<close> m(1)] m(2)] .
qed

text \<open>Writing succeeds unless a directory of the path is a file or the path is a directory.\<close>

definition writable :: "fs_node \<Rightarrow> path \<Rightarrow> bool" where
  "writable n p \<longleftrightarrow> p \<noteq> [] \<and> fs_mkdirs n (butlast p) \<noteq> None \<and> \<not> is_directory n p"

lemma fs_mkdirs_exists: "fs_get n p = Some (Dir es) \<Longrightarrow> fs_mkdirs n p = Some n"
proof (induction n p rule: fs_mkdirs.induct)
  case (3 es' x p)
  then obtain m where "map_of es' x = Some m" "fs_get m p = Some (Dir es)" by (auto split: option.splits)
  with 3 show ?case by (simp add: update_triv)
next
  case (2 c p)
  then show ?case by (cases p) auto
qed auto

lemma fs_mkdirs_not_dir:
  assumes "fs_mkdirs n p = Some m" and "\<not> is_directory n (p @ [x])"
  shows "\<not> is_directory m (p @ [x])"
  using assms
proof (induction n p arbitrary: m rule: fs_mkdirs.induct)
  case (3 es y p)
  let ?k = "case map_of es y of Some m \<Rightarrow> m | None \<Rightarrow> Dir []"
  from "3.prems" obtain m' where m': "fs_mkdirs ?k p = Some m'" "m = Dir (AList.update y m' es)" by auto
  have "\<not> is_directory ?k (p @ [x])"
    using "3.prems"(2) by (cases p) (auto simp: is_directory_def split: option.splits)
  with "3.IH" [OF m'(1)] m'(2) show ?case by (simp add: is_directory_def update_conv)
qed auto

lemma writable_stored:
  assumes "writable n p"
  shows "\<exists>m n'. fs_mkdirs n (butlast p) = Some m \<and> fs_store m p c = Some n'"
proof -
  from assms obtain m where m: "fs_mkdirs n (butlast p) = Some m" and p: "p \<noteq> []" by (auto simp: writable_def)
  obtain es where es: "fs_get m (butlast p) = Some (Dir es)" using fs_mkdirs_dir [OF m] by blast
  have "\<not> is_directory m (butlast p @ [last p])"
    using fs_mkdirs_not_dir [OF m, of "last p"] assms p by (simp add: writable_def)
  from fs_store_Some [OF es this, of c] m p show ?thesis by auto
qed

lemma fsync_file_writable: "writable n p \<Longrightarrow> \<exists>n'. fsync_file n p c = Done n'"
  using writable_stored [of n p c] by (auto simp: fsync_file_def create_directories_def)

lemma write_file_writable:
  assumes "writable n p"
  shows "\<exists>n'. write_file n p c = Done n'"
proof (cases "fs_exists n (butlast p)")
  case True
  obtain m n' where m: "fs_mkdirs n (butlast p) = Some m" "fs_store m p c = Some n'"
    using writable_stored [OF assms] by blast
  obtain k where k: "fs_get n (butlast p) = Some k" using True by (auto simp: fs_exists_def)
  have "fs_file n (butlast p) = None"
    using fs_mkdirs_Some [of n "butlast p"] m(1) by blast
  with k obtain es where "k = Dir es" by (cases k) (auto simp: fs_file_def)
  with k m(1) fs_mkdirs_exists have "m = n" by simp
  with m True show ?thesis by (auto simp: write_file_def)
next
  case False
  with writable_stored [OF assms, of c] show ?thesis by (auto simp: write_file_def create_directories_def)
qed

lemma read_file_file: "read_file n p = Done c \<longleftrightarrow> fs_file n p = Some c"
  by (auto simp: read_file_def fs_file_def split: option.splits fs_node.splits)

lemma exists_file_file: "exists_file n p \<longleftrightarrow> fs_file n p \<noteq> None"
  by (auto simp: exists_file_def fs_exists_def is_regular_file_def fs_file_def split: option.splits fs_node.splits)

text \<open>Directories are kept by creating directories, by writing files and by removing other trees.\<close>

lemma is_directory_Nil [simp]: "is_directory n [] \<longleftrightarrow> \<not> is_file n"
  by (simp add: is_directory_def)

lemma is_directory_Cons [simp]:
  "is_directory (File c) (x # p) = False"
  "is_directory (Dir es) (x # p) \<longleftrightarrow> (case map_of es x of None \<Rightarrow> False | Some m \<Rightarrow> is_directory m p)"
  by (auto simp: is_directory_def split: option.splits)

lemma fs_mkdirs_dirs: "fs_mkdirs n p = Some n' \<Longrightarrow> is_directory n' q \<longleftrightarrow> is_directory n q \<or> prefix q p"
proof (induction n p arbitrary: n' q rule: fs_mkdirs.induct)
  case (1 es)
  then show ?case by (cases q) auto
next
  case (3 es x p)
  let ?m = "case map_of es x of Some m \<Rightarrow> m | None \<Rightarrow> Dir []"
  from "3.prems" obtain m' where m': "fs_mkdirs ?m p = Some m'" "n' = Dir (AList.update x m' es)" by auto
  show ?case
  proof (cases q)
    case (Cons y r)
    have "is_directory (Dir []) r \<longleftrightarrow> r = []" by (cases r) auto
    with Cons m' "3.IH" [OF m'(1), of r] show ?thesis by (auto simp: update_conv split: option.splits)
  qed (use m' in simp)
qed auto

lemma fs_mkdirs_keeps_dir: "fs_mkdirs n p = Some n' \<Longrightarrow> is_directory n q \<Longrightarrow> is_directory n' q"
  by (simp add: fs_mkdirs_dirs)

lemma fs_store_dirs: "fs_store n p c = Some n' \<Longrightarrow> is_directory n' q \<longleftrightarrow> is_directory n q"
proof (induction n p c arbitrary: n' q rule: fs_store.induct)
  case (4 es x p c)
  have "\<not> is_directory (File c) r" for r by (cases r) auto
  with 4 show ?case by (cases q) (auto simp: update_conv split: option.splits if_splits)
next
  case (1 b c)
  then show ?case by (cases q) auto
qed auto

lemma fs_store_keeps_dir: "fs_store n p c = Some n' \<Longrightarrow> is_directory n q \<Longrightarrow> is_directory n' q"
  by (simp add: fs_store_dirs)

lemma fs_remove_keeps_dir: "is_directory n q \<Longrightarrow> \<not> prefix p q \<Longrightarrow> is_directory (fs_remove n p) q"
proof (induction n p arbitrary: q rule: fs_remove.induct)
  case (3 es x p)
  then show ?case
    by (cases q; cases "map_of es x") (auto simp: update_conv delete_conv restrict_map_def split: option.splits)
qed auto

text \<open>\<^verbatim>\<open>write_file\<close> or \<^verbatim>\<open>fsync_file\<close>, as the callers choose by a flag.\<close>

definition put_file :: "bool \<Rightarrow> fs_node \<Rightarrow> path \<Rightarrow> byte list \<Rightarrow> fs_node outcome" where
  "put_file fsync n p c = (if fsync then fsync_file n p c else write_file n p c)"

lemma put_file_keeps_dir:
  assumes "put_file fsync n p c = Done n'" and "is_directory n q"
  shows "is_directory n' q"
proof -
  obtain m where "m = n \<or> fs_mkdirs n (butlast p) = Some m" "fs_store m p c = Some n'"
    using assms(1) write_file_Done [of n p c n'] fsync_file_Done [of n p c n'] by (auto simp: put_file_def split: if_splits)
  with assms(2) show ?thesis by (auto dest: fs_mkdirs_keeps_dir fs_store_keeps_dir)
qed

interpretation fput: named_store fs_file "put_file fsync" wf_fs for fsync
  by unfold_locales (auto simp: put_file_def split: if_splits
      dest: fwrite.put_find fwrite.put_ok fsync.put_find fsync.put_ok)

lemma put_file_writable: "writable n p \<Longrightarrow> \<exists>n'. put_file fsync n p c = Done n'"
  by (simp add: put_file_def write_file_writable fsync_file_writable)

lemma put_file_cases:
  assumes "put_file fsync n p c = Done n'"
  shows "\<exists>m. (m = n \<or> fs_mkdirs n (butlast p) = Some m) \<and> fs_store m p c = Some n'"
  using assms write_file_Done [of n p c n'] fsync_file_Done [of n p c n'] by (auto simp: put_file_def split: if_splits)

text \<open>Writing one file keeps every path of the same depth writable.\<close>

lemma writable_put_file:
  assumes "wf_fs n" and "put_file fsync n p c = Done n'" and "length p = length q" and "writable n q"
  shows "writable n' q"
proof -
  obtain m where m: "m = n \<or> fs_mkdirs n (butlast p) = Some m" "fs_store m p c = Some n'"
    using put_file_cases [OF assms(2)] by blast
  have len: "length (butlast q) < length p" using assms(3,4) by (cases q) (auto simp: writable_def)
  have "fs_file n' r = None" if "prefix r (butlast q)" for r
  proof -
    have "r \<noteq> p" using that len by (auto dest: prefix_length_le)
    then have "fs_file n' r = fs_file n r" by (simp add: fput.put_find [OF assms(1,2)])
    with assms(4) fs_mkdirs_Some [of n "butlast q"] that show ?thesis by (auto simp: writable_def)
  qed
  then have "fs_mkdirs n' (butlast q) \<noteq> None" using fs_mkdirs_Some [of n' "butlast q"] by auto
  moreover have "\<not> prefix q (butlast p)"
    using len assms(3) by (auto dest!: prefix_length_le)
  then have "\<not> is_directory n' q"
    using m assms(4) fs_mkdirs_dirs fs_store_dirs [OF m(2)] by (auto simp: writable_def)
  ultimately show ?thesis using assms(4) by (simp add: writable_def)
qed

end
