(* ===== verification/File_Io.thy ===== *)
theory File_Io
  imports Storage_Serializer File_System
begin

text \<open>
  The file-based storage manager, \<^verbatim>\<open>storage/file_io_manager.cpp\<close>, on the directory layout of
  \<^verbatim>\<open>storage/include/path.hpp\<close>: a database is a directory of schema directories, a schema directory holds its
  meta file and its table directories, a table directory its meta file, a \<^verbatim>\<open>data\<close> directory with a file per
  page and an \<^verbatim>\<open>index\<close> directory with a file per index. Names are single path components.

  The state is the database name and the tree below the data directory. The database mutex is recursive and held
  for each whole operation, so operations are atomic. \<^verbatim>\<open>libuuid\<close>'s conversions between identifiers and
  strings are the parameter \<open>uuid_lib\<close>.
\<close>

section \<open>State and paths\<close>

record uuid_lib =
  uuid_unparse_lower :: "uuid \<Rightarrow> string"
  uuid_parse :: "string \<Rightarrow> uuid option"

text \<open>What the code relies on of libuuid: parsing is the inverse of printing.\<close>

definition uuid_lib_ok :: "uuid_lib \<Rightarrow> bool" where
  "uuid_lib_ok lib \<longleftrightarrow> (\<forall>u. uuid_parse lib (uuid_unparse_lower lib u) = Some u)"

record file_io =
  io_lib :: uuid_lib
  io_db_name :: string
  io_root :: fs_node

definition io_name :: "file_io \<Rightarrow> uuid \<Rightarrow> string" where
  "io_name io u = uuid_unparse_lower (io_lib io) u"

definition PATH_DATA :: string where "PATH_DATA = ''data''"

definition PATH_WAL :: string where "PATH_WAL = ''wal''"

definition PATH_INDEX :: string where "PATH_INDEX = ''index''"

definition make_meta_filename :: "string \<Rightarrow> string" where
  "make_meta_filename name = name @ ''.'' @ ''meta''"

definition path_db :: "string \<Rightarrow> path" where
  "path_db db_name = [db_name]"

definition path_db_meta :: "string \<Rightarrow> path" where
  "path_db_meta db_name = [db_name, make_meta_filename db_name]"

definition path_db_schema :: "string \<Rightarrow> string \<Rightarrow> path" where
  "path_db_schema db_name schema_name = [db_name, schema_name]"

definition path_db_schema_meta :: "string \<Rightarrow> string \<Rightarrow> path" where
  "path_db_schema_meta db_name schema_name = [db_name, schema_name, make_meta_filename schema_name]"

definition path_db_schema_table :: "string \<Rightarrow> string \<Rightarrow> string \<Rightarrow> path" where
  "path_db_schema_table db_name schema_name table_name = [db_name, schema_name, table_name]"

definition path_db_schema_table_meta :: "string \<Rightarrow> string \<Rightarrow> string \<Rightarrow> path" where
  "path_db_schema_table_meta db_name schema_name table_name =
     [db_name, schema_name, table_name, make_meta_filename table_name]"

definition path_db_schema_table_data :: "string \<Rightarrow> string \<Rightarrow> string \<Rightarrow> path" where
  "path_db_schema_table_data db_name schema_name table_name = [db_name, schema_name, table_name, PATH_DATA]"

definition path_db_schema_table_index :: "string \<Rightarrow> string \<Rightarrow> string \<Rightarrow> string \<Rightarrow> path" where
  "path_db_schema_table_index db_name schema_name table_name index_name =
     [db_name, schema_name, table_name, PATH_INDEX, index_name]"

lemmas path_defs = path_db_def path_db_meta_def path_db_schema_def path_db_schema_meta_def
  path_db_schema_table_def path_db_schema_table_meta_def path_db_schema_table_data_def
  path_db_schema_table_index_def PATH_DATA_def PATH_WAL_def PATH_INDEX_def

section \<open>Iteration\<close>

text \<open>
  The \<^verbatim>\<open>for_each\<close> functions yield the visited entries; no callback of the manager changes the tree. A table
  is visited as its schema name, its table name and the entries of its directory.
\<close>

definition io_init :: "file_io \<Rightarrow> file_io outcome" where
  "io_init io =
     (let p = path_db (io_db_name io)
      in if \<not> fs_exists (io_root io) p
         then obind (create_directories (io_root io) p) (\<lambda>root. Done (io\<lparr>io_root := root\<rparr>))
         else Done io)"

definition for_each_in_db :: "file_io \<Rightarrow> (string \<times> fs_node) list outcome" where
  "for_each_in_db io =
     (case fs_get (io_root io) (path_db (io_db_name io)) of
        Some (Dir es) \<Rightarrow> Done es
      | _ \<Rightarrow> Raised (RuntimeError ''filesystem error''))"

fun schema_entry :: "string \<times> fs_node \<Rightarrow> (string \<times> (string \<times> fs_node) list) list" where
  "schema_entry (s, File c) = []"
| "schema_entry (s, Dir es) = (if s = PATH_WAL then [] else [(s, es)])"

definition for_each_schema :: "file_io \<Rightarrow> (string \<times> (string \<times> fs_node) list) list outcome" where
  "for_each_schema io = obind (for_each_in_db io) (\<lambda>es. Done (concat (map schema_entry es)))"

type_synonym table_dir = "string \<times> string \<times> (string \<times> fs_node) list"

fun table_entry :: "string \<Rightarrow> string \<times> fs_node \<Rightarrow> table_dir list" where
  "table_entry s (t, File c) = []"
| "table_entry s (t, Dir es) = [(s, t, es)]"

definition for_each_table :: "file_io \<Rightarrow> table_dir list outcome" where
  "for_each_table io =
     obind (for_each_schema io) (\<lambda>ss. Done (concat (map (\<lambda>(s, es). concat (map (table_entry s) es)) ss)))"

text \<open>Decoding a file: a \<^verbatim>\<open>false\<close> of the deserialiser is turned into an exception.\<close>

definition decode_or :: "exn \<Rightarrow> 'a reader \<Rightarrow> byte list \<Rightarrow> 'a outcome" where
  "decode_or e rd content =
     (case rd (ro_new content) of
        Done (x, st) \<Rightarrow> Done x
      | Failed \<Rightarrow> Raised e
      | Raised e' \<Rightarrow> Raised e'
      | Undef \<Rightarrow> Undef)"

definition empty_schema :: meta_schema where
  "empty_schema = \<lparr>sc_id = 0, sc_name = [], sc_db_name = []\<rparr>"

definition empty_table :: meta_table where
  "empty_table = \<lparr>mt_id = 0, mt_schema_id = 0, mt_name = [], mt_columns = [], mt_indexes = [], mt_last_rid = 0,
     mt_total_rows = 0, mt_live_rows = 0\<rparr>"

text \<open>The uninitialised \<^verbatim>\<open>size\<close> of a fresh \<^verbatim>\<open>DataPage\<close> is overwritten by every reader below.\<close>

definition empty_page :: data_page where
  "empty_page = \<lparr>dp_id = 0, dp_next = 0, dp_table_id = 0, dp_min_rid = 0, dp_max_rid = 0, dp_rows_count = 0,
     dp_last_lsn = 0, dp_size = 0, dp_path = [], dp_rows = []\<rparr>"

definition empty_index_file :: index_file where
  "empty_index_file = \<lparr>if_index_id = 0, if_root_page = 0, if_last_page = 0, if_last_lsn = 0, if_pages = []\<rparr>"

section \<open>Schemas\<close>

definition read_schemas_meta :: "file_io \<Rightarrow> meta_schema list outcome" where
  "read_schemas_meta io =
     obind (for_each_schema io) (\<lambda>dirs.
     ofold (\<lambda>(s, es) schemas.
       ofold (\<lambda>(f, n) schemas.
         case n of
           Dir _ \<Rightarrow> Done schemas
         | File content \<Rightarrow>
             if make_meta_filename s \<noteq> f then Done schemas
             else obind (decode_or (RuntimeError ''FileIOManager::load_schemas: Error deserializing meta file: '')
                          (deserialize_ms empty_schema) content) (\<lambda>out. Done (schemas @ [out]))) es schemas) dirs [])"

definition read_schema_meta_by_name :: "file_io \<Rightarrow> string \<Rightarrow> meta_schema outcome" where
  "read_schema_meta_by_name io target_schema =
     obind (for_each_schema io) (\<lambda>dirs.
     obind (ofold (\<lambda>(s, es) schema.
       if s = target_schema then
         obind (read_file (io_root io) (path_db_schema_meta (io_db_name io) s)) (\<lambda>content.
         decode_or (RuntimeError ''FileIOManager::load_schemas: Error deserializing meta file: '')
           (deserialize_ms schema) content)
       else Done schema) dirs empty_schema) (\<lambda>schema.
     if schema = empty_schema then Raised (RuntimeError ''FileIOManager::load_schemas: Schema  not found'')
     else Done schema))"

definition read_schema_meta :: "file_io \<Rightarrow> uuid \<Rightarrow> meta_schema outcome" where
  "read_schema_meta io schema_id =
     obind (for_each_schema io) (\<lambda>dirs.
     obind (ofold (\<lambda>(s, es) schema.
       obind (read_file (io_root io) (path_db_schema_meta (io_db_name io) s)) (\<lambda>content.
       obind (decode_or (RuntimeError ''FileIOManager::load_schema_meta: Error deserializing meta file: '')
               (deserialize_ms empty_schema) content) (\<lambda>deserialized.
       Done (if sc_id deserialized = schema_id then deserialized else schema)))) dirs empty_schema) (\<lambda>schema.
     if sc_id schema \<noteq> schema_id
     then Raised (RuntimeError ''FileIOManager::load_schema_meta: Failed to find schema with id '')
     else Done schema))"

definition write_ms :: "file_io \<Rightarrow> meta_schema \<Rightarrow> bool \<Rightarrow> file_io outcome" where
  "write_ms io schema fsync =
     (let p = path_db_schema_meta (io_db_name io) (sc_name schema);
          serialized = ms_buffer (serialize_ms schema)
      in obind (put_file fsync (io_root io) p serialized)
           (\<lambda>root. Done (io\<lparr>io_root := root\<rparr>)))"

definition delete_ms :: "file_io \<Rightarrow> meta_schema \<Rightarrow> file_io" where
  "delete_ms io schema =
     io\<lparr>io_root := fs_remove (io_root io) (path_db_schema (io_db_name io) (sc_name schema))\<rparr>"

definition exists_schema :: "file_io \<Rightarrow> string \<Rightarrow> bool" where
  "exists_schema io schema_name =
     (let p = path_db_schema_meta (io_db_name io) schema_name
      in fs_exists (io_root io) p \<and> is_regular_file (io_root io) p)"

definition exists_db :: "file_io \<Rightarrow> string \<Rightarrow> bool" where
  "exists_db io name = (let p = path_db name in fs_exists (io_root io) p \<and> is_directory (io_root io) p)"

definition write_cfg :: "file_io \<Rightarrow> config \<Rightarrow> file_io outcome" where
  "write_cfg io cfg =
     (case cfg_db_name cfg of
        None \<Rightarrow> Raised (RuntimeError ''bad_optional_access'')
      | Some name \<Rightarrow>
          obind (write_file (io_root io) (path_db_meta name) (ms_buffer (serialize_cfg cfg)))
            (\<lambda>root. Done (io\<lparr>io_root := root\<rparr>)))"

section \<open>Tables\<close>

definition exists_table_file :: "file_io \<Rightarrow> string \<Rightarrow> string \<Rightarrow> bool" where
  "exists_table_file io table_name schema_name =
     fs_exists (io_root io) (path_db_schema_table_meta (io_db_name io) schema_name table_name)"

definition read_tables_meta :: "file_io \<Rightarrow> meta_table list outcome" where
  "read_tables_meta io =
     obind (for_each_table io) (\<lambda>dirs.
     ofold (\<lambda>(s, t, es) tables.
       ofold (\<lambda>(f, n) tables.
         case n of
           Dir _ \<Rightarrow> Done tables
         | File content \<Rightarrow>
             if make_meta_filename t \<noteq> f then Done tables
             else obind (decode_or (RuntimeError ''FileIOManager::load_tables: Error deserializing meta file: '')
                          (deserialize_mt empty_table) content) (\<lambda>out. Done (tables @ [out]))) es tables) dirs [])"

text \<open>The meta file of a table directory, for the loops that look it up by name.\<close>

definition table_meta_file :: "table_dir \<Rightarrow> byte list option" where
  "table_meta_file dir =
     (case dir of (s, t, es) \<Rightarrow>
       (case map_of es (make_meta_filename t) of Some (File content) \<Rightarrow> Some content | _ \<Rightarrow> None))"

fun find_table_meta :: "uuid \<Rightarrow> table_dir list \<Rightarrow> meta_table option outcome" where
  "find_table_meta table_id [] = Done None"
| "find_table_meta table_id (dir # dirs) =
     (case table_meta_file dir of
        None \<Rightarrow> find_table_meta table_id dirs
      | Some content \<Rightarrow>
          obind (decode_or (RuntimeError ''FileIOManager::read_table_meta: failed to deserialize meta table '')
                  (deserialize_mt empty_table) content) (\<lambda>table.
          if mt_id table = table_id then Done (Some table) else find_table_meta table_id dirs))"

definition read_table_meta :: "file_io \<Rightarrow> uuid \<Rightarrow> meta_table outcome" where
  "read_table_meta io table_id =
     obind (for_each_table io) (\<lambda>dirs.
     obind (find_table_meta table_id dirs) (\<lambda>result.
     case result of
       Some table \<Rightarrow> Done table
     | None \<Rightarrow> Raised (RuntimeError ''FileIOManager::read_table_meta: table with id  not found'')))"

definition read_table_meta_by_name :: "file_io \<Rightarrow> string \<Rightarrow> string \<Rightarrow> meta_table outcome" where
  "read_table_meta_by_name io table_name schema_name =
     obind (read_file (io_root io) (path_db_schema_table_meta (io_db_name io) schema_name table_name))
       (decode_or (RuntimeError ''FileIOManager::load_table_meta: Error deserializing meta table '')
         (deserialize_mt empty_table))"

definition write_mt_in :: "file_io \<Rightarrow> meta_table \<Rightarrow> string \<Rightarrow> bool \<Rightarrow> file_io outcome" where
  "write_mt_in io table schema_name fsync =
     (let p = path_db_schema_table_meta (io_db_name io) schema_name (mt_name table);
          serialized = ms_buffer (serialize_mt table)
      in obind (put_file fsync (io_root io) p serialized)
           (\<lambda>root. Done (io\<lparr>io_root := root\<rparr>)))"

definition write_mt :: "file_io \<Rightarrow> meta_table \<Rightarrow> bool \<Rightarrow> file_io outcome" where
  "write_mt io table fsync =
     obind (read_schema_meta io (mt_schema_id table)) (\<lambda>schema. write_mt_in io table (sc_name schema) fsync)"

definition delete_mt :: "file_io \<Rightarrow> meta_table \<Rightarrow> file_io outcome" where
  "delete_mt io table =
     obind (read_schema_meta io (mt_schema_id table)) (\<lambda>schema.
     Done (io\<lparr>io_root :=
       fs_remove (io_root io) (path_db_schema_table (io_db_name io) (sc_name schema) (mt_name table))\<rparr>))"

section \<open>Data pages\<close>

definition load_page :: "string \<Rightarrow> path \<Rightarrow> byte list \<Rightarrow> data_page outcome" where
  "load_page msg p content =
     obind (decode_or (RuntimeError msg) (deserialize_dp empty_page) content) (\<lambda>page.
     Done (page\<lparr>dp_path := p, dp_size := word_of_nat (length content)\<rparr>))"

text \<open>
  The files of a table's \<^verbatim>\<open>data\<close> directory. The directory is created when it is missing; the pages are then
  read from a directory that is empty.
\<close>

definition for_each_in_table_data ::
    "file_io \<Rightarrow> string \<Rightarrow> string \<Rightarrow> (file_io \<times> (string \<times> fs_node) list) outcome" where
  "for_each_in_table_data io schema_name table_name =
     (let p = path_db_schema_table_data (io_db_name io) schema_name table_name
      in case fs_get (io_root io) p of
           None \<Rightarrow> obind (create_directories (io_root io) p) (\<lambda>root. Done (io\<lparr>io_root := root\<rparr>, []))
         | Some (File c) \<Rightarrow> Raised (RuntimeError ''filesystem error'')
         | Some (Dir es) \<Rightarrow> Done (io, filter (\<lambda>(f, n). is_file n) es))"

definition read_table_data :: "file_io \<Rightarrow> string \<Rightarrow> string \<Rightarrow> (file_io \<times> data_page list) outcome" where
  "read_table_data io table_name schema_name =
     obind (for_each_in_table_data io schema_name table_name) (\<lambda>(io', es).
     obind (ofold (\<lambda>(f, n) pages.
       let p = path_db_schema_table_data (io_db_name io) schema_name table_name @ [f]
       in obind (read_file (io_root io') p) (\<lambda>content.
          obind (load_page ''FileIoManager::load_table_data: failed to deserialize data page '' p content)
            (\<lambda>page. Done (pages @ [page])))) es []) (\<lambda>pages.
     Done (io', pages)))"

fun find_data_page :: "file_io \<Rightarrow> uuid \<Rightarrow> table_dir list \<Rightarrow> data_page option outcome" where
  "find_data_page io pid [] = Done None"
| "find_data_page io pid ((s, t, es) # dirs) =
     (case map_of es PATH_DATA of
        Some (Dir ds) \<Rightarrow>
          (case find (\<lambda>(f, n). is_file n \<and> f = io_name io pid) ds of
             Some (f, File content) \<Rightarrow>
               obind (load_page ''FileIOManager::load_data_page: failed to deserialize data page ''
                       (path_db_schema_table_data (io_db_name io) s t @ [f]) content) (\<lambda>page.
               if dp_id page \<noteq> pid then Raised (RuntimeError ''FileIOManager::load_data_page: page id mismatch for '')
               else Done (Some page))
           | _ \<Rightarrow> find_data_page io pid dirs)
      | _ \<Rightarrow> find_data_page io pid dirs)"

definition read_data_page :: "file_io \<Rightarrow> uuid \<Rightarrow> data_page option outcome" where
  "read_data_page io pid = obind (for_each_table io) (find_data_page io pid)"

definition write_page :: "file_io \<Rightarrow> data_page \<Rightarrow> bool \<Rightarrow> file_io outcome" where
  "write_page io page fsync =
     (let serialized = ms_buffer (serialize_dp page)
      in obind (put_file fsync (io_root io) (dp_path page) serialized) (\<lambda>root. Done (io\<lparr>io_root := root\<rparr>)))"

definition create_page :: "file_io \<Rightarrow> meta_table \<Rightarrow> uuid \<Rightarrow> data_page outcome" where
  "create_page io mt page_id =
     obind (read_schema_meta io (mt_schema_id mt)) (\<lambda>schema.
     Done (data_page_make (io_name io) (path_db_schema_table_data (io_db_name io) (sc_name schema) (mt_name mt))
       (mt_id mt) page_id))"

text \<open>The identifiers named by the files of a directory: a name that is not a UUID throws.\<close>

fun file_ids :: "file_io \<Rightarrow> (string \<times> fs_node) list \<Rightarrow> uuid list outcome" where
  "file_ids io [] = Done []"
| "file_ids io ((f, n) # es) =
     (if \<not> is_file n then file_ids io es
      else case uuid_parse (io_lib io) f of
             None \<Rightarrow> Raised (InvalidArgument ''Invalid UUID string: '')
           | Some u \<Rightarrow> obind (file_ids io es) (\<lambda>us. Done (u # us)))"

text \<open>\<^verbatim>\<open>map_data_pages_for_table\<close> and \<^verbatim>\<open>map_index_files_for_table\<close> differ in the directory only.\<close>

definition map_files :: "file_io \<Rightarrow> string \<Rightarrow> (uuid \<rightharpoonup> uuid list) outcome" where
  "map_files io sub =
     obind (for_each_table io) (\<lambda>dirs.
     ofold (\<lambda>dir result.
       case table_meta_file dir of
         None \<Rightarrow> Done result
       | Some content \<Rightarrow>
           obind (decode_or (RuntimeError ''FileIOManager::map_tables_pages: failed to deserialize meta table '')
                   (deserialize_mt empty_table) content) (\<lambda>table.
           case map_of (snd (snd dir)) sub of
             Some (Dir ds) \<Rightarrow> obind (file_ids io ds) (\<lambda>ids. Done (result(mt_id table \<mapsto> ids)))
           | _ \<Rightarrow> Done result)) dirs Map.empty)"

definition map_data_pages_for_table :: "file_io \<Rightarrow> (uuid \<rightharpoonup> uuid list) outcome" where
  "map_data_pages_for_table io = map_files io PATH_DATA"

definition map_index_files_for_table :: "file_io \<Rightarrow> (uuid \<rightharpoonup> uuid list) outcome" where
  "map_index_files_for_table io = map_files io PATH_INDEX"

section \<open>Index files\<close>

definition empty_root :: "uuid \<Rightarrow> index_page" where
  "empty_root index_id = \<lparr>ip_id = 1, ip_parent = 0, ip_index_id = index_id, ip_is_leaf = True,
     ip_data = LeafIndexNode [] [] 0\<rparr>"

definition create_index_file :: "file_io \<Rightarrow> string \<Rightarrow> string \<Rightarrow> meta_index \<Rightarrow> (file_io \<times> index_file) outcome" where
  "create_index_file io schema_name table_name mi =
     (let root = empty_root (mi_id mi);
          file = empty_index_file\<lparr>if_index_id := mi_id mi, if_root_page := ip_id root, if_last_page := ip_id root,
                   if_pages := [root]\<rparr>;
          content = ms_buffer (serialize_if file);
          p = path_db_schema_table_index (io_db_name io) schema_name table_name (io_name io (mi_id mi))
      in obind (create_directories (io_root io) (butlast p)) (\<lambda>fs.
         obind (write_file fs p content) (\<lambda>fs. Done (io\<lparr>io_root := fs\<rparr>, file))))"

text \<open>\<^verbatim>\<open>table_dir / PATH_INDEX / name\<close>, if it is a regular file.\<close>

definition index_file_in :: "table_dir \<Rightarrow> string \<Rightarrow> byte list option" where
  "index_file_in dir name = (case dir of (s, t, es) \<Rightarrow> fs_file (Dir es) [PATH_INDEX, name])"

fun find_index_file :: "file_io \<Rightarrow> uuid \<Rightarrow> table_dir list \<Rightarrow> index_file option outcome" where
  "find_index_file io index_id [] = Done None"
| "find_index_file io index_id (dir # dirs) =
     (case index_file_in dir (io_name io index_id) of
        None \<Rightarrow> find_index_file io index_id dirs
      | Some content \<Rightarrow>
          obind (decode_or (RuntimeError ''FileIOManager::read_index_file: failed to deserialize index file '')
                  (deserialize_if empty_index_file) content) (\<lambda>file.
          if if_index_id file \<noteq> index_id
          then Raised (RuntimeError ''FileIOManager::read_index_file: index id mismatch for '')
          else Done (Some file)))"

definition read_index_file :: "file_io \<Rightarrow> uuid \<Rightarrow> index_file option outcome" where
  "read_index_file io index_id = obind (for_each_table io) (find_index_file io index_id)"

definition write_index_file :: "file_io \<Rightarrow> index_file \<Rightarrow> bool \<Rightarrow> file_io outcome" where
  "write_index_file io index_file fsync =
     obind (for_each_table io) (\<lambda>dirs.
     case find (\<lambda>dir. index_file_in dir (io_name io (if_index_id index_file)) \<noteq> None) dirs of
       None \<Rightarrow> Raised (RuntimeError ''FileIOManager::write_index_file: index file with id  not found'')
     | Some (s, t, es) \<Rightarrow>
         obind (write_file (io_root io)
                 (path_db_schema_table_index (io_db_name io) s t (io_name io (if_index_id index_file)))
                 (ms_buffer (serialize_if index_file)))
           (\<lambda>root. Done (io\<lparr>io_root := root\<rparr>)))"

section \<open>Enumerating tables\<close>

definition io_ok :: "file_io \<Rightarrow> bool" where
  "io_ok io \<longleftrightarrow> wf_fs (io_root io) \<and> uuid_lib_ok (io_lib io) \<and> is_directory (io_root io) (path_db (io_db_name io))"

lemma io_name_inj [simp]: "uuid_lib_ok (io_lib io) \<Longrightarrow> io_name io u = io_name io v \<longleftrightarrow> u = v"
  unfolding uuid_lib_ok_def io_name_def by (metis option.inject)

lemma for_each_in_db_Done:
  "io_ok io \<Longrightarrow> \<exists>es. for_each_in_db io = Done es \<and> fs_get (io_root io) [io_db_name io] = Some (Dir es) \<and> wf_fs (Dir es)"
  by (auto simp: io_ok_def for_each_in_db_def is_directory_def path_db_def dest: wf_fs_get
      split: option.splits elim: is_file.elims simp del: wf_fs.simps)
    (metis fs_node.exhaust fs_node.simps(6) is_file.simps(1) wf_fs_get)

lemma for_each_table_Done: "io_ok io \<Longrightarrow> \<exists>dirs. for_each_table io = Done dirs"
  by (auto simp: for_each_table_def for_each_schema_def dest!: for_each_in_db_Done)

lemma concat_map_pair:
  "z \<in> set (concat (map (\<lambda>(x, y). f x y) xs)) \<longleftrightarrow> (\<exists>x y. (x, y) \<in> set xs \<and> z \<in> set (f x y))"
  by auto

lemma fs_get_two:
  "fs_get (Dir es) [s, t] = Some n \<longleftrightarrow> (\<exists>ts. map_of es s = Some (Dir ts) \<and> map_of ts t = Some n)"
proof (cases "map_of es s")
  case (Some m)
  then show ?thesis by (cases m) (auto split: option.splits)
qed simp

lemma schema_entry_mem [simp]: "(s, ts) \<in> set (schema_entry e) \<longleftrightarrow> e = (s, Dir ts) \<and> s \<noteq> PATH_WAL"
  by (cases e rule: schema_entry.cases) auto

lemma table_entry_mem [simp]: "(s, t, ds) \<in> set (table_entry s' e) \<longleftrightarrow> e = (t, Dir ds) \<and> s = s'"
  by (cases e; cases "snd e") auto

text \<open>The tables visited are the directories two levels below the database.\<close>

lemma for_each_table_mem:
  assumes "io_ok io" and "for_each_table io = Done dirs"
  shows "(s, t, ds) \<in> set dirs \<longleftrightarrow> s \<noteq> PATH_WAL \<and> fs_get (io_root io) [io_db_name io, s, t] = Some (Dir ds)"
proof -
  obtain es where es: "for_each_in_db io = Done es" "fs_get (io_root io) [io_db_name io] = Some (Dir es)" "wf_fs (Dir es)"
    using for_each_in_db_Done [OF assms(1)] by blast
  have get: "fs_get (io_root io) [io_db_name io, s, t] = fs_get (Dir es) [s, t]"
    using fs_get_append [of "io_root io" "[io_db_name io]" "[s, t]"] es(2) by simp
  have dirs: "dirs = concat (map (\<lambda>(s, ts). concat (map (table_entry s) ts)) (concat (map schema_entry es)))"
    using assms(2) es(1) by (simp add: for_each_table_def for_each_schema_def)
  have schema: "(s, ts) \<in> set (concat (map schema_entry es)) \<longleftrightarrow> s \<noteq> PATH_WAL \<and> map_of es s = Some (Dir ts)" for s ts
    using es(3) by (auto simp: map_of_eq_Some_iff)
  have table: "(s, t, ds) \<in> set (concat (map (table_entry s') ts)) \<longleftrightarrow> s = s' \<and> map_of ts t = Some (Dir ds)"
    if "distinct (map fst ts)" for s' ts
    using that by (auto simp: map_of_eq_Some_iff)
  have wf: "distinct (map fst ts)" if "map_of es s' = Some (Dir ts)" for s' ts
    using wf_fs_map_of [OF es(3) that] by simp
  have each: "(s', ts) \<in> set (concat (map schema_entry es)) \<and> (s, t, ds) \<in> set (concat (map (table_entry s') ts)) \<longleftrightarrow>
    s' = s \<and> s' \<noteq> PATH_WAL \<and> map_of es s' = Some (Dir ts) \<and> map_of ts t = Some (Dir ds)" for s' ts
    unfolding schema using table [OF wf, of s' ts s'] by (cases "map_of es s' = Some (Dir ts)") auto
  have "(s, t, ds) \<in> set dirs \<longleftrightarrow>
    (\<exists>s' ts. (s', ts) \<in> set (concat (map schema_entry es)) \<and> (s, t, ds) \<in> set (concat (map (table_entry s') ts)))"
    unfolding dirs by (rule concat_map_pair)
  also have "\<dots> \<longleftrightarrow> s \<noteq> PATH_WAL \<and> (\<exists>ts. map_of es s = Some (Dir ts) \<and> map_of ts t = Some (Dir ds))"
    unfolding each by auto
  also have "\<dots> \<longleftrightarrow> s \<noteq> PATH_WAL \<and> fs_get (Dir es) [s, t] = Some (Dir ds)"
    by (simp only: fs_get_two)
  finally show ?thesis unfolding get .
qed

section \<open>The page store\<close>

definition page_file :: "file_io \<Rightarrow> string \<Rightarrow> string \<Rightarrow> uuid \<Rightarrow> byte list option" where
  "page_file io s t pid = fs_file (io_root io) [io_db_name io, s, t, PATH_DATA, io_name io pid]"

text \<open>The store's invariant: a page is kept in one table directory only.\<close>

definition store_ok :: "file_io \<Rightarrow> bool" where
  "store_ok io \<longleftrightarrow> io_ok io \<and>
     (\<forall>pid s t s' t'. s \<noteq> PATH_WAL \<longrightarrow> s' \<noteq> PATH_WAL \<longrightarrow>
        page_file io s t pid \<noteq> None \<longrightarrow> page_file io s' t' pid \<noteq> None \<longrightarrow> s = s' \<and> t = t')"

lemma find_file:
  "distinct (map fst ds) \<Longrightarrow>
   find (\<lambda>(f, n). is_file n \<and> f = x) ds = (case map_of ds x of Some (File c) \<Rightarrow> Some (x, File c) | _ \<Rightarrow> None)"
proof (induction ds)
  case (Cons e ds)
  obtain f n where e: "e = (f, n)" by (cases e)
  show ?case
  proof (cases "f = x")
    case True
    then have "map_of ds x = None" using Cons.prems e by (auto simp: map_of_eq_None_iff)
    with Cons True e show ?thesis by (cases n) auto
  next
    case False
    with Cons e show ?thesis by auto
  qed
qed simp

text \<open>The page of a file, with the check of its identifier.\<close>

definition page_at :: "file_io \<Rightarrow> string \<Rightarrow> string \<Rightarrow> uuid \<Rightarrow> byte list \<Rightarrow> data_page option outcome" where
  "page_at io s t pid content =
     obind (load_page ''FileIOManager::load_data_page: failed to deserialize data page ''
             (path_db_schema_table_data (io_db_name io) s t @ [io_name io pid]) content) (\<lambda>page.
     if dp_id page \<noteq> pid then Raised (RuntimeError ''FileIOManager::load_data_page: page id mismatch for '')
     else Done (Some page))"

lemma find_data_page_step:
  assumes "wf_fs (Dir es)"
  shows "find_data_page io pid ((s, t, es) # dirs) =
    (case fs_file (Dir es) [PATH_DATA, io_name io pid] of
       None \<Rightarrow> find_data_page io pid dirs
     | Some content \<Rightarrow> page_at io s t pid content)"
proof (cases "map_of es PATH_DATA")
  case (Some m)
  show ?thesis
  proof (cases m)
    case (Dir ds)
    with Some wf_fs_map_of [OF assms Some] have "distinct (map fst ds)" by simp
    then show ?thesis
      using Some Dir by (auto simp: find_file fs_file_Dir page_at_def split: option.splits fs_node.splits)
  qed (use Some in \<open>simp add: fs_file_Dir\<close>)
qed (simp add: fs_file_Dir)

lemma find_data_page_none:
  "\<forall>(s, t, es) \<in> set dirs. wf_fs (Dir es) \<and> fs_file (Dir es) [PATH_DATA, io_name io pid] = None \<Longrightarrow>
   find_data_page io pid dirs = Done None"
  by (induction dirs) (auto simp: find_data_page_step simp del: find_data_page.simps(2) wf_fs.simps)

lemma find_data_page_some:
  assumes "\<forall>(s, t, es) \<in> set dirs. wf_fs (Dir es)" and "(s, t, es) \<in> set dirs"
    and "fs_file (Dir es) [PATH_DATA, io_name io pid] = Some c"
    and "\<And>s' t' es'. (s', t', es') \<in> set dirs \<Longrightarrow> fs_file (Dir es') [PATH_DATA, io_name io pid] \<noteq> None \<Longrightarrow>
      s' = s \<and> t' = t \<and> es' = es"
  shows "find_data_page io pid dirs = page_at io s t pid c"
  using assms
proof (induction dirs)
  case (Cons d dirs)
  obtain s' t' es' where d: "d = (s', t', es')" by (cases d)
  have wf: "wf_fs (Dir es')" using Cons.prems(1) d by (simp del: wf_fs.simps)
  show ?case
  proof (cases "fs_file (Dir es') [PATH_DATA, io_name io pid]")
    case None
    then have "(s, t, es) \<in> set dirs" using Cons.prems(2,3) d by auto
    moreover have "\<forall>(s, t, es) \<in> set dirs. wf_fs (Dir es)" using Cons.prems(1) by (simp del: wf_fs.simps)
    ultimately have "find_data_page io pid dirs = page_at io s t pid c"
      using Cons.IH Cons.prems(3,4) by (meson list.set_intros(2))
    with None show ?thesis unfolding d find_data_page_step [OF wf] by simp
  next
    case (Some c')
    then have "s' = s \<and> t' = t \<and> es' = es" using Cons.prems(4) [of s' t' es'] d by simp
    with Some Cons.prems(3) show ?thesis unfolding d find_data_page_step [OF wf] by simp
  qed
qed simp

lemma page_file_dir:
  "fs_get (io_root io) [io_db_name io, s, t] = Some (Dir es) \<Longrightarrow>
   page_file io s t pid = fs_file (Dir es) [PATH_DATA, io_name io pid]"
  using fs_get_append [of "io_root io" "[io_db_name io, s, t]" "[PATH_DATA, io_name io pid]"]
  by (simp add: page_file_def fs_file_def)

lemma page_file_in_dir:
  assumes "page_file io s t pid = Some c"
  shows "\<exists>es. fs_get (io_root io) [io_db_name io, s, t] = Some (Dir es)"
proof -
  have "fs_get (io_root io) ([io_db_name io, s, t] @ [PATH_DATA, io_name io pid]) = Some (File c)"
    using assms by (simp add: page_file_def fs_file_get)
  then obtain m where "fs_get (io_root io) [io_db_name io, s, t] = Some m" "fs_get m [PATH_DATA, io_name io pid] = Some (File c)"
    unfolding fs_get_append by (auto split: option.splits)
  then show ?thesis by (cases m) auto
qed

lemma table_dirs_wf:
  assumes "io_ok io" and "for_each_table io = Done dirs"
  shows "\<forall>(s, t, es) \<in> set dirs. wf_fs (Dir es)"
proof safe
  fix s t es assume "(s, t, es) \<in> set dirs"
  then have "fs_get (io_root io) [io_db_name io, s, t] = Some (Dir es)" using for_each_table_mem [OF assms] by blast
  then show "wf_fs (Dir es)" using wf_fs_get assms(1) unfolding io_ok_def by blast
qed

lemma read_data_page_none:
  assumes "io_ok io" and "\<And>s t. s \<noteq> PATH_WAL \<Longrightarrow> page_file io s t pid = None"
  shows "read_data_page io pid = Done None"
proof -
  obtain dirs where dirs: "for_each_table io = Done dirs" using for_each_table_Done [OF assms(1)] by blast
  have "find_data_page io pid dirs = Done None"
  proof (rule find_data_page_none, safe)
    fix s t es assume e: "(s, t, es) \<in> set dirs"
    then show "wf_fs (Dir es)" using table_dirs_wf [OF assms(1) dirs] by blast
    from e for_each_table_mem [OF assms(1) dirs] assms(2) page_file_dir
    show "fs_file (Dir es) [PATH_DATA, io_name io pid] = None" by metis
  qed
  with dirs show ?thesis by (simp add: read_data_page_def)
qed

lemma read_data_page_some:
  assumes "store_ok io" and "s \<noteq> PATH_WAL" and "page_file io s t pid = Some c"
  shows "read_data_page io pid = page_at io s t pid c"
proof -
  have io: "io_ok io" using assms(1) by (simp add: store_ok_def)
  obtain dirs where dirs: "for_each_table io = Done dirs" using for_each_table_Done [OF io] by blast
  note mem = for_each_table_mem [OF io dirs]
  obtain es where es: "fs_get (io_root io) [io_db_name io, s, t] = Some (Dir es)"
    using page_file_in_dir [OF assms(3)] by blast
  have "find_data_page io pid dirs = page_at io s t pid c"
  proof (rule find_data_page_some [OF table_dirs_wf [OF io dirs], of s t es])
    show "(s, t, es) \<in> set dirs" using mem assms(2) es by blast
    show "fs_file (Dir es) [PATH_DATA, io_name io pid] = Some c" using page_file_dir [OF es] assms(3) by simp
    fix s' t' es' assume d: "(s', t', es') \<in> set dirs" "fs_file (Dir es') [PATH_DATA, io_name io pid] \<noteq> None"
    then have d': "s' \<noteq> PATH_WAL" "fs_get (io_root io) [io_db_name io, s', t'] = Some (Dir es')" using mem by blast+
    then have "page_file io s' t' pid \<noteq> None" using page_file_dir d(2) by metis
    then have "s' = s \<and> t' = t" using assms d'(1) unfolding store_ok_def by (metis option.distinct(1))
    with d'(2) es show "s' = s \<and> t' = t \<and> es' = es" by simp
  qed
  with dirs show ?thesis by (simp add: read_data_page_def)
qed

text \<open>A page whose path is the one \<^verbatim>\<open>create_page\<close> gives it and that no other table holds.\<close>

definition page_home :: "file_io \<Rightarrow> data_page \<Rightarrow> string \<Rightarrow> string \<Rightarrow> bool" where
  "page_home io p s t \<longleftrightarrow> s \<noteq> PATH_WAL \<and>
     dp_path p = path_db_schema_table_data (io_db_name io) s t @ [io_name io (dp_id p)] \<and>
     (\<forall>s' t'. s' \<noteq> PATH_WAL \<longrightarrow> page_file io s' t' (dp_id p) \<noteq> None \<longrightarrow> s' = s \<and> t' = t)"

lemma write_page_Done:
  assumes "io_ok io" and "write_page io p fsync = Done io'" and "page_home io p s t"
  shows "io_ok io'" and "io_db_name io' = io_db_name io" and "io_lib io' = io_lib io"
    and "page_file io' s' t' pid =
      (if s' = s \<and> t' = t \<and> pid = dp_id p then Some (ms_buffer (serialize_dp p)) else page_file io s' t' pid)"
proof -
  obtain r where r: "put_file fsync (io_root io) (dp_path p) (ms_buffer (serialize_dp p)) = Done r"
    and io': "io' = io\<lparr>io_root := r\<rparr>"
    using assms(2) by (auto simp: write_page_def obind_Done_conv)
  have wf: "wf_fs (io_root io)" and lib: "uuid_lib_ok (io_lib io)" using assms(1) by (simp_all add: io_ok_def)
  show "io_ok io'"
    using assms(1) fput.put_ok [OF wf r] put_file_keeps_dir [OF r] by (simp add: io_ok_def io')
  show "io_db_name io' = io_db_name io" and "io_lib io' = io_lib io" by (simp_all add: io')
  have "io_name io' = io_name io" by (rule ext) (simp add: io' io_name_def)
  with fput.put_find [OF wf r] assms(3) lib
  show "page_file io' s' t' pid =
    (if s' = s \<and> t' = t \<and> pid = dp_id p then Some (ms_buffer (serialize_dp p)) else page_file io s' t' pid)"
    by (auto simp: page_file_def io' page_home_def path_db_schema_table_data_def)
qed

lemma write_page_store_ok:
  assumes "store_ok io" and "write_page io p fsync = Done io'" and "page_home io p s t"
  shows "store_ok io'"
proof -
  have io: "io_ok io" using assms(1) by (simp add: store_ok_def)
  note w = write_page_Done [OF io assms(2,3)]
  have home: "s' = s \<and> t' = t" if "s' \<noteq> PATH_WAL" "page_file io' s' t' (dp_id p) \<noteq> None" for s' t'
    using that w(4) [of s' t' "dp_id p"] assms(3) unfolding page_home_def by metis
  have "s1 = s2 \<and> t1 = t2"
    if "s1 \<noteq> PATH_WAL" "s2 \<noteq> PATH_WAL" "page_file io' s1 t1 pid \<noteq> None" "page_file io' s2 t2 pid \<noteq> None"
    for pid s1 t1 s2 t2
  proof (cases "pid = dp_id p")
    case True
    with home [of s1 t1] home [of s2 t2] that show ?thesis by simp
  next
    case False
    then have "page_file io s1 t1 pid \<noteq> None" "page_file io s2 t2 pid \<noteq> None"
      using that(3,4) w(4) by simp_all
    with assms(1) that(1,2) show ?thesis unfolding store_ok_def by blast
  qed
  with w(1) show ?thesis unfolding store_ok_def by blast
qed

lemma page_at_written:
  assumes "ok_vec 40 (dp_rows p)" and "list_all ok_dr (dp_rows p)" and "length (ms_buffer (serialize_dp p)) \<le> max_alloc"
    and "dp_path p = path_db_schema_table_data (io_db_name io) s t @ [io_name io (dp_id p)]"
  shows "page_at io s t (dp_id p) (ms_buffer (serialize_dp p)) =
    Done (Some (p\<lparr>dp_rows_count := word_of_nat (length (dp_rows p)),
      dp_size := word_of_nat (length (ms_buffer (serialize_dp p)))\<rparr>))"
proof -
  let ?p = "p\<lparr>dp_rows_count := word_of_nat (length (dp_rows p)), dp_size := 0, dp_path := []\<rparr>"
  have "ok_dp empty_page ?p" using assms(1,2) by (simp add: ok_dp_def empty_page_def)
  then have "decode_or e (deserialize_dp empty_page) (ms_buffer (serialize_dp p)) = Done ?p" for e
    using dp.decode [of empty_page ?p "[]"] assms(3) by (simp add: decode_or_def)
  then show ?thesis
    by (simp add: page_at_def load_page_def assms(4) [symmetric])
qed

text \<open>What a reader finds depends on the page files only.\<close>

lemma read_data_page_cong:
  assumes "store_ok io" and "store_ok io'" and "io_db_name io' = io_db_name io" and "io_lib io' = io_lib io"
    and same: "\<And>s t. page_file io' s t q = page_file io s t q"
  shows "read_data_page io' q = read_data_page io q"
proof (cases "\<exists>s t c. s \<noteq> PATH_WAL \<and> page_file io s t q = Some c")
  case True
  then obtain s t c where c: "s \<noteq> PATH_WAL" "page_file io s t q = Some c" by blast
  then have "page_file io' s t q = Some c" using same by simp
  from read_data_page_some [OF assms(2) c(1) this] have "read_data_page io' q = page_at io' s t q c" .
  moreover have "page_at io' s t q c = page_at io s t q c" using assms(3,4) by (simp add: page_at_def io_name_def)
  ultimately show ?thesis using read_data_page_some [OF assms(1) c] by simp
next
  case False
  have none: "page_file io s t q = None" if "s \<noteq> PATH_WAL" for s t
    using False that by (cases "page_file io s t q") auto
  then have "\<And>s t. s \<noteq> PATH_WAL \<Longrightarrow> page_file io' s t q = None" unfolding same by blast
  from read_data_page_none [OF _ this] have "read_data_page io' q = Done None" using assms(2) by (simp add: store_ok_def)
  moreover have "read_data_page io q = Done None" using read_data_page_none [OF _ none] assms(1) by (simp add: store_ok_def)
  ultimately show ?thesis by (rule trans [OF _ sym])
qed

lemma read_data_page_frame:
  assumes "store_ok io" and "write_page io p fsync = Done io'" and "page_home io p s t" and "q \<noteq> dp_id p"
  shows "read_data_page io' q = read_data_page io q"
proof -
  have io: "io_ok io" using assms(1) by (simp add: store_ok_def)
  note w = write_page_Done [OF io assms(2,3)]
  show ?thesis
    by (rule read_data_page_cong [OF assms(1) write_page_store_ok [OF assms(1-3)] w(2,3)]) (use w(4) assms(4) in simp)
qed

text \<open>What a page is when it is read back: the row count and the size are those of the file.\<close>

definition stored_page :: "data_page \<Rightarrow> data_page" where
  "stored_page p = p\<lparr>dp_rows_count := word_of_nat (length (dp_rows p)),
     dp_size := word_of_nat (length (ms_buffer (serialize_dp p)))\<rparr>"

lemma stored_page_sel [simp]:
  "dp_id (stored_page p) = dp_id p" "dp_rows (stored_page p) = dp_rows p"
  "dp_last_lsn (stored_page p) = dp_last_lsn p" "dp_next (stored_page p) = dp_next p"
  "dp_path (stored_page p) = dp_path p" "dp_table_id (stored_page p) = dp_table_id p"
  by (simp_all add: stored_page_def)

definition storable :: "file_io \<Rightarrow> data_page \<Rightarrow> bool" where
  "storable io p \<longleftrightarrow> ok_vec 40 (dp_rows p) \<and> list_all ok_dr (dp_rows p) \<and>
     length (ms_buffer (serialize_dp p)) \<le> max_alloc \<and> writable (io_root io) (dp_path p) \<and>
     (\<exists>s t. page_home io p s t)"

text \<open>The contract of \<^verbatim>\<open>read_data_page\<close> and \<^verbatim>\<open>write_page\<close> for the buffer pool and for recovery.\<close>

locale page_store =
  fixes read :: "'s \<Rightarrow> uuid \<Rightarrow> data_page option outcome"
    and wr :: "'s \<Rightarrow> data_page \<Rightarrow> 's outcome"
    and ok :: "'s \<Rightarrow> bool"
    and can :: "'s \<Rightarrow> data_page \<Rightarrow> bool"
  assumes write_total: "ok s \<Longrightarrow> can s p \<Longrightarrow> \<exists>s'. wr s p = Done s'"
    and write_ok: "ok s \<Longrightarrow> can s p \<Longrightarrow> wr s p = Done s' \<Longrightarrow> ok s'"
    and read_back: "ok s \<Longrightarrow> can s p \<Longrightarrow> wr s p = Done s' \<Longrightarrow> read s' (dp_id p) = Done (Some (stored_page p))"
    and read_frame: "ok s \<Longrightarrow> can s p \<Longrightarrow> wr s p = Done s' \<Longrightarrow> q \<noteq> dp_id p \<Longrightarrow> read s' q = read s q"
    and can_same: "ok s \<Longrightarrow> can s p \<Longrightarrow> wr s p = Done s' \<Longrightarrow> can s' p"
    and can_frame: "ok s \<Longrightarrow> can s p \<Longrightarrow> wr s p = Done s' \<Longrightarrow> can s p' \<Longrightarrow> dp_id p' \<noteq> dp_id p \<Longrightarrow> can s' p'"
begin

lemma write_all:
  assumes "ok s" and "\<forall>p \<in> set ps. can s p" and "distinct (map dp_id ps)"
  shows "\<exists>s'. ofold (\<lambda>p s. wr s p) ps s = Done s' \<and> ok s' \<and>
    (\<forall>p \<in> set ps. can s' p \<and> read s' (dp_id p) = Done (Some (stored_page p))) \<and>
    (\<forall>q. q \<notin> dp_id ` set ps \<longrightarrow> read s' q = read s q) \<and>
    (\<forall>q. can s q \<longrightarrow> dp_id q \<notin> dp_id ` set ps \<longrightarrow> can s' q)"
  using assms
proof (induction ps arbitrary: s)
  case (Cons p ps)
  have p: "can s p" using Cons.prems(2) by simp
  obtain s1 where s1: "wr s p = Done s1" using write_total [OF Cons.prems(1) p] by blast
  note w = Cons.prems(1) p s1
  have fresh: "dp_id p \<notin> dp_id ` set ps" using Cons.prems(3) by simp
  have "\<forall>q \<in> set ps. can s1 q"
    using Cons.prems(2) can_frame [OF w] fresh by (metis imageI list.set_intros(2))
  then obtain s' where s': "ofold (\<lambda>p s. wr s p) ps s1 = Done s'" "ok s'"
    "\<forall>p \<in> set ps. can s' p \<and> read s' (dp_id p) = Done (Some (stored_page p))"
    "\<forall>q. q \<notin> dp_id ` set ps \<longrightarrow> read s' q = read s1 q"
    "\<forall>q. can s1 q \<longrightarrow> dp_id q \<notin> dp_id ` set ps \<longrightarrow> can s' q"
    using Cons.IH [OF write_ok [OF w]] Cons.prems(3) by auto
  have "can s' p \<and> read s' (dp_id p) = Done (Some (stored_page p))"
    using s'(4,5) fresh can_same [OF w] read_back [OF w] by simp
  moreover have "read s' q = read s q" if "q \<notin> dp_id ` set (p # ps)" for q
    using s'(4) that read_frame [OF w, of q] by simp
  moreover have "can s' q" if "can s q" "dp_id q \<notin> dp_id ` set (p # ps)" for q
    using s'(5) that can_frame [OF w, of q] by simp
  ultimately show ?case using s1 s'(1-3) by auto
qed simp

end

lemma storable_frame:
  assumes "store_ok io" and "storable io p" and "write_page io p fsync = Done io'" and "storable io q"
    and "dp_id q \<noteq> dp_id p \<or> q = p"
  shows "storable io' q"
proof -
  have io: "io_ok io" using assms(1) by (simp add: store_ok_def)
  obtain s t where h: "page_home io p s t" using assms(2) by (auto simp: storable_def)
  obtain u v where g: "page_home io q u v" "q = p \<longrightarrow> u = s \<and> v = t" using assms(4) h by (cases "q = p") (auto simp: storable_def)
  note w = write_page_Done [OF io assms(3) h]
  have "io_name io' = io_name io" by (rule ext) (simp add: io_name_def w(3))
  then have "page_home io' q u v"
    using g assms(5) w(2) unfolding page_home_def w(4) by (auto split: if_splits)
  moreover obtain r where r: "put_file fsync (io_root io) (dp_path p) (ms_buffer (serialize_dp p)) = Done r" "io' = io\<lparr>io_root := r\<rparr>"
    using assms(3) by (auto simp: write_page_def obind_Done_conv)
  have "length (dp_path p) = length (dp_path q)" using h g(1) by (simp add: page_home_def path_db_schema_table_data_def)
  then have "writable (io_root io') (dp_path q)"
    using writable_put_file [OF _ r(1)] io assms(4) by (simp add: io_ok_def storable_def r(2))
  ultimately show ?thesis using assms(4) by (auto simp: storable_def)
qed

interpretation fpages: page_store read_data_page "\<lambda>io p. write_page io p fsync" store_ok storable for fsync
proof
  fix s p assume "store_ok s" "storable s p"
  then obtain r where "put_file fsync (io_root s) (dp_path p) (ms_buffer (serialize_dp p)) = Done r"
    using put_file_writable [of "io_root s" "dp_path p"] unfolding storable_def by blast
  then show "\<exists>s'. write_page s p fsync = Done s'" by (simp add: write_page_def)
next
  fix s p s' assume a: "store_ok s" "storable s p" "write_page s p fsync = Done s'"
  obtain u v where h: "page_home s p u v" using a(2) by (auto simp: storable_def)
  show "store_ok s'" by (rule write_page_store_ok [OF a(1,3) h])
  have io: "io_ok s" using a(1) by (simp add: store_ok_def)
  note w = write_page_Done [OF io a(3) h]
  have "page_file s' u v (dp_id p) = Some (ms_buffer (serialize_dp p))" using w(4) by simp
  moreover have "u \<noteq> PATH_WAL" and "dp_path p = path_db_schema_table_data (io_db_name s') u v @ [io_name s' (dp_id p)]"
    using h w(2,3) by (simp_all add: page_home_def io_name_def)
  ultimately show "read_data_page s' (dp_id p) = Done (Some (stored_page p))"
    using read_data_page_some [OF \<open>store_ok s'\<close>, of u v "dp_id p"] page_at_written [of p s' u v] a(2)
    by (simp add: storable_def stored_page_def)
  show "storable s' p" by (rule storable_frame [OF a a(2)]) simp
  show "read_data_page s' q = read_data_page s q" if "q \<noteq> dp_id p" for q
    using read_data_page_frame [OF a(1,3) h that] .
  show "storable s' q" if "storable s q" "dp_id q \<noteq> dp_id p" for q
    using storable_frame [OF a that(1)] that(2) by simp
qed

section \<open>Index files and pages\<close>

text \<open>A write outside the \<^verbatim>\<open>data\<close> directories, at the depth of a page file, changes nothing for pages.\<close>

definition same_pages :: "file_io \<Rightarrow> file_io \<Rightarrow> bool" where
  "same_pages io io' \<longleftrightarrow> store_ok io' \<and> io_db_name io' = io_db_name io \<and> io_lib io' = io_lib io \<and>
     read_data_page io' = read_data_page io \<and> (\<forall>p. storable io p \<longrightarrow> storable io' p)"

lemma put_other_file:
  assumes "store_ok io" and "put_file fsync (io_root io) [a, b, c, d, e] content = Done r" and "d \<noteq> PATH_DATA"
  shows "same_pages io (io\<lparr>io_root := r\<rparr>)"
proof -
  let ?io = "io\<lparr>io_root := r\<rparr>"
  have io: "io_ok io" and wf: "wf_fs (io_root io)" using assms(1) by (simp_all add: store_ok_def io_ok_def)
  have name: "io_name ?io = io_name io" by (rule ext) (simp add: io_name_def)
  have same: "page_file ?io s t q = page_file io s t q" for s t q
    using fput.frame [OF wf assms(2)] assms(3) by (simp add: page_file_def name)
  have "io_ok ?io"
    using io fput.put_ok [OF wf assms(2)] put_file_keeps_dir [OF assms(2)] by (simp add: io_ok_def)
  with assms(1) have ok: "store_ok ?io" unfolding store_ok_def same by blast
  have "storable ?io p" if "storable io p" for p
  proof -
    have "length (dp_path p) = 5" using that by (auto simp: storable_def page_home_def path_db_schema_table_data_def)
    then have "writable r (dp_path p)" using writable_put_file [OF wf assms(2)] that by (simp add: storable_def)
    then show ?thesis using that by (simp add: storable_def page_home_def same name)
  qed
  moreover have "read_data_page ?io = read_data_page io"
    by (rule ext) (rule read_data_page_cong [OF assms(1) ok], simp_all add: same)
  ultimately show ?thesis using ok by (simp add: same_pages_def)
qed

definition index_home :: "file_io \<Rightarrow> index_file \<Rightarrow> bool" where
  "index_home io f \<longleftrightarrow> (\<exists>s t. s \<noteq> PATH_WAL \<and>
     fs_file (io_root io) [io_db_name io, s, t, PATH_INDEX, io_name io (if_index_id f)] \<noteq> None)"

lemma index_file_in_dir:
  "fs_get (io_root io) [io_db_name io, s, t] = Some (Dir es) \<Longrightarrow>
   index_file_in (s, t, es) name = fs_file (io_root io) [io_db_name io, s, t, PATH_INDEX, name]"
  using fs_get_append [of "io_root io" "[io_db_name io, s, t]" "[PATH_INDEX, name]"]
  by (simp add: index_file_in_def fs_file_def)

lemma fs_file_writable:
  assumes "fs_file n (p @ [x]) = Some c"
  shows "writable n (p @ [x])"
proof -
  have "fs_get n (p @ [x]) = Some (File c)" using assms by (simp add: fs_file_get)
  then obtain m where m: "fs_get n p = Some m" "fs_get m [x] = Some (File c)"
    unfolding fs_get_append by (auto split: option.splits)
  then obtain es where "m = Dir es" by (cases m) auto
  with m fs_mkdirs_exists [of n p es] \<open>fs_get n (p @ [x]) = Some (File c)\<close> show ?thesis
    by (simp add: writable_def is_directory_def)
qed

lemma write_index_file_total:
  assumes "store_ok io" and "index_home io f"
  shows "\<exists>io'. write_index_file io f fsync = Done io' \<and> same_pages io io' \<and> (\<forall>g. index_home io g \<longrightarrow> index_home io' g)"
proof -
  have io: "io_ok io" and wf: "wf_fs (io_root io)" using assms(1) by (simp_all add: store_ok_def io_ok_def)
  obtain dirs where dirs: "for_each_table io = Done dirs" using for_each_table_Done [OF io] by blast
  note mem = for_each_table_mem [OF io dirs]
  let ?name = "io_name io (if_index_id f)"
  let ?P = "\<lambda>dir. index_file_in dir ?name \<noteq> None"
  obtain s t c where st: "s \<noteq> PATH_WAL" "fs_file (io_root io) [io_db_name io, s, t, PATH_INDEX, ?name] = Some c"
    using assms(2) by (auto simp: index_home_def)
  then have "fs_get (io_root io) ([io_db_name io, s, t] @ [PATH_INDEX, ?name]) = Some (File c)" by (simp add: fs_file_get)
  then obtain m where m: "fs_get (io_root io) [io_db_name io, s, t] = Some m" "fs_get m [PATH_INDEX, ?name] = Some (File c)"
    unfolding fs_get_append by (auto split: option.splits)
  then obtain es where es: "fs_get (io_root io) [io_db_name io, s, t] = Some (Dir es)" by (cases m) auto
  have "(s, t, es) \<in> set dirs" using mem st(1) es by blast
  moreover have "?P (s, t, es)" using index_file_in_dir [OF es] st(2) by simp
  ultimately have "find ?P dirs \<noteq> None" unfolding find_None_iff by blast
  then obtain s' t' es' where d: "find ?P dirs = Some (s', t', es')" by auto
  then have d': "(s', t', es') \<in> set dirs" "?P (s', t', es')" by (auto simp: find_Some_iff)
  let ?p = "[io_db_name io, s', t', PATH_INDEX] @ [?name]"
  have g: "fs_get (io_root io) [io_db_name io, s', t'] = Some (Dir es')" using mem d'(1) by blast
  then obtain c' where "fs_file (io_root io) ?p = Some c'" using d'(2) index_file_in_dir by (metis append_Cons append_Nil option.exhaust)
  then obtain r where r: "put_file False (io_root io) ?p (ms_buffer (serialize_if f)) = Done r"
    using put_file_writable [OF fs_file_writable] by blast
  then have "write_index_file io f fsync = Done (io\<lparr>io_root := r\<rparr>)"
    using dirs d by (simp add: write_index_file_def put_file_def path_db_schema_table_index_def)
  moreover have "PATH_INDEX \<noteq> PATH_DATA" by (simp add: PATH_INDEX_def PATH_DATA_def)
  then have "same_pages io (io\<lparr>io_root := r\<rparr>)" using put_other_file [OF assms(1), of False] r by simp
  moreover have "index_home (io\<lparr>io_root := r\<rparr>) h" if "index_home io h" for h
    using that fput.put_find [OF wf r] by (auto simp: index_home_def io_name_def)
  ultimately show ?thesis by blast
qed

section \<open>Properties\<close>

definition sample_lib :: uuid_lib where
  "sample_lib = \<lparr>uuid_unparse_lower = (\<lambda>u. map (\<lambda>b. char_of (unat b)) (le_bytes 16 u)),
     uuid_parse = (\<lambda>s. if length s = 16 then Some (le_word (map (\<lambda>c. word_of_nat (of_char c)) s)) else None)\<rparr>"

definition sample_io :: file_io where
  "sample_io = \<lparr>io_lib = sample_lib, io_db_name = ''db'', io_root = Dir [(''db'', Dir [(''public'', Dir [])])]\<rparr>"

lemma sample_lib_ok: "uuid_lib_ok sample_lib"
proof -
  have "unat (b :: byte) mod 256 = unat b" for b using unsigned_less [of b, where 'a = nat] by simp
  then show ?thesis by (simp add: uuid_lib_ok_def sample_lib_def comp_def)
qed

lemma sample_store_ok: "store_ok sample_io"
  using sample_lib_ok
  by (auto simp: store_ok_def io_ok_def sample_io_def path_defs page_file_def fs_file_def split: option.splits if_splits)

text \<open>C24: writing a page to the directory tree succeeds, the page is then found by its identifier and decodes to the
  page written, with the row count and the size of its file, and every other page is found and decodes as before.\<close>

theorem write_page_read_back:
  assumes "store_ok io" and "storable io p"
  shows "\<exists>io'. write_page io p fsync = Done io' \<and> store_ok io' \<and>
    read_data_page io' (dp_id p) = Done (Some (stored_page p)) \<and>
    (\<forall>q. q \<noteq> dp_id p \<longrightarrow> read_data_page io' q = read_data_page io q)"
proof -
  obtain io' where w: "write_page io p fsync = Done io'" using fpages.write_total [OF assms] by blast
  with fpages.write_ok [OF assms w] fpages.read_back [OF assms w] fpages.read_frame [OF assms w] show ?thesis by blast
qed

definition home_page :: data_page where
  "home_page = (data_page_make (io_name sample_io) [''db'', ''public'', ''t'', ''data''] 3 5)\<lparr>dp_rows := [sample_row]\<rparr>"

lemma home_page_storable: "storable sample_io home_page"
proof -
  have "page_home sample_io home_page ''public'' ''t''"
    by (auto simp: page_home_def home_page_def data_page_make_def sample_io_def path_defs page_file_def fs_file_def
        split: option.splits if_splits)
  then show ?thesis
    unfolding storable_def
    by (intro conjI exI)
      (simp_all add: home_page_def writable_def sample_io_def length_serialize_dp length_serialize_dr length_serialize_dt
        sample_simps del: One_nat_def)
qed

theorem write_page_read_back_witness:
  "\<exists>io'. write_page sample_io home_page True = Done io' \<and>
    read_data_page io' 5 = Done (Some (stored_page home_page))"
  using write_page_read_back [OF sample_store_ok home_page_storable, of True]
  by (auto simp: home_page_def data_page_make_def)

end
