(* ===== verification/File_Catalog.thy ===== *)
theory File_Catalog
  imports File_Io
begin

text \<open>
  The meta files of the storage manager: which schema and which table a lookup by identifier finds, in terms of the
  files, independently of the order in which directories are visited, and what writing a meta file or a page changes
  for these lookups.
\<close>

section \<open>Tables and schemas by their files\<close>

definition decode_mt :: "byte list \<Rightarrow> meta_table outcome" where
  "decode_mt = decode_or (RuntimeError ''FileIOManager::read_table_meta: failed to deserialize meta table '')
     (deserialize_mt empty_table)"

definition decode_ms :: "byte list \<Rightarrow> meta_schema outcome" where
  "decode_ms = decode_or (RuntimeError ''FileIOManager::load_schema_meta: Error deserializing meta file: '')
     (deserialize_ms empty_schema)"

definition table_file :: "file_io \<Rightarrow> string \<Rightarrow> string \<Rightarrow> byte list option" where
  "table_file io s t = (if s = PATH_WAL then None else fs_file (io_root io) (path_db_schema_table_meta (io_db_name io) s t))"

definition schema_file :: "file_io \<Rightarrow> string \<Rightarrow> byte list option" where
  "schema_file io s = (if s = PATH_WAL then None else fs_file (io_root io) (path_db_schema_meta (io_db_name io) s))"

definition table_at :: "file_io \<Rightarrow> string \<Rightarrow> string \<Rightarrow> meta_table \<Rightarrow> bool" where
  "table_at io s t mt \<longleftrightarrow> (\<exists>c. table_file io s t = Some c \<and> decode_mt c = Done mt)"

definition schema_at :: "file_io \<Rightarrow> string \<Rightarrow> meta_schema \<Rightarrow> bool" where
  "schema_at io s ms \<longleftrightarrow> (\<exists>c. schema_file io s = Some c \<and> decode_ms c = Done ms)"

text \<open>
  A sound catalog: every schema directory has a meta file, all meta files decode, and no identifier occurs twice.
\<close>

definition catalog_ok :: "file_io \<Rightarrow> bool" where
  "catalog_ok io \<longleftrightarrow> io_ok io \<and>
     (\<forall>s. s \<noteq> PATH_WAL \<longrightarrow> is_directory (io_root io) [io_db_name io, s] \<longrightarrow> (\<exists>ms. schema_at io s ms)) \<and>
     (\<forall>s s' ms ms'. schema_at io s ms \<longrightarrow> schema_at io s' ms' \<longrightarrow> sc_id ms = sc_id ms' \<longrightarrow> s = s') \<and>
     (\<forall>s t c. table_file io s t = Some c \<longrightarrow> (\<exists>mt. decode_mt c = Done mt)) \<and>
     (\<forall>s t s' t' mt mt'. table_at io s t mt \<longrightarrow> table_at io s' t' mt' \<longrightarrow> mt_id mt = mt_id mt' \<longrightarrow> s = s' \<and> t = t')"

lemma table_at_unique: "table_at io s t mt \<Longrightarrow> table_at io s t mt' \<Longrightarrow> mt = mt'"
  by (auto simp: table_at_def)

lemma schema_at_unique: "schema_at io s ms \<Longrightarrow> schema_at io s ms' \<Longrightarrow> ms = ms'"
  by (auto simp: schema_at_def)

section \<open>Lookup of tables\<close>

lemma find_table_meta_cases:
  assumes "\<forall>dir \<in> set dirs. \<forall>c. table_meta_file dir = Some c \<longrightarrow> (\<exists>mt. decode_mt c = Done mt)"
  shows "(\<exists>dir c mt. dir \<in> set dirs \<and> table_meta_file dir = Some c \<and> decode_mt c = Done mt \<and> mt_id mt = tid \<and>
      find_table_meta tid dirs = Done (Some mt)) \<or>
    ((\<forall>dir \<in> set dirs. \<forall>c mt. table_meta_file dir = Some c \<longrightarrow> decode_mt c = Done mt \<longrightarrow> mt_id mt \<noteq> tid) \<and>
      find_table_meta tid dirs = Done None)"
  using assms
proof (induction dirs)
  case (Cons dir dirs)
  have tl: "\<forall>dir \<in> set dirs. \<forall>c. table_meta_file dir = Some c \<longrightarrow> (\<exists>mt. decode_mt c = Done mt)"
    using Cons.prems by simp
  show ?case
  proof (cases "table_meta_file dir")
    case None
    from Cons.IH [OF tl] None show ?thesis by (elim disjE exE conjE) auto
  next
    case (Some c)
    then obtain mt where mt: "decode_mt c = Done mt" using Cons.prems by auto
    have step: "find_table_meta tid (dir # dirs) = (if mt_id mt = tid then Done (Some mt) else find_table_meta tid dirs)"
      using Some mt by (simp add: decode_mt_def)
    show ?thesis
    proof (cases "mt_id mt = tid")
      case True
      with Some mt step show ?thesis by (intro disjI1 exI [of _ dir] exI [of _ c] exI [of _ mt]) simp
    next
      case False
      from Cons.IH [OF tl] False step Some mt show ?thesis by (elim disjE exE conjE) auto
    qed
  qed
qed simp

lemma table_meta_file_dir:
  assumes "fs_get (io_root io) [io_db_name io, s, t] = Some (Dir es)" and "s \<noteq> PATH_WAL"
  shows "table_meta_file (s, t, es) = table_file io s t"
proof -
  have "fs_get (io_root io) [io_db_name io, s, t, make_meta_filename t] = fs_get (Dir es) [make_meta_filename t]"
    using fs_get_append [of "io_root io" "[io_db_name io, s, t]" "[make_meta_filename t]"] assms(1) by simp
  then show ?thesis
    using assms(2) by (auto simp: table_meta_file_def table_file_def fs_file_def path_defs split: option.splits fs_node.splits)
qed

lemma table_file_dir:
  assumes "table_file io s t = Some c"
  shows "s \<noteq> PATH_WAL" and "\<exists>es. fs_get (io_root io) [io_db_name io, s, t] = Some (Dir es)"
proof -
  show s: "s \<noteq> PATH_WAL" using assms by (auto simp: table_file_def split: if_splits)
  then have "fs_get (io_root io) ([io_db_name io, s, t] @ [make_meta_filename t]) = Some (File c)"
    using assms by (simp add: table_file_def path_defs fs_file_get)
  then obtain m where "fs_get (io_root io) [io_db_name io, s, t] = Some m" "fs_get m [make_meta_filename t] = Some (File c)"
    unfolding fs_get_append by (auto split: option.splits)
  then show "\<exists>es. fs_get (io_root io) [io_db_name io, s, t] = Some (Dir es)" by (cases m) auto
qed

text \<open>\<^verbatim>\<open>read_table_meta\<close> finds the table whose meta file holds the identifier.\<close>

lemma read_table_meta_conv:
  assumes "catalog_ok io"
  shows "read_table_meta io tid = Done mt \<longleftrightarrow> (\<exists>s t. table_at io s t mt) \<and> mt_id mt = tid"
proof -
  have io: "io_ok io" using assms by (simp add: catalog_ok_def)
  obtain dirs where dirs: "for_each_table io = Done dirs" using for_each_table_Done [OF io] by blast
  note mem = for_each_table_mem [OF io dirs]
  have tfile: "table_meta_file (s, t, es) = table_file io s t" if "(s, t, es) \<in> set dirs" for s t es
    using table_meta_file_dir mem that by blast
  have dec: "\<forall>dir \<in> set dirs. \<forall>c. table_meta_file dir = Some c \<longrightarrow> (\<exists>mt. decode_mt c = Done mt)"
  proof (intro ballI allI impI)
    fix dir c assume d: "dir \<in> set dirs" "table_meta_file dir = Some c"
    obtain s t es where dir: "dir = (s, t, es)" by (cases dir)
    with d tfile have "table_file io s t = Some c" by simp
    with assms show "\<exists>mt. decode_mt c = Done mt" unfolding catalog_ok_def by blast
  qed
  have at: "table_at io s t mt'" if "(s, t, es) \<in> set dirs" "table_meta_file (s, t, es) = Some c" "decode_mt c = Done mt'" for s t es c mt'
    using that tfile by (auto simp: table_at_def)
  have ta: "\<exists>es c. (s, t, es) \<in> set dirs \<and> table_meta_file (s, t, es) = Some c \<and> decode_mt c = Done mt'"
    if at': "table_at io s t mt'" for s t mt'
  proof -
    obtain c where c: "table_file io s t = Some c" "decode_mt c = Done mt'" using at' unfolding table_at_def by blast
    from table_file_dir [OF c(1)] mem tfile c show ?thesis by metis
  qed
  have read: "read_table_meta io tid = Done mt \<longleftrightarrow> find_table_meta tid dirs = Done (Some mt)"
    by (auto simp: read_table_meta_def dirs obind_Done_conv split: option.splits)
  show ?thesis
    using find_table_meta_cases [of dirs tid, OF dec]
  proof (elim disjE exE conjE)
    fix dir c m assume m: "dir \<in> set dirs" "table_meta_file dir = Some c" "decode_mt c = Done m" "mt_id m = tid"
      "find_table_meta tid dirs = Done (Some m)"
    obtain s t es where "dir = (s, t, es)" by (cases dir)
    with m at have m_at: "table_at io s t m" by blast
    have "m = mt" if "table_at io s' t' mt" "mt_id mt = tid" for s' t'
      using assms that m_at m(4) table_at_unique unfolding catalog_ok_def by metis
    with m(4,5) m_at show ?thesis unfolding read by auto
  next
    assume none: "\<forall>dir \<in> set dirs. \<forall>c mt. table_meta_file dir = Some c \<longrightarrow> decode_mt c = Done mt \<longrightarrow> mt_id mt \<noteq> tid"
      "find_table_meta tid dirs = Done None"
    then show ?thesis unfolding read using ta by fastforce
  qed
qed

lemma read_table_meta_none:
  assumes "catalog_ok io" and "\<And>s t mt. table_at io s t mt \<Longrightarrow> mt_id mt \<noteq> tid"
  shows "read_table_meta io tid = Raised (RuntimeError ''FileIOManager::read_table_meta: table with id  not found'')"
proof -
  have io: "io_ok io" using assms(1) by (simp add: catalog_ok_def)
  obtain dirs where dirs: "for_each_table io = Done dirs" using for_each_table_Done [OF io] by blast
  note mem = for_each_table_mem [OF io dirs]
  have tfile: "table_file io s t = Some c" if "(s, t, es) \<in> set dirs" "table_meta_file (s, t, es) = Some c" for s t es c
    using table_meta_file_dir mem that by metis
  have "\<forall>dir \<in> set dirs. \<forall>c. table_meta_file dir = Some c \<longrightarrow> (\<exists>mt. decode_mt c = Done mt)"
    using tfile assms(1) unfolding catalog_ok_def by (metis prod_cases3)
  from find_table_meta_cases [OF this, of tid] have "find_table_meta tid dirs = Done None"
    using assms(2) tfile unfolding table_at_def by (metis prod_cases3)
  with dirs show ?thesis by (simp add: read_table_meta_def)
qed

section \<open>Lookup of schemas\<close>

lemma for_each_schema_mem:
  assumes "io_ok io"
  obtains dirs where "for_each_schema io = Done dirs"
    and "\<And>s es. (s, es) \<in> set dirs \<longleftrightarrow> s \<noteq> PATH_WAL \<and> fs_get (io_root io) [io_db_name io, s] = Some (Dir es)"
proof -
  obtain es where es: "for_each_in_db io = Done es" "fs_get (io_root io) [io_db_name io] = Some (Dir es)" "wf_fs (Dir es)"
    using for_each_in_db_Done [OF assms(1)] by blast
  have get: "fs_get (io_root io) [io_db_name io, s] = map_of es s" for s
    using fs_get_append [of "io_root io" "[io_db_name io]" "[s]"] es(2) by (simp split: option.splits)
  show thesis
  proof (rule that [of "concat (map schema_entry es)"])
    show "for_each_schema io = Done (concat (map schema_entry es))" using es(1) by (simp add: for_each_schema_def)
    show "(s, ts) \<in> set (concat (map schema_entry es)) \<longleftrightarrow>
      s \<noteq> PATH_WAL \<and> fs_get (io_root io) [io_db_name io, s] = Some (Dir ts)" for s ts
      unfolding get using es(3) by (auto simp: map_of_eq_Some_iff)
  qed
qed

lemma ofold_last_match:
  "(\<And>x a. x \<in> set xs \<Longrightarrow> f x a = Done (if P x then g x else a)) \<Longrightarrow>
   (\<And>x. x \<in> set xs \<Longrightarrow> P x \<Longrightarrow> g x = v) \<Longrightarrow>
   ofold f xs a = Done (if \<exists>x \<in> set xs. P x then v else a)"
proof (induction xs arbitrary: a)
  case (Cons x xs)
  have "ofold f xs b = Done (if \<exists>x \<in> set xs. P x then v else b)" for b
    by (rule Cons.IH) (simp_all add: Cons.prems)
  then show ?case using Cons.prems(1) [of x a] Cons.prems(2) [of x] by auto
qed simp

lemma schema_file_dir:
  assumes "schema_file io s = Some c"
  shows "s \<noteq> PATH_WAL" and "\<exists>es. fs_get (io_root io) [io_db_name io, s] = Some (Dir es)"
proof -
  show s: "s \<noteq> PATH_WAL" using assms by (auto simp: schema_file_def split: if_splits)
  then have "fs_get (io_root io) ([io_db_name io, s] @ [make_meta_filename s]) = Some (File c)"
    using assms by (simp add: schema_file_def path_defs fs_file_get)
  then obtain m where "fs_get (io_root io) [io_db_name io, s] = Some m" "fs_get m [make_meta_filename s] = Some (File c)"
    unfolding fs_get_append by (auto split: option.splits)
  then show "\<exists>es. fs_get (io_root io) [io_db_name io, s] = Some (Dir es)" by (cases m) auto
qed

definition schema_in :: "file_io \<Rightarrow> string \<Rightarrow> meta_schema" where
  "schema_in io s = (case decode_ms (the (schema_file io s)) of Done ms \<Rightarrow> ms | _ \<Rightarrow> empty_schema)"

text \<open>\<^verbatim>\<open>read_schema_meta\<close> finds the schema whose meta file holds the identifier.\<close>

lemma read_schema_meta_eq:
  assumes "catalog_ok io" and "sid \<noteq> 0"
  shows "read_schema_meta io sid =
    (if \<exists>s. schema_at io s (schema_in io s) \<and> sc_id (schema_in io s) = sid
     then Done (schema_in io (THE s. schema_at io s (schema_in io s) \<and> sc_id (schema_in io s) = sid))
     else Raised (RuntimeError ''FileIOManager::load_schema_meta: Failed to find schema with id ''))"
proof -
  have io: "io_ok io" using assms(1) by (simp add: catalog_ok_def)
  obtain dirs where dirs: "for_each_schema io = Done dirs"
    and mem: "\<And>s es. (s, es) \<in> set dirs \<longleftrightarrow> s \<noteq> PATH_WAL \<and> fs_get (io_root io) [io_db_name io, s] = Some (Dir es)"
    using for_each_schema_mem [OF io] by blast
  let ?at = "\<lambda>s. schema_at io s (schema_in io s) \<and> sc_id (schema_in io s) = sid"
  have uniq: "s = s'" if "?at s" "?at s'" for s s' using assms(1) that unfolding catalog_ok_def by blast
  have at: "schema_at io s (schema_in io s)" if s: "s \<noteq> PATH_WAL" "fs_get (io_root io) [io_db_name io, s] = Some (Dir es)" for s es
  proof -
    have "is_directory (io_root io) [io_db_name io, s]" using s(2) by (simp add: is_directory_def)
    then obtain ms where "schema_at io s ms" using assms(1) s(1) unfolding catalog_ok_def by blast
    then show ?thesis by (auto simp: schema_at_def schema_in_def)
  qed
  have mem_at: "(\<exists>es. (s, es) \<in> set dirs) \<longleftrightarrow> schema_at io s (schema_in io s)" for s
    using mem at schema_file_dir unfolding schema_at_def by metis
  let ?f = "\<lambda>(s, es) schema.
       obind (read_file (io_root io) (path_db_schema_meta (io_db_name io) s)) (\<lambda>content.
       obind (decode_or (RuntimeError ''FileIOManager::load_schema_meta: Error deserializing meta file: '')
               (deserialize_ms empty_schema) content) (\<lambda>deserialized.
       Done (if sc_id deserialized = sid then deserialized else schema)))"
  have "ofold ?f dirs empty_schema =
    Done (if \<exists>x \<in> set dirs. sc_id (schema_in io (fst x)) = sid then schema_in io (THE s. ?at s) else empty_schema)"
  proof (rule ofold_last_match)
    fix x a assume x: "x \<in> set dirs"
    obtain s es where se: "x = (s, es)" by (cases x)
    with x mem_at have "schema_at io s (schema_in io s)" by blast
    then obtain c where c: "schema_file io s = Some c" "decode_ms c = Done (schema_in io s)" by (auto simp: schema_at_def)
    then have "read_file (io_root io) (path_db_schema_meta (io_db_name io) s) = Done c"
      by (auto simp: schema_file_def read_file_file split: if_splits)
    with c(2) se show "?f x a = Done (if sc_id (schema_in io (fst x)) = sid then schema_in io (fst x) else a)"
      by (simp add: decode_ms_def)
  next
    fix x assume x: "x \<in> set dirs" "sc_id (schema_in io (fst x)) = sid"
    then have fst_at: "?at (fst x)" using mem_at [of "fst x"] by (metis prod.collapse)
    then have "(THE s. ?at s) = fst x" using uniq by (intro the_equality) blast+
    then show "schema_in io (fst x) = schema_in io (THE s. ?at s)" by simp
  qed
  moreover have "(\<exists>x \<in> set dirs. sc_id (schema_in io (fst x)) = sid) \<longleftrightarrow> (\<exists>s. ?at s)"
    using mem_at by (metis fst_conv prod.exhaust)
  moreover have "sc_id (schema_in io (THE s. ?at s)) = sid" if "\<exists>s. ?at s"
    using theI' [of ?at] that uniq by blast
  ultimately show ?thesis
    using assms(2) by (auto simp: read_schema_meta_def dirs empty_schema_def)
qed

lemma read_schema_meta_at:
  assumes "catalog_ok io" and "schema_at io s ms" and "sc_id ms \<noteq> 0"
  shows "read_schema_meta io (sc_id ms) = Done ms"
proof -
  have ms: "schema_in io s = ms" using assms(2) by (auto simp: schema_at_def schema_in_def)
  have "s' = s" if "schema_at io s' (schema_in io s')" "sc_id (schema_in io s') = sc_id ms" for s'
    using that assms(1,2) unfolding catalog_ok_def by blast
  then have "(THE s. schema_at io s (schema_in io s) \<and> sc_id (schema_in io s) = sc_id ms) = s"
    using ms assms(2) by (intro the_equality) auto
  with read_schema_meta_eq [OF assms(1,3)] ms assms(2) show ?thesis by auto
qed

section \<open>What writes change\<close>

definition same_catalog :: "file_io \<Rightarrow> file_io \<Rightarrow> bool" where
  "same_catalog io io' \<longleftrightarrow> io_ok io' \<and> io_db_name io' = io_db_name io \<and> io_lib io' = io_lib io \<and>
     schema_file io' = schema_file io \<and> table_file io' = table_file io \<and>
     (\<forall>s. is_directory (io_root io') [io_db_name io, s] \<longleftrightarrow> is_directory (io_root io) [io_db_name io, s])"

lemma same_catalog_at:
  assumes "same_catalog io io'"
  shows "schema_at io' = schema_at io" and "table_at io' = table_at io" and "schema_in io' = schema_in io"
  using assms by (auto simp: same_catalog_def schema_at_def table_at_def schema_in_def fun_eq_iff)

lemma same_catalog_ok: "same_catalog io io' \<Longrightarrow> catalog_ok io \<Longrightarrow> catalog_ok io'"
  unfolding catalog_ok_def same_catalog_at [of io io'] by (simp add: same_catalog_def)

lemma same_catalog_schema:
  assumes "same_catalog io io'" and "catalog_ok io" and "sid \<noteq> 0"
  shows "read_schema_meta io' sid = read_schema_meta io sid"
  using read_schema_meta_eq [OF assms(2,3)] read_schema_meta_eq [OF same_catalog_ok [OF assms(1,2)] assms(3)]
  by (simp only: same_catalog_at [OF assms(1)])

lemma same_tables_read:
  assumes "catalog_ok io" and "catalog_ok io'"
    and same: "\<And>s t mt. mt_id mt = tid \<Longrightarrow> table_at io' s t mt \<longleftrightarrow> table_at io s t mt"
  shows "read_table_meta io' tid = read_table_meta io tid"
proof (cases "\<exists>s t mt. table_at io s t mt \<and> mt_id mt = tid")
  case True
  then obtain s t mt where mt: "table_at io s t mt" "mt_id mt = tid" by blast
  then have "read_table_meta io tid = Done mt" using read_table_meta_conv [OF assms(1), of tid mt] by blast
  moreover have "read_table_meta io' tid = Done mt"
    using mt same [OF mt(2)] read_table_meta_conv [OF assms(2), of tid mt] by blast
  ultimately show ?thesis by simp
next
  case False
  then have "\<And>s t mt. table_at io s t mt \<Longrightarrow> mt_id mt \<noteq> tid" and "\<And>s t mt. table_at io' s t mt \<Longrightarrow> mt_id mt \<noteq> tid"
    using same by blast+
  with read_table_meta_none [OF assms(1), of tid] read_table_meta_none [OF assms(2), of tid] show ?thesis by simp
qed

lemma same_catalog_table:
  assumes "same_catalog io io'" and "catalog_ok io"
  shows "read_table_meta io' tid = read_table_meta io tid"
  by (rule same_tables_read [OF assms(2) same_catalog_ok [OF assms]]) (simp add: same_catalog_at [OF assms(1)])

lemma put_file_dirs:
  assumes "put_file fsync n p c = Done n'" and "is_directory n' q"
  shows "is_directory n q \<or> prefix q (butlast p)"
proof -
  obtain m where m: "m = n \<or> fs_mkdirs n (butlast p) = Some m" "fs_store m p c = Some n'"
    using put_file_cases [OF assms(1)] by blast
  then have "is_directory m q" using fs_store_dirs [OF m(2)] assms(2) by simp
  with m(1) fs_mkdirs_dirs [of n "butlast p" m q] show ?thesis by blast
qed

text \<open>A file below the directory of an existing schema leaves the set of schemas as it is.\<close>

lemma put_file_schema_dirs:
  assumes "put_file fsync n ([db, s, t] @ p) c = Done n'" and "is_directory n [db, s]" and "p \<noteq> []"
  shows "is_directory n' [db, s'] \<longleftrightarrow> is_directory n [db, s']"
proof
  assume "is_directory n' [db, s']"
  from put_file_dirs [OF assms(1) this] assms(2,3)
  show "is_directory n [db, s']" by (auto simp: butlast_append)
next
  assume "is_directory n [db, s']"
  then show "is_directory n' [db, s']" by (rule put_file_keeps_dir [OF assms(1)])
qed

lemma put_file_schema_file:
  assumes "wf_fs (io_root io)" and "put_file fsync (io_root io) ([db, s, t] @ p) c = Done n'" and "p \<noteq> []"
  shows "schema_file (io\<lparr>io_root := n'\<rparr>) = schema_file io"
  using fput.put_find [OF assms(1,2)] assms(3) by (auto simp: schema_file_def path_defs fun_eq_iff)

lemma put_file_io_ok:
  "io_ok io \<Longrightarrow> put_file fsync (io_root io) p c = Done n' \<Longrightarrow> io_ok (io\<lparr>io_root := n'\<rparr>)"
  using fput.put_ok put_file_keeps_dir unfolding io_ok_def by (metis file_io.select_convs file_io.simps(5,6) file_io.surjective file_io.update_convs(3))

text \<open>Writing a page, or an index file, of a table in an existing schema keeps the catalog.\<close>

lemma put_file_same_catalog:
  assumes "io_ok io" and "put_file fsync (io_root io) [io_db_name io, s, t, d, f] c = Done n'"
    and "is_directory (io_root io) [io_db_name io, s]"
  shows "same_catalog io (io\<lparr>io_root := n'\<rparr>)"
proof -
  have wf: "wf_fs (io_root io)" using assms(1) by (simp add: io_ok_def)
  have "table_file (io\<lparr>io_root := n'\<rparr>) = table_file io"
    using fput.put_find [OF wf assms(2)] by (auto simp: table_file_def path_defs fun_eq_iff)
  then show ?thesis
    using put_file_io_ok [OF assms(1,2)] put_file_schema_file [OF wf, of fsync "io_db_name io" s t "[d, f]" c n']
      put_file_schema_dirs [of fsync "io_root io" "io_db_name io" s t "[d, f]" c n'] assms(2,3)
    by (simp add: same_catalog_def)
qed

section \<open>Properties\<close>

lemma decode_mt_serialized:
  "ok_mt t \<Longrightarrow> length (ms_buffer (serialize_mt t)) \<le> max_alloc \<Longrightarrow> decode_mt (ms_buffer (serialize_mt t)) = Done t"
  using mt.decode [of t "[]" empty_table] by (simp add: decode_mt_def decode_or_def)

lemma write_mt_in_Done:
  assumes "catalog_ok io" and "is_directory (io_root io) [io_db_name io, s]" and "s \<noteq> PATH_WAL" and "ok_mt t"
    and "length (ms_buffer (serialize_mt t)) \<le> max_alloc" and "write_mt_in io t s fsync = Done io'"
    and home: "\<forall>s' t' mt'. table_at io s' t' mt' \<longrightarrow> mt_id mt' = mt_id t \<longrightarrow> s' = s \<and> t' = mt_name t"
  shows "catalog_ok io'" and "table_at io' s' t' mt' \<longleftrightarrow> (if s' = s \<and> t' = mt_name t then mt' = t else table_at io s' t' mt')"
proof -
  let ?c = "ms_buffer (serialize_mt t)"
  let ?p = "[io_db_name io, s, mt_name t] @ [make_meta_filename (mt_name t)]"
  obtain r where r: "put_file fsync (io_root io) ?p ?c = Done r" "io' = io\<lparr>io_root := r\<rparr>"
    using assms(6) by (auto simp: write_mt_in_def obind_Done_conv path_defs)
  have io: "io_ok io" and wf: "wf_fs (io_root io)" using assms(1) by (simp_all add: catalog_ok_def io_ok_def)
  have tf: "table_file io' s' t' = (if s' = s \<and> t' = mt_name t then Some ?c else table_file io s' t')" for s' t'
    using fput.put_find [OF wf r(1)] assms(3) by (auto simp: table_file_def path_defs r(2))
  have sf: "schema_file io' = schema_file io" using put_file_schema_file [OF wf r(1)] by (simp add: r(2))
  then have sat: "schema_at io' = schema_at io" by (simp add: schema_at_def fun_eq_iff)
  have dirs: "is_directory (io_root io') [io_db_name io', s'] \<longleftrightarrow> is_directory (io_root io) [io_db_name io, s']" for s'
    using put_file_schema_dirs [OF r(1) assms(2)] by (simp add: r(2))
  have dec: "decode_mt ?c = Done t" by (rule decode_mt_serialized [OF assms(4,5)])
  show tat: "table_at io' s' t' mt' \<longleftrightarrow> (if s' = s \<and> t' = mt_name t then mt' = t else table_at io s' t' mt')" for s' t' mt'
    using dec by (auto simp: table_at_def tf)
  have "\<exists>mt. decode_mt c = Done mt" if "table_file io' s' t' = Some c" for s' t' c
    using that tf dec assms(1) unfolding catalog_ok_def by (metis option.inject)
  moreover have "s1 = s2 \<and> t1 = t2" if a: "table_at io' s1 t1 m1" "table_at io' s2 t2 m2" "mt_id m1 = mt_id m2" for s1 t1 s2 t2 m1 m2
  proof (cases "(s1 = s \<and> t1 = mt_name t) \<or> (s2 = s \<and> t2 = mt_name t)")
    case True
    with a home show ?thesis unfolding tat by metis
  next
    case False
    with a assms(1) show ?thesis unfolding tat catalog_ok_def by metis
  qed
  ultimately show "catalog_ok io'"
    using assms(1) put_file_io_ok [OF io r(1)] unfolding catalog_ok_def sat dirs by (simp add: r(2)) 
qed

text \<open>Writing the descriptor of a table of a known schema succeeds, the catalog stays sound, the table is found by its
  identifier with exactly the descriptor written, and the lookup of every other table is unchanged.\<close>

theorem write_mt_read_back:
  assumes "catalog_ok io" and "schema_at io (sc_name ms) ms" and "mt_schema_id t = sc_id ms" and "sc_id ms \<noteq> 0"
    and "ok_mt t" and "length (ms_buffer (serialize_mt t)) \<le> max_alloc"
    and "writable (io_root io) (path_db_schema_table_meta (io_db_name io) (sc_name ms) (mt_name t))"
    and "\<forall>s' t' mt'. table_at io s' t' mt' \<longrightarrow> (mt_id mt' = mt_id t \<longleftrightarrow> s' = sc_name ms \<and> t' = mt_name t)"
  shows "\<exists>io'. write_mt io t fsync = Done io' \<and> catalog_ok io' \<and> read_table_meta io' (mt_id t) = Done t \<and>
    (\<forall>tid. tid \<noteq> mt_id t \<longrightarrow> read_table_meta io' tid = read_table_meta io tid)"
proof -
  obtain c where c: "schema_file io (sc_name ms) = Some c" using assms(2) by (auto simp: schema_at_def)
  from schema_file_dir [OF c] have dir: "sc_name ms \<noteq> PATH_WAL" "is_directory (io_root io) [io_db_name io, sc_name ms]"
    by (auto simp: is_directory_def)
  obtain r where "put_file fsync (io_root io) (path_db_schema_table_meta (io_db_name io) (sc_name ms) (mt_name t))
      (ms_buffer (serialize_mt t)) = Done r"
    using put_file_writable [OF assms(7)] by blast
  then obtain io' where w: "write_mt_in io t (sc_name ms) fsync = Done io'" by (simp add: write_mt_in_def)
  have home: "\<forall>s' t' mt'. table_at io s' t' mt' \<longrightarrow> mt_id mt' = mt_id t \<longrightarrow> s' = sc_name ms \<and> t' = mt_name t"
    using assms(8) by blast
  note wr = write_mt_in_Done [OF assms(1) dir(2,1) assms(5,6) w home]
  have "write_mt io t fsync = Done io'"
    using read_schema_meta_at [OF assms(1,2,4)] w by (simp add: write_mt_def assms(3))
  moreover have "read_table_meta io' (mt_id t) = Done t"
    using read_table_meta_conv [OF wr(1), where tid = "mt_id t" and mt = t] wr(2) [where s' = "sc_name ms" and t' = "mt_name t" and mt' = t] by auto
  moreover have "read_table_meta io' tid = read_table_meta io tid" if "tid \<noteq> mt_id t" for tid
    by (rule same_tables_read [OF assms(1) wr(1)]) (use that assms(8) wr(2) in metis)
  ultimately show ?thesis using wr(1) by blast
qed

definition sample_schema :: meta_schema where
  "sample_schema = \<lparr>sc_id = 2, sc_name = ''public'', sc_db_name = ''db''\<rparr>"

definition catalog_io :: file_io where
  "catalog_io = sample_io\<lparr>io_root := Dir [(''db'', Dir [(''public'', Dir
     [(''public.meta'', File (ms_buffer (serialize_ms sample_schema)))])])]\<rparr>"

lemma decode_sample_schema: "decode_ms (ms_buffer (serialize_ms sample_schema)) = Done sample_schema"
proof -
  have "ok_ms sample_schema" "length (ms_buffer (serialize_ms sample_schema)) \<le> max_alloc"
    by (simp_all add: sample_schema_def ok_ms_def serialize_ms_def stream_simps str_bytes_def sample_simps)
  with ms.decode [of sample_schema "[]" empty_schema] show ?thesis by (simp add: decode_ms_def decode_or_def)
qed

lemma catalog_io_files:
  "schema_file catalog_io s = (if s = ''public'' then Some (ms_buffer (serialize_ms sample_schema)) else None)"
  "table_file catalog_io s t = None"
  by (auto simp: schema_file_def table_file_def catalog_io_def sample_io_def path_defs fs_file_Dir make_meta_filename_def)

lemma catalog_io_ok:
  "catalog_ok catalog_io" "schema_at catalog_io s ms \<longleftrightarrow> s = ''public'' \<and> ms = sample_schema" "\<not> table_at catalog_io s t mt"
proof -
  show at: "schema_at catalog_io s ms \<longleftrightarrow> s = ''public'' \<and> ms = sample_schema" for s ms
    by (auto simp: schema_at_def catalog_io_files decode_sample_schema)
  show no: "\<not> table_at catalog_io s t mt" for s t mt by (simp add: table_at_def catalog_io_files)
  have "io_ok catalog_io" using sample_store_ok by (simp add: store_ok_def io_ok_def catalog_io_def sample_io_def path_defs)
  moreover have "s = ''public''" if "is_directory (io_root catalog_io) [io_db_name catalog_io, s]" for s
    using that by (auto simp: catalog_io_def sample_io_def split: if_splits option.splits)
  ultimately show "catalog_ok catalog_io" unfolding catalog_ok_def at by (auto simp: no catalog_io_files)
qed

theorem write_mt_read_back_witness:
  "\<exists>io'. write_mt catalog_io sample_table True = Done io' \<and> catalog_ok io' \<and> read_table_meta io' 1 = Done sample_table \<and>
    (\<forall>tid. tid \<noteq> 1 \<longrightarrow> read_table_meta io' tid = read_table_meta catalog_io tid)"
proof -
  have "writable (io_root catalog_io) (path_db_schema_table_meta (io_db_name catalog_io) ''public'' ''t'')"
    by (simp add: writable_def catalog_io_def sample_io_def path_defs make_meta_filename_def)
  moreover have "ok_mt sample_table" "length (ms_buffer (serialize_mt sample_table)) \<le> max_alloc"
    by (simp_all add: serialize_mt_def serialize_mc_def serialize_mi_def Let_def stream_simps str_bytes_def
      bool_byte_def sample_simps)
  ultimately show ?thesis
    using write_mt_read_back [OF catalog_io_ok(1), of sample_schema sample_table True]
    by (simp add: catalog_io_ok sample_schema_def sample_table_def)
qed

end
