(* ===== verification/Catalog_Cache.thy ===== *)
theory Catalog_Cache
  imports File_Catalog Db_Interface
begin

text \<open>
  The catalog cache, \<^verbatim>\<open>storage/catalog.cpp\<close>: the tables and schemas of a database in memory, read from the storage manager
  when an instance starts and written back when it is destroyed. The two hash maps are association lists in the order in which the
  maps are walked. A \<^verbatim>\<open>MetaTable*\<close> of the cache is the key of its entry.
\<close>

record catalog =
  ct_tables :: "(uuid \<times> meta_table) list"
  ct_schemas :: "(uuid \<times> meta_schema) list"

definition catalog_new :: catalog where
  "catalog_new = \<lparr>ct_tables = [], ct_schemas = []\<rparr>"

text \<open>\<^verbatim>\<open>emplace\<close> keeps an entry that is there, assignment through \<^verbatim>\<open>operator[]\<close> replaces it.\<close>

definition map_emplace :: "'k \<Rightarrow> 'v \<Rightarrow> ('k \<times> 'v) list \<Rightarrow> ('k \<times> 'v) list" where
  "map_emplace k v m = (if k \<in> fst ` set m then m else (k, v) # m)"

definition map_assign :: "'k \<Rightarrow> 'v \<Rightarrow> ('k \<times> 'v) list \<Rightarrow> ('k \<times> 'v) list" where
  "map_assign k v m = (if k \<in> fst ` set m then map (\<lambda>(k', v'). (k', if k' = k then v else v')) m else (k, v) # m)"

definition catalog_hydrate :: "file_io \<Rightarrow> catalog outcome" where
  "catalog_hydrate io =
     obind (read_tables_meta io) (\<lambda>tables.
     obind (read_schemas_meta io) (\<lambda>schemas.
     Done \<lparr>ct_tables = fold (\<lambda>t. map_emplace (mt_id t) t) tables [],
           ct_schemas = fold (\<lambda>s. map_emplace (sc_id s) s) schemas []\<rparr>))"

text \<open>Writing back: a write that throws ends the loop, and the files written before it stay.\<close>

definition io_step :: "(file_io \<Rightarrow> file_io outcome) \<Rightarrow> (file_io, unit) prog" where
  "io_step f io = Some (case f io of
     Done io' \<Rightarrow> (Done (), io') | Failed \<Rightarrow> (Failed, io) | Raised e \<Rightarrow> (Raised e, io) | Undef \<Rightarrow> (Undef, io))"

fun flush_schemas :: "(uuid \<times> meta_schema) list \<Rightarrow> (file_io, unit) prog" where
  "flush_schemas [] = xreturn ()"
| "flush_schemas ((k, schema) # rest) = xbind (io_step (\<lambda>io. write_ms io schema True)) (\<lambda>_. flush_schemas rest)"

fun flush_tables :: "(uuid \<times> meta_table) list \<Rightarrow> (file_io, unit) prog" where
  "flush_tables [] = xreturn ()"
| "flush_tables ((k, table) # rest) = xbind (io_step (\<lambda>io. write_mt io table True)) (\<lambda>_. flush_tables rest)"

definition catalog_flush :: "catalog \<Rightarrow> (file_io, unit) prog" where
  "catalog_flush c = xbind (flush_schemas (ct_schemas c)) (\<lambda>_. flush_tables (ct_tables c))"

text \<open>The destructor swallows what \<^verbatim>\<open>flush\<close> throws.\<close>

definition catalog_destroy :: "catalog \<Rightarrow> (file_io, unit) prog" where
  "catalog_destroy c io =
     Option.bind (catalog_flush c io) (\<lambda>(r, io). Some (case r of Raised e \<Rightarrow> Done () | _ \<Rightarrow> r, io))"

definition catalog_put_table :: "meta_table \<Rightarrow> catalog \<Rightarrow> catalog" where
  "catalog_put_table table c = c\<lparr>ct_tables := map_assign (mt_id table) table (ct_tables c)\<rparr>"

definition catalog_put_schema :: "meta_schema \<Rightarrow> catalog \<Rightarrow> catalog" where
  "catalog_put_schema schema c = c\<lparr>ct_schemas := map_assign (sc_id schema) schema (ct_schemas c)\<rparr>"

definition catalog_get_table_by_id :: "uuid \<Rightarrow> catalog \<Rightarrow> uuid option" where
  "catalog_get_table_by_id i c = (if map_of (ct_tables c) i = None then None else Some i)"

definition catalog_get_table :: "string \<Rightarrow> uuid \<Rightarrow> catalog \<Rightarrow> uuid option" where
  "catalog_get_table name schema_id c =
     map_option fst (find (\<lambda>(k, t). mt_name t = name \<and> mt_schema_id t = schema_id) (ct_tables c))"

definition catalog_save_table :: "meta_table \<Rightarrow> catalog \<Rightarrow> catalog" where
  "catalog_save_table mt c =
     (case map_of (ct_tables c) (mt_id mt) of
        None \<Rightarrow> c\<lparr>ct_tables := map_emplace (mt_id mt) mt (ct_tables c)\<rparr>
      | Some _ \<Rightarrow> c\<lparr>ct_tables := map_assign (mt_id mt) mt (ct_tables c)\<rparr>)"

definition catalog_get_schema_by_id :: "uuid \<Rightarrow> catalog \<Rightarrow> meta_schema option" where
  "catalog_get_schema_by_id i c = map_of (ct_schemas c) i"

definition catalog_get_schema :: "string \<Rightarrow> catalog \<Rightarrow> meta_schema option" where
  "catalog_get_schema name c = map_option snd (find (\<lambda>(k, s). sc_name s = name) (ct_schemas c))"

definition catalog_exists_schema :: "string \<Rightarrow> catalog \<Rightarrow> bool" where
  "catalog_exists_schema name c \<longleftrightarrow> catalog_get_schema name c \<noteq> None"

definition catalog_save_schema :: "meta_schema \<Rightarrow> catalog \<Rightarrow> catalog" where
  "catalog_save_schema ms c =
     (case map_of (ct_schemas c) (sc_id ms) of
        None \<Rightarrow> c\<lparr>ct_schemas := map_emplace (sc_id ms) ms (ct_schemas c)\<rparr>
      | Some _ \<Rightarrow> c\<lparr>ct_schemas := map_assign (sc_id ms) ms (ct_schemas c)\<rparr>)"

text \<open>Reading and writing the table a pointer of the cache names.\<close>

definition catalog_deref :: "catalog \<Rightarrow> uuid option \<Rightarrow> meta_table outcome" where
  "catalog_deref c ptr = (case ptr of None \<Rightarrow> Undef | Some k \<Rightarrow> (case map_of (ct_tables c) k of None \<Rightarrow> Undef | Some t \<Rightarrow> Done t))"

definition catalog_modify :: "uuid \<Rightarrow> (meta_table \<Rightarrow> meta_table) \<Rightarrow> catalog \<Rightarrow> catalog" where
  "catalog_modify k f c = c\<lparr>ct_tables := map (\<lambda>(k', t). (k', if k' = k then f t else t)) (ct_tables c)\<rparr>"

section \<open>Lookups\<close>

text \<open>Entries stand under the identifier of their table, and one entry per table.\<close>

definition catalog_wf :: "catalog \<Rightarrow> bool" where
  "catalog_wf c \<longleftrightarrow> distinct (map fst (ct_tables c)) \<and> list_all (\<lambda>(k, t). mt_id t = k) (ct_tables c) \<and>
     distinct (map fst (ct_schemas c)) \<and> list_all (\<lambda>(k, s). sc_id s = k) (ct_schemas c)"

lemma map_assign_map_of: "map_of (map_assign k v m) = (map_of m)(k \<mapsto> v)"
proof (cases "k \<in> fst ` set m")
  case True
  have "map_of (map (\<lambda>(k', v'). (k', if k' = k then v else v')) m) =
      (\<lambda>i. if i = k then map_option (\<lambda>_. v) (map_of m i) else map_of m i)" by (induction m) auto
  moreover have "map_of m k \<noteq> None" using True by (simp add: map_of_eq_None_iff)
  ultimately show ?thesis using True by (auto simp: map_assign_def fun_eq_iff)
next
  case False
  then show ?thesis by (simp add: map_assign_def)
qed

lemma map_modify_map_of: "map_of (map (\<lambda>(k', t). (k', if k' = k then f t else t)) m) i =
    (if i = k then map_option f (map_of m i) else map_of m i)"
  by (induction m) auto

lemma catalog_deref_modify [simp]:
  "catalog_deref (catalog_modify k f c) (Some i) =
     (if i = k then obind (catalog_deref c (Some i)) (\<lambda>t. Done (f t)) else catalog_deref c (Some i))"
  by (simp add: catalog_deref_def catalog_modify_def map_modify_map_of split: option.split)

lemma in_keys_iff: "k \<in> fst ` set m \<longleftrightarrow> map_of m k \<noteq> None"
  by (simp add: map_of_eq_None_iff)

lemma save_table_assign: "ct_tables (catalog_save_table mt c) = map_assign (mt_id mt) mt (ct_tables c)"
  unfolding catalog_save_table_def map_emplace_def map_assign_def in_keys_iff by (simp split: option.split)

lemma save_schema_assign: "ct_schemas (catalog_save_schema ms c) = map_assign (sc_id ms) ms (ct_schemas c)"
  unfolding catalog_save_schema_def map_emplace_def map_assign_def in_keys_iff by (simp split: option.split)

lemma save_other [simp]: "ct_schemas (catalog_save_table mt c) = ct_schemas c" "ct_tables (catalog_save_schema ms c) = ct_tables c"
  by (simp_all add: catalog_save_table_def catalog_save_schema_def split: option.split)

lemma catalog_deref_save [simp]:
  "catalog_deref (catalog_save_table mt c) (Some i) = (if i = mt_id mt then Done mt else catalog_deref c (Some i))"
  by (simp add: catalog_deref_def save_table_assign map_assign_map_of)

lemma map_assign_keys: "map fst (map_assign k v m) = (if k \<in> fst ` set m then map fst m else k # map fst m)"
  by (auto simp: map_assign_def intro: map_cong)

lemma list_all_assign: "list_all P m \<Longrightarrow> P (k, v) \<Longrightarrow> list_all P (map_assign k v m)"
  by (auto simp: map_assign_def list_all_iff)

lemma fold_emplace_wf:
  "distinct (map fst m) \<Longrightarrow> list_all (\<lambda>(k, v). f v = k) m \<Longrightarrow>
   distinct (map fst (fold (\<lambda>v. map_emplace (f v) v) vs m)) \<and> list_all (\<lambda>(k, v). f v = k) (fold (\<lambda>v. map_emplace (f v) v) vs m)"
  by (induction vs arbitrary: m) (auto simp: map_emplace_def)

text \<open>A table that was saved is found by its name, provided no other table of the schema has that name; what the cache holds is
  well-formed after it was filled and after every change.\<close>

lemma catalog_wf_hydrate: "catalog_hydrate io = Done c \<Longrightarrow> catalog_wf c"
  by (auto simp: catalog_hydrate_def catalog_wf_def obind_Done_conv fold_emplace_wf)

lemma catalog_wf_save:
  "catalog_wf c \<Longrightarrow> catalog_wf (catalog_save_table mt c)" "catalog_wf c \<Longrightarrow> catalog_wf (catalog_save_schema ms c)"
  by (auto simp: catalog_wf_def save_table_assign save_schema_assign map_assign_keys list_all_assign)

lemma catalog_wf_modify:
  assumes "catalog_wf c" and "\<And>t. mt_id (f t) = mt_id t"
  shows "catalog_wf (catalog_modify k f c)"
proof -
  have "map fst (map (\<lambda>(k', t). (k', if k' = k then f t else t)) (ct_tables c)) = map fst (ct_tables c)" by (auto intro: map_cong)
  with assms show ?thesis unfolding catalog_wf_def catalog_modify_def
    by (simp del: map_map) (auto simp: list_all_iff)
qed

lemma find_assign:
  assumes "P (k, v)" and "\<forall>x\<in>set m. P x \<longrightarrow> fst x = k"
  shows "find P (map_assign k v m) = Some (k, v)"
proof (cases "k \<in> fst ` set m")
  case True
  then have "find P (map (\<lambda>(k', v'). (k', if k' = k then v else v')) m) = Some (k, v)"
    using assms(2)
  proof (induction m)
    case (Cons x m)
    obtain a b where x: "x = (a, b)" by (cases x)
    show ?case
    proof (cases "a = k")
      case False
      with Cons.prems x have "\<not> P (a, b)" "k \<in> fst ` set m" by auto
      with Cons x False show ?thesis by simp
    qed (use assms(1) x in simp)
  qed simp
  with True show ?thesis by (simp add: map_assign_def)
qed (use assms(1) in \<open>simp add: map_assign_def\<close>)

lemma catalog_get_saved:
  assumes "catalog_wf c" and "\<And>k t. (k, t) \<in> set (ct_tables c) \<Longrightarrow> mt_name t = mt_name mt \<Longrightarrow> mt_schema_id t = mt_schema_id mt \<Longrightarrow> k = mt_id mt"
  shows "catalog_get_table (mt_name mt) (mt_schema_id mt) (catalog_save_table mt c) = Some (mt_id mt)"
proof -
  let ?P = "\<lambda>(k, t). mt_name t = mt_name mt \<and> mt_schema_id t = mt_schema_id mt"
  have "find ?P (map_assign (mt_id mt) mt (ct_tables c)) = Some (mt_id mt, mt)"
    using assms(2) by (intro find_assign) auto
  then show ?thesis by (simp add: catalog_get_table_def save_table_assign)
qed

end
