(* ===== verification/Cache.thy ===== *)
theory Cache
  imports Db_Prelude "HOL-Library.AList"
begin

text \<open>
  The write-back cache \<^verbatim>\<open>misc/include/cache.hpp\<close> with its LRU policy \<^verbatim>\<open>misc/include/LRU_policy.hpp\<close>.
  The hash map is an association list in the order of its iteration; the policy's list of keys runs from the most
  to the least recently used, and its table of list positions holds exactly the keys of that list. The flusher of an
  entry is an argument: it acts on the state \<open>'s\<close> behind the cache and may throw.
\<close>

section \<open>Policy\<close>

definition lru_touch :: "'k \<Rightarrow> 'k list \<Rightarrow> 'k list" where
  "lru_touch key lru = key # (if key \<in> set lru then remove1 key lru else lru)"

definition lru_insert :: "'k \<Rightarrow> 'k list \<Rightarrow> 'k list" where
  "lru_insert key lru = lru_touch key lru"

text \<open>\<^verbatim>\<open>back()\<close> of an empty list is undefined.\<close>

definition lru_evict :: "'k list \<Rightarrow> ('k \<times> 'k list) outcome" where
  "lru_evict lru = (if lru = [] then Undef else Done (last lru, butlast lru))"

text \<open>What the cache asks of its policy: it tracks the keys it was told of and evicts one of them.\<close>

locale eviction_policy =
  fixes touch :: "'k \<Rightarrow> 'p \<Rightarrow> 'p"
    and evict :: "'p \<Rightarrow> ('k \<times> 'p) outcome"
    and tracked :: "'p \<Rightarrow> 'k set"
    and wf :: "'p \<Rightarrow> bool"
  assumes touch_wf: "wf p \<Longrightarrow> wf (touch k p)"
    and touch_tracked: "wf p \<Longrightarrow> tracked (touch k p) = insert k (tracked p)"
    and evict_Done: "wf p \<Longrightarrow> tracked p \<noteq> {} \<Longrightarrow>
      \<exists>k p'. evict p = Done (k, p') \<and> wf p' \<and> k \<in> tracked p \<and> tracked p' = tracked p - {k}"
begin

lemma evict_after_touch: "wf p \<Longrightarrow> \<exists>k' p'. evict (touch k p) = Done (k', p') \<and> k' \<in> insert k (tracked p)"
  using evict_Done [OF touch_wf, of p k] touch_tracked [of p k] by fastforce

end

interpretation lru: eviction_policy lru_touch lru_evict set distinct
proof
  fix p :: "'a list" and k assume d: "distinct p"
  show "distinct (lru_touch k p)" and "set (lru_touch k p) = insert k (set p)" using d by (auto simp: lru_touch_def)
  assume "set p \<noteq> {}"
  then have p: "p = butlast p @ [last p]" by simp
  have "distinct (butlast p @ [last p])" using d p by simp
  moreover have "set p = insert (last p) (set (butlast p))" using arg_cong [OF p, of set] by simp
  ultimately show "\<exists>k p'. lru_evict p = Done (k, p') \<and> distinct p' \<and> k \<in> set p \<and> set p' = set p - {k}"
    using \<open>set p \<noteq> {}\<close> by (auto simp: lru_evict_def)
qed

section \<open>Cache\<close>

record 'v cache_entry =
  ce_value :: 'v
  ce_dirty :: bool

record ('k, 'v) cache =
  ca_max_size :: nat
  ca_map :: "('k \<times> 'v cache_entry) list"
  ca_lru :: "'k list"

definition cache_new :: "('k, 'v) cache" where
  "cache_new = \<lparr>ca_max_size = 100, ca_map = [], ca_lru = []\<rparr>"

definition cache_evict_one ::
    "('v cache_entry \<Rightarrow> 's \<Rightarrow> 's outcome) \<Rightarrow> ('k, 'v) cache \<Rightarrow> 's \<Rightarrow> (('k, 'v) cache \<times> 's) outcome" where
  "cache_evict_one flush c s =
     obind (lru_evict (ca_lru c)) (\<lambda>(victim_key, lru).
     case map_of (ca_map c) victim_key of
       None \<Rightarrow> Done (c\<lparr>ca_lru := lru\<rparr>, s)
     | Some victim \<Rightarrow>
         obind (if ce_dirty victim then flush victim s else Done s) (\<lambda>s.
         Done (c\<lparr>ca_lru := lru, ca_map := AList.delete victim_key (ca_map c)\<rparr>, s)))"

definition cache_put ::
    "('v cache_entry \<Rightarrow> 's \<Rightarrow> 's outcome) \<Rightarrow> 'k \<Rightarrow> 'v \<Rightarrow> ('k, 'v) cache \<Rightarrow> 's \<Rightarrow> (('k, 'v) cache \<times> 's) outcome" where
  "cache_put flush key val c s =
     (case map_of (ca_map c) key of
        Some e \<Rightarrow>
          Done (c\<lparr>ca_map := AList.update key (e\<lparr>ce_value := val\<rparr>) (ca_map c), ca_lru := lru_touch key (ca_lru c)\<rparr>, s)
      | None \<Rightarrow>
          obind (if length (ca_map c) \<ge> ca_max_size c then cache_evict_one flush c s else Done (c, s)) (\<lambda>(c, s).
          Done (c\<lparr>ca_map := (key, \<lparr>ce_value = val, ce_dirty = False\<rparr>) # ca_map c,
                  ca_lru := lru_insert key (ca_lru c)\<rparr>, s)))"

definition cache_get :: "'k \<Rightarrow> ('k, 'v) cache \<Rightarrow> 'v cache_entry option \<times> ('k, 'v) cache" where
  "cache_get key c =
     (case map_of (ca_map c) key of
        None \<Rightarrow> (None, c)
      | Some e \<Rightarrow> (Some e, c\<lparr>ca_lru := lru_touch key (ca_lru c)\<rparr>))"

definition cache_mark_dirty :: "'k \<Rightarrow> ('k, 'v) cache \<Rightarrow> ('k, 'v) cache" where
  "cache_mark_dirty key c =
     (case map_of (ca_map c) key of
        None \<Rightarrow> c
      | Some e \<Rightarrow> c\<lparr>ca_lru := lru_touch key (ca_lru c), ca_map := AList.update key (e\<lparr>ce_dirty := True\<rparr>) (ca_map c)\<rparr>)"

text \<open>A write through the pointer that \<^verbatim>\<open>get\<close> returned.\<close>

definition cache_modify :: "'k \<Rightarrow> ('v \<Rightarrow> 'v) \<Rightarrow> ('k, 'v) cache \<Rightarrow> ('k, 'v) cache" where
  "cache_modify key f c =
     (case map_of (ca_map c) key of
        None \<Rightarrow> c
      | Some e \<Rightarrow> c\<lparr>ca_map := AList.update key (e\<lparr>ce_value := f (ce_value e)\<rparr>) (ca_map c)\<rparr>)"

section \<open>Invariant\<close>

definition cache_ok :: "('k, 'v) cache \<Rightarrow> bool" where
  "cache_ok c \<longleftrightarrow> 0 < ca_max_size c \<and> distinct (map fst (ca_map c)) \<and> distinct (ca_lru c) \<and>
     set (ca_lru c) = set (map fst (ca_map c)) \<and> length (ca_map c) \<le> ca_max_size c"

lemma cache_new_ok [simp]: "cache_ok cache_new"
  by (simp add: cache_ok_def cache_new_def)

lemmas lru_touch_simps [simp] = lru.touch_tracked lru.touch_wf

lemma length_AList_update:
  "length (AList.update k v xs) = (if k \<in> fst ` set xs then length xs else Suc (length xs))"
  by (induction xs) auto

lemma map_of_Some_key: "map_of xs k = Some v \<Longrightarrow> k \<in> fst ` set xs"
  by (metis map_of_SomeD fst_conv image_eqI)

lemma fst_memI: "(k, v) \<in> set xs \<Longrightarrow> k \<in> fst ` set xs"
  by (force simp: image_iff)

lemma cache_get_ok: "cache_ok c \<Longrightarrow> cache_ok (snd (cache_get key c))"
  by (auto simp: cache_get_def cache_ok_def dest: fst_memI split: option.splits)

lemma cache_mark_dirty_ok: "cache_ok c \<Longrightarrow> cache_ok (cache_mark_dirty key c)"
  by (auto simp: cache_mark_dirty_def cache_ok_def distinct_update dom_update length_AList_update
      dest: fst_memI split: option.splits)

lemma cache_modify_ok: "cache_ok c \<Longrightarrow> cache_ok (cache_modify key f c)"
  by (auto simp: cache_modify_def cache_ok_def distinct_update dom_update length_AList_update
      dest: fst_memI split: option.splits)

lemma cache_ok_length: "cache_ok c \<Longrightarrow> length (ca_lru c) = length (ca_map c)"
  by (metis cache_ok_def distinct_card length_map)

text \<open>Eviction drops the least recently used entry, after flushing it when it is dirty.\<close>

lemma cache_evict_one_eq:
  assumes "cache_ok c" and "ca_map c \<noteq> []"
  obtains e where "map_of (ca_map c) (last (ca_lru c)) = Some e"
    and "cache_evict_one flush c s =
      obind (if ce_dirty e then flush e s else Done s) (\<lambda>s.
      Done (c\<lparr>ca_lru := butlast (ca_lru c), ca_map := AList.delete (last (ca_lru c)) (ca_map c)\<rparr>, s))"
proof -
  have ne: "ca_lru c \<noteq> []" using cache_ok_length [OF assms(1)] assms(2) by auto
  then have "last (ca_lru c) \<in> set (ca_lru c)" by (rule last_in_set)
  then have "last (ca_lru c) \<in> fst ` set (ca_map c)" using assms(1) by (simp add: cache_ok_def)
  then obtain e where "map_of (ca_map c) (last (ca_lru c)) = Some e" by (metis map_of_eq_None_iff option.exhaust)
  with that ne show thesis by (simp add: cache_evict_one_def lru_evict_def)
qed

lemma length_delete:
  "distinct (map fst xs) \<Longrightarrow> k \<in> fst ` set xs \<Longrightarrow> Suc (length (AList.delete k xs)) = length xs"
proof (induction xs)
  case (Cons x xs)
  then show ?case by (cases "fst x = k"; cases x) auto
qed simp

lemma cache_evict_one_Done:
  assumes "cache_ok c" and "ca_map c \<noteq> []" and "cache_evict_one flush c s = Done (c', s')"
  shows "cache_ok c'" and "Suc (length (ca_map c')) = length (ca_map c)" and "ca_max_size c' = ca_max_size c"
    and "map_of (ca_map c') = (map_of (ca_map c))(last (ca_lru c) := None)" and "ca_lru c' = butlast (ca_lru c)"
    and "\<exists>e. map_of (ca_map c) (last (ca_lru c)) = Some e \<and> (if ce_dirty e then flush e s else Done s) = Done s'"
proof -
  let ?k = "last (ca_lru c)"
  obtain e where e: "map_of (ca_map c) ?k = Some e" and ev: "cache_evict_one flush c s =
      obind (if ce_dirty e then flush e s else Done s) (\<lambda>s.
      Done (c\<lparr>ca_lru := butlast (ca_lru c), ca_map := AList.delete ?k (ca_map c)\<rparr>, s))"
    using cache_evict_one_eq [OF assms(1,2), of flush s] by metis
  have c': "c' = c\<lparr>ca_lru := butlast (ca_lru c), ca_map := AList.delete ?k (ca_map c)\<rparr>"
    and fl: "(if ce_dirty e then flush e s else Done s) = Done s'"
    using assms(3) unfolding ev by (auto simp: obind_Done_conv)
  have ne: "ca_lru c \<noteq> []" using cache_ok_length [OF assms(1)] assms(2) by auto
  have lru: "distinct (butlast (ca_lru c)) \<and> set (butlast (ca_lru c)) = set (ca_lru c) - {?k}"
    using lru.evict_Done [of "ca_lru c"] ne assms(1) by (auto simp: lru_evict_def cache_ok_def)
  have k: "?k \<in> fst ` set (ca_map c)" using e by (rule map_of_Some_key)
  show len: "Suc (length (ca_map c')) = length (ca_map c)"
    using length_delete [OF _ k] assms(1) by (simp add: c' cache_ok_def)
  show "cache_ok c'"
    using assms(1) lru len by (simp add: cache_ok_def c' delete_keys distinct_removeAll del: set_map)
  show "map_of (ca_map c') = (map_of (ca_map c))(?k := None)"
    by (simp add: c' delete_conv')
  show "ca_max_size c' = ca_max_size c" and "ca_lru c' = butlast (ca_lru c)" by (simp_all add: c')
  show "\<exists>e. map_of (ca_map c) ?k = Some e \<and> (if ce_dirty e then flush e s else Done s) = Done s'"
    using e fl by blast
qed

lemma cache_put_Done:
  assumes "cache_ok c" and "cache_put flush k v c s = Done (c', s')"
  shows "cache_ok c'" and "ca_max_size c' = ca_max_size c"
    and "ca_lru c' = take (ca_max_size c) (k # removeAll k (ca_lru c))"
    and "\<exists>d. map_of (ca_map c') k = Some \<lparr>ce_value = v, ce_dirty = d\<rparr>"
proof -
  have inv: "0 < ca_max_size c" "distinct (map fst (ca_map c))" "distinct (ca_lru c)"
    "set (ca_lru c) = fst ` set (ca_map c)" "length (ca_map c) \<le> ca_max_size c" using assms(1) by (auto simp: cache_ok_def)
  note len = cache_ok_length [OF assms(1)]
  have "cache_ok c' \<and> ca_max_size c' = ca_max_size c \<and> ca_lru c' = take (ca_max_size c) (k # removeAll k (ca_lru c)) \<and>
    (\<exists>d. map_of (ca_map c') k = Some \<lparr>ce_value = v, ce_dirty = d\<rparr>)"
  proof (cases "map_of (ca_map c) k")
    case (Some e)
    then have k: "k \<in> fst ` set (ca_map c)" by (rule map_of_Some_key)
    have c': "c' = c\<lparr>ca_map := AList.update k (e\<lparr>ce_value := v\<rparr>) (ca_map c), ca_lru := lru_touch k (ca_lru c)\<rparr>"
      using assms(2) Some by (simp add: cache_put_def)
    have "cache_ok c'" using inv k
      by (auto simp: cache_ok_def c' distinct_update dom_update length_AList_update)
    moreover have "length (k # removeAll k (ca_lru c)) \<le> ca_max_size c"
      using k inv len by (simp add: length_remove1 flip: distinct_remove1_removeAll)
    moreover have "\<exists>d. e\<lparr>ce_value := v\<rparr> = \<lparr>ce_value = v, ce_dirty = d\<rparr>" by (cases e) simp
    ultimately show ?thesis using k inv by (simp add: c' update_conv lru_touch_def distinct_remove1_removeAll)
  next
    case None
    then have k: "k \<notin> fst ` set (ca_map c)" by (simp add: map_of_eq_None_iff)
    show ?thesis
    proof (cases "length (ca_map c) \<ge> ca_max_size c")
      case True
      then have ne: "ca_map c \<noteq> []" and full: "length (ca_lru c) = ca_max_size c" using inv len by auto
      obtain c1 s1 where ev: "cache_evict_one flush c s = Done (c1, s1)"
        and c': "c' = c1\<lparr>ca_map := (k, \<lparr>ce_value = v, ce_dirty = False\<rparr>) # ca_map c1, ca_lru := lru_insert k (ca_lru c1)\<rparr>"
        using assms(2) None True by (auto simp: cache_put_def obind_Done_conv)
      note e = cache_evict_one_Done [OF assms(1) ne ev]
      have "k \<notin> set (ca_lru c1)" using k inv(4) e(5) in_set_butlastD by metis
      with e(1) have k1: "k \<notin> set (ca_lru c1)" "k \<notin> fst ` set (ca_map c1)" by (simp_all add: cache_ok_def)
      have "cache_ok c'" using e(1-3) k1 inv by (simp add: cache_ok_def c' lru_insert_def)
      moreover have "butlast (ca_lru c) = take (ca_max_size c - 1) (ca_lru c)" using full by (simp add: butlast_conv_take)
      ultimately show ?thesis
        using e(3,5) k1 k inv by (simp add: c' lru_insert_def lru_touch_def take_Cons') blast
    next
      case False
      then have c': "c' = c\<lparr>ca_map := (k, \<lparr>ce_value = v, ce_dirty = False\<rparr>) # ca_map c, ca_lru := lru_insert k (ca_lru c)\<rparr>"
        using assms(2) None by (simp add: cache_put_def)
      have k1: "k \<notin> set (ca_lru c)" using k inv by simp
      have "cache_ok c'" using False inv k by (simp add: cache_ok_def c' lru_insert_def)
      with False k1 len show ?thesis by (simp add: c' lru_insert_def lru_touch_def) blast
    qed
  qed
  then show "cache_ok c'" and "ca_max_size c' = ca_max_size c"
    and "ca_lru c' = take (ca_max_size c) (k # removeAll k (ca_lru c))"
    and "\<exists>d. map_of (ca_map c') k = Some \<lparr>ce_value = v, ce_dirty = d\<rparr>" by auto
qed

section \<open>Properties\<close>

text \<open>The keys of a sequence of accesses from the most to the least recently used.\<close>

definition recency :: "'k list \<Rightarrow> 'k list" where
  "recency ks = fold (\<lambda>k r. k # removeAll k r) ks []"

lemma recency_snoc: "recency (ks @ [k]) = k # removeAll k (recency ks)"
  by (simp add: recency_def)

lemma distinct_recency: "distinct (recency ks)"
  by (induction ks rule: rev_induct) (simp_all add: recency_snoc distinct_removeAll, simp add: recency_def)

lemma take_removeAll: "distinct r \<Longrightarrow> take j (removeAll k (take (Suc j) r)) = take j (removeAll k r)"
proof (induction r arbitrary: j)
  case (Cons x r)
  show ?case
  proof (cases "x = k")
    case True
    then have "k \<notin> set r" using Cons.prems by simp
    then have "removeAll k (take j r) = take j r" by (meson in_set_takeD removeAll_id)
    with True \<open>k \<notin> set r\<close> show ?thesis by simp
  next
    case False
    with Cons show ?thesis by (cases j) auto
  qed
qed simp

lemma take_fold_recency:
  "distinct r \<Longrightarrow> take (Suc j) (fold (\<lambda>k r. k # removeAll k r) ks (take (Suc j) r)) =
   take (Suc j) (fold (\<lambda>k r. k # removeAll k r) ks r)"
proof (induction ks arbitrary: r rule: rev_induct)
  case (snoc k ks)
  have d: "distinct (fold (\<lambda>k r. k # removeAll k r) ks r)" if "distinct r" for r :: "'a list"
    using that by (induction ks arbitrary: r) (simp_all add: distinct_removeAll)
  let ?f = "fold (\<lambda>k r. k # removeAll k r) ks"
  have "take j (removeAll k (?f (take (Suc j) r))) = take j (removeAll k (take (Suc j) (?f (take (Suc j) r))))"
    using take_removeAll [OF d, of "take (Suc j) r" j k] snoc.prems by simp
  also have "\<dots> = take j (removeAll k (?f r))"
    unfolding snoc.IH [OF snoc.prems] using take_removeAll [OF d [OF snoc.prems], of j k] .
  finally show ?case by simp
qed simp

lemma fold_recency_distinct:
  "distinct ks \<Longrightarrow> \<exists>t. fold (\<lambda>k r. k # removeAll k r) ks r = rev ks @ t"
proof (induction ks rule: rev_induct)
  case (snoc k ks)
  then obtain t where "fold (\<lambda>k r. k # removeAll k r) ks r = rev ks @ t" "k \<notin> set ks" by auto
  then show ?case by (auto simp: removeAll_id)
qed simp

lemma puts_recency:
  "cache_ok c \<Longrightarrow> ca_lru c = [] \<Longrightarrow> ofold (\<lambda>(k, v) (c, s). cache_put flush k v c s) kvs (c, s) = Done (c', s') \<Longrightarrow>
   cache_ok c' \<and> ca_max_size c' = ca_max_size c \<and> ca_lru c' = take (ca_max_size c) (recency (map fst kvs))"
proof (induction kvs arbitrary: c' s' rule: rev_induct)
  case (snoc kv kvs)
  obtain k v where kv: "kv = (k, v)" by (cases kv)
  from snoc.prems(3) obtain c1 s1 where
    c1: "ofold (\<lambda>(k, v) (c, s). cache_put flush k v c s) kvs (c, s) = Done (c1, s1)" and p: "cache_put flush k v c1 s1 = Done (c', s')"
    by (auto simp: ofold_append obind_Done_conv kv)
  have IH: "cache_ok c1" "ca_max_size c1 = ca_max_size c" "ca_lru c1 = take (ca_max_size c) (recency (map fst kvs))"
    using snoc.IH [OF snoc.prems(1,2) c1] by auto
  obtain j where j: "ca_max_size c = Suc j" using snoc.prems(1) by (cases "ca_max_size c") (auto simp: cache_ok_def)
  show ?case
    using cache_put_Done [OF IH(1) p] IH j take_removeAll [OF distinct_recency, of j k "map fst kvs"]
    by (simp add: kv recency_snoc)
qed (simp add: recency_def)



end
