(* ===== verification/Buffer_Pool.thy ===== *)
theory Buffer_Pool
  imports File_Io Cache
begin

text \<open>
  The buffer pool, \<^verbatim>\<open>storage/buffer_pool.cpp\<close>: two caches, of data pages and of index files, over the storage
  manager. A \<^verbatim>\<open>DataPage*\<close> the pool hands out is the key of its cache entry: it may be dereferenced while that
  entry is cached and dangles once the entry is evicted.
\<close>

section \<open>Operations\<close>

record buffer_pool =
  bp_data_pages :: "(uuid, data_page) cache"
  bp_index_files :: "(uuid, index_file) cache"
  bp_io :: file_io
  bp_pages_of :: "uuid \<rightharpoonup> uuid list"
  bp_indexes_of :: "uuid \<rightharpoonup> uuid list"

definition buffer_pool_new :: "file_io \<Rightarrow> buffer_pool" where
  "buffer_pool_new io = \<lparr>bp_data_pages = cache_new, bp_index_files = cache_new, bp_io = io,
     bp_pages_of = Map.empty, bp_indexes_of = Map.empty\<rparr>"

definition flush_dp :: "data_page cache_entry \<Rightarrow> file_io \<Rightarrow> (data_page cache_entry \<times> file_io) outcome" where
  "flush_dp page_entry io =
     (if ce_dirty page_entry
      then obind (write_page io (ce_value page_entry) True) (\<lambda>io. Done (page_entry\<lparr>ce_dirty := False\<rparr>, io))
      else Done (page_entry, io))"

definition flush_if :: "index_file cache_entry \<Rightarrow> file_io \<Rightarrow> (index_file cache_entry \<times> file_io) outcome" where
  "flush_if index_file_entry io =
     (if ce_dirty index_file_entry
      then obind (write_index_file io (ce_value index_file_entry) True)
             (\<lambda>io. Done (index_file_entry\<lparr>ce_dirty := False\<rparr>, io))
      else Done (index_file_entry, io))"

text \<open>The flushers given to the caches.\<close>

definition data_page_flusher :: "data_page cache_entry \<Rightarrow> file_io \<Rightarrow> file_io outcome" where
  "data_page_flusher e io = obind (flush_dp e io) (\<lambda>(e, io). Done io)"

definition index_file_flusher :: "index_file cache_entry \<Rightarrow> file_io \<Rightarrow> file_io outcome" where
  "index_file_flusher e io = obind (flush_if e io) (\<lambda>(e, io). Done io)"

definition initialize :: "buffer_pool \<Rightarrow> buffer_pool outcome" where
  "initialize bp =
     obind (map_data_pages_for_table (bp_io bp)) (\<lambda>pages.
     obind (map_index_files_for_table (bp_io bp)) (\<lambda>indexes.
     Done (bp\<lparr>bp_pages_of := pages, bp_indexes_of := indexes\<rparr>)))"

definition append_to :: "uuid \<Rightarrow> uuid \<Rightarrow> (uuid \<rightharpoonup> uuid list) \<Rightarrow> (uuid \<rightharpoonup> uuid list)" where
  "append_to key i m = (case m key of None \<Rightarrow> m(key \<mapsto> [i]) | Some is \<Rightarrow> m(key \<mapsto> is @ [i]))"

definition put_dp :: "uuid \<Rightarrow> data_page \<Rightarrow> buffer_pool \<Rightarrow> buffer_pool outcome" where
  "put_dp page_id page bp =
     obind (cache_put data_page_flusher page_id page (bp_data_pages bp) (bp_io bp)) (\<lambda>(c, io).
     Done (bp\<lparr>bp_data_pages := c, bp_io := io\<rparr>))"

text \<open>\<open>new_id\<close> is the fresh identifier of \<^verbatim>\<open>DataPageId::make()\<close>.\<close>

definition create_dp :: "uuid \<Rightarrow> meta_table \<Rightarrow> buffer_pool \<Rightarrow> (data_page \<times> buffer_pool) outcome" where
  "create_dp new_id mt bp =
     obind (create_page (bp_io bp) mt new_id) (\<lambda>new_page.
     obind (put_dp new_id new_page bp) (\<lambda>bp.
     let bp = bp\<lparr>bp_pages_of := append_to (mt_id mt) new_id (bp_pages_of bp)\<rparr>;
         (entry, c) = cache_get new_id (bp_data_pages bp)
     in case entry of
          None \<Rightarrow> Undef
        | Some e \<Rightarrow> Done (ce_value e, bp\<lparr>bp_data_pages := c\<rparr>)))"

definition get_dp :: "uuid \<Rightarrow> buffer_pool \<Rightarrow> (data_page option \<times> buffer_pool) outcome" where
  "get_dp page_id bp =
     (let (entry, c) = cache_get page_id (bp_data_pages bp); bp = bp\<lparr>bp_data_pages := c\<rparr>
      in case entry of
           Some e \<Rightarrow> Done (Some (ce_value e), bp)
         | None \<Rightarrow>
             obind (read_data_page (bp_io bp) page_id) (\<lambda>loaded_page.
             case loaded_page of
               None \<Rightarrow> Done (None, bp)
             | Some page \<Rightarrow>
                 obind (put_dp page_id page bp) (\<lambda>bp.
                 let (entry, c) = cache_get page_id (bp_data_pages bp)
                 in Done (map_option ce_value entry, bp\<lparr>bp_data_pages := c\<rparr>))))"

fun prepare_loop :: "u64 \<Rightarrow> uuid list \<Rightarrow> buffer_pool \<Rightarrow> (data_page option \<times> buffer_pool) outcome" where
  "prepare_loop row_size [] bp = Done (None, bp)"
| "prepare_loop row_size (page_id # ids) bp =
     obind (get_dp page_id bp) (\<lambda>(page, bp).
     case page of
       None \<Rightarrow> prepare_loop row_size ids bp
     | Some page \<Rightarrow> if dp_size page + row_size \<le> DP_MAX_SIZE then Done (Some page, bp) else prepare_loop row_size ids bp)"

definition prepare_dp :: "uuid \<Rightarrow> u64 \<Rightarrow> meta_table \<Rightarrow> buffer_pool \<Rightarrow> (data_page \<times> buffer_pool) outcome" where
  "prepare_dp new_id row_size mt bp =
     (case bp_pages_of bp (mt_id mt) of
        None \<Rightarrow> create_dp new_id mt bp
      | Some ids \<Rightarrow>
          obind (prepare_loop row_size ids bp) (\<lambda>(page, bp).
          case page of Some page \<Rightarrow> Done (page, bp) | None \<Rightarrow> create_dp new_id mt bp))"

text \<open>The pointers of \<^verbatim>\<open>get_table_data\<close>: the keys of the pages, \<open>None\<close> for a null pointer.\<close>

fun table_data_loop :: "uuid list \<Rightarrow> buffer_pool \<Rightarrow> (uuid option list \<times> buffer_pool) outcome" where
  "table_data_loop [] bp = Done ([], bp)"
| "table_data_loop (page_id # ids) bp =
     obind (get_dp page_id bp) (\<lambda>(page, bp).
     obind (table_data_loop ids bp) (\<lambda>(pages, bp). Done (map_option (\<lambda>p. page_id) page # pages, bp)))"

definition get_table_data :: "uuid \<Rightarrow> buffer_pool \<Rightarrow> (uuid option list \<times> buffer_pool) outcome" where
  "get_table_data table_id bp =
     (case bp_pages_of bp table_id of None \<Rightarrow> Done ([], bp) | Some ids \<Rightarrow> table_data_loop ids bp)"

definition deref_dp :: "buffer_pool \<Rightarrow> uuid option \<Rightarrow> data_page outcome" where
  "deref_dp bp ptr =
     (case ptr of
        None \<Rightarrow> Undef
      | Some key \<Rightarrow> (case map_of (ca_map (bp_data_pages bp)) key of None \<Rightarrow> Undef | Some e \<Rightarrow> Done (ce_value e)))"

definition modify_dp :: "uuid \<Rightarrow> (data_page \<Rightarrow> data_page) \<Rightarrow> buffer_pool \<Rightarrow> buffer_pool" where
  "modify_dp key f bp = bp\<lparr>bp_data_pages := cache_modify key f (bp_data_pages bp)\<rparr>"

definition dirty_dp :: "uuid \<Rightarrow> buffer_pool \<Rightarrow> data_page option \<times> buffer_pool" where
  "dirty_dp page_id bp =
     (let (entry, c) = cache_get page_id (cache_mark_dirty page_id (bp_data_pages bp))
      in (map_option ce_value entry, bp\<lparr>bp_data_pages := c\<rparr>))"

section \<open>Index files\<close>

definition get_table_index :: "uuid \<Rightarrow> uuid \<Rightarrow> buffer_pool \<Rightarrow> (index_file option \<times> buffer_pool) outcome" where
  "get_table_index table_id index_id bp =
     (case bp_indexes_of bp table_id of
        None \<Rightarrow> Done (None, bp)
      | Some ids \<Rightarrow>
          if index_id \<notin> set ids then Done (None, bp)
          else
            let (entry, c) = cache_get index_id (bp_index_files bp); bp = bp\<lparr>bp_index_files := c\<rparr>
            in case entry of
                 Some e \<Rightarrow> Done (Some (ce_value e), bp)
               | None \<Rightarrow>
                   obind (read_index_file (bp_io bp) index_id) (\<lambda>loaded_file.
                   case loaded_file of
                     None \<Rightarrow> Done (None, bp)
                   | Some file \<Rightarrow>
                       obind (cache_put index_file_flusher index_id file (bp_index_files bp) (bp_io bp)) (\<lambda>(c, io).
                       let (entry, c) = cache_get index_id c
                       in Done (map_option ce_value entry, bp\<lparr>bp_index_files := c, bp_io := io\<rparr>))))"

definition create_table_index ::
    "string \<Rightarrow> meta_table \<Rightarrow> meta_index \<Rightarrow> lsn \<Rightarrow> buffer_pool \<Rightarrow> buffer_pool outcome" where
  "create_table_index schema_name table index last_lsn bp =
     obind (create_index_file (bp_io bp) schema_name (mt_name table) index) (\<lambda>(io, file).
     obind (cache_put index_file_flusher (mi_id index) (file\<lparr>if_last_lsn := last_lsn\<rparr>) (bp_index_files bp) io) (\<lambda>(c, io).
     Done (bp\<lparr>bp_index_files := cache_mark_dirty (if_index_id file) c, bp_io := io,
       bp_indexes_of := append_to (mt_id table) (mi_id index) (bp_indexes_of bp)\<rparr>)))"

definition dirty_if :: "uuid \<Rightarrow> buffer_pool \<Rightarrow> index_file option \<times> buffer_pool" where
  "dirty_if index_id bp =
     (let (entry, c) = cache_get index_id (cache_mark_dirty index_id (bp_index_files bp))
      in (map_option ce_value entry, bp\<lparr>bp_index_files := c\<rparr>))"

definition set_if_lsn :: "uuid \<Rightarrow> lsn \<Rightarrow> buffer_pool \<Rightarrow> buffer_pool" where
  "set_if_lsn index_id last_lsn bp =
     (let (entry, c) = cache_get index_id (bp_index_files bp)
      in case entry of
           None \<Rightarrow> bp
         | Some e \<Rightarrow> bp\<lparr>bp_index_files :=
             cache_modify index_id (\<lambda>f. f\<lparr>if_last_lsn := max (if_last_lsn f) last_lsn\<rparr>) c\<rparr>)"

section \<open>Flushing\<close>

text \<open>The loops of \<^verbatim>\<open>flush_dirty\<close>: the entries that \<open>sel\<close> selects are flushed in the order of the map.\<close>

fun flush_entries ::
    "('v cache_entry \<Rightarrow> 's \<Rightarrow> ('v cache_entry \<times> 's) outcome) \<Rightarrow> ('v cache_entry \<Rightarrow> bool) \<Rightarrow>
     ('k \<times> 'v cache_entry) list \<Rightarrow> 's \<Rightarrow> (('k \<times> 'v cache_entry) list \<times> 's) outcome" where
  "flush_entries fl sel [] s = Done ([], s)"
| "flush_entries fl sel ((k, e) # es) s =
     obind (if sel e then fl e s else Done (e, s)) (\<lambda>(e, s).
     obind (flush_entries fl sel es s) (\<lambda>(es, s). Done ((k, e) # es, s)))"

definition flush_pool ::
    "(data_page cache_entry \<Rightarrow> bool) \<Rightarrow> (index_file cache_entry \<Rightarrow> bool) \<Rightarrow> buffer_pool \<Rightarrow> buffer_pool outcome" where
  "flush_pool sel_page sel_index bp =
     obind (flush_entries flush_dp sel_page (ca_map (bp_data_pages bp)) (bp_io bp)) (\<lambda>(pages, io).
     obind (flush_entries flush_if sel_index (ca_map (bp_index_files bp)) io) (\<lambda>(indexes, io).
     Done (bp\<lparr>bp_data_pages := (bp_data_pages bp)\<lparr>ca_map := pages\<rparr>,
       bp_index_files := (bp_index_files bp)\<lparr>ca_map := indexes\<rparr>, bp_io := io\<rparr>)))"

definition flush_dirty :: "buffer_pool \<Rightarrow> buffer_pool outcome" where
  "flush_dirty = flush_pool (\<lambda>e. True) (\<lambda>e. True)"

definition flush_dirty_upto :: "lsn \<Rightarrow> buffer_pool \<Rightarrow> buffer_pool outcome" where
  "flush_dirty_upto max_lsn =
     flush_pool (\<lambda>e. ce_dirty e \<and> \<not> dp_last_lsn (ce_value e) > max_lsn)
       (\<lambda>e. ce_dirty e \<and> \<not> if_last_lsn (ce_value e) > max_lsn)"

section \<open>The pool as a page store\<close>

text \<open>
  The page a reader of the pool sees, cached or not, with the derived members as a file stores them. The invariant
  asks of every cached page that it can be written back and, unless it is marked dirty, agrees with its file.
\<close>

definition disk_view :: "file_io \<Rightarrow> uuid \<Rightarrow> data_page option outcome" where
  "disk_view io pid = obind (read_data_page io pid) (\<lambda>p. Done (map_option stored_page p))"

definition page_view :: "(uuid, data_page) cache \<Rightarrow> file_io \<Rightarrow> uuid \<Rightarrow> data_page option outcome" where
  "page_view c io pid =
     (case map_of (ca_map c) pid of Some e \<Rightarrow> Done (Some (stored_page (ce_value e))) | None \<Rightarrow> disk_view io pid)"

definition disk_ok :: "file_io \<Rightarrow> bool" where
  "disk_ok io \<longleftrightarrow> store_ok io \<and>
     (\<forall>pid p. read_data_page io pid = Done (Some p) \<longrightarrow> dp_id p = pid \<and> storable io p)"

definition entry_ok :: "file_io \<Rightarrow> uuid \<Rightarrow> data_page cache_entry \<Rightarrow> bool" where
  "entry_ok io k e \<longleftrightarrow> dp_id (ce_value e) = k \<and> storable io (ce_value e) \<and>
     (\<not> ce_dirty e \<longrightarrow> disk_view io k = Done (Some (stored_page (ce_value e))))"

definition pool_ok :: "(uuid, data_page) cache \<Rightarrow> file_io \<Rightarrow> bool" where
  "pool_ok c io \<longleftrightarrow> disk_ok io \<and> cache_ok c \<and> (\<forall>k e. map_of (ca_map c) k = Some e \<longrightarrow> entry_ok io k e)"

lemma serialize_stored [simp]: "serialize_dp (stored_page p) = serialize_dp p"
  by (simp add: stored_page_def serialize_dp_def)

lemma stored_idem [simp]: "stored_page (stored_page p) = stored_page p"
  by (simp add: stored_page_def serialize_dp_def)

lemma storable_stored [simp]: "storable io (stored_page p) = storable io p"
  by (simp add: storable_def page_home_def)

lemma disk_view_write:
  assumes "disk_ok io" and "storable io p" and "write_page io p fsync = Done io'"
  shows "disk_view io' pid = (if pid = dp_id p then Done (Some (stored_page p)) else disk_view io pid)"
  using fpages.read_back [of io p fsync io'] fpages.read_frame [of io p fsync io' pid] assms
  by (simp add: disk_view_def disk_ok_def)

lemma disk_ok_write:
  assumes "disk_ok io" and "storable io p" and "write_page io p fsync = Done io'"
  shows "disk_ok io'"
proof -
  have st: "store_ok io" using assms(1) by (simp add: disk_ok_def)
  note w = st assms(2,3)
  have "dp_id q = pid \<and> storable io' q" if r: "read_data_page io' pid = Done (Some q)" for pid q
  proof (cases "pid = dp_id p")
    case True
    with r fpages.read_back [OF w] have "q = stored_page p" by simp
    with True fpages.can_same [OF w] show ?thesis by simp
  next
    case False
    with r fpages.read_frame [OF w] have "read_data_page io pid = Done (Some q)" by simp
    with assms(1) have "dp_id q = pid \<and> storable io q" by (simp add: disk_ok_def)
    with False fpages.can_frame [OF w, of q] show ?thesis by auto
  qed
  with fpages.write_ok [OF w] show ?thesis by (simp add: disk_ok_def)
qed

lemma entry_ok_write:
  assumes "disk_ok io" and "storable io p" and "write_page io p fsync = Done io'"
    and "entry_ok io k e" and "k \<noteq> dp_id p"
  shows "entry_ok io' k e"
  using assms fpages.can_frame [OF _ assms(2,3), of "ce_value e"]
  by (auto simp: entry_ok_def disk_view_write [OF assms(1-3)] disk_ok_def)

text \<open>Evicting a page changes no reader's view, whether the page was dirty or not.\<close>

lemma evict_view:
  assumes "pool_ok c io" and "ca_map c \<noteq> []"
  shows "\<exists>c' io'. cache_evict_one data_page_flusher c io = Done (c', io') \<and> pool_ok c' io' \<and>
    page_view c' io' = page_view c io \<and> map_of (ca_map c') = (map_of (ca_map c))(last (ca_lru c) := None) \<and>
    (\<forall>pid. map_of (ca_map c) pid = None \<longrightarrow> read_data_page io' pid = read_data_page io pid)"
proof -
  have ok: "cache_ok c" and d: "disk_ok io" using assms(1) by (simp_all add: pool_ok_def)
  let ?k = "last (ca_lru c)"
  obtain e where e: "map_of (ca_map c) ?k = Some e" and ev: "cache_evict_one data_page_flusher c io =
      obind (if ce_dirty e then data_page_flusher e io else Done io) (\<lambda>s.
      Done (c\<lparr>ca_lru := butlast (ca_lru c), ca_map := AList.delete ?k (ca_map c)\<rparr>, s))"
    using cache_evict_one_eq [OF ok assms(2), of data_page_flusher io] by metis
  have eo: "entry_ok io ?k e" using assms(1) e by (simp add: pool_ok_def)
  obtain io' where fl: "(if ce_dirty e then data_page_flusher e io else Done io) = Done io'" "disk_ok io'"
    and view: "\<And>pid. disk_view io' pid = (if pid = ?k then Done (Some (stored_page (ce_value e))) else disk_view io pid)"
    and other: "\<And>k e'. k \<noteq> ?k \<Longrightarrow> entry_ok io k e' \<Longrightarrow> entry_ok io' k e'"
    and read: "\<And>pid. pid \<noteq> ?k \<Longrightarrow> read_data_page io' pid = read_data_page io pid"
  proof (cases "ce_dirty e")
    case True
    have s: "storable io (ce_value e)" and k: "dp_id (ce_value e) = ?k" using eo by (simp_all add: entry_ok_def)
    obtain io' where w: "write_page io (ce_value e) True = Done io'"
      using fpages.write_total [OF _ s] d unfolding disk_ok_def by blast
    show thesis
    proof (rule that)
      show "(if ce_dirty e then data_page_flusher e io else Done io) = Done io'"
        using True w by (simp add: data_page_flusher_def flush_dp_def)
      show "disk_ok io'" using disk_ok_write [OF d s w] .
      show "\<And>pid. disk_view io' pid = (if pid = ?k then Done (Some (stored_page (ce_value e))) else disk_view io pid)"
        using disk_view_write [OF d s w] k by simp
      show "\<And>k e'. k \<noteq> ?k \<Longrightarrow> entry_ok io k e' \<Longrightarrow> entry_ok io' k e'" using entry_ok_write [OF d s w] k by simp
      show "\<And>pid. pid \<noteq> ?k \<Longrightarrow> read_data_page io' pid = read_data_page io pid"
        using fpages.read_frame [OF _ s w] d k by (simp add: disk_ok_def)
    qed
  next
    case False
    with eo show thesis by (intro that [of io]) (auto simp: d entry_ok_def)
  qed
  let ?c = "c\<lparr>ca_lru := butlast (ca_lru c), ca_map := AList.delete ?k (ca_map c)\<rparr>"
  have ret: "cache_evict_one data_page_flusher c io = Done (?c, io')" unfolding ev fl(1) by simp
  note c' = cache_evict_one_Done [OF ok assms(2) ret]
  have "pool_ok ?c io'"
    using c'(1,4) fl(2) other assms(1) by (auto simp: pool_ok_def)
  moreover have "page_view ?c io' = page_view c io"
    by (rule ext) (auto simp: page_view_def delete_conv' view e split: option.splits)
  moreover have "read_data_page io' pid = read_data_page io pid" if "map_of (ca_map c) pid = None" for pid
    using read [of pid] that e by (cases "pid = ?k") auto
  ultimately show ?thesis using ret c'(4) by blast
qed

lemma put_view:
  assumes "pool_ok c io" and "map_of (ca_map c) pid = None" and "read_data_page io pid = Done (Some p)"
  shows "\<exists>c' io'. cache_put data_page_flusher pid p c io = Done (c', io') \<and> pool_ok c' io' \<and>
    page_view c' io' = page_view c io \<and> map_of (ca_map c') pid = Some \<lparr>ce_value = p, ce_dirty = False\<rparr>"
proof -
  have ok: "cache_ok c" using assms(1) by (simp add: pool_ok_def)
  obtain c1 io1 where c1: "(if length (ca_map c) \<ge> ca_max_size c then cache_evict_one data_page_flusher c io else Done (c, io)) = Done (c1, io1)"
    "pool_ok c1 io1" "page_view c1 io1 = page_view c io" "map_of (ca_map c1) pid = None"
    "read_data_page io1 pid = Done (Some p)"
  proof (cases "length (ca_map c) \<ge> ca_max_size c")
    case True
    then have "ca_map c \<noteq> []" using ok by (auto simp: cache_ok_def)
    from evict_view [OF assms(1) this] True assms(2,3) show thesis by (auto intro: that)
  next
    case False
    then show thesis using assms by (intro that [of c io]) simp_all
  qed
  let ?e = "\<lparr>ce_value = p, ce_dirty = False\<rparr>"
  let ?c = "c1\<lparr>ca_map := (pid, ?e) # ca_map c1, ca_lru := lru_insert pid (ca_lru c1)\<rparr>"
  have put: "cache_put data_page_flusher pid p c io = Done (?c, io1)"
    unfolding cache_put_def assms(2) by (simp add: c1(1))
  have d: "disk_ok io1" using c1(2) by (simp add: pool_ok_def)
  have e: "disk_view io1 pid = Done (Some (stored_page p))" using c1(5) by (simp add: disk_view_def)
  have "entry_ok io1 pid ?e" using d c1(5) e by (auto simp: entry_ok_def disk_ok_def)
  moreover have "cache_ok ?c" using cache_put_Done(1) [OF ok put] .
  ultimately have "pool_ok ?c io1" using c1(2) d by (auto simp: pool_ok_def)
  moreover have "page_view ?c io1 = page_view c io"
    unfolding c1(3) [symmetric] by (rule ext) (simp add: page_view_def c1(4) e)
  ultimately show ?thesis using put by auto
qed

lemma pool_ok_lru: "pool_ok c io \<Longrightarrow> cache_ok (c\<lparr>ca_lru := l\<rparr>) \<Longrightarrow> pool_ok (c\<lparr>ca_lru := l\<rparr>) io"
  by (simp add: pool_ok_def)

lemma page_view_lru [simp]: "page_view (c\<lparr>ca_lru := l\<rparr>) = page_view c"
  by (intro ext) (simp add: page_view_def)

lemma get_view:
  assumes "pool_ok c io"
  shows "pool_ok (snd (cache_get k c)) io" and "page_view (snd (cache_get k c)) = page_view c"
    and "fst (cache_get k c) = map_of (ca_map c) k"
  using assms cache_get_ok [of c k]
  by (auto simp: cache_get_def intro!: pool_ok_lru split: option.splits) (simp_all add: pool_ok_def)

lemma get_dp_view:
  assumes "pool_ok (bp_data_pages bp) (bp_io bp)" and "page_view (bp_data_pages bp) (bp_io bp) pid = Done r"
  shows "\<exists>q bp'. get_dp pid bp = Done (q, bp') \<and> map_option stored_page q = r \<and>
    pool_ok (bp_data_pages bp') (bp_io bp') \<and>
    page_view (bp_data_pages bp') (bp_io bp') = page_view (bp_data_pages bp) (bp_io bp) \<and>
    (q \<noteq> None \<longrightarrow> pid \<in> fst ` set (ca_map (bp_data_pages bp')))"
proof -
  let ?c = "bp_data_pages bp" and ?io = "bp_io bp"
  note g = get_view [OF assms(1), of pid]
  show ?thesis
  proof (cases "map_of (ca_map ?c) pid")
    case (Some e)
    then have "get_dp pid bp = Done (Some (ce_value e), bp\<lparr>bp_data_pages := snd (cache_get pid ?c)\<rparr>)"
      using g(3) by (cases "cache_get pid ?c") (simp add: get_dp_def)
    moreover have "r = Some (stored_page (ce_value e))" using assms(2) Some by (simp add: page_view_def)
    moreover have "pid \<in> fst ` set (ca_map (snd (cache_get pid ?c)))"
      using Some by (simp add: cache_get_def map_of_Some_key)
    ultimately show ?thesis using g(1,2) by auto
  next
    case None
    then have get: "cache_get pid ?c = (None, ?c)" by (simp add: cache_get_def)
    have dv: "disk_view ?io pid = Done r" using assms(2) None by (simp add: page_view_def)
    then obtain l where l: "read_data_page ?io pid = Done l" "r = map_option stored_page l"
      by (auto simp: disk_view_def obind_Done_conv)
    show ?thesis
    proof (cases l)
      case None
      then have "get_dp pid bp = Done (None, bp\<lparr>bp_data_pages := ?c\<rparr>)" using get l by (simp add: get_dp_def)
      with None l(2) assms(1) show ?thesis by auto
    next
      case (Some p)
      obtain c' io' where c': "cache_put data_page_flusher pid p ?c ?io = Done (c', io')" "pool_ok c' io'"
        "page_view c' io' = page_view ?c ?io" "map_of (ca_map c') pid = Some \<lparr>ce_value = p, ce_dirty = False\<rparr>"
        using put_view [OF assms(1) None] l(1) Some by blast
      note g' = get_view [OF c'(2), of pid]
      let ?bp = "bp\<lparr>bp_data_pages := snd (cache_get pid c'), bp_io := io'\<rparr>"
      have "get_dp pid bp = Done (Some p, ?bp)"
        using get l(1) Some c'(1,4) g'(3) by (cases "cache_get pid c'") (simp add: get_dp_def put_dp_def)
      moreover have "pid \<in> fst ` set (ca_map (snd (cache_get pid c')))"
        using c'(4) by (simp add: cache_get_def map_of_Some_key)
      ultimately show ?thesis using Some l(2) g'(1,2) c'(3) by auto
    qed
  qed
qed

section \<open>Flushing the pool\<close>

lemma flush_entries_dp:
  assumes "disk_ok io" and "\<forall>(k, e) \<in> set es. entry_ok io k e" and "distinct (map fst es)"
  shows "\<exists>es' io'. flush_entries flush_dp sel es io = Done (es', io') \<and> disk_ok io' \<and>
    es' = map (\<lambda>(k, e). (k, if sel e then e\<lparr>ce_dirty := False\<rparr> else e)) es \<and>
    (\<forall>(k, e) \<in> set es'. entry_ok io' k e) \<and>
    (\<forall>k. disk_view io' k =
      (case map_of es k of
         Some e \<Rightarrow> if sel e then Done (Some (stored_page (ce_value e))) else disk_view io k
       | None \<Rightarrow> disk_view io k)) \<and>
    (\<forall>k e. k \<notin> fst ` set es \<longrightarrow> entry_ok io k e \<longrightarrow> entry_ok io' k e)"
  using assms
proof (induction es arbitrary: io)
  case (Cons x es)
  obtain k e where x: "x = (k, e)" by (cases x)
  have eo: "entry_ok io k e" and fresh: "k \<notin> fst ` set es" using Cons.prems(2,3) x by auto
  let ?e = "if sel e then e\<lparr>ce_dirty := False\<rparr> else e"
  obtain io1 where io1: "(if sel e then flush_dp e io else Done (e, io)) = Done (?e, io1)" "disk_ok io1"
    "entry_ok io1 k ?e" "\<And>j f. j \<noteq> k \<Longrightarrow> entry_ok io j f \<Longrightarrow> entry_ok io1 j f"
    "\<And>j. disk_view io1 j = (if j = k \<and> sel e then Done (Some (stored_page (ce_value e))) else disk_view io j)"
  proof (cases "sel e \<and> ce_dirty e")
    case True
    have s: "storable io (ce_value e)" and k: "dp_id (ce_value e) = k" using eo by (simp_all add: entry_ok_def)
    obtain io' where w: "write_page io (ce_value e) True = Done io'"
      using fpages.write_total [OF _ s] Cons.prems(1) unfolding disk_ok_def by blast
    note dv = disk_view_write [OF Cons.prems(1) s w]
    have "store_ok io" using Cons.prems(1) by (simp add: disk_ok_def)
    note can = fpages.can_same [OF this s w]
    show thesis
      by (rule that [of io'])
        (use True w k can dv disk_ok_write [OF Cons.prems(1) s w] entry_ok_write [OF Cons.prems(1) s w] in
          \<open>simp_all add: flush_dp_def entry_ok_def\<close>)
  next
    case False
    have "e\<lparr>ce_dirty := False\<rparr> = e" if "\<not> ce_dirty e" using that by (cases e) simp
    with False eo show thesis by (intro that [of io]) (auto simp: flush_dp_def Cons.prems(1) entry_ok_def)
  qed
  have "\<forall>(j, f) \<in> set es. entry_ok io1 j f"
    using Cons.prems(2) fresh io1(4) by (force simp: image_iff)
  then obtain es' io' where es': "flush_entries flush_dp sel es io1 = Done (es', io')" "disk_ok io'"
    "es' = map (\<lambda>(k, e). (k, if sel e then e\<lparr>ce_dirty := False\<rparr> else e)) es" "\<forall>(k, e) \<in> set es'. entry_ok io' k e"
    "\<forall>k. disk_view io' k = (case map_of es k of
       Some e \<Rightarrow> if sel e then Done (Some (stored_page (ce_value e))) else disk_view io1 k | None \<Rightarrow> disk_view io1 k)"
    "\<forall>k e. k \<notin> fst ` set es \<longrightarrow> entry_ok io1 k e \<longrightarrow> entry_ok io' k e"
    using Cons.IH [OF io1(2)] Cons.prems(3) by auto
  have "flush_entries flush_dp sel (x # es) io = Done ((k, ?e) # es', io')" using io1(1) es'(1) by (simp add: x)
  moreover have "entry_ok io' k ?e" using es'(6) fresh io1(3) by blast
  moreover have "map_of es k = None" using fresh by (simp add: map_of_eq_None_iff)
  then have "disk_view io' j = (case map_of (x # es) j of
      Some e \<Rightarrow> if sel e then Done (Some (stored_page (ce_value e))) else disk_view io j | None \<Rightarrow> disk_view io j)" for j
    using es'(5) io1(5) by (auto simp: x split: option.splits)
  moreover have "entry_ok io' j f" if "j \<notin> fst ` set (x # es)" "entry_ok io j f" for j f
    using es'(6) io1(4) that by (simp add: x)
  ultimately show ?case using es'(2,3,4) x by (intro exI [of _ "(k, ?e) # es'"] exI [of _ io']) simp
qed simp

lemma disk_ok_same: "disk_ok io \<Longrightarrow> same_pages io io' \<Longrightarrow> disk_ok io'"
  by (simp add: disk_ok_def same_pages_def)

lemma entry_ok_same: "entry_ok io k e \<Longrightarrow> same_pages io io' \<Longrightarrow> entry_ok io' k e"
  by (simp add: entry_ok_def disk_view_def same_pages_def)

lemma disk_view_same: "same_pages io io' \<Longrightarrow> disk_view io' = disk_view io"
  by (simp add: disk_view_def same_pages_def fun_eq_iff)

lemma same_pages_trans: "same_pages io io' \<Longrightarrow> same_pages io' io'' \<Longrightarrow> same_pages io io''"
  by (simp add: same_pages_def)

lemma flush_entries_if:
  assumes "store_ok io" and "\<forall>(k, e) \<in> set es. index_home io (ce_value e)"
  shows "\<exists>es' io'. flush_entries flush_if sel es io = Done (es', io') \<and> same_pages io io'"
  using assms
proof (induction es arbitrary: io)
  case Nil
  then show ?case by (simp add: same_pages_def)
next
  case (Cons x es)
  obtain k e where x: "x = (k, e)" by (cases x)
  obtain e' io1 where io1: "(if sel e then flush_if e io else Done (e, io)) = Done (e', io1)" "same_pages io io1"
    "\<forall>g. index_home io g \<longrightarrow> index_home io1 g"
  proof (cases "sel e \<and> ce_dirty e")
    case True
    have "index_home io (ce_value e)" using Cons.prems(2) x by simp
    from write_index_file_total [OF Cons.prems(1) this, of True] True show thesis
      by (auto simp: flush_if_def intro: that)
  next
    case False
    with Cons.prems(1) show thesis by (intro that [of e io]) (auto simp: flush_if_def same_pages_def)
  qed
  have "store_ok io1" using io1(2) by (simp add: same_pages_def)
  moreover have "\<forall>(k, e) \<in> set es. index_home io1 (ce_value e)" using Cons.prems(2) io1(3) by auto
  ultimately obtain es' io' where "flush_entries flush_if sel es io1 = Done (es', io')" "same_pages io1 io'"
    using Cons.IH by blast
  with io1 x same_pages_trans show ?case by auto
qed

lemma write_page_index_home:
  assumes "wf_fs (io_root io)" and "write_page io p fsync = Done io'"
  shows "wf_fs (io_root io')" and "index_home io g \<Longrightarrow> index_home io' g"
proof -
  obtain r where r: "put_file fsync (io_root io) (dp_path p) (ms_buffer (serialize_dp p)) = Done r" "io' = io\<lparr>io_root := r\<rparr>"
    using assms(2) by (auto simp: write_page_def obind_Done_conv)
  show "wf_fs (io_root io')" using fput.put_ok [OF assms(1) r(1)] r(2) by simp
  show "index_home io g \<Longrightarrow> index_home io' g"
    using fput.put_find [OF assms(1) r(1)] by (auto simp: index_home_def io_name_def r(2))
qed

lemma flush_entries_dp_homes:
  "wf_fs (io_root io) \<Longrightarrow> flush_entries flush_dp sel es io = Done (es', io') \<Longrightarrow> index_home io g \<Longrightarrow> index_home io' g"
proof (induction es arbitrary: io es')
  case (Cons x es)
  obtain k e where x: "x = (k, e)" by (cases x)
  from Cons.prems(2) obtain e' io1 es1 where 1: "(if sel e then flush_dp e io else Done (e, io)) = Done (e', io1)"
    "flush_entries flush_dp sel es io1 = Done (es1, io')"
    by (auto simp: x obind_Done_conv)
  have "wf_fs (io_root io1) \<and> index_home io1 g"
  proof (cases "sel e \<and> ce_dirty e")
    case True
    with 1(1) have "write_page io (ce_value e) True = Done io1" by (auto simp: flush_dp_def obind_Done_conv)
    from write_page_index_home [OF Cons.prems(1) this] Cons.prems(3) show ?thesis by blast
  next
    case False
    with 1(1) Cons.prems show ?thesis by (auto simp: flush_dp_def split: if_splits)
  qed
  with Cons.IH [OF _ 1(2)] show ?case by blast
qed simp

lemma flush_pool_view:
  assumes "pool_ok (bp_data_pages bp) (bp_io bp)"
    and "\<forall>(k, e) \<in> set (ca_map (bp_index_files bp)). index_home (bp_io bp) (ce_value e)"
  shows "\<exists>bp'. flush_pool sel sel' bp = Done bp' \<and> pool_ok (bp_data_pages bp') (bp_io bp') \<and>
    page_view (bp_data_pages bp') (bp_io bp') = page_view (bp_data_pages bp) (bp_io bp) \<and>
    (\<forall>pid. disk_view (bp_io bp') pid = (case map_of (ca_map (bp_data_pages bp)) pid of
       Some e \<Rightarrow> if sel e then Done (Some (stored_page (ce_value e))) else disk_view (bp_io bp) pid
     | None \<Rightarrow> disk_view (bp_io bp) pid))"
proof -
  let ?c = "bp_data_pages bp"
  let ?es = "map (\<lambda>(k, e). (k, if sel e then e\<lparr>ce_dirty := False\<rparr> else e)) (ca_map ?c)"
  have ok: "cache_ok ?c" and d: "disk_ok (bp_io bp)" and dist: "distinct (map fst (ca_map ?c))"
    using assms(1) by (simp_all add: pool_ok_def cache_ok_def)
  have "\<forall>(k, e) \<in> set (ca_map ?c). entry_ok (bp_io bp) k e"
    using assms(1) dist by (auto simp: pool_ok_def)
  from flush_entries_dp [OF d this dist, of sel] obtain io1 where io1:
    "flush_entries flush_dp sel (ca_map ?c) (bp_io bp) = Done (?es, io1)" "disk_ok io1"
    "\<forall>(k, e) \<in> set ?es. entry_ok io1 k e" "\<forall>k. disk_view io1 k = (case map_of (ca_map ?c) k of
       Some e \<Rightarrow> if sel e then Done (Some (stored_page (ce_value e))) else disk_view (bp_io bp) k
     | None \<Rightarrow> disk_view (bp_io bp) k)"
    by blast
  have ih: "\<forall>(k, e) \<in> set (ca_map (bp_index_files bp)). index_home io1 (ce_value e)"
    using flush_entries_dp_homes [OF _ io1(1)] assms(2) d by (auto simp: disk_ok_def store_ok_def io_ok_def)
  from flush_entries_if [OF _ ih, of sel'] io1(2) obtain fs io2 where io2:
    "flush_entries flush_if sel' (ca_map (bp_index_files bp)) io1 = Done (fs, io2)" "same_pages io1 io2"
    by (auto simp: disk_ok_def)
  let ?bp = "bp\<lparr>bp_data_pages := ?c\<lparr>ca_map := ?es\<rparr>, bp_index_files := (bp_index_files bp)\<lparr>ca_map := fs\<rparr>, bp_io := io2\<rparr>"
  have keys: "map fst ?es = map fst (ca_map ?c)" by (simp add: case_prod_beta comp_def)
  have look: "map_of ?es k = map_option (\<lambda>e. if sel e then e\<lparr>ce_dirty := False\<rparr> else e) (map_of (ca_map ?c) k)" for k
    by (simp add: map_of_map)
  have "cache_ok (?c\<lparr>ca_map := ?es\<rparr>)"
    using ok by (simp add: cache_ok_def keys del: set_map map_map flip: set_map)
  moreover have "entry_ok io2 k e" if "map_of ?es k = Some e" for k e
    using map_of_SomeD [OF that] io1(3) entry_ok_same [OF _ io2(2)] by blast
  ultimately have "pool_ok (?c\<lparr>ca_map := ?es\<rparr>) io2"
    using disk_ok_same [OF io1(2) io2(2)] by (simp add: pool_ok_def)
  moreover have "disk_view io2 = disk_view io1" using disk_view_same [OF io2(2)] .
  moreover have "page_view (?c\<lparr>ca_map := ?es\<rparr>) io2 = page_view ?c (bp_io bp)"
    by (rule ext) (auto simp: page_view_def look disk_view_same [OF io2(2)] io1(4) split: option.splits)
  ultimately show ?thesis using io1(1,4) io2(1) by (intro exI [of _ ?bp]) (simp add: flush_pool_def)
qed

section \<open>Pointers into the pool\<close>

lemma get_dp_lru:
  assumes "cache_ok (bp_data_pages bp)" and "get_dp pid bp = Done (Some p, bp')"
  shows "cache_ok (bp_data_pages bp')" and "ca_max_size (bp_data_pages bp') = ca_max_size (bp_data_pages bp)"
    and "ca_lru (bp_data_pages bp') = take (ca_max_size (bp_data_pages bp)) (pid # removeAll pid (ca_lru (bp_data_pages bp)))"
proof -
  let ?c = "bp_data_pages bp" and ?c' = "bp_data_pages bp'"
  have touch: "cache_ok (snd (cache_get k c)) \<and> ca_max_size (snd (cache_get k c)) = ca_max_size c \<and>
    ca_lru (snd (cache_get k c)) = take (ca_max_size c) (k # removeAll k (ca_lru c))"
    if "cache_ok c" "map_of (ca_map c) k = Some e" for k and c :: "(uuid, data_page) cache" and e
  proof -
    have k: "k \<in> set (ca_lru c)" using map_of_Some_key [OF that(2)] that(1) by (simp add: cache_ok_def)
    moreover have "length (k # removeAll k (ca_lru c)) \<le> ca_max_size c"
      using k that(1) cache_ok_length [OF that(1)]
      by (simp add: cache_ok_def length_remove1 flip: distinct_remove1_removeAll) linarith
    ultimately show ?thesis
      using that cache_get_ok [OF that(1), of k] by (simp add: cache_get_def lru_touch_def cache_ok_def distinct_remove1_removeAll)
  qed
  have "cache_ok ?c' \<and> ca_max_size ?c' = ca_max_size ?c \<and> ca_lru ?c' = take (ca_max_size ?c) (pid # removeAll pid (ca_lru ?c))"
  proof (cases "map_of (ca_map ?c) pid")
    case (Some e)
    then have "?c' = snd (cache_get pid ?c)" using assms(2) by (auto simp: get_dp_def cache_get_def)
    with touch [OF assms(1) Some] show ?thesis by simp
  next
    case None
    then have get: "cache_get pid ?c = (None, ?c)" by (simp add: cache_get_def)
    obtain q bp1 where bp1: "put_dp pid q (bp\<lparr>bp_data_pages := ?c\<rparr>) = Done bp1"
      "(map_option ce_value (fst (cache_get pid (bp_data_pages bp1)))) = Some p" "?c' = snd (cache_get pid (bp_data_pages bp1))"
      using assms(2) by (auto simp: get_dp_def get obind_Done_conv case_prod_beta split: option.splits)
    obtain io where c1: "cache_put data_page_flusher pid q ?c (bp_io bp) = Done (bp_data_pages bp1, io)"
      using bp1(1) by (auto simp: put_dp_def obind_Done_conv)
    note put = cache_put_Done [OF assms(1) c1]
    obtain e where e: "map_of (ca_map (bp_data_pages bp1)) pid = Some e" using put(4) by blast
    obtain j where j: "ca_max_size ?c = Suc j" using assms(1) by (cases "ca_max_size ?c") (auto simp: cache_ok_def)
    have "pid \<notin> set (take j (removeAll pid (ca_lru ?c)))" by (auto dest: in_set_takeD)
    then have "removeAll pid (ca_lru (bp_data_pages bp1)) = take j (removeAll pid (ca_lru ?c))"
      unfolding put(3) j by simp
    with touch [OF put(1) e] put(2) bp1(3) j show ?thesis by simp
  qed
  then show "cache_ok ?c'" and "ca_max_size ?c' = ca_max_size ?c"
    and "ca_lru ?c' = take (ca_max_size ?c) (pid # removeAll pid (ca_lru ?c))" by auto
qed

lemma table_data_loop_lru:
  assumes "pool_ok (bp_data_pages bp) (bp_io bp)"
    and "\<forall>pid \<in> set ids. \<exists>p. page_view (bp_data_pages bp) (bp_io bp) pid = Done (Some p)"
  shows "\<exists>bp'. table_data_loop ids bp = Done (map Some ids, bp') \<and> pool_ok (bp_data_pages bp') (bp_io bp') \<and>
    ca_lru (bp_data_pages bp') =
      take (ca_max_size (bp_data_pages bp)) (fold (\<lambda>k r. k # removeAll k r) ids (ca_lru (bp_data_pages bp)))"
  using assms
proof (induction ids arbitrary: bp)
  case Nil
  then show ?case using cache_ok_length [of "bp_data_pages bp"] by (simp add: pool_ok_def cache_ok_def)
next
  case (Cons pid ids)
  let ?c = "bp_data_pages bp"
  have ok: "cache_ok ?c" using Cons.prems(1) by (simp add: pool_ok_def)
  obtain r where r: "page_view ?c (bp_io bp) pid = Done (Some r)" using Cons.prems(2) by auto
  obtain q bp1 where g: "get_dp pid bp = Done (q, bp1)" "map_option stored_page q = Some r"
    "pool_ok (bp_data_pages bp1) (bp_io bp1)" "page_view (bp_data_pages bp1) (bp_io bp1) = page_view ?c (bp_io bp)"
    using get_dp_view [OF Cons.prems(1) r] by blast
  then obtain p where p: "q = Some p" by auto
  note lru = get_dp_lru [OF ok g(1) [unfolded p]]
  obtain j where j: "ca_max_size ?c = Suc j" using ok by (cases "ca_max_size ?c") (auto simp: cache_ok_def)
  obtain bp' where bp': "table_data_loop ids bp1 = Done (map Some ids, bp')" "pool_ok (bp_data_pages bp') (bp_io bp')"
    "ca_lru (bp_data_pages bp') =
      take (ca_max_size ?c) (fold (\<lambda>k r. k # removeAll k r) ids (take (ca_max_size ?c) (pid # removeAll pid (ca_lru ?c))))"
    using Cons.IH [OF g(3)] Cons.prems(2) g(4) lru(2,3) by auto
  have "distinct (pid # removeAll pid (ca_lru ?c))" using ok by (simp add: cache_ok_def distinct_removeAll)
  then have "take (Suc j) (fold (\<lambda>k r. k # removeAll k r) ids (take (Suc j) (pid # removeAll pid (ca_lru ?c)))) =
    take (Suc j) (fold (\<lambda>k r. k # removeAll k r) ids (pid # removeAll pid (ca_lru ?c)))"
    by (rule take_fold_recency)
  with bp' g(1) p j show ?case by auto
qed

section \<open>Properties\<close>

text \<open>A pool of one page that is not yet on disk.\<close>

definition sample_pool :: "file_io \<Rightarrow> buffer_pool" where
  "sample_pool io = (buffer_pool_new io)\<lparr>
     bp_data_pages := \<lparr>ca_max_size = 1, ca_map = [(5, \<lparr>ce_value = home_page, ce_dirty = True\<rparr>)], ca_lru = [5]\<rparr>,
     bp_pages_of := [3 \<mapsto> [5, 6]]\<rparr>"

lemma sample_page_file: "s \<noteq> PATH_WAL \<Longrightarrow> page_file sample_io s t pid = None"
  by (auto simp: page_file_def fs_file_def sample_io_def PATH_DATA_def split: option.splits if_splits)

lemma sample_read: "read_data_page sample_io pid = Done None"
  using read_data_page_none [OF _ sample_page_file] sample_store_ok by (simp add: store_ok_def)

lemma sample_disk_ok: "disk_ok sample_io"
  by (simp add: disk_ok_def sample_store_ok sample_read)

lemma home_page_id [simp]: "dp_id home_page = 5"
  by (simp add: home_page_def data_page_make_def)

lemma sample_pool_ok:
  assumes "disk_ok io" and "storable io home_page"
  shows "pool_ok (bp_data_pages (sample_pool io)) (bp_io (sample_pool io))"
  using assms by (simp add: pool_ok_def sample_pool_def buffer_pool_new_def cache_ok_def entry_ok_def)

text \<open>C22: reading through the pool refines reading the store: \<^verbatim>\<open>get_dp\<close> returns the page every reader
  sees, and by loading it, which may evict and write back another page, changes no reader's view of any page.\<close>

theorem get_dp_transparent:
  assumes "pool_ok (bp_data_pages bp) (bp_io bp)" and "page_view (bp_data_pages bp) (bp_io bp) pid = Done r"
  shows "\<exists>q bp'. get_dp pid bp = Done (q, bp') \<and> map_option stored_page q = r \<and>
    pool_ok (bp_data_pages bp') (bp_io bp') \<and>
    page_view (bp_data_pages bp') (bp_io bp') = page_view (bp_data_pages bp) (bp_io bp)"
  using get_dp_view [OF assms] by blast

theorem get_dp_transparent_witness:
  "\<exists>q bp'. get_dp 5 (sample_pool sample_io) = Done (q, bp') \<and> map_option stored_page q = Some (stored_page home_page)"
  using get_dp_transparent [OF sample_pool_ok [OF sample_disk_ok home_page_storable], of 5 "Some (stored_page home_page)"]
  by (auto simp: page_view_def sample_pool_def)

text \<open>C23: \<^verbatim>\<open>flush_dirty(max_lsn)\<close> returns and leaves on disk exactly what the readers of the pool see, except for
  the dirty pages whose last LSN lies above \<^verbatim>\<open>max_lsn\<close>: the files of those are as before.\<close>

theorem flush_dirty_upto_exact:
  assumes "pool_ok (bp_data_pages bp) (bp_io bp)"
    and "\<forall>(k, e) \<in> set (ca_map (bp_index_files bp)). index_home (bp_io bp) (ce_value e)"
  shows "\<exists>bp'. flush_dirty_upto max_lsn bp = Done bp' \<and> pool_ok (bp_data_pages bp') (bp_io bp') \<and>
    page_view (bp_data_pages bp') (bp_io bp') = page_view (bp_data_pages bp) (bp_io bp) \<and>
    (\<forall>pid. disk_view (bp_io bp') pid =
      (case map_of (ca_map (bp_data_pages bp)) pid of
         Some e \<Rightarrow> if ce_dirty e \<and> dp_last_lsn (ce_value e) > max_lsn then disk_view (bp_io bp) pid
                   else page_view (bp_data_pages bp) (bp_io bp) pid
       | None \<Rightarrow> page_view (bp_data_pages bp) (bp_io bp) pid))"
proof -
  obtain bp' where bp': "flush_dirty_upto max_lsn bp = Done bp'" "pool_ok (bp_data_pages bp') (bp_io bp')"
    "page_view (bp_data_pages bp') (bp_io bp') = page_view (bp_data_pages bp) (bp_io bp)"
    "\<And>pid. disk_view (bp_io bp') pid = (case map_of (ca_map (bp_data_pages bp)) pid of
       Some e \<Rightarrow> if ce_dirty e \<and> \<not> dp_last_lsn (ce_value e) > max_lsn then Done (Some (stored_page (ce_value e)))
         else disk_view (bp_io bp) pid | None \<Rightarrow> disk_view (bp_io bp) pid)"
    using flush_pool_view [OF assms] unfolding flush_dirty_upto_def by blast
  have clean: "disk_view (bp_io bp) pid = Done (Some (stored_page (ce_value e)))"
    if "map_of (ca_map (bp_data_pages bp)) pid = Some e" "\<not> ce_dirty e" for pid e
    using assms(1) that by (simp add: pool_ok_def entry_ok_def)
  show ?thesis
    using bp'(1-3) by (rule_tac exI [of _ bp']) (auto simp: bp'(4) page_view_def clean split: option.splits)
qed

theorem flush_dirty_upto_exact_witness:
  "\<exists>bp'. flush_dirty_upto 9 (sample_pool sample_io) = Done bp' \<and>
    disk_view (bp_io bp') 5 = Done (Some (stored_page home_page))"
proof -
  have "\<forall>(k, e) \<in> set (ca_map (bp_index_files (sample_pool sample_io))). index_home (bp_io (sample_pool sample_io)) (ce_value e)"
    by (simp add: sample_pool_def buffer_pool_new_def cache_new_def)
  from flush_dirty_upto_exact [OF sample_pool_ok [OF sample_disk_ok home_page_storable] this, of 9]
  obtain bp' where "flush_dirty_upto 9 (sample_pool sample_io) = Done bp'"
    "\<forall>pid. disk_view (bp_io bp') pid =
      (case map_of (ca_map (bp_data_pages (sample_pool sample_io))) pid of
         Some e \<Rightarrow> if ce_dirty e \<and> dp_last_lsn (ce_value e) > 9 then disk_view (bp_io (sample_pool sample_io)) pid
                   else page_view (bp_data_pages (sample_pool sample_io)) (bp_io (sample_pool sample_io)) pid
       | None \<Rightarrow> page_view (bp_data_pages (sample_pool sample_io)) (bp_io (sample_pool sample_io)) pid)" by blast
  then show ?thesis
    by (auto simp: sample_pool_def page_view_def home_page_def data_page_make_def)
qed

text \<open>C26: the pointers \<^verbatim>\<open>get_table_data\<close> returns: loading a table's pages one after the other keeps only the last
  \<^verbatim>\<open>max_size_\<close> of them in the pool, and the pointers to the others dangle.\<close>

theorem table_data_pointers:
  assumes "pool_ok (bp_data_pages bp) (bp_io bp)" and "bp_pages_of bp table_id = Some ids" and "distinct ids"
    and "\<forall>pid \<in> set ids. \<exists>p. page_view (bp_data_pages bp) (bp_io bp) pid = Done (Some p)"
  shows "\<exists>bp'. get_table_data table_id bp = Done (map Some ids, bp') \<and>
    (\<forall>pid \<in> set ids. (if pid \<in> set (take (ca_max_size (bp_data_pages bp)) (rev ids))
       then \<exists>p. deref_dp bp' (Some pid) = Done p else deref_dp bp' (Some pid) = Undef))"
proof -
  let ?m = "ca_max_size (bp_data_pages bp)"
  obtain bp' where bp': "table_data_loop ids bp = Done (map Some ids, bp')" "pool_ok (bp_data_pages bp') (bp_io bp')"
    "ca_lru (bp_data_pages bp') = take ?m (fold (\<lambda>k r. k # removeAll k r) ids (ca_lru (bp_data_pages bp)))"
    using table_data_loop_lru [OF assms(1,4)] by blast
  obtain t where t: "fold (\<lambda>k r. k # removeAll k r) ids (ca_lru (bp_data_pages bp)) = rev ids @ t"
    using fold_recency_distinct [OF assms(3)] by blast
  have keys: "fst ` set (ca_map (bp_data_pages bp')) = set (take ?m (rev ids @ t))"
    using bp'(2,3) t by (simp add: pool_ok_def cache_ok_def)
  have "pid \<in> set (take ?m (rev ids @ t)) \<longleftrightarrow> pid \<in> set (take ?m (rev ids))" if "pid \<in> set ids" for pid
    using that by (cases "?m \<le> length ids") auto
  then have mem: "pid \<in> fst ` set (ca_map (bp_data_pages bp')) \<longleftrightarrow> pid \<in> set (take ?m (rev ids))" if "pid \<in> set ids" for pid
    using that keys by simp
  have "if pid \<in> set (take ?m (rev ids)) then \<exists>p. deref_dp bp' (Some pid) = Done p else deref_dp bp' (Some pid) = Undef"
    if "pid \<in> set ids" for pid
    using mem [OF that] map_of_eq_None_iff [of "ca_map (bp_data_pages bp')" pid] by (auto simp: deref_dp_def split: option.splits)
  with bp'(1) assms(2) show ?thesis by (auto simp: get_table_data_def)
qed

theorem table_data_pointers_witness:
  "\<exists>io bp'. get_table_data 3 (sample_pool io) = Done ([Some 5, Some 6], bp') \<and> deref_dp bp' (Some 5) = Undef"
proof -
  let ?p = "home_page\<lparr>dp_id := 6, dp_path := [''db'', ''public'', ''t'', ''data'', io_name sample_io 6]\<rparr>"
  have ser: "length (ms_buffer (serialize_dp ?p)) = length (ms_buffer (serialize_dp home_page))"
    by (simp add: length_serialize_dp)
  have "page_home sample_io ?p ''public'' ''t''"
    using sample_page_file by (auto simp: page_home_def path_defs sample_io_def)
  moreover have "writable (io_root sample_io) (dp_path ?p)" by (simp add: writable_def sample_io_def)
  ultimately have st: "storable sample_io ?p"
    using home_page_storable ser by (auto simp: storable_def)
  obtain io where w: "write_page sample_io ?p True = Done io" using fpages.write_total [OF sample_store_ok st] by blast
  have d: "disk_ok io" using disk_ok_write [OF sample_disk_ok st w] .
  have h: "storable io home_page" using storable_frame [OF sample_store_ok st w home_page_storable] by simp
  have "disk_view io 6 = Done (Some (stored_page ?p))" using disk_view_write [OF sample_disk_ok st w] by simp
  then have "\<forall>pid \<in> set [5, 6]. \<exists>p. page_view (bp_data_pages (sample_pool io)) (bp_io (sample_pool io)) pid = Done (Some p)"
    by (simp add: page_view_def sample_pool_def buffer_pool_new_def)
  then have "\<exists>bp'. get_table_data 3 (sample_pool io) = Done (map Some [5, 6], bp') \<and>
    (\<forall>pid \<in> set [5, 6]. (if pid \<in> set (take (ca_max_size (bp_data_pages (sample_pool io))) (rev [5, 6]))
       then \<exists>p. deref_dp bp' (Some pid) = Done p else deref_dp bp' (Some pid) = Undef))"
    using table_data_pointers [OF sample_pool_ok [OF d h], of 3 "[5, 6]"] by (simp add: sample_pool_def)
  then show ?thesis by (auto simp: sample_pool_def)
qed

end
