(* ===== verification/Index_Tree.thy ===== *)
theory Index_Tree
  imports Buffer_Pool "HOL-Library.Product_Lexorder" "HOL-Library.List_Lexorder"
begin

text \<open>
  The B+ tree of an index, \<^verbatim>\<open>storage/index_bplus_tree.cpp\<close>, over the interface \<^verbatim>\<open>IIndexPager\<close>
  (\<^verbatim>\<open>storage/include/index_pager.hpp\<close>) and its implementation on the buffer pool, \<^verbatim>\<open>storage/BP_index_pager.cpp\<close>.
  An \<^verbatim>\<open>IndexPage*\<close> is the position of the page in the vector \<^verbatim>\<open>IndexFile::pages\<close>. Appending to that vector may
  move its elements; whether it does when the vector has \<open>n\<close> elements is the argument \<open>moves n\<close>, since the standard
  leaves the growth of a vector open. \<^verbatim>\<open>create_page\<close> tells its caller, and the use of an older pointer or reference
  behind a move is \<open>Undef\<close>.
\<close>

section \<open>The pager interface\<close>

text \<open>An operation on the state \<open>'s\<close> behind a pager; \<open>None\<close> stands for not returning.\<close>

type_synonym ('a, 's) act = "'s \<Rightarrow> ('a \<times> 's) outcome option"

definition treturn :: "'a \<Rightarrow> ('a, 's) act" where
  "treturn x s = Some (Done (x, s))"

definition traise :: "string \<Rightarrow> ('a, 's) act" where
  "traise msg s = Some (Raised (RuntimeError msg))"

definition tundef :: "('a, 's) act" where
  "tundef s = Some Undef"

definition tpure :: "'a outcome \<Rightarrow> ('a, 's) act" where
  "tpure x s = Some (obind x (\<lambda>v. Done (v, s)))"

definition tbind :: "('a, 's) act \<Rightarrow> ('a \<Rightarrow> ('b, 's) act) \<Rightarrow> ('b, 's) act" where
  "tbind m f s = Option.bind (m s) (\<lambda>r.
     case r of
       Done p \<Rightarrow> (case p of (x, s) \<Rightarrow> f x s)
     | Failed \<Rightarrow> Some Failed | Raised e \<Rightarrow> Some (Raised e) | Undef \<Rightarrow> Some Undef)"

type_synonym page_ptr = nat

text \<open>The members of \<^verbatim>\<open>IIndexPager\<close>, and the reads and writes through the pointers it hands out. \<open>pg_create_page\<close>
  returns whether the pages moved, the pointer to the new page and its identifier.\<close>

record 's pager =
  pg_root_page_id :: "(index_page_id, 's) act"
  pg_set_root_page_id :: "index_page_id \<Rightarrow> (unit, 's) act"
  pg_get_page :: "index_page_id \<Rightarrow> (page_ptr option, 's) act"
  pg_create_page :: "bool \<Rightarrow> index_page_id \<Rightarrow> (bool \<times> page_ptr \<times> index_page_id, 's) act"
  pg_mark_dirty :: "(unit, 's) act"
  pg_read :: "page_ptr \<Rightarrow> (index_page, 's) act"
  pg_write :: "page_ptr \<Rightarrow> (index_page \<Rightarrow> index_page) \<Rightarrow> (unit, 's) act"

section \<open>Pages of an index file\<close>

fun page_pos :: "index_page list \<Rightarrow> index_page_id \<Rightarrow> page_ptr option" where
  "page_pos [] i = None"
| "page_pos (p # ps) i = (if ip_id p = i then Some 0 else map_option Suc (page_pos ps i))"

definition add_page :: "uuid \<Rightarrow> bool \<Rightarrow> index_page_id \<Rightarrow> index_file \<Rightarrow> index_file" where
  "add_page index_id is_leaf parent f =
     f\<lparr>if_last_page := if_last_page f + 1,
       if_pages := if_pages f @ [\<lparr>ip_id = if_last_page f + 1, ip_parent = parent, ip_index_id = index_id,
         ip_is_leaf = is_leaf,
         ip_data = (if is_leaf then LeafIndexNode [] [] 0 else InternalIndexNode [] [])\<rparr>]\<rparr>"

definition write_page_at :: "page_ptr \<Rightarrow> (index_page \<Rightarrow> index_page) \<Rightarrow> index_file \<Rightarrow> index_file" where
  "write_page_at p g f = f\<lparr>if_pages := (if_pages f)[p := g (if_pages f ! p)]\<rparr>"

section \<open>The pager on the buffer pool\<close>

record bp_index_pager =
  bpi_table_id :: uuid
  bpi_index_id :: uuid

definition file_or_throw :: "bp_index_pager \<Rightarrow> (index_file, buffer_pool) act" where
  "file_or_throw pg bp =
     tbind (\<lambda>bp. Some (get_table_index (bpi_table_id pg) (bpi_index_id pg) bp)) (\<lambda>r.
     case r of None \<Rightarrow> traise ''BPIndexPager::file_or_throw'' | Some file \<Rightarrow> treturn file) bp"

definition root_page_id :: "bp_index_pager \<Rightarrow> (index_page_id, buffer_pool) act" where
  "root_page_id pg = tbind (file_or_throw pg) (\<lambda>file. treturn (if_root_page file))"

text \<open>A write to the file behind the pointer \<^verbatim>\<open>dirty_if\<close> returned.\<close>

definition modify_file :: "bp_index_pager \<Rightarrow> (index_file \<Rightarrow> index_file) \<Rightarrow> buffer_pool \<Rightarrow> buffer_pool" where
  "modify_file pg g bp = bp\<lparr>bp_index_files := cache_modify (bpi_index_id pg) g (bp_index_files bp)\<rparr>"

definition set_root_page_id :: "bp_index_pager \<Rightarrow> index_page_id \<Rightarrow> (unit, buffer_pool) act" where
  "set_root_page_id pg root bp =
     (case dirty_if (bpi_index_id pg) bp of
        (None, bp) \<Rightarrow> traise ''BPIndexPager::set_root_page_id'' bp
      | (Some file, bp) \<Rightarrow> treturn () (modify_file pg (\<lambda>f. f\<lparr>if_root_page := root\<rparr>) bp))"

definition get_page :: "bp_index_pager \<Rightarrow> index_page_id \<Rightarrow> (page_ptr option, buffer_pool) act" where
  "get_page pg page_id = tbind (file_or_throw pg) (\<lambda>file. treturn (page_pos (if_pages file) page_id))"

definition create_index_page ::
    "(nat \<Rightarrow> bool) \<Rightarrow> bp_index_pager \<Rightarrow> bool \<Rightarrow> index_page_id \<Rightarrow> (bool \<times> page_ptr \<times> index_page_id, buffer_pool) act" where
  "create_index_page moves pg is_leaf parent bp =
     (case dirty_if (bpi_index_id pg) bp of
        (None, bp) \<Rightarrow> traise ''BPIndexPager::create_page'' bp
      | (Some file, bp) \<Rightarrow>
          treturn (moves (length (if_pages file)), length (if_pages file), if_last_page file + 1)
            (modify_file pg (add_page (bpi_index_id pg) is_leaf parent) bp))"

definition mark_dirty :: "bp_index_pager \<Rightarrow> (unit, buffer_pool) act" where
  "mark_dirty pg bp =
     (case dirty_if (bpi_index_id pg) bp of
        (None, bp) \<Rightarrow> traise ''BPIndexPager::mark_dirty'' bp
      | (Some file, bp) \<Rightarrow> treturn () bp)"

definition pager_flush :: "buffer_pool \<Rightarrow> buffer_pool outcome" where
  "pager_flush bp = flush_dirty bp"

text \<open>Memory accesses go to the cached file and touch nothing else; a pointer into an evicted file dangles.\<close>

definition read_ptr :: "bp_index_pager \<Rightarrow> page_ptr \<Rightarrow> (index_page, buffer_pool) act" where
  "read_ptr pg p bp =
     (case map_of (ca_map (bp_index_files bp)) (bpi_index_id pg) of
        Some e \<Rightarrow> if p < length (if_pages (ce_value e)) then treturn (if_pages (ce_value e) ! p) bp else tundef bp
      | None \<Rightarrow> tundef bp)"

definition write_ptr :: "bp_index_pager \<Rightarrow> page_ptr \<Rightarrow> (index_page \<Rightarrow> index_page) \<Rightarrow> (unit, buffer_pool) act" where
  "write_ptr pg p g bp =
     (case map_of (ca_map (bp_index_files bp)) (bpi_index_id pg) of
        Some e \<Rightarrow> if p < length (if_pages (ce_value e)) then treturn () (modify_file pg (write_page_at p g) bp) else tundef bp
      | None \<Rightarrow> tundef bp)"

definition bp_pager :: "(nat \<Rightarrow> bool) \<Rightarrow> bp_index_pager \<Rightarrow> buffer_pool pager" where
  "bp_pager moves pg = \<lparr>pg_root_page_id = root_page_id pg, pg_set_root_page_id = set_root_page_id pg,
     pg_get_page = get_page pg, pg_create_page = create_index_page moves pg, pg_mark_dirty = mark_dirty pg,
     pg_read = read_ptr pg, pg_write = write_ptr pg\<rparr>"

section \<open>The tree\<close>

record bplus_tree =
  tr_max_leaf_keys :: nat
  tr_max_internal_keys :: nat

definition index_bplus_tree :: bplus_tree where
  "index_bplus_tree = \<lparr>tr_max_leaf_keys = 64, tr_max_internal_keys = 64\<rparr>"

text \<open>\<^verbatim>\<open>std::get\<close> on the variant of a page.\<close>

fun as_leaf :: "index_node \<Rightarrow> (data_token list \<times> row_ptr list \<times> index_page_id) outcome" where
  "as_leaf (LeafIndexNode keys rows next_leaf) = Done (keys, rows, next_leaf)"
| "as_leaf (InternalIndexNode _ _) = Raised (RuntimeError ''bad_variant_access'')"

fun as_internal :: "index_node \<Rightarrow> (data_token list \<times> index_page_id list) outcome" where
  "as_internal (InternalIndexNode keys children) = Done (keys, children)"
| "as_internal (LeafIndexNode _ _ _) = Raised (RuntimeError ''bad_variant_access'')"

text \<open>The scans over the keys of a node: the first key that is not smaller, not smaller or equal, or equal.\<close>

fun scan_less :: "data_token list \<Rightarrow> data_token \<Rightarrow> nat outcome" where
  "scan_less [] key = Done 0"
| "scan_less (k # ks) key = obind (compare_token k key) (\<lambda>c.
     if c < 0 then obind (scan_less ks key) (\<lambda>i. Done (Suc i)) else Done 0)"

fun scan_less_eq :: "data_token list \<Rightarrow> data_token \<Rightarrow> nat outcome" where
  "scan_less_eq [] key = Done 0"
| "scan_less_eq (k # ks) key = obind (compare_token k key) (\<lambda>c.
     if c \<le> 0 then obind (scan_less_eq ks key) (\<lambda>i. Done (Suc i)) else Done 0)"

fun scan_equal :: "data_token list \<Rightarrow> data_token \<Rightarrow> nat option outcome" where
  "scan_equal [] key = Done None"
| "scan_equal (k # ks) key = obind (compare_token k key) (\<lambda>c.
     if c = 0 then Done (Some 0) else obind (scan_equal ks key) (\<lambda>i. Done (map_option Suc i)))"

definition tree_root :: "'s pager \<Rightarrow> (page_ptr, 's) act" where
  "tree_root pg =
     tbind (pg_root_page_id pg) (\<lambda>root.
     tbind (pg_get_page pg root) (\<lambda>r.
     case r of None \<Rightarrow> traise ''IndexBpTree: root page not found'' | Some p \<Rightarrow> treturn p))"

text \<open>One turn of the loop of \<^verbatim>\<open>find_leaf\<close>: the child to go to, or nothing at a leaf.\<close>

definition descend :: "'s pager \<Rightarrow> data_token \<Rightarrow> page_ptr \<Rightarrow> (index_page_id \<times> page_ptr option, 's) act" where
  "descend pg key cur =
     tbind (pg_read pg cur) (\<lambda>page.
     if ip_is_leaf page then treturn (ip_id page, None)
     else
       tbind (tpure (as_internal (ip_data page))) (\<lambda>(keys, children).
       tbind (tpure (scan_less_eq keys key)) (\<lambda>i.
       if length children \<le> i then traise ''IndexBpTree: broken internal node''
       else
         tbind (pg_get_page pg (children ! i)) (\<lambda>r.
         case r of None \<Rightarrow> traise ''IndexBpTree: child page not found'' | Some p \<Rightarrow> treturn (ip_id page, Some p)))))"

partial_function (option) find_leaf_loop ::
    "'s pager \<Rightarrow> data_token \<Rightarrow> index_page_id list \<Rightarrow> page_ptr \<Rightarrow> 's \<Rightarrow> ((index_page_id list \<times> page_ptr) \<times> 's) outcome option" where
  "find_leaf_loop pg key path cur s =
     Option.bind (descend pg key cur s) (\<lambda>r.
     case r of
       Done p \<Rightarrow> (case p of ((i, child), s) \<Rightarrow>
         (case child of
            None \<Rightarrow> Some (Done ((path @ [i], cur), s))
          | Some q \<Rightarrow> find_leaf_loop pg key (path @ [i]) q s))
     | Failed \<Rightarrow> Some Failed | Raised e \<Rightarrow> Some (Raised e) | Undef \<Rightarrow> Some Undef)"

definition find_leaf :: "'s pager \<Rightarrow> data_token \<Rightarrow> (index_page_id list \<times> page_ptr, 's) act" where
  "find_leaf pg key = tbind (tree_root pg) (find_leaf_loop pg key [])"

definition tree_find :: "'s pager \<Rightarrow> data_token \<Rightarrow> (row_ptr option, 's) act" where
  "tree_find pg key =
     tbind (find_leaf pg key) (\<lambda>(path, leaf_page).
     tbind (pg_read pg leaf_page) (\<lambda>page.
     tbind (tpure (as_leaf (ip_data page))) (\<lambda>(keys, rows, next_leaf).
     tbind (tpure (scan_equal keys key)) (\<lambda>found.
     case found of
       None \<Rightarrow> treturn None
     | Some i \<Rightarrow> if i < length rows then treturn (Some (rows ! i)) else tundef))))"

definition insert_at :: "nat \<Rightarrow> 'a \<Rightarrow> 'a list \<Rightarrow> 'a list" where
  "insert_at i x xs = take i xs @ x # drop i xs"

definition insert_into_leaf ::
    "data_token list \<Rightarrow> row_ptr list \<Rightarrow> data_token \<Rightarrow> row_ptr \<Rightarrow> (data_token list \<times> row_ptr list) outcome" where
  "insert_into_leaf keys rows key row_ptr =
     obind (scan_less keys key) (\<lambda>pos.
     if length rows < pos then Undef else Done (insert_at pos key keys, insert_at pos row_ptr rows))"

text \<open>\<^verbatim>\<open>child_pos\<close>: the number of children in front of \<open>left_id\<close>, or of all children.\<close>

definition child_pos :: "index_page_id list \<Rightarrow> index_page_id \<Rightarrow> nat" where
  "child_pos children left_id = length (takeWhile (\<lambda>c. c \<noteq> left_id) children)"

fun adopt_children :: "'s pager \<Rightarrow> index_page_id \<Rightarrow> index_page_id list \<Rightarrow> (unit, 's) act" where
  "adopt_children pg parent [] = treturn ()"
| "adopt_children pg parent (c # cs) =
     tbind (pg_get_page pg c) (\<lambda>child.
     case child of
       None \<Rightarrow> traise ''IndexBpTree: child missing during split''
     | Some p \<Rightarrow> tbind (pg_write pg p (\<lambda>page. page\<lparr>ip_parent := parent\<rparr>)) (\<lambda>_. adopt_children pg parent cs))"

definition link_new_root :: "'s pager \<Rightarrow> index_page_id \<Rightarrow> data_token \<Rightarrow> index_page_id \<Rightarrow> (unit, 's) act" where
  "link_new_root pg left_id separator right_id =
     tbind (pg_create_page pg False 0) (\<lambda>(moved, new_root, new_id).
     tbind (pg_write pg new_root (\<lambda>page. page\<lparr>ip_data := InternalIndexNode [separator] [left_id, right_id]\<rparr>)) (\<lambda>_.
     tbind (pg_get_page pg left_id) (\<lambda>left.
     tbind (pg_get_page pg right_id) (\<lambda>right.
     case (left, right) of
       (Some l, Some r) \<Rightarrow>
         tbind (pg_write pg l (\<lambda>page. page\<lparr>ip_parent := new_id\<rparr>)) (\<lambda>_.
         tbind (pg_write pg r (\<lambda>page. page\<lparr>ip_parent := new_id\<rparr>)) (\<lambda>_.
         pg_set_root_page_id pg new_id))
     | _ \<Rightarrow> traise ''IndexBpTree: new root link failed''))))"

text \<open>\<^verbatim>\<open>insert_into_parent\<close> up to the decision whether the parent is split: the parent and its number of keys.\<close>

definition link_into_parent ::
    "'s pager \<Rightarrow> index_page_id \<Rightarrow> index_page_id \<Rightarrow> data_token \<Rightarrow> index_page_id \<Rightarrow> (page_ptr \<times> nat, 's) act" where
  "link_into_parent pg parent_id left_id separator right_id =
     tbind (pg_get_page pg parent_id) (\<lambda>parent.
     case parent of
       None \<Rightarrow> traise ''IndexBpTree: invalid parent''
     | Some parent_page \<Rightarrow>
         tbind (pg_read pg parent_page) (\<lambda>page.
         if ip_is_leaf page then traise ''IndexBpTree: invalid parent''
         else
           tbind (tpure (as_internal (ip_data page))) (\<lambda>(keys, children).
           let pos = child_pos children left_id
           in if pos = length children then traise ''IndexBpTree: left child not found in parent''
              else if length keys < pos then tundef
              else
                tbind (pg_write pg parent_page (\<lambda>page. page\<lparr>ip_data :=
                  InternalIndexNode (insert_at pos separator keys) (insert_at (Suc pos) right_id children)\<rparr>)) (\<lambda>_.
                tbind (pg_get_page pg right_id) (\<lambda>right.
                case right of
                  None \<Rightarrow> traise ''IndexBpTree: right child not found''
                | Some r \<Rightarrow>
                    tbind (pg_write pg r (\<lambda>page. page\<lparr>ip_parent := parent_id\<rparr>)) (\<lambda>_.
                    treturn (parent_page, Suc (length keys))))))))"

text \<open>\<^verbatim>\<open>split_internal_and_propagate\<close> up to its last call: the left identifier, the key that moves up and the new
  right identifier. The references to the node are used behind \<^verbatim>\<open>create_page\<close>.\<close>

definition split_internal :: "'s pager \<Rightarrow> page_ptr \<Rightarrow> (index_page_id \<times> data_token \<times> index_page_id, 's) act" where
  "split_internal pg internal_page =
     tbind (pg_read pg internal_page) (\<lambda>page.
     tbind (tpure (as_internal (ip_data page))) (\<lambda>(keys, children).
     let mid = length keys div 2
     in if length keys \<le> mid then tundef
        else
          tbind (pg_create_page pg False (ip_parent page)) (\<lambda>(moved, right_page, right_id).
          if moved \<or> length children < Suc mid then tundef
          else
            tbind (pg_write pg right_page (\<lambda>page. page\<lparr>ip_data :=
              InternalIndexNode (drop (Suc mid) keys) (drop (Suc mid) children)\<rparr>)) (\<lambda>_.
            tbind (pg_write pg internal_page (\<lambda>page. page\<lparr>ip_data :=
              InternalIndexNode (take mid keys) (take (Suc mid) children)\<rparr>)) (\<lambda>_.
            tbind (adopt_children pg right_id (drop (Suc mid) children)) (\<lambda>_.
            treturn (ip_id page, keys ! mid, right_id)))))))"

text \<open>\<^verbatim>\<open>insert_into_parent\<close> and \<^verbatim>\<open>split_internal_and_propagate\<close> call each other along the path.\<close>

function insert_into_parent ::
    "bplus_tree \<Rightarrow> 's pager \<Rightarrow> index_page_id list \<Rightarrow> index_page_id \<Rightarrow> data_token \<Rightarrow> index_page_id \<Rightarrow> (unit, 's) act" where
  "insert_into_parent tr pg path left_id separator right_id =
     (if length path = 1 then link_new_root pg left_id separator right_id
      else if path = [] then tundef
      else
        tbind (link_into_parent pg (path ! (length path - 2)) left_id separator right_id) (\<lambda>(parent_page, n).
        if n \<le> tr_max_internal_keys tr then treturn ()
        else
          tbind (split_internal pg parent_page) (\<lambda>(left_id, up_key, right_id).
          insert_into_parent tr pg (butlast path) left_id up_key right_id)))"
  by pat_completeness auto
termination
  by (relation "measure (\<lambda>(tr, pg, path, _). length path)") (auto simp: length_greater_0_conv[symmetric] simp del: length_greater_0_conv)

definition split_leaf_and_propagate :: "bplus_tree \<Rightarrow> 's pager \<Rightarrow> page_ptr \<Rightarrow> index_page_id list \<Rightarrow> (unit, 's) act" where
  "split_leaf_and_propagate tr pg leaf_page path =
     tbind (pg_read pg leaf_page) (\<lambda>page.
     tbind (tpure (as_leaf (ip_data page))) (\<lambda>(keys, rows, next_leaf).
     let mid = length keys div 2
     in tbind (pg_create_page pg True (ip_parent page)) (\<lambda>(moved, right_page, right_id).
        if moved \<or> length rows < mid \<or> length keys \<le> mid then tundef
        else
          tbind (pg_write pg right_page (\<lambda>page. page\<lparr>ip_data := LeafIndexNode (drop mid keys) (drop mid rows) next_leaf\<rparr>)) (\<lambda>_.
          tbind (pg_write pg leaf_page (\<lambda>page. page\<lparr>ip_data := LeafIndexNode (take mid keys) (take mid rows) right_id\<rparr>)) (\<lambda>_.
          insert_into_parent tr pg path (ip_id page) (keys ! mid) right_id)))))"

definition tree_insert :: "bplus_tree \<Rightarrow> 's pager \<Rightarrow> data_token \<Rightarrow> row_ptr \<Rightarrow> (unit, 's) act" where
  "tree_insert tr pg key row_ptr =
     tbind (find_leaf pg key) (\<lambda>(path, leaf_page).
     tbind (pg_read pg leaf_page) (\<lambda>page.
     tbind (tpure (as_leaf (ip_data page))) (\<lambda>(keys, rows, next_leaf).
     tbind (tpure (insert_into_leaf keys rows key row_ptr)) (\<lambda>(keys, rows).
     tbind (pg_write pg leaf_page (\<lambda>page. page\<lparr>ip_data := LeafIndexNode keys rows next_leaf\<rparr>)) (\<lambda>_.
     tbind (if tr_max_leaf_keys tr < length keys then split_leaf_and_propagate tr pg leaf_page path else treturn ()) (\<lambda>_.
     pg_mark_dirty pg))))))"

section \<open>The pager of a single file\<close>

text \<open>The interface on a file in memory: what a pager does to the file it serves.\<close>

definition file_pager :: "(nat \<Rightarrow> bool) \<Rightarrow> uuid \<Rightarrow> index_file pager" where
  "file_pager moves index_id =
     \<lparr>pg_root_page_id = (\<lambda>f. treturn (if_root_page f) f),
      pg_set_root_page_id = (\<lambda>root f. treturn () (f\<lparr>if_root_page := root\<rparr>)),
      pg_get_page = (\<lambda>i f. treturn (page_pos (if_pages f) i) f),
      pg_create_page = (\<lambda>is_leaf parent f.
        treturn (moves (length (if_pages f)), length (if_pages f), if_last_page f + 1) (add_page index_id is_leaf parent f)),
      pg_mark_dirty = treturn (),
      pg_read = (\<lambda>p f. if p < length (if_pages f) then treturn (if_pages f ! p) f else tundef f),
      pg_write = (\<lambda>p g f. if p < length (if_pages f) then treturn () (write_page_at p g f) else tundef f)\<rparr>"

lemma file_pager_simps [simp]:
  "pg_root_page_id (file_pager moves ix) f = treturn (if_root_page f) f"
  "pg_set_root_page_id (file_pager moves ix) root f = treturn () (f\<lparr>if_root_page := root\<rparr>)"
  "pg_get_page (file_pager moves ix) i f = treturn (page_pos (if_pages f) i) f"
  "pg_create_page (file_pager moves ix) is_leaf parent f =
     treturn (moves (length (if_pages f)), length (if_pages f), if_last_page f + 1) (add_page ix is_leaf parent f)"
  "pg_mark_dirty (file_pager moves ix) f = treturn () f"
  "p < length (if_pages f) \<Longrightarrow> pg_read (file_pager moves ix) p f = treturn (if_pages f ! p) f"
  "p < length (if_pages f) \<Longrightarrow> pg_write (file_pager moves ix) p g f = treturn () (write_page_at p g f)"
  by (simp_all add: file_pager_def)

lemma tbind_simps [simp]:
  "m s = treturn x s' \<Longrightarrow> tbind m k s = k x s'"
  "m s = Some (Done (x, s')) \<Longrightarrow> tbind m k s = k x s'"
  "tbind (treturn x) k = k x" "tbind (tpure (Done x)) k = k x" "tbind tundef k = tundef"
  by (auto simp: tbind_def treturn_def tpure_def tundef_def intro!: ext)

text \<open>An implementation \<open>C\<close> on the states \<open>'s\<close> simulates \<open>A\<close> on the file each state holds.\<close>

definition simulates :: "('s \<Rightarrow> index_file \<Rightarrow> bool) \<Rightarrow> ('a, 's) act \<Rightarrow> ('a, index_file) act \<Rightarrow> bool" where
  "simulates holds C A \<longleftrightarrow>
     (\<forall>s f r. holds s f \<longrightarrow> A f = Some r \<longrightarrow> (\<exists>r'. C s = Some r' \<and> rel_outcome (rel_prod (=) holds) r' r))"

lemma simulatesD:
  "simulates holds C A \<Longrightarrow> holds s f \<Longrightarrow> A f = Some r \<Longrightarrow> \<exists>r'. C s = Some r' \<and> rel_outcome (rel_prod (=) holds) r' r"
  by (simp add: simulates_def)

named_theorems sim_intros

lemma simulates_return [sim_intros]: "simulates holds (treturn x) (treturn x)"
  by (auto simp: simulates_def treturn_def)

lemma simulates_raise [sim_intros]: "simulates holds (traise e) (traise e)"
  by (auto simp: simulates_def traise_def)

lemma simulates_undef [sim_intros]: "simulates holds tundef tundef"
  by (auto simp: simulates_def tundef_def)

lemma simulates_pure [sim_intros]: "simulates holds (tpure x) (tpure x)"
  by (cases x) (auto simp: simulates_def tpure_def)

lemma simulates_bind [sim_intros]:
  assumes "simulates holds C A" and "\<And>x. simulates holds (C' x) (A' x)"
  shows "simulates holds (tbind C C') (tbind A A')"
  unfolding simulates_def
proof (intro allI impI)
  fix s f r assume "holds s f" and run: "tbind A A' f = Some r"
  then obtain ra where ra: "A f = Some ra" by (auto simp: tbind_def bind_eq_Some_conv)
  from simulatesD [OF assms(1) \<open>holds s f\<close> this]
  obtain rc where rc: "C s = Some rc" "rel_outcome (rel_prod (=) holds) rc ra" by blast
  show "\<exists>r'. tbind C C' s = Some r' \<and> rel_outcome (rel_prod (=) holds) r' r"
  proof (cases ra)
    case (Done p)
    with rc(2) obtain x f' s' where "p = (x, f')" "rc = Done (x, s')" "holds s' f'" by (cases p; cases rc) auto
    then show ?thesis using assms(2) [of x] run ra rc(1) Done by (auto simp: tbind_def simulates_def)
  qed (use rc run ra in \<open>cases rc; auto simp: tbind_def\<close>)+
qed

lemma simulates_if [sim_intros]:
  "(b \<Longrightarrow> simulates holds C A) \<Longrightarrow> (\<not> b \<Longrightarrow> simulates holds C' A') \<Longrightarrow>
   simulates holds (if b then C else C') (if b then A else A')"
  by simp

lemma simulates_option [sim_intros]:
  "simulates holds C A \<Longrightarrow> (\<And>x. simulates holds (C' x) (A' x)) \<Longrightarrow>
   simulates holds (case r of None \<Rightarrow> C | Some x \<Rightarrow> C' x) (case r of None \<Rightarrow> A | Some x \<Rightarrow> A' x)"
  by (cases r) simp_all

lemma simulates_prod [sim_intros]:
  "(\<And>x y. simulates holds (C x y) (A x y)) \<Longrightarrow>
   simulates holds (case r of (x, y) \<Rightarrow> C x y) (case r of (x, y) \<Rightarrow> A x y)"
  by (cases r) simp

text \<open>The contract of a pager: every operation does to the file what \<open>file_pager\<close> does.\<close>

locale index_pager =
  fixes pg :: "'s pager" and moves :: "nat \<Rightarrow> bool" and index_id :: uuid and holds :: "'s \<Rightarrow> index_file \<Rightarrow> bool"
  assumes sim_root: "simulates holds (pg_root_page_id pg) (pg_root_page_id (file_pager moves index_id))"
    and sim_set_root: "simulates holds (pg_set_root_page_id pg i) (pg_set_root_page_id (file_pager moves index_id) i)"
    and sim_get_page: "simulates holds (pg_get_page pg i) (pg_get_page (file_pager moves index_id) i)"
    and sim_create_page: "simulates holds (pg_create_page pg b i) (pg_create_page (file_pager moves index_id) b i)"
    and sim_mark_dirty: "simulates holds (pg_mark_dirty pg) (pg_mark_dirty (file_pager moves index_id))"
    and sim_read: "simulates holds (pg_read pg p) (pg_read (file_pager moves index_id) p)"
    and sim_write: "simulates holds (pg_write pg p g) (pg_write (file_pager moves index_id) p g)"
begin

lemmas ops = sim_root sim_set_root sim_get_page sim_create_page sim_mark_dirty sim_read sim_write

lemma sim_descend: "simulates holds (descend pg key p) (descend (file_pager moves index_id) key p)"
  unfolding descend_def by (intro sim_intros ops)

lemma sim_find_leaf_loop:
  "simulates holds (find_leaf_loop pg key path p) (find_leaf_loop (file_pager moves index_id) key path p)"
  unfolding simulates_def
proof (intro allI impI)
  fix s f r assume "holds s f" and "find_leaf_loop (file_pager moves index_id) key path p f = Some r"
  have "\<forall>s. holds s f \<longrightarrow> (\<exists>r'. find_leaf_loop pg key path p s = Some r' \<and> rel_outcome (rel_prod (=) holds) r' r)"
  proof (rule find_leaf_loop.raw_induct [OF _ \<open>find_leaf_loop _ key path p f = Some r\<close>, of "\<lambda>fpg key path p f r.
      fpg = file_pager moves index_id \<longrightarrow>
      (\<forall>s. holds s f \<longrightarrow> (\<exists>r'. find_leaf_loop pg key path p s = Some r' \<and> rel_outcome (rel_prod (=) holds) r' r))", THEN mp, OF _ refl],
      goal_cases)
    case (1 self fpg key path p f r)
    show ?case
    proof (intro impI allI)
      fix s assume fpg: "fpg = file_pager moves index_id" and h: "holds s f"
      obtain ra where ra: "descend fpg key p f = Some ra" using 1(2) by (auto simp: bind_eq_Some_conv)
      then obtain rc where rc: "descend pg key p s = Some rc" "rel_outcome (rel_prod (=) holds) rc ra"
        using simulatesD [OF sim_descend h] fpg by blast
      show "\<exists>r'. find_leaf_loop pg key path p s = Some r' \<and> rel_outcome (rel_prod (=) holds) r' r"
      proof (cases ra)
        case (Done q)
        with rc(2) obtain i c f' s' where q: "q = ((i, c), f')" "rc = Done ((i, c), s')" "holds s' f'" by (cases q; cases rc) auto
        then show ?thesis
          using 1(1) 1(2) ra rc(1) Done fpg
          by (subst find_leaf_loop.simps) (auto split: option.splits)
      qed (use rc 1(2) ra in \<open>subst find_leaf_loop.simps; cases rc; auto\<close>)+
    qed
  qed
  with \<open>holds s f\<close> show "\<exists>r'. find_leaf_loop pg key path p s = Some r' \<and> rel_outcome (rel_prod (=) holds) r' r" by blast
qed

lemma sim_find_leaf: "simulates holds (find_leaf pg key) (find_leaf (file_pager moves index_id) key)"
  unfolding find_leaf_def tree_root_def by (intro sim_intros ops sim_find_leaf_loop)

lemma sim_tree_find: "simulates holds (tree_find pg key) (tree_find (file_pager moves index_id) key)"
  unfolding tree_find_def by (intro sim_intros ops sim_find_leaf)

lemma sim_adopt_children: "simulates holds (adopt_children pg i cs) (adopt_children (file_pager moves index_id) i cs)"
proof (induction cs)
  case (Cons c cs)
  show ?case unfolding adopt_children.simps by (intro sim_intros ops Cons)
qed (simp add: sim_intros)

lemma sim_link_into_parent:
  "simulates holds (link_into_parent pg i l k r) (link_into_parent (file_pager moves index_id) i l k r)"
  unfolding link_into_parent_def Let_def by (intro sim_intros ops)

lemma sim_split_internal: "simulates holds (split_internal pg p) (split_internal (file_pager moves index_id) p)"
  unfolding split_internal_def Let_def by (intro sim_intros ops sim_adopt_children)

lemma sim_link_new_root: "simulates holds (link_new_root pg l k r) (link_new_root (file_pager moves index_id) l k r)"
  unfolding link_new_root_def by (intro sim_intros ops)

lemma sim_insert_into_parent:
  "simulates holds (insert_into_parent tr pg path l k r) (insert_into_parent tr (file_pager moves index_id) path l k r)"
proof (induction path arbitrary: l k r rule: rev_induct)
  case Nil
  show ?case by (simp add: sim_intros)
next
  case (snoc i path)
  show ?case
    by (subst (1 2) insert_into_parent.simps)
      (use snoc in \<open>auto intro!: sim_intros ops sim_link_new_root sim_link_into_parent sim_split_internal\<close>)
qed

lemma sim_tree_insert: "simulates holds (tree_insert tr pg key row) (tree_insert tr (file_pager moves index_id) key row)"
  unfolding tree_insert_def split_leaf_and_propagate_def Let_def
  by (intro sim_intros ops sim_find_leaf sim_insert_into_parent)

end

text \<open>The pool that differs from \<open>B\<close> at most in the file of one index, which it caches.\<close>

definition pool_holds :: "buffer_pool \<Rightarrow> bp_index_pager \<Rightarrow> buffer_pool \<Rightarrow> index_file \<Rightarrow> bool" where
  "pool_holds B pg bp f \<longleftrightarrow>
     bp_data_pages bp = bp_data_pages B \<and> bp_io bp = bp_io B \<and> bp_pages_of bp = bp_pages_of B \<and>
     bp_indexes_of bp = bp_indexes_of B \<and> cache_ok (bp_index_files bp) \<and>
     (\<exists>ids. bp_indexes_of B (bpi_table_id pg) = Some ids \<and> bpi_index_id pg \<in> set ids) \<and>
     map_option ce_value (map_of (ca_map (bp_index_files bp)) (bpi_index_id pg)) = Some f \<and>
     (\<forall>j. j \<noteq> bpi_index_id pg \<longrightarrow>
        map_of (ca_map (bp_index_files bp)) j = map_of (ca_map (bp_index_files B)) j)"

lemma pool_holds_touch:
  assumes "pool_holds B pg bp f"
  shows "file_or_throw pg bp = treturn f (bp\<lparr>bp_index_files := snd (cache_get (bpi_index_id pg) (bp_index_files bp))\<rparr>)"
    and "pool_holds B pg (bp\<lparr>bp_index_files := snd (cache_get (bpi_index_id pg) (bp_index_files bp))\<rparr>) f"
  using assms cache_get_ok [of "bp_index_files bp" "bpi_index_id pg"]
  by (auto simp: pool_holds_def file_or_throw_def get_table_index_def cache_get_def tbind_def treturn_def Let_def)

lemma pool_holds_dirty:
  assumes "pool_holds B pg bp f"
  shows "\<exists>bp'. dirty_if (bpi_index_id pg) bp = (Some f, bp') \<and> pool_holds B pg bp' f"
  using assms cache_mark_dirty_ok [of "bp_index_files bp" "bpi_index_id pg"]
    cache_get_ok [OF cache_mark_dirty_ok, of "bp_index_files bp" "bpi_index_id pg" "bpi_index_id pg"]
  by (auto simp: pool_holds_def dirty_if_def cache_get_def cache_mark_dirty_def Let_def update_conv' split: prod.splits)

lemma pool_holds_modify: "pool_holds B pg bp f \<Longrightarrow> pool_holds B pg (modify_file pg g bp) (g f)"
  using cache_modify_ok [of "bp_index_files bp" "bpi_index_id pg" g]
  by (auto simp: pool_holds_def modify_file_def cache_modify_def update_conv')

lemma simulates_dirty:
  assumes "\<And>bp bp' f. dirty_if (bpi_index_id pg) bp = (Some f, bp') \<Longrightarrow> C bp = treturn (v f) (modify_file pg g bp')"
  shows "simulates (pool_holds B pg) C (\<lambda>f. treturn (v f) (g f))"
  unfolding simulates_def
proof (intro allI impI)
  fix bp f r assume "pool_holds B pg bp f" and r: "treturn (v f) (g f) = Some r"
  then obtain bp' where "dirty_if (bpi_index_id pg) bp = (Some f, bp')" "pool_holds B pg bp' f"
    using pool_holds_dirty by blast
  then show "\<exists>r'. C bp = Some r' \<and> rel_outcome (rel_prod (=) (pool_holds B pg)) r' r"
    using assms [of bp f bp'] pool_holds_modify [of B pg bp' f g] r by (auto simp: treturn_def)
qed

lemma modify_file_id: "modify_file pg (\<lambda>f. f) bp = bp"
proof -
  have "map_of xs k = Some e \<Longrightarrow> AList.update k e xs = xs" for xs :: "(uuid \<times> index_file cache_entry) list" and k e
    by (induction xs) (auto split: if_splits)
  then show ?thesis by (auto simp: modify_file_def cache_modify_def split: option.splits)
qed

lemma simulates_lookup:
  "simulates (pool_holds B pg) (tbind (file_or_throw pg) (\<lambda>file. treturn (v file))) (\<lambda>f. treturn (v f) f)"
  using pool_holds_touch [of B pg] by (auto simp: simulates_def treturn_def tbind_def)

interpretation bp: index_pager "bp_pager moves pg" moves "bpi_index_id pg" "pool_holds B pg" for moves pg B
proof
  fix i b p g
  show "simulates (pool_holds B pg) (pg_root_page_id (bp_pager moves pg)) (pg_root_page_id (file_pager moves (bpi_index_id pg)))"
    unfolding bp_pager_def file_pager_def root_page_id_def pager.simps by (rule simulates_lookup)
  show "simulates (pool_holds B pg) (pg_get_page (bp_pager moves pg) i) (pg_get_page (file_pager moves (bpi_index_id pg)) i)"
    unfolding bp_pager_def file_pager_def get_page_def pager.simps by (rule simulates_lookup)
  show "simulates (pool_holds B pg) (pg_set_root_page_id (bp_pager moves pg) i) (pg_set_root_page_id (file_pager moves (bpi_index_id pg)) i)"
    unfolding bp_pager_def file_pager_def pager.simps by (rule simulates_dirty) (simp add: set_root_page_id_def)
  show "simulates (pool_holds B pg) (pg_create_page (bp_pager moves pg) b i) (pg_create_page (file_pager moves (bpi_index_id pg)) b i)"
    unfolding bp_pager_def file_pager_def pager.simps by (rule simulates_dirty) (simp add: create_index_page_def)
  show "simulates (pool_holds B pg) (pg_mark_dirty (bp_pager moves pg)) (pg_mark_dirty (file_pager moves (bpi_index_id pg)))"
    unfolding bp_pager_def file_pager_def pager.simps
    by (rule simulates_dirty [where v = "\<lambda>_. ()" and g = "\<lambda>f. f"]) (simp add: mark_dirty_def modify_file_id)
  show "simulates (pool_holds B pg) (pg_read (bp_pager moves pg) p) (pg_read (file_pager moves (bpi_index_id pg)) p)"
    by (auto simp: simulates_def bp_pager_def read_ptr_def file_pager_def treturn_def tundef_def pool_holds_def split: option.splits)
  show "simulates (pool_holds B pg) (pg_write (bp_pager moves pg) p g) (pg_write (file_pager moves (bpi_index_id pg)) p g)"
    unfolding simulates_def
  proof (intro allI impI)
    fix s f r assume h: "pool_holds B pg s f" and run: "pg_write (file_pager moves (bpi_index_id pg)) p g f = Some r"
    obtain e where e: "map_of (ca_map (bp_index_files s)) (bpi_index_id pg) = Some e" "ce_value e = f"
      using h by (auto simp: pool_holds_def)
    show "\<exists>r'. pg_write (bp_pager moves pg) p g s = Some r' \<and> rel_outcome (rel_prod (=) (pool_holds B pg)) r' r"
      using run e pool_holds_modify [OF h, of "write_page_at p g"]
      by (auto simp: bp_pager_def write_ptr_def file_pager_def treturn_def tundef_def split: if_splits)
  qed
qed

end
