(* ===== verification/Index_Search.thy ===== *)
theory Index_Search
  imports Index_Tree "HOL-Library.Multiset"
begin

text \<open>
  Correctness of the B+ tree of \<^verbatim>\<open>Index_Tree\<close>: the pages of an index file that are reachable from the root form a
  balanced search tree, \<^verbatim>\<open>insert\<close> adds its entry to the sorted sequence of entries and \<^verbatim>\<open>find\<close> searches that sequence.
\<close>

section \<open>The order of keys\<close>

text \<open>The comparison of well-formed tokens as a linear order.\<close>

type_synonym key_order = "u64 \<times> int \<times> byte list"

definition ko :: "data_token \<Rightarrow> key_order" where
  "ko t = (dt_code (tok_type t), tok_num t, tok_str t)"

definition key_ok :: "data_token \<Rightarrow> bool" where
  "key_ok t \<longleftrightarrow> wf_token t \<and> ok_dt (tok_type t)"

lemma lex_less_order: "lex_less xs ys \<longleftrightarrow> xs < ys"
  by (induction xs ys rule: lex_less.induct) auto

lemma ko_eq: "key_ok a \<Longrightarrow> key_ok b \<Longrightarrow> tok_key_eq a b \<longleftrightarrow> ko a = ko b"
  by (auto simp: ko_def key_ok_def tok_key_eq_def dt_code_inj)

lemma ko_less: "key_ok a \<Longrightarrow> key_ok b \<Longrightarrow> tok_key_less a b \<longleftrightarrow> ko a < ko b"
  using dt_code_inj [of "tok_type a" "tok_type b"]
  by (auto simp: ko_def key_ok_def tok_key_less_def lex_less_order simp del: wf_token.simps)

lemma compare_token_ko:
  assumes "key_ok a" and "key_ok b"
  shows "compare_token a b = Done (if ko a = ko b then 0 else if ko a < ko b then -1 else 1)"
  using assms tok_eq_wf [of a b] tok_less_wf [of a b] ko_eq [OF assms] ko_less [OF assms]
  by (simp add: compare_token_def key_ok_def del: wf_token.simps)

lemma scan_less_ko:
  assumes "list_all key_ok ks" and "key_ok key"
  shows "scan_less ks key = Done (length (takeWhile (\<lambda>k. ko k < ko key) ks))"
  using assms(1) by (induction ks) (auto simp: compare_token_ko assms(2))

lemma scan_less_eq_ko:
  assumes "list_all key_ok ks" and "key_ok key"
  shows "scan_less_eq ks key = Done (length (takeWhile (\<lambda>k. ko k \<le> ko key) ks))"
  using assms(1) by (induction ks) (auto simp: compare_token_ko assms(2))

text \<open>\<^verbatim>\<open>find\<close> takes the first key that is equal.\<close>

lemma scan_equal_ko:
  assumes "list_all key_ok ks" and "key_ok key"
  shows "\<exists>r. scan_equal ks key = Done r \<and>
    (case r of None \<Rightarrow> \<forall>k\<in>set ks. ko k \<noteq> ko key | Some i \<Rightarrow> i < length ks \<and> ko (ks ! i) = ko key)"
  using assms(1)
proof (induction ks)
  case (Cons k ks)
  then obtain r where "scan_equal ks key = Done r"
    "case r of None \<Rightarrow> \<forall>k\<in>set ks. ko k \<noteq> ko key | Some i \<Rightarrow> i < length ks \<and> ko (ks ! i) = ko key" by auto
  then show ?case using Cons.prems by (cases r) (auto simp: compare_token_ko assms(2))
qed simp

section \<open>The pages as a memory\<close>

definition page_ids :: "index_file \<Rightarrow> index_page_id list" where
  "page_ids f = map ip_id (if_pages f)"

definition mem :: "index_file \<Rightarrow> index_page_id \<rightharpoonup> index_node" where
  "mem f = map_of (map (\<lambda>p. (ip_id p, ip_data p)) (if_pages f))"

definition is_leaf_node :: "index_node \<Rightarrow> bool" where
  "is_leaf_node d = (case d of LeafIndexNode _ _ _ \<Rightarrow> True | InternalIndexNode _ _ \<Rightarrow> False)"

definition file_ok :: "index_file \<Rightarrow> bool" where
  "file_ok f \<longleftrightarrow> distinct (page_ids f) \<and> (\<forall>i\<in>set (page_ids f). 0 < i \<and> i \<le> if_last_page f) \<and>
     (\<forall>p\<in>set (if_pages f). ip_is_leaf p \<longleftrightarrow> is_leaf_node (ip_data p))"

text \<open>What the writes to pages keep: the identifiers of the pages, the counter and the root.\<close>

definition outline :: "index_file \<Rightarrow> index_page_id list \<times> index_page_id \<times> index_page_id" where
  "outline f = (page_ids f, if_last_page f, if_root_page f)"

lemma page_pos_Some: "page_pos ps i = Some p \<Longrightarrow> p < length ps \<and> ip_id (ps ! p) = i"
  by (induction ps i arbitrary: p rule: page_pos.induct) (auto split: if_splits)

lemma page_pos_mem: "page_pos (if_pages f) i = Some p \<Longrightarrow> mem f i = Some (ip_data (if_pages f ! p))"
proof -
  have "page_pos ps i = Some p \<Longrightarrow> map_of (map (\<lambda>p. (ip_id p, ip_data p)) ps) i = Some (ip_data (ps ! p))" for ps p
    by (induction ps i arbitrary: p rule: page_pos.induct) (auto split: if_splits)
  then show "page_pos (if_pages f) i = Some p \<Longrightarrow> mem f i = Some (ip_data (if_pages f ! p))" by (simp add: mem_def)
qed

lemma page_pos_dom: "page_pos (if_pages f) i \<noteq> None \<longleftrightarrow> mem f i \<noteq> None"
proof -
  have "page_pos ps i \<noteq> None \<longleftrightarrow> map_of (map (\<lambda>p. (ip_id p, ip_data p)) ps) i \<noteq> None" for ps
    by (induction ps i rule: page_pos.induct) auto
  then show ?thesis by (simp add: mem_def)
qed

text \<open>A stored node has a pointer.\<close>

lemma mem_page_pos:
  assumes "mem f i = Some d" and "file_ok f"
  obtains p where "page_pos (if_pages f) i = Some p" "p < length (if_pages f)" "ip_id (if_pages f ! p) = i"
    "ip_data (if_pages f ! p) = d" "ip_is_leaf (if_pages f ! p) = is_leaf_node d"
proof -
  obtain p where p: "page_pos (if_pages f) i = Some p" using assms(1) page_pos_dom [of f i] by auto
  with page_pos_Some [OF p] page_pos_mem [OF p] assms show ?thesis
    by (intro that [of p]) (auto simp: file_ok_def)
qed

lemma page_pos_ids: "page_pos ps i = page_pos qs i" if "map ip_id ps = map ip_id qs"
  using that
proof (induction ps arbitrary: qs)
  case (Cons p ps)
  then show ?case by (cases qs) auto
qed simp

lemma page_pos_outline: "outline f = outline f' \<Longrightarrow> page_pos (if_pages f) i = page_pos (if_pages f') i"
  by (rule page_pos_ids) (simp add: outline_def page_ids_def)

lemma length_outline: "outline f = outline f' \<Longrightarrow> length (if_pages f) = length (if_pages f')"
  by (auto simp: outline_def page_ids_def dest: map_eq_imp_length_eq)

lemma file_ok_outline:
  "outline f' = outline f \<Longrightarrow> \<forall>p\<in>set (if_pages f'). ip_is_leaf p \<longleftrightarrow> is_leaf_node (ip_data p) \<Longrightarrow> file_ok f \<Longrightarrow> file_ok f'"
  by (auto simp: file_ok_def outline_def)

lemma map_update_id: "g y = g (xs ! p) \<Longrightarrow> map g (xs[p := y]) = map g xs"
  by (metis list_update_id map_update)

lemma mem_update:
  assumes "distinct (map ip_id ps)" and "p < length ps"
  shows "map_of (map (\<lambda>p. (ip_id p, ip_data p)) (ps[p := (ps ! p)\<lparr>ip_data := d\<rparr>])) =
    (map_of (map (\<lambda>p. (ip_id p, ip_data p)) ps))(ip_id (ps ! p) \<mapsto> d)"
  using assms
proof (induction ps arbitrary: p)
  case (Cons q ps)
  show ?case
  proof (cases p)
    case (Suc p')
    then have "ip_id (ps ! p') \<noteq> ip_id q" using Cons.prems by (metis distinct.simps(2) length_Cons length_map list.simps(9) not_less_eq nth_map nth_mem)
    with Suc Cons show ?thesis by (auto simp: fun_upd_twist)
  qed (auto simp: fun_eq_iff)
qed simp

lemma write_data:
  assumes "file_ok f" and "page_pos (if_pages f) i = Some p" and "is_leaf_node d = ip_is_leaf (if_pages f ! p)"
  defines "f' \<equiv> write_page_at p (\<lambda>page. page\<lparr>ip_data := d\<rparr>) f"
  shows "file_ok f'" and "mem f' = (mem f)(i \<mapsto> d)" and "outline f' = outline f"
proof -
  note p = page_pos_Some [OF assms(2)]
  show o: "outline f' = outline f"
    using p by (simp add: f'_def outline_def write_page_at_def page_ids_def map_update_id)
  show "file_ok f'"
    by (rule file_ok_outline [OF o _ assms(1)])
      (use assms(1,3) p in \<open>auto simp: file_ok_def f'_def write_page_at_def dest!: subsetD [OF set_update_subset_insert]\<close>)
  show "mem f' = (mem f)(i \<mapsto> d)"
    using p assms(1) mem_update [of "if_pages f" p d]
    by (simp add: f'_def write_page_at_def mem_def file_ok_def page_ids_def)
qed

lemma write_parent:
  fixes parent :: index_page_id
  assumes "file_ok f" and "page_pos (if_pages f) i = Some p"
  defines "f' \<equiv> write_page_at p (\<lambda>page. page\<lparr>ip_parent := parent\<rparr>) f"
  shows "file_ok f'" and "mem f' = mem f" and "outline f' = outline f"
proof -
  note p = page_pos_Some [OF assms(2)]
  show o: "outline f' = outline f"
    using p by (simp add: f'_def outline_def write_page_at_def page_ids_def map_update_id)
  show "file_ok f'"
    by (rule file_ok_outline [OF o _ assms(1)])
      (use assms(1) p in \<open>auto simp: file_ok_def f'_def write_page_at_def dest!: subsetD [OF set_update_subset_insert]\<close>)
  show "mem f' = mem f" using p by (simp add: f'_def write_page_at_def mem_def map_update_id)
qed

text \<open>There is room for \<open>k\<close> more pages: the counter does not wrap around and the vector does not move.\<close>

definition room :: "(nat \<Rightarrow> bool) \<Rightarrow> nat \<Rightarrow> index_file \<Rightarrow> bool" where
  "room moves k f \<longleftrightarrow> unat (if_last_page f) + k < 2 ^ 64 \<and> (\<forall>n < length (if_pages f) + k. \<not> moves n)"

lemma room_outline: "outline f' = outline f \<Longrightarrow> room moves k f' = room moves k f"
  using length_outline [of f' f] by (simp add: room_def outline_def)

lemma room_mono: "room moves k f \<Longrightarrow> j \<le> k \<Longrightarrow> room moves j f"
  by (auto simp: room_def)

lemma room_next: "room moves (Suc k) f \<Longrightarrow> unat (if_last_page f + 1) = Suc (unat (if_last_page f))"
  by (simp add: room_def unat_word_ariths)

definition empty_node :: "bool \<Rightarrow> index_node" where
  "empty_node is_leaf = (if is_leaf then LeafIndexNode [] [] 0 else InternalIndexNode [] [])"

lemma page_pos_append:
  "page_pos (ps @ [q]) i = (case page_pos ps i of Some p \<Rightarrow> Some p | None \<Rightarrow> if ip_id q = i then Some (length ps) else None)"
  by (induction ps) (auto split: option.splits)

lemma add_page_spec:
  fixes ix :: uuid and is_leaf :: bool and parent :: index_page_id
  assumes "file_ok f" and "room moves (Suc k) f"
  defines "f' \<equiv> add_page ix is_leaf parent f" and "new \<equiv> if_last_page f + 1"
  shows "file_ok f'" and "mem f' = (mem f)(new \<mapsto> empty_node is_leaf)" and "mem f new = None \<and> mem f' new \<noteq> None"
    and "page_pos (if_pages f') new = Some (length (if_pages f))"
    and "page_pos (if_pages f) i = Some p \<Longrightarrow> page_pos (if_pages f') i = Some p \<and> if_pages f' ! p = if_pages f ! p"
    and "room moves k f'" and "outline f' = (page_ids f @ [new], new, if_root_page f)"
    and "ip_is_leaf (if_pages f' ! length (if_pages f)) = is_leaf"
proof -
  have new: "new \<notin> set (page_ids f)" "0 < new" "\<forall>i\<in>set (page_ids f). i \<le> new"
    using assms(1) room_next [OF assms(2)] by (auto simp: new_def file_ok_def word_le_nat_alt word_less_nat_alt)
  then have n: "mem f new = None" by (auto simp: mem_def page_ids_def map_of_eq_None_iff)
  then show m: "mem f' = (mem f)(new \<mapsto> empty_node is_leaf)"
    by (auto simp: f'_def new_def add_page_def mem_def empty_node_def map_add_def fun_eq_iff split: option.splits)
  with n show "mem f new = None \<and> mem f' new \<noteq> None" by simp
  show "file_ok f'" using assms(1) new
    by (auto simp: file_ok_def f'_def add_page_def page_ids_def new_def is_leaf_node_def)
  show "page_pos (if_pages f') new = Some (length (if_pages f))"
    using n page_pos_dom [of f new] by (simp add: f'_def add_page_def page_pos_append new_def)
  show "page_pos (if_pages f') i = Some p \<and> if_pages f' ! p = if_pages f ! p" if "page_pos (if_pages f) i = Some p"
    using that page_pos_Some [OF that] by (simp add: f'_def add_page_def page_pos_append nth_append)
  show "room moves k f'" using assms(2) room_next [OF assms(2)] by (auto simp: room_def f'_def add_page_def)
  show "outline f' = (page_ids f @ [new], new, if_root_page f)"
    by (simp add: outline_def f'_def add_page_def page_ids_def new_def)
  show "ip_is_leaf (if_pages f' ! length (if_pages f)) = is_leaf" by (simp add: f'_def add_page_def)
qed

section \<open>Operations on the memory\<close>

text \<open>The state behind an operation that wrote pages only.\<close>

definition wrote :: "(index_page_id \<rightharpoonup> index_node) \<Rightarrow> index_file \<Rightarrow> index_file \<Rightarrow> bool" where
  "wrote m f f' \<longleftrightarrow> file_ok f' \<and> mem f' = m \<and> outline f' = outline f"

text \<open>The state behind an operation that added the page \<open>if_last_page f + 1\<close> as well.\<close>

definition grew :: "(nat \<Rightarrow> bool) \<Rightarrow> nat \<Rightarrow> (index_page_id \<rightharpoonup> index_node) \<Rightarrow> index_file \<Rightarrow> index_file \<Rightarrow> bool" where
  "grew moves k m f f' \<longleftrightarrow> file_ok f' \<and> mem f' = m \<and> room moves k f' \<and> if_last_page f' = if_last_page f + 1"

lemma adopt_children_spec:
  assumes "file_ok f" and "\<forall>c\<in>set cs. mem f c \<noteq> None"
  shows "\<exists>f'. adopt_children (file_pager moves ix) parent cs f = treturn () f' \<and> wrote (mem f) f f'"
  using assms
proof (induction cs arbitrary: f)
  case (Cons c cs)
  from Cons.prems obtain d where "mem f c = Some d" by auto
  with Cons.prems(1) obtain p where p: "page_pos (if_pages f) c = Some p" "p < length (if_pages f)"
    by (elim mem_page_pos) auto
  let ?f = "write_page_at p (\<lambda>page. page\<lparr>ip_parent := parent\<rparr>) f"
  note w = write_parent [OF Cons.prems(1) p(1), of parent]
  obtain f' where "adopt_children (file_pager moves ix) parent cs ?f = treturn () f'" "wrote (mem ?f) ?f f'"
    using Cons.IH [of ?f] Cons.prems w by auto
  with p w show ?case by (intro exI [of _ f']) (simp add: wrote_def)
qed (auto simp: wrote_def)

lemma link_into_parent_spec:
  assumes "file_ok f" and "mem f i = Some (InternalIndexNode ks (cs1 @ l # cs2))" and "l \<notin> set cs1"
    and "length cs1 \<le> length ks" and "mem f r \<noteq> None"
  shows "\<exists>p f'. link_into_parent (file_pager moves ix) i l sep r f = treturn (p, Suc (length ks)) f' \<and>
    page_pos (if_pages f') i = Some p \<and>
    wrote ((mem f)(i \<mapsto> InternalIndexNode (insert_at (length cs1) sep ks) (cs1 @ l # r # cs2))) f f'"
proof -
  obtain p where p: "page_pos (if_pages f) i = Some p" "p < length (if_pages f)"
      "ip_data (if_pages f ! p) = InternalIndexNode ks (cs1 @ l # cs2)" "\<not> ip_is_leaf (if_pages f ! p)"
    using mem_page_pos [OF assms(2,1)] by (auto simp: is_leaf_node_def)
  have pos: "child_pos (cs1 @ l # cs2) l = length cs1"
    using assms(3) by (simp add: child_pos_def takeWhile_append)
  let ?d = "InternalIndexNode (insert_at (length cs1) sep ks) (cs1 @ l # r # cs2)"
  let ?f = "write_page_at p (\<lambda>page. page\<lparr>ip_data := ?d\<rparr>) f"
  have "is_leaf_node ?d = ip_is_leaf (if_pages f ! p)" using p(4) by (simp add: is_leaf_node_def)
  note w = write_data [OF assms(1) p(1) this]
  have "mem ?f r \<noteq> None" using assms(5) w(2) by auto
  then obtain d where "mem ?f r = Some d" by auto
  with w(1) obtain q where q: "page_pos (if_pages ?f) r = Some q" "q < length (if_pages ?f)" by (elim mem_page_pos) auto
  let ?f' = "write_page_at q (\<lambda>page. page\<lparr>ip_parent := i\<rparr>) ?f"
  note w' = write_parent [OF w(1) q(1), of i]
  have "insert_at (Suc (length cs1)) r (cs1 @ l # cs2) = cs1 @ l # r # cs2" by (simp add: insert_at_def)
  then have "link_into_parent (file_pager moves ix) i l sep r f = treturn (p, Suc (length ks)) ?f'"
    using p q assms(4) by (simp add: link_into_parent_def pos)
  moreover have "page_pos (if_pages ?f') i = Some p" using p(1) page_pos_outline w(3) w'(3) by metis
  ultimately show ?thesis using w w' by (auto simp: wrote_def)
qed

lemma set_root_simps [simp]:
  "mem (f\<lparr>if_root_page := i\<rparr>) = mem f" "file_ok (f\<lparr>if_root_page := i\<rparr>) = file_ok f"
  "room moves k (f\<lparr>if_root_page := i\<rparr>) = room moves k f"
  by (simp_all add: mem_def file_ok_def room_def page_ids_def)

lemma link_new_root_spec:
  assumes "file_ok f" and "room moves (Suc k) f" and "mem f l \<noteq> None" and "mem f r \<noteq> None"
  defines "new \<equiv> if_last_page f + 1"
  shows "mem f new = None \<and> (\<exists>f'. link_new_root (file_pager moves ix) l sep r f = treturn () f' \<and>
    grew moves k ((mem f)(new \<mapsto> InternalIndexNode [sep] [l, r])) f f' \<and> if_root_page f' = new)"
proof -
  let ?f1 = "add_page ix False 0 f" and ?p = "length (if_pages f)" and ?d = "InternalIndexNode [sep] [l, r]"
  note a = add_page_spec [OF assms(1,2), where ix = ix and is_leaf = False and parent = 0, folded new_def]
  let ?f2 = "write_page_at ?p (\<lambda>page. page\<lparr>ip_data := ?d\<rparr>) ?f1"
  have "is_leaf_node ?d = ip_is_leaf (if_pages ?f1 ! ?p)" using a(8) by (simp add: is_leaf_node_def)
  note w = write_data [OF a(1,4) this]
  have m2: "mem ?f2 = (mem f)(new \<mapsto> ?d)" using w(2) a(2) by simp
  have "mem ?f2 l \<noteq> None" "mem ?f2 r \<noteq> None" using m2 assms(3,4) by auto
  then obtain dl dr where d: "mem ?f2 l = Some dl" "mem ?f2 r = Some dr" by auto
  obtain pl where pl: "page_pos (if_pages ?f2) l = Some pl" "pl < length (if_pages ?f2)"
    using mem_page_pos [OF d(1) w(1)] by auto
  obtain pr where pr: "page_pos (if_pages ?f2) r = Some pr" "pr < length (if_pages ?f2)"
    using mem_page_pos [OF d(2) w(1)] by auto
  let ?f3 = "write_page_at pl (\<lambda>page. page\<lparr>ip_parent := new\<rparr>) ?f2"
  note w3 = write_parent [OF w(1) pl(1), of new]
  have pr3: "page_pos (if_pages ?f3) r = Some pr" using pr(1) page_pos_outline [OF w3(3)] by simp
  let ?f4 = "write_page_at pr (\<lambda>page. page\<lparr>ip_parent := new\<rparr>) ?f3"
  note w4 = write_parent [OF w3(1) pr3, of new]
  let ?f' = "?f4\<lparr>if_root_page := new\<rparr>"
  have o: "outline ?f4 = (page_ids f @ [new], new, if_root_page f)" using w4(3) w3(3) w(3) a(7) by metis
  have p1: "?p < length (if_pages ?f1)" using page_pos_Some [OF a(4)] by blast
  have "pr < length (if_pages ?f3)" using page_pos_Some [OF pr3] by blast
  then have run: "link_new_root (file_pager moves ix) l sep r f = treturn () ?f'"
    using pl pr p1 by (simp add: link_new_root_def new_def)
  have "outline ?f4 = outline ?f1" using w4(3) w3(3) w(3) by simp
  then have "room moves k ?f4" using a(6) room_outline by blast
  moreover have "if_last_page ?f4 = new" using o by (simp add: outline_def)
  ultimately have "grew moves k ((mem f)(new \<mapsto> ?d)) f ?f'"
    using w4(1,2) w3(2) m2 by (simp add: grew_def new_def)
  then show ?thesis using a(3) run by auto
qed

text \<open>Both splits create a page, fill it and cut the old one.\<close>

lemma split_pages:
  fixes ix :: uuid and par :: index_page_id
  assumes "file_ok f" and "room moves (Suc k) f" and "page_pos (if_pages f) i = Some p" and "mem f i = Some d"
    and "is_leaf_node dl = is_leaf_node d" and "is_leaf_node dr = is_leaf_node d"
  defines "f1 \<equiv> add_page ix (is_leaf_node d) par f"
  defines "f2 \<equiv> write_page_at (length (if_pages f)) (\<lambda>page. page\<lparr>ip_data := dr\<rparr>) f1"
  defines "f3 \<equiv> write_page_at p (\<lambda>page. page\<lparr>ip_data := dl\<rparr>) f2" and "new \<equiv> if_last_page f + 1"
  shows "mem f new = None \<and> \<not> moves (length (if_pages f)) \<and> length (if_pages f) < length (if_pages f1) \<and>
    p < length (if_pages f2) \<and> grew moves k ((mem f)(i \<mapsto> dl, new \<mapsto> dr)) f f3 \<and> if_root_page f3 = if_root_page f"
proof -
  let ?q = "length (if_pages f)"
  note a = add_page_spec [OF assms(1,2), where ix = ix and is_leaf = "is_leaf_node d" and parent = par,
      folded f1_def, folded new_def]
  note p = page_pos_Some [OF assms(3)] and d = page_pos_mem [OF assms(3)]
  have leaf: "ip_is_leaf (if_pages f ! p) = is_leaf_node d" using assms(1,4) p d by (auto simp: file_ok_def)
  note p1 = a(5) [OF assms(3)]
  have "is_leaf_node dr = ip_is_leaf (if_pages f1 ! ?q)" using a(8) assms(6) by simp
  note w2 = write_data [OF a(1,4) this, folded f2_def]
  have p2: "page_pos (if_pages f2) i = Some p" using p1 page_pos_outline [OF w2(3)] by simp
  have "if_pages f2 ! p = if_pages f ! p" using p p1 by (simp add: write_page_at_def f2_def)
  then have "is_leaf_node dl = ip_is_leaf (if_pages f2 ! p)" using leaf assms(5) by simp
  note w3 = write_data [OF w2(1) p2 this, folded f3_def]
  have "i \<noteq> new" using a(3) assms(4) by auto
  then have m3: "mem f3 = (mem f)(i \<mapsto> dl, new \<mapsto> dr)" using w3(2) w2(2) a(2) by (auto simp: fun_upd_twist)
  have o: "outline f3 = outline f1" using w3(3) w2(3) by simp
  have "room moves k f3" using a(6) room_outline [OF o] by simp
  then have "grew moves k ((mem f)(i \<mapsto> dl, new \<mapsto> dr)) f f3"
    using w3(1) m3 o a(7) by (simp add: grew_def outline_def new_def)
  moreover have "if_root_page f3 = if_root_page f" using o a(7) by (simp add: outline_def)
  ultimately show ?thesis
    using a(3) page_pos_Some [OF a(4)] page_pos_Some [OF p2] assms(2) by (simp add: room_def)
qed

lemma split_internal_spec:
  assumes "file_ok f" and "room moves (Suc k) f" and "page_pos (if_pages f) i = Some p"
    and "mem f i = Some (InternalIndexNode ks cs)" and "ks \<noteq> []" and "length cs = Suc (length ks)"
    and "\<forall>c\<in>set cs. mem f c \<noteq> None"
  defines "new \<equiv> if_last_page f + 1" and "mid \<equiv> length ks div 2"
  shows "mem f new = None \<and> (\<exists>f'. split_internal (file_pager moves ix) p f = treturn (i, ks ! mid, new) f' \<and>
    grew moves k ((mem f)(i \<mapsto> InternalIndexNode (take mid ks) (take (Suc mid) cs),
      new \<mapsto> InternalIndexNode (drop (Suc mid) ks) (drop (Suc mid) cs))) f f' \<and>
    if_root_page f' = if_root_page f)"
proof -
  let ?dr = "InternalIndexNode (drop (Suc mid) ks) (drop (Suc mid) cs)"
  let ?dl = "InternalIndexNode (take mid ks) (take (Suc mid) cs)"
  let ?f1 = "add_page ix False (ip_parent (if_pages f ! p)) f"
  let ?f2 = "write_page_at (length (if_pages f)) (\<lambda>page. page\<lparr>ip_data := ?dr\<rparr>) ?f1"
  let ?f3 = "write_page_at p (\<lambda>page. page\<lparr>ip_data := ?dl\<rparr>) ?f2"
  have s: "mem f new = None" "\<not> moves (length (if_pages f))" "length (if_pages f) < length (if_pages ?f1)"
      "p < length (if_pages ?f2)" "grew moves k ((mem f)(i \<mapsto> ?dl, new \<mapsto> ?dr)) f ?f3" "if_root_page ?f3 = if_root_page f"
    using split_pages [OF assms(1-4), of ?dl ?dr ix "ip_parent (if_pages f ! p)"]
    by (simp_all add: is_leaf_node_def new_def)
  have "\<forall>c\<in>set (drop (Suc mid) cs). mem ?f3 c \<noteq> None"
    using assms(7) s(5) by (auto simp: grew_def dest: in_set_dropD)
  then obtain f' where
    f': "adopt_children (file_pager moves ix) new (drop (Suc mid) cs) ?f3 = treturn () f'" "wrote (mem ?f3) ?f3 f'"
    using adopt_children_spec [of ?f3 "drop (Suc mid) cs" moves ix new] s(5) by (auto simp: grew_def)
  have dd: "ip_data (if_pages f ! p) = InternalIndexNode ks cs" using page_pos_mem [OF assms(3)] assms(4) by simp
  have mid: "\<not> length ks \<le> length ks div 2" using assms(5) by (cases ks) auto
  have "split_internal (file_pager moves ix) p f = treturn (i, ks ! mid, new) f'"
    using page_pos_Some [OF assms(3)] dd mid assms(6) s(2,3,4) f'(1) by (simp add: split_internal_def new_def mid_def Let_def)
  moreover have "room moves k f'" using f'(2) s(5) room_outline [of f' ?f3] by (simp add: grew_def wrote_def)
  then have "grew moves k ((mem f)(i \<mapsto> ?dl, new \<mapsto> ?dr)) f f'" "if_root_page f' = if_root_page f"
    using f'(2) s(5,6) by (simp_all add: grew_def wrote_def outline_def)
  ultimately show ?thesis using s(1) by auto
qed

lemma split_leaf_spec:
  assumes "file_ok f" and "room moves (Suc k) f" and "page_pos (if_pages f) i = Some p"
    and "mem f i = Some (LeafIndexNode ks rs n)" and "ks \<noteq> []" and "length rs = length ks"
  defines "new \<equiv> if_last_page f + 1" and "mid \<equiv> length ks div 2"
  shows "mem f new = None \<and> (\<exists>f'. split_leaf_and_propagate tr (file_pager moves ix) p path f =
      insert_into_parent tr (file_pager moves ix) path i (ks ! mid) new f' \<and>
    grew moves k ((mem f)(i \<mapsto> LeafIndexNode (take mid ks) (take mid rs) new,
      new \<mapsto> LeafIndexNode (drop mid ks) (drop mid rs) n)) f f' \<and>
    if_root_page f' = if_root_page f)"
proof -
  let ?dr = "LeafIndexNode (drop mid ks) (drop mid rs) n" and ?dl = "LeafIndexNode (take mid ks) (take mid rs) new"
  let ?f1 = "add_page ix True (ip_parent (if_pages f ! p)) f"
  let ?f2 = "write_page_at (length (if_pages f)) (\<lambda>page. page\<lparr>ip_data := ?dr\<rparr>) ?f1"
  let ?f3 = "write_page_at p (\<lambda>page. page\<lparr>ip_data := ?dl\<rparr>) ?f2"
  have s: "mem f new = None" "\<not> moves (length (if_pages f))" "length (if_pages f) < length (if_pages ?f1)"
      "p < length (if_pages ?f2)" "grew moves k ((mem f)(i \<mapsto> ?dl, new \<mapsto> ?dr)) f ?f3" "if_root_page ?f3 = if_root_page f"
    using split_pages [OF assms(1-4), of ?dl ?dr ix "ip_parent (if_pages f ! p)"]
    by (simp_all add: is_leaf_node_def new_def)
  have dd: "ip_data (if_pages f ! p) = LeafIndexNode ks rs n" using page_pos_mem [OF assms(3)] assms(4) by simp
  have mid: "\<not> length ks \<le> length ks div 2" using assms(5) by (cases ks) auto
  have "split_leaf_and_propagate tr (file_pager moves ix) p path f =
      insert_into_parent tr (file_pager moves ix) path i (ks ! mid) new ?f3"
    using page_pos_Some [OF assms(3)] dd mid assms(6) s(2,3,4)
    by (simp add: split_leaf_and_propagate_def new_def mid_def Let_def del: insert_into_parent.simps)
  with s show ?thesis by blast
qed

section \<open>Trees\<close>

datatype bt =
    BLeaf index_page_id "data_token list" "row_ptr list" index_page_id
  | BNode index_page_id "data_token list" "bt list"

fun rid :: "bt \<Rightarrow> index_page_id" where
  "rid (BLeaf i _ _ _) = i"
| "rid (BNode i _ _) = i"

text \<open>The entries in the order of the leaves, the leaves with their links, and the identifiers of all pages.\<close>

fun items :: "bt \<Rightarrow> (data_token \<times> row_ptr) list" where
  "items (BLeaf _ ks rs _) = zip ks rs"
| "items (BNode _ _ ts) = concat (map items ts)"

fun leaves :: "bt \<Rightarrow> (index_page_id \<times> index_page_id) list" where
  "leaves (BLeaf i _ _ n) = [(i, n)]"
| "leaves (BNode _ _ ts) = concat (map leaves ts)"

fun ids :: "bt \<Rightarrow> index_page_id list" where
  "ids (BLeaf i _ _ _) = [i]"
| "ids (BNode i _ ts) = i # concat (map ids ts)"

fun stored :: "(index_page_id \<rightharpoonup> index_node) \<Rightarrow> bt \<Rightarrow> bool" where
  "stored m (BLeaf i ks rs n) = (m i = Some (LeafIndexNode ks rs n))"
| "stored m (BNode i ks ts) = (m i = Some (InternalIndexNode ks (map rid ts)) \<and> (\<forall>t\<in>set ts. stored m t))"

text \<open>A separator equals the smallest key of the subtree behind it.\<close>

definition sep_ok :: "data_token \<Rightarrow> bt \<Rightarrow> bool" where
  "sep_ok k t \<longleftrightarrow> items t \<noteq> [] \<and> ko (fst (hd (items t))) = ko k"

text \<open>A tree of height \<open>h\<close> with at most the admitted number of keys in each node.\<close>

fun good :: "bplus_tree \<Rightarrow> nat \<Rightarrow> bt \<Rightarrow> bool" where
  "good tr 0 (BLeaf _ ks rs _) = (length rs = length ks \<and> list_all key_ok ks \<and> length ks \<le> tr_max_leaf_keys tr)"
| "good tr (Suc h) (BNode _ ks ts) =
     (length ks \<le> tr_max_internal_keys tr \<and> length ts = Suc (length ks) \<and> list_all key_ok ks \<and>
      list_all2 sep_ok ks (tl ts) \<and> (\<forall>t\<in>set ts. good tr h t \<and> items t \<noteq> []))"
| "good _ _ _ = False"

definition nodal :: "bplus_tree \<Rightarrow> nat \<Rightarrow> data_token list \<Rightarrow> bt list \<Rightarrow> bool" where
  "nodal tr h ks ts \<longleftrightarrow> length ts = Suc (length ks) \<and> list_all key_ok ks \<and>
     list_all2 sep_ok ks (tl ts) \<and> (\<forall>t\<in>set ts. good tr h t \<and> items t \<noteq> [])"

lemma good_node: "good tr (Suc h) (BNode i ks ts) \<longleftrightarrow> length ks \<le> tr_max_internal_keys tr \<and> nodal tr h ks ts"
  by (simp add: nodal_def)

definition key_sorted :: "(data_token \<times> row_ptr) list \<Rightarrow> bool" where
  "key_sorted xs \<longleftrightarrow> sorted (map (\<lambda>x. ko (fst x)) xs)"

lemma key_sorted_append:
  "key_sorted (xs @ ys) \<longleftrightarrow> key_sorted xs \<and> key_sorted ys \<and> (\<forall>x\<in>set xs. \<forall>y\<in>set ys. ko (fst x) \<le> ko (fst y))"
  by (auto simp: key_sorted_def sorted_append)

lemma rid_in_ids: "rid t \<in> set (ids t)"
  by (cases t) auto

lemma stored_cong: "stored m t \<Longrightarrow> (\<forall>j\<in>set (ids t). m' j = m j) \<Longrightarrow> stored m' t"
  by (induction t rule: ids.induct) auto

lemma stored_dom: "stored m t \<Longrightarrow> j \<in> set (ids t) \<Longrightarrow> m j \<noteq> None"
  by (induction t rule: ids.induct) auto

lemma items_key_ok: "good tr h t \<Longrightarrow> x \<in> set (items t) \<Longrightarrow> key_ok (fst x)"
proof (induction tr h t rule: good.induct)
  case (1 tr i ks rs n)
  then show ?case by (cases x) (auto simp: list_all_iff dest: set_zip_leftD)
qed auto

section \<open>Routing\<close>

text \<open>The child the search goes to: the entries in front of it are not larger than the key, those behind it are not
  smaller, and it holds an entry with the key if the node does.\<close>

definition route :: "data_token \<Rightarrow> data_token list \<Rightarrow> nat" where
  "route key ks = length (takeWhile (\<lambda>k. ko k \<le> ko key) ks)"

lemma hd_is_least: "key_sorted xs \<Longrightarrow> x \<in> set xs \<Longrightarrow> ko (fst (hd xs)) \<le> ko (fst x)"
  by (cases xs) (auto simp: key_sorted_def)

lemma route_before:
  assumes "nodal tr h ks (L @ c # R)" and "length L = route key ks" and "L \<noteq> []"
  shows "sep_ok (ks ! (length L - 1)) c" and "ko (ks ! (length L - 1)) \<le> ko key" and "length L - 1 < length ks"
proof -
  have le: "route key ks \<le> length ks" unfolding route_def by (rule length_takeWhile_le)
  with assms(2,3) show lt: "length L - 1 < length ks" by (cases L) auto
  have "list_all2 sep_ok ks (tl (L @ c # R))" using assms(1) by (simp add: nodal_def)
  then have "sep_ok (ks ! (length L - 1)) (tl (L @ c # R) ! (length L - 1))" using lt by (rule list_all2_nthD)
  moreover have "tl (L @ c # R) ! (length L - 1) = c" using assms(3) by (cases L) (auto simp: nth_append)
  ultimately show "sep_ok (ks ! (length L - 1)) c" by simp
  have "length L - 1 < route key ks" using assms(2,3) by (cases L) auto
  then show "ko (ks ! (length L - 1)) \<le> ko key"
    unfolding route_def by (metis nth_mem set_takeWhileD takeWhile_nth)
qed

lemma route_behind:
  assumes "nodal tr h ks (L @ c # R)" and "length L = route key ks" and "key_sorted (concat (map items R))"
    and "x \<in> set (concat (map items R))"
  shows "ko key < ko (fst x)"
proof -
  from assms(4) obtain u R' where R: "R = u # R'" by (cases R) auto
  have len: "length (L @ c # R) = Suc (length ks)" and l2: "list_all2 sep_ok ks (tl (L @ c # R))"
    using assms(1) by (simp_all add: nodal_def)
  then have lt: "length L < length ks" using R by simp
  then have "sep_ok (ks ! length L) (tl (L @ c # R) ! length L)" using list_all2_nthD [OF l2] by blast
  moreover have "tl (L @ c # R) ! length L = u" using R by (cases L) (auto simp: nth_append)
  ultimately have u: "items u \<noteq> []" "ko (fst (hd (items u))) = ko (ks ! length L)" by (auto simp: sep_ok_def)
  have "\<not> ko (ks ! length L) \<le> ko key"
    using nth_length_takeWhile [of "\<lambda>k. ko k \<le> ko key" ks] lt assms(2) by (simp add: route_def)
  moreover have "ko (fst (hd (concat (map items R)))) \<le> ko (fst x)" using hd_is_least [OF assms(3,4)] .
  then have "ko (ks ! length L) \<le> ko (fst x)" using u R by (simp add: hd_append)
  ultimately show ?thesis by simp
qed

lemma node_route:
  assumes "nodal tr h ks ts" and "key_sorted (concat (map items ts))"
  obtains L c R where "ts = L @ c # R" "length L = route key ks"
    "\<forall>x\<in>set (concat (map items L)). ko (fst x) \<le> ko key" "\<forall>x\<in>set (concat (map items R)). ko key < ko (fst x)"
    "\<forall>x\<in>set (concat (map items L)). ko (fst x) = ko key \<longrightarrow> (\<exists>y\<in>set (items c). ko (fst y) = ko key)"
    "L \<noteq> [] \<longrightarrow> sep_ok (ks ! (length L - 1)) c \<and> ko (ks ! (length L - 1)) \<le> ko key"
proof -
  let ?n = "route key ks"
  have n: "?n < length ts" using assms(1) by (simp add: nodal_def route_def length_takeWhile_le less_Suc_eq_le)
  define L c R where "L = take ?n ts" and "c = ts ! ?n" and "R = drop (Suc ?n) ts"
  have ts: "ts = L @ c # R" and len: "length L = ?n" using n by (auto simp: L_def c_def R_def id_take_nth_drop)
  note nod = assms(1) [unfolded ts]
  have srt: "key_sorted (concat (map items L) @ items c @ concat (map items R))" using assms(2) ts by simp
  have before: "L \<noteq> [] \<longrightarrow> sep_ok (ks ! (length L - 1)) c \<and> ko (ks ! (length L - 1)) \<le> ko key"
    using route_before [OF nod len] by blast
  have hdc: "x \<in> set (concat (map items L)) \<Longrightarrow> items c \<noteq> [] \<and> ko (fst x) \<le> ko (fst (hd (items c))) \<and> ko (fst (hd (items c))) \<le> ko key" for x
  proof -
    assume x: "x \<in> set (concat (map items L))"
    then have "L \<noteq> []" by auto
    with before have "items c \<noteq> []" "ko (fst (hd (items c))) \<le> ko key" by (auto simp: sep_ok_def)
    moreover from this srt x have "ko (fst x) \<le> ko (fst (hd (items c)))" by (auto simp: key_sorted_append)
    ultimately show ?thesis by simp
  qed
  have L_eq: "\<forall>x\<in>set (concat (map items L)). ko (fst x) = ko key \<longrightarrow> (\<exists>y\<in>set (items c). ko (fst y) = ko key)"
  proof (intro ballI impI)
    fix x assume "x \<in> set (concat (map items L))" and "ko (fst x) = ko key"
    with hdc [of x] have "items c \<noteq> []" "ko (fst (hd (items c))) = ko key" by auto
    then show "\<exists>y\<in>set (items c). ko (fst y) = ko key" using hd_in_set by blast
  qed
  have R_less: "\<forall>x\<in>set (concat (map items R)). ko key < ko (fst x)"
    using route_behind [OF nod len] srt by (auto simp: key_sorted_append)
  have L_le: "\<forall>x\<in>set (concat (map items L)). ko (fst x) \<le> ko key"
    using hdc order_trans by blast
  show ?thesis by (rule that [OF ts len L_le R_less L_eq before])
qed

section \<open>Searching\<close>

lemma descend_leaf:
  assumes "file_ok f" and "page_pos (if_pages f) i = Some p" and "mem f i = Some (LeafIndexNode ks rs n)"
  shows "find_leaf_loop (file_pager moves ix) key P p f = treturn (P @ [i], p) f"
proof -
  have "ip_is_leaf (if_pages f ! p)"
    using assms page_pos_Some [OF assms(2)] page_pos_mem [OF assms(2)] by (auto simp: file_ok_def is_leaf_node_def)
  then have "descend (file_pager moves ix) key p f = treturn (i, None) f"
    using page_pos_Some [OF assms(2)] by (simp add: descend_def)
  then show ?thesis by (subst find_leaf_loop.simps) (simp add: treturn_def)
qed

lemma descend_node:
  assumes "file_ok f" and "page_pos (if_pages f) i = Some p" and "mem f i = Some (InternalIndexNode ks cs)"
    and "list_all key_ok ks" and "key_ok key" and "route key ks < length cs" and "page_pos (if_pages f) (cs ! route key ks) = Some q"
  shows "find_leaf_loop (file_pager moves ix) key P p f = find_leaf_loop (file_pager moves ix) key (P @ [i]) q f"
proof -
  note p = page_pos_Some [OF assms(2)] and d = page_pos_mem [OF assms(2)]
  have dd: "ip_data (if_pages f ! p) = InternalIndexNode ks cs" using d assms(3) by simp
  have "\<not> ip_is_leaf (if_pages f ! p)" using assms(1) p dd by (auto simp: file_ok_def is_leaf_node_def)
  then have "descend (file_pager moves ix) key p f = treturn (i, Some q) f"
    using p dd assms(6,7) scan_less_eq_ko [OF assms(4,5)] by (simp add: descend_def route_def)
  then show ?thesis by (subst find_leaf_loop.simps) (simp add: treturn_def)
qed

text \<open>The leaf the search ends at: its entries are entries of the tree, among them one with the key if there is any.\<close>

lemma find_leaf_loop_spec:
  assumes "good tr h t" and "stored (mem f) t" and "file_ok f" and "key_sorted (items t)"
    and "page_pos (if_pages f) (rid t) = Some p" and "key_ok key"
  shows "\<exists>path q i ks rs n. find_leaf_loop (file_pager moves ix) key P p f = treturn (path, q) f \<and>
    page_pos (if_pages f) i = Some q \<and> mem f i = Some (LeafIndexNode ks rs n) \<and> length rs = length ks \<and>
    list_all key_ok ks \<and> set (zip ks rs) \<subseteq> set (items t) \<and>
    ((\<exists>x\<in>set (items t). ko (fst x) = ko key) \<longrightarrow> (\<exists>k\<in>set ks. ko k = ko key))"
  using assms(1,2,4,5)
proof (induction tr h t arbitrary: P p rule: good.induct)
  case (1 tr i ks rs n)
  then have "find_leaf_loop (file_pager moves ix) key P p f = treturn (P @ [i], p) f"
    using descend_leaf [OF assms(3), of i p ks rs n moves ix key P] by simp
  moreover have "(\<exists>x\<in>set (items (BLeaf i ks rs n)). ko (fst x) = ko key) \<longrightarrow> (\<exists>k\<in>set ks. ko k = ko key)"
    by (force dest: set_zip_leftD)
  ultimately show ?case using 1
    by (intro exI [of _ "P @ [i]"] exI [of _ p] exI [of _ i] exI [of _ ks] exI [of _ rs] exI [of _ n]) simp
next
  case (2 tr h i ks ts)
  have nod: "nodal tr h ks ts" using "2.prems"(1) good_node by blast
  have srt: "key_sorted (concat (map items ts))" using "2.prems"(3) by simp
  from node_route [OF nod srt, of key] obtain L c R where ts: "ts = L @ c # R" and len: "length L = route key ks"
    and behind: "\<forall>x\<in>set (concat (map items R)). ko key < ko (fst x)"
    and before: "\<forall>x\<in>set (concat (map items L)). ko (fst x) = ko key \<longrightarrow> (\<exists>y\<in>set (items c). ko (fst y) = ko key)"
    by metis
  have c: "c \<in> set ts" "good tr h c" "stored (mem f) c" "key_sorted (items c)"
    using "2.prems" ts by (auto simp: key_sorted_append)
  have child: "map rid ts ! route key ks = rid c" "route key ks < length (map rid ts)" using ts len by (simp_all add: nth_append)
  have "mem f (rid c) \<noteq> None" using stored_dom [OF c(3) rid_in_ids] .
  then obtain q where q: "page_pos (if_pages f) (rid c) = Some q" using page_pos_dom by blast
  have step: "find_leaf_loop (file_pager moves ix) key P p f = find_leaf_loop (file_pager moves ix) key (P @ [i]) q f"
    by (rule descend_node [OF assms(3), of i p ks "map rid ts"])
      (use "2.prems" child q assms(6) in \<open>auto simp: nodal_def\<close>)
  have "(\<exists>x\<in>set (items (BNode i ks ts)). ko (fst x) = ko key) \<longrightarrow> (\<exists>x\<in>set (items c). ko (fst x) = ko key)"
  proof
    assume "\<exists>x\<in>set (items (BNode i ks ts)). ko (fst x) = ko key"
    then obtain x where "x \<in> set (items (BNode i ks ts))" and x: "ko (fst x) = ko key" by blast
    then have "x \<in> set (concat (map items L)) \<or> x \<in> set (items c) \<or> x \<in> set (concat (map items R))"
      unfolding ts by auto
    moreover have "x \<notin> set (concat (map items R))" using behind x by (metis order_less_irrefl)
    ultimately show "\<exists>x\<in>set (items c). ko (fst x) = ko key" using before x by blast
  qed
  moreover have "set (items c) \<subseteq> set (items (BNode i ks ts))" using ts by auto
  ultimately show ?case unfolding step using "2.IH" [OF c(1) c(2,3,4) q, of "P @ [i]"] by blast
qed auto

section \<open>Inserting an entry\<close>

definition inserted :: "data_token \<Rightarrow> row_ptr \<Rightarrow> (data_token \<times> row_ptr) list \<Rightarrow> (data_token \<times> row_ptr) list \<Rightarrow> bool" where
  "inserted key row xs ys \<longleftrightarrow> (\<exists>as bs. xs = as @ bs \<and> ys = as @ (key, row) # bs \<and>
     (\<forall>x\<in>set as. ko (fst x) \<le> ko key) \<and> (\<forall>x\<in>set bs. ko key \<le> ko (fst x)))"

lemma inserted_context:
  assumes "inserted key row xs ys" and "\<forall>x\<in>set l. ko (fst x) \<le> ko key" and "\<forall>x\<in>set r. ko key < ko (fst x)"
  shows "inserted key row (l @ xs @ r) (l @ ys @ r)"
proof -
  from assms(1) obtain as bs where "xs = as @ bs" "ys = as @ (key, row) # bs"
    "\<forall>x\<in>set as. ko (fst x) \<le> ko key" "\<forall>x\<in>set bs. ko key \<le> ko (fst x)" by (auto simp: inserted_def)
  then show ?thesis unfolding inserted_def using assms(2,3)
    by (intro exI [of _ "l @ as"] exI [of _ "bs @ r"]) (auto intro: less_imp_le)
qed

lemma inserted_hd:
  assumes "inserted key row xs ys" and "xs \<noteq> []" and "ko (fst (hd xs)) \<le> ko key"
  shows "ko (fst (hd ys)) = ko (fst (hd xs))"
proof -
  from assms(1) obtain as bs where "xs = as @ bs" "ys = as @ (key, row) # bs" "\<forall>x\<in>set bs. ko key \<le> ko (fst x)"
    by (auto simp: inserted_def)
  then show ?thesis using assms(2,3) by (cases as; cases bs) auto
qed

lemma inserted_sorted: "inserted key row xs ys \<Longrightarrow> key_sorted xs \<Longrightarrow> key_sorted ys"
  by (auto simp: inserted_def key_sorted_def sorted_append)

lemma inserted_ne: "inserted key row xs ys \<Longrightarrow> ys \<noteq> []"
  by (auto simp: inserted_def)

lemma inserted_mset: "inserted key row xs ys \<Longrightarrow> mset ys = add_mset (key, row) (mset xs)"
  by (auto simp: inserted_def)

text \<open>A leaf splits into two, the second linked in behind the first.\<close>

definition relinked :: "('a \<times> 'a) list \<Rightarrow> ('a \<times> 'a) list \<Rightarrow> bool" where
  "relinked xs ys \<longleftrightarrow> ys = xs \<or> (\<exists>as i n bs new. xs = as @ (i, n) # bs \<and> ys = as @ (i, new) # (new, n) # bs)"

lemma relinked_refl [simp]: "relinked xs xs"
  by (simp add: relinked_def)

lemma relinked_split [simp]: "relinked [(i, n)] [(i, new), (new, n)]"
  unfolding relinked_def by (intro disjI2 exI [of _ "[]"]) auto

lemma relinked_context: "relinked xs ys \<Longrightarrow> relinked (l @ xs @ r) (l @ ys @ r)"
  unfolding relinked_def by (metis append.assoc append_Cons)

text \<open>The tree \<open>t\<close> of \<open>f\<close> has become the trees \<open>us\<close> of \<open>f'\<close>, which share no page and leave the other pages alone.\<close>

definition becomes ::
    "bplus_tree \<Rightarrow> (nat \<Rightarrow> bool) \<Rightarrow> nat \<Rightarrow> nat \<Rightarrow> data_token \<Rightarrow> row_ptr \<Rightarrow> index_file \<Rightarrow> bt \<Rightarrow> index_file \<Rightarrow> bt list \<Rightarrow> bool" where
  "becomes tr moves h k key row f t f' us \<longleftrightarrow>
     file_ok f' \<and> room moves k f' \<and> if_root_page f' = if_root_page f \<and>
     (\<forall>u\<in>set us. good tr h u \<and> stored (mem f') u \<and> items u \<noteq> []) \<and>
     distinct (concat (map ids us)) \<and> (\<forall>j\<in>set (concat (map ids us)). j \<in> set (ids t) \<or> mem f j = None) \<and>
     (\<forall>j. mem f j \<noteq> None \<longrightarrow> mem f' j \<noteq> None \<and> (j \<notin> set (ids t) \<longrightarrow> mem f' j = mem f j)) \<and>
     inserted key row (items t) (concat (map items us)) \<and> relinked (leaves t) (concat (map leaves us))"

definition insert_at_leaf ::
    "bplus_tree \<Rightarrow> 's pager \<Rightarrow> data_token \<Rightarrow> row_ptr \<Rightarrow> index_page_id list \<times> page_ptr \<Rightarrow> (unit, 's) act" where
  "insert_at_leaf tr pg key row_ptr = (\<lambda>(path, leaf_page).
     tbind (pg_read pg leaf_page) (\<lambda>page.
     tbind (tpure (as_leaf (ip_data page))) (\<lambda>(keys, rows, next_leaf).
     tbind (tpure (insert_into_leaf keys rows key row_ptr)) (\<lambda>(keys, rows).
     tbind (pg_write pg leaf_page (\<lambda>page. page\<lparr>ip_data := LeafIndexNode keys rows next_leaf\<rparr>)) (\<lambda>_.
     if tr_max_leaf_keys tr < length keys then split_leaf_and_propagate tr pg leaf_page path else treturn ())))))"

lemma tbind_assoc: "tbind (tbind m f) g = tbind m (\<lambda>x. tbind (f x) g)"
proof
  fix s show "tbind (tbind m f) g s = tbind m (\<lambda>x. tbind (f x) g) s"
    by (cases "m s") (auto simp: tbind_def split: outcome.splits)
qed

lemma tree_insert_parts:
  "tree_insert tr pg key row = tbind (find_leaf pg key) (\<lambda>x. tbind (insert_at_leaf tr pg key row x) (\<lambda>_. pg_mark_dirty pg))"
  by (auto simp: tree_insert_def insert_at_leaf_def tbind_assoc case_prod_unfold intro!: arg_cong [of _ _ "tbind _"])

lemma length_insert_at [simp]: "length (insert_at i x xs) = Suc (length xs)"
  by (simp add: insert_at_def)

lemma insert_at_ne [simp]: "insert_at i x xs \<noteq> []"
  by (simp add: insert_at_def)

lemma set_insert_at [simp]: "set (insert_at i x xs) = insert x (set xs)"
  unfolding insert_at_def using set_append [of "take i xs" "drop i xs"] by auto

lemma zip_insert_at: "length xs = length ys \<Longrightarrow> zip (insert_at i x xs) (insert_at i y ys) = insert_at i (x, y) (zip xs ys)"
  by (simp add: insert_at_def take_zip drop_zip)

lemma leaf_inserted:
  fixes key :: data_token
  assumes "length rs = length ks" and "key_sorted (zip ks rs)"
  defines "pos \<equiv> length (takeWhile (\<lambda>k. ko k < ko key) ks)"
  shows "inserted key row (zip ks rs) (zip (insert_at pos key ks) (insert_at pos row rs))"
proof -
  let ?xs = "zip ks rs"
  have pos: "pos = length (takeWhile (\<lambda>x. ko (fst x) < ko key) ?xs)"
    using assms(1) takeWhile_map [of "\<lambda>k. ko k < ko key" fst ?xs] by (simp add: pos_def comp_def)
  have "\<forall>x\<in>set (take pos ?xs). ko (fst x) \<le> ko key"
    unfolding pos by (metis less_imp_le set_takeWhileD takeWhile_eq_take)
  moreover have "\<forall>x\<in>set (drop pos ?xs). ko key \<le> ko (fst x)"
  proof
    fix x assume x: "x \<in> set (drop pos ?xs)"
    have "key_sorted (drop pos ?xs)" using assms(2) key_sorted_append append_take_drop_id by metis
    then have "ko (fst (hd (drop pos ?xs))) \<le> ko (fst x)" using x by (rule hd_is_least)
    moreover have "drop pos ?xs = dropWhile (\<lambda>x. ko (fst x) < ko key) ?xs" unfolding pos by (simp add: dropWhile_eq_drop)
    then have "\<not> ko (fst (hd (drop pos ?xs))) < ko key" using x by (metis empty_iff empty_set hd_dropWhile)
    ultimately show "ko key \<le> ko (fst x)" by simp
  qed
  ultimately show ?thesis
    unfolding inserted_def zip_insert_at [OF assms(1) [symmetric]]
    by (intro exI [of _ "take pos ?xs"] exI [of _ "drop pos ?xs"]) (auto simp: insert_at_def)
qed

text \<open>The entry is written to the leaf before its size is checked.\<close>

lemma insert_leaf_write:
  fixes key :: data_token and row :: row_ptr
  assumes "file_ok f" and "page_pos (if_pages f) i = Some p" and "mem f i = Some (LeafIndexNode ks rs n)"
    and "length rs = length ks" and "list_all key_ok ks" and "key_ok key"
  defines "pos \<equiv> length (takeWhile (\<lambda>k. ko k < ko key) ks)"
  defines "ks' \<equiv> insert_at pos key ks" and "rs' \<equiv> insert_at pos row rs"
  shows "\<exists>f1. insert_at_leaf tr (file_pager moves ix) key row (path, p) f =
      (if tr_max_leaf_keys tr < length ks' then split_leaf_and_propagate tr (file_pager moves ix) p path else treturn ()) f1 \<and>
    wrote ((mem f)(i \<mapsto> LeafIndexNode ks' rs' n)) f f1"
proof -
  note p = page_pos_Some [OF assms(2)]
  have dd: "ip_data (if_pages f ! p) = LeafIndexNode ks rs n" using page_pos_mem [OF assms(2)] assms(3) by simp
  have leaf: "ip_is_leaf (if_pages f ! p)" using assms(1) p dd by (auto simp: file_ok_def is_leaf_node_def)
  have into: "insert_into_leaf ks rs key row = Done (ks', rs')"
    using assms(4) length_takeWhile_le [of "\<lambda>k. ko k < ko key" ks]
    by (simp add: insert_into_leaf_def scan_less_ko [OF assms(5,6)] ks'_def rs'_def pos_def)
  let ?d = "LeafIndexNode ks' rs' n"
  have "is_leaf_node ?d = ip_is_leaf (if_pages f ! p)" using leaf by (simp add: is_leaf_node_def)
  note w = write_data [OF assms(1,2) this]
  have "insert_at_leaf tr (file_pager moves ix) key row (path, p) f =
      (if tr_max_leaf_keys tr < length ks' then split_leaf_and_propagate tr (file_pager moves ix) p path else treturn ())
        (write_page_at p (\<lambda>page. page\<lparr>ip_data := ?d\<rparr>) f)"
    using p dd into by (simp add: insert_at_leaf_def)
  then show ?thesis using w unfolding wrote_def by blast
qed

text \<open>An overfull leaf splits into two and goes on with its parent.\<close>

lemma leaf_overflow:
  assumes "file_ok f1" and "room moves (Suc k) f1" and "page_pos (if_pages f1) i = Some p"
    and "mem f1 = (mem f)(i \<mapsto> LeafIndexNode ks' rs' n)" and "mem f i \<noteq> None" and "if_root_page f1 = if_root_page f"
    and "length rs' = length ks'" and "list_all key_ok ks'" and "inserted key row (zip ks rs) (zip ks' rs')"
    and "length ks' = Suc (tr_max_leaf_keys tr)" and "0 < tr_max_leaf_keys tr"
  shows "\<exists>l sep r f'. split_leaf_and_propagate tr (file_pager moves ix) p path f1 =
      insert_into_parent tr (file_pager moves ix) path i sep (rid r) f' \<and>
    rid l = i \<and> key_ok sep \<and> sep_ok sep r \<and> becomes tr moves 0 k key row f (BLeaf i ks rs n) f' [l, r]"
proof -
  let ?mid = "length ks' div 2" and ?new = "if_last_page f1 + 1"
  have mid: "0 < ?mid" "?mid < length ks'" "?mid \<le> tr_max_leaf_keys tr" "length ks' - ?mid \<le> tr_max_leaf_keys tr"
    using assms(10,11) by auto
  have mem1: "mem f1 i = Some (LeafIndexNode ks' rs' n)" and ne: "ks' \<noteq> []" using assms(4,10) by auto
  let ?l = "BLeaf i (take ?mid ks') (take ?mid rs') ?new" and ?r = "BLeaf ?new (drop ?mid ks') (drop ?mid rs') n"
  from split_leaf_spec [OF assms(1-3) mem1 ne assms(7), of tr ix path] obtain f' where
    new: "mem f1 ?new = None" and run: "split_leaf_and_propagate tr (file_pager moves ix) p path f1 =
      insert_into_parent tr (file_pager moves ix) path i (ks' ! ?mid) ?new f'"
    and g: "grew moves k ((mem f1)(i \<mapsto> LeafIndexNode (take ?mid ks') (take ?mid rs') ?new,
      ?new \<mapsto> LeafIndexNode (drop ?mid ks') (drop ?mid rs') n)) f1 f'" "if_root_page f' = if_root_page f1"
    by blast
  have ni: "?new \<noteq> i" using new mem1 by auto
  have split: "zip (take ?mid ks') (take ?mid rs') @ zip (drop ?mid ks') (drop ?mid rs') = zip ks' rs'"
    by (simp add: take_zip [symmetric] drop_zip [symmetric])
  have nil: "zip (take ?mid ks') (take ?mid rs') \<noteq> []" "zip (drop ?mid ks') (drop ?mid rs') \<noteq> []"
    using mid assms(7) by (auto simp: take_zip [symmetric] drop_zip [symmetric])
  have "drop ?mid ks' = ks' ! ?mid # drop (Suc ?mid) ks'" "drop ?mid rs' = rs' ! ?mid # drop (Suc ?mid) rs'"
    using mid assms(7) by (simp_all add: Cons_nth_drop_Suc)
  then have sep: "sep_ok (ks' ! ?mid) ?r" by (simp add: sep_ok_def)
  have ok: "list_all key_ok (take ?mid ks')" "list_all key_ok (drop ?mid ks')" "key_ok (ks' ! ?mid)"
    using assms(8) mid(2) by (auto simp: list_all_iff dest: in_set_takeD in_set_dropD)
  have "becomes tr moves 0 k key row f (BLeaf i ks rs n) f' [?l, ?r]"
    unfolding becomes_def
    using g ni assms(4,5,6,7,9) new nil ok mid split by (auto simp: grew_def min_def split: if_splits)
  then show ?thesis using run sep ok(3) by (metis rid.simps(1))
qed

text \<open>A leaf takes the entry, or splits and hands the new leaf to its parent.\<close>

lemma insert_leaf:
  assumes "file_ok f" and "room moves (Suc k) f" and "page_pos (if_pages f) i = Some p"
    and "mem f i = Some (LeafIndexNode ks rs n)" and "good tr 0 (BLeaf i ks rs n)" and "key_sorted (zip ks rs)"
    and "key_ok key" and "0 < tr_max_leaf_keys tr"
  shows "(\<exists>u f'. insert_at_leaf tr (file_pager moves ix) key row (path, p) f = treturn () f' \<and>
      rid u = i \<and> becomes tr moves 0 k key row f (BLeaf i ks rs n) f' [u]) \<or>
    (\<exists>l sep r f'. insert_at_leaf tr (file_pager moves ix) key row (path, p) f =
        insert_into_parent tr (file_pager moves ix) path i sep (rid r) f' \<and>
      rid l = i \<and> key_ok sep \<and> sep_ok sep r \<and> becomes tr moves 0 k key row f (BLeaf i ks rs n) f' [l, r])"
proof -
  have len: "length rs = length ks" and oks: "list_all key_ok ks" and max: "length ks \<le> tr_max_leaf_keys tr"
    using assms(5) by simp_all
  define pos where "pos = length (takeWhile (\<lambda>k. ko k < ko key) ks)"
  define ks' rs' where "ks' = insert_at pos key ks" and "rs' = insert_at pos row rs"
  obtain f1 where run: "insert_at_leaf tr (file_pager moves ix) key row (path, p) f =
      (if tr_max_leaf_keys tr < length ks' then split_leaf_and_propagate tr (file_pager moves ix) p path else treturn ()) f1"
    and w: "wrote ((mem f)(i \<mapsto> LeafIndexNode ks' rs' n)) f f1"
    using insert_leaf_write [OF assms(1,3,4) len oks assms(7)] unfolding ks'_def rs'_def pos_def by blast
  have f1: "file_ok f1" "mem f1 = (mem f)(i \<mapsto> LeafIndexNode ks' rs' n)" "outline f1 = outline f" "if_root_page f1 = if_root_page f"
    using w by (simp_all add: wrote_def outline_def)
  have room1: "room moves (Suc k) f1" using assms(2) room_outline [OF f1(3)] by simp
  have ins: "inserted key row (zip ks rs) (zip ks' rs')"
    using leaf_inserted [OF len assms(6)] by (simp add: ks'_def rs'_def pos_def)
  have len': "length ks' = Suc (length ks)" "length rs' = length ks'" using len by (simp_all add: ks'_def rs'_def)
  have oks': "list_all key_ok ks'" using oks assms(7) by (simp add: ks'_def list_all_iff)
  show ?thesis
  proof (cases "tr_max_leaf_keys tr < length ks'")
    case False
    have "zip ks' rs' \<noteq> []" using len' by (cases ks'; cases rs') auto
    then have "becomes tr moves 0 k key row f (BLeaf i ks rs n) f1 [BLeaf i ks' rs' n]"
      using f1 ins len' oks' False room_mono [OF room1, of k] by (auto simp: becomes_def)
    then show ?thesis using run False by (metis rid.simps(1))
  next
    case True
    then have full: "length ks' = Suc (tr_max_leaf_keys tr)" using len' max by simp
    have "page_pos (if_pages f1) i = Some p" using assms(3) page_pos_outline [OF f1(3)] by simp
    moreover have "mem f i \<noteq> None" using assms(4) by simp
    ultimately show ?thesis
      using leaf_overflow [OF f1(1) room1 _ f1(2) _ f1(4) len'(2) oks' ins full assms(8)] run True by simp
  qed
qed

subsection \<open>Inner nodes\<close>

lemma nodal_replace:
  assumes "nodal tr h ks (L @ c # R)" and "good tr h u" and "items u \<noteq> []"
    and "L \<noteq> [] \<longrightarrow> sep_ok (ks ! (length L - 1)) u"
  shows "nodal tr h ks (L @ u # R)"
proof (cases L)
  case (Cons x L')
  with assms(1) have "list_all2 sep_ok ks (L' @ c # R)" by (simp add: nodal_def)
  then obtain k1 k k2 where "ks = k1 @ k # k2" "list_all2 sep_ok k1 L'" "list_all2 sep_ok k2 R"
    by (auto simp: list_all2_append2 list_all2_Cons2)
  moreover from this have "ks ! (length L - 1) = k" using Cons by (auto simp: nth_append dest: list_all2_lengthD)
  ultimately show ?thesis using assms Cons by (auto simp: nodal_def list_all2_appendI)
qed (use assms in \<open>auto simp: nodal_def\<close>)

lemma nodal_replace2:
  assumes "nodal tr h ks (L @ c # R)" and "good tr h l" and "items l \<noteq> []" and "good tr h r" and "sep_ok sep r" and "key_ok sep"
    and "L \<noteq> [] \<longrightarrow> sep_ok (ks ! (length L - 1)) l"
  shows "nodal tr h (insert_at (length L) sep ks) (L @ l # r # R)"
proof (cases L)
  case (Cons x L')
  with assms(1) have "list_all2 sep_ok ks (L' @ c # R)" by (simp add: nodal_def)
  then obtain k1 k k2 where ks: "ks = k1 @ k # k2" "list_all2 sep_ok k1 L'" "list_all2 sep_ok k2 R"
    by (auto simp: list_all2_append2 list_all2_Cons2)
  moreover from this have "ks ! (length L - 1) = k" "insert_at (length L) sep ks = k1 @ k # sep # k2"
    using Cons by (auto simp: nth_append insert_at_def dest: list_all2_lengthD)
  ultimately show ?thesis using assms Cons by (auto simp: nodal_def list_all2_appendI sep_ok_def)
qed (use assms in \<open>auto simp: nodal_def insert_at_def sep_ok_def\<close>)

lemma nodal_split:
  assumes "nodal tr h ks ts" and "mid < length ks"
  shows "nodal tr h (take mid ks) (take (Suc mid) ts)" and "nodal tr h (drop (Suc mid) ks) (drop (Suc mid) ts)"
    and "sep_ok (ks ! mid) (BNode i (drop (Suc mid) ks) (drop (Suc mid) ts))" and "key_ok (ks ! mid)"
proof -
  obtain t ts' where ts: "ts = t # ts'" using assms(1) by (cases ts) (auto simp: nodal_def)
  have l2: "list_all2 sep_ok ks ts'" and len: "length ts' = length ks" and ok: "list_all key_ok ks"
    using assms(1) ts by (auto simp: nodal_def)
  have "list_all2 sep_ok (take mid ks) (take mid ts')" "list_all2 sep_ok (drop (Suc mid) ks) (drop (Suc mid) ts')"
    using l2 by (rule list_all2_takeI, rule list_all2_dropI)
  moreover have "list_all key_ok (take mid ks)" "list_all key_ok (drop (Suc mid) ks)"
    using ok by (auto simp: list_all_iff dest: in_set_takeD in_set_dropD)
  moreover have "\<forall>t\<in>set (take (Suc mid) ts). good tr h t \<and> items t \<noteq> []"
    "\<forall>t\<in>set (drop (Suc mid) ts). good tr h t \<and> items t \<noteq> []"
    using assms(1) in_set_takeD [of _ "Suc mid" ts] in_set_dropD [of _ "Suc mid" ts] unfolding nodal_def by blast+
  moreover have "tl (take (Suc mid) ts) = take mid ts'" "tl (drop (Suc mid) ts) = drop (Suc mid) ts'"
    using ts by (simp_all add: drop_Suc tl_drop)
  ultimately show "nodal tr h (take mid ks) (take (Suc mid) ts)" and "nodal tr h (drop (Suc mid) ks) (drop (Suc mid) ts)"
    using assms(2) ts len by (simp_all add: nodal_def)
  have "sep_ok (ks ! mid) (ts' ! mid)" using l2 assms(2) by (rule list_all2_nthD)
  moreover have "drop mid ts' = ts' ! mid # drop (Suc mid) ts'" using assms(2) len by (simp add: Cons_nth_drop_Suc)
  ultimately show "sep_ok (ks ! mid) (BNode i (drop (Suc mid) ks) (drop (Suc mid) ts))"
    using ts by (auto simp: sep_ok_def hd_append)
  show "key_ok (ks ! mid)" using ok assms(2) by (simp add: list_all_iff)
qed

lemma distinct_middle:
  "distinct (A @ C @ B) \<Longrightarrow> distinct U \<Longrightarrow> set U \<inter> (set A \<union> set B) = {} \<Longrightarrow> distinct (A @ U @ B)"
  by auto

text \<open>What the replacement of a child leaves of the node around it.\<close>

lemma node_frame:
  assumes "stored (mem f) (BNode i ks (L @ c # R))" and "distinct (ids (BNode i ks (L @ c # R)))"
    and "becomes tr moves h k key row f c f1 us"
    and "\<forall>x\<in>set (concat (map items L)). ko (fst x) \<le> ko key" and "\<forall>x\<in>set (concat (map items R)). ko key < ko (fst x)"
  shows "mem f1 i = Some (InternalIndexNode ks (map rid (L @ c # R)))" and "\<forall>u\<in>set (L @ us @ R). stored (mem f1) u"
    and "distinct (i # concat (map ids (L @ us @ R)))"
    and "\<forall>j\<in>set (concat (map ids (L @ us @ R))). j \<in> set (ids (BNode i ks (L @ c # R))) \<or> mem f j = None"
    and "inserted key row (items (BNode i ks (L @ c # R))) (concat (map items (L @ us @ R)))"
    and "relinked (leaves (BNode i ks (L @ c # R))) (concat (map leaves (L @ us @ R)))"
proof -
  have same: "mem f j \<noteq> None \<Longrightarrow> j \<notin> set (ids c) \<Longrightarrow> mem f1 j = mem f j" for j
    using assms(3) by (auto simp: becomes_def)
  have dom: "j \<in> set (ids t) \<Longrightarrow> t \<in> set L \<union> set R \<Longrightarrow> mem f j \<noteq> None" for j t
    using assms(1) stored_dom [of "mem f" t j] by auto
  have d: "distinct (concat (map ids L) @ ids c @ concat (map ids R))" using assms(2) by simp
  have i: "i \<notin> set (ids c)" "i \<notin> set (concat (map ids L))" "i \<notin> set (concat (map ids R))" "mem f i \<noteq> None"
    using assms(1,2) by simp_all
  show "mem f1 i = Some (InternalIndexNode ks (map rid (L @ c # R)))" using same [OF i(4,1)] assms(1) by simp
  have dj: "set (ids c) \<inter> (set (concat (map ids L)) \<union> set (concat (map ids R))) = {}"
    using d unfolding distinct_append set_append by blast
  have sib: "stored (mem f1) t" if "t \<in> set L \<union> set R" for t
  proof (rule stored_cong [of "mem f"])
    show "stored (mem f) t" using assms(1) that by auto
    show "\<forall>j\<in>set (ids t). mem f1 j = mem f j"
    proof
      fix j assume j: "j \<in> set (ids t)"
      then have "j \<in> set (concat (map ids L)) \<union> set (concat (map ids R))" using that by auto
      then have "j \<notin> set (ids c)" using dj by blast
      with dom [OF j that] show "mem f1 j = mem f j" by (rule same)
    qed
  qed
  then show "\<forall>u\<in>set (L @ us @ R). stored (mem f1) u" using assms(3) by (auto simp: becomes_def)
  have us: "distinct (concat (map ids us))" "\<forall>j\<in>set (concat (map ids us)). j \<in> set (ids c) \<or> mem f j = None"
    using assms(3) by (auto simp: becomes_def)
  have "mem f j \<noteq> None" if "j \<in> set (concat (map ids L)) \<union> set (concat (map ids R))" for j
    using that dom by auto
  then have dj': "set (concat (map ids us)) \<inter> (set (concat (map ids L)) \<union> set (concat (map ids R))) = {}"
    using us(2) dj by (meson disjoint_iff)
  have "i \<notin> set (concat (map ids us))" using bspec [OF us(2), of i] i(1,4) by argo
  then have "i \<notin> set (concat (map ids L) @ concat (map ids us) @ concat (map ids R))" using i(2,3) by simp
  moreover from distinct_middle [OF d us(1) dj'] have "distinct (concat (map ids L) @ concat (map ids us) @ concat (map ids R))" .
  ultimately show "distinct (i # concat (map ids (L @ us @ R)))" by simp
  show "\<forall>j\<in>set (concat (map ids (L @ us @ R))). j \<in> set (ids (BNode i ks (L @ c # R))) \<or> mem f j = None"
  proof
    fix j assume "j \<in> set (concat (map ids (L @ us @ R)))"
    then have "j \<in> set (concat (map ids L)) \<or> j \<in> set (concat (map ids us)) \<or> j \<in> set (concat (map ids R))" by simp
    then show "j \<in> set (ids (BNode i ks (L @ c # R))) \<or> mem f j = None"
      using bspec [OF us(2), of j] by (auto simp del: set_concat)
  qed
  have ins: "inserted key row (items c) (concat (map items us))" and rel: "relinked (leaves c) (concat (map leaves us))"
    using assms(3) by (auto simp: becomes_def)
  show "inserted key row (items (BNode i ks (L @ c # R))) (concat (map items (L @ us @ R)))"
    using inserted_context [OF ins assms(4,5)] by simp
  show "relinked (leaves (BNode i ks (L @ c # R))) (concat (map leaves (L @ us @ R)))"
    using relinked_context [OF rel, of "concat (map leaves L)" "concat (map leaves R)"] by simp
qed

lemma node_becomes:
  assumes "stored (mem f) (BNode i ks (L @ c # R))" and "distinct (ids (BNode i ks (L @ c # R)))"
    and "becomes tr moves h k' key row f c f1 us"
    and "\<forall>x\<in>set (concat (map items L)). ko (fst x) \<le> ko key" and "\<forall>x\<in>set (concat (map items R)). ko key < ko (fst x)"
    and "good tr (Suc h) (BNode i ks' (L @ us @ R))" and "file_ok f2" and "room moves k f2"
    and "if_root_page f2 = if_root_page f" and "mem f2 = (mem f1)(i \<mapsto> InternalIndexNode ks' (map rid (L @ us @ R)))"
  shows "becomes tr moves (Suc h) k key row f (BNode i ks (L @ c # R)) f2 [BNode i ks' (L @ us @ R)]"
proof -
  note fr = node_frame [OF assms(1-5)]
  let ?u = "BNode i ks' (L @ us @ R)"
  have "i \<notin> set (concat (map ids (L @ us @ R)))" using fr(3) unfolding distinct.simps by blast
  then have "i \<notin> set (ids u)" if "u \<in> set (L @ us @ R)" for u using that by auto
  then have "\<forall>u\<in>set (L @ us @ R). stored (mem f2) u"
    using fr(2) assms(10) stored_cong [of "mem f1" _ "mem f2"] by (metis fun_upd_other)
  then have st: "stored (mem f2) ?u" using assms(10) by simp
  have ne: "items ?u \<noteq> []" using inserted_ne [OF fr(5)] by simp
  have "mem f j \<noteq> None \<Longrightarrow> mem f1 j \<noteq> None \<and> (j \<notin> set (ids c) \<longrightarrow> mem f1 j = mem f j)" for j
    using assms(3) by (simp add: becomes_def)
  then have "\<forall>j. mem f j \<noteq> None \<longrightarrow> mem f2 j \<noteq> None \<and> (j \<notin> set (ids (BNode i ks (L @ c # R))) \<longrightarrow> mem f2 j = mem f j)"
    using assms(10) by (simp del: set_concat)
  moreover have "\<forall>j\<in>set (ids ?u). j \<in> set (ids (BNode i ks (L @ c # R))) \<or> mem f j = None"
    using fr(4) by (simp del: set_concat)
  ultimately show ?thesis
    unfolding becomes_def using assms(6-9) st ne fr(3,5,6) by (simp del: good.simps stored.simps set_concat)
qed

lemma split_becomes:
  assumes "stored (mem f) (BNode i ks (L @ c # R))" and "distinct (ids (BNode i ks (L @ c # R)))"
    and "becomes tr moves h k' key row f c f1 us"
    and "\<forall>x\<in>set (concat (map items L)). ko (fst x) \<le> ko key" and "\<forall>x\<in>set (concat (map items R)). ko key < ko (fst x)"
    and "L @ us @ R = ts1 @ ts2" and "good tr (Suc h) (BNode i ks1 ts1)" and "good tr (Suc h) (BNode new ks2 ts2)"
    and "file_ok f2" and "room moves k f2" and "if_root_page f2 = if_root_page f" and "mem f1 new = None"
    and "mem f2 = (mem f1)(i \<mapsto> InternalIndexNode ks1 (map rid ts1), new \<mapsto> InternalIndexNode ks2 (map rid ts2))"
  shows "becomes tr moves (Suc h) k key row f (BNode i ks (L @ c # R)) f2 [BNode i ks1 ts1, BNode new ks2 ts2]"
proof -
  note fr = node_frame [OF assms(1-5), unfolded assms(6)]
  let ?l = "BNode i ks1 ts1" and ?r = "BNode new ks2 ts2"
  have ni: "new \<noteq> i" using fr(1) assms(12) by auto
  have fresh: "i \<notin> set (concat (map ids (ts1 @ ts2)))" "new \<notin> set (concat (map ids (ts1 @ ts2)))"
  proof -
    show "i \<notin> set (concat (map ids (ts1 @ ts2)))" using fr(3) unfolding distinct.simps by blast
    show "new \<notin> set (concat (map ids (ts1 @ ts2)))"
    proof
      assume "new \<in> set (concat (map ids (ts1 @ ts2)))"
      then obtain u where "u \<in> set (ts1 @ ts2)" "new \<in> set (ids u)" by auto
      then show False using fr(2) stored_dom [of "mem f1" u new] assms(12) by blast
    qed
  qed
  then have "i \<notin> set (ids u) \<and> new \<notin> set (ids u)" if "u \<in> set (ts1 @ ts2)" for u using that by auto
  then have st0: "\<forall>u\<in>set (ts1 @ ts2). stored (mem f2) u"
    using fr(2) assms(13) stored_cong [of "mem f1" _ "mem f2"] by (metis fun_upd_other)
  have st: "stored (mem f2) ?l" "stored (mem f2) ?r" using st0 assms(13) ni by simp_all
  have ne: "items ?l \<noteq> []" "items ?r \<noteq> []"
    using assms(7,8) by (cases ts1; auto; fail) (use assms(8) in \<open>cases ts2; auto\<close>)
  have mono: "mem f j \<noteq> None \<Longrightarrow> mem f1 j \<noteq> None \<and> (j \<notin> set (ids c) \<longrightarrow> mem f1 j = mem f j)" for j
    using assms(3) by (simp add: becomes_def)
  then have "\<forall>j. mem f j \<noteq> None \<longrightarrow> mem f2 j \<noteq> None \<and> (j \<notin> set (ids (BNode i ks (L @ c # R))) \<longrightarrow> mem f2 j = mem f j)"
    using assms(12,13) by (auto simp del: set_concat)
  moreover have "mem f new = None" using mono assms(12) by blast
  then have "\<forall>j\<in>set (concat (map ids [?l, ?r])). j \<in> set (ids (BNode i ks (L @ c # R))) \<or> mem f j = None"
    using fr(4) by (auto simp del: set_concat)
  moreover have "distinct (concat (map ids [?l, ?r]))"
    using fr(3) fresh(2) ni by (auto simp del: set_concat)
  moreover have "inserted key row (items (BNode i ks (L @ c # R))) (items ?l @ items ?r)" using fr(5) by simp
  ultimately show ?thesis
    unfolding becomes_def using assms(7-11) st ne fr(6) by (simp del: good.simps stored.simps set_concat items.simps(2))
qed

text \<open>The insertion from the page of a subtree on: it changes the subtree only, or splits it and goes on in the parent.\<close>

definition insert_from :: "bplus_tree \<Rightarrow> 's pager \<Rightarrow> data_token \<Rightarrow> row_ptr \<Rightarrow> index_page_id list \<Rightarrow> page_ptr \<Rightarrow> (unit, 's) act" where
  "insert_from tr pg key row path p = tbind (find_leaf_loop pg key path p) (insert_at_leaf tr pg key row)"

definition insert_result ::
    "bplus_tree \<Rightarrow> (nat \<Rightarrow> bool) \<Rightarrow> uuid \<Rightarrow> nat \<Rightarrow> nat \<Rightarrow> data_token \<Rightarrow> row_ptr \<Rightarrow> index_page_id list \<Rightarrow> index_file \<Rightarrow> bt \<Rightarrow>
     (unit \<times> index_file) outcome option \<Rightarrow> bool" where
  "insert_result tr moves ix h k key row path f t res \<longleftrightarrow>
     (\<exists>u f'. res = treturn () f' \<and> rid u = rid t \<and> becomes tr moves h k key row f t f' [u]) \<or>
     (\<exists>l sep r f'. res = insert_into_parent tr (file_pager moves ix) (path @ [rid t]) (rid t) sep (rid r) f' \<and>
        rid l = rid t \<and> key_ok sep \<and> sep_ok sep r \<and> becomes tr moves h k key row f t f' [l, r])"

lemma insert_into_parent_path:
  "insert_into_parent tr pg (path @ [i, j]) l sep r =
     tbind (link_into_parent pg i l sep r) (\<lambda>(parent_page, n).
       if n \<le> tr_max_internal_keys tr then treturn ()
       else tbind (split_internal pg parent_page) (\<lambda>(left_id, up_key, right_id).
         insert_into_parent tr pg (path @ [i]) left_id up_key right_id))"
proof -
  have "butlast (path @ [i, j]) = path @ [i]" by (simp add: butlast_append)
  from insert_into_parent.simps [of tr pg "path @ [i, j]", unfolded this] show ?thesis
    by (simp add: nth_append del: insert_into_parent.simps)
qed

lemma sep_ok_inserted:
  assumes "sep_ok s c" and "ko s \<le> ko key" and "inserted key row (items c) (items u @ xs)" and "items u \<noteq> []"
  shows "sep_ok s u"
  using inserted_hd [OF assms(3)] assms by (auto simp: sep_ok_def hd_append)

text \<open>The parent takes up the second half of a child that was split.\<close>

lemma parent_link:
  fixes sep :: data_token
  assumes st: "stored (mem f) (BNode i ks (L @ c # R))" and dis: "distinct (ids (BNode i ks (L @ c # R)))"
    and len: "length L \<le> length ks" and two: "becomes tr moves h (Suc k) key row f c f1 [l, r]" and l: "rid l = rid c"
    and L: "\<forall>x\<in>set (concat (map items L)). ko (fst x) \<le> ko key" and R: "\<forall>x\<in>set (concat (map items R)). ko key < ko (fst x)"
  defines "ks' \<equiv> insert_at (length L) sep ks" and "ts' \<equiv> L @ [l, r] @ R"
  shows "\<exists>p f2. link_into_parent (file_pager moves ix) i (rid c) sep (rid r) f1 = treturn (p, length ks') f2 \<and>
    page_pos (if_pages f2) i = Some p \<and> file_ok f2 \<and> room moves (Suc k) f2 \<and> if_root_page f2 = if_root_page f \<and>
    mem f2 = (mem f1)(i \<mapsto> InternalIndexNode ks' (map rid ts')) \<and> (\<forall>u\<in>set ts'. mem f2 (rid u) \<noteq> None)"
proof -
  note fr = node_frame [OF st dis two L R]
  have u: "file_ok f1" "room moves (Suc k) f1" "if_root_page f1 = if_root_page f" using two by (simp_all add: becomes_def)
  have mem1: "mem f1 i = Some (InternalIndexNode ks (map rid L @ rid c # map rid R))" using fr(1) by simp
  have d: "distinct (concat (map ids L) @ ids c @ concat (map ids R))" using dis by simp
  have rc: "rid c \<notin> set (map rid L)"
  proof
    assume "rid c \<in> set (map rid L)"
    then have "rid c \<in> set (concat (map ids L))" using rid_in_ids by fastforce
    with d rid_in_ids [of c] show False unfolding distinct_append set_append by blast
  qed
  have dom: "\<forall>u\<in>set ts'. mem f1 (rid u) \<noteq> None" using fr(2) stored_dom [OF _ rid_in_ids] unfolding ts'_def by blast
  then have rd: "mem f1 (rid r) \<noteq> None" by (simp add: ts'_def)
  from link_into_parent_spec [OF u(1) mem1 rc _ rd, of moves ix sep] len l obtain p f2 where
    link: "link_into_parent (file_pager moves ix) i (rid c) sep (rid r) f1 = treturn (p, length ks') f2"
      "page_pos (if_pages f2) i = Some p"
    and w: "wrote ((mem f1)(i \<mapsto> InternalIndexNode ks' (map rid ts'))) f1 f2"
    by (auto simp: ks'_def ts'_def)
  have "room moves (Suc k) f2" using u(2) w room_outline [of f2 f1] by (simp add: wrote_def)
  moreover have "if_root_page f2 = if_root_page f" using w u(3) by (simp add: wrote_def outline_def)
  moreover have "\<forall>u\<in>set ts'. mem f2 (rid u) \<noteq> None" using dom w by (auto simp: wrote_def)
  ultimately show ?thesis using link w unfolding wrote_def by blast
qed

lemma parent_split:
  assumes st: "stored (mem f) (BNode i ks (L @ c # R))" and dis: "distinct (ids (BNode i ks (L @ c # R)))"
    and two: "becomes tr moves h (Suc k) key row f c f1 [l, r]"
    and L: "\<forall>x\<in>set (concat (map items L)). ko (fst x) \<le> ko key" and R: "\<forall>x\<in>set (concat (map items R)). ko key < ko (fst x)"
    and nod: "nodal tr h ks' ts'" and ts': "ts' = L @ [l, r] @ R" and max: "length ks' = Suc (tr_max_internal_keys tr)"
    and p: "page_pos (if_pages f2) i = Some p" and f2: "file_ok f2" "room moves (Suc k) f2" "if_root_page f2 = if_root_page f"
    and mem2: "mem f2 = (mem f1)(i \<mapsto> InternalIndexNode ks' (map rid ts'))" and dom: "\<forall>u\<in>set ts'. mem f2 (rid u) \<noteq> None"
  shows "\<exists>l' sep r' f3. split_internal (file_pager moves ix) p f2 = treturn (i, sep, rid r') f3 \<and> rid l' = i \<and>
    key_ok sep \<and> sep_ok sep r' \<and> becomes tr moves (Suc h) k key row f (BNode i ks (L @ c # R)) f3 [l', r']"
proof -
  let ?mid = "length ks' div 2" and ?new = "if_last_page f2 + 1"
  let ?l = "BNode i (take ?mid ks') (take (Suc ?mid) ts')" and ?r = "BNode ?new (drop (Suc ?mid) ks') (drop (Suc ?mid) ts')"
  have ne: "ks' \<noteq> []" using max by auto
  have mi: "mem f2 i = Some (InternalIndexNode ks' (map rid ts'))" using mem2 by simp
  have len: "length (map rid ts') = Suc (length ks')" using nod by (simp add: nodal_def)
  have ch: "\<forall>c\<in>set (map rid ts'). mem f2 c \<noteq> None" using dom by auto
  from split_internal_spec [OF f2(1,2) p mi ne len ch, of ix] obtain f3 where new: "mem f2 ?new = None"
    and run: "split_internal (file_pager moves ix) p f2 = treturn (i, ks' ! ?mid, ?new) f3"
    and g: "grew moves k ((mem f2)(i \<mapsto> InternalIndexNode (take ?mid ks') (take (Suc ?mid) (map rid ts')),
      ?new \<mapsto> InternalIndexNode (drop (Suc ?mid) ks') (drop (Suc ?mid) (map rid ts')))) f2 f3"
    and root3: "if_root_page f3 = if_root_page f2" by blast
  have mid: "?mid < length ks'" using ne by (cases ks') auto
  note sp = nodal_split [OF nod mid]
  have gd: "good tr (Suc h) ?l" "good tr (Suc h) ?r" using sp(1,2) max mid by (auto simp: good_node simp del: good.simps)
  have m3: "mem f3 = (mem f1)(i \<mapsto> InternalIndexNode (take ?mid ks') (map rid (take (Suc ?mid) ts')),
      ?new \<mapsto> InternalIndexNode (drop (Suc ?mid) ks') (map rid (drop (Suc ?mid) ts')))"
    using g mem2 by (simp add: grew_def take_map drop_map)
  have tsd: "L @ [l, r] @ R = take (Suc ?mid) ts' @ drop (Suc ?mid) ts'"
    using ts' append_take_drop_id [of "Suc ?mid" ts'] by simp
  have f3: "file_ok f3" "room moves k f3" "if_root_page f3 = if_root_page f" using g root3 f2(3) by (simp_all add: grew_def)
  have "mem f1 ?new = None" using new mem2 by (auto split: if_splits)
  then have "becomes tr moves (Suc h) k key row f (BNode i ks (L @ c # R)) f3 [?l, ?r]"
    using split_becomes [OF st dis two L R tsd gd f3 _ m3] by blast
  then show ?thesis using run sp(3) [of ?new] sp(4) by (metis rid.simps(2))
qed

lemma insert_node:
  assumes t: "t = BNode i ks (L @ c # R)" and nod: "nodal tr h ks (L @ c # R)" and size: "length ks \<le> tr_max_internal_keys tr"
    and st: "stored (mem f) t" and dis: "distinct (ids t)"
    and L: "\<forall>x\<in>set (concat (map items L)). ko (fst x) \<le> ko key" and R: "\<forall>x\<in>set (concat (map items R)). ko key < ko (fst x)"
    and before: "L \<noteq> [] \<longrightarrow> sep_ok (ks ! (length L - 1)) c \<and> ko (ks ! (length L - 1)) \<le> ko key"
    and child: "insert_result tr moves ix h (Suc k) key row (path @ [i]) f c res"
  shows "insert_result tr moves ix (Suc h) k key row path f t res"
proof -
  let ?fp = "file_pager moves ix"
  note st' = st [unfolded t] and dis' = dis [unfolded t]
  from child consider
    (one) u f1 where "res = treturn () f1" "rid u = rid c" "becomes tr moves h (Suc k) key row f c f1 [u]"
  | (two) l sep r f1 where "res = insert_into_parent tr ?fp (path @ [i, rid c]) (rid c) sep (rid r) f1"
      "rid l = rid c" "key_ok sep" "sep_ok sep r" "becomes tr moves h (Suc k) key row f c f1 [l, r]"
    by (auto simp: insert_result_def simp del: insert_into_parent.simps)
  then show ?thesis
  proof cases
    case one
    have u: "good tr h u" "items u \<noteq> []" "inserted key row (items c) (items u @ [])" "file_ok f1" "room moves (Suc k) f1"
        "if_root_page f1 = if_root_page f" using one(3) by (simp_all add: becomes_def)
    have "L \<noteq> [] \<longrightarrow> sep_ok (ks ! (length L - 1)) u" using before sep_ok_inserted [OF _ _ u(3,2)] by blast
    then have "nodal tr h ks (L @ [u] @ R)" using nodal_replace [OF nod u(1,2)] by simp
    then have g: "good tr (Suc h) (BNode i ks (L @ [u] @ R))" using size good_node by blast
    have m: "mem f1 = (mem f1)(i \<mapsto> InternalIndexNode ks (map rid (L @ [u] @ R)))"
      using node_frame(1) [OF st' dis' one(3) L R] one(2) by (auto simp: fun_eq_iff)
    have "becomes tr moves (Suc h) k key row f t f1 [BNode i ks (L @ [u] @ R)]"
      unfolding t by (rule node_becomes [OF st' dis' one(3) L R g u(4) room_mono [OF u(5)] u(6) m]) simp
    then show ?thesis using one(1) unfolding insert_result_def t by (metis rid.simps(2))
  next
    case two
    let ?ks = "insert_at (length L) sep ks" and ?ts = "L @ [l, r] @ R"
    have u: "good tr h l" "items l \<noteq> []" "inserted key row (items c) (items l @ items r)" "good tr h r"
      using two(5) by (simp_all add: becomes_def)
    have "L \<noteq> [] \<longrightarrow> sep_ok (ks ! (length L - 1)) l" using before sep_ok_inserted [OF _ _ u(3,2)] by blast
    then have nod': "nodal tr h ?ks ?ts" using nodal_replace2 [OF nod u(1,2,4) two(4,3)] by simp
    have "length L \<le> length ks" using nod by (simp add: nodal_def)
    from parent_link [OF st' dis' this two(5,2) L R, of ix sep] obtain p f2 where
      link: "link_into_parent ?fp i (rid c) sep (rid r) f1 = treturn (p, length ?ks) f2" and p: "page_pos (if_pages f2) i = Some p"
      and f2: "file_ok f2" "room moves (Suc k) f2" "if_root_page f2 = if_root_page f"
        "mem f2 = (mem f1)(i \<mapsto> InternalIndexNode ?ks (map rid ?ts))" "\<forall>u\<in>set ?ts. mem f2 (rid u) \<noteq> None" by blast
    show ?thesis
    proof (cases "length ?ks \<le> tr_max_internal_keys tr")
      case True
      then have g: "good tr (Suc h) (BNode i ?ks ?ts)" using nod' good_node by blast
      have "becomes tr moves (Suc h) k key row f t f2 [BNode i ?ks ?ts]"
        unfolding t by (rule node_becomes [OF st' dis' two(5) L R g f2(1) room_mono [OF f2(2)] f2(3,4)]) simp
      moreover have "res = treturn () f2"
        using two(1) link True by (simp add: insert_into_parent_path del: insert_into_parent.simps)
      ultimately show ?thesis unfolding insert_result_def t by (metis rid.simps(2))
    next
      case False
      then have "length ?ks = Suc (tr_max_internal_keys tr)" using size by simp
      from parent_split [OF st' dis' two(5) L R nod' refl this p f2, of ix] obtain l' s r' f3 where
        "split_internal ?fp p f2 = treturn (i, s, rid r') f3" "rid l' = i" "key_ok s" "sep_ok s r'"
        "becomes tr moves (Suc h) k key row f t f3 [l', r']" unfolding t by blast
      moreover from this have "res = insert_into_parent tr ?fp (path @ [i]) i s (rid r') f3"
        using two(1) link False by (simp add: insert_into_parent_path del: insert_into_parent.simps)
      ultimately show ?thesis unfolding insert_result_def t by (metis rid.simps(2))
    qed
  qed
qed

lemma insert_from_spec:
  assumes "good tr h t" and "stored (mem f) t" and "distinct (ids t)" and "file_ok f" and "room moves (Suc h + k) f"
    and "key_sorted (items t)" and "page_pos (if_pages f) (rid t) = Some p" and "key_ok key" and "0 < tr_max_leaf_keys tr"
  shows "insert_result tr moves ix h k key row path f t (insert_from tr (file_pager moves ix) key row path p f)"
  using assms(1-3,5-7,9)
proof (induction tr h t arbitrary: path p k rule: good.induct)
  case (1 tr i ks rs n)
  have "find_leaf_loop (file_pager moves ix) key path p f = treturn (path @ [i], p) f"
    using descend_leaf [OF assms(4), of i p ks rs n moves ix key path] 1 by simp
  then have "insert_from tr (file_pager moves ix) key row path p f = insert_at_leaf tr (file_pager moves ix) key row (path @ [i], p) f"
    by (simp add: insert_from_def)
  moreover have "mem f i = Some (LeafIndexNode ks rs n)" "page_pos (if_pages f) i = Some p" "key_sorted (zip ks rs)"
    "room moves (Suc k) f" using 1 by simp_all
  ultimately show ?case
    using insert_leaf [OF assms(4) _ _ _ "1.prems"(1) _ assms(8) "1.prems"(7), where ix = ix and row = row and path = "path @ [i]"]
    unfolding insert_result_def by (simp del: insert_into_parent.simps)
next
  case (2 tr h i ks ts)
  have nod: "nodal tr h ks ts" and size: "length ks \<le> tr_max_internal_keys tr" using "2.prems"(1) good_node by blast+
  have srt: "key_sorted (concat (map items ts))" using "2.prems"(5) by simp
  from node_route [OF nod srt, of key] obtain L c R where ts: "ts = L @ c # R" and len: "length L = route key ks"
    and LR: "\<forall>x\<in>set (concat (map items L)). ko (fst x) \<le> ko key" "\<forall>x\<in>set (concat (map items R)). ko key < ko (fst x)"
    and before: "L \<noteq> [] \<longrightarrow> sep_ok (ks ! (length L - 1)) c \<and> ko (ks ! (length L - 1)) \<le> ko key" by metis
  have c: "c \<in> set ts" "good tr h c" "stored (mem f) c" "key_sorted (items c)" "distinct (ids c)"
    using "2.prems" ts by (auto simp: key_sorted_append)
  have child: "map rid ts ! route key ks = rid c" "route key ks < length (map rid ts)" using ts len by (simp_all add: nth_append)
  have "mem f (rid c) \<noteq> None" using stored_dom [OF c(3) rid_in_ids] .
  then obtain q where q: "page_pos (if_pages f) (rid c) = Some q" using page_pos_dom by blast
  have "find_leaf_loop (file_pager moves ix) key path p f = find_leaf_loop (file_pager moves ix) key (path @ [i]) q f"
    by (rule descend_node [OF assms(4), of i p ks "map rid ts"])
      (use "2.prems" child q assms(8) in \<open>auto simp: nodal_def\<close>)
  then have step: "insert_from tr (file_pager moves ix) key row path p f = insert_from tr (file_pager moves ix) key row (path @ [i]) q f"
    by (simp add: insert_from_def tbind_def)
  have "room moves (Suc h + Suc k) f" using "2.prems"(4) by simp
  note r = "2.IH" [OF c(1,2,3,5) this c(4) q "2.prems"(7), of "path @ [i]"]
  show ?case unfolding step
    by (rule insert_node [OF _ nod [unfolded ts] size "2.prems"(2,3) LR before r]) (simp add: ts)
qed auto

section \<open>The index\<close>

text \<open>The leaves are linked in order, the last one to page 0.\<close>

fun chain :: "(index_page_id \<times> index_page_id) list \<Rightarrow> bool" where
  "chain [] = True"
| "chain [(i, n)] = (n = 0)"
| "chain ((i, n) # (j, m) # r) = (n = j \<and> chain ((j, m) # r))"

lemma chain_relinked: "relinked xs ys \<Longrightarrow> chain xs \<Longrightarrow> chain ys"
proof -
  have "chain (as @ (i, n) # bs) \<Longrightarrow> chain (as @ (i, new) # (new, n) # bs)" for as bs :: "(index_page_id \<times> index_page_id) list" and i n new
  proof (induction as rule: chain.induct)
    case 1
    have "chain ((i, n) # bs) \<Longrightarrow> chain ((new, n) # bs)" by (cases bs) auto
    with 1 show ?case by simp
  next
    case (2 j m)
    have "chain ((i, n) # bs) \<Longrightarrow> chain ((new, n) # bs)" by (cases bs) auto
    with 2 show ?case by simp
  qed simp
  then show "relinked xs ys \<Longrightarrow> chain xs \<Longrightarrow> chain ys" unfolding relinked_def by blast
qed

definition holds_tree :: "bplus_tree \<Rightarrow> nat \<Rightarrow> index_file \<Rightarrow> bt \<Rightarrow> bool" where
  "holds_tree tr h f t \<longleftrightarrow> file_ok f \<and> if_root_page f = rid t \<and> good tr h t \<and> stored (mem f) t \<and>
     distinct (ids t) \<and> key_sorted (items t) \<and> chain (leaves t)"

lemma tok_eq_ko: "key_ok a \<Longrightarrow> key_ok b \<Longrightarrow> tok_eq a b = Done (ko a = ko b)"
  using tok_eq_wf [of a b] ko_eq [of a b] by (simp add: key_ok_def del: wf_token.simps)

lemma holds_tree_root:
  assumes "holds_tree tr h f t"
  obtains p where "page_pos (if_pages f) (rid t) = Some p" "tree_root (file_pager moves ix) f = treturn p f"
proof -
  have "mem f (rid t) \<noteq> None" using assms stored_dom [OF _ rid_in_ids] by (auto simp: holds_tree_def)
  then obtain p where "page_pos (if_pages f) (rid t) = Some p" using page_pos_dom by blast
  then show thesis using assms by (intro that [of p]) (simp_all add: tree_root_def holds_tree_def)
qed

lemma tree_find_file:
  assumes "holds_tree tr h f t" and "key_ok key"
  shows "\<exists>r. tree_find (file_pager moves ix) key f = treturn r f \<and>
    (case r of None \<Rightarrow> \<forall>x\<in>set (items t). tok_eq (fst x) key = Done False
     | Some row \<Rightarrow> \<exists>k. (k, row) \<in> set (items t) \<and> tok_eq k key = Done True)"
proof -
  have t: "good tr h t" "stored (mem f) t" "file_ok f" "key_sorted (items t)" using assms(1) by (simp_all add: holds_tree_def)
  obtain p where p: "page_pos (if_pages f) (rid t) = Some p" "tree_root (file_pager moves ix) f = treturn p f"
    using holds_tree_root [OF assms(1)] .
  obtain path q i ks rs n where run: "find_leaf_loop (file_pager moves ix) key [] p f = treturn (path, q) f"
    and q: "page_pos (if_pages f) i = Some q" "mem f i = Some (LeafIndexNode ks rs n)"
    and leaf: "length rs = length ks" "list_all key_ok ks" "set (zip ks rs) \<subseteq> set (items t)"
      "(\<exists>x\<in>set (items t). ko (fst x) = ko key) \<longrightarrow> (\<exists>k\<in>set ks. ko k = ko key)"
    using find_leaf_loop_spec [OF t p(1) assms(2), of moves ix "[]"] by blast
  obtain r where r: "scan_equal ks key = Done r"
    "case r of None \<Rightarrow> \<forall>k\<in>set ks. ko k \<noteq> ko key | Some i \<Rightarrow> i < length ks \<and> ko (ks ! i) = ko key"
    using scan_equal_ko [OF leaf(2) assms(2)] by blast
  have dd: "ip_data (if_pages f ! q) = LeafIndexNode ks rs n" using page_pos_mem [OF q(1)] q(2) by simp
  have find: "find_leaf (file_pager moves ix) key f = treturn (path, q) f" using p(2) run by (simp add: find_leaf_def)
  have ok: "x \<in> set (items t) \<Longrightarrow> tok_eq (fst x) key = Done (ko (fst x) = ko key)" for x
    using tok_eq_ko [OF items_key_ok [OF t(1)] assms(2)] .
  show ?thesis
  proof (cases r)
    case None
    then have "tree_find (file_pager moves ix) key f = treturn None f"
      using find dd r(1) page_pos_Some [OF q(1)] by (simp add: tree_find_def)
    moreover have "\<forall>x\<in>set (items t). tok_eq (fst x) key = Done False" using ok leaf(4) r(2) None by auto
    ultimately show ?thesis by (intro exI [of _ None]) simp
  next
    case (Some j)
    then have "tree_find (file_pager moves ix) key f = treturn (Some (rs ! j)) f"
      using find dd r page_pos_Some [OF q(1)] leaf(1) by (simp add: tree_find_def)
    moreover have "(ks ! j, rs ! j) \<in> set (items t)" 
      using leaf(1,3) r(2) Some nth_mem [of j "zip ks rs"] by auto
    moreover from ok [OF this] have "tok_eq (ks ! j) key = Done True" using r(2) Some by simp
    ultimately show ?thesis by (intro exI [of _ "Some (rs ! j)"]) auto
  qed
qed

text \<open>A split of the root puts a new root above the halves.\<close>

lemma new_root:
  assumes "becomes tr moves h (Suc k) key row f t f1 [l, r]" and "key_ok sep" and "sep_ok sep r" and "0 < tr_max_internal_keys tr"
    and "key_sorted (items t)" and "chain (leaves t)"
  shows "\<exists>t' f'. link_new_root (file_pager moves ix) (rid l) sep (rid r) f1 = treturn () f' \<and>
    holds_tree tr (Suc h) f' t' \<and> inserted key row (items t) (items t')"
proof -
  have b: "file_ok f1" "room moves (Suc k) f1" "good tr h l" "good tr h r" "stored (mem f1) l" "stored (mem f1) r"
      "items l \<noteq> []" "distinct (ids l @ ids r)" "inserted key row (items t) (items l @ items r)"
      "relinked (leaves t) (leaves l @ leaves r)" using assms(1) by (simp_all add: becomes_def)
  have dom: "mem f1 (rid l) \<noteq> None" "mem f1 (rid r) \<noteq> None" using stored_dom [OF _ rid_in_ids] b(5,6) by auto
  let ?new = "if_last_page f1 + 1"
  let ?t = "BNode ?new [sep] [l, r]"
  from link_new_root_spec [OF b(1,2) dom, of ix sep] obtain f' where new: "mem f1 ?new = None"
    and run: "link_new_root (file_pager moves ix) (rid l) sep (rid r) f1 = treturn () f'"
    and g: "file_ok f'" "mem f' = (mem f1)(?new \<mapsto> InternalIndexNode [sep] [rid l, rid r])" "if_root_page f' = ?new"
    by (auto simp: grew_def)
  have ni: "?new \<notin> set (ids l)" "?new \<notin> set (ids r)" using stored_dom [OF b(5), of ?new] stored_dom [OF b(6), of ?new] new by auto
  have "stored (mem f') l" "stored (mem f') r"
    using stored_cong [OF b(5)] stored_cong [OF b(6)] ni g(2) by (metis fun_upd_other)+
  moreover have "chain (leaves ?t)" using chain_relinked [OF b(10) assms(6)] by simp
  moreover have "key_sorted (items ?t)" using inserted_sorted [OF b(9) assms(5)] by simp
  moreover have "good tr (Suc h) ?t" using b(3,4,7) assms(2,3,4) by (auto simp: sep_ok_def)
  ultimately have "holds_tree tr (Suc h) f' ?t" using g ni b(8) by (simp add: holds_tree_def)
  then show ?thesis using run b(9) by (intro exI [of _ ?t] exI [of _ f']) simp
qed

lemma tree_insert_file:
  assumes "holds_tree tr h f t" and "key_ok key" and "room moves (h + 2) f" and "0 < tr_max_leaf_keys tr" and "0 < tr_max_internal_keys tr"
  shows "\<exists>f' h' t'. tree_insert tr (file_pager moves ix) key row f = treturn () f' \<and> holds_tree tr h' f' t' \<and>
    inserted key row (items t) (items t')"
proof -
  let ?fp = "file_pager moves ix"
  have t: "good tr h t" "stored (mem f) t" "distinct (ids t)" "file_ok f" "key_sorted (items t)" "chain (leaves t)"
    "if_root_page f = rid t" using assms(1) by (simp_all add: holds_tree_def)
  have r: "room moves (Suc h + Suc 0) f" using assms(3) by simp
  obtain p where p: "page_pos (if_pages f) (rid t) = Some p" "tree_root ?fp f = treturn p f"
    using holds_tree_root [OF assms(1)] .
  have run: "tree_insert tr ?fp key row f = tbind (insert_from tr ?fp key row [] p) (\<lambda>_. pg_mark_dirty ?fp) f"
    using p(2) by (simp add: tree_insert_parts find_leaf_def insert_from_def tbind_assoc)
  have top: "insert_into_parent tr ?fp [i] l s r = link_new_root ?fp l s r" for i l s r by simp
  from insert_from_spec [OF t(1-4) r t(5) p(1) assms(2,4), of ix row "[]"] consider
    (one) u f1 where "insert_from tr ?fp key row [] p f = treturn () f1" "rid u = rid t" "becomes tr moves h (Suc 0) key row f t f1 [u]"
  | (two) l sep r f1 where "insert_from tr ?fp key row [] p f = link_new_root ?fp (rid l) sep (rid r) f1"
      "key_ok sep" "sep_ok sep r" "becomes tr moves h (Suc 0) key row f t f1 [l, r]"
    unfolding insert_result_def append_Nil top by metis
  then show ?thesis
  proof cases
    case one
    have "holds_tree tr h f1 u" "inserted key row (items t) (items u)"
      using one(2,3) t(5-7) inserted_sorted [of key row "items t" "items u"] chain_relinked [of "leaves t" "leaves u"]
      by (auto simp: holds_tree_def becomes_def)
    then show ?thesis using run one(1) by (intro exI [of _ f1] exI [of _ h] exI [of _ u]) simp
  next
    case two
    from new_root [OF two(4,2,3) assms(5) t(5,6), of ix] obtain t' f' where
      "link_new_root ?fp (rid l) sep (rid r) f1 = treturn () f'" "holds_tree tr (Suc h) f' t'" "inserted key row (items t) (items t')"
      by blast
    then show ?thesis using run two(1) by (intro exI [of _ f'] exI [of _ "Suc h"] exI [of _ t']) simp
  qed
qed

section \<open>Properties\<close>

text \<open>A new index, as \<^verbatim>\<open>create_index_file\<close> makes it and \<^verbatim>\<open>create_table_index\<close> caches it.\<close>

definition new_index :: "uuid \<Rightarrow> index_file" where
  "new_index index_id = empty_index_file\<lparr>if_index_id := index_id, if_root_page := 1, if_last_page := 1,
     if_pages := [empty_root index_id]\<rparr>"

lemma create_index_file_new: "create_index_file io s t mi = Done (io', f) \<Longrightarrow> f = new_index (mi_id mi)"
  by (auto simp: create_index_file_def Let_def obind_Done_conv new_index_def empty_root_def)

lemma new_index_tree: "holds_tree tr 0 (new_index index_id) (BLeaf 1 [] [] 0)"
  by (simp add: holds_tree_def new_index_def file_ok_def page_ids_def empty_root_def mem_def is_leaf_node_def key_sorted_def)

definition sample_index_pool :: buffer_pool where
  "sample_index_pool = (buffer_pool_new sample_io)\<lparr>bp_indexes_of := [3 \<mapsto> [9]],
     bp_index_files := \<lparr>ca_max_size = 100, ca_map = [(9, \<lparr>ce_value = new_index 9, ce_dirty = True\<rparr>)], ca_lru = [9]\<rparr>\<rparr>"

definition sample_pager :: bp_index_pager where
  "sample_pager = \<lparr>bpi_table_id = 3, bpi_index_id = 9\<rparr>"

lemma sample_index_pool_holds: "pool_holds sample_index_pool sample_pager sample_index_pool (new_index 9)"
  by (simp add: pool_holds_def sample_index_pool_def sample_pager_def buffer_pool_new_def cache_ok_def)

lemma key_ok_string: "key_ok (string_token bs)"
  by (simp add: key_ok_def string_token_def)



text \<open>C29: a lookup returns a row whose entry in the index has an equal key, and returns nothing only if no entry has.\<close>

theorem index_find:
  assumes "pool_holds B pg bp f" and "holds_tree index_bplus_tree h f t" and "key_ok key"
  shows "\<exists>r bp'. tree_find (bp_pager moves pg) key bp = Some (Done (r, bp')) \<and> pool_holds B pg bp' f \<and>
    (case r of None \<Rightarrow> \<forall>x\<in>set (items t). tok_eq (fst x) key = Done False
     | Some row \<Rightarrow> \<exists>k. (k, row) \<in> set (items t) \<and> tok_eq k key = Done True)"
proof -
  obtain r where run: "tree_find (file_pager moves (bpi_index_id pg)) key f = treturn r f"
    and r: "case r of None \<Rightarrow> \<forall>x\<in>set (items t). tok_eq (fst x) key = Done False
     | Some row \<Rightarrow> \<exists>k. (k, row) \<in> set (items t) \<and> tok_eq k key = Done True"
    using tree_find_file [OF assms(2,3)] by blast
  from simulatesD [OF bp.sim_tree_find assms(1) run [unfolded treturn_def]] obtain bp' where
    "tree_find (bp_pager moves pg) key bp = Some (Done (r, bp'))" "pool_holds B pg bp' f"
    by (auto elim!: outcome.rel_cases)
  with r show ?thesis by blast
qed

theorem index_find_witness:
  "\<exists>bp'. tree_find (bp_pager (\<lambda>n. False) sample_pager) (string_token [1]) sample_index_pool = Some (Done (None, bp'))"
proof -
  from index_find [OF sample_index_pool_holds new_index_tree key_ok_string, of "\<lambda>n. False" "[1]"]
  obtain r bp' where "tree_find (bp_pager (\<lambda>n. False) sample_pager) (string_token [1]) sample_index_pool = Some (Done (r, bp'))"
    "case r of None \<Rightarrow> True | Some row \<Rightarrow> False" by (auto split: option.splits)
  then show ?thesis by (cases r) auto
qed

text \<open>When the vector of pages has to move to grow, a split uses references into its old memory: inserting into a
  full root leaf is undefined. The vector of a new index holds one page and has no spare room to count on.\<close>

theorem index_split_undefined:
  assumes "pool_holds B pg bp f" and "holds_tree index_bplus_tree 0 f t" and "key_ok key" and "length (items t) = 64"
    and "moves (length (if_pages f))"
  shows "tree_insert index_bplus_tree (bp_pager moves pg) key row bp = Some Undef"
proof -
  let ?fp = "file_pager moves (bpi_index_id pg)"
  obtain i ks rs n where t: "t = BLeaf i ks rs n" using assms(2) by (cases t) (auto simp: holds_tree_def)
  have f: "file_ok f" "mem f i = Some (LeafIndexNode ks rs n)" "length rs = length ks" "list_all key_ok ks" "length ks = 64"
    using assms(2,4) by (auto simp: holds_tree_def t)
  obtain p where p: "page_pos (if_pages f) i = Some p" "tree_root ?fp f = treturn p f"
    using holds_tree_root [OF assms(2)] by (auto simp: t)
  obtain f1 ks' rs' where run: "insert_at_leaf index_bplus_tree ?fp key row ([i], p) f =
      (if 64 < length ks' then split_leaf_and_propagate index_bplus_tree ?fp p [i] else treturn ()) f1"
    and w: "wrote ((mem f)(i \<mapsto> LeafIndexNode ks' rs' n)) f f1" and len: "length ks' = 65"
    using insert_leaf_write [OF f(1) p(1) f(2-4) assms(3), of index_bplus_tree moves "bpi_index_id pg" row "[i]"] f(5)
    by (auto simp: index_bplus_tree_def)
  have p1: "page_pos (if_pages f1) i = Some p" using p(1) w page_pos_outline [of f1 f] by (simp add: wrote_def)
  have dd: "ip_data (if_pages f1 ! p) = LeafIndexNode ks' rs' n" using page_pos_mem [OF p1] w by (simp add: wrote_def)
  have "moves (length (if_pages f1))" using assms(5) w length_outline [of f1 f] by (simp add: wrote_def)
  then have "split_leaf_and_propagate index_bplus_tree ?fp p [i] f1 = Some Undef"
    using page_pos_Some [OF p1] dd by (simp add: split_leaf_and_propagate_def Let_def tundef_def)
  then have "insert_at_leaf index_bplus_tree ?fp key row ([i], p) f = Some Undef" using run len by simp
  moreover have "find_leaf ?fp key f = treturn ([i], p) f"
    using p(2) descend_leaf [OF f(1) p(1) f(2), of moves "bpi_index_id pg" key "[]"] by (simp add: find_leaf_def)
  ultimately have "tree_insert index_bplus_tree ?fp key row f = Some Undef"
    by (simp add: tree_insert_parts) (simp add: tbind_def)
  from simulatesD [OF bp.sim_tree_insert assms(1) this] show ?thesis by (auto elim!: outcome.rel_cases)
qed

definition full_index :: index_file where
  "full_index = (new_index 9)\<lparr>if_pages := [(empty_root 9)\<lparr>ip_data :=
     LeafIndexNode (replicate 64 (string_token [1])) (replicate 64 (5, 7)) 0\<rparr>]\<rparr>"

lemma full_index_tree:
  "holds_tree index_bplus_tree 0 full_index (BLeaf 1 (replicate 64 (string_token [1])) (replicate 64 (5, 7)) 0)"
  using key_ok_string [of "[1]"]
  by (simp add: holds_tree_def full_index_def new_index_def file_ok_def page_ids_def empty_root_def mem_def is_leaf_node_def
      key_sorted_def index_bplus_tree_def list_all_iff zip_replicate map_replicate sorted_replicate)

definition full_index_pool :: buffer_pool where
  "full_index_pool = sample_index_pool\<lparr>bp_index_files :=
     \<lparr>ca_max_size = 100, ca_map = [(9, \<lparr>ce_value = full_index, ce_dirty = True\<rparr>)], ca_lru = [9]\<rparr>\<rparr>"

theorem index_split_undefined_witness:
  "tree_insert index_bplus_tree (bp_pager (\<lambda>n. n = 1) sample_pager) (string_token [2]) (5, 8) full_index_pool = Some Undef"
proof -
  have "pool_holds full_index_pool sample_pager full_index_pool full_index"
    by (simp add: pool_holds_def full_index_pool_def sample_index_pool_def sample_pager_def buffer_pool_new_def cache_ok_def)
  moreover have "length (if_pages full_index) = 1" by (simp add: full_index_def)
  ultimately show ?thesis by (intro index_split_undefined [OF _ full_index_tree key_ok_string]) (simp_all add: zip_replicate)
qed

end
