(* ===== verification/Wal_Record.thy ===== *)
theory Wal_Record
  imports Db_Types
begin

text \<open>
  The write-ahead log records of \<^verbatim>\<open>src/deltabase/src/types/include/wal_log.hpp\<close>: one
  \<open>record\<close> per struct, all extending the common header \<open>wal_hdr\<close>, and the variant
  \<^verbatim>\<open>WALRecord\<close> as the datatype \<open>wal_record\<close> with one constructor per alternative.
\<close>

section \<open>Record types\<close>

record wal_hdr =
  h_lsn :: lsn
  h_prev_lsn :: lsn
  h_txn_id :: uuid

record insert_record = wal_hdr +
  ins_table_id :: uuid
  ins_page_id :: uuid
  ins_after :: data_row

record update_record = wal_hdr +
  upd_table_id :: uuid
  upd_page_id :: uuid
  upd_before :: data_row
  upd_after :: data_row

record delete_record = wal_hdr +
  del_table_id :: uuid
  del_page_id :: uuid
  del_before :: data_row

record create_table_record = wal_hdr +
  crt_after :: meta_table

record update_table_record = wal_hdr +
  upt_before :: meta_table
  upt_after :: meta_table

record delete_table_record = wal_hdr +
  dlt_before :: meta_table

record create_schema_record = wal_hdr +
  crs_schema :: meta_schema

record update_schema_record = wal_hdr +
  ups_before :: meta_schema
  ups_after :: meta_schema

record delete_schema_record = wal_hdr +
  dls_before :: meta_schema

type_synonym begin_txn_record = wal_hdr

type_synonym commit_txn_record = wal_hdr

type_synonym rollback_txn_record = wal_hdr

record clr_insert_record = wal_hdr +
  clr_ins_table_id :: uuid
  clr_ins_page_id :: uuid
  clr_ins_undo_next_lsn :: lsn
  clr_ins_after :: data_row

record clr_update_record = wal_hdr +
  clr_upd_table_id :: uuid
  clr_upd_page_id :: uuid
  clr_upd_undo_next_lsn :: lsn
  clr_upd_before :: data_row
  clr_upd_after :: data_row

record clr_delete_record = wal_hdr +
  clr_del_table_id :: uuid
  clr_del_page_id :: uuid
  clr_del_undo_next_lsn :: lsn
  clr_del_before :: data_row

record clr_create_schema_record = wal_hdr +
  clr_crs_undo_next_lsn :: lsn
  clr_crs_schema :: meta_schema

record clr_update_schema_record = wal_hdr +
  clr_ups_undo_next_lsn :: lsn
  clr_ups_before :: meta_schema
  clr_ups_after :: meta_schema

record clr_delete_schema_record = wal_hdr +
  clr_dls_undo_next_lsn :: lsn
  clr_dls_before :: meta_schema

record clr_create_table_record = wal_hdr +
  clr_crt_undo_next_lsn :: lsn
  clr_crt_after :: meta_table

record clr_update_table_record = wal_hdr +
  clr_upt_undo_next_lsn :: lsn
  clr_upt_before :: meta_table
  clr_upt_after :: meta_table

record clr_delete_table_record = wal_hdr +
  clr_dlt_undo_next_lsn :: lsn
  clr_dlt_before :: meta_table

record create_index_record = wal_hdr +
  cri_after :: meta_index

record clr_create_index_record = wal_hdr +
  clr_cri_undo_next_lsn :: lsn
  clr_cri_after :: meta_index

record drop_index_record = wal_hdr +
  dri_before :: meta_index

record clr_drop_index_record = wal_hdr +
  clr_dri_undo_next_lsn :: lsn
  clr_dri_before :: meta_index

section \<open>The variant\<close>

datatype wal_record =
    InsertRecord insert_record
  | CLRInsertRecord clr_insert_record
  | UpdateRecord update_record
  | CLRUpdateRecord clr_update_record
  | DeleteRecord delete_record
  | CLRDeleteRecord clr_delete_record
  | CreateSchemaRecord create_schema_record
  | CLRCreateSchemaRecord clr_create_schema_record
  | UpdateSchemaRecord update_schema_record
  | CLRUpdateSchemaRecord clr_update_schema_record
  | DeleteSchemaRecord delete_schema_record
  | CLRDeleteSchemaRecord clr_delete_schema_record
  | CreateTableRecord create_table_record
  | CLRCreateTableRecord clr_create_table_record
  | UpdateTableRecord update_table_record
  | CLRUpdateTableRecord clr_update_table_record
  | DeleteTableRecord delete_table_record
  | CLRDeleteTableRecord clr_delete_table_record
  | CreateIndexRecord create_index_record
  | CLRCreateIndexRecord clr_create_index_record
  | DropIndexRecord drop_index_record
  | CLRDropIndexRecord clr_drop_index_record
  | BeginTxnRecord begin_txn_record
  | CommitTxnRecord commit_txn_record
  | RollbackTxnRecord rollback_txn_record

text \<open>\<^verbatim>\<open>WALRecordType\<close>: the enumerators number from \<^verbatim>\<open>INSERT = 1\<close>.\<close>

fun wal_type_code :: "wal_record \<Rightarrow> u64" where
  "wal_type_code (InsertRecord r) = 1"
| "wal_type_code (UpdateRecord r) = 2"
| "wal_type_code (DeleteRecord r) = 3"
| "wal_type_code (CreateTableRecord r) = 4"
| "wal_type_code (UpdateTableRecord r) = 5"
| "wal_type_code (DeleteTableRecord r) = 6"
| "wal_type_code (CreateSchemaRecord r) = 7"
| "wal_type_code (UpdateSchemaRecord r) = 8"
| "wal_type_code (DeleteSchemaRecord r) = 9"
| "wal_type_code (BeginTxnRecord r) = 10"
| "wal_type_code (CommitTxnRecord r) = 11"
| "wal_type_code (RollbackTxnRecord r) = 12"
| "wal_type_code (CLRInsertRecord r) = 13"
| "wal_type_code (CLRUpdateRecord r) = 14"
| "wal_type_code (CLRDeleteRecord r) = 15"
| "wal_type_code (CLRCreateSchemaRecord r) = 16"
| "wal_type_code (CLRUpdateSchemaRecord r) = 17"
| "wal_type_code (CLRDeleteSchemaRecord r) = 18"
| "wal_type_code (CLRCreateTableRecord r) = 19"
| "wal_type_code (CLRUpdateTableRecord r) = 20"
| "wal_type_code (CLRDeleteTableRecord r) = 21"
| "wal_type_code (CreateIndexRecord r) = 22"
| "wal_type_code (CLRCreateIndexRecord r) = 23"
| "wal_type_code (DropIndexRecord r) = 24"
| "wal_type_code (CLRDropIndexRecord r) = 25"

fun extract_lsn :: "wal_record \<Rightarrow> lsn" where
  "extract_lsn (InsertRecord r) = h_lsn r"
| "extract_lsn (CLRInsertRecord r) = h_lsn r"
| "extract_lsn (UpdateRecord r) = h_lsn r"
| "extract_lsn (CLRUpdateRecord r) = h_lsn r"
| "extract_lsn (DeleteRecord r) = h_lsn r"
| "extract_lsn (CLRDeleteRecord r) = h_lsn r"
| "extract_lsn (CreateSchemaRecord r) = h_lsn r"
| "extract_lsn (CLRCreateSchemaRecord r) = h_lsn r"
| "extract_lsn (UpdateSchemaRecord r) = h_lsn r"
| "extract_lsn (CLRUpdateSchemaRecord r) = h_lsn r"
| "extract_lsn (DeleteSchemaRecord r) = h_lsn r"
| "extract_lsn (CLRDeleteSchemaRecord r) = h_lsn r"
| "extract_lsn (CreateTableRecord r) = h_lsn r"
| "extract_lsn (CLRCreateTableRecord r) = h_lsn r"
| "extract_lsn (UpdateTableRecord r) = h_lsn r"
| "extract_lsn (CLRUpdateTableRecord r) = h_lsn r"
| "extract_lsn (DeleteTableRecord r) = h_lsn r"
| "extract_lsn (CLRDeleteTableRecord r) = h_lsn r"
| "extract_lsn (CreateIndexRecord r) = h_lsn r"
| "extract_lsn (CLRCreateIndexRecord r) = h_lsn r"
| "extract_lsn (DropIndexRecord r) = h_lsn r"
| "extract_lsn (CLRDropIndexRecord r) = h_lsn r"
| "extract_lsn (BeginTxnRecord r) = h_lsn r"
| "extract_lsn (CommitTxnRecord r) = h_lsn r"
| "extract_lsn (RollbackTxnRecord r) = h_lsn r"

fun extract_prev_lsn :: "wal_record \<Rightarrow> lsn" where
  "extract_prev_lsn (InsertRecord r) = h_prev_lsn r"
| "extract_prev_lsn (CLRInsertRecord r) = h_prev_lsn r"
| "extract_prev_lsn (UpdateRecord r) = h_prev_lsn r"
| "extract_prev_lsn (CLRUpdateRecord r) = h_prev_lsn r"
| "extract_prev_lsn (DeleteRecord r) = h_prev_lsn r"
| "extract_prev_lsn (CLRDeleteRecord r) = h_prev_lsn r"
| "extract_prev_lsn (CreateSchemaRecord r) = h_prev_lsn r"
| "extract_prev_lsn (CLRCreateSchemaRecord r) = h_prev_lsn r"
| "extract_prev_lsn (UpdateSchemaRecord r) = h_prev_lsn r"
| "extract_prev_lsn (CLRUpdateSchemaRecord r) = h_prev_lsn r"
| "extract_prev_lsn (DeleteSchemaRecord r) = h_prev_lsn r"
| "extract_prev_lsn (CLRDeleteSchemaRecord r) = h_prev_lsn r"
| "extract_prev_lsn (CreateTableRecord r) = h_prev_lsn r"
| "extract_prev_lsn (CLRCreateTableRecord r) = h_prev_lsn r"
| "extract_prev_lsn (UpdateTableRecord r) = h_prev_lsn r"
| "extract_prev_lsn (CLRUpdateTableRecord r) = h_prev_lsn r"
| "extract_prev_lsn (DeleteTableRecord r) = h_prev_lsn r"
| "extract_prev_lsn (CLRDeleteTableRecord r) = h_prev_lsn r"
| "extract_prev_lsn (CreateIndexRecord r) = h_prev_lsn r"
| "extract_prev_lsn (CLRCreateIndexRecord r) = h_prev_lsn r"
| "extract_prev_lsn (DropIndexRecord r) = h_prev_lsn r"
| "extract_prev_lsn (CLRDropIndexRecord r) = h_prev_lsn r"
| "extract_prev_lsn (BeginTxnRecord r) = h_prev_lsn r"
| "extract_prev_lsn (CommitTxnRecord r) = h_prev_lsn r"
| "extract_prev_lsn (RollbackTxnRecord r) = h_prev_lsn r"

fun extract_txn_id :: "wal_record \<Rightarrow> uuid" where
  "extract_txn_id (InsertRecord r) = h_txn_id r"
| "extract_txn_id (CLRInsertRecord r) = h_txn_id r"
| "extract_txn_id (UpdateRecord r) = h_txn_id r"
| "extract_txn_id (CLRUpdateRecord r) = h_txn_id r"
| "extract_txn_id (DeleteRecord r) = h_txn_id r"
| "extract_txn_id (CLRDeleteRecord r) = h_txn_id r"
| "extract_txn_id (CreateSchemaRecord r) = h_txn_id r"
| "extract_txn_id (CLRCreateSchemaRecord r) = h_txn_id r"
| "extract_txn_id (UpdateSchemaRecord r) = h_txn_id r"
| "extract_txn_id (CLRUpdateSchemaRecord r) = h_txn_id r"
| "extract_txn_id (DeleteSchemaRecord r) = h_txn_id r"
| "extract_txn_id (CLRDeleteSchemaRecord r) = h_txn_id r"
| "extract_txn_id (CreateTableRecord r) = h_txn_id r"
| "extract_txn_id (CLRCreateTableRecord r) = h_txn_id r"
| "extract_txn_id (UpdateTableRecord r) = h_txn_id r"
| "extract_txn_id (CLRUpdateTableRecord r) = h_txn_id r"
| "extract_txn_id (DeleteTableRecord r) = h_txn_id r"
| "extract_txn_id (CLRDeleteTableRecord r) = h_txn_id r"
| "extract_txn_id (CreateIndexRecord r) = h_txn_id r"
| "extract_txn_id (CLRCreateIndexRecord r) = h_txn_id r"
| "extract_txn_id (DropIndexRecord r) = h_txn_id r"
| "extract_txn_id (CLRDropIndexRecord r) = h_txn_id r"
| "extract_txn_id (BeginTxnRecord r) = h_txn_id r"
| "extract_txn_id (CommitTxnRecord r) = h_txn_id r"
| "extract_txn_id (RollbackTxnRecord r) = h_txn_id r"

text \<open>Assignment to the members every alternative has: \<^verbatim>\<open>std::visit([&](auto& r) { r.lsn = ...; })\<close>.\<close>

fun set_lsn :: "lsn \<Rightarrow> wal_record \<Rightarrow> wal_record" where
  "set_lsn x (InsertRecord r) = InsertRecord (r\<lparr>h_lsn := x\<rparr>)"
| "set_lsn x (CLRInsertRecord r) = CLRInsertRecord (r\<lparr>h_lsn := x\<rparr>)"
| "set_lsn x (UpdateRecord r) = UpdateRecord (r\<lparr>h_lsn := x\<rparr>)"
| "set_lsn x (CLRUpdateRecord r) = CLRUpdateRecord (r\<lparr>h_lsn := x\<rparr>)"
| "set_lsn x (DeleteRecord r) = DeleteRecord (r\<lparr>h_lsn := x\<rparr>)"
| "set_lsn x (CLRDeleteRecord r) = CLRDeleteRecord (r\<lparr>h_lsn := x\<rparr>)"
| "set_lsn x (CreateSchemaRecord r) = CreateSchemaRecord (r\<lparr>h_lsn := x\<rparr>)"
| "set_lsn x (CLRCreateSchemaRecord r) = CLRCreateSchemaRecord (r\<lparr>h_lsn := x\<rparr>)"
| "set_lsn x (UpdateSchemaRecord r) = UpdateSchemaRecord (r\<lparr>h_lsn := x\<rparr>)"
| "set_lsn x (CLRUpdateSchemaRecord r) = CLRUpdateSchemaRecord (r\<lparr>h_lsn := x\<rparr>)"
| "set_lsn x (DeleteSchemaRecord r) = DeleteSchemaRecord (r\<lparr>h_lsn := x\<rparr>)"
| "set_lsn x (CLRDeleteSchemaRecord r) = CLRDeleteSchemaRecord (r\<lparr>h_lsn := x\<rparr>)"
| "set_lsn x (CreateTableRecord r) = CreateTableRecord (r\<lparr>h_lsn := x\<rparr>)"
| "set_lsn x (CLRCreateTableRecord r) = CLRCreateTableRecord (r\<lparr>h_lsn := x\<rparr>)"
| "set_lsn x (UpdateTableRecord r) = UpdateTableRecord (r\<lparr>h_lsn := x\<rparr>)"
| "set_lsn x (CLRUpdateTableRecord r) = CLRUpdateTableRecord (r\<lparr>h_lsn := x\<rparr>)"
| "set_lsn x (DeleteTableRecord r) = DeleteTableRecord (r\<lparr>h_lsn := x\<rparr>)"
| "set_lsn x (CLRDeleteTableRecord r) = CLRDeleteTableRecord (r\<lparr>h_lsn := x\<rparr>)"
| "set_lsn x (CreateIndexRecord r) = CreateIndexRecord (r\<lparr>h_lsn := x\<rparr>)"
| "set_lsn x (CLRCreateIndexRecord r) = CLRCreateIndexRecord (r\<lparr>h_lsn := x\<rparr>)"
| "set_lsn x (DropIndexRecord r) = DropIndexRecord (r\<lparr>h_lsn := x\<rparr>)"
| "set_lsn x (CLRDropIndexRecord r) = CLRDropIndexRecord (r\<lparr>h_lsn := x\<rparr>)"
| "set_lsn x (BeginTxnRecord r) = BeginTxnRecord (r\<lparr>h_lsn := x\<rparr>)"
| "set_lsn x (CommitTxnRecord r) = CommitTxnRecord (r\<lparr>h_lsn := x\<rparr>)"
| "set_lsn x (RollbackTxnRecord r) = RollbackTxnRecord (r\<lparr>h_lsn := x\<rparr>)"

fun set_prev_lsn :: "lsn \<Rightarrow> wal_record \<Rightarrow> wal_record" where
  "set_prev_lsn x (InsertRecord r) = InsertRecord (r\<lparr>h_prev_lsn := x\<rparr>)"
| "set_prev_lsn x (CLRInsertRecord r) = CLRInsertRecord (r\<lparr>h_prev_lsn := x\<rparr>)"
| "set_prev_lsn x (UpdateRecord r) = UpdateRecord (r\<lparr>h_prev_lsn := x\<rparr>)"
| "set_prev_lsn x (CLRUpdateRecord r) = CLRUpdateRecord (r\<lparr>h_prev_lsn := x\<rparr>)"
| "set_prev_lsn x (DeleteRecord r) = DeleteRecord (r\<lparr>h_prev_lsn := x\<rparr>)"
| "set_prev_lsn x (CLRDeleteRecord r) = CLRDeleteRecord (r\<lparr>h_prev_lsn := x\<rparr>)"
| "set_prev_lsn x (CreateSchemaRecord r) = CreateSchemaRecord (r\<lparr>h_prev_lsn := x\<rparr>)"
| "set_prev_lsn x (CLRCreateSchemaRecord r) = CLRCreateSchemaRecord (r\<lparr>h_prev_lsn := x\<rparr>)"
| "set_prev_lsn x (UpdateSchemaRecord r) = UpdateSchemaRecord (r\<lparr>h_prev_lsn := x\<rparr>)"
| "set_prev_lsn x (CLRUpdateSchemaRecord r) = CLRUpdateSchemaRecord (r\<lparr>h_prev_lsn := x\<rparr>)"
| "set_prev_lsn x (DeleteSchemaRecord r) = DeleteSchemaRecord (r\<lparr>h_prev_lsn := x\<rparr>)"
| "set_prev_lsn x (CLRDeleteSchemaRecord r) = CLRDeleteSchemaRecord (r\<lparr>h_prev_lsn := x\<rparr>)"
| "set_prev_lsn x (CreateTableRecord r) = CreateTableRecord (r\<lparr>h_prev_lsn := x\<rparr>)"
| "set_prev_lsn x (CLRCreateTableRecord r) = CLRCreateTableRecord (r\<lparr>h_prev_lsn := x\<rparr>)"
| "set_prev_lsn x (UpdateTableRecord r) = UpdateTableRecord (r\<lparr>h_prev_lsn := x\<rparr>)"
| "set_prev_lsn x (CLRUpdateTableRecord r) = CLRUpdateTableRecord (r\<lparr>h_prev_lsn := x\<rparr>)"
| "set_prev_lsn x (DeleteTableRecord r) = DeleteTableRecord (r\<lparr>h_prev_lsn := x\<rparr>)"
| "set_prev_lsn x (CLRDeleteTableRecord r) = CLRDeleteTableRecord (r\<lparr>h_prev_lsn := x\<rparr>)"
| "set_prev_lsn x (CreateIndexRecord r) = CreateIndexRecord (r\<lparr>h_prev_lsn := x\<rparr>)"
| "set_prev_lsn x (CLRCreateIndexRecord r) = CLRCreateIndexRecord (r\<lparr>h_prev_lsn := x\<rparr>)"
| "set_prev_lsn x (DropIndexRecord r) = DropIndexRecord (r\<lparr>h_prev_lsn := x\<rparr>)"
| "set_prev_lsn x (CLRDropIndexRecord r) = CLRDropIndexRecord (r\<lparr>h_prev_lsn := x\<rparr>)"
| "set_prev_lsn x (BeginTxnRecord r) = BeginTxnRecord (r\<lparr>h_prev_lsn := x\<rparr>)"
| "set_prev_lsn x (CommitTxnRecord r) = CommitTxnRecord (r\<lparr>h_prev_lsn := x\<rparr>)"
| "set_prev_lsn x (RollbackTxnRecord r) = RollbackTxnRecord (r\<lparr>h_prev_lsn := x\<rparr>)"

fun set_txn_id :: "uuid \<Rightarrow> wal_record \<Rightarrow> wal_record" where
  "set_txn_id x (InsertRecord r) = InsertRecord (r\<lparr>h_txn_id := x\<rparr>)"
| "set_txn_id x (CLRInsertRecord r) = CLRInsertRecord (r\<lparr>h_txn_id := x\<rparr>)"
| "set_txn_id x (UpdateRecord r) = UpdateRecord (r\<lparr>h_txn_id := x\<rparr>)"
| "set_txn_id x (CLRUpdateRecord r) = CLRUpdateRecord (r\<lparr>h_txn_id := x\<rparr>)"
| "set_txn_id x (DeleteRecord r) = DeleteRecord (r\<lparr>h_txn_id := x\<rparr>)"
| "set_txn_id x (CLRDeleteRecord r) = CLRDeleteRecord (r\<lparr>h_txn_id := x\<rparr>)"
| "set_txn_id x (CreateSchemaRecord r) = CreateSchemaRecord (r\<lparr>h_txn_id := x\<rparr>)"
| "set_txn_id x (CLRCreateSchemaRecord r) = CLRCreateSchemaRecord (r\<lparr>h_txn_id := x\<rparr>)"
| "set_txn_id x (UpdateSchemaRecord r) = UpdateSchemaRecord (r\<lparr>h_txn_id := x\<rparr>)"
| "set_txn_id x (CLRUpdateSchemaRecord r) = CLRUpdateSchemaRecord (r\<lparr>h_txn_id := x\<rparr>)"
| "set_txn_id x (DeleteSchemaRecord r) = DeleteSchemaRecord (r\<lparr>h_txn_id := x\<rparr>)"
| "set_txn_id x (CLRDeleteSchemaRecord r) = CLRDeleteSchemaRecord (r\<lparr>h_txn_id := x\<rparr>)"
| "set_txn_id x (CreateTableRecord r) = CreateTableRecord (r\<lparr>h_txn_id := x\<rparr>)"
| "set_txn_id x (CLRCreateTableRecord r) = CLRCreateTableRecord (r\<lparr>h_txn_id := x\<rparr>)"
| "set_txn_id x (UpdateTableRecord r) = UpdateTableRecord (r\<lparr>h_txn_id := x\<rparr>)"
| "set_txn_id x (CLRUpdateTableRecord r) = CLRUpdateTableRecord (r\<lparr>h_txn_id := x\<rparr>)"
| "set_txn_id x (DeleteTableRecord r) = DeleteTableRecord (r\<lparr>h_txn_id := x\<rparr>)"
| "set_txn_id x (CLRDeleteTableRecord r) = CLRDeleteTableRecord (r\<lparr>h_txn_id := x\<rparr>)"
| "set_txn_id x (CreateIndexRecord r) = CreateIndexRecord (r\<lparr>h_txn_id := x\<rparr>)"
| "set_txn_id x (CLRCreateIndexRecord r) = CLRCreateIndexRecord (r\<lparr>h_txn_id := x\<rparr>)"
| "set_txn_id x (DropIndexRecord r) = DropIndexRecord (r\<lparr>h_txn_id := x\<rparr>)"
| "set_txn_id x (CLRDropIndexRecord r) = CLRDropIndexRecord (r\<lparr>h_txn_id := x\<rparr>)"
| "set_txn_id x (BeginTxnRecord r) = BeginTxnRecord (r\<lparr>h_txn_id := x\<rparr>)"
| "set_txn_id x (CommitTxnRecord r) = CommitTxnRecord (r\<lparr>h_txn_id := x\<rparr>)"
| "set_txn_id x (RollbackTxnRecord r) = RollbackTxnRecord (r\<lparr>h_txn_id := x\<rparr>)"

fun has_page_id :: "wal_record \<Rightarrow> bool" where
  "has_page_id (InsertRecord r) = True"
| "has_page_id (UpdateRecord r) = True"
| "has_page_id (DeleteRecord r) = True"
| "has_page_id (CLRInsertRecord r) = True"
| "has_page_id (CLRUpdateRecord r) = True"
| "has_page_id (CLRDeleteRecord r) = True"
| "has_page_id _ = False"

fun extract_page_id :: "wal_record \<Rightarrow> uuid outcome" where
  "extract_page_id (InsertRecord r) = Done (ins_page_id r)"
| "extract_page_id (UpdateRecord r) = Done (upd_page_id r)"
| "extract_page_id (DeleteRecord r) = Done (del_page_id r)"
| "extract_page_id _ = Raised (RuntimeError ''extract_page_id: record does not have page id'')"

lemma extract_set [simp]:
  "extract_lsn (set_lsn x r) = x" "extract_prev_lsn (set_lsn x r) = extract_prev_lsn r"
  "extract_txn_id (set_lsn x r) = extract_txn_id r"
  "extract_lsn (set_prev_lsn x r) = extract_lsn r" "extract_prev_lsn (set_prev_lsn x r) = x"
  "extract_txn_id (set_prev_lsn x r) = extract_txn_id r"
  "extract_lsn (set_txn_id u r) = extract_lsn r" "extract_prev_lsn (set_txn_id u r) = extract_prev_lsn r"
  "extract_txn_id (set_txn_id u r) = u"
  by (cases r; simp)+

lemma wal_type_code_set [simp]:
  "wal_type_code (set_lsn x r) = wal_type_code r" "wal_type_code (set_prev_lsn x r) = wal_type_code r"
  "wal_type_code (set_txn_id u r) = wal_type_code r"
  by (cases r; simp)+

end
