(* ===== verification/Wal_Serializer.thy ===== *)
theory Wal_Serializer
  imports Wal_Record Storage_Serializer
begin

text \<open>
  \<^verbatim>\<open>src/deltabase/src/wal/std_wal_serializer.cpp\<close>: one serialiser per log record and one decoder
  per case of the \<^verbatim>\<open>switch\<close> in \<^verbatim>\<open>deserialize\<close>. The decoder reads its header fields with
  \<^verbatim>\<open>if (!stream.read(...)) return false;\<close>, which accepts a partial read: the missing bytes are
  those of the variable read into, a zero \<^verbatim>\<open>UUID\<close> or an uninitialised integer, whose value is the
  argument \<open>junk\<close> (one value per variable).
\<close>

section \<open>Serialisers\<close>

text \<open>The first four writes of every record.\<close>

definition write_hdr :: "u64 \<Rightarrow> 'a wal_hdr_scheme \<Rightarrow> mem_stream \<Rightarrow> mem_stream" where
  "write_hdr type record st =
     (let st = ms_write (le_bytes 8 type) st;
          st = ms_write (le_bytes 8 (h_lsn record)) st;
          st = ms_write (le_bytes 8 (h_prev_lsn record)) st
      in ms_write (le_bytes 16 (h_txn_id record)) st)"

definition serialize_insert :: "insert_record \<Rightarrow> mem_stream" where
  "serialize_insert record =
     (let st = write_hdr 1 record ms_new;
          st = ms_write (le_bytes 16 (ins_table_id record)) st;
          st = ms_write (le_bytes 16 (ins_page_id record)) st;
          serialized_after = serialize_dr (ins_after record);
          st = ms_append serialized_after (ms_size serialized_after) st
      in st)"

definition serialize_update :: "update_record \<Rightarrow> mem_stream" where
  "serialize_update record =
     (let st = write_hdr 2 record ms_new;
          st = ms_write (le_bytes 16 (upd_table_id record)) st;
          st = ms_write (le_bytes 16 (upd_page_id record)) st;
          serialized_before = serialize_dr (upd_before record);
          st = ms_append serialized_before (ms_size serialized_before) st;
          serialized_after = serialize_dr (upd_after record);
          st = ms_append serialized_after (ms_size serialized_after) st
      in st)"

definition serialize_delete :: "delete_record \<Rightarrow> mem_stream" where
  "serialize_delete record =
     (let st = write_hdr 3 record ms_new;
          st = ms_write (le_bytes 16 (del_table_id record)) st;
          st = ms_write (le_bytes 16 (del_page_id record)) st;
          serialized_before = serialize_dr (del_before record);
          st = ms_append serialized_before (ms_size serialized_before) st
      in st)"

definition serialize_create_table :: "create_table_record \<Rightarrow> mem_stream" where
  "serialize_create_table record =
     (let st = write_hdr 4 record ms_new;
          serialized_after = serialize_mt (crt_after record);
          st = ms_append serialized_after (ms_size serialized_after) st
      in st)"

definition serialize_update_table :: "update_table_record \<Rightarrow> mem_stream" where
  "serialize_update_table record =
     (let st = write_hdr 5 record ms_new;
          serialized_before = serialize_mt (upt_before record);
          st = ms_append serialized_before (ms_size serialized_before) st;
          serialized_after = serialize_mt (upt_after record);
          st = ms_append serialized_after (ms_size serialized_after) st
      in st)"

definition serialize_delete_table :: "delete_table_record \<Rightarrow> mem_stream" where
  "serialize_delete_table record =
     (let st = write_hdr 6 record ms_new;
          serialized_before = serialize_mt (dlt_before record);
          st = ms_append serialized_before (ms_size serialized_before) st
      in st)"

definition serialize_create_schema :: "create_schema_record \<Rightarrow> mem_stream" where
  "serialize_create_schema record =
     (let st = write_hdr 7 record ms_new;
          serialized_schema = serialize_ms (crs_schema record);
          st = ms_append serialized_schema (ms_size serialized_schema) st
      in st)"

definition serialize_update_schema :: "update_schema_record \<Rightarrow> mem_stream" where
  "serialize_update_schema record =
     (let st = write_hdr 8 record ms_new;
          serialized_before = serialize_ms (ups_before record);
          st = ms_append serialized_before (ms_size serialized_before) st;
          serialized_after = serialize_ms (ups_after record);
          st = ms_append serialized_after (ms_size serialized_after) st
      in st)"

definition serialize_delete_schema :: "delete_schema_record \<Rightarrow> mem_stream" where
  "serialize_delete_schema record =
     (let st = write_hdr 9 record ms_new;
          serialized_before = serialize_ms (dls_before record);
          st = ms_append serialized_before (ms_size serialized_before) st
      in st)"

definition serialize_begin_txn :: "begin_txn_record \<Rightarrow> mem_stream" where
  "serialize_begin_txn record = write_hdr 10 record ms_new"

definition serialize_commit_txn :: "commit_txn_record \<Rightarrow> mem_stream" where
  "serialize_commit_txn record = write_hdr 11 record ms_new"

definition serialize_rollback_txn :: "rollback_txn_record \<Rightarrow> mem_stream" where
  "serialize_rollback_txn record = write_hdr 12 record ms_new"

definition serialize_clr_insert :: "clr_insert_record \<Rightarrow> mem_stream" where
  "serialize_clr_insert record =
     (let st = write_hdr 13 record ms_new;
          st = ms_write (le_bytes 16 (clr_ins_table_id record)) st;
          st = ms_write (le_bytes 16 (clr_ins_page_id record)) st;
          st = ms_write (le_bytes 8 (clr_ins_undo_next_lsn record)) st;
          serialized_after = serialize_dr (clr_ins_after record);
          st = ms_append serialized_after (ms_size serialized_after) st
      in st)"

definition serialize_clr_update :: "clr_update_record \<Rightarrow> mem_stream" where
  "serialize_clr_update record =
     (let st = write_hdr 14 record ms_new;
          st = ms_write (le_bytes 16 (clr_upd_table_id record)) st;
          st = ms_write (le_bytes 16 (clr_upd_page_id record)) st;
          st = ms_write (le_bytes 8 (clr_upd_undo_next_lsn record)) st;
          serialized_before = serialize_dr (clr_upd_before record);
          st = ms_append serialized_before (ms_size serialized_before) st;
          serialized_after = serialize_dr (clr_upd_after record);
          st = ms_append serialized_after (ms_size serialized_after) st
      in st)"

definition serialize_clr_delete :: "clr_delete_record \<Rightarrow> mem_stream" where
  "serialize_clr_delete record =
     (let st = write_hdr 15 record ms_new;
          st = ms_write (le_bytes 16 (clr_del_table_id record)) st;
          st = ms_write (le_bytes 16 (clr_del_page_id record)) st;
          st = ms_write (le_bytes 8 (clr_del_undo_next_lsn record)) st;
          serialized_before = serialize_dr (clr_del_before record);
          st = ms_append serialized_before (ms_size serialized_before) st
      in st)"

definition serialize_clr_create_schema :: "clr_create_schema_record \<Rightarrow> mem_stream" where
  "serialize_clr_create_schema record =
     (let st = write_hdr 16 record ms_new;
          st = ms_write (le_bytes 8 (clr_crs_undo_next_lsn record)) st;
          serialized_schema = serialize_ms (clr_crs_schema record);
          st = ms_append serialized_schema (ms_size serialized_schema) st
      in st)"

definition serialize_clr_update_schema :: "clr_update_schema_record \<Rightarrow> mem_stream" where
  "serialize_clr_update_schema record =
     (let st = write_hdr 17 record ms_new;
          st = ms_write (le_bytes 8 (clr_ups_undo_next_lsn record)) st;
          serialized_before = serialize_ms (clr_ups_before record);
          st = ms_append serialized_before (ms_size serialized_before) st;
          serialized_after = serialize_ms (clr_ups_after record);
          st = ms_append serialized_after (ms_size serialized_after) st
      in st)"

definition serialize_clr_delete_schema :: "clr_delete_schema_record \<Rightarrow> mem_stream" where
  "serialize_clr_delete_schema record =
     (let st = write_hdr 18 record ms_new;
          st = ms_write (le_bytes 8 (clr_dls_undo_next_lsn record)) st;
          serialized_before = serialize_ms (clr_dls_before record);
          st = ms_append serialized_before (ms_size serialized_before) st
      in st)"

definition serialize_clr_create_table :: "clr_create_table_record \<Rightarrow> mem_stream" where
  "serialize_clr_create_table record =
     (let st = write_hdr 19 record ms_new;
          st = ms_write (le_bytes 8 (clr_crt_undo_next_lsn record)) st;
          serialized_after = serialize_mt (clr_crt_after record);
          st = ms_append serialized_after (ms_size serialized_after) st
      in st)"

definition serialize_clr_update_table :: "clr_update_table_record \<Rightarrow> mem_stream" where
  "serialize_clr_update_table record =
     (let st = write_hdr 20 record ms_new;
          st = ms_write (le_bytes 8 (clr_upt_undo_next_lsn record)) st;
          serialized_before = serialize_mt (clr_upt_before record);
          st = ms_append serialized_before (ms_size serialized_before) st;
          serialized_after = serialize_mt (clr_upt_after record);
          st = ms_append serialized_after (ms_size serialized_after) st
      in st)"

definition serialize_clr_delete_table :: "clr_delete_table_record \<Rightarrow> mem_stream" where
  "serialize_clr_delete_table record =
     (let st = write_hdr 21 record ms_new;
          st = ms_write (le_bytes 8 (clr_dlt_undo_next_lsn record)) st;
          serialized_before = serialize_mt (clr_dlt_before record);
          st = ms_append serialized_before (ms_size serialized_before) st
      in st)"

definition serialize_create_index :: "create_index_record \<Rightarrow> mem_stream" where
  "serialize_create_index record =
     (let st = write_hdr 22 record ms_new;
          serialized_after = serialize_mi (cri_after record);
          st = ms_append serialized_after (ms_size serialized_after) st
      in st)"

definition serialize_clr_create_index :: "clr_create_index_record \<Rightarrow> mem_stream" where
  "serialize_clr_create_index record =
     (let st = write_hdr 23 record ms_new;
          st = ms_write (le_bytes 8 (clr_cri_undo_next_lsn record)) st;
          serialized_after = serialize_mi (clr_cri_after record);
          st = ms_append serialized_after (ms_size serialized_after) st
      in st)"

definition serialize_drop_index :: "drop_index_record \<Rightarrow> mem_stream" where
  "serialize_drop_index record =
     (let st = write_hdr 24 record ms_new;
          serialized_before = serialize_mi (dri_before record);
          st = ms_append serialized_before (ms_size serialized_before) st
      in st)"

definition serialize_clr_drop_index :: "clr_drop_index_record \<Rightarrow> mem_stream" where
  "serialize_clr_drop_index record =
     (let st = write_hdr 25 record ms_new;
          st = ms_write (le_bytes 8 (clr_dri_undo_next_lsn record)) st;
          serialized_before = serialize_mi (clr_dri_before record);
          st = ms_append serialized_before (ms_size serialized_before) st
      in st)"

text \<open>\<^verbatim>\<open>serialize(const WALRecord&)\<close> dispatches on the alternative.\<close>

fun wal_serialize :: "wal_record \<Rightarrow> mem_stream" where
  "wal_serialize (InsertRecord r) = serialize_insert r"
| "wal_serialize (UpdateRecord r) = serialize_update r"
| "wal_serialize (DeleteRecord r) = serialize_delete r"
| "wal_serialize (CreateTableRecord r) = serialize_create_table r"
| "wal_serialize (UpdateTableRecord r) = serialize_update_table r"
| "wal_serialize (DeleteTableRecord r) = serialize_delete_table r"
| "wal_serialize (CreateSchemaRecord r) = serialize_create_schema r"
| "wal_serialize (UpdateSchemaRecord r) = serialize_update_schema r"
| "wal_serialize (DeleteSchemaRecord r) = serialize_delete_schema r"
| "wal_serialize (BeginTxnRecord r) = serialize_begin_txn r"
| "wal_serialize (CommitTxnRecord r) = serialize_commit_txn r"
| "wal_serialize (RollbackTxnRecord r) = serialize_rollback_txn r"
| "wal_serialize (CLRInsertRecord r) = serialize_clr_insert r"
| "wal_serialize (CLRUpdateRecord r) = serialize_clr_update r"
| "wal_serialize (CLRDeleteRecord r) = serialize_clr_delete r"
| "wal_serialize (CLRCreateSchemaRecord r) = serialize_clr_create_schema r"
| "wal_serialize (CLRUpdateSchemaRecord r) = serialize_clr_update_schema r"
| "wal_serialize (CLRDeleteSchemaRecord r) = serialize_clr_delete_schema r"
| "wal_serialize (CLRCreateTableRecord r) = serialize_clr_create_table r"
| "wal_serialize (CLRUpdateTableRecord r) = serialize_clr_update_table r"
| "wal_serialize (CLRDeleteTableRecord r) = serialize_clr_delete_table r"
| "wal_serialize (CreateIndexRecord r) = serialize_create_index r"
| "wal_serialize (CLRCreateIndexRecord r) = serialize_clr_create_index r"
| "wal_serialize (DropIndexRecord r) = serialize_drop_index r"
| "wal_serialize (CLRDropIndexRecord r) = serialize_clr_drop_index r"

section \<open>Decoders\<close>

definition rd_some_word :: "nat \<Rightarrow> 'a::len word \<Rightarrow> 'a word reader" where
  "rd_some_word n old = rbind (rd_some n (le_bytes n old)) (\<lambda>bs. rreturn (le_word bs))"

text \<open>The reads of \<^verbatim>\<open>lsn\<close>, \<^verbatim>\<open>prev_lsn\<close> and \<^verbatim>\<open>txn_id\<close> with which every case starts.\<close>

definition read_hdr :: "(nat \<Rightarrow> u64) \<Rightarrow> wal_hdr reader" where
  "read_hdr junk =
     rbind (rd_some_word 8 (junk 1)) (\<lambda>lsn.
     rbind (rd_some_word 8 (junk 2)) (\<lambda>prev_lsn.
     rbind (rd_some_word 16 0) (\<lambda>txn_id.
     rreturn \<lparr>h_lsn = lsn, h_prev_lsn = prev_lsn, h_txn_id = txn_id\<rparr>)))"

definition empty_schema :: meta_schema where
  "empty_schema = \<lparr>sc_id = 0, sc_name = [], sc_db_name = []\<rparr>"

definition empty_table :: meta_table where
  "empty_table = \<lparr>mt_id = 0, mt_schema_id = 0, mt_name = [], mt_columns = [], mt_indexes = [],
     mt_last_rid = 0, mt_total_rows = 0, mt_live_rows = 0\<rparr>"

definition deserialize_insert :: "(nat \<Rightarrow> u64) \<Rightarrow> wal_record reader" where
  "deserialize_insert junk =
     rbind (read_hdr junk) (\<lambda>h.
     rbind (rd_some_word 16 0) (\<lambda>table_id.
     rbind (rd_some_word 16 0) (\<lambda>page_id.
     rbind deserialize_dr (\<lambda>after.
     rreturn (InsertRecord \<lparr>h_lsn = h_lsn h, h_prev_lsn = h_prev_lsn h, h_txn_id = h_txn_id h,
       ins_table_id = table_id, ins_page_id = page_id, ins_after = after\<rparr>)))))"

definition deserialize_update :: "(nat \<Rightarrow> u64) \<Rightarrow> wal_record reader" where
  "deserialize_update junk =
     rbind (read_hdr junk) (\<lambda>h.
     rbind (rd_some_word 16 0) (\<lambda>table_id.
     rbind (rd_some_word 16 0) (\<lambda>page_id.
     rbind deserialize_dr (\<lambda>before.
     rbind deserialize_dr (\<lambda>after.
     rreturn (UpdateRecord \<lparr>h_lsn = h_lsn h, h_prev_lsn = h_prev_lsn h, h_txn_id = h_txn_id h,
       upd_table_id = table_id, upd_page_id = page_id, upd_before = before, upd_after = after\<rparr>))))))"

definition deserialize_delete :: "(nat \<Rightarrow> u64) \<Rightarrow> wal_record reader" where
  "deserialize_delete junk =
     rbind (read_hdr junk) (\<lambda>h.
     rbind (rd_some_word 16 0) (\<lambda>table_id.
     rbind (rd_some_word 16 0) (\<lambda>page_id.
     rbind deserialize_dr (\<lambda>before.
     rreturn (DeleteRecord \<lparr>h_lsn = h_lsn h, h_prev_lsn = h_prev_lsn h, h_txn_id = h_txn_id h,
       del_table_id = table_id, del_page_id = page_id, del_before = before\<rparr>)))))"

definition deserialize_create_table :: "(nat \<Rightarrow> u64) \<Rightarrow> wal_record reader" where
  "deserialize_create_table junk =
     rbind (read_hdr junk) (\<lambda>h.
     rbind (deserialize_mt empty_table) (\<lambda>after.
     rreturn (CreateTableRecord \<lparr>h_lsn = h_lsn h, h_prev_lsn = h_prev_lsn h, h_txn_id = h_txn_id h,
       crt_after = after\<rparr>)))"

definition deserialize_update_table :: "(nat \<Rightarrow> u64) \<Rightarrow> wal_record reader" where
  "deserialize_update_table junk =
     rbind (read_hdr junk) (\<lambda>h.
     rbind (deserialize_mt empty_table) (\<lambda>before.
     rbind (deserialize_mt empty_table) (\<lambda>after.
     rreturn (UpdateTableRecord \<lparr>h_lsn = h_lsn h, h_prev_lsn = h_prev_lsn h, h_txn_id = h_txn_id h,
       upt_before = before, upt_after = after\<rparr>))))"

definition deserialize_delete_table :: "(nat \<Rightarrow> u64) \<Rightarrow> wal_record reader" where
  "deserialize_delete_table junk =
     rbind (read_hdr junk) (\<lambda>h.
     rbind (deserialize_mt empty_table) (\<lambda>before.
     rreturn (DeleteTableRecord \<lparr>h_lsn = h_lsn h, h_prev_lsn = h_prev_lsn h, h_txn_id = h_txn_id h,
       dlt_before = before\<rparr>)))"

definition deserialize_create_schema :: "(nat \<Rightarrow> u64) \<Rightarrow> wal_record reader" where
  "deserialize_create_schema junk =
     rbind (read_hdr junk) (\<lambda>h.
     rbind (deserialize_ms empty_schema) (\<lambda>schema.
     rreturn (CreateSchemaRecord \<lparr>h_lsn = h_lsn h, h_prev_lsn = h_prev_lsn h, h_txn_id = h_txn_id h,
       crs_schema = schema\<rparr>)))"

definition deserialize_update_schema :: "(nat \<Rightarrow> u64) \<Rightarrow> wal_record reader" where
  "deserialize_update_schema junk =
     rbind (read_hdr junk) (\<lambda>h.
     rbind (deserialize_ms empty_schema) (\<lambda>before.
     rbind (deserialize_ms empty_schema) (\<lambda>after.
     rreturn (UpdateSchemaRecord \<lparr>h_lsn = h_lsn h, h_prev_lsn = h_prev_lsn h, h_txn_id = h_txn_id h,
       ups_before = before, ups_after = after\<rparr>))))"

definition deserialize_delete_schema :: "(nat \<Rightarrow> u64) \<Rightarrow> wal_record reader" where
  "deserialize_delete_schema junk =
     rbind (read_hdr junk) (\<lambda>h.
     rbind (deserialize_ms empty_schema) (\<lambda>before.
     rreturn (DeleteSchemaRecord \<lparr>h_lsn = h_lsn h, h_prev_lsn = h_prev_lsn h, h_txn_id = h_txn_id h,
       dls_before = before\<rparr>)))"

definition deserialize_begin_txn :: "(nat \<Rightarrow> u64) \<Rightarrow> wal_record reader" where
  "deserialize_begin_txn junk =
     rbind (read_hdr junk) (\<lambda>h.
     rreturn (BeginTxnRecord h))"

definition deserialize_commit_txn :: "(nat \<Rightarrow> u64) \<Rightarrow> wal_record reader" where
  "deserialize_commit_txn junk =
     rbind (read_hdr junk) (\<lambda>h.
     rreturn (CommitTxnRecord h))"

definition deserialize_rollback_txn :: "(nat \<Rightarrow> u64) \<Rightarrow> wal_record reader" where
  "deserialize_rollback_txn junk =
     rbind (read_hdr junk) (\<lambda>h.
     rreturn (RollbackTxnRecord h))"

definition deserialize_clr_insert :: "(nat \<Rightarrow> u64) \<Rightarrow> wal_record reader" where
  "deserialize_clr_insert junk =
     rbind (read_hdr junk) (\<lambda>h.
     rbind (rd_some_word 16 0) (\<lambda>table_id.
     rbind (rd_some_word 16 0) (\<lambda>page_id.
     rbind (rd_some_word 8 (junk 3)) (\<lambda>undo_next_lsn.
     rbind deserialize_dr (\<lambda>after.
     rreturn (CLRInsertRecord \<lparr>h_lsn = h_lsn h, h_prev_lsn = h_prev_lsn h, h_txn_id = h_txn_id h,
       clr_ins_table_id = table_id, clr_ins_page_id = page_id, clr_ins_undo_next_lsn = undo_next_lsn, clr_ins_after = after\<rparr>))))))"

definition deserialize_clr_update :: "(nat \<Rightarrow> u64) \<Rightarrow> wal_record reader" where
  "deserialize_clr_update junk =
     rbind (read_hdr junk) (\<lambda>h.
     rbind (rd_some_word 16 0) (\<lambda>table_id.
     rbind (rd_some_word 16 0) (\<lambda>page_id.
     rbind (rd_some_word 8 (junk 3)) (\<lambda>undo_next_lsn.
     rbind deserialize_dr (\<lambda>before.
     rbind deserialize_dr (\<lambda>after.
     rreturn (CLRUpdateRecord \<lparr>h_lsn = h_lsn h, h_prev_lsn = h_prev_lsn h, h_txn_id = h_txn_id h,
       clr_upd_table_id = table_id, clr_upd_page_id = page_id, clr_upd_undo_next_lsn = undo_next_lsn,
       clr_upd_before = before, clr_upd_after = after\<rparr>)))))))"

definition deserialize_clr_delete :: "(nat \<Rightarrow> u64) \<Rightarrow> wal_record reader" where
  "deserialize_clr_delete junk =
     rbind (read_hdr junk) (\<lambda>h.
     rbind (rd_some_word 16 0) (\<lambda>table_id.
     rbind (rd_some_word 16 0) (\<lambda>page_id.
     rbind (rd_some_word 8 (junk 3)) (\<lambda>undo_next_lsn.
     rbind deserialize_dr (\<lambda>before.
     rreturn (CLRDeleteRecord \<lparr>h_lsn = h_lsn h, h_prev_lsn = h_prev_lsn h, h_txn_id = h_txn_id h,
       clr_del_table_id = table_id, clr_del_page_id = page_id, clr_del_undo_next_lsn = undo_next_lsn, clr_del_before = before\<rparr>))))))"

definition deserialize_clr_create_schema :: "(nat \<Rightarrow> u64) \<Rightarrow> wal_record reader" where
  "deserialize_clr_create_schema junk =
     rbind (read_hdr junk) (\<lambda>h.
     rbind (rd_some_word 8 (junk 3)) (\<lambda>undo_next_lsn.
     rbind (deserialize_ms empty_schema) (\<lambda>schema.
     rreturn (CLRCreateSchemaRecord \<lparr>h_lsn = h_lsn h, h_prev_lsn = h_prev_lsn h, h_txn_id = h_txn_id h,
       clr_crs_undo_next_lsn = undo_next_lsn, clr_crs_schema = schema\<rparr>))))"

definition deserialize_clr_update_schema :: "(nat \<Rightarrow> u64) \<Rightarrow> wal_record reader" where
  "deserialize_clr_update_schema junk =
     rbind (read_hdr junk) (\<lambda>h.
     rbind (rd_some_word 8 (junk 3)) (\<lambda>undo_next_lsn.
     rbind (deserialize_ms empty_schema) (\<lambda>before.
     rbind (deserialize_ms empty_schema) (\<lambda>after.
     rreturn (CLRUpdateSchemaRecord \<lparr>h_lsn = h_lsn h, h_prev_lsn = h_prev_lsn h, h_txn_id = h_txn_id h,
       clr_ups_undo_next_lsn = undo_next_lsn, clr_ups_before = before, clr_ups_after = after\<rparr>)))))"

definition deserialize_clr_delete_schema :: "(nat \<Rightarrow> u64) \<Rightarrow> wal_record reader" where
  "deserialize_clr_delete_schema junk =
     rbind (read_hdr junk) (\<lambda>h.
     rbind (rd_some_word 8 (junk 3)) (\<lambda>undo_next_lsn.
     rbind (deserialize_ms empty_schema) (\<lambda>before.
     rreturn (CLRDeleteSchemaRecord \<lparr>h_lsn = h_lsn h, h_prev_lsn = h_prev_lsn h, h_txn_id = h_txn_id h,
       clr_dls_undo_next_lsn = undo_next_lsn, clr_dls_before = before\<rparr>))))"

definition deserialize_clr_create_table :: "(nat \<Rightarrow> u64) \<Rightarrow> wal_record reader" where
  "deserialize_clr_create_table junk =
     rbind (read_hdr junk) (\<lambda>h.
     rbind (rd_some_word 8 (junk 3)) (\<lambda>undo_next_lsn.
     rbind (deserialize_mt empty_table) (\<lambda>after.
     rreturn (CLRCreateTableRecord \<lparr>h_lsn = h_lsn h, h_prev_lsn = h_prev_lsn h, h_txn_id = h_txn_id h,
       clr_crt_undo_next_lsn = undo_next_lsn, clr_crt_after = after\<rparr>))))"

definition deserialize_clr_update_table :: "(nat \<Rightarrow> u64) \<Rightarrow> wal_record reader" where
  "deserialize_clr_update_table junk =
     rbind (read_hdr junk) (\<lambda>h.
     rbind (rd_some_word 8 (junk 3)) (\<lambda>undo_next_lsn.
     rbind (deserialize_mt empty_table) (\<lambda>before.
     rbind (deserialize_mt empty_table) (\<lambda>after.
     rreturn (CLRUpdateTableRecord \<lparr>h_lsn = h_lsn h, h_prev_lsn = h_prev_lsn h, h_txn_id = h_txn_id h,
       clr_upt_undo_next_lsn = undo_next_lsn, clr_upt_before = before, clr_upt_after = after\<rparr>)))))"

definition deserialize_clr_delete_table :: "(nat \<Rightarrow> u64) \<Rightarrow> wal_record reader" where
  "deserialize_clr_delete_table junk =
     rbind (read_hdr junk) (\<lambda>h.
     rbind (rd_some_word 8 (junk 3)) (\<lambda>undo_next_lsn.
     rbind (deserialize_mt empty_table) (\<lambda>before.
     rreturn (CLRDeleteTableRecord \<lparr>h_lsn = h_lsn h, h_prev_lsn = h_prev_lsn h, h_txn_id = h_txn_id h,
       clr_dlt_undo_next_lsn = undo_next_lsn, clr_dlt_before = before\<rparr>))))"

definition deserialize_create_index :: "(nat \<Rightarrow> u64) \<Rightarrow> wal_record reader" where
  "deserialize_create_index junk =
     rbind (read_hdr junk) (\<lambda>h.
     rbind deserialize_mi (\<lambda>after.
     rreturn (CreateIndexRecord \<lparr>h_lsn = h_lsn h, h_prev_lsn = h_prev_lsn h, h_txn_id = h_txn_id h,
       cri_after = after\<rparr>)))"

definition deserialize_clr_create_index :: "(nat \<Rightarrow> u64) \<Rightarrow> wal_record reader" where
  "deserialize_clr_create_index junk =
     rbind (read_hdr junk) (\<lambda>h.
     rbind (rd_some_word 8 (junk 3)) (\<lambda>undo_next_lsn.
     rbind deserialize_mi (\<lambda>after.
     rreturn (CLRCreateIndexRecord \<lparr>h_lsn = h_lsn h, h_prev_lsn = h_prev_lsn h, h_txn_id = h_txn_id h,
       clr_cri_undo_next_lsn = undo_next_lsn, clr_cri_after = after\<rparr>))))"

definition deserialize_drop_index :: "(nat \<Rightarrow> u64) \<Rightarrow> wal_record reader" where
  "deserialize_drop_index junk =
     rbind (read_hdr junk) (\<lambda>h.
     rbind deserialize_mi (\<lambda>before.
     rreturn (DropIndexRecord \<lparr>h_lsn = h_lsn h, h_prev_lsn = h_prev_lsn h, h_txn_id = h_txn_id h,
       dri_before = before\<rparr>)))"

definition deserialize_clr_drop_index :: "(nat \<Rightarrow> u64) \<Rightarrow> wal_record reader" where
  "deserialize_clr_drop_index junk =
     rbind (read_hdr junk) (\<lambda>h.
     rbind (rd_some_word 8 (junk 3)) (\<lambda>undo_next_lsn.
     rbind deserialize_mi (\<lambda>before.
     rreturn (CLRDropIndexRecord \<lparr>h_lsn = h_lsn h, h_prev_lsn = h_prev_lsn h, h_txn_id = h_txn_id h,
       clr_dri_undo_next_lsn = undo_next_lsn, clr_dri_before = before\<rparr>))))"

text \<open>The \<^verbatim>\<open>switch\<close> on the record type.\<close>

definition wal_case :: "(nat \<Rightarrow> u64) \<Rightarrow> u64 \<Rightarrow> wal_record reader" where
  "wal_case junk type =
     (if type = 10 then deserialize_begin_txn junk
      else if type = 11 then deserialize_commit_txn junk
      else if type = 12 then deserialize_rollback_txn junk
      else if type = 1 then deserialize_insert junk
      else if type = 2 then deserialize_update junk
      else if type = 3 then deserialize_delete junk
      else if type = 7 then deserialize_create_schema junk
      else if type = 8 then deserialize_update_schema junk
      else if type = 9 then deserialize_delete_schema junk
      else if type = 4 then deserialize_create_table junk
      else if type = 5 then deserialize_update_table junk
      else if type = 6 then deserialize_delete_table junk
      else if type = 22 then deserialize_create_index junk
      else if type = 13 then deserialize_clr_insert junk
      else if type = 14 then deserialize_clr_update junk
      else if type = 15 then deserialize_clr_delete junk
      else if type = 16 then deserialize_clr_create_schema junk
      else if type = 17 then deserialize_clr_update_schema junk
      else if type = 18 then deserialize_clr_delete_schema junk
      else if type = 19 then deserialize_clr_create_table junk
      else if type = 20 then deserialize_clr_update_table junk
      else if type = 21 then deserialize_clr_delete_table junk
      else if type = 23 then deserialize_clr_create_index junk
      else if type = 24 then deserialize_drop_index junk
      else if type = 25 then deserialize_clr_drop_index junk
      else rfail)"

definition wal_deserialize :: "(nat \<Rightarrow> u64) \<Rightarrow> wal_record reader" where
  "wal_deserialize junk = rbind (rd_some_word 8 (junk 0)) (\<lambda>type. wal_case junk type)"

section \<open>Representable records\<close>

fun ok_wal :: "wal_record \<Rightarrow> bool" where
  "ok_wal (InsertRecord r) = (ok_dr (ins_after r))"
| "ok_wal (UpdateRecord r) = (ok_dr (upd_before r) \<and> ok_dr (upd_after r))"
| "ok_wal (DeleteRecord r) = (ok_dr (del_before r))"
| "ok_wal (CreateTableRecord r) = (ok_mt (crt_after r))"
| "ok_wal (UpdateTableRecord r) = (ok_mt (upt_before r) \<and> ok_mt (upt_after r))"
| "ok_wal (DeleteTableRecord r) = (ok_mt (dlt_before r))"
| "ok_wal (CreateSchemaRecord r) = (ok_ms (crs_schema r))"
| "ok_wal (UpdateSchemaRecord r) = (ok_ms (ups_before r) \<and> ok_ms (ups_after r))"
| "ok_wal (DeleteSchemaRecord r) = (ok_ms (dls_before r))"
| "ok_wal (BeginTxnRecord r) = True"
| "ok_wal (CommitTxnRecord r) = True"
| "ok_wal (RollbackTxnRecord r) = True"
| "ok_wal (CLRInsertRecord r) = (ok_dr (clr_ins_after r))"
| "ok_wal (CLRUpdateRecord r) = (ok_dr (clr_upd_before r) \<and> ok_dr (clr_upd_after r))"
| "ok_wal (CLRDeleteRecord r) = (ok_dr (clr_del_before r))"
| "ok_wal (CLRCreateSchemaRecord r) = (ok_ms (clr_crs_schema r))"
| "ok_wal (CLRUpdateSchemaRecord r) = (ok_ms (clr_ups_before r) \<and> ok_ms (clr_ups_after r))"
| "ok_wal (CLRDeleteSchemaRecord r) = (ok_ms (clr_dls_before r))"
| "ok_wal (CLRCreateTableRecord r) = (ok_mt (clr_crt_after r))"
| "ok_wal (CLRUpdateTableRecord r) = (ok_mt (clr_upt_before r) \<and> ok_mt (clr_upt_after r))"
| "ok_wal (CLRDeleteTableRecord r) = (ok_mt (clr_dlt_before r))"
| "ok_wal (CreateIndexRecord r) = (ok_mi (cri_after r))"
| "ok_wal (CLRCreateIndexRecord r) = (ok_mi (clr_cri_after r))"
| "ok_wal (DropIndexRecord r) = (ok_mi (dri_before r))"
| "ok_wal (CLRDropIndexRecord r) = (ok_mi (clr_dri_before r))"

section \<open>Round trip\<close>

definition hdr_bytes :: "'a wal_hdr_scheme \<Rightarrow> byte list" where
  "hdr_bytes r = le_bytes 8 (h_lsn r) @ le_bytes 8 (h_prev_lsn r) @ le_bytes 16 (h_txn_id r)"

lemma at_end_write_hdr [stream_simps]:
  "at_end st \<Longrightarrow> at_end (write_hdr c r st)"
  "at_end st \<Longrightarrow> ms_buffer (write_hdr c r st) = ms_buffer st @ le_bytes 8 c @ hdr_bytes r"
  by (simp_all add: write_hdr_def hdr_bytes_def stream_simps Let_def)

lemma length_hdr_bytes [simp]: "length (hdr_bytes r) = 32"
  by (simp add: hdr_bytes_def)

lemma consumes_some_word:
  "LENGTH('a::len) = 8 * n \<Longrightarrow> 0 < n \<Longrightarrow> consumes (rd_some_word n old) (le_bytes n (w :: 'a word)) w"
  unfolding rd_some_word_def by (rule consumes_last, rule consumes_some) (auto simp flip: length_0_conv)

lemmas consumes_some_u64 = consumes_some_word [where 'a = 64 and n = 8, simplified]
lemmas consumes_some_uuid = consumes_some_word [where 'a = 128 and n = 16, simplified]

lemma consumes_hdr: "consumes (read_hdr junk) (hdr_bytes r) (wal_hdr.truncate r)"
  unfolding read_hdr_def hdr_bytes_def
  by ((rule consumes_field consumes_some_u64 consumes_some_uuid | simp add: wal_hdr.truncate_def)+)

lemmas consumes_wal = consumes_hdr consumes_some_u64 consumes_some_uuid
  deserialize_dr_ok deserialize_mi_ok deserialize_ms_ok deserialize_mt_ok

lemma deserialize_insert_ok:
  "ok_wal (InsertRecord r) \<Longrightarrow>
   \<exists>bs. ms_buffer (serialize_insert r) = le_bytes 8 (1 :: u64) @ bs \<and>
     consumes (deserialize_insert junk) bs (InsertRecord r)"
  unfolding serialize_insert_def deserialize_insert_def
  by (clarsimp simp: Let_def stream_simps)
    ((rule consumes_field consumes_wal | simp add: wal_hdr.defs)+)

lemma deserialize_update_ok:
  "ok_wal (UpdateRecord r) \<Longrightarrow>
   \<exists>bs. ms_buffer (serialize_update r) = le_bytes 8 (2 :: u64) @ bs \<and>
     consumes (deserialize_update junk) bs (UpdateRecord r)"
  unfolding serialize_update_def deserialize_update_def
  by (clarsimp simp: Let_def stream_simps)
    ((rule consumes_field consumes_wal | simp add: wal_hdr.defs)+)

lemma deserialize_delete_ok:
  "ok_wal (DeleteRecord r) \<Longrightarrow>
   \<exists>bs. ms_buffer (serialize_delete r) = le_bytes 8 (3 :: u64) @ bs \<and>
     consumes (deserialize_delete junk) bs (DeleteRecord r)"
  unfolding serialize_delete_def deserialize_delete_def
  by (clarsimp simp: Let_def stream_simps)
    ((rule consumes_field consumes_wal | simp add: wal_hdr.defs)+)

lemma deserialize_create_table_ok:
  "ok_wal (CreateTableRecord r) \<Longrightarrow>
   \<exists>bs. ms_buffer (serialize_create_table r) = le_bytes 8 (4 :: u64) @ bs \<and>
     consumes (deserialize_create_table junk) bs (CreateTableRecord r)"
  unfolding serialize_create_table_def deserialize_create_table_def
  by (clarsimp simp: Let_def stream_simps)
    ((rule consumes_field consumes_wal | simp add: wal_hdr.defs)+)

lemma deserialize_update_table_ok:
  "ok_wal (UpdateTableRecord r) \<Longrightarrow>
   \<exists>bs. ms_buffer (serialize_update_table r) = le_bytes 8 (5 :: u64) @ bs \<and>
     consumes (deserialize_update_table junk) bs (UpdateTableRecord r)"
  unfolding serialize_update_table_def deserialize_update_table_def
  by (clarsimp simp: Let_def stream_simps)
    ((rule consumes_field consumes_wal | simp add: wal_hdr.defs)+)

lemma deserialize_delete_table_ok:
  "ok_wal (DeleteTableRecord r) \<Longrightarrow>
   \<exists>bs. ms_buffer (serialize_delete_table r) = le_bytes 8 (6 :: u64) @ bs \<and>
     consumes (deserialize_delete_table junk) bs (DeleteTableRecord r)"
  unfolding serialize_delete_table_def deserialize_delete_table_def
  by (clarsimp simp: Let_def stream_simps)
    ((rule consumes_field consumes_wal | simp add: wal_hdr.defs)+)

lemma deserialize_create_schema_ok:
  "ok_wal (CreateSchemaRecord r) \<Longrightarrow>
   \<exists>bs. ms_buffer (serialize_create_schema r) = le_bytes 8 (7 :: u64) @ bs \<and>
     consumes (deserialize_create_schema junk) bs (CreateSchemaRecord r)"
  unfolding serialize_create_schema_def deserialize_create_schema_def
  by (clarsimp simp: Let_def stream_simps)
    ((rule consumes_field consumes_wal | simp add: wal_hdr.defs)+)

lemma deserialize_update_schema_ok:
  "ok_wal (UpdateSchemaRecord r) \<Longrightarrow>
   \<exists>bs. ms_buffer (serialize_update_schema r) = le_bytes 8 (8 :: u64) @ bs \<and>
     consumes (deserialize_update_schema junk) bs (UpdateSchemaRecord r)"
  unfolding serialize_update_schema_def deserialize_update_schema_def
  by (clarsimp simp: Let_def stream_simps)
    ((rule consumes_field consumes_wal | simp add: wal_hdr.defs)+)

lemma deserialize_delete_schema_ok:
  "ok_wal (DeleteSchemaRecord r) \<Longrightarrow>
   \<exists>bs. ms_buffer (serialize_delete_schema r) = le_bytes 8 (9 :: u64) @ bs \<and>
     consumes (deserialize_delete_schema junk) bs (DeleteSchemaRecord r)"
  unfolding serialize_delete_schema_def deserialize_delete_schema_def
  by (clarsimp simp: Let_def stream_simps)
    ((rule consumes_field consumes_wal | simp add: wal_hdr.defs)+)

lemma deserialize_begin_txn_ok:
  "ok_wal (BeginTxnRecord r) \<Longrightarrow>
   \<exists>bs. ms_buffer (serialize_begin_txn r) = le_bytes 8 (10 :: u64) @ bs \<and>
     consumes (deserialize_begin_txn junk) bs (BeginTxnRecord r)"
  unfolding serialize_begin_txn_def deserialize_begin_txn_def
  by (clarsimp simp: Let_def stream_simps)
    ((rule consumes_field consumes_wal | simp add: wal_hdr.defs)+)

lemma deserialize_commit_txn_ok:
  "ok_wal (CommitTxnRecord r) \<Longrightarrow>
   \<exists>bs. ms_buffer (serialize_commit_txn r) = le_bytes 8 (11 :: u64) @ bs \<and>
     consumes (deserialize_commit_txn junk) bs (CommitTxnRecord r)"
  unfolding serialize_commit_txn_def deserialize_commit_txn_def
  by (clarsimp simp: Let_def stream_simps)
    ((rule consumes_field consumes_wal | simp add: wal_hdr.defs)+)

lemma deserialize_rollback_txn_ok:
  "ok_wal (RollbackTxnRecord r) \<Longrightarrow>
   \<exists>bs. ms_buffer (serialize_rollback_txn r) = le_bytes 8 (12 :: u64) @ bs \<and>
     consumes (deserialize_rollback_txn junk) bs (RollbackTxnRecord r)"
  unfolding serialize_rollback_txn_def deserialize_rollback_txn_def
  by (clarsimp simp: Let_def stream_simps)
    ((rule consumes_field consumes_wal | simp add: wal_hdr.defs)+)

lemma deserialize_clr_insert_ok:
  "ok_wal (CLRInsertRecord r) \<Longrightarrow>
   \<exists>bs. ms_buffer (serialize_clr_insert r) = le_bytes 8 (13 :: u64) @ bs \<and>
     consumes (deserialize_clr_insert junk) bs (CLRInsertRecord r)"
  unfolding serialize_clr_insert_def deserialize_clr_insert_def
  by (clarsimp simp: Let_def stream_simps)
    ((rule consumes_field consumes_wal | simp add: wal_hdr.defs)+)

lemma deserialize_clr_update_ok:
  "ok_wal (CLRUpdateRecord r) \<Longrightarrow>
   \<exists>bs. ms_buffer (serialize_clr_update r) = le_bytes 8 (14 :: u64) @ bs \<and>
     consumes (deserialize_clr_update junk) bs (CLRUpdateRecord r)"
  unfolding serialize_clr_update_def deserialize_clr_update_def
  by (clarsimp simp: Let_def stream_simps)
    ((rule consumes_field consumes_wal | simp add: wal_hdr.defs)+)

lemma deserialize_clr_delete_ok:
  "ok_wal (CLRDeleteRecord r) \<Longrightarrow>
   \<exists>bs. ms_buffer (serialize_clr_delete r) = le_bytes 8 (15 :: u64) @ bs \<and>
     consumes (deserialize_clr_delete junk) bs (CLRDeleteRecord r)"
  unfolding serialize_clr_delete_def deserialize_clr_delete_def
  by (clarsimp simp: Let_def stream_simps)
    ((rule consumes_field consumes_wal | simp add: wal_hdr.defs)+)

lemma deserialize_clr_create_schema_ok:
  "ok_wal (CLRCreateSchemaRecord r) \<Longrightarrow>
   \<exists>bs. ms_buffer (serialize_clr_create_schema r) = le_bytes 8 (16 :: u64) @ bs \<and>
     consumes (deserialize_clr_create_schema junk) bs (CLRCreateSchemaRecord r)"
  unfolding serialize_clr_create_schema_def deserialize_clr_create_schema_def
  by (clarsimp simp: Let_def stream_simps)
    ((rule consumes_field consumes_wal | simp add: wal_hdr.defs)+)

lemma deserialize_clr_update_schema_ok:
  "ok_wal (CLRUpdateSchemaRecord r) \<Longrightarrow>
   \<exists>bs. ms_buffer (serialize_clr_update_schema r) = le_bytes 8 (17 :: u64) @ bs \<and>
     consumes (deserialize_clr_update_schema junk) bs (CLRUpdateSchemaRecord r)"
  unfolding serialize_clr_update_schema_def deserialize_clr_update_schema_def
  by (clarsimp simp: Let_def stream_simps)
    ((rule consumes_field consumes_wal | simp add: wal_hdr.defs)+)

lemma deserialize_clr_delete_schema_ok:
  "ok_wal (CLRDeleteSchemaRecord r) \<Longrightarrow>
   \<exists>bs. ms_buffer (serialize_clr_delete_schema r) = le_bytes 8 (18 :: u64) @ bs \<and>
     consumes (deserialize_clr_delete_schema junk) bs (CLRDeleteSchemaRecord r)"
  unfolding serialize_clr_delete_schema_def deserialize_clr_delete_schema_def
  by (clarsimp simp: Let_def stream_simps)
    ((rule consumes_field consumes_wal | simp add: wal_hdr.defs)+)

lemma deserialize_clr_create_table_ok:
  "ok_wal (CLRCreateTableRecord r) \<Longrightarrow>
   \<exists>bs. ms_buffer (serialize_clr_create_table r) = le_bytes 8 (19 :: u64) @ bs \<and>
     consumes (deserialize_clr_create_table junk) bs (CLRCreateTableRecord r)"
  unfolding serialize_clr_create_table_def deserialize_clr_create_table_def
  by (clarsimp simp: Let_def stream_simps)
    ((rule consumes_field consumes_wal | simp add: wal_hdr.defs)+)

lemma deserialize_clr_update_table_ok:
  "ok_wal (CLRUpdateTableRecord r) \<Longrightarrow>
   \<exists>bs. ms_buffer (serialize_clr_update_table r) = le_bytes 8 (20 :: u64) @ bs \<and>
     consumes (deserialize_clr_update_table junk) bs (CLRUpdateTableRecord r)"
  unfolding serialize_clr_update_table_def deserialize_clr_update_table_def
  by (clarsimp simp: Let_def stream_simps)
    ((rule consumes_field consumes_wal | simp add: wal_hdr.defs)+)

lemma deserialize_clr_delete_table_ok:
  "ok_wal (CLRDeleteTableRecord r) \<Longrightarrow>
   \<exists>bs. ms_buffer (serialize_clr_delete_table r) = le_bytes 8 (21 :: u64) @ bs \<and>
     consumes (deserialize_clr_delete_table junk) bs (CLRDeleteTableRecord r)"
  unfolding serialize_clr_delete_table_def deserialize_clr_delete_table_def
  by (clarsimp simp: Let_def stream_simps)
    ((rule consumes_field consumes_wal | simp add: wal_hdr.defs)+)

lemma deserialize_create_index_ok:
  "ok_wal (CreateIndexRecord r) \<Longrightarrow>
   \<exists>bs. ms_buffer (serialize_create_index r) = le_bytes 8 (22 :: u64) @ bs \<and>
     consumes (deserialize_create_index junk) bs (CreateIndexRecord r)"
  unfolding serialize_create_index_def deserialize_create_index_def
  by (clarsimp simp: Let_def stream_simps)
    ((rule consumes_field consumes_wal | simp add: wal_hdr.defs)+)

lemma deserialize_clr_create_index_ok:
  "ok_wal (CLRCreateIndexRecord r) \<Longrightarrow>
   \<exists>bs. ms_buffer (serialize_clr_create_index r) = le_bytes 8 (23 :: u64) @ bs \<and>
     consumes (deserialize_clr_create_index junk) bs (CLRCreateIndexRecord r)"
  unfolding serialize_clr_create_index_def deserialize_clr_create_index_def
  by (clarsimp simp: Let_def stream_simps)
    ((rule consumes_field consumes_wal | simp add: wal_hdr.defs)+)

lemma deserialize_drop_index_ok:
  "ok_wal (DropIndexRecord r) \<Longrightarrow>
   \<exists>bs. ms_buffer (serialize_drop_index r) = le_bytes 8 (24 :: u64) @ bs \<and>
     consumes (deserialize_drop_index junk) bs (DropIndexRecord r)"
  unfolding serialize_drop_index_def deserialize_drop_index_def
  by (clarsimp simp: Let_def stream_simps)
    ((rule consumes_field consumes_wal | simp add: wal_hdr.defs)+)

lemma deserialize_clr_drop_index_ok:
  "ok_wal (CLRDropIndexRecord r) \<Longrightarrow>
   \<exists>bs. ms_buffer (serialize_clr_drop_index r) = le_bytes 8 (25 :: u64) @ bs \<and>
     consumes (deserialize_clr_drop_index junk) bs (CLRDropIndexRecord r)"
  unfolding serialize_clr_drop_index_def deserialize_clr_drop_index_def
  by (clarsimp simp: Let_def stream_simps)
    ((rule consumes_field consumes_wal | simp add: wal_hdr.defs)+)

lemma consumes_dispatch:
  assumes "\<exists>bs. B = le_bytes 8 c @ bs \<and> consumes D bs r" and "wal_case junk c = D"
  shows "consumes (wal_deserialize junk) B r"
proof -
  obtain bs where B: "B = le_bytes 8 c @ bs" and D: "consumes D bs r" using assms(1) by blast
  show ?thesis
    unfolding wal_deserialize_def B by (rule consumes_bind [OF consumes_some_u64]) (simp add: assms(2) D)
qed

lemma wal_deserialize_ok: "ok_wal r \<Longrightarrow> consumes (wal_deserialize junk) (ms_buffer (wal_serialize r)) r"
  by (cases r; simp only: wal_serialize.simps)
    (rule consumes_dispatch,
     erule deserialize_insert_ok deserialize_clr_insert_ok deserialize_update_ok deserialize_clr_update_ok
       deserialize_delete_ok deserialize_clr_delete_ok deserialize_create_schema_ok deserialize_clr_create_schema_ok
       deserialize_update_schema_ok deserialize_clr_update_schema_ok deserialize_delete_schema_ok deserialize_clr_delete_schema_ok
       deserialize_create_table_ok deserialize_clr_create_table_ok deserialize_update_table_ok deserialize_clr_update_table_ok
       deserialize_delete_table_ok deserialize_clr_delete_table_ok deserialize_create_index_ok deserialize_clr_create_index_ok
       deserialize_drop_index_ok deserialize_clr_drop_index_ok deserialize_begin_txn_ok deserialize_commit_txn_ok
       deserialize_rollback_txn_ok,
     simp add: wal_case_def)+

lemma forward_some_word [forward_intros]: "forward (rd_some_word n old)"
  unfolding rd_some_word_def by (intro forward_intros)

lemma forward_hdr [forward_intros]: "forward (read_hdr junk)"
  unfolding read_hdr_def by (intro forward_intros)

lemmas wal_case_defs = deserialize_insert_def deserialize_clr_insert_def deserialize_update_def deserialize_clr_update_def
  deserialize_delete_def deserialize_clr_delete_def deserialize_create_schema_def deserialize_clr_create_schema_def
  deserialize_update_schema_def deserialize_clr_update_schema_def deserialize_delete_schema_def deserialize_clr_delete_schema_def
  deserialize_create_table_def deserialize_clr_create_table_def deserialize_update_table_def deserialize_clr_update_table_def
  deserialize_delete_table_def deserialize_clr_delete_table_def deserialize_create_index_def deserialize_clr_create_index_def
  deserialize_drop_index_def deserialize_clr_drop_index_def deserialize_begin_txn_def deserialize_commit_txn_def
  deserialize_rollback_txn_def

lemmas wal_serialize_defs = serialize_insert_def serialize_clr_insert_def serialize_update_def serialize_clr_update_def
  serialize_delete_def serialize_clr_delete_def serialize_create_schema_def serialize_clr_create_schema_def
  serialize_update_schema_def serialize_clr_update_schema_def serialize_delete_schema_def serialize_clr_delete_schema_def
  serialize_create_table_def serialize_clr_create_table_def serialize_update_table_def serialize_clr_update_table_def
  serialize_delete_table_def serialize_clr_delete_table_def serialize_create_index_def serialize_clr_create_index_def
  serialize_drop_index_def serialize_clr_drop_index_def serialize_begin_txn_def serialize_commit_txn_def
  serialize_rollback_txn_def

lemma forward_wal_case [forward_intros]: "forward (wal_case junk type)"
  unfolding wal_case_def wal_case_defs by (intro forward_intros)

lemma forward_wal_deserialize [forward_intros]: "forward (wal_deserialize junk)"
  unfolding wal_deserialize_def by (intro forward_intros)

interpretation wal: codec "\<lambda>r. ms_buffer (wal_serialize r)" "wal_deserialize junk" ok_wal for junk
  by unfold_locales (rule wal_deserialize_ok)

lemma wal_serialize_nonempty: "ms_buffer (wal_serialize r) \<noteq> []"
  by (cases r) (simp_all add: wal_serialize_defs Let_def stream_simps hdr_bytes_def flip: length_0_conv)

section \<open>Properties\<close>

definition sample_update :: wal_record where
  "sample_update = UpdateRecord \<lparr>h_lsn = 5, h_prev_lsn = 4, h_txn_id = 77, upd_table_id = 1, upd_page_id = 5,
     upd_before = sample_row, upd_after = set_obsolete sample_row\<rparr>"

text \<open>C17: every log record, of any of the 25 kinds, is returned unchanged by \<^verbatim>\<open>deserialize\<close> from the
  bytes that \<^verbatim>\<open>serialize\<close> wrote, with anything behind them and whatever the uninitialised locals of
  \<^verbatim>\<open>deserialize\<close> hold, and exactly those bytes are consumed.\<close>

theorem wal_record_roundtrip:
  assumes "ok_wal r" and "length (ms_buffer (wal_serialize r) @ rest) \<le> max_alloc"
  shows "wal_deserialize junk (ro_new (ms_buffer (wal_serialize r) @ rest)) =
    Done (r, \<lparr>ro_buffer = ms_buffer (wal_serialize r) @ rest, ro_position = length (ms_buffer (wal_serialize r))\<rparr>)"
  using assms by (rule wal.decode)

theorem wal_record_roundtrip_witness:
  "wal_deserialize (\<lambda>_. 0xDEAD) (ro_new (ms_buffer (wal_serialize sample_update) @ [1, 2, 3])) =
   Done (sample_update, \<lparr>ro_buffer = ms_buffer (wal_serialize sample_update) @ [1, 2, 3],
     ro_position = length (ms_buffer (wal_serialize sample_update))\<rparr>)"
  using wal_record_roundtrip [of sample_update "[1, 2, 3]" "\<lambda>_. 0xDEAD"]
  by (simp add: sample_update_def serialize_update_def Let_def stream_simps length_serialize_dr
      length_serialize_dt sample_simps)

end
