(* ===== verification/Wal_Manager.thy ===== *)
theory Wal_Manager
  imports Wal_Serializer "HOL-Library.Multiset"
begin

text \<open>
  \<^verbatim>\<open>src/deltabase/src/wal/file_wal_manager.cpp\<close>: the write-ahead log. Records get consecutive LSNs
  when they are appended, wait in \<^verbatim>\<open>dirty_\<close> until a flush appends them to the log files, and are
  read back from the files by \<^verbatim>\<open>hydrate_cache\<close> at start-up.

  All public operations hold the recursive per-database mutex for their whole duration, so they
  are atomic with respect to each other and the model runs them one after another. The device
  takes \<open>dev_room\<close> more bytes before a \<^verbatim>\<open>write\<close> comes back short and refuses to open the files for
  which \<open>dev_open\<close> is false: a full disk and a crash in the middle of a write both leave the
  bytes accepted until then.
\<close>

section \<open>State\<close>

text \<open>
  A file of the log directory is named \<^verbatim>\<open><first>_<last>\<close>; as \<^verbatim>\<open>last\<close> is determined by
  \<^verbatim>\<open>first\<close> the name is represented by \<^verbatim>\<open>first\<close>.
\<close>

record device =
  dev_files :: "(u64 \<times> byte list) list"
  dev_room :: nat
  dev_open :: "u64 \<Rightarrow> bool"

record wal_state =
  wm_next_lsn :: lsn
  wm_flushed_lsn :: lsn
  wm_flush_in_progress :: bool
  wm_flushed :: "wal_record list"
  wm_dirty :: "wal_record list"
  wm_dev :: device

definition MAX_RECORDS_PER_LOGFILE :: u64 where
  "MAX_RECORDS_PER_LOGFILE = 1000"

section \<open>Writing\<close>

text \<open>\<^verbatim>\<open>open(path, O_WRONLY | O_CREAT | O_APPEND)\<close>, and an append of bytes that fit.\<close>

fun file_append :: "u64 \<Rightarrow> byte list \<Rightarrow> (u64 \<times> byte list) list \<Rightarrow> (u64 \<times> byte list) list" where
  "file_append k bs [] = [(k, bs)]"
| "file_append k bs ((k', c) # fs) = (if k' = k then (k', c @ bs) # fs else (k', c) # file_append k bs fs)"

definition dev_write :: "u64 \<Rightarrow> byte list \<Rightarrow> device \<Rightarrow> bool \<times> device" where
  "dev_write k bs d =
     (let n = min (length bs) (dev_room d)
      in (n = length bs,
          d\<lparr>dev_files := file_append k (take n bs) (dev_files d), dev_room := dev_room d - n\<rparr>))"

definition file_first_lsn :: "lsn \<Rightarrow> u64" where
  "file_first_lsn record_lsn =
     ((record_lsn - 1) div MAX_RECORDS_PER_LOGFILE) * MAX_RECORDS_PER_LOGFILE + 1"

text \<open>
  The loop of \<^verbatim>\<open>write_logs\<close>; \<open>opened\<close> is the open file, if any. The \<^verbatim>\<open>fsync\<close> of each file
  before it is closed makes its bytes durable.
\<close>

fun write_logs :: "u64 option \<Rightarrow> wal_record list \<Rightarrow> device \<Rightarrow> unit outcome \<times> device" where
  "write_logs opened [] d = (Done (), d)"
| "write_logs opened (r # rs) d =
     (let k = file_first_lsn (extract_lsn r)
      in if opened \<noteq> Some k \<and> \<not> dev_open d k
         then (Raised (RuntimeError ''Failed to open WAL log file''), d)
         else
           let d = (if opened \<noteq> Some k then d\<lparr>dev_files := file_append k [] (dev_files d)\<rparr> else d);
               serialized = wal_serialize r;
               record_size = word_of_nat (ms_size serialized) :: u64;
               (ok1, d) = dev_write k (le_bytes 8 record_size) d
           in if \<not> ok1 then (Raised (RuntimeError ''Failed to write WAL record size''), d)
              else
                let (ok2, d) = dev_write k (ms_buffer serialized) d
                in if \<not> ok2 then (Raised (RuntimeError ''Failed to write WAL record''), d)
                   else write_logs (Some k) rs d)"

section \<open>Reading a log file\<close>

definition sizeof_any :: "u64 \<Rightarrow> byte list \<Rightarrow> u64" where
  "sizeof_any old bs = le_word (overlay (le_bytes 8 old) bs)"

lemma read_progress:
  assumes "0 < ro_remaining st" and "ro_read n st = Done (bs, st1)" and "bs \<noteq> []"
    and "wal_deserialize junk st1 = Done (r, st2)"
  shows "ro_remaining st2 < ro_remaining st"
proof -
  have "ro_remaining st1 < ro_remaining st"
    using assms(1-3) by (auto simp: ro_read_def ro_remaining_def Let_def split: if_splits)
  moreover have "ro_remaining st2 \<le> ro_remaining st1"
    using forward_remaining [OF forward_wal_deserialize assms(4)] .
  ultimately show ?thesis by simp
qed

text \<open>
  The loop of \<^verbatim>\<open>read_logs_from_file\<close>. Reading \<^verbatim>\<open>record_size\<close> accepts fewer than eight bytes: the
  rest of the variable is uninitialised (\<open>old\<close>).
\<close>

function read_records :: "u64 \<Rightarrow> (nat \<Rightarrow> u64) \<Rightarrow> ro_stream \<Rightarrow> wal_record list outcome" where
  "read_records old junk st =
     (if ro_remaining st > 0 then
        (case ro_read 8 st of
           Done (bs, st1) \<Rightarrow>
             if bs = [] then Done []
             else if ro_remaining st1 < unat (sizeof_any old bs) then Done []
             else (case wal_deserialize junk st1 of
                     Done (r, st2) \<Rightarrow> obind (read_records old junk st2) (\<lambda>rs. Done (r # rs))
                   | Failed \<Rightarrow> Raised (RuntimeError
                       ''FileWalManager::read_logs_from_file: failed to deserialize a record'')
                   | Raised e \<Rightarrow> Raised e
                   | Undef \<Rightarrow> Undef)
         | Failed \<Rightarrow> Failed
         | Raised e \<Rightarrow> Raised e
         | Undef \<Rightarrow> Undef)
      else Done [])"
  by pat_completeness auto
termination
  by (relation "measure (\<lambda>(old, junk, st). ro_remaining st)") (auto intro: read_progress)

declare read_records.simps [simp del]

definition read_logs_from_file :: "u64 \<Rightarrow> (nat \<Rightarrow> u64) \<Rightarrow> byte list \<Rightarrow> wal_record list outcome" where
  "read_logs_from_file old junk content = read_records old junk (ro_new content)"

section \<open>Start-up\<close>

fun read_files :: "u64 \<Rightarrow> (nat \<Rightarrow> u64) \<Rightarrow> (u64 \<times> byte list) list \<Rightarrow> wal_record list outcome" where
  "read_files old junk [] = Done []"
| "read_files old junk ((k, content) # fs) =
     obind (read_logs_from_file old junk content) (\<lambda>file_logs.
     obind (read_files old junk fs) (\<lambda>rest. Done (file_logs @ rest)))"

definition bump_lsn :: "wal_record \<Rightarrow> lsn \<Rightarrow> lsn" where
  "bump_lsn record next_lsn =
     (if extract_lsn record \<ge> next_lsn then extract_lsn record + 1 else next_lsn)"

definition hydrate_cache :: "u64 \<Rightarrow> (nat \<Rightarrow> u64) \<Rightarrow> wal_state \<Rightarrow> wal_state outcome" where
  "hydrate_cache old junk st =
     (if dev_files (wm_dev st) = [] then Done st
      else obind (read_files old junk (sort_key fst (dev_files (wm_dev st)))) (\<lambda>logs.
        let flushed = sort_key extract_lsn (wm_flushed st @ logs)
        in Done (st\<lparr>wm_next_lsn := fold bump_lsn logs (wm_next_lsn st), wm_flushed := flushed,
             wm_flushed_lsn := (if flushed \<noteq> [] then extract_lsn (last flushed) else wm_flushed_lsn st)\<rparr>)))"

text \<open>The constructor: an empty directory gets a first, empty file.\<close>

definition wal_open :: "u64 \<Rightarrow> (nat \<Rightarrow> u64) \<Rightarrow> device \<Rightarrow> wal_state outcome" where
  "wal_open old junk d =
     (let st = \<lparr>wm_next_lsn = 1, wm_flushed_lsn = 0, wm_flush_in_progress = False, wm_flushed = [],
                wm_dirty = [], wm_dev = d\<rparr>
      in if dev_files d = [] then
           if \<not> dev_open d 1 then Raised (RuntimeError ''Failed to create first WAL log file'')
           else hydrate_cache old junk (st\<lparr>wm_dev := d\<lparr>dev_files := [(1, [])]\<rparr>\<rparr>)
         else hydrate_cache old junk st)"

section \<open>Operations\<close>

definition append_log :: "wal_record \<Rightarrow> wal_state \<Rightarrow> lsn \<times> wal_state" where
  "append_log record st =
     (let lsn = wm_next_lsn st
      in (lsn, st\<lparr>wm_next_lsn := lsn + 1, wm_dirty := wm_dirty st @ [set_lsn lsn record]\<rparr>))"

definition append_logs :: "wal_record list \<Rightarrow> wal_state \<Rightarrow> lsn \<times> wal_state" where
  "append_logs records st =
     fold (\<lambda>record (last_lsn, st). append_log record st) records (0, st)"

definition read_log :: "lsn \<Rightarrow> wal_state \<Rightarrow> wal_record outcome" where
  "read_log lsn st =
     (case find (\<lambda>r. extract_lsn r = lsn) (wm_dirty st) of
        Some r \<Rightarrow> Done r
      | None \<Rightarrow>
          (case find (\<lambda>r. extract_lsn r = lsn) (wm_flushed st) of
             Some r \<Rightarrow> Done r
           | None \<Rightarrow> Raised (RuntimeError ''WAL record not found: LSN '')))"

definition flush :: "wal_state \<Rightarrow> unit outcome \<times> wal_state" where
  "flush st =
     (if wm_dirty st = [] then (Done (), st)
      else
        let to_flush = wm_dirty st;
            (res, d) = write_logs None to_flush (wm_dev st);
            st = st\<lparr>wm_dirty := [], wm_dev := d\<rparr>
        in case res of
             Done _ \<Rightarrow>
               let batch_max_lsn = extract_lsn (last to_flush)
               in (Done (), st\<lparr>wm_flushed := wm_flushed st @ to_flush,
                    wm_flushed_lsn := (if batch_max_lsn > wm_flushed_lsn st then batch_max_lsn
                                       else wm_flushed_lsn st)\<rparr>)
           | _ \<Rightarrow> (res, st))"

definition sync :: "wal_state \<Rightarrow> unit outcome \<times> wal_state" where
  "sync st = flush st"

text \<open>
  \<^verbatim>\<open>wait_for_durable\<close> may run forever: \<open>None\<close>. Waiting on the condition variable keeps the database
  mutex locked, so that no other thread can end the flush that is waited for.
\<close>

partial_function (option) wait_for_durable :: "lsn \<Rightarrow> wal_state \<Rightarrow> (unit outcome \<times> wal_state) option" where
  "wait_for_durable lsn st =
     (if wm_flushed_lsn st < lsn then
        if \<not> wm_flush_in_progress st then
          case flush (st\<lparr>wm_flush_in_progress := True\<rparr>) of
            (Done _, st') \<Rightarrow> wait_for_durable lsn (st'\<lparr>wm_flush_in_progress := False\<rparr>)
          | (res, st') \<Rightarrow> Some (res, st'\<lparr>wm_flush_in_progress := False\<rparr>)
        else None
      else Some (Done (), st))"

definition read_all_logs :: "wal_state \<Rightarrow> wal_record list" where
  "read_all_logs st = wm_flushed st @ wm_dirty st"

definition get_next_lsn :: "wal_state \<Rightarrow> lsn" where
  "get_next_lsn st = wm_next_lsn st"

section \<open>Frames\<close>

definition frame :: "wal_record \<Rightarrow> byte list" where
  "frame r = le_bytes 8 (word_of_nat (ms_size (wal_serialize r)) :: u64) @ ms_buffer (wal_serialize r)"

abbreviation frames :: "wal_record list \<Rightarrow> byte list" where
  "frames rs \<equiv> concat (map frame rs)"

definition file_content :: "(u64 \<times> byte list) list \<Rightarrow> u64 \<Rightarrow> byte list" where
  "file_content fs k = (case map_of fs k of Some c \<Rightarrow> c | None \<Rightarrow> [])"

abbreviation in_file :: "u64 \<Rightarrow> wal_record list \<Rightarrow> wal_record list" where
  "in_file k rs \<equiv> filter (\<lambda>r. file_first_lsn (extract_lsn r) = k) rs"

lemma length_frame: "length (frame r) = 8 + ms_size (wal_serialize r)"
  by (simp add: frame_def ms_size_def)

lemma ms_size_pos: "0 < ms_size (wal_serialize r)"
  using wal_serialize_nonempty [of r] by (simp add: ms_size_def)

lemma file_content_append [simp]:
  "file_content (file_append k bs fs) k' = file_content fs k' @ (if k' = k then bs else [])"
  by (induction k bs fs rule: file_append.induct) (auto simp: file_content_def)

lemma keys_file_append: "set (map fst (file_append k bs fs)) = insert k (set (map fst fs))"
  by (induction k bs fs rule: file_append.induct) auto

lemma distinct_file_append: "distinct (map fst fs) \<Longrightarrow> distinct (map fst (file_append k bs fs))"
  by (induction k bs fs rule: file_append.induct) (use keys_file_append in \<open>auto simp: image_iff\<close>)

lemma file_append_nonempty [simp]: "file_append k bs fs \<noteq> []"
  by (cases "(k, bs, fs)" rule: file_append.cases) auto

lemma dev_write_simps [simp]:
  "length bs \<le> dev_room d \<Longrightarrow> dev_write k bs d =
     (True, d\<lparr>dev_files := file_append k bs (dev_files d), dev_room := dev_room d - length bs\<rparr>)"
  "dev_room d < length bs \<Longrightarrow> dev_write k bs d =
     (False, d\<lparr>dev_files := file_append k (take (dev_room d) bs) (dev_files d), dev_room := 0\<rparr>)"
  by (simp_all add: dev_write_def Let_def)

section \<open>What a write leaves on the device\<close>

text \<open>
  \<open>written d rs1 tail d'\<close>: the files of \<open>d'\<close> are those of \<open>d\<close> with the records \<open>rs1\<close> appended, each to
  its file, and then a proper part of the frame of the record in \<open>tail\<close>, if there is one.
\<close>

definition written :: "device \<Rightarrow> wal_record list \<Rightarrow> (wal_record \<times> nat) option \<Rightarrow> device \<Rightarrow> bool" where
  "written d rs tail d' \<longleftrightarrow>
     (\<forall>k. file_content (dev_files d') k = file_content (dev_files d) k @ frames (in_file k rs) @
        (case tail of None \<Rightarrow> []
         | Some (r, m) \<Rightarrow> if file_first_lsn (extract_lsn r) = k then take m (frame r) else [])) \<and>
     (case tail of None \<Rightarrow> True | Some (r, m) \<Rightarrow> m < length (frame r)) \<and>
     (distinct (map fst (dev_files d)) \<longrightarrow> distinct (map fst (dev_files d'))) \<and>
     (dev_files d \<noteq> [] \<longrightarrow> dev_files d' \<noteq> []) \<and> dev_open d' = dev_open d"

lemma written_cons:
  assumes "written (d\<lparr>dev_files := file_append (file_first_lsn (extract_lsn r)) (frame r) fs, dev_room := n\<rparr>) rs tail d'"
    and "\<And>k. file_content fs k = file_content (dev_files d) k"
    and "distinct (map fst (dev_files d)) \<Longrightarrow> distinct (map fst fs)"
  shows "written d (r # rs) tail d'"
  using assms distinct_file_append unfolding written_def by auto

lemma written_tail:
  assumes "m < length (frame r)"
    and "\<And>k. file_content (dev_files d') k = file_content (dev_files d) k @
      (if k = file_first_lsn (extract_lsn r) then take m (frame r) else [])"
    and "distinct (map fst (dev_files d)) \<Longrightarrow> distinct (map fst (dev_files d'))"
    and "dev_files d \<noteq> [] \<Longrightarrow> dev_files d' \<noteq> []" and "dev_open d' = dev_open d"
  shows "written d [] (Some (r, m)) d'"
  using assms unfolding written_def by auto

lemma file_append_append [simp]: "file_append k b (file_append k a fs) = file_append k (a @ b) fs"
  by (induction k a fs rule: file_append.induct) auto

text \<open>The effect of one round of the loop.\<close>

lemma write_logs_Cons:
  fixes d opened r
  defines "k \<equiv> file_first_lsn (extract_lsn r)"
  defines "fs \<equiv> (if opened \<noteq> Some k then file_append k [] (dev_files d) else dev_files d)"
  shows "write_logs opened (r # rs) d =
    (if opened \<noteq> Some k \<and> \<not> dev_open d k then (Raised (RuntimeError ''Failed to open WAL log file''), d)
     else if dev_room d < 8 then
       (Raised (RuntimeError ''Failed to write WAL record size''),
        d\<lparr>dev_files := file_append k (take (dev_room d) (frame r)) fs, dev_room := 0\<rparr>)
     else if dev_room d < length (frame r) then
       (Raised (RuntimeError ''Failed to write WAL record''),
        d\<lparr>dev_files := file_append k (take (dev_room d) (frame r)) fs, dev_room := 0\<rparr>)
     else write_logs (Some k) rs
       (d\<lparr>dev_files := file_append k (frame r) fs, dev_room := dev_room d - length (frame r)\<rparr>))"
proof (cases "dev_room d < 8")
  case True
  then show ?thesis by (simp add: k_def fs_def Let_def frame_def)
next
  case False
  then show ?thesis
    by (cases "dev_room d < length (frame r)")
      (simp_all add: k_def fs_def Let_def frame_def ms_size_def)
qed

declare write_logs.simps(2) [simp del]

lemma write_logs_written:
  obtains (ok) d' where "write_logs opened rs d = (Done (), d')" and "written d rs None d'"
  | (fail) e d' rs1 r m rs2 where "write_logs opened rs d = (Raised e, d')" and "rs = rs1 @ r # rs2"
      and "written d rs1 (Some (r, m)) d'"
proof (induction rs arbitrary: opened d thesis)
  case Nil
  have "written d [] None d" by (simp add: written_def)
  with Nil(1) [of d] show ?case by simp
next
  case (Cons r rs)
  define k where "k = file_first_lsn (extract_lsn r)"
  define fs where "fs = (if opened \<noteq> Some k then file_append k [] (dev_files d) else dev_files d)"
  note step = write_logs_Cons [of opened r rs d, folded k_def, folded fs_def]
  have fs: "file_content fs j = file_content (dev_files d) j"
    "distinct (map fst (dev_files d)) \<Longrightarrow> distinct (map fst fs)" for j
    by (simp_all add: fs_def distinct_file_append)
  have torn: "written d [] (Some (r, dev_room d))
      (d\<lparr>dev_files := file_append k (take (dev_room d) (frame r)) fs, dev_room := 0\<rparr>)"
    if "dev_room d < length (frame r)"
    using that by (rule written_tail) (simp_all add: k_def fs distinct_file_append)
  consider "opened \<noteq> Some k \<and> \<not> dev_open d k" | "\<not> (opened \<noteq> Some k \<and> \<not> dev_open d k)" "dev_room d < 8"
    | "\<not> (opened \<noteq> Some k \<and> \<not> dev_open d k)" "\<not> dev_room d < 8" "dev_room d < length (frame r)"
    | "\<not> (opened \<noteq> Some k \<and> \<not> dev_open d k)" "\<not> dev_room d < length (frame r)"
    by blast
  then show ?case
  proof cases
    case 1
    have "written d [] (Some (r, 0)) d" by (rule written_tail) (simp_all add: length_frame)
    moreover have "write_logs opened (r # rs) d = (Raised (RuntimeError ''Failed to open WAL log file''), d)"
      using 1 step by simp
    ultimately show ?thesis using Cons.prems(2) [of _ d "[]" r rs 0] by simp
  next
    case 2
    then have "write_logs opened (r # rs) d = (Raised (RuntimeError ''Failed to write WAL record size''),
        d\<lparr>dev_files := file_append k (take (dev_room d) (frame r)) fs, dev_room := 0\<rparr>)"
      using step by auto
    then show ?thesis using Cons.prems(2) [of _ _ "[]" r rs] torn 2 by (simp add: length_frame)
  next
    case 3
    then have "write_logs opened (r # rs) d = (Raised (RuntimeError ''Failed to write WAL record''),
        d\<lparr>dev_files := file_append k (take (dev_room d) (frame r)) fs, dev_room := 0\<rparr>)"
      using step by auto
    then show ?thesis using Cons.prems(2) [of _ _ "[]" r rs] torn 3 by simp
  next
    case 4
    define d1 where "d1 = d\<lparr>dev_files := file_append k (frame r) fs, dev_room := dev_room d - length (frame r)\<rparr>"
    have run: "write_logs opened (r # rs) d = write_logs (Some k) rs d1"
      unfolding step d1_def using 4 by (auto simp: length_frame)
    have w: "written d (r # rs') t d'" if "written d1 rs' t d'" for rs' t d'
      using that fs unfolding d1_def k_def by (rule written_cons)
    show ?thesis
    proof (rule Cons.IH [of "Some k" d1])
      fix d' assume "write_logs (Some k) rs d1 = (Done (), d')" and "written d1 rs None d'"
      then show ?thesis using run w by (intro Cons.prems(1)) simp_all
    next
      fix e d' rs1 s m rs2
      assume "write_logs (Some k) rs d1 = (Raised e, d')" and "rs = rs1 @ s # rs2"
        and "written d1 rs1 (Some (s, m)) d'"
      then show ?thesis using run w by (intro Cons.prems(2) [of e d' "r # rs1" s rs2 m]) simp_all
    qed
  qed
qed

lemma write_logs_room:
  "length (frames rs) \<le> dev_room d \<Longrightarrow> (\<And>k. dev_open d k) \<Longrightarrow> fst (write_logs opened rs d) = Done ()"
  by (induction rs arbitrary: opened d) (simp_all add: write_logs_Cons length_frame)

section \<open>Reading back\<close>

lemma ro_read_u64_frame:
  assumes "length (pre @ frame r @ post) \<le> max_alloc"
  shows "ro_read 8 \<lparr>ro_buffer = pre @ frame r @ post, ro_position = length pre\<rparr> =
    Done (le_bytes 8 (word_of_nat (ms_size (wal_serialize r)) :: u64),
      \<lparr>ro_buffer = pre @ frame r @ post, ro_position = length pre + 8\<rparr>)"
  using ro_read_inside [of pre "le_bytes 8 (word_of_nat (ms_size (wal_serialize r)) :: u64)"
      "ms_buffer (wal_serialize r) @ post"] assms
  by (simp add: frame_def)

lemma sizeof_any_full: "sizeof_any old (le_bytes 8 w) = w"
  by (simp add: sizeof_any_def overlay_def)

lemma read_records_frame:
  assumes "ok_wal r" and len: "length (pre @ frame r @ post) \<le> max_alloc"
  shows "read_records old junk \<lparr>ro_buffer = pre @ frame r @ post, ro_position = length pre\<rparr> =
    obind (read_records old junk \<lparr>ro_buffer = pre @ frame r @ post, ro_position = length (pre @ frame r)\<rparr>)
      (\<lambda>rs. Done (r # rs))"
proof -
  let ?sz = "le_bytes 8 (word_of_nat (ms_size (wal_serialize r)) :: u64)"
  have "wal_deserialize junk \<lparr>ro_buffer = pre @ frame r @ post, ro_position = length pre + 8\<rparr> =
    Done (r, \<lparr>ro_buffer = pre @ frame r @ post, ro_position = length (pre @ frame r)\<rparr>)"
    using consumesD [OF wal_deserialize_ok [OF assms(1)], of "pre @ ?sz" post junk] len
    by (simp add: frame_def add.assoc)
  moreover have "?sz \<noteq> []" by (simp flip: length_0_conv)
  moreover have "ms_size (wal_serialize r) \<le> max_alloc"
    using len by (simp add: length_frame)
  ultimately show ?thesis
    using ro_read_u64_frame [OF len] len
    by (subst read_records.simps) (simp add: ro_remaining_def sizeof_any_full length_frame)
qed

lemma read_records_frames:
  assumes "list_all ok_wal rs" and "length (pre @ frames rs @ post) \<le> max_alloc"
  shows "read_records old junk \<lparr>ro_buffer = pre @ frames rs @ post, ro_position = length pre\<rparr> =
    obind (read_records old junk \<lparr>ro_buffer = pre @ frames rs @ post, ro_position = length (pre @ frames rs)\<rparr>)
      (\<lambda>ts. Done (rs @ ts))"
  using assms
proof (induction rs arbitrary: pre)
  case Nil
  then show ?case by simp
next
  case (Cons r rs)
  have "read_records old junk \<lparr>ro_buffer = pre @ frame r @ frames rs @ post, ro_position = length pre\<rparr> =
    obind (read_records old junk \<lparr>ro_buffer = pre @ frame r @ frames rs @ post, ro_position = length (pre @ frame r)\<rparr>)
      (\<lambda>ts. Done (r # ts))"
    using Cons.prems by (intro read_records_frame) simp_all
  with Cons.IH [of "pre @ frame r"] Cons.prems show ?case
    by (simp add: obind_assoc add.assoc)
qed

text \<open>The end of a file that a write left: nothing, or a proper part of a frame.\<close>

definition torn_size :: "u64 \<Rightarrow> byte list \<Rightarrow> bool" where
  "torn_size old tail \<longleftrightarrow> 0 < length tail \<and> length tail < 8 \<and> sizeof_any old tail = 0"

lemma wal_deserialize_at_end:
  "length buf \<le> max_alloc \<Longrightarrow> wal_deserialize junk \<lparr>ro_buffer = buf, ro_position = length buf\<rparr> = Failed"
  by (simp add: wal_deserialize_def rbind_def rd_some_word_def rd_some_def ro_read_def rfail_def Let_def
      max_alloc_def)

lemma read_records_end: "read_records old junk \<lparr>ro_buffer = buf, ro_position = length buf\<rparr> = Done []"
  by (subst read_records.simps) (simp add: ro_remaining_def)

lemma ro_read_short:
  "length (pre @ bs) \<le> max_alloc \<Longrightarrow> length bs < n \<Longrightarrow> n \<le> 8 \<Longrightarrow>
   ro_read n \<lparr>ro_buffer = pre @ bs, ro_position = length pre\<rparr> =
   Done (bs, \<lparr>ro_buffer = pre @ bs, ro_position = length (pre @ bs)\<rparr>)"
  by (simp add: ro_read_def Let_def max_alloc_def)

lemma read_records_torn:
  assumes "m < length (frame r)" and "length (pre @ frame r) \<le> max_alloc"
  shows "read_records old junk \<lparr>ro_buffer = pre @ take m (frame r), ro_position = length pre\<rparr> =
    (if torn_size old (take m (frame r))
     then Raised (RuntimeError ''FileWalManager::read_logs_from_file: failed to deserialize a record'')
     else Done [])"
proof -
  let ?tail = "take m (frame r)"
  have len: "length (pre @ ?tail) \<le> max_alloc" using assms by simp
  consider "m = 0" | "0 < m" "m < 8" | "8 \<le> m" by linarith
  then show ?thesis
  proof cases
    case 1
    then show ?thesis using read_records_end [of old junk pre] by (simp add: torn_size_def)
  next
    case 2
    then have "length ?tail = m" and "?tail \<noteq> []" using assms(1) by auto
    moreover have "ro_read 8 \<lparr>ro_buffer = pre @ ?tail, ro_position = length pre\<rparr> =
        Done (?tail, \<lparr>ro_buffer = pre @ ?tail, ro_position = length (pre @ ?tail)\<rparr>)"
      using len 2 \<open>length ?tail = m\<close> by (intro ro_read_short) simp_all
    ultimately show ?thesis
      using 2 wal_deserialize_at_end [OF len, of junk]
      by (subst read_records.simps) (auto simp: ro_remaining_def torn_size_def unat_gt_0)
  next
    case 3
    let ?sz = "le_bytes 8 (word_of_nat (ms_size (wal_serialize r)) :: u64)"
    have tail: "?tail = ?sz @ take (m - 8) (ms_buffer (wal_serialize r))"
      using 3 by (simp add: frame_def)
    have "ro_read 8 \<lparr>ro_buffer = pre @ ?tail, ro_position = length pre\<rparr> =
        Done (?sz, \<lparr>ro_buffer = pre @ ?tail, ro_position = length pre + 8\<rparr>)"
      using ro_read_inside [of pre ?sz "take (m - 8) (ms_buffer (wal_serialize r))"] len
      unfolding tail by simp
    moreover have "ms_size (wal_serialize r) \<le> max_alloc" using assms(2) by (simp add: length_frame)
    moreover have "?sz \<noteq> []" by (simp flip: length_0_conv)
    ultimately show ?thesis
      using 3 assms(1)
      by (subst read_records.simps)
        (auto simp: ro_remaining_def torn_size_def sizeof_any_full length_frame less_diff_conv2)
  qed
qed

lemma read_logs_from_file_frames:
  assumes "list_all ok_wal rs" and "length (frames rs) \<le> max_alloc"
  shows "read_logs_from_file old junk (frames rs) = Done rs"
  using read_records_frames [of rs "[]" "[]" old junk] assms read_records_end [of old junk "frames rs"]
  by (simp add: read_logs_from_file_def ro_new_def)

lemma read_logs_from_file_torn:
  assumes "list_all ok_wal rs" and "m < length (frame r)" and "length (frames rs @ frame r) \<le> max_alloc"
  shows "read_logs_from_file old junk (frames rs @ take m (frame r)) =
    (if torn_size old (take m (frame r))
     then Raised (RuntimeError ''FileWalManager::read_logs_from_file: failed to deserialize a record'')
     else Done rs)"
proof -
  have "read_records old junk \<lparr>ro_buffer = frames rs @ take m (frame r), ro_position = 0\<rparr> =
    obind (read_records old junk \<lparr>ro_buffer = frames rs @ take m (frame r), ro_position = length (frames rs)\<rparr>)
      (\<lambda>ts. Done (rs @ ts))"
    using read_records_frames [of rs "[]" "take m (frame r)" old junk] assms by simp
  then show ?thesis
    using read_records_torn [OF assms(2), of "frames rs" old junk] assms(3)
    by (simp add: read_logs_from_file_def ro_new_def)
qed

section \<open>Invariant\<close>

definition lsns_increasing :: "wal_record list \<Rightarrow> bool" where
  "lsns_increasing rs \<longleftrightarrow> sorted_wrt (<) (map extract_lsn rs)"

text \<open>The log files hold exactly the records \<open>rs\<close>, each in the file of its LSN.\<close>

definition dev_holds :: "device \<Rightarrow> wal_record list \<Rightarrow> bool" where
  "dev_holds d rs \<longleftrightarrow> dev_files d \<noteq> [] \<and> distinct (map fst (dev_files d)) \<and>
     (\<forall>k. file_content (dev_files d) k = frames (in_file k rs))"

definition wal_inv :: "wal_state \<Rightarrow> bool" where
  "wal_inv st \<longleftrightarrow>
     lsns_increasing (wm_flushed st @ wm_dirty st) \<and>
     list_all (\<lambda>r. 0 < extract_lsn r \<and> extract_lsn r < wm_next_lsn st \<and> ok_wal r) (wm_flushed st @ wm_dirty st) \<and>
     0 < wm_next_lsn st \<and>
     wm_flushed_lsn st = (if wm_flushed st = [] then 0 else extract_lsn (last (wm_flushed st))) \<and>
     \<not> wm_flush_in_progress st \<and>
     dev_holds (wm_dev st) (wm_flushed st)"

text \<open>The whole log fits one allocation, so that every file of it can be read.\<close>

definition wal_fits :: "wal_record list \<Rightarrow> bool" where
  "wal_fits rs \<longleftrightarrow> length (frames rs) \<le> max_alloc"

lemma frames_in_file_le: "length (frames (in_file k rs)) \<le> length (frames rs)"
  by (induction rs) auto

lemma in_file_nonempty_key:
  assumes "dev_holds d rs" and "r \<in> set rs"
  shows "file_first_lsn (extract_lsn r) \<in> set (map fst (dev_files d))"
proof (rule ccontr)
  let ?k = "file_first_lsn (extract_lsn r)"
  assume "?k \<notin> set (map fst (dev_files d))"
  then have "file_content (dev_files d) ?k = []"
    by (simp add: file_content_def map_of_eq_None_iff [THEN iffD2])
  then have "frame r = []"
    using assms by (auto simp: dev_holds_def)
  then show False using length_frame [of r] by simp
qed

section \<open>Restart\<close>

lemma read_files_all:
  assumes "\<And>k c. (k, c) \<in> set fs \<Longrightarrow> read_logs_from_file old junk c = Done (f k)"
  shows "read_files old junk fs = Done (concat (map (\<lambda>(k, c). f k) fs))"
  using assms
proof (induction fs)
  case Nil
  then show ?case by simp
next
  case (Cons a fs)
  obtain k c where a: "a = (k, c)" by (cases a)
  then have "read_logs_from_file old junk c = Done (f k)" using Cons.prems by simp
  moreover have "read_files old junk fs = Done (concat (map (\<lambda>(k, c). f k) fs))"
    using Cons.prems by (intro Cons.IH) simp
  ultimately show ?case by (simp add: a)
qed

lemma mset_in_files:
  assumes "distinct (map fst fs)" and "\<And>r. r \<in> set rs \<Longrightarrow> g r \<in> set (map fst fs)"
  shows "mset (concat (map (\<lambda>(k, c). filter (\<lambda>r. g r = k) rs) fs)) = mset rs"
  using assms
proof (induction fs arbitrary: rs)
  case Nil
  then show ?case by (cases rs) auto
next
  case (Cons a fs)
  obtain k c where a: "a = (k, c)" by (cases a)
  let ?rest = "filter (\<lambda>r. g r \<noteq> k) rs"
  have 1: "mset (concat (map (\<lambda>(k, c). filter (\<lambda>r. g r = k) ?rest) fs)) = mset ?rest"
    using Cons.prems a by (intro Cons.IH) auto
  have 2: "map (\<lambda>(k, c). filter (\<lambda>r. g r = k) ?rest) fs = map (\<lambda>(k, c). filter (\<lambda>r. g r = k) rs) fs"
  proof (rule map_cong [OF refl], clarsimp simp: filter_filter)
    fix k' c'
    assume "(k', c') \<in> set fs"
    then have "k' \<noteq> k" using Cons.prems(1) a by force
    then show "filter (\<lambda>r. g r \<noteq> k \<and> g r = k') rs = filter (\<lambda>r. g r = k') rs"
      by (intro filter_cong) auto
  qed
  show ?case
    using 1 [unfolded 2] multiset_partition [of "mset rs" "\<lambda>r. g r = k"] by (simp add: a)
qed

lemma lsns_increasing_sort:
  assumes "mset logs = mset rs" and "lsns_increasing rs"
  shows "sort_key extract_lsn logs = rs"
proof (rule sort_key_inj_key_eq)
  show "inj_on extract_lsn (set logs)"
    using assms strict_sorted_iff [of "map extract_lsn rs"] mset_eq_setD [OF assms(1)]
    by (simp add: lsns_increasing_def distinct_map)
  show "sorted (map extract_lsn rs)"
    using assms(2) strict_sorted_iff [of "map extract_lsn rs"] by (simp add: lsns_increasing_def)
qed (rule assms(1))

text \<open>\<open>next_lsn\<close> after reading: one more than the greatest LSN read, in whatever order.\<close>

lemma fold_max_Max: "fold (\<lambda>r a. max a (f r)) xs n = Max (insert (n :: 'b::linorder) (f ` set xs))"
proof (induction xs arbitrary: n)
  case Nil
  then show ?case by simp
next
  case (Cons x xs)
  have "Max (insert (max n (f x)) (f ` set xs)) = Max (insert n (insert (f x) (f ` set xs)))"
    by (cases "f ` set xs = {}") (simp_all add: max.assoc)
  then show ?case by (simp add: Cons)
qed

lemma bump_lsn_max: "extract_lsn r < m \<Longrightarrow> bump_lsn r n = max n (extract_lsn r + 1)"
  unfolding bump_lsn_def by unat_arith

lemma fold_bump_lsn:
  assumes "set logs = set rs" and "lsns_increasing rs" and "\<And>r. r \<in> set rs \<Longrightarrow> extract_lsn r < m"
  shows "fold bump_lsn logs 1 = (if rs = [] then 1 else extract_lsn (last rs) + 1)"
proof -
  have eq: "fold bump_lsn logs 1 = fold (\<lambda>r a. max a (extract_lsn r + 1)) logs 1"
    using assms by (intro fold_cong) (auto simp: fun_eq_iff intro: bump_lsn_max)
  show ?thesis
  proof (cases rs rule: rev_cases)
    case Nil
    then show ?thesis using assms(1) eq by simp
  next
    case (snoc ys y)
    have "extract_lsn x + 1 \<le> extract_lsn y + 1" if "x \<in> set rs" for x
    proof -
      have "extract_lsn x \<le> extract_lsn y"
        using that assms(2) snoc by (auto simp: lsns_increasing_def sorted_wrt_append)
      then show ?thesis using assms(3) [of y] snoc by unat_arith
    qed
    moreover have "1 \<le> extract_lsn y + 1"
      using assms(3) [of y] snoc by unat_arith
    ultimately have "Max (insert 1 ((\<lambda>r. extract_lsn r + 1) ` set rs)) = extract_lsn y + 1"
      using snoc by (intro Max_eqI) auto
    then show ?thesis using assms(1) eq snoc by (simp add: fold_max_Max)
  qed
qed

definition wal_restored :: "wal_record list \<Rightarrow> device \<Rightarrow> wal_state" where
  "wal_restored rs d =
     \<lparr>wm_next_lsn = (if rs = [] then 1 else extract_lsn (last rs) + 1),
      wm_flushed_lsn = (if rs = [] then 0 else extract_lsn (last rs)),
      wm_flush_in_progress = False, wm_flushed = rs, wm_dirty = [], wm_dev = d\<rparr>"

lemma wal_open_reads:
  assumes "dev_files d \<noteq> []" and "distinct (map fst (dev_files d))"
    and "\<And>k c. (k, c) \<in> set (dev_files d) \<Longrightarrow> read_logs_from_file old junk c = Done (in_file k rs)"
    and "\<And>r. r \<in> set rs \<Longrightarrow> file_first_lsn (extract_lsn r) \<in> set (map fst (dev_files d))"
    and "lsns_increasing rs" and "\<And>r. r \<in> set rs \<Longrightarrow> extract_lsn r < m"
  shows "wal_open old junk d = Done (wal_restored rs d)"
proof -
  let ?fs = "sort_key fst (dev_files d)"
  let ?logs = "concat (map (\<lambda>(k, c). in_file k rs) ?fs)"
  have read: "read_files old junk ?fs = Done ?logs"
    using assms(3) by (intro read_files_all) simp
  have "distinct (map fst ?fs)"
    using assms(2) by (metis distinct_map distinct_sort set_sort)
  then have mset: "mset ?logs = mset rs"
    using assms(4) by (intro mset_in_files) simp_all
  have sorted: "sort_key extract_lsn ?logs = rs"
    using mset assms(5) by (rule lsns_increasing_sort)
  have "set ?logs = set rs" using mset by (rule mset_eq_setD)
  then have next_lsn: "fold bump_lsn ?logs 1 = (if rs = [] then 1 else extract_lsn (last rs) + 1)"
    using assms(5,6) by (rule fold_bump_lsn)
  show ?thesis
    unfolding wal_open_def hydrate_cache_def Let_def
    using assms(1) by (simp only: if_False wal_state.select_convs read obind.simps append_Nil sorted next_lsn)
      (simp add: wal_restored_def)
qed

lemma file_content_entry: "distinct (map fst fs) \<Longrightarrow> (k, c) \<in> set fs \<Longrightarrow> c = file_content fs k"
  by (simp add: file_content_def)

lemma wal_open_holds:
  assumes "dev_holds d rs" and "list_all ok_wal rs" and "wal_fits rs" and "lsns_increasing rs"
    and "\<And>r. r \<in> set rs \<Longrightarrow> extract_lsn r < m"
  shows "wal_open old junk d = Done (wal_restored rs d)"
proof (rule wal_open_reads)
  fix k c
  assume "(k, c) \<in> set (dev_files d)"
  then have "c = frames (in_file k rs)"
    using assms(1) file_content_entry by (fastforce simp: dev_holds_def)
  moreover have "length (frames (in_file k rs)) \<le> max_alloc"
    using assms(3) frames_in_file_le [of k rs] by (simp add: wal_fits_def)
  moreover have "list_all ok_wal (in_file k rs)"
    using assms(2) by (simp add: list_all_iff)
  ultimately show "read_logs_from_file old junk c = Done (in_file k rs)"
    by (simp add: read_logs_from_file_frames)
next
  show "file_first_lsn (extract_lsn r) \<in> set (map fst (dev_files d))" if "r \<in> set rs" for r
    using assms(1) that by (rule in_file_nonempty_key)
qed (use assms in \<open>simp_all add: dev_holds_def\<close>)

section \<open>Preservation of the invariant\<close>

lemma wal_inv_new:
  assumes "dev_files d = []" and "dev_open d 1"
  shows "\<exists>st. wal_open old junk d = Done st \<and> wal_inv st \<and> read_all_logs st = [] \<and> wm_next_lsn st = 1"
proof -
  have "read_logs_from_file old junk [] = Done []"
    using read_logs_from_file_frames [of "[]" old junk] by simp
  then show ?thesis
    using assms by (simp add: wal_open_def hydrate_cache_def Let_def wal_inv_def lsns_increasing_def
        dev_holds_def file_content_def read_all_logs_def)
qed

lemma wal_inv_append:
  assumes "wal_inv st" and "ok_wal r" and "wm_next_lsn st + 1 \<noteq> 0"
  shows "wal_inv (snd (append_log r st))"
proof -
  have less: "wm_next_lsn st < wm_next_lsn st + 1" using assms(3) by unat_arith
  have "ok_wal (set_lsn x r)" for x using assms(2) by (cases r) simp_all
  moreover have "0 < wm_next_lsn st + 1" using assms(3) by (simp add: word_gt_0)
  ultimately show ?thesis
    using assms(1) less
    by (auto simp: wal_inv_def append_log_def Let_def lsns_increasing_def sorted_wrt_append list_all_iff
        intro: less_trans)
qed

lemma dev_holds_written:
  "dev_holds d rs \<Longrightarrow> written d rs1 None d' \<Longrightarrow> dev_holds d' (rs @ rs1)"
  by (simp add: dev_holds_def written_def)

lemma flush_cases:
  obtains (empty) "wm_dirty st = []" and "flush st = (Done (), st)"
  | (ok) d' where "wm_dirty st \<noteq> []" and "written (wm_dev st) (wm_dirty st) None d'"
      and "flush st = (Done (), st\<lparr>wm_dirty := [], wm_dev := d', wm_flushed := wm_flushed st @ wm_dirty st,
        wm_flushed_lsn := max (wm_flushed_lsn st) (extract_lsn (last (wm_dirty st)))\<rparr>)"
  | (fail) e d' rs1 r m rs2 where "flush st = (Raised e, st\<lparr>wm_dirty := [], wm_dev := d'\<rparr>)"
      and "wm_dirty st = rs1 @ r # rs2" and "written (wm_dev st) rs1 (Some (r, m)) d'"
proof (cases "wm_dirty st = []")
  case True
  then show ?thesis by (intro empty) (simp_all add: flush_def)
next
  case False
  show ?thesis
  proof (rule write_logs_written [of None "wm_dirty st" "wm_dev st"])
    fix d' assume "write_logs None (wm_dirty st) (wm_dev st) = (Done (), d')"
      and "written (wm_dev st) (wm_dirty st) None d'"
    then show ?thesis using False
      by (intro ok [of d']) (auto simp: flush_def Let_def max_def not_less)
  next
    fix e d' rs1 r m rs2
    assume "write_logs None (wm_dirty st) (wm_dev st) = (Raised e, d')" and "wm_dirty st = rs1 @ r # rs2"
      and "written (wm_dev st) rs1 (Some (r, m)) d'"
    then show ?thesis using False
      by (intro fail [of e d' rs1 r rs2 m]) (simp_all add: flush_def Let_def)
  qed
qed

lemma wal_inv_flushed_le:
  assumes "wal_inv st" and "r \<in> set (wm_dirty st)"
  shows "wm_flushed_lsn st \<le> extract_lsn r"
proof (cases "wm_flushed st = []")
  case False
  then have "extract_lsn (last (wm_flushed st)) < extract_lsn r"
    using assms by (simp add: wal_inv_def lsns_increasing_def sorted_wrt_append)
  with False assms(1) show ?thesis by (simp add: wal_inv_def)
qed (use assms(1) in \<open>simp add: wal_inv_def\<close>)

lemma flush_ok:
  assumes "wal_inv st" and "fst (flush st) = Done ()"
  shows "wal_inv (snd (flush st)) \<and> wm_flushed (snd (flush st)) = wm_flushed st @ wm_dirty st \<and>
    wm_dirty (snd (flush st)) = [] \<and> wm_next_lsn (snd (flush st)) = wm_next_lsn st"
proof (cases st rule: flush_cases)
  case empty
  then show ?thesis using assms(1) by simp
next
  case (ok d')
  have "max (wm_flushed_lsn st) (extract_lsn (last (wm_dirty st))) = extract_lsn (last (wm_dirty st))"
    using wal_inv_flushed_le [OF assms(1), of "last (wm_dirty st)"] ok(1) by (simp add: max_def)
  moreover have "dev_holds d' (wm_flushed st @ wm_dirty st)"
    using assms(1) ok(2) by (intro dev_holds_written) (simp_all add: wal_inv_def)
  ultimately show ?thesis
    using assms(1) ok(1,3) by (simp add: wal_inv_def)
next
  case fail
  then show ?thesis using assms(2) by simp
qed

lemma flush_room:
  assumes "length (frames (wm_dirty st)) \<le> dev_room (wm_dev st)" and "\<And>k. dev_open (wm_dev st) k"
  shows "fst (flush st) = Done ()"
proof -
  have "fst (write_logs None (wm_dirty st) (wm_dev st)) = Done ()"
    using assms by (rule write_logs_room)
  then show ?thesis by (cases st rule: flush_cases) (auto simp: flush_def Let_def split: prod.splits)
qed

section \<open>The log as seen by its clients\<close>

text \<open>
  The contract of \<^verbatim>\<open>IWALManager\<close> (\<^verbatim>\<open>wal/include/wal_manager.hpp\<close>): appended records are numbered with
  fresh, growing LSNs and can be read back by them.
\<close>

locale wal_log =
  fixes append :: "wal_record \<Rightarrow> 's \<Rightarrow> lsn \<times> 's"
    and read :: "lsn \<Rightarrow> 's \<Rightarrow> wal_record outcome"
    and logs :: "'s \<Rightarrow> wal_record list"
    and inv :: "'s \<Rightarrow> bool"
    and lsn_left :: "'s \<Rightarrow> bool"
  assumes append_logs: "inv st \<Longrightarrow> logs (snd (append r st)) = logs st @ [set_lsn (fst (append r st)) r]"
    and append_inv: "inv st \<Longrightarrow> lsn_left st \<Longrightarrow> ok_wal r \<Longrightarrow> inv (snd (append r st))"
    and append_fresh: "inv st \<Longrightarrow> q \<in> set (logs st) \<Longrightarrow> extract_lsn q < fst (append r st)"
    and append_nonzero: "inv st \<Longrightarrow> 0 < fst (append r st)"
    and read_hit: "inv st \<Longrightarrow> q \<in> set (logs st) \<Longrightarrow> read (extract_lsn q) st = Done q"
    and read_miss: "inv st \<Longrightarrow> lsn \<notin> extract_lsn ` set (logs st) \<Longrightarrow> \<exists>e. read lsn st = Raised e"
begin

lemma read_appended:
  assumes "inv st" and "lsn_left st" and "ok_wal r"
  shows "read (fst (append r st)) (snd (append r st)) = Done (set_lsn (fst (append r st)) r)"
  using read_hit [OF append_inv [OF assms], of "set_lsn (fst (append r st)) r"] append_logs [OF assms(1)]
  by simp

lemma read_older:
  assumes "inv st" and "lsn_left st" and "ok_wal r" and "q \<in> set (logs st)"
  shows "read (extract_lsn q) (snd (append r st)) = Done q"
  using read_hit [OF append_inv [OF assms(1-3)], of q] append_logs [OF assms(1)] assms(4) by simp

lemma read_conv:
  assumes "inv st"
  shows "read lsn st = Done q \<longleftrightarrow> q \<in> set (logs st) \<and> extract_lsn q = lsn"
proof
  assume q: "read lsn st = Done q"
  then have "lsn \<in> extract_lsn ` set (logs st)"
    using read_miss [OF assms, of lsn] by force
  then obtain p where p: "p \<in> set (logs st)" "lsn = extract_lsn p" by auto
  then have "p = q" using q read_hit [OF assms p(1)] by simp
  with p show "q \<in> set (logs st) \<and> extract_lsn q = lsn" by simp
next
  assume "q \<in> set (logs st) \<and> extract_lsn q = lsn"
  then show "read lsn st = Done q" using read_hit [OF assms, of q] by simp
qed

end

lemma find_unique:
  assumes "\<forall>r\<in>set rs. P r \<longleftrightarrow> r = q" and "q \<in> set rs"
  shows "find P rs = Some q"
  using assms
proof (induction rs)
  case (Cons r rs)
  then show ?case by (cases "r = q") simp_all
qed simp

lemma find_lsn:
  assumes "lsns_increasing rs" and "q \<in> set rs"
  shows "find (\<lambda>r. extract_lsn r = extract_lsn q) rs = Some q"
proof -
  have "inj_on extract_lsn (set rs)"
    using assms(1) strict_sorted_iff [of "map extract_lsn rs"] by (simp add: lsns_increasing_def distinct_map)
  then have "\<forall>r\<in>set rs. extract_lsn r = extract_lsn q \<longleftrightarrow> r = q"
    using assms(2) by (simp add: inj_on_eq_iff)
  then show ?thesis
    using assms(2) by (rule find_unique)
qed

lemma lsns_increasing_append:
  "lsns_increasing (xs @ ys) \<longleftrightarrow>
   lsns_increasing xs \<and> lsns_increasing ys \<and> (\<forall>x\<in>set xs. \<forall>y\<in>set ys. extract_lsn x < extract_lsn y)"
  by (auto simp: lsns_increasing_def sorted_wrt_append)

lemma read_log_hit:
  assumes "wal_inv st" and "q \<in> set (read_all_logs st)"
  shows "read_log (extract_lsn q) st = Done q"
proof -
  have inc: "lsns_increasing (wm_flushed st)" "lsns_increasing (wm_dirty st)"
    "\<And>x y. x \<in> set (wm_flushed st) \<Longrightarrow> y \<in> set (wm_dirty st) \<Longrightarrow> extract_lsn x < extract_lsn y"
    using assms(1) by (auto simp: wal_inv_def lsns_increasing_append)
  show ?thesis
  proof (cases "q \<in> set (wm_dirty st)")
    case True
    then show ?thesis using find_lsn [OF inc(2)] by (simp add: read_log_def)
  next
    case False
    then have q: "q \<in> set (wm_flushed st)" using assms(2) by (simp add: read_all_logs_def)
    then have "find (\<lambda>r. extract_lsn r = extract_lsn q) (wm_dirty st) = None"
      using inc(3) by (fastforce simp: find_None_iff)
    then show ?thesis using find_lsn [OF inc(1) q] by (simp add: read_log_def)
  qed
qed

lemma read_log_miss:
  "lsn \<notin> extract_lsn ` set (read_all_logs st) \<Longrightarrow>
   read_log lsn st = Raised (RuntimeError ''WAL record not found: LSN '')"
  by (auto simp: read_log_def read_all_logs_def image_iff find_None_iff split: option.splits dest!: find_Some_iff [THEN iffD1])

interpretation file_wal: wal_log append_log read_log read_all_logs wal_inv "\<lambda>st. wm_next_lsn st + 1 \<noteq> 0"
proof unfold_locales
  fix st r q lsn
  show "wal_inv st \<Longrightarrow> read_all_logs (snd (append_log r st)) =
      read_all_logs st @ [set_lsn (fst (append_log r st)) r]"
    by (simp add: read_all_logs_def append_log_def Let_def)
  show "wal_inv st \<Longrightarrow> q \<in> set (read_all_logs st) \<Longrightarrow> extract_lsn q < fst (append_log r st)"
    by (auto simp: wal_inv_def read_all_logs_def append_log_def Let_def list_all_iff)
  show "wal_inv st \<Longrightarrow> 0 < fst (append_log r st)"
    by (simp add: wal_inv_def append_log_def Let_def)
  show "wal_inv st \<Longrightarrow> lsn \<notin> extract_lsn ` set (read_all_logs st) \<Longrightarrow> \<exists>e. read_log lsn st = Raised e"
    using read_log_miss by blast
qed (rule wal_inv_append read_log_hit; assumption)+

section \<open>Waiting for durability\<close>

lemma wal_lsn_covered:
  assumes "wal_inv st" and "wm_dirty st = []" and "q \<in> set (wm_flushed st)"
  shows "extract_lsn q \<le> wm_flushed_lsn st"
proof -
  obtain ys y where ys: "wm_flushed st = ys @ [y]" using assms(3) by (cases "wm_flushed st" rule: rev_cases) auto
  then have "wm_flushed_lsn st = extract_lsn y" using assms(1) by (simp add: wal_inv_def)
  moreover have "extract_lsn q \<le> extract_lsn y"
    using assms ys by (auto simp: wal_inv_def lsns_increasing_append)
  ultimately show ?thesis by simp
qed

lemma wal_inv_progress_flag: "wal_inv st \<Longrightarrow> st\<lparr>wm_flush_in_progress := False\<rparr> = st"
  by (simp add: wal_inv_def)

lemma flush_progress_flag:
  "flush (st\<lparr>wm_flush_in_progress := b\<rparr>) = map_prod id (\<lambda>s. s\<lparr>wm_flush_in_progress := b\<rparr>) (flush st)"
  by (auto simp: flush_def Let_def split: prod.splits outcome.splits)

lemma wait_for_durable_flush:
  assumes "wal_inv st" and "fst (flush st) = Done ()" and "wm_flushed_lsn st < lsn"
  shows "wait_for_durable lsn st = wait_for_durable lsn (snd (flush st))"
proof -
  obtain st' where st': "flush st = (Done (), st')" using assms(2) by (cases "flush st") simp
  then have "wal_inv st'" using flush_ok [OF assms(1,2)] by simp
  then have "st'\<lparr>wm_flush_in_progress := False\<rparr> = st'" by (rule wal_inv_progress_flag)
  then show ?thesis
    using assms(1,3) st'
    by (subst wait_for_durable.simps) (simp add: flush_progress_flag wal_inv_def)
qed

lemma wait_for_durable_stuck:
  assumes "wait_for_durable lsn st = Some y"
  shows "\<not> (wm_dirty st = [] \<and> wm_flushed_lsn st < lsn \<and> \<not> wm_flush_in_progress st)"
proof (rule wait_for_durable.raw_induct [OF _ assms,
    of "\<lambda>lsn st y. \<not> (wm_dirty st = [] \<and> wm_flushed_lsn st < lsn \<and> \<not> wm_flush_in_progress st)"])
  fix rec lsn st y
  assume IH: "\<And>lsn st y. rec lsn st = Some y \<Longrightarrow>
      \<not> (wm_dirty st = [] \<and> wm_flushed_lsn st < lsn \<and> \<not> wm_flush_in_progress st)"
    and run: "(if wm_flushed_lsn st < lsn then
        if \<not> wm_flush_in_progress st then
          case flush (st\<lparr>wm_flush_in_progress := True\<rparr>) of
            (Done _, st') \<Rightarrow> rec lsn (st'\<lparr>wm_flush_in_progress := False\<rparr>)
          | (res, st') \<Rightarrow> Some (res, st'\<lparr>wm_flush_in_progress := False\<rparr>)
        else None
      else Some (Done (), st)) = Some y"
  show "\<not> (wm_dirty st = [] \<and> wm_flushed_lsn st < lsn \<and> \<not> wm_flush_in_progress st)"
  proof
    assume st: "wm_dirty st = [] \<and> wm_flushed_lsn st < lsn \<and> \<not> wm_flush_in_progress st"
    then have "flush (st\<lparr>wm_flush_in_progress := True\<rparr>) = (Done (), st\<lparr>wm_flush_in_progress := True\<rparr>)"
      by (simp add: flush_def)
    then have "rec lsn (st\<lparr>wm_flush_in_progress := False\<rparr>) = Some y"
      using run st by simp
    then show False using IH [of lsn "st\<lparr>wm_flush_in_progress := False\<rparr>" y] st by simp
  qed
qed

lemma wait_durable_total:
  assumes "wal_inv st" and "lsn \<in> extract_lsn ` set (read_all_logs st)" and "fst (flush st) = Done ()"
  shows "\<exists>st'. wait_for_durable lsn st = Some (Done (), st') \<and> lsn \<le> wm_flushed_lsn st' \<and>
    read_all_logs st' = read_all_logs st \<and> wal_inv st' \<and> wm_next_lsn st' = wm_next_lsn st"
proof (cases "wm_flushed_lsn st < lsn")
  case True
  let ?st' = "snd (flush st)"
  have st': "wal_inv ?st'" "wm_flushed ?st' = read_all_logs st" "wm_dirty ?st' = []" "wm_next_lsn ?st' = wm_next_lsn st"
    using flush_ok [OF assms(1,3)] by (simp_all add: read_all_logs_def)
  have "lsn \<le> wm_flushed_lsn ?st'"
    using wal_lsn_covered [OF st'(1,3)] assms(2) st'(2) by auto
  moreover from this have "wait_for_durable lsn ?st' = Some (Done (), ?st')"
    by (subst wait_for_durable.simps) (simp add: not_less [symmetric] del: not_less)
  ultimately show ?thesis
    using wait_for_durable_flush [OF assms(1,3) True] st' by (simp add: read_all_logs_def)
next
  case False
  then show ?thesis using assms(1) by (subst wait_for_durable.simps) simp
qed

section \<open>Runs of the log\<close>

text \<open>
  Appending, flushing and restarting (a clean stop or a crash between two flushes, which loses the dirty
  records), as long as LSNs do not run out, every file of the log can be read into memory and the
  device accepts the writes.
\<close>

inductive wal_step :: "wal_state \<Rightarrow> wal_state \<Rightarrow> bool" where
  step_append: "ok_wal r \<Longrightarrow> wm_next_lsn st + 1 \<noteq> 0 \<Longrightarrow> wal_step st (snd (append_log r st))"
| step_flush: "flush st = (Done (), st') \<Longrightarrow> wal_step st st'"
| step_restart: "wal_fits (wm_flushed st) \<Longrightarrow> wal_open old junk (wm_dev st) = Done st' \<Longrightarrow> wal_step st st'"

inductive wal_reachable :: "wal_state \<Rightarrow> bool" where
  start: "dev_files d = [] \<Longrightarrow> wal_open old junk d = Done st \<Longrightarrow> wal_reachable st"
| step: "wal_reachable st \<Longrightarrow> wal_step st st' \<Longrightarrow> wal_reachable st'"

lemma wal_inv_restored:
  assumes "dev_holds d rs" and "list_all ok_wal rs" and "lsns_increasing rs"
    and "\<And>r. r \<in> set rs \<Longrightarrow> 0 < extract_lsn r \<and> extract_lsn r < m"
  shows "wal_inv (wal_restored rs d)"
proof (cases rs rule: rev_cases)
  case Nil
  then show ?thesis using assms by (simp add: wal_inv_def wal_restored_def)
next
  case (snoc ys y)
  have lt: "extract_lsn y < extract_lsn y + 1" using assms(4) [of y] snoc by unat_arith
  moreover have "extract_lsn r < extract_lsn y + 1" if "r \<in> set ys" for r
    using that assms(3) snoc lt by (auto simp: lsns_increasing_append intro: less_trans)
  moreover have "0 < extract_lsn y + 1" using lt by (rule le_less_trans [OF word_zero_le])
  ultimately show ?thesis using assms snoc by (auto simp: wal_inv_def wal_restored_def list_all_iff)
qed

lemma wal_open_inv:
  assumes "wal_inv st" and "wal_fits (wm_flushed st)"
  shows "wal_open old junk (wm_dev st) = Done (wal_restored (wm_flushed st) (wm_dev st))"
    and "wal_inv (wal_restored (wm_flushed st) (wm_dev st))"
proof -
  have d: "dev_holds (wm_dev st) (wm_flushed st)" "list_all ok_wal (wm_flushed st)"
    "lsns_increasing (wm_flushed st)"
    "\<And>r. r \<in> set (wm_flushed st) \<Longrightarrow> 0 < extract_lsn r \<and> extract_lsn r < wm_next_lsn st"
    using assms(1) by (auto simp: wal_inv_def lsns_increasing_append list_all_iff)
  show "wal_open old junk (wm_dev st) = Done (wal_restored (wm_flushed st) (wm_dev st))"
    using d(1,2) assms(2) d(3) by (rule wal_open_holds [where m = "wm_next_lsn st"]) (simp add: d(4))
  show "wal_inv (wal_restored (wm_flushed st) (wm_dev st))"
    using d by (rule wal_inv_restored)
qed

lemma wal_reachable_inv: "wal_reachable st \<Longrightarrow> wal_inv st"
proof (induction rule: wal_reachable.induct)
  case (start d old junk st)
  then have "dev_open d 1" by (auto simp: wal_open_def Let_def split: if_splits)
  then show ?case using wal_inv_new [OF start(1), of old junk] start(2) by auto
next
  case (step st st')
  from step(2) show ?case
  proof (cases rule: wal_step.cases)
    case (step_append r)
    then show ?thesis using step.IH wal_inv_append by simp
  next
    case step_flush
    then show ?thesis using flush_ok [OF step.IH] by simp
  next
    case (step_restart old junk)
    then show ?thesis using wal_open_inv [OF step.IH] by simp
  qed
qed

section \<open>Properties\<close>

definition empty_device :: device where
  "empty_device = \<lparr>dev_files = [], dev_room = 1000000, dev_open = (\<lambda>_. True)\<rparr>"

definition wal_start :: wal_state where
  "wal_start = wal_restored [] \<lparr>dev_files = [(1, [])], dev_room = 1000000, dev_open = (\<lambda>_. True)\<rparr>"

definition sample_begin :: wal_record where
  "sample_begin = BeginTxnRecord \<lparr>h_lsn = 0, h_prev_lsn = 0, h_txn_id = 77\<rparr>"

definition wal_two :: wal_state where
  "wal_two = snd (append_log sample_update (snd (append_log sample_begin wal_start)))"

lemma wal_start_inv: "wal_inv wal_start"
  unfolding wal_start_def
  by (rule wal_inv_restored) (simp_all add: dev_holds_def file_content_def lsns_increasing_def)

lemma ok_sample_update: "ok_wal sample_update" "ok_wal sample_begin"
  by (simp_all add: sample_update_def sample_begin_def sample_simps)

lemma wal_two_inv: "wal_inv wal_two"
  unfolding wal_two_def
  by (intro wal_inv_append wal_start_inv ok_sample_update)
    (simp_all add: wal_start_def wal_restored_def append_log_def Let_def)

lemma length_frame_samples:
  "length (frame sample_begin) = 48" "length (frame (set_lsn x sample_begin)) = 48"
  "length (frame sample_update) = 212" "length (frame (set_lsn x sample_update)) = 212"
  by (simp_all add: frame_def sample_begin_def sample_update_def serialize_begin_txn_def
      serialize_update_def Let_def stream_simps length_serialize_dr length_serialize_dt sample_simps)

lemma wal_two_logs:
  "wm_flushed wal_two = []" "wm_dirty wal_two = [set_lsn 1 sample_begin, set_lsn 2 sample_update]"
  "wm_dev wal_two = wm_dev wal_start" "wm_flushed_lsn wal_two = 0" "wm_next_lsn wal_two = 3"
  by (simp_all add: wal_two_def append_log_def wal_start_def wal_restored_def Let_def)

lemma wal_two_flush: "fst (flush wal_two) = Done ()"
  by (rule flush_room) (simp_all add: wal_two_logs length_frame_samples wal_start_def wal_restored_def)



text \<open>C1: durability. If \<^verbatim>\<open>flush\<close> returns, then opening the log on the files it left, after any loss of
  memory, restores every record appended so far, in order, and a state that satisfies the invariant.\<close>

theorem wal_flush_durable:
  assumes "wal_inv st" and "flush st = (Done (), st')" and "wal_fits (read_all_logs st)"
  shows "\<exists>s. wal_open old junk (wm_dev st') = Done s \<and> read_all_logs s = read_all_logs st \<and> wal_inv s"
proof -
  have st': "wal_inv st'" "wm_flushed st' = read_all_logs st"
    using flush_ok [of st] assms(1,2) by (simp_all add: read_all_logs_def)
  then show ?thesis
    using wal_open_inv(1) [OF st'(1), of old junk] wal_open_inv(2) [OF st'(1)] assms(3) by (simp add: wal_restored_def read_all_logs_def)
qed

theorem wal_flush_durable_witness:
  "\<exists>s. wal_open 0 (\<lambda>_. 0) (wm_dev (snd (flush wal_two))) = Done s \<and>
     read_all_logs s = [set_lsn 1 sample_begin, set_lsn 2 sample_update] \<and> wal_inv s"
proof -
  have "flush wal_two = (Done (), snd (flush wal_two))"
    using wal_two_flush by (cases "flush wal_two") simp
  moreover have "wal_fits (read_all_logs wal_two)"
    by (simp add: wal_fits_def read_all_logs_def wal_two_logs length_frame_samples max_alloc_def)
  ultimately show ?thesis
    using wal_flush_durable [of wal_two "snd (flush wal_two)" 0 "\<lambda>_. 0"] wal_two_inv
    by (simp add: read_all_logs_def wal_two_logs)
qed

text \<open>C18: \<^verbatim>\<open>wait_for_durable\<close> of an LSN that was handed out ends, provided the device takes the dirty
  records; on return that LSN is durable, no record is lost and the invariant holds.\<close>

theorem wait_for_durable_returns:
  assumes "wal_inv st" and "lsn \<in> extract_lsn ` set (read_all_logs st)" and "fst (flush st) = Done ()"
  shows "\<exists>st'. wait_for_durable lsn st = Some (Done (), st') \<and> lsn \<le> wm_flushed_lsn st' \<and>
    read_all_logs st' = read_all_logs st \<and> wal_inv st'"
  using wait_durable_total [OF assms] by blast

theorem wait_for_durable_returns_witness:
  "\<exists>st'. wait_for_durable 2 wal_two = Some (Done (), st') \<and> 2 \<le> wm_flushed_lsn st' \<and>
     read_all_logs st' = [set_lsn 1 sample_begin, set_lsn 2 sample_update] \<and> wal_inv st'"
  using wait_for_durable_returns [of wal_two 2] wal_two_inv wal_two_flush
  by (simp add: read_all_logs_def wal_two_logs)

text \<open>\<^verbatim>\<open>wait_for_durable\<close> of an LSN that was never handed out does not return: with nothing left to
  flush its loop repeats forever.\<close>

theorem wait_for_durable_diverges:
  assumes "wal_inv st" and "wm_dirty st = []" and "wm_next_lsn st \<le> lsn"
  shows "wait_for_durable lsn st = None"
proof -
  have "wm_flushed_lsn st < lsn"
  proof (cases "wm_flushed st = []")
    case True
    then show ?thesis using assms by (auto simp: wal_inv_def)
  next
    case False
    then have "extract_lsn (last (wm_flushed st)) < wm_next_lsn st"
      using assms(1) by (auto simp: wal_inv_def list_all_iff)
    with False assms(1,3) show ?thesis by (simp add: wal_inv_def)
  qed
  then show ?thesis
    using wait_for_durable_stuck [of lsn st] assms(1,2)
    by (cases "wait_for_durable lsn st") (auto simp: wal_inv_def)
qed

theorem wait_for_durable_diverges_witness: "wait_for_durable 1 wal_start = None"
  using wait_for_durable_diverges [of wal_start 1] wal_start_inv
  by (simp add: wal_start_def wal_restored_def)

text \<open>\<^verbatim>\<open>append_log\<close> returns an LSN greater than every LSN in use, keeps the older records and
  the invariant, and \<^verbatim>\<open>read_log\<close> returns the new record under that LSN.\<close>

theorem append_log_fresh_readable:
  assumes "wal_inv st" and "ok_wal r" and "wm_next_lsn st + 1 \<noteq> 0" and "append_log r st = (lsn, st')"
  shows "(\<forall>q\<in>set (read_all_logs st). extract_lsn q < lsn) \<and>
    read_all_logs st' = read_all_logs st @ [set_lsn lsn r] \<and> read_log lsn st' = Done (set_lsn lsn r) \<and>
    (\<forall>q\<in>set (read_all_logs st). read_log (extract_lsn q) st' = Done q) \<and> wal_inv st'"
  using file_wal.append_fresh [OF assms(1), of _ r] file_wal.append_logs [OF assms(1), of r]
    file_wal.read_appended [OF assms(1,3,2)] file_wal.read_older [OF assms(1,3,2)]
    file_wal.append_inv [OF assms(1,3,2)] assms(4)
  by auto

theorem append_log_fresh_readable_witness:
  "read_log 2 wal_two = Done (set_lsn 2 sample_update) \<and> read_log 1 wal_two = Done (set_lsn 1 sample_begin)"
proof -
  let ?st = "snd (append_log sample_begin wal_start)"
  have "wal_inv ?st"
    by (intro wal_inv_append wal_start_inv ok_sample_update) (simp add: wal_start_def wal_restored_def)
  moreover have "append_log sample_update ?st = (2, wal_two)" "wm_next_lsn ?st + 1 \<noteq> 0"
    "read_all_logs ?st = [set_lsn 1 sample_begin]"
    by (simp_all add: wal_two_def append_log_def wal_start_def wal_restored_def Let_def read_all_logs_def)
  ultimately show ?thesis
    using append_log_fresh_readable [of ?st sample_update 2 wal_two] ok_sample_update by simp
qed

section \<open>Crashes inside a flush\<close>

lemma torn_content:
  assumes "dev_holds d rs" and "written d rs1 (Some (r, m)) d'" and "(k, c) \<in> set (dev_files d')"
  shows "c = frames (in_file k (rs @ rs1)) @
    (if file_first_lsn (extract_lsn r) = k then take m (frame r) else [])"
proof -
  have "c = file_content (dev_files d') k"
    using assms(1,2) by (intro file_content_entry assms(3)) (simp add: dev_holds_def written_def)
  with assms(1,2) show ?thesis by (simp add: dev_holds_def written_def)
qed

lemma torn_key:
  assumes "dev_holds d rs" and "written d rs1 (Some (r, m)) d'" and "q \<in> set (rs @ rs1)"
  shows "file_first_lsn (extract_lsn q) \<in> set (map fst (dev_files d'))"
proof (rule ccontr)
  let ?k = "file_first_lsn (extract_lsn q)"
  assume "?k \<notin> set (map fst (dev_files d'))"
  then have "file_content (dev_files d') ?k = []"
    by (simp add: file_content_def map_of_eq_None_iff [THEN iffD2])
  then have "frames (in_file ?k (rs @ rs1)) = []"
    using assms(1,2) by (simp add: dev_holds_def written_def)
  then have "frame q = []" using assms(3) by auto
  then show False using length_frame [of q] by simp
qed

lemma in_file_snoc_fits:
  assumes "wal_fits (rs @ r # rs2)" and "file_first_lsn (extract_lsn r) = k"
  shows "length (frames (in_file k rs) @ frame r) \<le> max_alloc"
  using assms frames_in_file_le [of k rs] by (simp add: wal_fits_def)

lemma wal_open_torn:
  assumes inv: "wal_inv st" and fits: "wal_fits (read_all_logs st)"
    and dirty: "wm_dirty st = rs1 @ r # rs2" and w: "written (wm_dev st) rs1 (Some (r, m)) d'"
    and torn: "\<not> torn_size old (take m (frame r))"
  shows "wal_open old junk d' = Done (wal_restored (wm_flushed st @ rs1) d')"
proof (rule wal_open_reads [where m = "wm_next_lsn st"])
  let ?rs = "wm_flushed st @ rs1"
  have holds: "dev_holds (wm_dev st) (wm_flushed st)" using inv by (simp add: wal_inv_def)
  have m: "m < length (frame r)" using w by (simp add: written_def)
  show "dev_files d' \<noteq> []" "distinct (map fst (dev_files d'))"
    using holds w by (simp_all add: dev_holds_def written_def)
  show "read_logs_from_file old junk c = Done (in_file k ?rs)" if "(k, c) \<in> set (dev_files d')" for k c
  proof -
    have ok: "list_all ok_wal (in_file k ?rs)"
      using inv dirty by (auto simp: wal_inv_def list_all_iff)
    have fits': "wal_fits (?rs @ r # rs2)"
      using fits dirty by (simp add: read_all_logs_def)
    show ?thesis
    proof (cases "file_first_lsn (extract_lsn r) = k")
      case True
      then show ?thesis
        using read_logs_from_file_torn [OF ok m in_file_snoc_fits [OF fits' True], of old junk]
          torn_content [OF holds w that] torn by simp
    next
      case False
      have "length (frames (in_file k ?rs)) \<le> max_alloc"
        using fits' frames_in_file_le [of k ?rs] by (simp add: wal_fits_def)
      then show ?thesis
        using read_logs_from_file_frames [OF ok, of old junk] torn_content [OF holds w that] False by simp
    qed
  qed
  show "file_first_lsn (extract_lsn q) \<in> set (map fst (dev_files d'))" if "q \<in> set ?rs" for q
    using holds w that by (rule torn_key)
  show "lsns_increasing ?rs" using inv dirty by (simp add: wal_inv_def lsns_increasing_append)
  show "extract_lsn q < wm_next_lsn st" if "q \<in> set ?rs" for q
    using that inv dirty by (auto simp: wal_inv_def list_all_iff)
qed

lemma read_files_raise:
  assumes "\<And>k c. (k, c) \<in> set fs \<Longrightarrow> read_logs_from_file old junk c = (if k = k0 then Raised e else Done (f k))"
    and "k0 \<in> set (map fst fs)"
  shows "read_files old junk fs = Raised e"
  using assms
proof (induction fs)
  case (Cons a fs)
  obtain k c where a: "a = (k, c)" by (cases a)
  have "read_logs_from_file old junk c = (if k = k0 then Raised e else Done (f k))"
    using Cons.prems(1) a by simp
  moreover have "read_files old junk fs = Raised e" if "k \<noteq> k0"
    using that Cons.prems a by (intro Cons.IH) auto
  ultimately show ?case by (cases "k = k0") (simp_all add: a)
qed simp

lemma wal_open_torn_size:
  assumes inv: "wal_inv st" and fits: "wal_fits (read_all_logs st)"
    and dirty: "wm_dirty st = rs1 @ r # rs2" and w: "written (wm_dev st) rs1 (Some (r, m)) d'"
    and torn: "torn_size old (take m (frame r))"
  shows "wal_open old junk d' =
    Raised (RuntimeError ''FileWalManager::read_logs_from_file: failed to deserialize a record'')"
    (is "_ = Raised ?e")
proof -
  let ?rs = "wm_flushed st @ rs1" and ?k = "file_first_lsn (extract_lsn r)"
  have holds: "dev_holds (wm_dev st) (wm_flushed st)" using inv by (simp add: wal_inv_def)
  have m: "m < length (frame r)" using w by (simp add: written_def)
  have fits': "wal_fits (?rs @ r # rs2)"
    using fits dirty by (simp add: read_all_logs_def)
  have read: "read_logs_from_file old junk c = (if k = ?k then Raised ?e else Done (in_file k ?rs))"
    if "(k, c) \<in> set (dev_files d')" for k c
  proof -
    have ok: "list_all ok_wal (in_file k ?rs)"
      using inv dirty by (auto simp: wal_inv_def list_all_iff)
    have "length (frames (in_file k ?rs)) \<le> max_alloc"
      using fits' frames_in_file_le [of k ?rs] by (simp add: wal_fits_def)
    then show ?thesis
      using read_logs_from_file_torn [OF ok m, of old junk] in_file_snoc_fits [OF fits', of k]
        read_logs_from_file_frames [OF ok, of old junk] torn_content [OF holds w that] torn
      by (cases "k = ?k") simp_all
  qed
  have key: "?k \<in> set (map fst (dev_files d'))"
  proof (rule ccontr)
    assume "?k \<notin> set (map fst (dev_files d'))"
    then have "file_content (dev_files d') ?k = []"
      by (simp add: file_content_def map_of_eq_None_iff [THEN iffD2])
    then show False using holds w torn by (simp add: dev_holds_def written_def torn_size_def)
  qed
  have "read_files old junk (sort_key fst (dev_files d')) = Raised ?e"
    using read key by (intro read_files_raise [where f = "\<lambda>k. in_file k ?rs" and ?k0.0 = ?k]) simp_all
  moreover have "dev_files d' \<noteq> []" using holds w by (simp add: dev_holds_def written_def)
  ultimately show ?thesis by (simp add: wal_open_def hydrate_cache_def Let_def)
qed

text \<open>C2: crash safety. If a flush breaks off, because a write comes back short or the process dies in the
  middle of it, the log opened on what reached the files consists of all records flushed before and the
  part of the batch before the record that was being written; only if the file ends inside the eight bytes of
  a record size, and these bytes completed by the uninitialised rest of the variable read as zero,
  opening the log throws.\<close>

theorem wal_crash_prefix:
  assumes "wal_inv st" and "wal_fits (read_all_logs st)" and "flush st = (res, st')" and "res \<noteq> Done ()"
  shows "\<exists>n<length (wm_dirty st). \<exists>m<length (frame (wm_dirty st ! n)).
    wal_open old junk (wm_dev st') =
      (if torn_size old (take m (frame (wm_dirty st ! n)))
       then Raised (RuntimeError ''FileWalManager::read_logs_from_file: failed to deserialize a record'')
       else Done (wal_restored (wm_flushed st @ take n (wm_dirty st)) (wm_dev st')))"
proof (cases st rule: flush_cases)
  case empty
  then show ?thesis using assms(3,4) by simp
next
  case (ok d')
  then show ?thesis using assms(3,4) by simp
next
  case (fail e d' rs1 r m rs2)
  then have dev: "wm_dev st' = d'" using assms(3) by auto
  have m: "m < length (frame r)" using fail(3) by (simp add: written_def)
  have n: "length rs1 < length (wm_dirty st)" "wm_dirty st ! length rs1 = r"
    "take (length rs1) (wm_dirty st) = rs1"
    using fail(2) by simp_all
  have "wal_open old junk (wm_dev st') =
      (if torn_size old (take m (frame r))
       then Raised (RuntimeError ''FileWalManager::read_logs_from_file: failed to deserialize a record'')
       else Done (wal_restored (wm_flushed st @ rs1) d'))"
    using wal_open_torn [OF assms(1,2) fail(2,3)] wal_open_torn_size [OF assms(1,2) fail(2,3)] dev by simp
  then show ?thesis using n m dev
    by (intro exI [of _ "length rs1"], intro conjI, simp, intro exI [of _ m]) simp_all
qed

definition wal_full :: wal_state where
  "wal_full = wal_two\<lparr>wm_dev := (wm_dev wal_two)\<lparr>dev_room := 100\<rparr>\<rparr>"

lemma wal_full_facts: "wal_inv wal_full" "fst (flush wal_full) \<noteq> Done ()" "wal_fits (read_all_logs wal_full)"
proof -
  show "wal_inv wal_full"
    using wal_two_inv by (simp add: wal_inv_def wal_full_def dev_holds_def)
  show "fst (flush wal_full) \<noteq> Done ()"
    by (simp add: flush_def wal_full_def wal_two_logs write_logs_Cons length_frame_samples Let_def
        wal_start_def wal_restored_def)
  show "wal_fits (read_all_logs wal_full)"
    by (simp add: wal_fits_def wal_full_def read_all_logs_def wal_two_logs length_frame_samples max_alloc_def)
qed

theorem wal_crash_prefix_witness:
  "\<exists>n<2. \<exists>m<length (frame (wm_dirty wal_full ! n)).
    wal_open 0 (\<lambda>_. 0) (wm_dev (snd (flush wal_full))) =
      (if torn_size 0 (take m (frame (wm_dirty wal_full ! n)))
       then Raised (RuntimeError ''FileWalManager::read_logs_from_file: failed to deserialize a record'')
       else Done (wal_restored (wm_flushed wal_full @ take n (wm_dirty wal_full)) (wm_dev (snd (flush wal_full)))))"
  using wal_crash_prefix [OF wal_full_facts(1,3), of "fst (flush wal_full)" "snd (flush wal_full)" 0 "\<lambda>_. 0"]
    wal_full_facts(2) by (simp add: wal_full_def wal_two_logs numeral_2_eq_2)

text \<open>
  A torn record is not cut off at start-up: records flushed later go behind it, where they cannot be told
  from its missing bytes.
\<close>

lemma ms_size_ge: "40 \<le> ms_size (wal_serialize r)"
proof -
  have "40 \<le> length (ms_buffer (wal_serialize r))"
    by (cases r) (simp_all add: wal_serialize_defs Let_def stream_simps)
  then show ?thesis by (simp add: ms_size_def)
qed

lemma wal_case_unknown: "25 < type \<Longrightarrow> wal_case junk type = rfail"
  unfolding wal_case_def by (auto simp: word_less_nat_alt)

lemma wal_deserialize_unknown:
  assumes "length (pre @ le_bytes 8 c @ post) \<le> max_alloc" and "25 < (c :: u64)"
  shows "wal_deserialize junk \<lparr>ro_buffer = pre @ le_bytes 8 c @ post, ro_position = length pre\<rparr> = Failed"
  using consumesD [OF consumes_some_u64 [of "junk 0" c] assms(1)] wal_case_unknown [OF assms(2)]
  by (simp add: wal_deserialize_def rbind_def rfail_def)



text \<open>The file an LSN is logged to is the one whose range of 1000 LSNs contains it.\<close>

theorem file_range:
  assumes "0 < lsn"
  shows "unat (file_first_lsn lsn) \<le> unat lsn \<and> unat lsn < unat (file_first_lsn lsn) + 1000 \<and>
    unat (file_first_lsn lsn) mod 1000 = 1"
proof -
  define n where "n = unat (lsn - 1)"
  have n: "unat lsn = n + 1" using assms unfolding n_def by unat_arith
  have bound: "n + 1 < 2 ^ 64" using n unsigned_less [of lsn, where 'a = nat] by simp
  have "unat ((lsn - 1) div 1000) = n div 1000" by (simp add: unat_div n_def)
  moreover have "n div 1000 * 1000 \<le> n" by simp
  ultimately have "unat ((lsn - 1) div 1000 * 1000) = n div 1000 * 1000"
    using bound by (subst unat_mult_lem [THEN iffD1]) simp_all
  moreover from this have "unat (file_first_lsn lsn) = n div 1000 * 1000 + 1"
    using bound \<open>n div 1000 * 1000 \<le> n\<close> unfolding file_first_lsn_def MAX_RECORDS_PER_LOGFILE_def
    by (subst unat_add_lem [THEN iffD1]) simp_all
  moreover have "n < n div 1000 * 1000 + 1000"
    using div_mult_mod_eq [of n 1000] mod_less_divisor [of 1000 n] by linarith
  moreover have "(n div 1000 * 1000 + 1) mod 1000 = 1" by (simp only: mod_mult_self3) simp
  ultimately show ?thesis using n by simp
qed

theorem file_range_witness: "unat (file_first_lsn 2500) \<le> 2500 \<and> 2500 < unat (file_first_lsn 2500) + 1000"
  using file_range [of 2500] by simp

end
