(* ===== verification/Transaction.thy ===== *)
theory Transaction
  imports Wal_Manager Buffer_Pool
begin

text \<open>
  Transactions, \<^verbatim>\<open>transactions/transaction.cpp\<close> and \<^verbatim>\<open>transactions/transaction_manager.cpp\<close>: every record a
  transaction logs carries its identifier and the LSN of its previous record; committing logs a commit record, waits
  until it is durable and then writes back the dirty pages up to its LSN.
\<close>

section \<open>Operations\<close>

datatype transaction_state = TX_IDLE | TX_ACTIVE | TX_COMMITTED | TX_ABORTED

record transaction =
  tx_id :: uuid
  tx_state :: transaction_state
  tx_last_lsn :: lsn

text \<open>\<open>new_id\<close> is the identifier of \<^verbatim>\<open>TxnId::make()\<close>.\<close>

definition make_transaction :: "uuid \<Rightarrow> transaction" where
  "make_transaction new_id = \<lparr>tx_id = new_id, tx_state = TX_IDLE, tx_last_lsn = 0\<rparr>"

definition txn_begin :: "transaction \<Rightarrow> wal_state \<Rightarrow> (transaction \<times> wal_state) outcome" where
  "txn_begin tx wal =
     (if tx_state tx \<noteq> TX_IDLE then Raised (RuntimeError ''Transaction::begin: transaction state not idle'')
      else
        let record = BeginTxnRecord \<lparr>h_lsn = 0, h_prev_lsn = tx_last_lsn tx, h_txn_id = tx_id tx\<rparr>;
            (lsn, wal) = append_log record wal
        in Done (tx\<lparr>tx_last_lsn := lsn, tx_state := TX_ACTIVE\<rparr>, wal))"

definition txn_append_log :: "wal_record \<Rightarrow> transaction \<Rightarrow> wal_state \<Rightarrow> (transaction \<times> wal_state) outcome" where
  "txn_append_log record tx wal =
     (if tx_state tx \<noteq> TX_ACTIVE then Raised (RuntimeError ''Transaction::append_log: transaction state not active'')
      else
        let record_with_txn_id = set_prev_lsn (tx_last_lsn tx) (set_txn_id (tx_id tx) record);
            (lsn, wal) = append_log record_with_txn_id wal
        in Done (tx\<lparr>tx_last_lsn := lsn\<rparr>, wal))"

text \<open>\<open>None\<close>: waiting for durability does not return.\<close>

definition txn_commit ::
    "transaction \<Rightarrow> wal_state \<Rightarrow> buffer_pool \<Rightarrow> (transaction \<times> wal_state \<times> buffer_pool) outcome option" where
  "txn_commit tx wal bp =
     (if tx_state tx \<noteq> TX_ACTIVE
      then Some (Raised (RuntimeError ''Transaction::commit: transaction state not active''))
      else
        let commit_record = CommitTxnRecord \<lparr>h_lsn = 0, h_prev_lsn = tx_last_lsn tx, h_txn_id = tx_id tx\<rparr>;
            (lsn, wal) = append_log commit_record wal
        in (case wait_for_durable lsn wal of
              None \<Rightarrow> None
            | Some (res, wal) \<Rightarrow>
                Some (obind res (\<lambda>_. obind (flush_dirty_upto lsn bp) (\<lambda>bp.
                  Done (tx\<lparr>tx_last_lsn := lsn, tx_state := TX_COMMITTED\<rparr>, wal, bp))))))"

section \<open>Chains of records\<close>

text \<open>The records of one transaction in the order of the log, each naming its predecessor; \<open>p\<close> precedes the first.\<close>

fun linked :: "lsn \<Rightarrow> wal_record list \<Rightarrow> bool" where
  "linked p [] = True"
| "linked p (r # rs) = (extract_prev_lsn r = p \<and> linked (extract_lsn r) rs)"

fun last_lsn_of :: "lsn \<Rightarrow> wal_record list \<Rightarrow> lsn" where
  "last_lsn_of p [] = p"
| "last_lsn_of p (r # rs) = last_lsn_of (extract_lsn r) rs"

definition txn_records :: "uuid \<Rightarrow> wal_state \<Rightarrow> wal_record list" where
  "txn_records t wal = filter (\<lambda>r. extract_txn_id r = t) (read_all_logs wal)"

definition txn_ok :: "wal_state \<Rightarrow> transaction \<Rightarrow> bool" where
  "txn_ok wal tx \<longleftrightarrow> linked 0 (txn_records (tx_id tx) wal) \<and>
     last_lsn_of 0 (txn_records (tx_id tx) wal) = tx_last_lsn tx \<and>
     (tx_state tx = TX_IDLE \<longrightarrow> txn_records (tx_id tx) wal = []) \<and>
     (tx_state tx \<noteq> TX_IDLE \<longrightarrow> (\<exists>b rs. txn_records (tx_id tx) wal = BeginTxnRecord b # rs))"

lemma linked_snoc: "linked p (rs @ [r]) \<longleftrightarrow> linked p rs \<and> extract_prev_lsn r = last_lsn_of p rs"
  by (induction rs arbitrary: p) auto

lemma last_lsn_of_snoc [simp]: "last_lsn_of p (rs @ [r]) = extract_lsn r"
  by (induction rs arbitrary: p) auto

lemma txn_records_append:
  assumes "wal_inv wal" and "append_log r wal = (lsn, wal')"
  shows "txn_records t wal' = txn_records t wal @ (if extract_txn_id r = t then [set_lsn lsn r] else [])"
  using file_wal.append_logs [OF assms(1), of r] assms(2) by (simp add: txn_records_def)

text \<open>What the operations do to the log: one record, with the identifier and the predecessor of the transaction.\<close>

lemma txn_begin_Done:
  assumes "txn_begin tx wal = Done (tx', wal')"
  obtains r lsn where "append_log r wal = (lsn, wal')" and "extract_prev_lsn r = tx_last_lsn tx"
    and "extract_txn_id r = tx_id tx" and "ok_wal r" and "tx_state tx = TX_IDLE"
    and "tx' = tx\<lparr>tx_last_lsn := lsn, tx_state := TX_ACTIVE\<rparr>" and "\<exists>b. set_lsn lsn r = BeginTxnRecord b"
proof -
  let ?r = "BeginTxnRecord \<lparr>h_lsn = 0, h_prev_lsn = tx_last_lsn tx, h_txn_id = tx_id tx\<rparr>"
  obtain lsn where "append_log ?r wal = (lsn, wal')" "tx' = tx\<lparr>tx_last_lsn := lsn, tx_state := TX_ACTIVE\<rparr>" "tx_state tx = TX_IDLE"
    using assms by (auto simp: txn_begin_def split: prod.splits if_splits)
  then show thesis by (intro that [of ?r lsn]) simp_all
qed

lemma txn_append_log_Done:
  assumes "txn_append_log record tx wal = Done (tx', wal')" and "ok_wal record"
  obtains r lsn where "append_log r wal = (lsn, wal')" and "extract_prev_lsn r = tx_last_lsn tx"
    and "extract_txn_id r = tx_id tx" and "ok_wal r" and "tx_state tx = TX_ACTIVE" and "tx' = tx\<lparr>tx_last_lsn := lsn\<rparr>"
proof -
  let ?r = "set_prev_lsn (tx_last_lsn tx) (set_txn_id (tx_id tx) record)"
  obtain lsn where "append_log ?r wal = (lsn, wal')" "tx' = tx\<lparr>tx_last_lsn := lsn\<rparr>" "tx_state tx = TX_ACTIVE"
    using assms(1) by (auto simp: txn_append_log_def split: prod.splits if_splits)
  moreover have "ok_wal ?r" using assms(2) by (cases "record") simp_all
  ultimately show thesis by (intro that [of ?r lsn]) simp_all
qed

lemma txn_ok_append:
  assumes "wal_inv wal" and "append_log r wal = (lsn, wal')" and "txn_ok wal tx"
    and "extract_txn_id r = tx_id tx" and "extract_prev_lsn r = tx_last_lsn tx"
    and "tx_state tx = TX_IDLE \<Longrightarrow> \<exists>b. set_lsn lsn r = BeginTxnRecord b"
    and "tx_id tx' = tx_id tx" and "tx_last_lsn tx' = lsn" and "tx_state tx' \<noteq> TX_IDLE"
  shows "txn_ok wal' tx'"
  using assms(3-9) txn_records_append [OF assms(1,2), of "tx_id tx"]
  by (cases "tx_state tx = TX_IDLE") (auto simp: txn_ok_def linked_snoc)

lemma txn_ok_other:
  assumes "wal_inv wal" and "append_log r wal = (lsn, wal')" and "txn_ok wal tx" and "extract_txn_id r \<noteq> tx_id tx"
  shows "txn_ok wal' tx"
  using assms(3,4) txn_records_append [OF assms(1,2), of "tx_id tx"] by (simp add: txn_ok_def)

section \<open>Interleaved transactions\<close>

text \<open>
  The system: one log, one pool and the transactions made so far. Identifiers of \<^verbatim>\<open>TxnId::make()\<close> are fresh, LSNs do
  not run out, and calls that throw are not steps.
\<close>

record txn_sys =
  ts_wal :: wal_state
  ts_bp :: buffer_pool
  ts_txns :: "uuid \<rightharpoonup> transaction"

inductive txn_step :: "txn_sys \<Rightarrow> txn_sys \<Rightarrow> bool" where
  step_make: "ts_txns st t = None \<Longrightarrow> txn_records t (ts_wal st) = [] \<Longrightarrow>
    txn_step st (st\<lparr>ts_txns := (ts_txns st)(t \<mapsto> make_transaction t)\<rparr>)"
| step_begin: "ts_txns st t = Some tx \<Longrightarrow> wm_next_lsn (ts_wal st) + 1 \<noteq> 0 \<Longrightarrow>
    txn_begin tx (ts_wal st) = Done (tx', wal) \<Longrightarrow>
    txn_step st (st\<lparr>ts_wal := wal, ts_txns := (ts_txns st)(t \<mapsto> tx')\<rparr>)"
| step_log: "ts_txns st t = Some tx \<Longrightarrow> wm_next_lsn (ts_wal st) + 1 \<noteq> 0 \<Longrightarrow> ok_wal r \<Longrightarrow>
    txn_append_log r tx (ts_wal st) = Done (tx', wal) \<Longrightarrow>
    txn_step st (st\<lparr>ts_wal := wal, ts_txns := (ts_txns st)(t \<mapsto> tx')\<rparr>)"
| step_commit: "ts_txns st t = Some tx \<Longrightarrow> wm_next_lsn (ts_wal st) + 1 \<noteq> 0 \<Longrightarrow>
    txn_commit tx (ts_wal st) (ts_bp st) = Some (Done (tx', wal, bp)) \<Longrightarrow>
    txn_step st (st\<lparr>ts_wal := wal, ts_bp := bp, ts_txns := (ts_txns st)(t \<mapsto> tx')\<rparr>)"
| step_sync: "flush (ts_wal st) = (Done (), wal) \<Longrightarrow> txn_step st (st\<lparr>ts_wal := wal\<rparr>)"

inductive txn_reachable :: "txn_sys \<Rightarrow> txn_sys \<Rightarrow> bool" for init where
  txn_start: "txn_reachable init init"
| txn_next: "txn_reachable init st \<Longrightarrow> txn_step st st' \<Longrightarrow> txn_reachable init st'"

definition txn_sys_ok :: "txn_sys \<Rightarrow> bool" where
  "txn_sys_ok st \<longleftrightarrow> wal_inv (ts_wal st) \<and> (\<forall>t tx. ts_txns st t = Some tx \<longrightarrow> tx_id tx = t \<and> txn_ok (ts_wal st) tx)"

lemma wait_durable_Done:
  assumes "wal_inv wal" and "lsn \<in> extract_lsn ` set (read_all_logs wal)" and "wait_for_durable lsn wal = Some (Done u, wal')"
  shows "wal_inv wal' \<and> read_all_logs wal' = read_all_logs wal \<and> lsn \<le> wm_flushed_lsn wal'"
proof (cases "fst (flush wal) = Done ()")
  case True
  with wait_durable_total [OF assms(1,2)] assms(3) show ?thesis by auto
next
  case False
  have "\<not> wm_flushed_lsn wal < lsn"
  proof
    assume "wm_flushed_lsn wal < lsn"
    moreover have "\<not> wm_flush_in_progress wal" using assms(1) by (simp add: wal_inv_def)
    moreover obtain e w where "flush wal = (e, w)" "e \<noteq> Done ()" using False by (cases "flush wal") auto
    ultimately show False
      using assms(3) by (subst (asm) wait_for_durable.simps) (auto simp: flush_progress_flag split: outcome.splits)
  qed
  then show ?thesis using assms(1,3) by (subst (asm) wait_for_durable.simps) simp
qed

lemma txn_commit_Done:
  assumes "txn_commit tx wal bp = Some (Done (tx', wal', bp'))"
  obtains r lsn wal1 where "append_log r wal = (lsn, wal1)" and "extract_prev_lsn r = tx_last_lsn tx"
    and "extract_txn_id r = tx_id tx" and "ok_wal r" and "tx_state tx = TX_ACTIVE"
    and "tx' = tx\<lparr>tx_last_lsn := lsn, tx_state := TX_COMMITTED\<rparr>" and "wait_for_durable lsn wal1 = Some (Done (), wal')"
    and "flush_dirty_upto lsn bp = Done bp'" and "r = CommitTxnRecord \<lparr>h_lsn = 0, h_prev_lsn = tx_last_lsn tx, h_txn_id = tx_id tx\<rparr>"
proof -
  let ?r = "CommitTxnRecord \<lparr>h_lsn = 0, h_prev_lsn = tx_last_lsn tx, h_txn_id = tx_id tx\<rparr>"
  obtain lsn wal1 where a: "append_log ?r wal = (lsn, wal1)" by (cases "append_log ?r wal")
  have act: "tx_state tx = TX_ACTIVE" using assms by (auto simp: txn_commit_def split: if_splits)
  with assms a obtain u w where "wait_for_durable lsn wal1 = Some (Done u, w)" "flush_dirty_upto lsn bp = Done bp'"
    "tx' = tx\<lparr>tx_last_lsn := lsn, tx_state := TX_COMMITTED\<rparr>" "wal' = w"
    by (auto simp: txn_commit_def obind_Done_conv split: option.splits)
  then show thesis using a act by (intro that [of ?r lsn wal1]) simp_all
qed

lemma txn_records_cong: "read_all_logs wal' = read_all_logs wal \<Longrightarrow> txn_records t wal' = txn_records t wal"
  by (simp add: txn_records_def)

lemma txn_ok_cong: "read_all_logs wal' = read_all_logs wal \<Longrightarrow> txn_ok wal' tx = txn_ok wal tx"
  by (simp add: txn_ok_def txn_records_def)

text \<open>One record logged for \<open>t\<close>, the common part of beginning, logging and committing.\<close>

lemma txn_sys_ok_logged:
  assumes "txn_sys_ok st" and "ts_txns st t = Some tx" and "wm_next_lsn (ts_wal st) + 1 \<noteq> 0"
    and "append_log r (ts_wal st) = (lsn, wal)" and "ok_wal r" and "extract_txn_id r = tx_id tx"
    and "extract_prev_lsn r = tx_last_lsn tx" and "tx_state tx = TX_IDLE \<Longrightarrow> \<exists>b. set_lsn lsn r = BeginTxnRecord b"
    and "tx_id tx' = tx_id tx" and "tx_last_lsn tx' = lsn" and "tx_state tx' \<noteq> TX_IDLE"
    and "ts_wal st' = wal" and "ts_txns st' = (ts_txns st)(t \<mapsto> tx')"
  shows "txn_sys_ok st'"
proof -
  have inv: "wal_inv (ts_wal st)" and tx: "tx_id tx = t" "txn_ok (ts_wal st) tx"
    using assms(1,2) by (auto simp: txn_sys_ok_def)
  have "wal_inv wal" using wal_inv_append [OF inv assms(5,3)] assms(4) by simp
  moreover have "txn_ok wal tx'" using txn_ok_append [OF inv assms(4) tx(2) assms(6,7,8,9,10,11)] .
  moreover have "txn_ok wal ty \<and> tx_id ty = u" if "u \<noteq> t" "ts_txns st u = Some ty" for u ty
    using that assms(1,6) tx(1) txn_ok_other [OF inv assms(4), of ty] by (auto simp: txn_sys_ok_def)
  ultimately show ?thesis using assms(9,12,13) tx(1) by (auto simp: txn_sys_ok_def)
qed

lemma txn_sys_ok_cong:
  assumes "txn_sys_ok st" and "wal_inv (ts_wal st')" and "read_all_logs (ts_wal st') = read_all_logs (ts_wal st)"
    and "ts_txns st' = ts_txns st"
  shows "txn_sys_ok st'"
  using assms(1,2) unfolding txn_sys_ok_def assms(4) txn_ok_cong [OF assms(3)] by blast

lemma txn_step_ok:
  assumes "txn_sys_ok st" and "txn_step st st'"
  shows "txn_sys_ok st'"
  using assms(2)
proof cases
  case (step_make t)
  then show ?thesis using assms(1) by (auto simp: txn_sys_ok_def txn_ok_def make_transaction_def)
next
  case (step_begin t tx tx' wal)
  obtain r lsn where r: "append_log r (ts_wal st) = (lsn, wal)" "extract_prev_lsn r = tx_last_lsn tx"
    "extract_txn_id r = tx_id tx" "ok_wal r" "tx' = tx\<lparr>tx_last_lsn := lsn, tx_state := TX_ACTIVE\<rparr>" "\<exists>b. set_lsn lsn r = BeginTxnRecord b"
    using txn_begin_Done [OF step_begin(4)] by metis
  show ?thesis
    by (rule txn_sys_ok_logged [OF assms(1) step_begin(2,3) r(1,4,3,2)]) (use r step_begin in simp_all)
next
  case (step_log t tx r' tx' wal)
  obtain r lsn where r: "append_log r (ts_wal st) = (lsn, wal)" "extract_prev_lsn r = tx_last_lsn tx"
    "extract_txn_id r = tx_id tx" "ok_wal r" "tx_state tx = TX_ACTIVE" "tx' = tx\<lparr>tx_last_lsn := lsn\<rparr>"
    using txn_append_log_Done [OF step_log(5,4)] by metis
  show ?thesis
    by (rule txn_sys_ok_logged [OF assms(1) step_log(2,3) r(1,4,3,2)]) (use r step_log in simp_all)
next
  case (step_commit t tx tx' wal bp)
  obtain r lsn wal1 where r: "append_log r (ts_wal st) = (lsn, wal1)" "extract_prev_lsn r = tx_last_lsn tx"
    "extract_txn_id r = tx_id tx" "ok_wal r" "tx_state tx = TX_ACTIVE"
    "tx' = tx\<lparr>tx_last_lsn := lsn, tx_state := TX_COMMITTED\<rparr>" "wait_for_durable lsn wal1 = Some (Done (), wal)"
    using txn_commit_Done [OF step_commit(4)] by metis
  let ?st1 = "st\<lparr>ts_wal := wal1, ts_txns := (ts_txns st)(t \<mapsto> tx')\<rparr>"
  have ok: "txn_sys_ok ?st1"
    by (rule txn_sys_ok_logged [OF assms(1) step_commit(2,3) r(1,4,3,2)]) (use r in simp_all)
  have inv: "wal_inv (ts_wal st)" using assms(1) by (simp add: txn_sys_ok_def)
  have "lsn \<in> extract_lsn ` set (read_all_logs wal1)"
    using file_wal.append_logs [OF inv, of r] r(1) by simp
  moreover have "wal_inv wal1" using ok by (simp add: txn_sys_ok_def)
  ultimately have "wal_inv wal" "read_all_logs wal = read_all_logs wal1" using wait_durable_Done [OF _ _ r(7)] by blast+
  then show ?thesis by (intro txn_sys_ok_cong [OF ok]) (simp_all add: step_commit(1))
next
  case (step_sync wal)
  have inv: "wal_inv (ts_wal st)" using assms(1) by (simp add: txn_sys_ok_def)
  from flush_ok [OF this] step_sync(2) have "wal_inv wal" "read_all_logs wal = read_all_logs (ts_wal st)"
    by (simp_all add: read_all_logs_def)
  then show ?thesis by (intro txn_sys_ok_cong [OF assms(1)]) (simp_all add: step_sync(1))
qed

lemma txn_reachable_ok: "txn_reachable init st \<Longrightarrow> txn_sys_ok init \<Longrightarrow> txn_sys_ok st"
  by (induction rule: txn_reachable.induct) (auto intro: txn_step_ok)

section \<open>Commit\<close>

lemma all_flushed:
  assumes "wal_inv wal" and "read_all_logs wal = rs @ [r]" and "extract_lsn r \<le> wm_flushed_lsn wal"
  shows "wm_dirty wal = []" and "wm_flushed wal = rs @ [r]"
proof -
  show d: "wm_dirty wal = []"
  proof (rule ccontr)
    assume ne: "wm_dirty wal \<noteq> []"
    have "last (read_all_logs wal) = last (wm_dirty wal)" using ne by (simp add: read_all_logs_def)
    then have r: "last (wm_dirty wal) = r" using assms(2) by simp
    show False
    proof (cases "wm_flushed wal = []")
      case True
      then have "wm_flushed_lsn wal = 0" using assms(1) by (simp add: wal_inv_def)
      moreover have "0 < extract_lsn r" using assms(1) ne r last_in_set [OF ne] by (auto simp: wal_inv_def list_all_iff)
      ultimately show False using assms(3) by simp
    next
      case False
      then have "wm_flushed_lsn wal = extract_lsn (last (wm_flushed wal))" using assms(1) by (simp add: wal_inv_def)
      moreover have "extract_lsn (last (wm_flushed wal)) < extract_lsn r"
        using assms(1) False ne r last_in_set [OF ne] by (auto simp: wal_inv_def lsns_increasing_append)
      ultimately show False using assms(3) by simp
    qed
  qed
  show "wm_flushed wal = rs @ [r]" using assms(2) d by (simp add: read_all_logs_def)
qed

section \<open>Properties\<close>

text \<open>C8: however the operations of any number of transactions and flushes are interleaved, the records of each
  transaction form one chain in the log: the first is its begin record with previous LSN 0, every other names the
  record the transaction logged before it, and \<^verbatim>\<open>last_lsn_\<close> is the LSN of the last.\<close>

theorem txn_chain_invariant:
  assumes "txn_reachable init st" and "wal_inv (ts_wal init)" and "ts_txns init = Map.empty"
  shows "wal_inv (ts_wal st) \<and> (\<forall>t tx. ts_txns st t = Some tx \<longrightarrow>
    linked 0 (txn_records t (ts_wal st)) \<and> last_lsn_of 0 (txn_records t (ts_wal st)) = tx_last_lsn tx \<and>
    (tx_state tx \<noteq> TX_IDLE \<longrightarrow> (\<exists>b rs. txn_records t (ts_wal st) = BeginTxnRecord b # rs)))"
proof -
  have "txn_sys_ok init" using assms(2,3) by (simp add: txn_sys_ok_def)
  from txn_reachable_ok [OF assms(1) this] show ?thesis by (auto simp: txn_sys_ok_def txn_ok_def)
qed

definition sample_tx :: transaction where
  "sample_tx = \<lparr>tx_id = 8, tx_state = TX_ACTIVE, tx_last_lsn = 1\<rparr>"

definition sample_wal :: wal_state where
  "sample_wal = snd (append_log (BeginTxnRecord \<lparr>h_lsn = 0, h_prev_lsn = 0, h_txn_id = 8\<rparr>) wal_start)"

definition sample_sys :: "wal_state \<Rightarrow> txn_sys" where
  "sample_sys wal = \<lparr>ts_wal = wal, ts_bp = sample_pool sample_io, ts_txns = Map.empty\<rparr>"

lemma sample_wal_inv: "wal_inv sample_wal"
  unfolding sample_wal_def
  by (rule wal_inv_append [OF wal_start_inv]) (simp_all add: wal_start_def wal_restored_def)

theorem txn_chain_invariant_witness:
  "\<exists>st tx. txn_reachable (sample_sys wal_start) st \<and> ts_txns st 8 = Some tx \<and>
    linked 0 (txn_records 8 (ts_wal st)) \<and> last_lsn_of 0 (txn_records 8 (ts_wal st)) = tx_last_lsn tx"
proof -
  let ?st0 = "sample_sys wal_start"
  let ?st1 = "?st0\<lparr>ts_txns := (ts_txns ?st0)(8 \<mapsto> make_transaction 8)\<rparr>"
  let ?st2 = "?st1\<lparr>ts_wal := sample_wal, ts_txns := (ts_txns ?st1)(8 \<mapsto> sample_tx)\<rparr>"
  have "txn_step ?st0 ?st1"
    by (rule step_make) (simp_all add: sample_sys_def txn_records_def read_all_logs_def wal_start_def wal_restored_def)
  moreover have "txn_step ?st1 ?st2"
    by (rule step_begin [of _ 8 "make_transaction 8"])
      (simp_all add: sample_sys_def wal_start_def wal_restored_def txn_begin_def make_transaction_def sample_wal_def
        sample_tx_def append_log_def)
  ultimately have "txn_reachable ?st0 ?st2" by (meson txn_reachable.intros)
  moreover have "wal_inv (ts_wal ?st0)" "ts_txns ?st0 = Map.empty" using wal_start_inv by (simp_all add: sample_sys_def)
  ultimately show ?thesis using txn_chain_invariant [of ?st0 ?st2] by (intro exI [of _ ?st2] exI [of _ sample_tx]) simp
qed

text \<open>C7: committing an active transaction returns when the log device takes the pending records, and then survives
  any loss of memory: opening the log again finds all records of the transaction followed by its commit record, and
  every page whose last change is covered by the commit is on disk as the readers of the pool see it.\<close>

theorem txn_commit_durable:
  assumes "wal_inv wal" and "tx_state tx = TX_ACTIVE" and "wm_next_lsn wal + 1 \<noteq> 0"
    and "append_log (CommitTxnRecord \<lparr>h_lsn = 0, h_prev_lsn = tx_last_lsn tx, h_txn_id = tx_id tx\<rparr>) wal = (lsn, wal1)"
    and "fst (flush wal1) = Done ()" and "wal_fits (read_all_logs wal1)"
    and "pool_ok (bp_data_pages bp) (bp_io bp)"
    and "\<forall>(k, e) \<in> set (ca_map (bp_index_files bp)). index_home (bp_io bp) (ce_value e)"
  shows "\<exists>tx' wal' bp'. txn_commit tx wal bp = Some (Done (tx', wal', bp')) \<and> tx_state tx' = TX_COMMITTED \<and>
    (\<exists>s. wal_open old junk (wm_dev wal') = Done s \<and> wal_inv s \<and>
       txn_records (tx_id tx) s = txn_records (tx_id tx) wal @
         [CommitTxnRecord \<lparr>h_lsn = lsn, h_prev_lsn = tx_last_lsn tx, h_txn_id = tx_id tx\<rparr>]) \<and>
    (\<forall>pid p. page_view (bp_data_pages bp) (bp_io bp) pid = Done (Some p) \<longrightarrow> dp_last_lsn p \<le> lsn \<longrightarrow>
       disk_view (bp_io bp') pid = Done (Some p))"
proof -
  let ?r = "CommitTxnRecord \<lparr>h_lsn = 0, h_prev_lsn = tx_last_lsn tx, h_txn_id = tx_id tx\<rparr>"
  have logs: "read_all_logs wal1 = read_all_logs wal @ [set_lsn lsn ?r]"
    using file_wal.append_logs [OF assms(1), of ?r] assms(4) by simp
  have inv1: "wal_inv wal1" using wal_inv_append [OF assms(1) _ assms(3), of ?r] assms(4) by simp
  have mem: "lsn \<in> extract_lsn ` set (read_all_logs wal1)" unfolding logs by simp
  obtain wal' where w: "wait_for_durable lsn wal1 = Some (Done (), wal')" "lsn \<le> wm_flushed_lsn wal'"
    "read_all_logs wal' = read_all_logs wal1" "wal_inv wal'"
    using wait_durable_total [OF inv1 mem assms(5)] by blast
  have fl: "wm_flushed wal' = read_all_logs wal1" using all_flushed [OF w(4) w(3) [unfolded logs]] w(2) logs by simp
  let ?s = "wal_restored (wm_flushed wal') (wm_dev wal')"
  have reopen: "wal_open old junk (wm_dev wal') = Done ?s" "wal_inv ?s"
    using wal_open_inv [OF w(4)] fl assms(6) by simp_all
  have "read_all_logs ?s = wm_flushed wal'" by (simp add: wal_restored_def read_all_logs_def)
  then have "txn_records (tx_id tx) ?s = txn_records (tx_id tx) wal @ [set_lsn lsn ?r]"
    by (simp add: txn_records_def fl logs)
  moreover obtain bp' where bp': "flush_dirty_upto lsn bp = Done bp'"
    "\<And>pid. disk_view (bp_io bp') pid = (case map_of (ca_map (bp_data_pages bp)) pid of
       Some e \<Rightarrow> if ce_dirty e \<and> \<not> dp_last_lsn (ce_value e) > lsn then Done (Some (stored_page (ce_value e)))
         else disk_view (bp_io bp) pid | None \<Rightarrow> disk_view (bp_io bp) pid)"
    using flush_pool_view [OF assms(7,8)] unfolding flush_dirty_upto_def by blast
  moreover have "disk_view (bp_io bp') pid = Done (Some p)"
    if "page_view (bp_data_pages bp) (bp_io bp) pid = Done (Some p)" "dp_last_lsn p \<le> lsn" for pid p
    using that assms(7) by (auto simp: bp'(2) page_view_def pool_ok_def entry_ok_def split: option.splits)
  ultimately show ?thesis using assms(2,4) w(1) reopen by (auto simp: txn_commit_def)
qed

theorem txn_commit_durable_witness:
  "\<exists>tx' wal' bp'. txn_commit sample_tx sample_wal (sample_pool sample_io) = Some (Done (tx', wal', bp')) \<and>
    tx_state tx' = TX_COMMITTED"
proof -
  let ?r = "CommitTxnRecord \<lparr>h_lsn = 0, h_prev_lsn = tx_last_lsn sample_tx, h_txn_id = tx_id sample_tx\<rparr>"
  let ?wal = "snd (append_log ?r sample_wal)"
  have logs: "wm_flushed ?wal = []" "wm_dirty ?wal =
      [BeginTxnRecord \<lparr>h_lsn = 1, h_prev_lsn = 0, h_txn_id = 8\<rparr>, CommitTxnRecord \<lparr>h_lsn = 2, h_prev_lsn = 1, h_txn_id = 8\<rparr>]"
    by (simp_all add: append_log_def sample_wal_def sample_tx_def wal_start_def wal_restored_def)
  have len: "length (frame (BeginTxnRecord h)) = 48" "length (frame (CommitTxnRecord h)) = 48" for h
    by (simp_all add: frame_def serialize_begin_txn_def serialize_commit_txn_def Let_def stream_simps)
  have "fst (flush ?wal) = Done ()"
    by (rule flush_room) (simp_all add: logs len append_log_def sample_wal_def wal_start_def wal_restored_def empty_device_def)
  moreover have "wal_fits (read_all_logs ?wal)" by (simp add: wal_fits_def read_all_logs_def logs len max_alloc_def)
  moreover have "append_log ?r sample_wal = (2, ?wal)"
    by (simp add: append_log_def sample_wal_def wal_start_def wal_restored_def)
  moreover have "\<forall>(k, e) \<in> set (ca_map (bp_index_files (sample_pool sample_io))). index_home (bp_io (sample_pool sample_io)) (ce_value e)"
    by (simp add: sample_pool_def buffer_pool_new_def cache_new_def)
  moreover have "wm_next_lsn sample_wal + 1 \<noteq> 0" "tx_state sample_tx = TX_ACTIVE"
    by (simp_all add: sample_wal_def append_log_def wal_start_def wal_restored_def sample_tx_def)
  ultimately show ?thesis
    using txn_commit_durable [OF sample_wal_inv, of sample_tx 2 ?wal "sample_pool sample_io" 0 "\<lambda>_. 0"]
      sample_pool_ok [OF sample_disk_ok home_page_storable] by blast
qed

end
