(* ===== verification/Recovery.thy ===== *)
theory Recovery
  imports Transaction File_Catalog
begin

text \<open>
  Crash recovery, \<^verbatim>\<open>recovery/recovery_manager.cpp\<close>: the records of committed transactions and the compensation
  records are redone in the order of the log, then the transactions that neither committed nor rolled back are undone
  along their chains of records, each undone record being logged as a compensation record first.

  An exception ends the start-up of the database, so its outcome carries no state. \<^verbatim>\<open>order\<close> is the order in which an
  \<^verbatim>\<open>unordered_map\<close> is iterated.
\<close>

section \<open>Kinds of records\<close>

text \<open>\<^verbatim>\<open>WALDataRecord\<close>: the table and the page of a record, with the compensation records.\<close>

fun data_ids :: "wal_record \<Rightarrow> (uuid \<times> uuid) option" where
  "data_ids (InsertRecord r) = Some (ins_table_id r, ins_page_id r)"
| "data_ids (UpdateRecord r) = Some (upd_table_id r, upd_page_id r)"
| "data_ids (DeleteRecord r) = Some (del_table_id r, del_page_id r)"
| "data_ids (CLRInsertRecord r) = Some (clr_ins_table_id r, clr_ins_page_id r)"
| "data_ids (CLRUpdateRecord r) = Some (clr_upd_table_id r, clr_upd_page_id r)"
| "data_ids (CLRDeleteRecord r) = Some (clr_del_table_id r, clr_del_page_id r)"
| "data_ids _ = None"

text \<open>\<^verbatim>\<open>WALCLRRecord\<close>, by the \<^verbatim>\<open>undo_next_lsn\<close> these records have.\<close>

fun undo_next_lsn :: "wal_record \<Rightarrow> lsn option" where
  "undo_next_lsn (CLRInsertRecord r) = Some (clr_ins_undo_next_lsn r)"
| "undo_next_lsn (CLRUpdateRecord r) = Some (clr_upd_undo_next_lsn r)"
| "undo_next_lsn (CLRDeleteRecord r) = Some (clr_del_undo_next_lsn r)"
| "undo_next_lsn (CLRCreateSchemaRecord r) = Some (clr_crs_undo_next_lsn r)"
| "undo_next_lsn (CLRUpdateSchemaRecord r) = Some (clr_ups_undo_next_lsn r)"
| "undo_next_lsn (CLRDeleteSchemaRecord r) = Some (clr_dls_undo_next_lsn r)"
| "undo_next_lsn (CLRCreateTableRecord r) = Some (clr_crt_undo_next_lsn r)"
| "undo_next_lsn (CLRUpdateTableRecord r) = Some (clr_upt_undo_next_lsn r)"
| "undo_next_lsn (CLRDeleteTableRecord r) = Some (clr_dlt_undo_next_lsn r)"
| "undo_next_lsn (CLRCreateIndexRecord r) = Some (clr_cri_undo_next_lsn r)"
| "undo_next_lsn (CLRDropIndexRecord r) = Some (clr_dri_undo_next_lsn r)"
| "undo_next_lsn _ = None"

text \<open>\<^verbatim>\<open>WALMetaRecord\<close>.\<close>

fun is_meta_record :: "wal_record \<Rightarrow> bool" where
  "is_meta_record (CreateSchemaRecord r) = True"
| "is_meta_record (UpdateSchemaRecord r) = True"
| "is_meta_record (DeleteSchemaRecord r) = True"
| "is_meta_record (CreateTableRecord r) = True"
| "is_meta_record (UpdateTableRecord r) = True"
| "is_meta_record (DeleteTableRecord r) = True"
| "is_meta_record (CreateIndexRecord r) = True"
| "is_meta_record (DropIndexRecord r) = True"
| "is_meta_record _ = False"

section \<open>Redo\<close>

text \<open>The loops over \<^verbatim>\<open>page.rows\<close> that stop at the first row with the identifier.\<close>

fun update_row_with :: "row_id \<Rightarrow> (data_row \<Rightarrow> data_row) \<Rightarrow> data_row list \<Rightarrow> data_row list" where
  "update_row_with i f [] = []"
| "update_row_with i f (row # rows) = (if dr_id row \<noteq> i then row # update_row_with i f rows else f row # rows)"

fun redo_page :: "wal_record \<Rightarrow> data_page \<Rightarrow> data_page" where
  "redo_page (InsertRecord r) page = page\<lparr>dp_rows := dp_rows page @ [ins_after r]\<rparr>"
| "redo_page (UpdateRecord r) page =
     page\<lparr>dp_rows := update_row_with (dr_id (upd_before r)) set_obsolete (dp_rows page) @ [upd_after r]\<rparr>"
| "redo_page (DeleteRecord r) page =
     page\<lparr>dp_rows := update_row_with (dr_id (del_before r)) set_obsolete (dp_rows page)\<rparr>"
| "redo_page (CLRInsertRecord r) page =
     page\<lparr>dp_rows := update_row_with (dr_id (clr_ins_after r)) set_obsolete (dp_rows page)\<rparr>"
| "redo_page (CLRUpdateRecord r) page =
     page\<lparr>dp_rows := update_row_with (dr_id (clr_upd_after r))
       (\<lambda>row. clear_obsolete (row\<lparr>dr_tokens := dr_tokens (clr_upd_before r)\<rparr>)) (dp_rows page)\<rparr>"
| "redo_page (CLRDeleteRecord r) page =
     page\<lparr>dp_rows := update_row_with (dr_id (clr_del_before r)) clear_obsolete (dp_rows page)\<rparr>"
| "redo_page _ page = page"

definition redo_data :: "wal_record \<Rightarrow> uuid \<Rightarrow> uuid \<Rightarrow> file_io \<Rightarrow> file_io outcome" where
  "redo_data r table_id page_id io =
     obind (read_data_page io page_id) (\<lambda>found.
     obind (read_table_meta io table_id) (\<lambda>mt.
     obind (case found of Some page \<Rightarrow> Done page | None \<Rightarrow> create_page io mt page_id) (\<lambda>page.
     if dp_last_lsn page < extract_lsn r
     then write_page io ((redo_page r page)\<lparr>dp_last_lsn := extract_lsn r\<rparr>) False
     else Done io)))"

definition push_index :: "meta_index \<Rightarrow> meta_table \<Rightarrow> meta_table" where
  "push_index i table = table\<lparr>mt_indexes := mt_indexes table @ [i]\<rparr>"

definition erase_index :: "meta_index \<Rightarrow> meta_table \<Rightarrow> meta_table" where
  "erase_index i table = table\<lparr>mt_indexes := filter (\<lambda>v. mi_id v \<noteq> mi_id i) (mt_indexes table)\<rparr>"

definition change_table :: "file_io \<Rightarrow> uuid \<Rightarrow> (meta_table \<Rightarrow> meta_table) \<Rightarrow> file_io outcome" where
  "change_table io table_id f = obind (read_table_meta io table_id) (\<lambda>table. write_mt io (f table) False)"

fun redo_meta :: "wal_record \<Rightarrow> file_io \<Rightarrow> file_io outcome" where
  "redo_meta (CreateSchemaRecord r) io = write_ms io (crs_schema r) True"
| "redo_meta (UpdateSchemaRecord r) io = write_ms io (ups_after r) True"
| "redo_meta (DeleteSchemaRecord r) io = Done (delete_ms io (dls_before r))"
| "redo_meta (CLRCreateSchemaRecord r) io = Done (delete_ms io (clr_crs_schema r))"
| "redo_meta (CLRUpdateSchemaRecord r) io = write_ms io (clr_ups_before r) True"
| "redo_meta (CLRDeleteSchemaRecord r) io = write_ms io (clr_dls_before r) True"
| "redo_meta (CreateTableRecord r) io = write_mt io (crt_after r) False"
| "redo_meta (UpdateTableRecord r) io = write_mt io (upt_after r) False"
| "redo_meta (DeleteTableRecord r) io = delete_mt io (dlt_before r)"
| "redo_meta (CLRCreateTableRecord r) io = delete_mt io (clr_crt_after r)"
| "redo_meta (CLRUpdateTableRecord r) io = write_mt io (clr_upt_before r) False"
| "redo_meta (CLRDeleteTableRecord r) io = write_mt io (clr_dlt_before r) False"
| "redo_meta (CreateIndexRecord r) io = change_table io (mi_table_id (cri_after r)) (push_index (cri_after r))"
| "redo_meta (CLRCreateIndexRecord r) io = change_table io (mi_table_id (clr_cri_after r)) (erase_index (clr_cri_after r))"
| "redo_meta (DropIndexRecord r) io = change_table io (mi_table_id (dri_before r)) (erase_index (dri_before r))"
| "redo_meta (CLRDropIndexRecord r) io = change_table io (mi_table_id (clr_dri_before r)) (push_index (clr_dri_before r))"
| "redo_meta _ io = Done io"

definition redo :: "lsn \<Rightarrow> (uuid \<rightharpoonup> lsn) \<Rightarrow> wal_record \<Rightarrow> file_io \<Rightarrow> file_io outcome" where
  "redo last_checkpoint commit_lsns r io =
     (if undo_next_lsn r \<noteq> None then
        if extract_lsn r \<le> last_checkpoint then Done io
        else case data_ids r of Some (table_id, page_id) \<Rightarrow> redo_data r table_id page_id io | None \<Rightarrow> redo_meta r io
      else case commit_lsns (extract_txn_id r) of
             None \<Rightarrow> Done io
           | Some commit_lsn \<Rightarrow>
               if extract_lsn r \<le> last_checkpoint then Done io
               else if extract_lsn r > commit_lsn then Done io
               else case data_ids r of
                      Some (table_id, page_id) \<Rightarrow> redo_data r table_id page_id io
                    | None \<Rightarrow> redo_meta r io)"

section \<open>Undo\<close>

fun undo_page :: "wal_record \<Rightarrow> data_page \<Rightarrow> data_page" where
  "undo_page (InsertRecord r) page =
     page\<lparr>dp_rows := update_row_with (dr_id (ins_after r)) set_obsolete (dp_rows page)\<rparr>"
| "undo_page (UpdateRecord r) page =
     page\<lparr>dp_rows := update_row_with (dr_id (upd_after r))
       (\<lambda>row. clear_obsolete (row\<lparr>dr_tokens := dr_tokens (upd_before r)\<rparr>)) (dp_rows page)\<rparr>"
| "undo_page (DeleteRecord r) page =
     page\<lparr>dp_rows := update_row_with (dr_id (del_before r)) clear_obsolete (dp_rows page)\<rparr>"
| "undo_page _ page = page"

fun undo_meta :: "wal_record \<Rightarrow> file_io \<Rightarrow> file_io outcome" where
  "undo_meta (CreateSchemaRecord r) io = Done (delete_ms io (crs_schema r))"
| "undo_meta (UpdateSchemaRecord r) io = write_ms io (ups_before r) True"
| "undo_meta (DeleteSchemaRecord r) io = write_ms io (dls_before r) True"
| "undo_meta (CreateTableRecord r) io = delete_mt io (crt_after r)"
| "undo_meta (UpdateTableRecord r) io = write_mt io (upt_before r) False"
| "undo_meta (DeleteTableRecord r) io = write_mt io (dlt_before r) False"
| "undo_meta (CreateIndexRecord r) io = change_table io (mi_table_id (cri_after r)) (erase_index (cri_after r))"
| "undo_meta (DropIndexRecord r) io = change_table io (mi_table_id (dri_before r)) (push_index (dri_before r))"
| "undo_meta _ io = Done io"

text \<open>The compensation record: its \<^verbatim>\<open>undo_next_lsn\<close> is the predecessor of the record undone, its
  \<^verbatim>\<open>prev_lsn\<close> is zero.\<close>

fun make_clr :: "wal_record \<Rightarrow> wal_record" where
  "make_clr (InsertRecord r) = CLRInsertRecord \<lparr>h_lsn = h_lsn r, h_prev_lsn = 0, h_txn_id = h_txn_id r,
     clr_ins_table_id = ins_table_id r, clr_ins_page_id = ins_page_id r, clr_ins_undo_next_lsn = h_prev_lsn r,
     clr_ins_after = ins_after r\<rparr>"
| "make_clr (UpdateRecord r) = CLRUpdateRecord \<lparr>h_lsn = h_lsn r, h_prev_lsn = 0, h_txn_id = h_txn_id r,
     clr_upd_table_id = upd_table_id r, clr_upd_page_id = upd_page_id r, clr_upd_undo_next_lsn = h_prev_lsn r,
     clr_upd_before = upd_before r, clr_upd_after = upd_after r\<rparr>"
| "make_clr (DeleteRecord r) = CLRDeleteRecord \<lparr>h_lsn = h_lsn r, h_prev_lsn = 0, h_txn_id = h_txn_id r,
     clr_del_table_id = del_table_id r, clr_del_page_id = del_page_id r, clr_del_undo_next_lsn = h_prev_lsn r,
     clr_del_before = del_before r\<rparr>"
| "make_clr (CreateSchemaRecord r) = CLRCreateSchemaRecord \<lparr>h_lsn = h_lsn r, h_prev_lsn = 0, h_txn_id = h_txn_id r,
     clr_crs_undo_next_lsn = h_prev_lsn r, clr_crs_schema = crs_schema r\<rparr>"
| "make_clr (UpdateSchemaRecord r) = CLRUpdateSchemaRecord \<lparr>h_lsn = h_lsn r, h_prev_lsn = 0, h_txn_id = h_txn_id r,
     clr_ups_undo_next_lsn = h_prev_lsn r, clr_ups_before = ups_before r, clr_ups_after = ups_after r\<rparr>"
| "make_clr (DeleteSchemaRecord r) = CLRDeleteSchemaRecord \<lparr>h_lsn = h_lsn r, h_prev_lsn = 0, h_txn_id = h_txn_id r,
     clr_dls_undo_next_lsn = h_prev_lsn r, clr_dls_before = dls_before r\<rparr>"
| "make_clr (CreateTableRecord r) = CLRCreateTableRecord \<lparr>h_lsn = h_lsn r, h_prev_lsn = 0, h_txn_id = h_txn_id r,
     clr_crt_undo_next_lsn = h_prev_lsn r, clr_crt_after = crt_after r\<rparr>"
| "make_clr (UpdateTableRecord r) = CLRUpdateTableRecord \<lparr>h_lsn = h_lsn r, h_prev_lsn = 0, h_txn_id = h_txn_id r,
     clr_upt_undo_next_lsn = h_prev_lsn r, clr_upt_before = upt_before r, clr_upt_after = upt_after r\<rparr>"
| "make_clr (DeleteTableRecord r) = CLRDeleteTableRecord \<lparr>h_lsn = h_lsn r, h_prev_lsn = 0, h_txn_id = h_txn_id r,
     clr_dlt_undo_next_lsn = h_prev_lsn r, clr_dlt_before = dlt_before r\<rparr>"
| "make_clr (CreateIndexRecord r) = CLRCreateIndexRecord \<lparr>h_lsn = h_lsn r, h_prev_lsn = 0, h_txn_id = h_txn_id r,
     clr_cri_undo_next_lsn = h_prev_lsn r, clr_cri_after = cri_after r\<rparr>"
| "make_clr (DropIndexRecord r) = CLRDropIndexRecord \<lparr>h_lsn = h_lsn r, h_prev_lsn = 0, h_txn_id = h_txn_id r,
     clr_dri_undo_next_lsn = h_prev_lsn r, clr_dri_before = dri_before r\<rparr>"
| "make_clr r = r"

record undo_state =
  un_current :: lsn
  un_txn_prev_lsn :: lsn
  un_rollback_marker_seen :: bool
  un_wal :: wal_state
  un_io :: file_io

text \<open>Logging and flushing the compensation record; the LSN is the one the log hands out next.\<close>

definition log_clr :: "wal_record \<Rightarrow> undo_state \<Rightarrow> (lsn \<times> wal_state) outcome" where
  "log_clr r st =
     (let clr = set_lsn (un_txn_prev_lsn st) (make_clr r);
          clr_lsn = get_next_lsn (un_wal st);
          (lsn, wal) = append_log clr (un_wal st);
          (res, wal) = flush wal
      in obind res (\<lambda>_. Done (clr_lsn, wal)))"

definition undo_step :: "wal_record \<Rightarrow> undo_state \<Rightarrow> undo_state outcome" where
  "undo_step record st =
     (case record of
        RollbackTxnRecord r \<Rightarrow> Done (st\<lparr>un_txn_prev_lsn := h_lsn r, un_rollback_marker_seen := True, un_current := 0\<rparr>)
      | _ \<Rightarrow>
     (case undo_next_lsn record of
        Some next_lsn \<Rightarrow> Done (st\<lparr>un_txn_prev_lsn := extract_lsn record, un_current := next_lsn\<rparr>)
      | None \<Rightarrow>
     (case data_ids record of
        Some (table_id, page_id) \<Rightarrow>
          obind (read_data_page (un_io st) page_id) (\<lambda>found.
          case found of
            None \<Rightarrow> Done (st\<lparr>un_current := extract_prev_lsn record\<rparr>)
          | Some page \<Rightarrow>
              obind (log_clr record st) (\<lambda>(clr_lsn, wal).
              obind (write_page (un_io st) ((undo_page record page)\<lparr>dp_last_lsn := clr_lsn\<rparr>) False) (\<lambda>io.
              Done (st\<lparr>un_txn_prev_lsn := clr_lsn, un_current := extract_prev_lsn record, un_wal := wal, un_io := io\<rparr>))))
      | None \<Rightarrow>
          if is_meta_record record then
            obind (log_clr record st) (\<lambda>(clr_lsn, wal).
            obind (undo_meta record (un_io st)) (\<lambda>io.
            Done (st\<lparr>un_txn_prev_lsn := clr_lsn, un_current := extract_prev_lsn record, un_wal := wal, un_io := io\<rparr>)))
          else Done (st\<lparr>un_current := extract_prev_lsn record\<rparr>))))"

text \<open>The loop along the chain of a transaction: a chain that is a cycle is followed forever (\<open>None\<close>).\<close>

partial_function (option) undo_loop :: "undo_state \<Rightarrow> undo_state outcome option" where
  "undo_loop st =
     (if un_current st \<noteq> 0 then
        case obind (read_log (un_current st) (un_wal st)) (\<lambda>record. undo_step record st) of
          Done st' \<Rightarrow> undo_loop st'
        | e \<Rightarrow> Some e
      else Some (Done st))"

definition undo_txn :: "uuid \<Rightarrow> lsn \<Rightarrow> wal_state \<Rightarrow> file_io \<Rightarrow> (wal_state \<times> file_io) outcome option" where
  "undo_txn txn_id last_lsn wal io =
     (case undo_loop \<lparr>un_current = last_lsn, un_txn_prev_lsn = last_lsn, un_rollback_marker_seen = False,
            un_wal = wal, un_io = io\<rparr> of
        None \<Rightarrow> None
      | Some res \<Rightarrow> Some (obind res (\<lambda>st.
          if \<not> un_rollback_marker_seen st then
            let rollback_marker = RollbackTxnRecord \<lparr>h_lsn = un_txn_prev_lsn st, h_prev_lsn = 0, h_txn_id = txn_id\<rparr>;
                (lsn, wal) = append_log rollback_marker (un_wal st);
                (res, wal) = flush wal
            in obind res (\<lambda>_. Done (wal, un_io st))
          else Done (un_wal st, un_io st))))"

fun undo :: "(uuid \<times> lsn) list \<Rightarrow> wal_state \<Rightarrow> file_io \<Rightarrow> (wal_state \<times> file_io) outcome option" where
  "undo [] wal io = Some (Done (wal, io))"
| "undo ((txn_id, last_lsn) # active) wal io =
     (case undo_txn txn_id last_lsn wal io of
        None \<Rightarrow> None
      | Some (Done (wal, io)) \<Rightarrow> undo active wal io
      | Some e \<Rightarrow> Some e)"

section \<open>Analysis\<close>

definition get_commit_lsns :: "wal_record list \<Rightarrow> (uuid \<times> lsn) list" where
  "get_commit_lsns wal =
     fold (\<lambda>record m. case record of CommitTxnRecord r \<Rightarrow> AList.update (h_txn_id r) (h_lsn r) m | _ \<Rightarrow> m) wal []"

definition get_rollback_lsns :: "wal_record list \<Rightarrow> (uuid \<times> lsn) list" where
  "get_rollback_lsns wal =
     fold (\<lambda>record m. case record of RollbackTxnRecord r \<Rightarrow> AList.update (h_txn_id r) (h_lsn r) m | _ \<Rightarrow> m) wal []"

definition get_last_lsns :: "wal_record list \<Rightarrow> (uuid \<times> lsn) list" where
  "get_last_lsns wal = fold (\<lambda>r m. AList.update (extract_txn_id r) (extract_lsn r) m) wal []"

definition get_active_txns :: "(uuid \<times> lsn) list \<Rightarrow> (uuid \<rightharpoonup> lsn) \<Rightarrow> (uuid \<rightharpoonup> lsn) \<Rightarrow> (uuid \<times> lsn) list" where
  "get_active_txns last_lsns commit rollback =
     filter (\<lambda>(txn_id, lsn). commit txn_id = None \<and> rollback txn_id = None) last_lsns"

definition redo_pass :: "lsn \<Rightarrow> wal_record list \<Rightarrow> file_io \<Rightarrow> file_io outcome" where
  "redo_pass last_checkpoint wal io =
     ofold (redo last_checkpoint (map_of (get_commit_lsns wal))) wal io"

definition recover ::
    "((uuid \<times> lsn) list \<Rightarrow> (uuid \<times> lsn) list) \<Rightarrow> lsn \<Rightarrow> wal_state \<Rightarrow> file_io \<Rightarrow> (wal_state \<times> file_io) outcome option" where
  "recover order last_checkpoint wal io =
     (let logs = read_all_logs wal;
          commit_lsns = map_of (get_commit_lsns logs);
          rollback_lsns = map_of (get_rollback_lsns logs);
          last_lsn_per_txn = get_last_lsns logs
      in case redo_pass last_checkpoint logs io of
           Done io \<Rightarrow> undo (order (get_active_txns last_lsn_per_txn commit_lsns rollback_lsns)) wal io
         | Failed \<Rightarrow> Some Failed
         | Raised e \<Rightarrow> Some (Raised e)
         | Undef \<Rightarrow> Some Undef)"

section \<open>What the analysis finds\<close>

definition committed :: "uuid \<Rightarrow> wal_record list \<Rightarrow> bool" where
  "committed t wal \<longleftrightarrow> (\<exists>r. CommitTxnRecord r \<in> set wal \<and> h_txn_id r = t)"

definition rolled_back :: "uuid \<Rightarrow> wal_record list \<Rightarrow> bool" where
  "rolled_back t wal \<longleftrightarrow> (\<exists>r. RollbackTxnRecord r \<in> set wal \<and> h_txn_id r = t)"

text \<open>The transactions recovery has to undo.\<close>

definition active_txns :: "wal_record list \<Rightarrow> (uuid \<times> lsn) list" where
  "active_txns wal = get_active_txns (get_last_lsns wal) (map_of (get_commit_lsns wal)) (map_of (get_rollback_lsns wal))"

lemma fold_update_dom:
  "map_of (fold (\<lambda>x m. case g x of Some (k, v) \<Rightarrow> AList.update k v m | None \<Rightarrow> m) xs m) t = None \<longleftrightarrow>
   map_of m t = None \<and> (\<forall>x \<in> set xs. \<forall>v. g x \<noteq> Some (t, v))"
  by (induction xs arbitrary: m) (auto simp: update_conv split: option.splits)

lemma fold_update_distinct:
  "distinct (map fst m) \<Longrightarrow>
   distinct (map fst (fold (\<lambda>x m. case g x of Some (k, v) \<Rightarrow> AList.update k v m | None \<Rightarrow> m) xs m))"
  by (induction xs arbitrary: m) (auto simp: distinct_update split: option.splits prod.splits)

text \<open>The entry of a key is the last one written for it.\<close>

lemma fold_update_last:
  "map_of (fold (\<lambda>x m. case g x of Some (k, v) \<Rightarrow> AList.update k v m | None \<Rightarrow> m) xs m) t =
   (let ys = filter (\<lambda>x. \<exists>v. g x = Some (t, v)) xs in if ys = [] then map_of m t else map_option snd (g (last ys)))"
proof (induction xs rule: rev_induct)
  case (snoc x xs)
  show ?case
  proof (cases "\<exists>v. g x = Some (t, v)")
    case True
    then obtain v where "g x = Some (t, v)" by blast
    then show ?thesis by (auto simp: update_conv Let_def)
  next
    case False
    then show ?thesis using snoc by (cases "g x") (auto simp: update_conv Let_def)
  qed
qed simp

fun commit_entry :: "wal_record \<Rightarrow> (uuid \<times> lsn) option" where
  "commit_entry (CommitTxnRecord r) = Some (h_txn_id r, h_lsn r)"
| "commit_entry _ = None"

fun rollback_entry :: "wal_record \<Rightarrow> (uuid \<times> lsn) option" where
  "rollback_entry (RollbackTxnRecord r) = Some (h_txn_id r, h_lsn r)"
| "rollback_entry _ = None"

lemma get_lsns_entries:
  "get_commit_lsns wal = fold (\<lambda>x m. case commit_entry x of Some (k, v) \<Rightarrow> AList.update k v m | None \<Rightarrow> m) wal []"
  "get_rollback_lsns wal = fold (\<lambda>x m. case rollback_entry x of Some (k, v) \<Rightarrow> AList.update k v m | None \<Rightarrow> m) wal []"
  "get_last_lsns wal = fold (\<lambda>x m. case Some (extract_txn_id x, extract_lsn x) of Some (k, v) \<Rightarrow> AList.update k v m | None \<Rightarrow> m) wal []"
proof -
  have "(\<lambda>m. case r of CommitTxnRecord c \<Rightarrow> AList.update (h_txn_id c) (h_lsn c) m | _ \<Rightarrow> m) =
      (\<lambda>m. case commit_entry r of Some (k, v) \<Rightarrow> AList.update k v m | None \<Rightarrow> m)" for r
    by (cases r) simp_all
  then show "get_commit_lsns wal = fold (\<lambda>x m. case commit_entry x of Some (k, v) \<Rightarrow> AList.update k v m | None \<Rightarrow> m) wal []"
    unfolding get_commit_lsns_def by (intro fold_cong refl)
  have "(\<lambda>m. case r of RollbackTxnRecord c \<Rightarrow> AList.update (h_txn_id c) (h_lsn c) m | _ \<Rightarrow> m) =
      (\<lambda>m. case rollback_entry r of Some (k, v) \<Rightarrow> AList.update k v m | None \<Rightarrow> m)" for r
    by (cases r) simp_all
  then show "get_rollback_lsns wal = fold (\<lambda>x m. case rollback_entry x of Some (k, v) \<Rightarrow> AList.update k v m | None \<Rightarrow> m) wal []"
    unfolding get_rollback_lsns_def by (intro fold_cong refl)
qed (simp add: get_last_lsns_def)

lemma commit_entry_Some: "commit_entry r = Some (t, v) \<longleftrightarrow> (\<exists>c. r = CommitTxnRecord c \<and> h_txn_id c = t \<and> h_lsn c = v)"
  by (cases r) auto

lemma rollback_entry_Some: "rollback_entry r = Some (t, v) \<longleftrightarrow> (\<exists>c. r = RollbackTxnRecord c \<and> h_txn_id c = t \<and> h_lsn c = v)"
  by (cases r) auto

lemma get_commit_None: "map_of (get_commit_lsns wal) t = None \<longleftrightarrow> \<not> committed t wal"
  unfolding get_lsns_entries fold_update_dom by (auto simp: commit_entry_Some committed_def)

lemma get_rollback_None: "map_of (get_rollback_lsns wal) t = None \<longleftrightarrow> \<not> rolled_back t wal"
  unfolding get_lsns_entries fold_update_dom by (auto simp: rollback_entry_Some rolled_back_def)

lemma distinct_last_lsns: "distinct (map fst (get_last_lsns wal))"
  unfolding get_lsns_entries by (rule fold_update_distinct) simp

lemma last_lsns_mem:
  assumes "(t, l) \<in> set (get_last_lsns wal)"
  shows "\<exists>r \<in> set wal. extract_txn_id r = t \<and> extract_lsn r = l"
proof -
  have "map_of (get_last_lsns wal) t = Some l" using assms distinct_last_lsns by (simp add: map_of_is_SomeI)
  moreover have "last ys \<in> set wal \<and> extract_txn_id (last ys) = t" if "ys = filter (\<lambda>x. extract_txn_id x = t) wal" "ys \<noteq> []" for ys
    using that last_in_set [of ys] by simp
  ultimately show ?thesis
    unfolding get_lsns_entries fold_update_last by (auto simp: Let_def split: if_splits)
qed

lemma last_lsns_dom: "t \<in> fst ` set (get_last_lsns wal) \<longleftrightarrow> t \<in> extract_txn_id ` set wal"
proof -
  have "t \<in> fst ` set (get_last_lsns wal) \<longleftrightarrow> map_of (get_last_lsns wal) t \<noteq> None"
    by (simp add: map_of_eq_None_iff)
  then show ?thesis unfolding get_lsns_entries fold_update_dom by auto
qed

lemma active_txns_mem:
  "t \<in> fst ` set (active_txns wal) \<longleftrightarrow> t \<in> extract_txn_id ` set wal \<and> \<not> committed t wal \<and> \<not> rolled_back t wal"
  unfolding active_txns_def get_active_txns_def last_lsns_dom [symmetric]
  by (force simp: get_commit_None get_rollback_None image_iff)

lemma active_txns_distinct: "distinct (map fst (active_txns wal))"
  unfolding active_txns_def get_active_txns_def by (rule distinct_map_filter [OF distinct_last_lsns])

section \<open>Chains of records\<close>

text \<open>The record undone after \<open>r\<close>; the chains of a log stay within a transaction and lead back to its start.\<close>

definition chain_next :: "wal_record \<Rightarrow> lsn" where
  "chain_next r = (case undo_next_lsn r of Some n \<Rightarrow> n | None \<Rightarrow> extract_prev_lsn r)"

definition chain_ok :: "wal_record list \<Rightarrow> bool" where
  "chain_ok wal \<longleftrightarrow> (\<forall>r \<in> set wal. chain_next r \<noteq> 0 \<longrightarrow> chain_next r < extract_lsn r \<and>
     (\<exists>q \<in> set wal. extract_lsn q = chain_next r \<and> extract_txn_id q = extract_txn_id r))"

definition undoable :: "wal_record \<Rightarrow> bool" where
  "undoable r \<longleftrightarrow> undo_next_lsn r = None \<and> (data_ids r \<noteq> None \<or> is_meta_record r)"

lemma make_clr_facts:
  assumes "undoable r"
  shows "ok_wal r \<Longrightarrow> ok_wal (set_lsn l (make_clr r))" and "extract_txn_id (make_clr r) = extract_txn_id r"
    and "undo_next_lsn (set_lsn l (make_clr r)) = Some (extract_prev_lsn r)" and "extract_prev_lsn (make_clr r) = 0"
    and "set_lsn l (make_clr r) \<noteq> CommitTxnRecord c" and "set_lsn l (make_clr r) \<noteq> RollbackTxnRecord c"
  using assms by (cases r; simp add: undoable_def)+

lemma set_lsn_set_lsn [simp]: "set_lsn a (set_lsn b r) = set_lsn a r"
  by (cases r) simp_all

lemma log_clr_Done:
  assumes "wal_inv (un_wal st)" and "undoable r" and "ok_wal r" and "wm_next_lsn (un_wal st) + 1 \<noteq> 0"
    and "log_clr r st = Done (l, wal')"
  shows "wal_inv wal'" and "read_all_logs wal' = read_all_logs (un_wal st) @ [set_lsn l (make_clr r)]"
    and "wm_next_lsn wal' = wm_next_lsn (un_wal st) + 1" and "l = wm_next_lsn (un_wal st)"
proof -
  let ?w = "un_wal st" and ?c = "set_lsn (un_txn_prev_lsn st) (make_clr r)"
  let ?w1 = "snd (append_log ?c ?w)"
  have l: "fst (append_log ?c ?w) = wm_next_lsn ?w" and n: "wm_next_lsn ?w1 = wm_next_lsn ?w + 1"
    by (simp_all add: append_log_def Let_def)
  have d: "fst (flush ?w1) = Done ()" "wal' = snd (flush ?w1)" "l = wm_next_lsn ?w"
    using assms(5) by (auto simp: log_clr_def get_next_lsn_def obind_Done_conv split: prod.splits)
  have inv: "wal_inv ?w1"
    by (rule file_wal.append_inv) (use assms make_clr_facts(1) [OF assms(2)] in auto)
  show "wal_inv wal'" "wm_next_lsn wal' = wm_next_lsn ?w + 1" "l = wm_next_lsn ?w"
    using flush_ok [OF inv d(1)] d n by auto
  have "read_all_logs wal' = read_all_logs ?w1" using flush_ok [OF inv d(1)] d(2) by (simp add: read_all_logs_def)
  then show "read_all_logs wal' = read_all_logs ?w @ [set_lsn l (make_clr r)]"
    using file_wal.append_logs [OF assms(1), of ?c] l d(3) by simp
qed

lemma chain_ok_snoc:
  assumes "chain_ok wal" and "chain_next c \<noteq> 0 \<Longrightarrow> chain_next c < extract_lsn c \<and>
     (\<exists>q \<in> set wal. extract_lsn q = chain_next c \<and> extract_txn_id q = extract_txn_id c)"
  shows "chain_ok (wal @ [c])"
  using assms unfolding chain_ok_def by auto

text \<open>One round: the log only grows, by at most a compensation record of the transaction, and the chain descends.\<close>

lemma undo_step_Done:
  assumes "undo_step r st = Done st'" and "wal_inv (un_wal st)" and "chain_ok (read_all_logs (un_wal st))"
    and "r \<in> set (read_all_logs (un_wal st))" and "wm_next_lsn (un_wal st) + 1 \<noteq> 0"
  shows "wal_inv (un_wal st')" and "chain_ok (read_all_logs (un_wal st'))"
    and "un_current st' = 0 \<or> un_current st' = chain_next r"
    and "un_rollback_marker_seen st' \<longrightarrow> un_rollback_marker_seen st \<or> (\<exists>c. r = RollbackTxnRecord c)"
    and "un_wal st' = un_wal st \<or> (wm_next_lsn (un_wal st') = wm_next_lsn (un_wal st) + 1 \<and>
      (\<exists>c. read_all_logs (un_wal st') = read_all_logs (un_wal st) @ [c] \<and> extract_txn_id c = extract_txn_id r \<and>
         extract_lsn c = wm_next_lsn (un_wal st) \<and> commit_entry c = None))"
proof -
  have ok: "ok_wal r" and lt: "extract_lsn r < wm_next_lsn (un_wal st)"
    using assms(2,4) by (auto simp: wal_inv_def read_all_logs_def list_all_iff)
  have "(st' = st\<lparr>un_txn_prev_lsn := extract_lsn r, un_rollback_marker_seen := True, un_current := 0\<rparr> \<and> (\<exists>c. r = RollbackTxnRecord c)) \<or>
    (un_wal st' = un_wal st \<and> un_current st' = chain_next r \<and> un_rollback_marker_seen st' = un_rollback_marker_seen st) \<or>
    (undoable r \<and> (\<exists>l. log_clr r st = Done (l, un_wal st')) \<and> un_current st' = chain_next r \<and>
      un_rollback_marker_seen st' = un_rollback_marker_seen st)"
    using assms(1) by (cases r; force simp: undo_step_def undoable_def chain_next_def obind_Done_conv
        split: option.splits prod.splits if_splits)
  then consider (marker) "un_wal st' = un_wal st" "un_current st' = 0" "\<exists>c. r = RollbackTxnRecord c"
    | (skip) "un_wal st' = un_wal st" "un_current st' = chain_next r" "un_rollback_marker_seen st' = un_rollback_marker_seen st"
    | (clr) l where "undoable r" "log_clr r st = Done (l, un_wal st')" "un_current st' = chain_next r"
        "un_rollback_marker_seen st' = un_rollback_marker_seen st"
    by auto
  then have "wal_inv (un_wal st') \<and> chain_ok (read_all_logs (un_wal st')) \<and>
    (un_current st' = 0 \<or> un_current st' = chain_next r) \<and>
    (un_rollback_marker_seen st' \<longrightarrow> un_rollback_marker_seen st \<or> (\<exists>c. r = RollbackTxnRecord c)) \<and>
    (un_wal st' = un_wal st \<or> (wm_next_lsn (un_wal st') = wm_next_lsn (un_wal st) + 1 \<and>
      (\<exists>c. read_all_logs (un_wal st') = read_all_logs (un_wal st) @ [c] \<and> extract_txn_id c = extract_txn_id r \<and>
         extract_lsn c = wm_next_lsn (un_wal st) \<and> commit_entry c = None)))"
  proof cases
    case clr
    note lc = log_clr_Done [OF assms(2) clr(1) ok assms(5) clr(2)]
    let ?c = "set_lsn l (make_clr r)"
    have cn: "chain_next ?c = extract_prev_lsn r" "chain_next r = extract_prev_lsn r"
      using make_clr_facts(3) [OF clr(1)] clr(1) by (simp_all add: chain_next_def undoable_def)
    have "chain_ok (read_all_logs (un_wal st) @ [?c])"
    proof (rule chain_ok_snoc [OF assms(3)])
      assume "chain_next ?c \<noteq> 0"
      with cn have nz: "chain_next r \<noteq> 0" by simp
      with assms(3,4) have "chain_next r < extract_lsn r"
        "\<exists>q \<in> set (read_all_logs (un_wal st)). extract_lsn q = chain_next r \<and> extract_txn_id q = extract_txn_id r"
        unfolding chain_ok_def by blast+
      with cn lt lc(4) make_clr_facts(2) [OF clr(1)]
      show "chain_next ?c < extract_lsn ?c \<and>
        (\<exists>q \<in> set (read_all_logs (un_wal st)). extract_lsn q = chain_next ?c \<and> extract_txn_id q = extract_txn_id ?c)"
        by (auto intro: less_trans)
    qed
    moreover have "commit_entry ?c = None" using make_clr_facts(5) [OF clr(1)] by (cases ?c) auto
    ultimately show ?thesis using lc clr(3,4) make_clr_facts(2) [OF clr(1)] by auto
  qed (use assms(2,3) in auto)
  then show "wal_inv (un_wal st')" and "chain_ok (read_all_logs (un_wal st'))"
    and "un_current st' = 0 \<or> un_current st' = chain_next r"
    and "un_rollback_marker_seen st' \<longrightarrow> un_rollback_marker_seen st \<or> (\<exists>c. r = RollbackTxnRecord c)"
    and "un_wal st' = un_wal st \<or> (wm_next_lsn (un_wal st') = wm_next_lsn (un_wal st) + 1 \<and>
      (\<exists>c. read_all_logs (un_wal st') = read_all_logs (un_wal st) @ [c] \<and> extract_txn_id c = extract_txn_id r \<and>
         extract_lsn c = wm_next_lsn (un_wal st) \<and> commit_entry c = None))"
    by blast+
qed

section \<open>The undo loop ends\<close>

text \<open>\<open>grown ts wal wal' n\<close>: at most \<open>n\<close> records, of the transactions \<open>ts\<close> and none of them a commit, were appended.\<close>

definition grown :: "uuid set \<Rightarrow> wal_state \<Rightarrow> wal_state \<Rightarrow> nat \<Rightarrow> bool" where
  "grown ts wal wal' n \<longleftrightarrow> wal_inv wal' \<and> chain_ok (read_all_logs wal') \<and>
     (\<exists>ext. read_all_logs wal' = read_all_logs wal @ ext \<and> length ext \<le> n \<and>
        unat (wm_next_lsn wal') = unat (wm_next_lsn wal) + length ext \<and>
        (\<forall>r \<in> set ext. extract_txn_id r \<in> ts \<and> commit_entry r = None))"

lemma grown_refl: "wal_inv wal \<Longrightarrow> chain_ok (read_all_logs wal) \<Longrightarrow> grown ts wal wal 0"
  by (auto simp: grown_def)

lemma grown_trans:
  assumes "grown ts wal wal1 m" and "grown us wal1 wal2 n"
  shows "grown (ts \<union> us) wal wal2 (m + n)"
proof -
  obtain e1 where e1: "read_all_logs wal1 = read_all_logs wal @ e1" "length e1 \<le> m"
    "unat (wm_next_lsn wal1) = unat (wm_next_lsn wal) + length e1" "\<forall>r \<in> set e1. extract_txn_id r \<in> ts \<and> commit_entry r = None"
    using assms(1) unfolding grown_def by blast
  obtain e2 where e2: "read_all_logs wal2 = read_all_logs wal1 @ e2" "length e2 \<le> n"
    "unat (wm_next_lsn wal2) = unat (wm_next_lsn wal1) + length e2" "\<forall>r \<in> set e2. extract_txn_id r \<in> us \<and> commit_entry r = None"
    using assms(2) unfolding grown_def by blast
  have "wal_inv wal2" "chain_ok (read_all_logs wal2)" using assms(2) by (simp_all add: grown_def)
  moreover have "read_all_logs wal2 = read_all_logs wal @ (e1 @ e2)" "length (e1 @ e2) \<le> m + n"
    "unat (wm_next_lsn wal2) = unat (wm_next_lsn wal) + length (e1 @ e2)"
    "\<forall>r \<in> set (e1 @ e2). extract_txn_id r \<in> ts \<union> us \<and> commit_entry r = None"
    using e1 e2 by auto
  ultimately show ?thesis unfolding grown_def by blast
qed

lemma grown_mono: "grown ts wal wal' m \<Longrightarrow> m \<le> n \<Longrightarrow> ts \<subseteq> us \<Longrightarrow> grown us wal wal' n"
  unfolding grown_def by (meson le_trans subsetD)

lemma rolled_back_append: "rolled_back t (xs @ ys) \<longleftrightarrow> rolled_back t xs \<or> rolled_back t ys"
  by (auto simp: rolled_back_def)

lemma lsn_room:
  assumes "unat (l :: lsn) + n < 2 ^ 64" and "0 < n"
  shows "l + 1 \<noteq> 0" and "unat (l + 1) = unat l + 1"
proof -
  have "unat l + 1 < 2 ^ LENGTH(64)" using assms by simp
  then show u: "unat (l + 1) = unat l + 1" using unat_add_lem [of l 1] by simp
  then show "l + 1 \<noteq> 0" by (metis add_eq_0_iff_both_eq_0 unsigned_0 zero_neq_one)
qed

definition chain_rank :: "uuid \<Rightarrow> lsn \<Rightarrow> wal_record list \<Rightarrow> nat" where
  "chain_rank t l wal = length (filter (\<lambda>q. extract_txn_id q = t \<and> extract_lsn q \<le> l) wal)"

lemma chain_rank_less:
  assumes "r \<in> set wal" and "extract_txn_id r = t" and "l' < extract_lsn r" and "\<forall>c \<in> set ext. l' < extract_lsn c"
  shows "chain_rank t l' (wal @ ext) < chain_rank t (extract_lsn r) wal"
proof -
  have "filter (\<lambda>q. extract_txn_id q = t \<and> extract_lsn q \<le> l') ext = []" using assms(4) by (auto simp: filter_empty_conv)
  moreover have "length (filter (\<lambda>q. extract_txn_id q = t \<and> extract_lsn q \<le> l') wal) <
      length (filter (\<lambda>q. extract_txn_id q = t \<and> extract_lsn q \<le> extract_lsn r) wal)"
    using assms(1-3)
  proof (induction wal)
    case (Cons q wal)
    have le: "length (filter (\<lambda>q. extract_txn_id q = t \<and> extract_lsn q \<le> l') wal) \<le>
        length (filter (\<lambda>q. extract_txn_id q = t \<and> extract_lsn q \<le> extract_lsn r) wal)"
      using Cons.prems(3) by (induction wal) auto
    from Cons le show ?case by (cases "q = r") auto
  qed simp
  ultimately show ?thesis by (simp add: chain_rank_def)
qed

lemma undo_loop_total:
  assumes "wal_inv (un_wal st)" and "chain_ok (read_all_logs (un_wal st))"
    and "un_current st \<noteq> 0 \<Longrightarrow> \<exists>q \<in> set (read_all_logs (un_wal st)). extract_lsn q = un_current st \<and> extract_txn_id q = t"
    and "un_rollback_marker_seen st \<Longrightarrow> rolled_back t (read_all_logs (un_wal st))"
    and "chain_rank t (un_current st) (read_all_logs (un_wal st)) \<le> n" and "unat (wm_next_lsn (un_wal st)) + n < 2 ^ 64"
  shows "\<exists>res. undo_loop st = Some res \<and> (\<forall>st'. res = Done st' \<longrightarrow> grown {t} (un_wal st) (un_wal st') n \<and>
    (un_rollback_marker_seen st' \<longrightarrow> rolled_back t (read_all_logs (un_wal st'))))"
  using assms
proof (induction n arbitrary: st)
  case 0
  have "un_current st = 0"
  proof (rule ccontr)
    assume "un_current st \<noteq> 0"
    with "0.prems"(3,5) show False by (auto simp: chain_rank_def filter_empty_conv)
  qed
  with 0 grown_refl show ?case by (subst undo_loop.simps) auto
next
  case (Suc n)
  show ?case
  proof (cases "un_current st = 0")
    case True
    with Suc.prems grown_mono [OF grown_refl [of "un_wal st" "{t}"]] show ?thesis by (subst undo_loop.simps) auto
  next
    case False
    then obtain q where q: "q \<in> set (read_all_logs (un_wal st))" "extract_lsn q = un_current st" "extract_txn_id q = t"
      using Suc.prems(3) by blast
    then have read: "read_log (un_current st) (un_wal st) = Done q"
      using file_wal.read_conv [OF Suc.prems(1)] by blast
    note room = lsn_room [OF Suc.prems(6)]
    show ?thesis
    proof (cases "undo_step q st")
      case (Done st1)
      note step = undo_step_Done [OF Done Suc.prems(1,2) q(1) room(1) [OF zero_less_Suc]]
      have qlt: "extract_lsn q < wm_next_lsn (un_wal st)" and qpos: "0 < extract_lsn q"
        using Suc.prems(1) q(1) by (auto simp: wal_inv_def read_all_logs_def list_all_iff)
      have lt: "un_current st1 < extract_lsn q"
        using step(3) Suc.prems(2) q(1) qpos unfolding chain_ok_def by metis
      obtain ext where ext: "read_all_logs (un_wal st1) = read_all_logs (un_wal st) @ ext" "length ext \<le> 1"
        "unat (wm_next_lsn (un_wal st1)) = unat (wm_next_lsn (un_wal st)) + length ext"
        "\<forall>c \<in> set ext. extract_txn_id c = t \<and> extract_lsn c = wm_next_lsn (un_wal st) \<and> commit_entry c = None"
      proof (cases "un_wal st1 = un_wal st")
        case True
        with that [of "[]"] show ?thesis by simp
      next
        case False
        with step(5) obtain c where "wm_next_lsn (un_wal st1) = wm_next_lsn (un_wal st) + 1"
          "read_all_logs (un_wal st1) = read_all_logs (un_wal st) @ [c]" "extract_txn_id c = t"
          "extract_lsn c = wm_next_lsn (un_wal st)" "commit_entry c = None" using q(3) by blast
        with that [of "[c]"] room(2) show ?thesis by simp
      qed
      have "grown {t} (un_wal st) (un_wal st1) 1" using step(1,2) ext unfolding grown_def by auto
      moreover have "\<exists>res. undo_loop st1 = Some res \<and> (\<forall>st'. res = Done st' \<longrightarrow> grown {t} (un_wal st1) (un_wal st') n \<and>
        (un_rollback_marker_seen st' \<longrightarrow> rolled_back t (read_all_logs (un_wal st'))))"
      proof (rule Suc.IH [OF step(1,2)])
        show "\<exists>q \<in> set (read_all_logs (un_wal st1)). extract_lsn q = un_current st1 \<and> extract_txn_id q = t"
          if "un_current st1 \<noteq> 0"
          using that step(3) Suc.prems(2) q(1,3) ext(1) unfolding chain_ok_def by (metis Un_iff set_append)
        show "rolled_back t (read_all_logs (un_wal st1))" if seen: "un_rollback_marker_seen st1"
        proof -
          have "rolled_back t (read_all_logs (un_wal st))"
            using seen step(4) Suc.prems(4) q(1,3) by (auto simp: rolled_back_def)
          then show ?thesis by (simp add: ext(1) rolled_back_append)
        qed
        have "\<forall>c \<in> set ext. un_current st1 < extract_lsn c" using ext(4) lt qlt by (auto intro: less_trans)
        from chain_rank_less [OF q(1,3) lt this] Suc.prems(5) show "chain_rank t (un_current st1) (read_all_logs (un_wal st1)) \<le> n"
          unfolding ext(1) q(2) by simp
        show "unat (wm_next_lsn (un_wal st1)) + n < 2 ^ 64" using Suc.prems(6) ext(2,3) by simp
      qed
      ultimately show ?thesis
        using False read Done grown_trans [of "{t}" "un_wal st" "un_wal st1" 1 "{t}" _ n] by (subst undo_loop.simps) auto
    qed (use False read in \<open>subst undo_loop.simps, simp\<close>)+
  qed
qed

lemma append_flush_Done:
  assumes "wal_inv wal" and "chain_ok (read_all_logs wal)" and "ok_wal r" and "chain_next (set_lsn (wm_next_lsn wal) r) = 0"
    and "commit_entry (set_lsn (wm_next_lsn wal) r) = None" and "unat (wm_next_lsn wal) + 1 < 2 ^ 64"
    and "append_log r wal = (l, wal1)" and "flush wal1 = (Done (), wal')"
  shows "grown {extract_txn_id r} wal wal' 1" and "set_lsn (wm_next_lsn wal) r \<in> set (read_all_logs wal')"
proof -
  have l: "l = wm_next_lsn wal" "wm_next_lsn wal1 = wm_next_lsn wal + 1"
    using assms(7) by (auto simp: append_log_def Let_def)
  note room = lsn_room [OF assms(6)]
  have inv: "wal_inv wal1"
    using file_wal.append_inv [OF assms(1) room(1) assms(3)] assms(7) by simp
  note fl = flush_ok [OF inv] 
  have logs: "read_all_logs wal' = read_all_logs wal @ [set_lsn (wm_next_lsn wal) r]"
    using fl assms(8) file_wal.append_logs [OF assms(1), of r] assms(7) l(1) by (simp add: read_all_logs_def)
  moreover have "chain_ok (read_all_logs wal')" unfolding logs by (rule chain_ok_snoc [OF assms(2)]) (simp add: assms(4))
  ultimately show "grown {extract_txn_id r} wal wal' 1"
    using fl assms(5,8) l(2) room(2) unfolding grown_def by simp
  show "set_lsn (wm_next_lsn wal) r \<in> set (read_all_logs wal')" unfolding logs by simp
qed

lemma chain_rank_le: "chain_rank t l rs \<le> length (filter (\<lambda>r. extract_txn_id r = t) rs)"
  by (induction rs) (auto simp: chain_rank_def)

lemma undo_txn_total:
  assumes "wal_inv wal" and "chain_ok (read_all_logs wal)"
    and "\<exists>q \<in> set (read_all_logs wal). extract_lsn q = l \<and> extract_txn_id q = t"
    and "length (txn_records t wal) \<le> n" and "unat (wm_next_lsn wal) + Suc n < 2 ^ 64"
  shows "\<exists>res. undo_txn t l wal io = Some res \<and>
    (\<forall>wal' io'. res = Done (wal', io') \<longrightarrow> grown {t} wal wal' (Suc n) \<and> rolled_back t (read_all_logs wal'))"
proof -
  let ?st = "\<lparr>un_current = l, un_txn_prev_lsn = l, un_rollback_marker_seen = False, un_wal = wal, un_io = io\<rparr>"
  have "chain_rank t l (read_all_logs wal) \<le> n"
    using chain_rank_le [of t l "read_all_logs wal"] assms(4) by (simp add: txn_records_def)
  then obtain res where res: "undo_loop ?st = Some res"
    "\<forall>st'. res = Done st' \<longrightarrow> grown {t} wal (un_wal st') n \<and> (un_rollback_marker_seen st' \<longrightarrow> rolled_back t (read_all_logs (un_wal st')))"
    using undo_loop_total [of ?st t n] assms by auto
  show ?thesis
  proof (cases res)
    case (Done st')
    with res(2) have g: "grown {t} wal (un_wal st') n" and m: "un_rollback_marker_seen st' \<longrightarrow> rolled_back t (read_all_logs (un_wal st'))"
      by simp_all
    let ?m = "RollbackTxnRecord \<lparr>h_lsn = un_txn_prev_lsn st', h_prev_lsn = 0, h_txn_id = t\<rparr>"
    obtain l1 w1 where a: "append_log ?m (un_wal st') = (l1, w1)" by (cases "append_log ?m (un_wal st')")
    obtain e w2 where f: "flush w1 = (e, w2)" by (cases "flush w1")
    have "unat (wm_next_lsn (un_wal st')) + 1 < 2 ^ 64" using g assms(5) unfolding grown_def by auto
    then have mark: "grown {t} (un_wal st') w2 1 \<and> rolled_back t (read_all_logs w2)" if "e = Done ()"
      using append_flush_Done [OF _ _ _ _ _ _ a, of w2] g f that
      by (auto simp: grown_def chain_next_def rolled_back_def)
    have g1: "grown {t} wal (un_wal st') (Suc n)" by (rule grown_mono [OF g]) auto
    have g2: "grown {t} wal w2 (Suc n)" if "e = Done ()"
      using grown_trans [OF g, of "{t}" w2 1] mark [OF that] by simp
    show ?thesis
      using res(1) Done a f m mark g1 g2 by (cases e) (auto simp: undo_txn_def)
  qed (use res(1) in \<open>simp_all add: undo_txn_def\<close>)
qed

text \<open>The number of records undoing the transactions of a list appends at most.\<close>

definition undo_cost :: "(uuid \<times> lsn) list \<Rightarrow> wal_state \<Rightarrow> nat" where
  "undo_cost active wal = sum_list (map (\<lambda>(t, l). Suc (length (txn_records t wal))) active)"

lemma grown_other_records:
  assumes "grown {t} wal wal' n" and "u \<noteq> t"
  shows "txn_records u wal' = txn_records u wal"
proof -
  obtain ext where "read_all_logs wal' = read_all_logs wal @ ext" "\<forall>r \<in> set ext. extract_txn_id r = t"
    using assms(1) unfolding grown_def by auto
  moreover from this assms(2) have "filter (\<lambda>r. extract_txn_id r = u) ext = []" by (auto simp: filter_empty_conv)
  ultimately show ?thesis by (simp add: txn_records_def)
qed

lemma grown_logs: "grown ts wal wal' n \<Longrightarrow> \<exists>ext. read_all_logs wal' = read_all_logs wal @ ext"
  unfolding grown_def by blast

lemma undo_total:
  assumes "wal_inv wal" and "chain_ok (read_all_logs wal)" and "distinct (map fst active)"
    and "\<forall>(t, l) \<in> set active. \<exists>q \<in> set (read_all_logs wal). extract_lsn q = l \<and> extract_txn_id q = t"
    and "unat (wm_next_lsn wal) + undo_cost active wal < 2 ^ 64"
  shows "\<exists>res. undo active wal io = Some res \<and> (\<forall>wal' io'. res = Done (wal', io') \<longrightarrow>
    grown (fst ` set active) wal wal' (undo_cost active wal) \<and> (\<forall>t \<in> fst ` set active. rolled_back t (read_all_logs wal')))"
  using assms
proof (induction active arbitrary: wal io)
  case Nil
  then show ?case by (auto simp: undo_cost_def grown_refl)
next
  case (Cons a active)
  obtain t l where a: "a = (t, l)" by (cases a)
  let ?n = "length (txn_records t wal)"
  have cost: "undo_cost (a # active) wal = Suc ?n + undo_cost active wal" by (simp add: undo_cost_def a)
  have q: "\<exists>q \<in> set (read_all_logs wal). extract_lsn q = l \<and> extract_txn_id q = t" using Cons.prems(4) a by simp
  obtain res where res: "undo_txn t l wal io = Some res"
    "\<forall>wal' io'. res = Done (wal', io') \<longrightarrow> grown {t} wal wal' (Suc ?n) \<and> rolled_back t (read_all_logs wal')"
    using undo_txn_total [OF Cons.prems(1,2) q order.refl, of io] Cons.prems(5) cost by auto
  show ?case
  proof (cases res)
    case (Done x)
    obtain wal1 io1 where x: "x = (wal1, io1)" by (cases x)
    with res(2) Done have g: "grown {t} wal wal1 (Suc ?n)" and rb: "rolled_back t (read_all_logs wal1)" by simp_all
    have inv: "wal_inv wal1" "chain_ok (read_all_logs wal1)" "unat (wm_next_lsn wal1) \<le> unat (wm_next_lsn wal) + Suc ?n"
      using g unfolding grown_def by auto
    have "u \<noteq> t" if "(u, k) \<in> set active" for u k using Cons.prems(3) that a by force
    then have same: "undo_cost active wal1 = undo_cost active wal"
      unfolding undo_cost_def using grown_other_records [OF g] by (intro arg_cong [where f = sum_list] map_cong) auto
    have mem: "\<forall>(u, k) \<in> set active. \<exists>q \<in> set (read_all_logs wal1). extract_lsn q = k \<and> extract_txn_id q = u"
      using Cons.prems(4) grown_logs [OF g] by fastforce
    obtain res' where res': "undo active wal1 io1 = Some res'"
      "\<forall>wal' io'. res' = Done (wal', io') \<longrightarrow> grown (fst ` set active) wal1 wal' (undo_cost active wal) \<and>
        (\<forall>t \<in> fst ` set active. rolled_back t (read_all_logs wal'))"
      using Cons.IH [OF inv(1,2) _ mem, of io1] Cons.prems(3,5) same cost inv(3) by auto
    have "grown (fst ` set (a # active)) wal wal' (undo_cost (a # active) wal) \<and>
      (\<forall>u \<in> fst ` set (a # active). rolled_back u (read_all_logs wal'))" if "res' = Done (wal', io')" for wal' io'
    proof
      have g': "grown (fst ` set active) wal1 wal' (undo_cost active wal)" using res'(2) that by blast
      from grown_trans [OF g this] show "grown (fst ` set (a # active)) wal wal' (undo_cost (a # active) wal)"
        by (simp add: cost [unfolded a] a)
      from grown_logs [OF g'] rb have "rolled_back t (read_all_logs wal')" by (auto simp: rolled_back_append)
      moreover have "\<forall>u \<in> fst ` set active. rolled_back u (read_all_logs wal')" using res'(2) that by blast
      ultimately show "\<forall>u \<in> fst ` set (a # active). rolled_back u (read_all_logs wal')" by (simp add: a)
    qed
    moreover have "undo (a # active) wal io = Some res'" using res(1) Done x res'(1) by (simp add: a)
    ultimately show ?thesis by blast
  qed (use res(1) in \<open>simp_all add: a\<close>)
qed

lemma sum_filter_le:
  "distinct (map fst kvs) \<Longrightarrow> sum_list (map (\<lambda>(k, v). length (filter (\<lambda>x. f x = k) xs)) kvs) \<le> length xs"
proof (induction kvs arbitrary: xs)
  case (Cons a kvs)
  obtain k v where a: "a = (k, v)" by (cases a)
  have "filter (\<lambda>x. f x = k') xs = filter (\<lambda>x. f x = k') (filter (\<lambda>x. f x \<noteq> k) xs)" if "(k', v') \<in> set kvs" for k' v'
    using Cons.prems a that by (auto intro!: filter_cong simp: image_iff)
  then have "sum_list (map (\<lambda>(k, v). length (filter (\<lambda>x. f x = k) xs)) kvs) =
      sum_list (map (\<lambda>(k', v). length (filter (\<lambda>x. f x = k') (filter (\<lambda>x. f x \<noteq> k) xs))) kvs)"
    by (intro arg_cong [where f = sum_list] map_cong) auto
  also have "\<dots> \<le> length (filter (\<lambda>x. f x \<noteq> k) xs)" using Cons.IH [of "filter (\<lambda>x. f x \<noteq> k) xs"] Cons.prems by (simp del: filter_filter)
  finally show ?case using sum_length_filter_compl [of "\<lambda>x. f x = k" xs] by (simp add: a)
qed simp

lemma undo_cost_le:
  assumes "distinct (map fst active)"
  shows "undo_cost active wal \<le> length active + length (read_all_logs wal)"
proof -
  have "undo_cost active wal = length active + sum_list (map (\<lambda>(t, l). length (txn_records t wal)) active)"
    unfolding undo_cost_def by (induction active) auto
  with sum_filter_le [OF assms, of extract_txn_id "read_all_logs wal"] show ?thesis by (simp add: txn_records_def)
qed

lemma active_txns_length: "length (active_txns wal) \<le> length wal"
proof -
  have "length (active_txns wal) = card (fst ` set (active_txns wal))"
    using distinct_card [OF active_txns_distinct, of wal] by simp
  also have "\<dots> \<le> card (extract_txn_id ` set wal)"
    using active_txns_mem by (intro card_mono subsetI) (simp, blast)
  also have "\<dots> \<le> length wal" by (meson card_image_le card_length finite_set le_trans)
  finally show ?thesis .
qed

lemma redo_pass_cases:
  "recover order cp wal io = (case redo_pass cp (read_all_logs wal) io of
     Done io \<Rightarrow> undo (order (active_txns (read_all_logs wal))) wal io
   | Failed \<Rightarrow> Some Failed | Raised e \<Rightarrow> Some (Raised e) | Undef \<Rightarrow> Some Undef)"
  unfolding recover_def active_txns_def Let_def by (rule refl)

lemma get_last_lsns_active: "(t, l) \<in> set (active_txns wal) \<Longrightarrow> \<exists>r \<in> set wal. extract_lsn r = l \<and> extract_txn_id r = t"
  using last_lsns_mem unfolding active_txns_def get_active_txns_def by fastforce

lemma grown_not_active:
  assumes "grown (fst ` set active) wal wal' n" and "set active = set (active_txns (read_all_logs wal))"
    and "\<forall>t \<in> fst ` set active. rolled_back t (read_all_logs wal')"
  shows "active_txns (read_all_logs wal') = []"
proof -
  obtain ext where ext: "read_all_logs wal' = read_all_logs wal @ ext" "\<forall>r \<in> set ext. extract_txn_id r \<in> fst ` set active"
    using assms(1) unfolding grown_def by blast
  have "t \<notin> fst ` set (active_txns (read_all_logs wal'))" for t
  proof
    assume t: "t \<in> fst ` set (active_txns (read_all_logs wal'))"
    then have nt: "t \<in> extract_txn_id ` set (read_all_logs wal')" "\<not> committed t (read_all_logs wal')" "\<not> rolled_back t (read_all_logs wal')"
      using active_txns_mem by blast+
    then have "t \<notin> fst ` set active" using assms(3) by blast
    then have "t \<in> extract_txn_id ` set (read_all_logs wal)" using nt(1) ext by (auto simp del: image_eqI)
    moreover have "\<not> committed t (read_all_logs wal)" "\<not> rolled_back t (read_all_logs wal)"
      using nt(2,3) unfolding ext(1) by (auto simp: committed_def rolled_back_def)
    ultimately show False using active_txns_mem \<open>t \<notin> fst ` set active\<close> assms(2) by blast
  qed
  then show ?thesis by (cases "active_txns (read_all_logs wal')") auto
qed

section \<open>Redo replays the log\<close>

text \<open>Rows and pages that can be stored: \<open>K\<close> rows of at most \<open>M\<close> bytes each.\<close>

definition row_fits :: "nat \<Rightarrow> data_row \<Rightarrow> bool" where
  "row_fits M r \<longleftrightarrow> ok_dr r \<and> length (ms_buffer (serialize_dr r)) \<le> M"

definition page_fits :: "nat \<Rightarrow> nat \<Rightarrow> data_page \<Rightarrow> bool" where
  "page_fits K M p \<longleftrightarrow> length (dp_rows p) \<le> K \<and> (\<forall>r \<in> set (dp_rows p). row_fits M r)"

fun rec_fits :: "nat \<Rightarrow> wal_record \<Rightarrow> bool" where
  "rec_fits M (InsertRecord r) = row_fits M (ins_after r)"
| "rec_fits M (UpdateRecord r) = row_fits M (upd_after r)"
| "rec_fits M (CLRUpdateRecord r) = row_fits M (clr_upd_before r)"
| "rec_fits M _ = True"

lemma row_fits_tokens: "dr_tokens r = dr_tokens q \<Longrightarrow> row_fits M r = row_fits M q"
  by (simp add: row_fits_def ok_dr_def length_serialize_dr)

lemma row_fits_flags [simp]: "row_fits M (set_obsolete r) = row_fits M r" "row_fits M (clear_obsolete r) = row_fits M r"
  by (rule row_fits_tokens; simp add: set_obsolete_def clear_obsolete_def)+

lemma page_fits_update:
  assumes "page_fits K M p" and "\<And>r. row_fits M r \<Longrightarrow> row_fits M (f r)"
  shows "page_fits K M (p\<lparr>dp_rows := update_row_with i f (dp_rows p)\<rparr>)"
proof -
  have len: "length (update_row_with i f rows) = length rows" for rows by (induction rows) auto
  have fits: "\<forall>r \<in> set (update_row_with i f rows). row_fits M r" if "\<forall>r \<in> set rows. row_fits M r" for rows
    using that assms(2) by (induction rows) auto
  have "\<forall>r \<in> set (update_row_with i f (dp_rows p)). row_fits M r"
    by (rule fits) (use assms(1) in \<open>simp add: page_fits_def\<close>)
  then show ?thesis using assms(1) len by (simp add: page_fits_def)
qed

lemma page_fits_add:
  "page_fits K M p \<Longrightarrow> row_fits M r \<Longrightarrow> page_fits (Suc K) M (p\<lparr>dp_rows := dp_rows p @ [r]\<rparr>)"
  by (auto simp: page_fits_def)

lemma page_fits_mono: "page_fits K M p \<Longrightarrow> K \<le> L \<Longrightarrow> page_fits L M p"
  by (simp add: page_fits_def)

text \<open>The change of one record, with its LSN.\<close>

definition redo_record :: "wal_record \<Rightarrow> data_page \<Rightarrow> data_page" where
  "redo_record r p = (redo_page r p)\<lparr>dp_last_lsn := extract_lsn r\<rparr>"

lemma redo_page_fields: "\<exists>rows. redo_page r p = p\<lparr>dp_rows := rows\<rparr>"
  by (rule exI [of _ "dp_rows (redo_page r p)"]) (cases r; simp)

lemma redo_record_sel [simp]:
  "dp_id (redo_record r p) = dp_id p" "dp_path (redo_record r p) = dp_path p"
  "dp_last_lsn (redo_record r p) = extract_lsn r" "dp_table_id (redo_record r p) = dp_table_id p"
  using redo_page_fields [of r p] by (auto simp: redo_record_def)

lemma redo_page_fits:
  assumes "page_fits K M p" and "rec_fits M r"
  shows "page_fits (Suc K) M (redo_record r p)"
proof -
  have upd: "page_fits (Suc K) M (p\<lparr>dp_rows := update_row_with i f (dp_rows p)\<rparr>)"
    if "\<And>r. row_fits M r \<Longrightarrow> row_fits M (f r)" for i f
    using page_fits_mono [OF page_fits_update [OF assms(1) that]] by simp
  have same: "page_fits (Suc K) M p" using page_fits_mono [OF assms(1)] by simp
  have "page_fits (Suc K) M (redo_page r p)"
  proof (cases r)
    case (UpdateRecord u)
    have "page_fits K M (p\<lparr>dp_rows := update_row_with (dr_id (upd_before u)) set_obsolete (dp_rows p)\<rparr>)"
      by (rule page_fits_update [OF assms(1)]) simp
    from page_fits_add [OF this, of "upd_after u"] UpdateRecord assms(2) show ?thesis by simp
  next
    case (CLRUpdateRecord u)
    have "row_fits M (clear_obsolete (q\<lparr>dr_tokens := dr_tokens (clr_upd_before u)\<rparr>))" for q
      using assms(2) CLRUpdateRecord row_fits_tokens [of "q\<lparr>dr_tokens := dr_tokens (clr_upd_before u)\<rparr>" "clr_upd_before u"] by simp
    with CLRUpdateRecord show ?thesis by (simp add: upd)
  qed (use assms(2) page_fits_add [OF assms(1)] same in \<open>simp_all add: upd\<close>)
  then show ?thesis by (simp add: redo_record_def page_fits_def)
qed

lemma stored_redo_record: "stored_page (redo_record r (stored_page p)) = stored_page (redo_record r p)"
proof -
  have "dp_rows (redo_page r (stored_page p)) = dp_rows (redo_page r p)" by (cases r) simp_all
  moreover obtain rows rows' where "redo_page r (stored_page p) = (stored_page p)\<lparr>dp_rows := rows\<rparr>"
    "redo_page r p = p\<lparr>dp_rows := rows'\<rparr>" using redo_page_fields by metis
  ultimately show ?thesis by (simp add: redo_record_def stored_page_def length_serialize_dp)
qed

lemma stored_page_idem [simp]: "stored_page (stored_page p) = stored_page p"
  by (simp add: stored_page_def length_serialize_dp)

lemma page_fits_stored [simp]: "page_fits K M (stored_page p) = page_fits K M p"
  by (simp add: page_fits_def)

lemma page_fits_storable:
  assumes "page_fits K M p" and "80 + K * M \<le> max_alloc" and "40 \<le> M"
  shows "ok_vec 40 (dp_rows p)" and "list_all ok_dr (dp_rows p)" and "length (ms_buffer (serialize_dp p)) \<le> max_alloc"
proof -
  have "length (dp_rows p) * 40 \<le> K * M" using assms(1,3) by (intro mult_mono) (simp_all add: page_fits_def)
  with assms(2) show "ok_vec 40 (dp_rows p)" by (simp add: ok_vec_def)
  show "list_all ok_dr (dp_rows p)" using assms(1) by (simp add: page_fits_def row_fits_def list_all_iff)
  have "(\<Sum>r\<leftarrow>dp_rows p. length (ms_buffer (serialize_dr r))) \<le> (\<Sum>r\<leftarrow>dp_rows p. M)"
    using assms(1) by (intro sum_list_mono) (simp add: page_fits_def row_fits_def)
  also have "\<dots> = length (dp_rows p) * M" by (simp add: sum_list_triv)
  also have "\<dots> \<le> K * M" using assms(1) by (simp add: page_fits_def)
  finally show "length (ms_buffer (serialize_dp p)) \<le> max_alloc" using assms(2) by (simp add: length_serialize_dp)
qed

text \<open>
  A database recovery can work on: sound stores of pages and descriptors, every table under its own name in the directory
  of its schema with room for page files, and pages that can be written back.
\<close>

definition catalog_named :: "file_io \<Rightarrow> bool" where
  "catalog_named io \<longleftrightarrow> (\<forall>s t mt. table_at io s t mt \<longrightarrow> mt_name mt = t \<and>
     (\<exists>ms. schema_at io s ms \<and> sc_id ms = mt_schema_id mt \<and> sc_name ms = s \<and> sc_id ms \<noteq> 0) \<and>
     (\<forall>pid. writable (io_root io) (path_db_schema_table_data (io_db_name io) s t @ [io_name io pid])))"

definition pages_fit :: "nat \<Rightarrow> nat \<Rightarrow> file_io \<Rightarrow> bool" where
  "pages_fit K M io \<longleftrightarrow> (\<forall>pid. \<exists>found. read_data_page io pid = Done found \<and>
     (\<forall>p. found = Some p \<longrightarrow> dp_id p = pid \<and> storable io p \<and> page_fits K M p))"

definition rec_ok :: "nat \<Rightarrow> nat \<Rightarrow> file_io \<Rightarrow> bool" where
  "rec_ok K M io \<longleftrightarrow> store_ok io \<and> catalog_ok io \<and> catalog_named io \<and> pages_fit K M io"

lemma rec_ok_parts:
  assumes "rec_ok K M io"
  shows "store_ok io" and "catalog_ok io" and "io_ok io" and "wf_fs (io_root io)" and "catalog_named io" and "pages_fit K M io"
proof -
  show st: "store_ok io" and "catalog_ok io" and "catalog_named io" and "pages_fit K M io"
    using assms unfolding rec_ok_def by blast+
  show io: "io_ok io" using st unfolding store_ok_def by blast
  then show "wf_fs (io_root io)" unfolding io_ok_def by blast
qed

lemma is_directory_prefix:
  assumes "fs_get n [db, s, t] = Some (Dir es)"
  shows "is_directory n [db, s]"
proof -
  have "fs_get n ([db, s] @ [t]) = Some (Dir es)" using assms by simp
  then obtain m where "fs_get n [db, s] = Some m" "fs_get m [t] = Some (Dir es)"
    unfolding fs_get_append by (auto split: option.splits)
  then show ?thesis by (cases m) (auto simp: is_directory_def)
qed

lemma found_page_home:
  assumes "store_ok io" and "read_data_page io pid = Done (Some p)" and "dp_id p = pid" and "storable io p"
  shows "\<exists>s t. page_home io p s t \<and> is_directory (io_root io) [io_db_name io, s]"
proof -
  obtain u v where h: "page_home io p u v" using assms(4) by (auto simp: storable_def)
  have "\<exists>s t c. s \<noteq> PATH_WAL \<and> page_file io s t pid = Some c"
  proof (rule ccontr)
    assume no: "\<not> ?thesis"
    have "page_file io s t pid = None" if "s \<noteq> PATH_WAL" for s t using no that by (cases "page_file io s t pid") auto
    moreover have "io_ok io" using assms(1) unfolding store_ok_def by blast
    ultimately have "read_data_page io pid = Done None" using read_data_page_none by blast
    with assms(2) show False by simp
  qed
  then obtain s t c where f: "s \<noteq> PATH_WAL" "page_file io s t pid = Some c" by blast
  moreover from this h assms(3) have "s = u \<and> t = v" unfolding page_home_def by blast
  ultimately have "page_file io u v pid = Some c" by simp
  from page_file_in_dir [OF this] h is_directory_prefix show ?thesis by blast
qed

lemma table_at_dir:
  assumes "table_at io s t mt"
  shows "s \<noteq> PATH_WAL" and "is_directory (io_root io) [io_db_name io, s]"
  using assms table_file_dir is_directory_prefix unfolding table_at_def by blast+

text \<open>Writing a page that fits keeps all of this.\<close>

lemma write_page_rec_ok:
  assumes "rec_ok K M io" and "page_home io p s t" and "is_directory (io_root io) [io_db_name io, s]"
    and "storable io p" and "page_fits (Suc K) M p" and "write_page io p fsync = Done io'"
  shows "rec_ok (Suc K) M io'" and "same_catalog io io'" and "read_data_page io' (dp_id p) = Done (Some (stored_page p))"
    and "\<And>q. q \<noteq> dp_id p \<Longrightarrow> read_data_page io' q = read_data_page io q"
proof -
  note ok = rec_ok_parts [OF assms(1)]
  note st = ok(1) and cat = ok(2) and io = ok(3) and wf = ok(4)
  obtain r where r: "put_file fsync (io_root io) (dp_path p) (ms_buffer (serialize_dp p)) = Done r" "io' = io\<lparr>io_root := r\<rparr>"
    using assms(6) by (auto simp: write_page_def obind_Done_conv)
  have path: "dp_path p = [io_db_name io, s, t, PATH_DATA, io_name io (dp_id p)]"
    using assms(2) by (simp add: page_home_def path_db_schema_table_data_def)
  show same: "same_catalog io io'"
    using put_file_same_catalog [OF io] r assms(3) unfolding path by simp
  show rdback: "read_data_page io' (dp_id p) = Done (Some (stored_page p))" by (rule fpages.read_back [OF st assms(4,6)])
  show rdframe: "read_data_page io' q = read_data_page io q" if "q \<noteq> dp_id p" for q
    by (rule fpages.read_frame [OF st assms(4,6) that])
  have name: "io_name io' = io_name io" and root: "io_root io' = r" "io_db_name io' = io_db_name io"
    by (simp_all add: io_name_def r(2) fun_eq_iff)
  have wr: "writable r q" if "writable (io_root io) q" "length q = 5" for q
    using writable_put_file [OF wf r(1)] that path by simp
  have "catalog_named io'"
    using ok(5) wr unfolding catalog_named_def same_catalog_at [OF same] name root
    by (simp add: path_db_schema_table_data_def)
  moreover have "pages_fit (Suc K) M io'"
    unfolding pages_fit_def
  proof
    fix pid
    show "\<exists>found. read_data_page io' pid = Done found \<and>
      (\<forall>p. found = Some p \<longrightarrow> dp_id p = pid \<and> storable io' p \<and> page_fits (Suc K) M p)"
    proof (cases "pid = dp_id p")
      case True
      have "storable io' p" by (rule fpages.can_same [OF st assms(4,6)])
      then have "storable io' (stored_page p)"
        by (simp add: storable_def page_home_def length_serialize_dp)
      with True rdback assms(5) show ?thesis by simp
    next
      case False
      obtain found where f: "read_data_page io pid = Done found"
        "\<forall>p. found = Some p \<longrightarrow> dp_id p = pid \<and> storable io p \<and> page_fits K M p"
        using assms(1) unfolding rec_ok_def pages_fit_def by blast
      then have "\<forall>q. found = Some q \<longrightarrow> storable io' q"
        using fpages.can_frame [OF st assms(4,6)] False by blast
      with f rdframe [OF False] page_fits_mono show ?thesis by auto
    qed
  qed
  ultimately show "rec_ok (Suc K) M io'"
    using fpages.write_ok [OF st assms(4,6)] same_catalog_ok [OF same cat] by (simp add: rec_ok_def)
qed

lemma rec_ok_mono: "rec_ok K M io \<Longrightarrow> K \<le> L \<Longrightarrow> rec_ok L M io"
  using page_fits_mono unfolding rec_ok_def pages_fit_def by blast

text \<open>The page a record is applied to: the one found, or a new one for its table.\<close>

definition redo_base :: "file_io \<Rightarrow> uuid \<Rightarrow> uuid \<Rightarrow> data_page outcome" where
  "redo_base io table_id page_id =
     obind (read_data_page io page_id) (\<lambda>found.
     obind (read_table_meta io table_id) (\<lambda>mt.
     case found of Some page \<Rightarrow> Done page | None \<Rightarrow> create_page io mt page_id))"

lemma redo_data_base:
  "redo_data r table_id page_id io = obind (redo_base io table_id page_id) (\<lambda>page.
     if dp_last_lsn page < extract_lsn r then write_page io (redo_record r page) False else Done io)"
  unfolding redo_data_def redo_base_def redo_record_def obind_assoc by (rule refl)

lemma redo_base_Done:
  assumes "rec_ok K M io" and "table_at io s t mt" and "mt_id mt = tid"
  shows "\<exists>p. redo_base io tid pid = Done p \<and> dp_id p = pid \<and> page_fits K M p \<and>
    (\<exists>s t. page_home io p s t \<and> is_directory (io_root io) [io_db_name io, s]) \<and> writable (io_root io) (dp_path p) \<and>
    (read_data_page io pid = Done (Some p) \<or> read_data_page io pid = Done None \<and> dp_last_lsn p = 0)"
proof -
  note ok = rec_ok_parts [OF assms(1)]
  note st = ok(1) and cat = ok(2)
  have mt: "read_table_meta io tid = Done mt" using read_table_meta_conv [OF cat] assms(2,3) by blast
  obtain found where f: "read_data_page io pid = Done found"
    "\<forall>p. found = Some p \<longrightarrow> dp_id p = pid \<and> storable io p \<and> page_fits K M p"
    using assms(1) unfolding rec_ok_def pages_fit_def by blast
  show ?thesis
  proof (cases found)
    case (Some p)
    with f have p: "dp_id p = pid" "storable io p" "page_fits K M p" "read_data_page io pid = Done (Some p)" by simp_all
    with found_page_home [OF st p(4,1,2)] Some mt show ?thesis by (auto simp: redo_base_def storable_def)
  next
    case None
    obtain ms where ms: "mt_name mt = t" "schema_at io s ms" "sc_id ms = mt_schema_id mt" "sc_name ms = s" "sc_id ms \<noteq> 0"
      "\<forall>pid. writable (io_root io) (path_db_schema_table_data (io_db_name io) s t @ [io_name io pid])"
      using assms(1,2) unfolding rec_ok_def catalog_named_def by blast
    let ?p = "data_page_make (io_name io) (path_db_schema_table_data (io_db_name io) s t) tid pid"
    have "create_page io mt pid = Done ?p"
      using read_schema_meta_at [OF cat ms(2,5)] ms by (simp add: create_page_def assms(3))
    moreover have "page_file io s' t' pid = None" if "s' \<noteq> PATH_WAL" for s' t'
    proof (rule ccontr)
      assume "page_file io s' t' pid \<noteq> None"
      then obtain c where c: "page_file io s' t' pid = Some c" by auto
      have "page_at io s' t' pid c \<noteq> Done None" by (auto simp: page_at_def obind_Done_conv split: if_splits)
      with read_data_page_some [OF st that c] f(1) None show False by simp
    qed
    then have "page_home io ?p s t" using table_at_dir(1) [OF assms(2)] by (simp add: page_home_def data_page_make_def)
    ultimately show ?thesis
      using None f(1) mt ms(6) table_at_dir(2) [OF assms(2)] by (auto simp: redo_base_def data_page_make_def page_fits_def)
  qed
qed

definition known_table :: "file_io \<Rightarrow> uuid \<Rightarrow> bool" where
  "known_table io tid \<longleftrightarrow> (\<exists>s t mt. table_at io s t mt \<and> mt_id mt = tid)"

definition redo_one :: "wal_record \<Rightarrow> data_page \<Rightarrow> data_page" where
  "redo_one r p = (if dp_last_lsn p < extract_lsn r then redo_record r p else p)"

lemma disk_view_read: "disk_view io pid = Done (Some q) \<longleftrightarrow> (\<exists>p. read_data_page io pid = Done (Some p) \<and> stored_page p = q)"
  by (auto simp: disk_view_def obind_Done_conv)

lemma redo_data_Done:
  assumes "rec_ok K M io" and "known_table io tid" and "rec_fits M r" and "0 < extract_lsn r"
    and "80 + Suc K * M \<le> max_alloc" and "40 \<le> M"
  shows "\<exists>io' p. redo_data r tid pid io = Done io' \<and> rec_ok (Suc K) M io' \<and> same_catalog io io' \<and>
    redo_base io tid pid = Done p \<and> disk_view io' pid = Done (Some (stored_page (redo_one r p))) \<and>
    (\<forall>q. q \<noteq> pid \<longrightarrow> read_data_page io' q = read_data_page io q)"
proof -
  obtain s t mt where mt: "table_at io s t mt" "mt_id mt = tid" using assms(2) by (auto simp: known_table_def)
  obtain p u v where p: "redo_base io tid pid = Done p" "dp_id p = pid" "page_fits K M p" "page_home io p u v"
    "is_directory (io_root io) [io_db_name io, u]" "writable (io_root io) (dp_path p)"
    "read_data_page io pid = Done (Some p) \<or> read_data_page io pid = Done None \<and> dp_last_lsn p = 0"
    using redo_base_Done [OF assms(1) mt, of pid] by blast
  show ?thesis
  proof (cases "dp_last_lsn p < extract_lsn r")
    case True
    let ?p = "redo_record r p"
    have fits: "page_fits (Suc K) M ?p" by (rule redo_page_fits [OF p(3) assms(3)])
    have home: "page_home io ?p u v" using p(4) by (simp add: page_home_def)
    have st: "storable io ?p"
      using page_fits_storable [OF fits assms(5,6)] home p(6) unfolding storable_def by auto
    obtain io' where w: "write_page io ?p False = Done io'"
      using fpages.write_total [OF rec_ok_parts(1) [OF assms(1)] st] by blast
    note wr = write_page_rec_ok [OF assms(1) home p(5) st fits w]
    have "redo_data r tid pid io = Done io'" using True p(1) w by (simp add: redo_data_base)
    moreover have "disk_view io' pid = Done (Some (stored_page (redo_one r p)))"
      using wr(3) p(2) True by (simp add: disk_view_def redo_one_def)
    ultimately show ?thesis using wr p(1,2) by auto
  next
    case False
    then have "read_data_page io pid = Done (Some p)" using p(7) assms(4) by auto
    moreover have "redo_data r tid pid io = Done io" using False p(1) by (simp add: redo_data_base)
    moreover have "same_catalog io io" using rec_ok_parts(3) [OF assms(1)] by (simp add: same_catalog_def)
    moreover have "rec_ok (Suc K) M io" by (rule rec_ok_mono [OF assms(1)]) simp
    ultimately show ?thesis using False p(1) by (auto simp: redo_one_def disk_view_def)
  qed
qed

text \<open>What a page becomes depends on its stored form only.\<close>

lemma stored_redo_one:
  assumes "stored_page p = stored_page q"
  shows "stored_page (redo_one r p) = stored_page (redo_one r q)"
proof -
  have "dp_last_lsn p = dp_last_lsn q" using assms stored_page_sel(3) by metis
  moreover have "stored_page (redo_record r p) = stored_page (redo_record r q)"
    using stored_redo_record [of r p] stored_redo_record [of r q] assms by simp
  ultimately show ?thesis using assms by (simp add: redo_one_def)
qed

lemma stored_fold_redo_one:
  "stored_page p = stored_page q \<Longrightarrow> stored_page (fold redo_one us p) = stored_page (fold redo_one us q)"
proof (induction us arbitrary: p q)
  case (Cons r us)
  from Cons.IH [OF stored_redo_one [OF Cons.prems]] show ?case by simp
qed simp

lemma same_catalog_known:
  assumes "same_catalog io io'"
  shows "known_table io' = known_table io"
  unfolding known_table_def same_catalog_at [OF assms] by (rule refl)

lemma same_catalog_trans: "same_catalog io io1 \<Longrightarrow> same_catalog io1 io2 \<Longrightarrow> same_catalog io io2"
  by (simp add: same_catalog_def)

lemma redo_base_same:
  assumes "rec_ok K M io" and "same_catalog io io'" and "known_table io tid"
    and "read_data_page io' pid = read_data_page io pid"
  shows "redo_base io' tid pid = redo_base io tid pid"
proof -
  note ok = rec_ok_parts [OF assms(1)]
  obtain s t mt where mt: "table_at io s t mt" "mt_id mt = tid" using assms(3) by (auto simp: known_table_def)
  have rd: "read_table_meta io tid = Done mt" using read_table_meta_conv [OF ok(2)] mt by blast
  have rd': "read_table_meta io' tid = Done mt" using same_catalog_table [OF assms(2) ok(2)] rd by simp
  have "mt_schema_id mt \<noteq> 0" using ok(5) mt(1) unfolding catalog_named_def by metis
  then have "read_schema_meta io' (mt_schema_id mt) = read_schema_meta io (mt_schema_id mt)"
    by (rule same_catalog_schema [OF assms(2) ok(2)])
  moreover have "io_name io' = io_name io" "io_db_name io' = io_db_name io"
    using assms(2) by (simp_all add: same_catalog_def io_name_def fun_eq_iff)
  ultimately have "create_page io' mt pid = create_page io mt pid" by (simp add: create_page_def)
  with assms(4) rd rd' show ?thesis by (simp add: redo_base_def cong: option.case_cong)
qed

lemma redo_base_found:
  assumes "rec_ok K M io" and "known_table io tid" and "read_data_page io pid = Done (Some p)"
  shows "redo_base io tid pid = Done p"
proof -
  obtain s t mt where mt: "table_at io s t mt" "mt_id mt = tid" using assms(2) by (auto simp: known_table_def)
  have "read_table_meta io tid = Done mt" using read_table_meta_conv [OF rec_ok_parts(2) [OF assms(1)]] mt by blast
  with assms(3) show ?thesis by (simp add: redo_base_def)
qed

text \<open>The records redo applies, and what they may be here: changes of rows in known tables.\<close>

definition must_redo :: "lsn \<Rightarrow> (uuid \<rightharpoonup> lsn) \<Rightarrow> wal_record \<Rightarrow> bool" where
  "must_redo cp commits r \<longleftrightarrow> cp < extract_lsn r \<and>
     (undo_next_lsn r = None \<longrightarrow> (\<exists>c. commits (extract_txn_id r) = Some c \<and> extract_lsn r \<le> c))"

definition on_page :: "uuid \<Rightarrow> wal_record \<Rightarrow> bool" where
  "on_page pid r \<longleftrightarrow> (\<exists>tid. data_ids r = Some (tid, pid))"

definition redoable :: "nat \<Rightarrow> file_io \<Rightarrow> wal_record \<Rightarrow> bool" where
  "redoable M io r \<longleftrightarrow> 0 < extract_lsn r \<and> rec_fits M r \<and>
     (case data_ids r of Some (tid, pid) \<Rightarrow> known_table io tid | None \<Rightarrow> \<not> is_meta_record r \<and> undo_next_lsn r = None)"

lemma redo_must:
  "redo cp commits r io =
     (if must_redo cp commits r
      then case data_ids r of Some (tid, pid) \<Rightarrow> redo_data r tid pid io | None \<Rightarrow> redo_meta r io
      else Done io)"
  by (auto simp: redo_def must_redo_def split: option.splits)

lemma redo_meta_other: "\<not> is_meta_record r \<Longrightarrow> undo_next_lsn r = None \<Longrightarrow> redo_meta r io = Done io"
  by (cases r) simp_all

definition page_records :: "lsn \<Rightarrow> (uuid \<rightharpoonup> lsn) \<Rightarrow> uuid \<Rightarrow> wal_record list \<Rightarrow> wal_record list" where
  "page_records cp commits pid rs = filter (\<lambda>r. must_redo cp commits r \<and> on_page pid r) rs"

definition page_replayed :: "lsn \<Rightarrow> (uuid \<rightharpoonup> lsn) \<Rightarrow> wal_record list \<Rightarrow> file_io \<Rightarrow> file_io \<Rightarrow> uuid \<Rightarrow> bool" where
  "page_replayed cp commits rs io io' pid \<longleftrightarrow>
     (case page_records cp commits pid rs of
        [] \<Rightarrow> read_data_page io' pid = read_data_page io pid
      | r # us \<Rightarrow> \<exists>tid p. data_ids r = Some (tid, pid) \<and> redo_base io tid pid = Done p \<and>
          disk_view io' pid = Done (Some (stored_page (fold redo_one (r # us) p))))"

lemma page_replayed_step:
  assumes "rec_ok K M io" and "rec_ok L M io1" and "same_catalog io io1" and "\<forall>r \<in> set rs. must_redo cp commits r \<longrightarrow> redoable M io r"
    and "page_replayed cp commits rs io1 io' pid" and "must_redo cp commits r" and "data_ids r = Some (tid, pid0)"
    and "redo_base io tid pid0 = Done p" and "disk_view io1 pid0 = Done (Some (stored_page (redo_one r p)))"
    and "\<forall>q. q \<noteq> pid0 \<longrightarrow> read_data_page io1 q = read_data_page io q"
  shows "page_replayed cp commits (r # rs) io io' pid"
proof (cases "pid = pid0")
  case False
  then have same: "page_records cp commits pid (r # rs) = page_records cp commits pid rs"
    using assms(7) by (simp add: page_records_def on_page_def)
  have rd: "read_data_page io1 pid = read_data_page io pid" using assms(10) False by blast
  show ?thesis
  proof (cases "page_records cp commits pid rs")
    case Nil
    then show ?thesis using assms(5) rd unfolding page_replayed_def same by simp
  next
    case (Cons r' us)
    then have "r' \<in> set (page_records cp commits pid rs)" by simp
    then have "r' \<in> set rs" "must_redo cp commits r'" by (simp_all add: page_records_def)
    moreover obtain tid' p' where r': "data_ids r' = Some (tid', pid)" "redo_base io1 tid' pid = Done p'"
      "disk_view io' pid = Done (Some (stored_page (fold redo_one (r' # us) p')))"
      using assms(5) Cons unfolding page_replayed_def by auto
    ultimately have "known_table io tid'" using assms(4) unfolding redoable_def by force
    from redo_base_same [OF assms(1,3) this rd] r'(2) have "redo_base io tid' pid = Done p'" by simp
    with r'(1,3) show ?thesis unfolding page_replayed_def same Cons by auto
  qed
next
  case True
  have recs: "page_records cp commits pid (r # rs) = r # page_records cp commits pid rs"
    using assms(6,7) True by (simp add: page_records_def on_page_def)
  obtain p1 where p1: "read_data_page io1 pid = Done (Some p1)" "stored_page p1 = stored_page (redo_one r p)"
    using assms(9) True by (auto simp: disk_view_read)
  have "disk_view io' pid = Done (Some (stored_page (fold redo_one (r # page_records cp commits pid rs) p)))"
  proof (cases "page_records cp commits pid rs")
    case Nil
    then have "read_data_page io' pid = Done (Some p1)" using assms(5) p1(1) unfolding page_replayed_def by simp
    then show ?thesis using Nil p1(2) by (simp add: disk_view_def)
  next
    case (Cons r' us)
    then have "r' \<in> set (page_records cp commits pid rs)" by simp
    then have m: "r' \<in> set rs" "must_redo cp commits r'" by (simp_all add: page_records_def)
    obtain tid' p' where r': "data_ids r' = Some (tid', pid)" "redo_base io1 tid' pid = Done p'"
      "disk_view io' pid = Done (Some (stored_page (fold redo_one (r' # us) p')))"
      using assms(5) Cons unfolding page_replayed_def by auto
    have "known_table io1 tid'" using assms(4) m r'(1) same_catalog_known [OF assms(3)] unfolding redoable_def by force
    with redo_base_found [OF assms(2) _ p1(1)] r'(2) have "p' = p1" by simp
    with r'(3) stored_fold_redo_one [OF p1(2), of "r' # us"] Cons show ?thesis by simp
  qed
  with assms(7,8) True recs show ?thesis unfolding page_replayed_def by simp
qed

lemma redo_list:
  assumes "rec_ok K M io" and "80 + (K + length rs) * M \<le> max_alloc" and "40 \<le> M"
    and "\<forall>r \<in> set rs. must_redo cp commits r \<longrightarrow> redoable M io r"
  shows "\<exists>io'. ofold (redo cp commits) rs io = Done io' \<and> rec_ok (K + length rs) M io' \<and> same_catalog io io' \<and>
    (\<forall>pid. page_replayed cp commits rs io io' pid)"
  using assms
proof (induction rs arbitrary: io K)
  case Nil
  have "same_catalog io io" using rec_ok_parts(3) [OF Nil.prems(1)] by (simp add: same_catalog_def)
  with Nil.prems(1) show ?case by (simp add: page_replayed_def page_records_def)
next
  case (Cons r rs)
  have tl: "\<forall>r \<in> set rs. must_redo cp commits r \<longrightarrow> redoable M io r" using Cons.prems(4) by simp
  have sz: "80 + (Suc K + length rs) * M \<le> max_alloc" using Cons.prems(2) by simp
  show ?case
  proof (cases "must_redo cp commits r \<and> data_ids r \<noteq> None")
    case True
    then obtain tid pid0 where ids: "data_ids r = Some (tid, pid0)" by auto
    have ok: "known_table io tid" "rec_fits M r" "0 < extract_lsn r"
      using Cons.prems(4) True ids by (auto simp: redoable_def)
    have "Suc K * M \<le> (Suc K + length rs) * M" by (rule mult_le_mono1) simp
    then have "80 + Suc K * M \<le> max_alloc" using sz by linarith
    from redo_data_Done [OF Cons.prems(1) ok this Cons.prems(3), of pid0]
    obtain io1 p where io1: "redo_data r tid pid0 io = Done io1" "rec_ok (Suc K) M io1" "same_catalog io io1"
      "redo_base io tid pid0 = Done p" "disk_view io1 pid0 = Done (Some (stored_page (redo_one r p)))"
      "\<forall>q. q \<noteq> pid0 \<longrightarrow> read_data_page io1 q = read_data_page io q" by blast
    have tl1: "\<forall>r \<in> set rs. must_redo cp commits r \<longrightarrow> redoable M io1 r"
      using tl unfolding redoable_def same_catalog_known [OF io1(3)] .
    obtain io' where io': "ofold (redo cp commits) rs io1 = Done io'" "rec_ok (Suc K + length rs) M io'" "same_catalog io1 io'"
      "\<forall>pid. page_replayed cp commits rs io1 io' pid"
      using Cons.IH [OF io1(2) sz Cons.prems(3) tl1] by blast
    have "page_replayed cp commits (r # rs) io io' pid" for pid
      by (rule page_replayed_step [OF Cons.prems(1) io1(2,3) tl io'(4) [rule_format] conjunct1 [OF True] ids io1(4-6)])
    moreover have "redo cp commits r io = Done io1" using True ids io1(1) by (simp add: redo_must)
    ultimately show ?thesis using io'(1,2) same_catalog_trans [OF io1(3) io'(3)] by auto
  next
    case False
    have r: "redo cp commits r io = Done io"
      using False Cons.prems(4) redo_meta_other [of r io] by (auto simp: redo_must redoable_def split: option.splits)
    have recs: "page_records cp commits pid (r # rs) = page_records cp commits pid rs" for pid
      using False by (auto simp: page_records_def on_page_def)
    obtain io' where "ofold (redo cp commits) rs io = Done io'" "rec_ok (Suc K + length rs) M io'" "same_catalog io io'"
      "\<forall>pid. page_replayed cp commits rs io io' pid"
      using Cons.IH [OF rec_ok_mono [OF Cons.prems(1) le_SucI [OF order.refl]] sz Cons.prems(3) tl] by blast
    with r recs show ?thesis by (auto simp: page_replayed_def)
  qed
qed

text \<open>With increasing LSNs, the records applied to a page are those above its LSN.\<close>

lemma fold_redo_one:
  "lsns_increasing us \<Longrightarrow> fold redo_one us p = fold redo_record (filter (\<lambda>r. dp_last_lsn p < extract_lsn r) us) p"
proof (induction us arbitrary: p)
  case (Cons r us)
  have inc: "lsns_increasing us" "\<forall>q \<in> set us. extract_lsn r < extract_lsn q" using Cons.prems by (auto simp: lsns_increasing_def)
  show ?case
  proof (cases "dp_last_lsn p < extract_lsn r")
    case True
    then have "filter (\<lambda>q. dp_last_lsn p < extract_lsn q) us = us" "filter (\<lambda>q. extract_lsn r < extract_lsn q) us = us"
      using inc(2) by (auto simp: filter_id_conv)
    with True Cons.IH [OF inc(1), of "redo_record r p"] show ?thesis by (simp add: redo_one_def)
  next
    case False
    with Cons.IH [OF inc(1)] show ?thesis by (simp add: redo_one_def)
  qed
qed simp

lemma redo_one_last_lsn: "dp_last_lsn p \<le> dp_last_lsn (redo_one r p)" "extract_lsn r \<le> dp_last_lsn (redo_one r p)"
  by (auto simp: redo_one_def)

lemma fold_redo_one_last_lsn:
  "dp_last_lsn p \<le> dp_last_lsn (fold redo_one us p)" "r \<in> set us \<Longrightarrow> extract_lsn r \<le> dp_last_lsn (fold redo_one us p)"
proof (induction us arbitrary: p)
  case (Cons q us)
  {
    case 1
    from order.trans [OF redo_one_last_lsn(1) Cons.IH(1)] show ?case by simp
  next
    case 2
    then show ?case using Cons.IH(2) order.trans [OF redo_one_last_lsn(2) Cons.IH(1)] by auto
  }
qed simp_all

lemma lsns_increasing_filter: "lsns_increasing rs \<Longrightarrow> lsns_increasing (filter P rs)"
  by (simp add: lsns_increasing_def sorted_wrt_map sorted_wrt_filter)

section \<open>Properties\<close>


text \<open>A database with one table and no pages, and a log whose transaction inserted a row and committed.\<close>

definition table_io :: file_io where
  "table_io = sample_io\<lparr>io_root := Dir [(''db'', Dir [(''public'', Dir
     [(''public.meta'', File (ms_buffer (serialize_ms sample_schema))),
      (''t'', Dir [(''t.meta'', File (ms_buffer (serialize_mt sample_table)))])])])]\<rparr>"

definition committed_logs :: "wal_record list" where
  "committed_logs =
    [BeginTxnRecord \<lparr>h_lsn = 1, h_prev_lsn = 0, h_txn_id = 8\<rparr>,
     InsertRecord \<lparr>h_lsn = 2, h_prev_lsn = 1, h_txn_id = 8, ins_table_id = 1, ins_page_id = 5, ins_after = sample_row\<rparr>,
     CommitTxnRecord \<lparr>h_lsn = 3, h_prev_lsn = 2, h_txn_id = 8\<rparr>]"

lemma table_io_files:
  "schema_file table_io s = (if s = ''public'' then Some (ms_buffer (serialize_ms sample_schema)) else None)"
  "table_file table_io s t = (if s = ''public'' \<and> t = ''t'' then Some (ms_buffer (serialize_mt sample_table)) else None)"
  "page_file table_io s t pid = None"
  by (auto simp: schema_file_def table_file_def page_file_def table_io_def sample_io_def path_defs fs_file_Dir make_meta_filename_def)

lemma decode_sample_table: "decode_mt (ms_buffer (serialize_mt sample_table)) = Done sample_table"
  by (rule decode_mt_serialized)
    (simp_all add: serialize_mt_def serialize_mc_def serialize_mi_def Let_def stream_simps str_bytes_def bool_byte_def sample_simps)

lemma table_io_ok: "rec_ok 0 1000 table_io" "known_table table_io 1"
proof -
  have sat: "schema_at table_io s ms \<longleftrightarrow> s = ''public'' \<and> ms = sample_schema" for s ms
    by (auto simp: schema_at_def table_io_files decode_sample_schema)
  have tat: "table_at table_io s t mt \<longleftrightarrow> s = ''public'' \<and> t = ''t'' \<and> mt = sample_table" for s t mt
    by (auto simp: table_at_def table_io_files decode_sample_table)
  show "known_table table_io 1" by (simp add: known_table_def tat sample_table_def)
  have io: "io_ok table_io"
    using sample_lib_ok by (simp add: io_ok_def table_io_def sample_io_def path_defs)
  have "s = ''public''" if "is_directory (io_root table_io) [io_db_name table_io, s]" for s
    using that by (auto simp: table_io_def sample_io_def split: if_splits option.splits)
  then have "catalog_ok table_io"
    using io unfolding catalog_ok_def sat tat by (auto simp: table_io_files decode_sample_table)
  moreover have "store_ok table_io" using io by (simp add: store_ok_def table_io_files)
  moreover have "writable (io_root table_io) [''db'', ''public'', ''t'', ''data'', x]" for x
    by (simp add: writable_def table_io_def sample_io_def)
  then have "catalog_named table_io"
    unfolding catalog_named_def sat tat by (auto simp: table_io_def sample_io_def path_defs sample_schema_def sample_table_def)
  moreover have "read_data_page table_io pid = Done None" for pid
    by (rule read_data_page_none [OF io]) (simp add: table_io_files)
  then have "pages_fit 0 1000 table_io" by (simp add: pages_fit_def)
  ultimately show "rec_ok 0 1000 table_io" unfolding rec_ok_def by blast
qed

lemma committed_logs_redoable:
  "\<forall>r \<in> set committed_logs. must_redo 0 (map_of (get_commit_lsns committed_logs)) r \<longrightarrow> redoable 1000 table_io r"
proof -
  have "row_fits 1000 sample_row"
    by (simp add: row_fits_def length_serialize_dr length_serialize_dt sample_simps)
  then show ?thesis using table_io_ok(2) by (simp add: committed_logs_def redoable_def)
qed

lemma committed_logs_size: "80 + (0 + length committed_logs) * 1000 \<le> max_alloc" "(40 :: nat) \<le> 1000"
  by (simp_all add: committed_logs_def max_alloc_def)

lemma committed_page_records: "page_records 0 (map_of (get_commit_lsns committed_logs)) 5 committed_logs = [committed_logs ! 1]"
  by (simp add: page_records_def committed_logs_def get_commit_lsns_def must_redo_def on_page_def)




text \<open>C5: recovery returns on every log whose chains of records lead back within their transactions, in whatever order the
  unfinished transactions are undone; when it returns without an exception the log has only grown, no committed
  transaction was rolled back, the log invariant holds and no transaction is left to undo, so that the next recovery
  undoes nothing.\<close>

theorem recover_finishes:
  assumes "wal_inv wal" and "chain_ok (read_all_logs wal)"
    and "unat (wm_next_lsn wal) + 2 * length (read_all_logs wal) < 2 ^ 64" and "\<forall>xs. mset (order xs) = mset xs"
  shows "\<exists>res. recover order cp wal io = Some res \<and> (\<forall>wal' io'. res = Done (wal', io') \<longrightarrow>
    wal_inv wal' \<and> chain_ok (read_all_logs wal') \<and> active_txns (read_all_logs wal') = [] \<and>
    (\<exists>ext. read_all_logs wal' = read_all_logs wal @ ext \<and>
       (\<forall>r \<in> set ext. \<not> committed (extract_txn_id r) (read_all_logs wal))))"
proof (cases "redo_pass cp (read_all_logs wal) io")
  case (Done io1)
  let ?act = "order (active_txns (read_all_logs wal))"
  have m: "mset ?act = mset (active_txns (read_all_logs wal))" using assms(4) by blast
  then have set: "set ?act = set (active_txns (read_all_logs wal))" by (rule mset_eq_setD)
  have len: "length ?act = length (active_txns (read_all_logs wal))" using m by (rule mset_eq_length)
  have dist: "distinct (map fst ?act)"
    using active_txns_distinct m by (metis mset_eq_imp_distinct_iff mset_map)
  have "undo_cost ?act wal \<le> 2 * length (read_all_logs wal)"
    using undo_cost_le [OF dist, of wal] active_txns_length [of "read_all_logs wal"] len by simp
  then have room: "unat (wm_next_lsn wal) + undo_cost ?act wal < 2 ^ 64" using assms(3) by linarith
  have mem: "\<forall>(t, l) \<in> set ?act. \<exists>q \<in> set (read_all_logs wal). extract_lsn q = l \<and> extract_txn_id q = t"
    unfolding set using get_last_lsns_active by blast
  obtain res where res: "undo ?act wal io1 = Some res" and fin: "\<forall>wal' io'. res = Done (wal', io') \<longrightarrow>
      grown (fst ` set ?act) wal wal' (undo_cost ?act wal) \<and> (\<forall>t \<in> fst ` set ?act. rolled_back t (read_all_logs wal'))"
    using undo_total [OF assms(1,2) dist mem room] by blast
  have "wal_inv wal' \<and> chain_ok (read_all_logs wal') \<and> active_txns (read_all_logs wal') = [] \<and>
    (\<exists>ext. read_all_logs wal' = read_all_logs wal @ ext \<and>
       (\<forall>r \<in> set ext. \<not> committed (extract_txn_id r) (read_all_logs wal)))" if "res = Done (wal', io')" for wal' io'
  proof (intro conjI)
    from that fin have g: "grown (fst ` set ?act) wal wal' (undo_cost ?act wal)"
      and rb: "\<forall>t \<in> fst ` set ?act. rolled_back t (read_all_logs wal')" by blast+
    then show "wal_inv wal'" and "chain_ok (read_all_logs wal')" unfolding grown_def by blast+
    show "active_txns (read_all_logs wal') = []" by (rule grown_not_active [OF g set rb])
    show "\<exists>ext. read_all_logs wal' = read_all_logs wal @ ext \<and>
       (\<forall>r \<in> set ext. \<not> committed (extract_txn_id r) (read_all_logs wal))"
      using g active_txns_mem set unfolding grown_def by metis
  qed
  moreover have "recover order cp wal io = Some res" using Done res by (simp add: redo_pass_cases)
  ultimately show ?thesis by blast
qed (simp_all add: redo_pass_cases)

text \<open>A transaction with an insert, cut off by a crash.\<close>

definition crashed_wal :: wal_state where
  "crashed_wal = snd (append_log (InsertRecord \<lparr>h_lsn = 0, h_prev_lsn = 1, h_txn_id = 8, ins_table_id = 1, ins_page_id = 5,
     ins_after = sample_row\<rparr>) sample_wal)"

lemma crashed_logs: "read_all_logs crashed_wal =
    [BeginTxnRecord \<lparr>h_lsn = 1, h_prev_lsn = 0, h_txn_id = 8\<rparr>,
     InsertRecord \<lparr>h_lsn = 2, h_prev_lsn = 1, h_txn_id = 8, ins_table_id = 1, ins_page_id = 5, ins_after = sample_row\<rparr>]"
  "wm_next_lsn crashed_wal = 3"
  by (simp_all add: crashed_wal_def sample_wal_def append_log_def wal_start_def wal_restored_def read_all_logs_def)

lemma crashed_wal_inv: "wal_inv crashed_wal"
  unfolding crashed_wal_def
  by (rule wal_inv_append [OF sample_wal_inv])
    (simp_all add: sample_wal_def append_log_def wal_start_def wal_restored_def sample_simps)

theorem recover_finishes_witness:
  "\<exists>res. recover id 0 crashed_wal sample_io = Some res \<and> (\<forall>wal' io'. res = Done (wal', io') \<longrightarrow>
    wal_inv wal' \<and> active_txns (read_all_logs wal') = [])"
proof -
  have "chain_ok (read_all_logs crashed_wal)" by (simp add: chain_ok_def chain_next_def crashed_logs)
  then show ?thesis
    using recover_finishes [OF crashed_wal_inv, of id 0 sample_io] by (auto simp: crashed_logs)
qed

end
