(* ===== verification/Db_Instance.thy ===== *)
theory Db_Instance
  imports Node_Executor Catalog_Cache Index_Search Recovery
begin

text \<open>
  The database instance, \<^verbatim>\<open>storage/std_db_instance.cpp\<close>: it implements the interface query execution runs on by the buffer
  pool, the catalog cache, the log and the index trees. Every method locks the recursive mutex of the instance, so
  that its steps are those of one thread. A call of another component that throws leaves that component as it was before the call.
\<close>

section \<open>State\<close>

text \<open>
  \<open>ds_uuids\<close> are the identifiers that \<^verbatim>\<open>UUID::make()\<close> yields one after another, of which \<open>ds_made\<close> have been taken.
  \<open>ds_moves n\<close> tells whether \<^verbatim>\<open>push_back\<close> on a vector of \<open>n\<close> elements reallocates it. A transaction is the key of its
  object.
\<close>

record db_state =
  ds_cfg :: config
  ds_bp :: buffer_pool
  ds_wal :: wal_state
  ds_catalog :: catalog
  ds_txns :: "uuid \<rightharpoonup> transaction"
  ds_uuids :: "nat \<Rightarrow> uuid"
  ds_made :: nat
  ds_moves :: "nat \<Rightarrow> bool"

type_synonym 'a db_prog = "(db_state, 'a) prog"

definition xget :: "('s \<Rightarrow> 'a) \<Rightarrow> ('s, 'a) prog" where
  "xget f s = Some (Done (f s), s)"

definition xset :: "('s \<Rightarrow> 's) \<Rightarrow> ('s, unit) prog" where
  "xset f s = Some (Done (), f s)"

definition xupdate :: "'s \<Rightarrow> ('x \<Rightarrow> 'a \<times> 's) \<Rightarrow> 'x outcome \<Rightarrow> 'a outcome \<times> 's" where
  "xupdate s k r =
     (case r of Done x \<Rightarrow> (Done (fst (k x)), snd (k x)) | Failed \<Rightarrow> (Failed, s) | Raised e \<Rightarrow> (Raised e, s) | Undef \<Rightarrow> (Undef, s))"

definition on_bp :: "(buffer_pool \<Rightarrow> ('a \<times> buffer_pool) outcome) \<Rightarrow> 'a db_prog" where
  "on_bp f s = Some (xupdate s (\<lambda>(x, bp). (x, s\<lparr>ds_bp := bp\<rparr>)) (f (ds_bp s)))"

definition on_index :: "('a, buffer_pool) act \<Rightarrow> 'a db_prog" where
  "on_index f s = map_option (xupdate s (\<lambda>(x, bp). (x, s\<lparr>ds_bp := bp\<rparr>))) (f (ds_bp s))"

definition set_bp :: "(buffer_pool \<Rightarrow> buffer_pool) \<Rightarrow> unit db_prog" where
  "set_bp f = xset (\<lambda>s. s\<lparr>ds_bp := f (ds_bp s)\<rparr>)"

definition new_uuid :: "uuid db_prog" where
  "new_uuid s = Some (Done (ds_uuids s (ds_made s)), s\<lparr>ds_made := Suc (ds_made s)\<rparr>)"

text \<open>Accesses through pointers: to a table of the catalog, and to a page of the pool while it is cached.\<close>

definition read_table :: "uuid \<Rightarrow> meta_table db_prog" where
  "read_table k s = xlift (catalog_deref (ds_catalog s) (Some k)) s"

definition modify_table :: "uuid \<Rightarrow> (meta_table \<Rightarrow> meta_table) \<Rightarrow> unit db_prog" where
  "modify_table k f = xset (\<lambda>s. s\<lparr>ds_catalog := catalog_modify k f (ds_catalog s)\<rparr>)"

definition read_page :: "uuid \<Rightarrow> data_page db_prog" where
  "read_page k s = xlift (deref_dp (ds_bp s) (Some k)) s"

definition modify_page :: "uuid \<Rightarrow> (data_page \<Rightarrow> data_page) \<Rightarrow> unit db_prog" where
  "modify_page k f = xbind (read_page k) (\<lambda>_. set_bp (modify_dp k f))"

text \<open>\<^verbatim>\<open>catalog_->get_table(table_name, catalog_->get_schema(schema_name)->id)\<close>\<close>

definition find_table :: "string \<Rightarrow> string \<Rightarrow> uuid option db_prog" where
  "find_table table_name schema_name =
     xbind (xget (\<lambda>s. catalog_get_schema schema_name (ds_catalog s))) (\<lambda>p. xbind (deref p) (\<lambda>ms.
     xget (\<lambda>s. catalog_get_table table_name (sc_id ms) (ds_catalog s))))"

section \<open>Start and end\<close>

text \<open>
  The constructor, on the storage manager and the log manager its factories make; \<open>order\<close> is the order in which recovery walks the
  unfinished transactions.
\<close>

definition sdi_init ::
    "((uuid \<times> lsn) list \<Rightarrow> (uuid \<times> lsn) list) \<Rightarrow> config \<Rightarrow> (nat \<Rightarrow> uuid) \<Rightarrow> (nat \<Rightarrow> bool) \<Rightarrow> wal_state \<Rightarrow> file_io \<Rightarrow>
     db_state outcome option" where
  "sdi_init order cfg uuids moves wal io =
     (case io_init io of
        Done io \<Rightarrow>
          map_option (\<lambda>r. obind r (\<lambda>(wal, io).
            obind (catalog_hydrate io) (\<lambda>catalog.
            obind (initialize (buffer_pool_new io)) (\<lambda>bp.
            Done \<lparr>ds_cfg = cfg, ds_bp = bp, ds_wal = wal, ds_catalog = catalog, ds_txns = Map.empty,
              ds_uuids = uuids, ds_made = 0, ds_moves = moves\<rparr>))))
            (recover order (cfg_last_checkpoint_lsn cfg) wal io)
      | Failed \<Rightarrow> Some Failed
      | Raised e \<Rightarrow> Some (Raised e)
      | Undef \<Rightarrow> Some Undef)"

text \<open>The destructor: the configuration is written, then the catalog cache is destroyed. An exception of the first ends the process.\<close>

definition sdi_destroy :: "db_state \<Rightarrow> (file_io outcome) option" where
  "sdi_destroy s =
     (case write_cfg (bp_io (ds_bp s)) (ds_cfg s) of
        Done io \<Rightarrow> map_option (\<lambda>(r, io). obind r (\<lambda>_. Done io)) (catalog_destroy (ds_catalog s) io)
      | _ \<Rightarrow> Some Undef)"

section \<open>Sequential scans\<close>

text \<open>The pages behind the pointers that are not null.\<close>

fun deref_pages :: "buffer_pool \<Rightarrow> uuid option list \<Rightarrow> data_page list outcome" where
  "deref_pages bp [] = Done []"
| "deref_pages bp (None # ps) = deref_pages bp ps"
| "deref_pages bp (Some k # ps) = obind (deref_dp bp (Some k)) (\<lambda>p. obind (deref_pages bp ps) (\<lambda>xs. Done (p # xs)))"

text \<open>The first page that no other page refers to, or else the first page; the null identifier is 0.\<close>

definition first_page :: "data_page list \<Rightarrow> uuid" where
  "first_page pages =
     (let referenced_pages = filter (\<lambda>i. i \<noteq> 0) (map dp_next pages)
      in case find (\<lambda>p. dp_id p \<notin> set referenced_pages) pages of
           Some p \<Rightarrow> dp_id p
         | None \<Rightarrow> (case pages of p # _ \<Rightarrow> dp_id p | [] \<Rightarrow> 0))"

definition sdi_seq_scan_begin :: "string \<Rightarrow> string \<Rightarrow> scan_cursor db_prog" where
  "sdi_seq_scan_begin table_name schema_name =
     xbind (find_table table_name schema_name) (\<lambda>p. xbind (deref p) (\<lambda>k. xbind (read_table k) (\<lambda>mt.
     xbind (on_bp (get_table_data (mt_id mt))) (\<lambda>ptrs.
     xbind (\<lambda>s. xlift (deref_pages (ds_bp s) ptrs) s) (\<lambda>pages.
     xreturn \<lparr>cur_page = first_page pages, cur_slot = 0, cur_chunk_size = 0, cur_initialized = True\<rparr>)))))"

text \<open>The inner loop, from \<^verbatim>\<open>slot\<close> to the next row that is not obsolete; the number of rows is taken as an \<^verbatim>\<open>int\<close>.\<close>

definition rows_size :: "data_row list \<Rightarrow> int" where
  "rows_size rows = sint (word_of_nat (length rows) :: 32 word)"

function next_live :: "data_row list \<Rightarrow> int \<Rightarrow> (data_row option \<times> int) outcome" where
  "next_live rows slot =
     (if slot < rows_size rows then
        if slot < 0 then Undef
        else if obsolete (rows ! nat slot) then next_live rows (slot + 1)
        else Done (Some (rows ! nat slot), slot + 1)
      else Done (None, slot))"
  by auto
termination
  by (relation "measure (\<lambda>(rows, slot). nat (rows_size rows - slot))") auto

declare next_live.simps [simp del]

partial_function (option) scan_loop ::
    "scan_cursor \<times> data_row \<times> db_state \<Rightarrow> ((bool \<times> scan_cursor \<times> data_row) outcome \<times> db_state) option" where
  "scan_loop conf =
     (case conf of (cursor, out, s) \<Rightarrow>
        if cur_page cursor = 0 then xreturn (False, cursor, out) s
        else xcont (on_bp (get_dp (cur_page cursor)) s) (\<lambda>page s.
          case page of
            None \<Rightarrow> xreturn (False, cursor\<lparr>cur_page := 0\<rparr>, out) s
          | Some page \<Rightarrow>
              xcont (xlift (next_live (dp_rows page) (cur_slot cursor)) s) (\<lambda>r s.
                case r of (row, slot) \<Rightarrow>
                  (case row of
                     Some row \<Rightarrow> xreturn (True, cursor\<lparr>cur_slot := slot\<rparr>, row) s
                   | None \<Rightarrow> scan_loop (cursor\<lparr>cur_page := dp_next page, cur_slot := 0\<rparr>, out, s)))))"

definition sdi_seq_scan_next :: "scan_cursor \<Rightarrow> data_row \<Rightarrow> (bool \<times> scan_cursor \<times> data_row) db_prog" where
  "sdi_seq_scan_next cursor out s =
     (if cur_initialized cursor then scan_loop (cursor, out, s) else xreturn (False, cursor, out) s)"

text \<open>\<^verbatim>\<open>seq_scan\<close>: all the rows at once.\<close>

partial_function (option) scan_all ::
    "scan_cursor \<times> data_row \<times> data_row list \<times> db_state \<Rightarrow> (data_row list outcome \<times> db_state) option" where
  "scan_all conf =
     (case conf of (cursor, row, rows, s) \<Rightarrow>
        xcont (sdi_seq_scan_next cursor row s) (\<lambda>r s.
          case r of (found, cursor, row) \<Rightarrow>
            if found then scan_all (cursor, row, rows @ [row], s) else xreturn rows s))"

definition sdi_seq_scan :: "string \<Rightarrow> string \<Rightarrow> data_table db_prog" where
  "sdi_seq_scan table_name schema_name =
     xbind (find_table table_name schema_name) (\<lambda>p. xbind (deref p) (\<lambda>k. xbind (read_table k) (\<lambda>mt.
     xbind (sdi_seq_scan_begin table_name schema_name) (\<lambda>cursor.
     xbind (\<lambda>s. scan_all (cursor, empty_row, [], s)) (\<lambda>rows.
     xreturn \<lparr>dt_table_name = [], dt_output_schema = convert_schema mt, dt_rows = rows\<rparr>)))))"

section \<open>Index scans\<close>

definition value_of_node :: "meta_table \<Rightarrow> ast_node \<Rightarrow> data_row \<Rightarrow> data_token outcome" where
  "value_of_node mt node row =
     (if an_type node = NT_IDENTIFIER then
        obind (node_token node) (\<lambda>col.
          let col_idx = get_column_idx_by_name mt (st_value col)
          in if col_idx < 0 then Raised (RuntimeError ''StdDbInstance::index_scan: column not found'')
             else tokens_index (dr_tokens row) col_idx)
      else if an_type node = NT_LITERAL then obind (node_token node) token_of_sql
      else Raised (RuntimeError ''StdDbInstance::index_scan: unsupported condition node''))"

fun operand_node :: "ast_node option \<Rightarrow> ast_node outcome" where
  "operand_node None = Undef"
| "operand_node (Some n) = Done n"

definition matches_condition :: "meta_table \<Rightarrow> binary_expr \<Rightarrow> data_row \<Rightarrow> bool outcome" where
  "matches_condition mt condition row =
     obind (operand_node (be_left condition)) (\<lambda>l. obind (value_of_node mt l row) (\<lambda>left.
     obind (operand_node (be_right condition)) (\<lambda>r. obind (value_of_node mt r row) (\<lambda>right.
     case be_op condition of
       AO_EQ \<Rightarrow> tok_eq left right
     | AO_NEQ \<Rightarrow> tok_neq left right
     | AO_LT \<Rightarrow> tok_less left right
     | AO_LTE \<Rightarrow> tok_le left right
     | AO_GR \<Rightarrow> tok_greater left right
     | AO_GRE \<Rightarrow> tok_ge left right
     | _ \<Rightarrow> Raised (RuntimeError ''StdDbInstance::index_scan: unsupported condition op'')))))"

text \<open>The rows an entry of the index contributes: none or one.\<close>

definition row_by_ptr :: "meta_table \<Rightarrow> binary_expr \<Rightarrow> row_ptr \<Rightarrow> data_row list db_prog" where
  "row_by_ptr mt condition row_ptr =
     xbind (on_bp (get_dp (fst row_ptr))) (\<lambda>page.
     case page of
       None \<Rightarrow> xreturn []
     | Some page \<Rightarrow>
         (case find (\<lambda>row. dr_id row = snd row_ptr) (dp_rows page) of
            None \<Rightarrow> xreturn []
          | Some row \<Rightarrow>
              if obsolete row then xreturn []
              else xbind (xlift (matches_condition mt condition row)) (\<lambda>b. xreturn (if b then [row] else []))))"

fun rows_by_ptrs :: "meta_table \<Rightarrow> binary_expr \<Rightarrow> row_ptr list \<Rightarrow> data_row list db_prog" where
  "rows_by_ptrs mt condition [] = xreturn []"
| "rows_by_ptrs mt condition (p # ps) =
     xbind (row_by_ptr mt condition p) (\<lambda>xs. xbind (rows_by_ptrs mt condition ps) (\<lambda>ys. xreturn (xs @ ys)))"

definition is_eq_for_indexed_column :: "meta_table \<Rightarrow> meta_index \<Rightarrow> ast_node option \<Rightarrow> ast_node option \<Rightarrow> bool outcome" where
  "is_eq_for_indexed_column mt meta_index id_node lit_node =
     obind (operand_node id_node) (\<lambda>i.
       if an_type i \<noteq> NT_COLUMN_IDENTIFIER then Done False
       else obind (operand_node lit_node) (\<lambda>l.
         if an_type l \<noteq> NT_LITERAL then Done False
         else obind (node_token i) (\<lambda>column_token.
           let col_idx = get_column_idx_by_name mt (st_value column_token)
           in Done (0 \<le> col_idx \<and> mc_id (mt_columns mt ! nat col_idx) = mi_column_id meta_index))))"

definition index_pager_of :: "(nat \<Rightarrow> bool) \<Rightarrow> meta_table \<Rightarrow> uuid \<Rightarrow> buffer_pool pager" where
  "index_pager_of moves mt index_id = bp_pager moves \<lparr>bpi_table_id = mt_id mt, bpi_index_id = index_id\<rparr>"

text \<open>The point lookup of a condition \<^verbatim>\<open>column == literal\<close>.\<close>

definition lookup_eq :: "meta_table \<Rightarrow> binary_expr \<Rightarrow> buffer_pool pager \<Rightarrow> ast_node option \<Rightarrow> data_row list db_prog" where
  "lookup_eq mt condition pg lit_node =
     xbind (xlift (obind (operand_node lit_node) (\<lambda>l. obind (node_token l) token_of_sql))) (\<lambda>key.
     xbind (on_index (tree_find pg key)) (\<lambda>row_ptr.
     case row_ptr of None \<Rightarrow> xreturn [] | Some p \<Rightarrow> row_by_ptr mt condition p))"

text \<open>The walk to the leftmost leaf (\<open>None\<close>: there is none) and along the leaves.\<close>

partial_function (option) leftmost_leaf ::
    "buffer_pool pager \<times> page_ptr \<times> db_state \<Rightarrow> (page_ptr option outcome \<times> db_state) option" where
  "leftmost_leaf conf =
     (case conf of (pg, page, s) \<Rightarrow>
        xcont (on_index (pg_read pg page) s) (\<lambda>p s.
          if ip_is_leaf p then xreturn (Some page) s
          else xcont (xlift (as_internal (ip_data p)) s) (\<lambda>internal s.
            case snd internal of
              [] \<Rightarrow> xreturn None s
            | child # _ \<Rightarrow>
                xcont (on_index (pg_get_page pg child) s) (\<lambda>q s.
                  case q of
                    None \<Rightarrow> xraise (RuntimeError ''StdDbInstance::index_scan: broken index tree'') s
                  | Some q \<Rightarrow> leftmost_leaf (pg, q, s)))))"

partial_function (option) leaf_walk ::
    "meta_table \<times> binary_expr \<times> buffer_pool pager \<times> page_ptr \<times> data_row list \<times> db_state \<Rightarrow> (data_row list outcome \<times> db_state) option" where
  "leaf_walk conf =
     (case conf of (mt, condition, pg, page, rows, s) \<Rightarrow>
        xcont (on_index (pg_read pg page) s) (\<lambda>p s.
        xcont (xlift (as_leaf (ip_data p)) s) (\<lambda>leaf s.
        xcont (rows_by_ptrs mt condition (fst (snd leaf)) s) (\<lambda>found s.
          if snd (snd leaf) = 0 then xreturn (rows @ found) s
          else xcont (on_index (pg_get_page pg (snd (snd leaf))) s) (\<lambda>q s.
            case q of
              None \<Rightarrow> xraise (RuntimeError ''StdDbInstance::index_scan: broken leaf chain'') s
            | Some q \<Rightarrow> leaf_walk (mt, condition, pg, q, rows @ found, s))))))"

definition leaf_scan :: "meta_table \<Rightarrow> binary_expr \<Rightarrow> buffer_pool pager \<Rightarrow> data_row list db_prog" where
  "leaf_scan mt condition pg =
     xbind (on_index (pg_root_page_id pg)) (\<lambda>root.
     xbind (on_index (pg_get_page pg root)) (\<lambda>page.
     case page of
       None \<Rightarrow> xreturn []
     | Some page \<Rightarrow>
         xbind (\<lambda>s. leftmost_leaf (pg, page, s)) (\<lambda>leaf.
         case leaf of None \<Rightarrow> xreturn [] | Some leaf \<Rightarrow> (\<lambda>s. leaf_walk (mt, condition, pg, leaf, [], s)))))"

definition index_rows :: "meta_table \<Rightarrow> meta_index \<Rightarrow> binary_expr \<Rightarrow> buffer_pool pager \<Rightarrow> data_row list db_prog" where
  "index_rows mt meta_index condition pg =
     (if be_op condition \<noteq> AO_EQ then leaf_scan mt condition pg
      else xbind (xlift (is_eq_for_indexed_column mt meta_index (be_left condition) (be_right condition))) (\<lambda>b.
        if b then lookup_eq mt condition pg (be_right condition)
        else xbind (xlift (is_eq_for_indexed_column mt meta_index (be_right condition) (be_left condition))) (\<lambda>b.
          if b then lookup_eq mt condition pg (be_left condition) else leaf_scan mt condition pg)))"

definition sdi_index_scan :: "string \<Rightarrow> string \<Rightarrow> uuid \<Rightarrow> binary_expr \<Rightarrow> data_table db_prog" where
  "sdi_index_scan table_name schema_name index_id condition =
     xbind (find_table table_name schema_name) (\<lambda>p. xbind (deref p) (\<lambda>k. xbind (read_table k) (\<lambda>mt.
     case find (\<lambda>i. mi_id i = index_id) (mt_indexes mt) of
       None \<Rightarrow> xraise (RuntimeError ''StdDbInstance::index_scan: index is not part of table'')
     | Some meta_index \<Rightarrow>
         xbind (xget ds_moves) (\<lambda>moves.
         xbind (index_rows mt meta_index condition (index_pager_of moves mt index_id)) (\<lambda>rows.
         xreturn \<lparr>dt_table_name = [], dt_output_schema = convert_schema mt, dt_rows = rows\<rparr>)))))"

section \<open>Transactions\<close>

definition sdi_make_txn :: "uuid db_prog" where
  "sdi_make_txn =
     xbind new_uuid (\<lambda>i. xbind (xset (\<lambda>s. s\<lparr>ds_txns := (ds_txns s)(i \<mapsto> make_transaction i)\<rparr>)) (\<lambda>_. xreturn i))"

definition on_txn :: "(transaction \<Rightarrow> wal_state \<Rightarrow> (transaction \<times> wal_state) outcome) \<Rightarrow> uuid \<Rightarrow> unit db_prog" where
  "on_txn f i s =
     xbind (deref (ds_txns s i)) (\<lambda>tx s. Some (xupdate s
       (\<lambda>(tx, wal). ((), s\<lparr>ds_txns := (ds_txns s)(i \<mapsto> tx), ds_wal := wal\<rparr>)) (f tx (ds_wal s)))) s"

definition sdi_txn_begin :: "uuid \<Rightarrow> unit db_prog" where
  "sdi_txn_begin = on_txn txn_begin"

definition append_record :: "wal_record \<Rightarrow> uuid \<Rightarrow> unit db_prog" where
  "append_record record = on_txn (txn_append_log record)"

definition last_lsn :: "uuid \<Rightarrow> lsn db_prog" where
  "last_lsn i s = xbind (deref (ds_txns s i)) (\<lambda>tx. xreturn (tx_last_lsn tx)) s"

definition sdi_txn_commit :: "uuid \<Rightarrow> unit db_prog" where
  "sdi_txn_commit i s =
     xbind (deref (ds_txns s i)) (\<lambda>tx s. map_option (xupdate s
       (\<lambda>(tx, wal, bp). ((), s\<lparr>ds_txns := (ds_txns s)(i \<mapsto> tx), ds_wal := wal, ds_bp := bp\<rparr>)))
       (txn_commit tx (ds_wal s) (ds_bp s))) s"

section \<open>Index entries of a row\<close>

definition is_row_obsolete :: "row_ptr \<Rightarrow> bool db_prog" where
  "is_row_obsolete row_ptr =
     xbind (on_bp (get_dp (fst row_ptr))) (\<lambda>page.
     case page of
       None \<Rightarrow> xreturn False
     | Some page \<Rightarrow>
         (case find (\<lambda>row. dr_id row = snd row_ptr) (dp_rows page) of
            None \<Rightarrow> xreturn False
          | Some row \<Rightarrow> xreturn (obsolete row)))"

definition check_unique :: "meta_index \<Rightarrow> buffer_pool pager \<Rightarrow> data_token \<Rightarrow> unit db_prog" where
  "check_unique mi pg key =
     (if mi_is_unique mi then
        xbind (on_index (tree_find pg key)) (\<lambda>existing.
        case existing of
          None \<Rightarrow> xreturn ()
        | Some p \<Rightarrow> xbind (is_row_obsolete p) (\<lambda>b.
            if b then xreturn () else xraise (UniqueConstraintViolation (mi_name mi))))
      else xreturn ())"

fun index_entries :: "meta_table \<Rightarrow> data_row \<Rightarrow> uuid \<Rightarrow> meta_index list \<Rightarrow> uuid list db_prog" where
  "index_entries mt row page_id [] = xreturn []"
| "index_entries mt row page_id (mi # mis) =
     xbind (xlift (get_column_idx_by_id mt (mi_column_id mi))) (\<lambda>col_idx.
       if col_idx < 0 then xraise (RuntimeError ''Index column not found in table schema'')
       else xbind (xlift (tokens_index (dr_tokens row) col_idx)) (\<lambda>key.
         if tok_type key = DT_NULL then index_entries mt row page_id mis
         else xbind (xget ds_moves) (\<lambda>moves.
           let pg = index_pager_of moves mt (mi_id mi)
           in xbind (check_unique mi pg key) (\<lambda>_.
              xbind (on_index (tree_insert index_bplus_tree pg key (page_id, dr_id row))) (\<lambda>_.
              xbind (index_entries mt row page_id mis) (\<lambda>touched. xreturn (mi_id mi # touched)))))))"

definition insert_row_into_indexes :: "meta_table \<Rightarrow> data_row \<Rightarrow> uuid \<Rightarrow> uuid list db_prog" where
  "insert_row_into_indexes mt row page_id = index_entries mt row page_id (mt_indexes mt)"

definition set_index_lsns :: "lsn \<Rightarrow> uuid list \<Rightarrow> unit db_prog" where
  "set_index_lsns l is = set_bp (fold (\<lambda>i. set_if_lsn i l) is)"

section \<open>Insertion\<close>

definition new_hdr :: wal_hdr where
  "new_hdr = \<lparr>h_lsn = 0, h_prev_lsn = 0, h_txn_id = 0\<rparr>"

definition make_update_table :: "meta_table \<Rightarrow> meta_table \<Rightarrow> wal_record" where
  "make_update_table before after = UpdateTableRecord (wal_hdr.extend new_hdr (update_table_record.fields before after))"

text \<open>Whether a page is among those there before; the loop stops when it finds it.\<close>

fun page_listed :: "buffer_pool \<Rightarrow> uuid option list \<Rightarrow> uuid \<Rightarrow> bool outcome" where
  "page_listed bp [] page_id = Done False"
| "page_listed bp (None # ps) page_id = page_listed bp ps page_id"
| "page_listed bp (Some k # ps) page_id =
     obind (deref_dp bp (Some k)) (\<lambda>p. if dp_id p = page_id then Done True else page_listed bp ps page_id)"

fun find_tail :: "data_page list \<Rightarrow> data_page option \<Rightarrow> data_page option" where
  "find_tail [] tail = tail"
| "find_tail (p # ps) tail =
     (if dp_next p \<noteq> 0 then find_tail ps tail
      else case tail of
        None \<Rightarrow> find_tail ps (Some p)
      | Some t \<Rightarrow> find_tail ps (if dp_max_rid p > dp_max_rid t then Some p else tail))"

text \<open>A page that is new becomes the successor of the last page.\<close>

definition link_page :: "uuid option list \<Rightarrow> uuid \<Rightarrow> unit db_prog" where
  "link_page pages_before page_id =
     xbind (\<lambda>s. xlift (page_listed (ds_bp s) pages_before page_id) s) (\<lambda>listed.
       if listed then xreturn ()
       else xbind (\<lambda>s. xlift (deref_pages (ds_bp s) pages_before) s) (\<lambda>pages.
         case find_tail pages None of
           None \<Rightarrow> xreturn ()
         | Some t \<Rightarrow>
             xbind (modify_page (dp_id t) (\<lambda>p. p\<lparr>dp_next := page_id\<rparr>)) (\<lambda>_.
             set_bp (\<lambda>bp. snd (dirty_dp (dp_id t) bp)))))"

definition log_insert :: "uuid \<Rightarrow> meta_table \<Rightarrow> data_row \<Rightarrow> uuid \<Rightarrow> uuid \<Rightarrow> lsn db_prog" where
  "log_insert k mt_unchanged new_row page_id txn =
     xbind (read_table k) (\<lambda>mt.
     xbind (append_record (InsertRecord (wal_hdr.extend new_hdr (insert_record.fields (mt_id mt) page_id new_row))) txn) (\<lambda>_.
     xbind (append_record (make_update_table mt_unchanged mt) txn) (\<lambda>_. last_lsn txn)))"

definition sdi_insert_row :: "string \<Rightarrow> string \<Rightarrow> string list option \<Rightarrow> data_token list \<Rightarrow> uuid \<Rightarrow> unit db_prog" where
  "sdi_insert_row table_name schema_name cols row txn =
     xbind (find_table table_name schema_name) (\<lambda>p. xbind (deref p) (\<lambda>k. xbind (read_table k) (\<lambda>mt_unchanged.
     let (new_row, mt) = make_row cols row mt_unchanged
     in xbind (modify_table k (\<lambda>_. mt)) (\<lambda>_.
        xbind (on_bp (get_table_data (mt_id mt))) (\<lambda>pages_before.
        xbind new_uuid (\<lambda>new_id.
        xbind (on_bp (prepare_dp new_id (estimate_size new_row) mt)) (\<lambda>page.
        xbind (link_page pages_before (dp_id page)) (\<lambda>_.
        xbind (if mt_indexes mt \<noteq> [] then insert_row_into_indexes mt new_row (dp_id page) else xreturn []) (\<lambda>touched_indexes.
        xbind (modify_page (dp_id page) (\<lambda>p. p\<lparr>dp_rows := dp_rows p @ [new_row]\<rparr>)) (\<lambda>_.
        xbind (log_insert k mt_unchanged new_row (dp_id page) txn) (\<lambda>page_lsn.
        xbind (modify_page (dp_id page) (\<lambda>p. p\<lparr>dp_last_lsn := page_lsn\<rparr>)) (\<lambda>_.
        xbind (set_index_lsns page_lsn touched_indexes) (\<lambda>_.
        set_bp (\<lambda>bp. snd (dirty_dp (dp_id page) bp)))))))))))))))"

section \<open>Update\<close>

definition assign_token :: "data_token list \<Rightarrow> int \<Rightarrow> data_token \<Rightarrow> data_token list outcome" where
  "assign_token ts i t = (if 0 \<le> i \<and> i < int (length ts) then Done (ts[nat i := t]) else Undef)"

definition apply_assignment :: "meta_table \<Rightarrow> data_row \<Rightarrow> assignment \<Rightarrow> data_row \<Rightarrow> data_row outcome" where
  "apply_assignment mt row a new_row =
     obind (get_column_idx_by_id mt (case a of AssignLiteral c _ \<Rightarrow> c | AssignColumn c _ \<Rightarrow> c)) (\<lambda>col_idx.
     obind (get_column_by_pos mt col_idx) (\<lambda>_.
     obind (case a of
              AssignLiteral _ lit \<Rightarrow> Done lit
            | AssignColumn _ src \<Rightarrow> obind (get_column_idx_by_id mt src) (tokens_index (dr_tokens row))) (\<lambda>t.
     obind (assign_token (dr_tokens new_row) col_idx t) (\<lambda>ts. Done (new_row\<lparr>dr_tokens := ts\<rparr>)))))"

fun apply_assignments :: "meta_table \<Rightarrow> data_row \<Rightarrow> assignment list \<Rightarrow> data_row \<Rightarrow> data_row outcome" where
  "apply_assignments mt row [] new_row = Done new_row"
| "apply_assignments mt row (a # as) new_row = obind (apply_assignment mt row a new_row) (apply_assignments mt row as)"

text \<open>
  One round of the loop over the rows of a page, for the row at position \<open>i\<close>: the row becomes obsolete, the new version is logged,
  appended to the page and indexed. The loop goes on with an iterator that \<^verbatim>\<open>push_back\<close> has invalidated when the vector
  was reallocated.
\<close>

definition update_one ::
    "uuid \<Rightarrow> meta_table \<Rightarrow> assignment list \<Rightarrow> uuid \<Rightarrow> uuid \<Rightarrow> nat \<Rightarrow> data_row \<Rightarrow> lsn \<Rightarrow> lsn db_prog" where
  "update_one k unchanged_mt update txn page_id i row page_lsn =
     xbind (modify_table k (\<lambda>mt. mt\<lparr>mt_last_rid := mt_last_rid mt + 1\<rparr>)) (\<lambda>_.
     xbind (modify_page page_id (\<lambda>p. p\<lparr>dp_rows := (dp_rows p)[i := set_obsolete row]\<rparr>)) (\<lambda>_.
     xbind (read_table k) (\<lambda>mt.
     xbind (xlift (apply_assignments mt row update (row\<lparr>dr_id := mt_last_rid mt\<rparr>))) (\<lambda>new_row.
     xbind (modify_table k (\<lambda>mt. mt\<lparr>mt_total_rows := mt_total_rows mt + 1\<rparr>)) (\<lambda>_.
     xbind (read_table k) (\<lambda>mt.
     xbind (append_record (UpdateRecord (wal_hdr.extend new_hdr
       (update_record.fields (mt_id mt) page_id (set_obsolete row) new_row))) txn) (\<lambda>_.
     xbind (last_lsn txn) (\<lambda>l.
     let page_lsn = max page_lsn l
     in xbind (append_record (make_update_table unchanged_mt mt) txn) (\<lambda>_.
        xbind (read_page page_id) (\<lambda>page.
        xbind (modify_page page_id (\<lambda>p. p\<lparr>dp_rows := dp_rows p @ [new_row], dp_max_rid := max (dp_max_rid p) (dr_id new_row)\<rparr>)) (\<lambda>_.
        xbind (if mt_indexes mt \<noteq> []
               then xbind (insert_row_into_indexes mt new_row page_id) (set_index_lsns page_lsn)
               else xreturn ()) (\<lambda>_.
        xbind (xget ds_moves) (\<lambda>moves.
          if moves (length (dp_rows page)) then xundef else xreturn page_lsn)))))))))))))"

fun update_page_rows ::
    "uuid \<Rightarrow> meta_table \<Rightarrow> assignment list \<Rightarrow> row_id set \<Rightarrow> uuid \<Rightarrow> uuid \<Rightarrow> nat list \<Rightarrow> bool \<times> lsn \<Rightarrow> (bool \<times> lsn) db_prog" where
  "update_page_rows k unchanged_mt update row_ids txn page_id [] acc = xreturn acc"
| "update_page_rows k unchanged_mt update row_ids txn page_id (i # is) acc =
     xbind (read_page page_id) (\<lambda>page.
       let row = dp_rows page ! i
       in if dr_id row \<notin> row_ids \<or> obsolete row then update_page_rows k unchanged_mt update row_ids txn page_id is acc
          else xbind (update_one k unchanged_mt update txn page_id i row (snd acc)) (\<lambda>page_lsn.
            update_page_rows k unchanged_mt update row_ids txn page_id is (True, page_lsn)))"

text \<open>A page that was changed gets the LSN of the change and is marked dirty.\<close>

definition finish_page :: "uuid \<Rightarrow> bool \<times> lsn \<Rightarrow> unit db_prog" where
  "finish_page page_id acc =
     (if fst acc
      then xbind (modify_page page_id (\<lambda>p. p\<lparr>dp_last_lsn := snd acc\<rparr>)) (\<lambda>_. set_bp (\<lambda>bp. snd (dirty_dp page_id bp)))
      else xreturn ())"

fun change_pages :: "(uuid \<Rightarrow> nat list \<Rightarrow> bool \<times> lsn \<Rightarrow> (bool \<times> lsn) db_prog) \<Rightarrow> uuid option list \<Rightarrow> unit db_prog" where
  "change_pages f [] = xreturn ()"
| "change_pages f (p # ps) =
     xbind (deref p) (\<lambda>page_id. xbind (read_page page_id) (\<lambda>page.
     xbind (f page_id [0..<length (dp_rows page)] (False, dp_last_lsn page)) (\<lambda>acc.
     xbind (finish_page page_id acc) (\<lambda>_. change_pages f ps))))"

definition sdi_update_row :: "string \<Rightarrow> string \<Rightarrow> assignment list \<Rightarrow> data_row list \<Rightarrow> uuid \<Rightarrow> unit db_prog" where
  "sdi_update_row table_name schema_name update rows txn =
     xbind (find_table table_name schema_name) (\<lambda>p. xbind (deref p) (\<lambda>k. xbind (read_table k) (\<lambda>unchanged_mt.
     xbind (on_bp (get_table_data (mt_id unchanged_mt))) (\<lambda>pages.
     change_pages (update_page_rows k unchanged_mt update (set (map dr_id rows)) txn) pages))))"

section \<open>Deletion\<close>

fun delete_page_rows ::
    "uuid \<Rightarrow> meta_table \<Rightarrow> row_id set \<Rightarrow> uuid \<Rightarrow> uuid \<Rightarrow> nat list \<Rightarrow> bool \<times> lsn \<Rightarrow> (bool \<times> lsn) db_prog" where
  "delete_page_rows k unchanged_mt row_ids txn page_id [] acc = xreturn acc"
| "delete_page_rows k unchanged_mt row_ids txn page_id (i # is) acc =
     xbind (read_page page_id) (\<lambda>page.
       let row = dp_rows page ! i
       in if dr_id row \<notin> row_ids \<or> obsolete row then delete_page_rows k unchanged_mt row_ids txn page_id is acc
          else
            xbind (modify_page page_id (\<lambda>p. p\<lparr>dp_rows := (dp_rows p)[i := set_obsolete row]\<rparr>)) (\<lambda>_.
            xbind (modify_table k (\<lambda>mt. mt\<lparr>mt_live_rows := mt_live_rows mt - 1\<rparr>)) (\<lambda>_.
            xbind (read_table k) (\<lambda>mt.
            xbind (append_record (DeleteRecord (wal_hdr.extend new_hdr
              (delete_record.fields (mt_id mt) page_id (set_obsolete row)))) txn) (\<lambda>_.
            xbind (last_lsn txn) (\<lambda>l.
            xbind (append_record (make_update_table unchanged_mt mt) txn) (\<lambda>_.
            delete_page_rows k unchanged_mt row_ids txn page_id is (True, max (snd acc) l))))))))"

definition sdi_delete_rows :: "string \<Rightarrow> string \<Rightarrow> data_row list \<Rightarrow> uuid \<Rightarrow> unit db_prog" where
  "sdi_delete_rows table_name schema_name rows txn =
     xbind (find_table table_name schema_name) (\<lambda>p. xbind (deref p) (\<lambda>k. xbind (read_table k) (\<lambda>unchanged_mt.
     xbind (on_bp (get_table_data (mt_id unchanged_mt))) (\<lambda>pages.
     change_pages (delete_page_rows k unchanged_mt (set (map dr_id rows)) txn) pages))))"

section \<open>Metadata\<close>

text \<open>The members that hand out a table or a schema yield the object the pointer names, \<open>None\<close> for a null pointer.\<close>

definition sdi_get_schema :: "string \<Rightarrow> meta_schema option db_prog" where
  "sdi_get_schema name = xget (\<lambda>s. catalog_get_schema name (ds_catalog s))"

definition sdi_get_table :: "string \<Rightarrow> string \<Rightarrow> meta_table option db_prog" where
  "sdi_get_table table_name schema_name =
     xbind (sdi_get_schema schema_name) (\<lambda>ms.
     case ms of
       None \<Rightarrow> xreturn None
     | Some ms \<Rightarrow> xget (\<lambda>s. Option.bind (catalog_get_table table_name (sc_id ms) (ds_catalog s)) (map_of (ct_tables (ds_catalog s)))))"

definition schema_name_of :: "table_identifier \<Rightarrow> string db_prog" where
  "schema_name_of identifier =
     (case ti_schema_name identifier of Some t \<Rightarrow> xreturn (st_value t) | None \<Rightarrow> xget (\<lambda>s. cfg_default_schema (ds_cfg s)))"

definition sdi_get_table_by :: "table_identifier \<Rightarrow> meta_table option db_prog" where
  "sdi_get_table_by identifier =
     xbind (schema_name_of identifier) (\<lambda>schema_name. sdi_get_table (st_value (ti_table_name identifier)) schema_name)"

definition sdi_exists_table :: "table_identifier \<Rightarrow> bool db_prog" where
  "sdi_exists_table identifier =
     xbind (schema_name_of identifier) (\<lambda>schema_name.
     xbind (sdi_get_table (st_value (ti_table_name identifier)) schema_name) (\<lambda>t. xreturn (t \<noteq> None)))"

definition sdi_get_config :: "config db_prog" where
  "sdi_get_config = xget ds_cfg"

definition sdi_exists_db :: "string \<Rightarrow> bool db_prog" where
  "sdi_exists_db name = xget (\<lambda>s. exists_db (bp_io (ds_bp s)) name)"

definition sdi_exists_schema :: "string \<Rightarrow> bool db_prog" where
  "sdi_exists_schema name = xget (\<lambda>s. catalog_exists_schema name (ds_catalog s))"

fun new_columns :: "uuid \<Rightarrow> column_definition list \<Rightarrow> meta_column list db_prog" where
  "new_columns table_id [] = xreturn []"
| "new_columns table_id (col_def # defs) =
     xbind (xlift (convert_column 0 0 col_def)) (\<lambda>column.
     xbind new_uuid (\<lambda>i.
     xbind (new_columns table_id defs) (\<lambda>columns.
     xreturn (column\<lparr>mc_id := i, mc_table_id := table_id\<rparr> # columns))))"

definition sdi_create_table :: "string \<Rightarrow> string \<Rightarrow> column_definition list \<Rightarrow> uuid \<Rightarrow> unit db_prog" where
  "sdi_create_table table_name schema_name columns txn =
     xbind (sdi_get_schema schema_name) (\<lambda>p.
     xbind new_uuid (\<lambda>table_id.
     xbind (deref p) (\<lambda>schema.
     xbind (new_columns table_id columns) (\<lambda>cs.
     let mt = \<lparr>mt_id = table_id, mt_schema_id = sc_id schema, mt_name = table_name, mt_columns = cs, mt_indexes = [],
               mt_last_rid = 0, mt_total_rows = 0, mt_live_rows = 0\<rparr>
     in xbind (append_record (CreateTableRecord (wal_hdr.extend new_hdr (create_table_record.fields mt))) txn) (\<lambda>_.
        xset (\<lambda>s. s\<lparr>ds_catalog := catalog_save_table mt (ds_catalog s)\<rparr>))))))"

text \<open>\<^verbatim>\<open>cfg_.db_name.value()\<close> throws when there is no name.\<close>

definition sdi_create_schema :: "string \<Rightarrow> uuid \<Rightarrow> unit db_prog" where
  "sdi_create_schema schema_name txn =
     xbind new_uuid (\<lambda>i.
     xbind (xget (\<lambda>s. cfg_db_name (ds_cfg s))) (\<lambda>db_name.
     case db_name of
       None \<Rightarrow> xraise (RuntimeError ''bad_optional_access'')
     | Some db_name \<Rightarrow>
         let ms = \<lparr>sc_id = i, sc_name = schema_name, sc_db_name = db_name\<rparr>
         in xbind (append_record (CreateSchemaRecord (wal_hdr.extend new_hdr (create_schema_record.fields ms))) txn) (\<lambda>_.
            xset (\<lambda>s. s\<lparr>ds_catalog := catalog_save_schema ms (ds_catalog s)\<rparr>))))"

section \<open>Indexes\<close>

text \<open>The values seen after the rows of a page, or the exception \<open>e\<close>; null values are not indexed.\<close>

fun check_rows :: "exn \<Rightarrow> int \<Rightarrow> data_row list \<Rightarrow> byte list list \<Rightarrow> byte list list outcome" where
  "check_rows e col_idx [] seen_values = Done seen_values"
| "check_rows e col_idx (row # rows) seen_values =
     (if obsolete row then check_rows e col_idx rows seen_values
      else obind (tokens_index (dr_tokens row) col_idx) (\<lambda>key.
        if tok_type key = DT_NULL then check_rows e col_idx rows seen_values
        else if tok_bytes key \<in> set seen_values then Raised e
        else check_rows e col_idx rows (tok_bytes key # seen_values)))"

fun check_pages :: "exn \<Rightarrow> int \<Rightarrow> uuid option list \<Rightarrow> byte list list \<Rightarrow> unit db_prog" where
  "check_pages e col_idx [] seen_values = xreturn ()"
| "check_pages e col_idx (p # ps) seen_values =
     xbind (deref p) (\<lambda>page_id. xbind (read_page page_id) (\<lambda>page.
     xbind (xlift (check_rows e col_idx (dp_rows page) seen_values)) (check_pages e col_idx ps)))"

fun index_rows_of_page :: "buffer_pool pager \<Rightarrow> int \<Rightarrow> uuid \<Rightarrow> data_row list \<Rightarrow> unit db_prog" where
  "index_rows_of_page pg col_idx page_id [] = xreturn ()"
| "index_rows_of_page pg col_idx page_id (row # rows) =
     (if obsolete row then index_rows_of_page pg col_idx page_id rows
      else xbind (xlift (tokens_index (dr_tokens row) col_idx)) (\<lambda>key.
        if tok_type key = DT_NULL then index_rows_of_page pg col_idx page_id rows
        else xbind (on_index (tree_insert index_bplus_tree pg key (page_id, dr_id row))) (\<lambda>_.
          index_rows_of_page pg col_idx page_id rows)))"

fun index_pages :: "buffer_pool pager \<Rightarrow> int \<Rightarrow> uuid option list \<Rightarrow> unit db_prog" where
  "index_pages pg col_idx [] = xreturn ()"
| "index_pages pg col_idx (p # ps) =
     xbind (deref p) (\<lambda>page_id. xbind (read_page page_id) (\<lambda>page.
     xbind (index_rows_of_page pg col_idx (dp_id page) (dp_rows page)) (\<lambda>_. index_pages pg col_idx ps)))"

definition in_quotes :: "string \<Rightarrow> string" where
  "in_quotes w = CHR 0x27 # w @ [CHR 0x27]"

definition duplicate_message :: "string \<Rightarrow> string \<Rightarrow> string \<Rightarrow> string" where
  "duplicate_message index_name column_name table_name =
     ''Cannot create unique index '' @ in_quotes index_name @ '' on column '' @ in_quotes column_name @ '': table '' @
     in_quotes table_name @ '' contains duplicate values''"

definition sdi_create_index :: "string \<Rightarrow> string \<Rightarrow> string \<Rightarrow> string \<Rightarrow> bool \<Rightarrow> uuid \<Rightarrow> unit db_prog" where
  "sdi_create_index index_name table_name column_name schema_name is_unique txn =
     xbind (find_table table_name schema_name) (\<lambda>p. xbind (deref p) (\<lambda>k. xbind (read_table k) (\<lambda>table.
     xbind (xlift (get_column_by_name table column_name)) (\<lambda>column.
     xbind new_uuid (\<lambda>index_id.
     let mi = \<lparr>mi_id = index_id, mi_table_id = mt_id table, mi_column_id = mc_id column, mi_root_page_id = 0,
               mi_name = index_name, mi_key_type = mc_type column, mi_is_unique = is_unique\<rparr>
     in xbind (append_record (CreateIndexRecord (wal_hdr.extend new_hdr (create_index_record.fields mi))) txn) (\<lambda>_.
        xbind (last_lsn txn) (\<lambda>l.
        xbind (on_bp (\<lambda>bp. obind (create_table_index schema_name table mi l bp) (\<lambda>bp. Done ((), bp)))) (\<lambda>_.
        xbind (xlift (get_column_idx_by_id table (mc_id column))) (\<lambda>col_idx.
          if col_idx < 0 then xraise (RuntimeError ''Index column not found in table schema'')
          else
            xbind (if is_unique
                   then xbind (on_bp (get_table_data (mt_id table))) (\<lambda>pages.
                     check_pages (UniqueConstraintViolation (duplicate_message index_name column_name table_name)) col_idx pages [])
                   else xreturn ()) (\<lambda>_.
            xbind (xget ds_moves) (\<lambda>moves.
            xbind (on_bp (get_table_data (mt_id table))) (\<lambda>pages.
            xbind (index_pages (index_pager_of moves table index_id) col_idx pages) (\<lambda>_.
            xbind (last_lsn txn) (\<lambda>l.
            xbind (set_index_lsns l [index_id]) (\<lambda>_.
            modify_table k (push_index mi))))))))))))))))"

definition sdi_get_index :: "string \<Rightarrow> string \<Rightarrow> string \<Rightarrow> meta_index option db_prog" where
  "sdi_get_index index_name table_name schema_name =
     xbind (find_table table_name schema_name) (\<lambda>p. xbind (deref p) (\<lambda>k. xbind (read_table k) (\<lambda>table.
     xreturn (find (\<lambda>i. mi_name i = index_name) (mt_indexes table)))))"

definition sdi_exists_index :: "string \<Rightarrow> table_identifier \<Rightarrow> bool db_prog" where
  "sdi_exists_index index_name identifier =
     xbind (schema_name_of identifier) (\<lambda>schema_name.
     xbind (sdi_get_index index_name (st_value (ti_table_name identifier)) schema_name) (\<lambda>i. xreturn (i \<noteq> None)))"

text \<open>The identifiers of the indexes of a table are distinct, so that \<^verbatim>\<open>erase_if\<close> removes the one index.\<close>

definition sdi_drop_index :: "string \<Rightarrow> string \<Rightarrow> string \<Rightarrow> uuid \<Rightarrow> unit db_prog" where
  "sdi_drop_index index_name table_name schema_name txn =
     xbind (sdi_get_index index_name table_name schema_name) (\<lambda>index.
     case index of
       None \<Rightarrow> xraise (RuntimeError ''StdDbInstance::drop_index'')
     | Some index \<Rightarrow>
         xbind (find_table table_name schema_name) (\<lambda>p. xbind (deref p) (\<lambda>k.
         xbind (modify_table k (erase_index index)) (\<lambda>_.
         append_record (DropIndexRecord (wal_hdr.extend new_hdr (drop_index_record.fields index))) txn))))"

section \<open>The instance\<close>

definition std_db_instance :: "(db_state, uuid) db_instance" where
  "std_db_instance = \<lparr>
     db_seq_scan_begin = sdi_seq_scan_begin, db_seq_scan_next = sdi_seq_scan_next, db_index_scan = sdi_index_scan,
     db_make_txn = sdi_make_txn, db_txn_begin = sdi_txn_begin, db_txn_commit = sdi_txn_commit,
     db_insert_row = sdi_insert_row, db_update_row = sdi_update_row, db_delete_rows = sdi_delete_rows,
     db_get_table = sdi_get_table, db_get_table_by = sdi_get_table_by, db_exists_table = sdi_exists_table,
     db_get_schema = sdi_get_schema, db_get_config = sdi_get_config, db_exists_db = sdi_exists_db,
     db_create_table = sdi_create_table, db_create_schema = sdi_create_schema, db_exists_schema = sdi_exists_schema,
     db_create_index = sdi_create_index, db_exists_index = sdi_exists_index, db_drop_index = sdi_drop_index\<rparr>"

end
