(* ===== verification/Table_Scan.thy ===== *)
theory Table_Scan
  imports Db_Instance
begin

text \<open>
  Scans of the database instance: on a sound buffer pool a cursor hands out the live rows of the pages it still has before it, in the
  order of the page chain, whatever pages the pool caches or evicts on the way.
\<close>

section \<open>The rows before a cursor\<close>

abbreviation live :: "data_row \<Rightarrow> bool" where
  "live r \<equiv> \<not> obsolete r"

text \<open>The rows from slot \<open>n\<close> of a page on, for a view \<open>v\<close> of the pages. The chain ends with the null identifier or at a page that does
  not exist.\<close>

inductive chain_rows :: "(uuid \<Rightarrow> data_page option outcome) \<Rightarrow> uuid \<Rightarrow> nat \<Rightarrow> data_row list \<Rightarrow> bool" for v where
  chain_null: "chain_rows v 0 n []"
| chain_missing: "pid \<noteq> 0 \<Longrightarrow> v pid = Done None \<Longrightarrow> chain_rows v pid n []"
| chain_page: "pid \<noteq> 0 \<Longrightarrow> v pid = Done (Some p) \<Longrightarrow> length (dp_rows p) < 2 ^ 31 \<Longrightarrow> chain_rows v (dp_next p) 0 rows \<Longrightarrow>
    chain_rows v pid n (filter live (drop n (dp_rows p)) @ rows)"

inductive_cases chain_nullE: "chain_rows v 0 n rows"

definition db_view :: "db_state \<Rightarrow> uuid \<Rightarrow> data_page option outcome" where
  "db_view s = page_view (bp_data_pages (ds_bp s)) (bp_io (ds_bp s))"

definition db_ok :: "db_state \<Rightarrow> bool" where
  "db_ok s \<longleftrightarrow> pool_ok (bp_data_pages (ds_bp s)) (bp_io (ds_bp s))"

definition cursor_rows :: "db_state \<Rightarrow> scan_cursor \<Rightarrow> data_row list \<Rightarrow> bool" where
  "cursor_rows s c rows \<longleftrightarrow> db_ok s \<and>
     (if cur_initialized c then 0 \<le> cur_slot c \<and> chain_rows (db_view s) (cur_page c) (nat (cur_slot c)) rows else rows = [])"

lemma rows_size_eq: "length rows < 2 ^ 31 \<Longrightarrow> rows_size rows = int (length rows)"
  by (simp add: rows_size_def signed_of_nat signed_take_bit_int_eq_self)

lemma next_live_spec:
  "length rows < 2 ^ 31 \<Longrightarrow> 0 \<le> slot \<Longrightarrow>
    (case filter live (drop (nat slot) rows) of
       [] \<Rightarrow> \<exists>n. next_live rows slot = Done (None, n)
     | x # xs \<Rightarrow> \<exists>n. 0 \<le> n \<and> next_live rows slot = Done (Some x, n) \<and> filter live (drop (nat n) rows) = xs)"
proof (induction rows slot rule: next_live.induct)
  case (1 rows slot)
  show ?case
  proof (cases "slot < int (length rows)")
    case True
    then have n: "nat slot < length rows" "nat (slot + 1) = Suc (nat slot)" using 1 by auto
    then have d: "drop (nat slot) rows = rows ! nat slot # drop (nat (slot + 1)) rows" by (simp add: Cons_nth_drop_Suc)
    show ?thesis
    proof (cases "obsolete (rows ! nat slot)")
      case True': True
      then have "next_live rows slot = next_live rows (slot + 1)"
        using 1 True by (subst next_live.simps) (simp add: rows_size_eq)
      with 1 True True' d show ?thesis by (simp add: rows_size_eq cong: list.case_cong)
    next
      case False
      then have "next_live rows slot = Done (Some (rows ! nat slot), slot + 1)"
        using 1 True by (subst next_live.simps) (simp add: rows_size_eq)
      with False d 1 show ?thesis by simp
    qed
  next
    case False
    then show ?thesis using 1 by (subst next_live.simps) (simp add: rows_size_eq)
  qed
qed

text \<open>Loading a page changes no view of the pages.\<close>

lemma on_bp_get_dp:
  assumes "db_ok s" and "db_view s pid = Done r"
  obtains q s' where "on_bp (get_dp pid) s = Some (Done q, s')" "db_ok s'" "db_view s' = db_view s" "map_option stored_page q = r"
    "ds_catalog s' = ds_catalog s"
proof -
  obtain q bp' where "get_dp pid (ds_bp s) = Done (q, bp')" "map_option stored_page q = r"
    "pool_ok (bp_data_pages bp') (bp_io bp')" "page_view (bp_data_pages bp') (bp_io bp') = db_view s"
    using get_dp_view [of "ds_bp s" pid r] assms unfolding db_ok_def db_view_def by blast
  then show thesis using that [of q "s\<lparr>ds_bp := bp'\<rparr>"] by (simp add: on_bp_def xupdate_def db_ok_def db_view_def)
qed

lemma scan_loop_step:
  "chain_rows v pid n rows \<Longrightarrow> v = db_view s \<Longrightarrow> db_ok s \<Longrightarrow> cur_page c = pid \<Longrightarrow> 0 \<le> cur_slot c \<Longrightarrow> nat (cur_slot c) = n \<Longrightarrow>
   \<exists>c' s'. db_ok s' \<and> db_view s' = v \<and> cur_initialized c' = cur_initialized c \<and>
     (case rows of
        [] \<Rightarrow> scan_loop (c, out, s) = Some (Done (False, c', out), s')
      | x # xs \<Rightarrow> scan_loop (c, out, s) = Some (Done (True, c', x), s') \<and> 0 \<le> cur_slot c' \<and>
          chain_rows v (cur_page c') (nat (cur_slot c')) xs)"
proof (induction arbitrary: c s rule: chain_rows.induct)
  case (chain_null n)
  then show ?case by (subst scan_loop.simps) (auto simp: xreturn_def)
next
  case (chain_missing pid n)
  then obtain s' where "on_bp (get_dp pid) s = Some (Done None, s')" "db_ok s'" "db_view s' = db_view s"
    using on_bp_get_dp [of s pid None] by (metis option.map_disc_iff)
  with chain_missing show ?case by (subst scan_loop.simps) (auto simp: xreturn_def)
next
  case (chain_page pid p rows n)
  obtain q s1 where q: "on_bp (get_dp pid) s = Some (Done (Some q), s1)" "db_ok s1" "db_view s1 = db_view s" "stored_page q = stored_page p"
  proof (rule on_bp_get_dp [of s pid "Some p"])
    show "db_ok s" "db_view s pid = Done (Some p)" using chain_page by simp_all
    fix q s' assume q: "on_bp (get_dp pid) s = Some (Done q, s')" "db_ok s'" "db_view s' = db_view s" "map_option stored_page q = Some p"
    then obtain r where "q = Some r" "stored_page r = p" by (cases q) auto
    with q show thesis using that by fastforce
  qed
  have rows: "dp_rows q = dp_rows p" "dp_next q = dp_next p"
    using q(4) by (metis stored_page_sel(2), metis stored_page_sel(4))
  let ?c = "c\<lparr>cur_page := dp_next p, cur_slot := 0\<rparr>"
  have run: "scan_loop (c, out, s) = xcont (xlift (next_live (dp_rows p) (cur_slot c)) s1) (\<lambda>r s.
      case r of (row, slot) \<Rightarrow> case row of Some row \<Rightarrow> xreturn (True, c\<lparr>cur_slot := slot\<rparr>, row) s
      | None \<Rightarrow> scan_loop (?c, out, s))"
    using chain_page.prems chain_page.hyps(1) q(1) rows by (subst scan_loop.simps) (simp cong: option.case_cong)
  note live = next_live_spec [OF chain_page.hyps(3) chain_page.prems(4)]
  show ?case
  proof (cases "filter live (drop n (dp_rows p))")
    case Nil
    then obtain m where "next_live (dp_rows p) (cur_slot c) = Done (None, m)" using live chain_page.prems(5) by auto
    then have "scan_loop (c, out, s) = scan_loop (?c, out, s1)" unfolding run by (simp add: xlift_def)
    with chain_page.IH [of s1 ?c] chain_page.prems q Nil show ?thesis by (simp cong: list.case_cong)
  next
    case (Cons x xs)
    then obtain m where m: "0 \<le> m" "next_live (dp_rows p) (cur_slot c) = Done (Some x, m)"
      "filter live (drop (nat m) (dp_rows p)) = xs" using live chain_page.prems(5) by auto
    have "scan_loop (c, out, s) = Some (Done (True, c\<lparr>cur_slot := m\<rparr>, x), s1)"
      unfolding run m(2) by (simp add: xlift_def xreturn_def)
    moreover have "chain_rows v pid (nat m) (xs @ rows)"
      using chain_rows.chain_page [OF chain_page.hyps(1-4), of "nat m"] m(3) by simp
    ultimately show ?thesis using Cons chain_page.prems q m(1) by fastforce
  qed
qed

lemma cursor_rows_cong: "db_ok s \<Longrightarrow> db_ok s' \<Longrightarrow> db_view s' = db_view s \<Longrightarrow> cursor_rows s' = cursor_rows s"
  by (intro ext) (simp add: cursor_rows_def)

interpretation scan: row_source std_db_instance cursor_rows
proof
  fix s c out
  assume r: "cursor_rows s c []"
  then have ok: "db_ok s" by (simp add: cursor_rows_def)
  show "\<exists>c' s'. db_seq_scan_next std_db_instance c out s = Some (Done (False, c', out), s') \<and> cursor_rows s' = cursor_rows s"
  proof (cases "cur_initialized c")
    case True
    then obtain c' s' where "db_ok s'" "db_view s' = db_view s" "scan_loop (c, out, s) = Some (Done (False, c', out), s')"
      using scan_loop_step [of "db_view s" "cur_page c" "nat (cur_slot c)" "[]" s c out] r by (auto simp: cursor_rows_def)
    with True cursor_rows_cong [OF ok] show ?thesis by (auto simp: std_db_instance_def sdi_seq_scan_next_def)
  qed (auto simp: std_db_instance_def sdi_seq_scan_next_def xreturn_def)
next
  fix s c x xs out
  assume r: "cursor_rows s c (x # xs)"
  then have ok: "db_ok s" by (simp add: cursor_rows_def)
  have i: "cur_initialized c" using r by (simp add: cursor_rows_def split: if_splits)
  obtain c' s' where c': "db_ok s'" "db_view s' = db_view s" "cur_initialized c' = cur_initialized c"
    "scan_loop (c, out, s) = Some (Done (True, c', x), s')" "0 \<le> cur_slot c'" "chain_rows (db_view s) (cur_page c') (nat (cur_slot c')) xs"
    using scan_loop_step [of "db_view s" "cur_page c" "nat (cur_slot c)" "x # xs" s c out] r i by (auto simp: cursor_rows_def)
  have "cursor_rows s c' xs" using ok c' i by (simp add: cursor_rows_def)
  moreover have "cursor_rows s' = cursor_rows s" using cursor_rows_cong [OF ok c'(1,2)] .
  ultimately show "\<exists>c' s'. db_seq_scan_next std_db_instance c out s = Some (Done (True, c', x), s') \<and> cursor_rows s' = cursor_rows s \<and>
      cursor_rows s c' xs"
    using c'(4) i by (auto simp: std_db_instance_def sdi_seq_scan_next_def)
qed

section \<open>A database\<close>

text \<open>A database with one table and one page, which holds one row.\<close>

definition sample_people :: meta_table where
  "sample_people = \<lparr>mt_id = 3, mt_schema_id = 2, mt_name = ''t'',
     mt_columns = [\<lparr>mc_id = 11, mc_table_id = 3, mc_name = ''name'', mc_type = DT_STRING, mc_flags = 0\<rparr>,
       \<lparr>mc_id = 12, mc_table_id = 3, mc_name = ''note'', mc_type = DT_STRING, mc_flags = 0\<rparr>,
       \<lparr>mc_id = 13, mc_table_id = 3, mc_name = ''age'', mc_type = DT_INTEGER, mc_flags = 0\<rparr>],
     mt_indexes = [], mt_last_rid = 8, mt_total_rows = 1, mt_live_rows = 1\<rparr>"

definition sample_db :: db_state where
  "sample_db = \<lparr>ds_cfg = \<lparr>cfg_db_name = Some ''db'', cfg_default_schema = ''public'', cfg_db_path = [], cfg_io_type = 1,
       cfg_planner_type = 1, cfg_serializer_type = 1, cfg_last_checkpoint_lsn = 0\<rparr>,
     ds_bp = (sample_pool sample_io)\<lparr>bp_pages_of := [3 \<mapsto> [5]]\<rparr>, ds_wal = wal_start,
     ds_catalog = \<lparr>ct_tables = [(3, sample_people)], ct_schemas = [(2, sample_schema)]\<rparr>,
     ds_txns = Map.empty, ds_uuids = (\<lambda>n. word_of_nat (n + 100)), ds_made = 0, ds_moves = (\<lambda>_. False)\<rparr>"

definition sample_cursor :: scan_cursor where
  "sample_cursor = \<lparr>cur_page = 5, cur_slot = 0, cur_chunk_size = 0, cur_initialized = True\<rparr>"

lemma sample_find_table: "find_table ''t'' ''public'' sample_db = Some (Done (Some 3), sample_db)"
  by (simp add: find_table_def xget_def xbind_def sample_db_def sample_schema_def sample_people_def catalog_get_schema_def
      catalog_get_table_def xreturn_def)

lemma sample_read_table: "read_table 3 sample_db = Some (Done sample_people, sample_db)"
  by (simp add: read_table_def xlift_def catalog_deref_def sample_db_def)

lemma sample_table_data: "on_bp (get_table_data 3) sample_db = Some (Done [Some 5], sample_db)"
  by (simp add: on_bp_def xupdate_def get_table_data_def sample_db_def sample_pool_def buffer_pool_new_def get_dp_def cache_get_def
      lru_touch_def)

lemma sample_deref: "deref_dp (ds_bp sample_db) (Some 5) = Done home_page"
  by (simp add: deref_dp_def sample_db_def sample_pool_def)

lemma home_page_sel [simp]: "dp_rows home_page = [sample_row]" "dp_next home_page = 0" "dp_last_lsn home_page = 0"
  by (simp_all add: home_page_def data_page_make_def)

lemma sample_scan_begin: "sdi_seq_scan_begin ''t'' ''public'' sample_db = Some (Done sample_cursor, sample_db)"
  using sample_find_table sample_read_table sample_table_data
  by (simp add: sdi_seq_scan_begin_def xbind_def xreturn_def xlift_def sample_deref first_page_def sample_cursor_def
      sample_people_def)

lemma sample_db_ok: "db_ok sample_db"
  using sample_pool_ok [OF sample_disk_ok home_page_storable] by (simp add: db_ok_def sample_db_def)

lemma sample_live: "live sample_row"
  by (simp add: sample_row_def has_flag_def)

lemma sample_rows: "cursor_rows sample_db sample_cursor [sample_row]"
proof -
  have "db_view sample_db 5 = Done (Some (stored_page home_page))"
    by (simp add: db_view_def page_view_def sample_db_def sample_pool_def)
  from chain_page [of 5 "db_view sample_db", OF _ this, of "[]" 0] sample_live show ?thesis
    by (simp add: cursor_rows_def sample_db_ok sample_cursor_def chain_null)
qed

end
