(* ===== verification/Query_Types.thy ===== *)
theory Query_Types
  imports Table_Scan
begin

text \<open>
  What the checks of the semantic analyzer are worth: rows that an accepted \<^verbatim>\<open>INSERT\<close> builds carry values of the types of
  their columns, and on such rows the accepted conditions that compare a column with a literal evaluate.
\<close>

section \<open>Typed rows\<close>

definition fits :: "meta_column \<Rightarrow> data_token \<Rightarrow> bool" where
  "fits c t \<longleftrightarrow> wf_token t \<and>
     (tok_type t = DT_NULL \<or> (case map_of compat_table (mc_type c) of None \<Rightarrow> False | Some arr \<Rightarrow> tok_type t \<in> set arr))"

definition row_typed :: "meta_table \<Rightarrow> data_row \<Rightarrow> bool" where
  "row_typed mt row \<longleftrightarrow> list_all2 fits (mt_columns mt) (dr_tokens row)"

lemma null_fits [simp]: "fits c null_token"
  by (simp add: fits_def null_token_def)

lemma literal_fits:
  assumes "token_of_sql t = Done d" and "st_detail t = DLiteral l" and "is_compatible l (mc_type c)"
  shows "fits c d"
proof -
  have "tok_type d = DT_NULL \<or> map_of literal_to_data_type_table l = Some (tok_type d)"
    using assms(1,2)
    by (cases l) (auto simp: token_of_sql_def literal_to_data_type_table_def null_token_def obind_Done_conv split: if_splits)
  moreover have "l = LIT_NULL \<Longrightarrow> tok_type d = DT_NULL"
    using assms(1,2) by (auto simp: token_of_sql_def null_token_def split: if_splits)
  ultimately show ?thesis
    using literal_value_wellformed [OF assms(1)] assms(3)
    by (auto simp: fits_def is_compatible_def list_ex_iff split: option.splits if_splits simp del: wf_token.simps)
qed

lemma find_idx_find: "find_idx P xs = Some i \<Longrightarrow> find P xs = Some (xs ! i)"
  by (induction xs arbitrary: i) (auto split: if_splits)

lemma find_idx_has: "find P xs = Some x \<Longrightarrow> \<exists>i. find_idx P xs = Some i"
  by (induction xs) (auto split: if_splits)

lemma fill_by_name_typed:
  assumes "list_all2 fits (mt_columns mt) acc"
    and "\<And>j c. j < length cs \<Longrightarrow> i + j < length row \<Longrightarrow> get_column_by_name mt (cs ! j) = Done c \<Longrightarrow> fits c (row ! (i + j))"
  shows "list_all2 fits (mt_columns mt) (fill_by_name mt i cs row acc)"
  using assms
proof (induction mt i cs row acc rule: fill_by_name.induct)
  case (2 mt i c cs row acc)
  let ?k = "get_column_idx_by_name mt c"
  have "list_all2 fits (mt_columns mt) (if ?k \<noteq> -1 \<and> i < length row then acc[nat ?k := row ! i] else acc)"
  proof (cases "find_idx (\<lambda>col. mc_name col = c) (mt_columns mt)")
    case (Some k)
    then have "get_column_by_name mt c = Done (mt_columns mt ! k)" by (simp add: get_column_by_name_def find_idx_find)
    then have "i < length row \<Longrightarrow> fits (mt_columns mt ! k) (row ! i)" using 2(3) [of 0] by simp
    moreover have "k < length (mt_columns mt)" using Some by (simp add: find_idx_Some)
    ultimately show ?thesis using Some 2(2)
      by (auto simp: get_column_idx_by_name_def list_all2_conv_all_nth nth_list_update)
  qed (use 2(2) in \<open>simp add: get_column_idx_by_name_def\<close>)
  moreover have "\<And>j col. j < length cs \<Longrightarrow> Suc i + j < length row \<Longrightarrow> get_column_by_name mt (cs ! j) = Done col \<Longrightarrow> fits col (row ! (Suc i + j))"
    using 2(3) [of "Suc _"] by simp
  ultimately show ?case using 2(1) [OF refl] by (simp add: Let_def)
qed simp

section \<open>Accepted insertions\<close>

lemma analyze_values_None:
  "analyze_values mt columns i vals = Done None \<Longrightarrow> j < length vals \<Longrightarrow>
    \<exists>l c. st_detail (vals ! j) = DLiteral l \<and> get_column_by_name mt (st_value (columns ! (i + j))) = Done c \<and> is_compatible l (mc_type c)"
proof (induction mt columns i vals arbitrary: j rule: analyze_values.induct)
  case (2 mt columns i v vals)
  then show ?case
    by (cases j) (fastforce simp: obind_Done_conv split: sql_detail.splits if_splits)+
qed simp

lemma analyze_values_Some:
  "analyze_values mt columns i vals = Done (Some res) \<Longrightarrow> \<not> missing_column mt columns \<Longrightarrow> \<not> ar_is_valid res"
proof (induction mt columns i vals rule: analyze_values.induct)
  case (2 mt columns i v vals)
  then show ?case
    by (auto simp: obind_Done_conv missing_column_def list_ex_iff analysis_error_def not_le
        split: sql_detail.splits if_splits)
qed simp

lemma analyze_rows_valid:
  assumes "analyze_rows mt columns vss = Done res" and "ar_is_valid res" and "\<not> missing_column mt columns" and "vals \<in> set vss"
  shows "analyze_values mt columns 0 vals = Done None"
  using assms
proof (induction vss)
  case (Cons v vss)
  then obtain x where x: "analyze_values mt columns 0 v = Done x" by (auto simp: obind_Done_conv)
  with Cons.prems analyze_values_Some [of mt columns 0 v res] have "x = None" by (cases x) auto
  with x Cons show ?case by auto
qed simp

lemma tokens_of_sql_nth:
  "tokens_of_sql vals = Done ts \<Longrightarrow> length ts = length vals \<and> (\<forall>j<length vals. token_of_sql (vals ! j) = Done (ts ! j))"
proof (induction vals arbitrary: ts)
  case (Cons v vals)
  then show ?case by (fastforce simp: obind_Done_conv nth_Cons split: nat.splits)
qed simp

lemma rows_of_sql_mem:
  "rows_of_sql vss = Done rows \<Longrightarrow> r \<in> set rows \<Longrightarrow> \<exists>vals\<in>set vss. tokens_of_sql vals = Done (dr_tokens r)"
  by (induction vss arbitrary: rows) (auto simp: obind_Done_conv data_row_of_sql_def)

lemma accepted_row_typed:
  assumes "analyze_values mt columns 0 vals = Done None" and "tokens_of_sql vals = Done ts"
  shows "row_typed mt (fst (make_row (Some (map st_value columns)) ts mt))"
proof -
  have "fits c (ts ! j)" if "j < length columns" "j < length ts" "get_column_by_name mt (st_value (columns ! j)) = Done c" for j c
    using analyze_values_None [OF assms(1), of j] tokens_of_sql_nth [OF assms(2)] that literal_fits [of "vals ! j" "ts ! j"]
    by fastforce
  then have "list_all2 fits (mt_columns mt)
      (fill_by_name mt 0 (map st_value columns) ts (replicate (length (mt_columns mt)) null_token))"
    by (intro fill_by_name_typed) (auto simp: list_all2_conv_all_nth)
  then show ?thesis by (simp add: row_typed_def make_row_def Let_def)
qed

lemma with_table_valid:
  assumes "with_table db missing table f s = Some (Done res, s')" and "ar_is_valid res"
  obtains mt s1 where "db_get_table_by db table s1 = Some (Done (Some mt), s')" "f mt = Done res"
proof -
  have ne: "ar_is_valid (analysis_error e) = False" for e by (simp add: analysis_error_def)
  have t: "st_value (ti_table_name table) \<noteq> []" using assms by (auto simp: with_table_def xreturn_def ne)
  obtain b s1 where b: "(if \<not> b then xreturn (analysis_error TableDoesntExist)
      else xbind (db_get_table_by db table) (\<lambda>p. xbind (deref p) (\<lambda>mt. xlift (f mt)))) s1 = Some (Done res, s')"
    using assms(1) t by (auto simp: with_table_def elim: xbind_DoneD)
  then have "xbind (db_get_table_by db table) (\<lambda>p. xbind (deref p) (\<lambda>mt. xlift (f mt))) s1 = Some (Done res, s')"
    using assms(2) by (cases b) (auto simp: xreturn_def ne)
  then obtain p s2 where p: "db_get_table_by db table s1 = Some (Done p, s2)" "xbind (deref p) (\<lambda>mt. xlift (f mt)) s2 = Some (Done res, s')"
    by (rule xbind_DoneD)
  then show thesis using that by (cases p) (auto simp: xlift_def xundef_def)
qed

text \<open>C12: an \<^verbatim>\<open>INSERT\<close> with a column list that the analyzer accepts, and whose values the planner converts, builds rows of the type
  of the table the analyzer looked up: one value per column, each of them well formed and null or of a type that the column accepts.\<close>

theorem accepted_insert_typed:
  assumes "analyze_insert db table columns vss s = Some (Done res, s')" and "ar_is_valid res"
    and "rows_of_sql vss = Done rows"
  shows "\<exists>mt s1. db_get_table_by db table s1 = Some (Done (Some mt), s') \<and>
    (\<forall>r\<in>set rows. row_typed mt (fst (make_row (Some (map st_value columns)) (dr_tokens r) mt)))"
proof -
  obtain mt s1 where mt: "db_get_table_by db table s1 = Some (Done (Some mt), s')"
    "(if missing_column mt columns then Done (analysis_error ColumnDoesntExists) else analyze_rows mt columns vss) = Done res"
    using with_table_valid [OF assms(1) [unfolded analyze_insert_def] assms(2)] by metis
  then have ok: "\<not> missing_column mt columns" "analyze_rows mt columns vss = Done res"
    using assms(2) by (auto simp: analysis_error_def split: if_splits)
  have "row_typed mt (fst (make_row (Some (map st_value columns)) (dr_tokens r) mt))" if "r \<in> set rows" for r
    using rows_of_sql_mem [OF assms(3) that] analyze_rows_valid [OF ok(2) assms(2) ok(1)] accepted_row_typed by blast
  with mt(1) show ?thesis by blast
qed

section \<open>Accepted conditions\<close>

text \<open>The operands the parser builds: names, and literals that denote a value.\<close>

definition operand_ok :: "ast_node \<Rightarrow> bool" where
  "operand_ok n \<longleftrightarrow>
     (case an_value n of
        VToken t \<Rightarrow> (an_type n = NT_IDENTIFIER \<longrightarrow> is_identifier t) \<and>
          (an_type n = NT_LITERAL \<longrightarrow> (case token_of_sql t of Done v \<Rightarrow> True | _ \<Rightarrow> False))
      | _ \<Rightarrow> an_type n \<noteq> NT_IDENTIFIER \<and> an_type n \<noteq> NT_LITERAL)"

lemma ev_wf:
  assumes "wf_token l" and "wf_token r"
  shows "\<exists>b. ev_eq l r = Done b" and "\<exists>b. ev_gr l r = Done b" and "\<exists>b. ev_gre l r = Done b"
proof -
  have "\<exists>b. ev_eq l r = Done b \<and> (\<exists>b. ev_gr l r = Done b) \<and> (\<exists>b. ev_gre l r = Done b)"
  proof (cases "tok_type l = tok_type r")
    case True
    then obtain t where "tok_type l = t" "tok_type r = t" by blast
    with assms show ?thesis
      by (cases t) (auto simp: ev_eq_def ev_gr_def ev_gre_def tok_defs dest!: length1E)
  qed (auto simp: ev_eq_def ev_gr_def ev_gre_def)
  then show "\<exists>b. ev_eq l r = Done b" and "\<exists>b. ev_gr l r = Done b" and "\<exists>b. ev_gre l r = Done b" by blast+
qed

lemma ev_compare_wf: "wf_token l \<Longrightarrow> wf_token r \<Longrightarrow> \<exists>b. ev_compare l r op = Done b"
  using ev_wf [of l r] less_than_is_greater_than [of l r] by (cases op) (auto simp del: wf_token.simps)

lemma operand_ok_identifier:
  assumes "operand_ok n" and "an_type n = NT_IDENTIFIER"
  obtains t where "n = AstNode NT_IDENTIFIER (VToken t)" "is_identifier t"
  using assms by (cases n) (auto simp: operand_ok_def split: ast_node_value.splits)

lemma operand_ok_literal:
  assumes "operand_ok n" and "an_type n = NT_LITERAL"
  obtains t v where "n = AstNode NT_LITERAL (VToken t)" "is_literal t" "token_of_sql t = Done v"
proof -
  from assms obtain t v where "n = AstNode NT_LITERAL (VToken t)" "token_of_sql t = Done v"
    by (cases n) (auto simp: operand_ok_def split: ast_node_value.splits outcome.splits)
  moreover from this have "is_literal t" by (auto simp: token_of_sql_def split: if_splits)
  ultimately show thesis using that by blast
qed

lemma check_column_value_valid:
  assumes "check_column_value op (AstNode a (VToken c)) v mt = Done res" and "ar_is_valid res"
  shows "\<exists>i. find_idx (\<lambda>col. mc_name col = st_value c) (mt_columns mt) = Some i"
proof -
  have "has_column mt (st_value c)"
    using assms by (auto simp: check_column_value_def node_token_def obind_Done_conv analysis_error_def split: if_splits)
  then obtain col where "find (\<lambda>col. mc_name col = st_value c) (mt_columns mt) = Some col"
    by (cases "find (\<lambda>col. mc_name col = st_value c) (mt_columns mt)") (auto simp: has_column_def list_ex_iff find_None_iff)
  then show ?thesis by (rule find_idx_has)
qed

lemma compare_column_literal:
  assumes "check_column_value op (AstNode NT_IDENTIFIER (VToken c)) (AstNode NT_LITERAL (VToken t)) mt = Done res" and "ar_is_valid res"
    and "is_identifier c" and "is_literal t" and "token_of_sql t = Done v" and "row_typed mt row"
  shows "\<exists>b. evaluate mt mt row (BinaryExpr op (Some (AstNode NT_IDENTIFIER (VToken c))) (Some (AstNode NT_LITERAL (VToken t)))) = Done b"
proof -
  obtain i where i: "find_idx (\<lambda>col. mc_name col = st_value c) (mt_columns mt) = Some i"
    using check_column_value_valid [OF assms(1,2)] by blast
  then have "i < length (mt_columns mt)" by (simp add: find_idx_Some)
  then have "i < length (dr_tokens row)" "wf_token (dr_tokens row ! i)"
    using assms(6) by (auto simp: row_typed_def list_all2_conv_all_nth fits_def)
  moreover have "wf_token v" using literal_value_wellformed [OF assms(5)] by blast
  ultimately show ?thesis
    using assms(3-5) i ev_compare_wf [of "dr_tokens row ! i" v op]
    by (simp add: evaluate_def tokens_at_def get_column_idx_by_name_def del: wf_token.simps)
qed

text \<open>C13: what becomes of a condition the analyzer accepted, on a row of the type of the table: a comparison whose left operand is a
  column evaluates to a truth value. A comparison that has the literal on the left, and every \<^verbatim>\<open>AND\<close>, \<^verbatim>\<open>OR\<close> and
  \<^verbatim>\<open>NOT\<close>, makes the evaluator throw, on every row.\<close>

theorem accepted_condition_evaluates:
  assumes "analyze_where (BinaryExpr op left right) mt = Done res" and "ar_is_valid res" and "op \<noteq> AO_UNDEFINED"
    and "pred_option operand_ok left" and "pred_option operand_ok right" and "row_typed mt row"
  shows "\<exists>b. evaluate mt mt row (BinaryExpr op left right) =
    (if \<not> is_comparison op then Raised (RuntimeError ''bad_variant_access'')
     else if map_option an_type left = Some NT_IDENTIFIER then Done b
     else Raised (RuntimeError ''Evaluator::evaluate: Invalid comparison''))"
proof (cases "is_comparison op")
  case False
  then have "op \<in> {AO_AND, AO_OR, AO_NOT}" using assms(1-3)
    by (cases op) (auto simp: is_comparison_def analysis_error_def)
  then obtain r where "analyze_operand left mt = Done r" using assms(1) False by (auto simp: obind_Done_conv)
  then obtain ty e where "left = Some (AstNode ty (VBinary e))" by (cases rule: analyze_operand.cases [of "(left, mt)"]) auto
  with False show ?thesis by (simp add: evaluate_def)
next
  case True
  then have "op \<noteq> AO_ASSIGN" by (auto simp: is_comparison_def)
  with True assms(1,2) obtain l r where lr: "left = Some l" "right = Some r" by (cases left; cases right) (auto simp: analysis_error_def)
  then obtain res' where cmp: "analyze_column_comparison op l r mt = Done res'" "ar_is_valid res'"
    using assms(1,2) True \<open>op \<noteq> AO_ASSIGN\<close> by (auto simp: obind_Done_conv split: if_splits)
  consider "an_type l = NT_IDENTIFIER" "an_type r = NT_LITERAL" "check_column_value op l r mt = Done res'"
    | "an_type r = NT_IDENTIFIER" "an_type l = NT_LITERAL"
    using cmp by (auto simp: analyze_column_comparison_def analysis_error_def split: if_splits)
  then show ?thesis
  proof cases
    case 1
    obtain c where c: "l = AstNode NT_IDENTIFIER (VToken c)" "is_identifier c" using operand_ok_identifier [of l] 1(1) assms(4) lr(1) by auto
    obtain t v where t: "r = AstNode NT_LITERAL (VToken t)" "is_literal t" "token_of_sql t = Done v"
      using operand_ok_literal [of r] 1(2) assms(5) lr(2) by auto
    from compare_column_literal [OF 1(3) [unfolded c(1) t(1)] cmp(2) c(2) t(2,3) assms(6)] lr c(1) t(1) True show ?thesis by auto
  next
    case 2
    obtain c where c: "r = AstNode NT_IDENTIFIER (VToken c)" "is_identifier c" using operand_ok_identifier [of r] 2(1) assms(5) lr(2) by auto
    obtain t v where "l = AstNode NT_LITERAL (VToken t)" "is_literal t"
      using operand_ok_literal [of l] 2(2) assms(4) lr(1) by auto
    with c lr True show ?thesis by (simp add: evaluate_def is_identifier_def is_literal_def)
  qed
qed

section \<open>Samples\<close>

text \<open>The condition \<^verbatim>\<open>42 > a\<close> is accepted for a table with an integer column \<^verbatim>\<open>a\<close> and throws; \<^verbatim>\<open>a > 42\<close> evaluates.\<close>

lemma sample_typed: "row_typed one_column \<lparr>dr_id = 1, dr_flags = 0, dr_tokens = [int_token 7]\<rparr>"
  by (simp add: row_typed_def one_column_def fits_def compat_table_def int_token_def)

lemma sample_column: "get_column_by_name one_column ''a'' = Done (hd (mt_columns one_column))" "has_column one_column ''a''"
  "is_compatible LIT_INTEGER (mc_type (hd (mt_columns one_column)))"
  by (simp_all add: get_column_by_name_def one_column_def has_column_def is_compatible_def compat_table_def literal_to_data_type_table_def)

theorem accepted_condition_evaluates_witness:
  "(\<exists>b. evaluate one_column one_column \<lparr>dr_id = 1, dr_flags = 0, dr_tokens = [int_token 7]\<rparr>
      (BinaryExpr AO_GR (Some (AstNode NT_IDENTIFIER (VToken (id_token ''a'')))) (Some (AstNode NT_LITERAL (VToken (int_literal ''42''))))) = Done b) \<and>
   evaluate one_column one_column \<lparr>dr_id = 1, dr_flags = 0, dr_tokens = [int_token 7]\<rparr>
      (BinaryExpr AO_GR (Some (AstNode NT_LITERAL (VToken (int_literal ''42'')))) (Some (AstNode NT_IDENTIFIER (VToken (id_token ''a''))))) =
     Raised (RuntimeError ''Evaluator::evaluate: Invalid comparison'')"
proof -
  let ?a = "AstNode NT_IDENTIFIER (VToken (id_token ''a''))" and ?l = "AstNode NT_LITERAL (VToken (int_literal ''42''))"
  have ok: "operand_ok ?a" "operand_ok ?l" by (simp_all add: operand_ok_def id_token_def is_identifier_def int_literal_42)
  have "analyze_where (BinaryExpr AO_GR (Some ?a) (Some ?l)) one_column = Done analysis_ok"
    "analyze_where (BinaryExpr AO_GR (Some ?l) (Some ?a)) one_column = Done analysis_ok"
    using sample_column by (simp_all add: is_comparison_def analyze_column_comparison_def check_column_value_def node_token_def
        detail_literal_def int_literal_def id_token_def analysis_ok_def)
  from accepted_condition_evaluates [OF this(1) _ _ _ _ sample_typed] accepted_condition_evaluates [OF this(2) _ _ _ _ sample_typed] ok
  have "\<exists>b. evaluate one_column one_column \<lparr>dr_id = 1, dr_flags = 0, dr_tokens = [int_token 7]\<rparr> (BinaryExpr AO_GR (Some ?a) (Some ?l)) = Done b"
    "evaluate one_column one_column \<lparr>dr_id = 1, dr_flags = 0, dr_tokens = [int_token 7]\<rparr> (BinaryExpr AO_GR (Some ?l) (Some ?a)) =
     Raised (RuntimeError ''Evaluator::evaluate: Invalid comparison'')"
    by (simp_all add: analysis_ok_def is_comparison_def)
  then show ?thesis by blast
qed

text \<open>\<^verbatim>\<open>INSERT INTO public.t (age) VALUES (42)\<close>\<close>

definition sample_identifier :: table_identifier where
  "sample_identifier = \<lparr>ti_table_name = id_token ''t'', ti_schema_name = Some (id_token ''public'')\<rparr>"

lemma sample_get_table: "sdi_get_table_by sample_identifier sample_db = Some (Done (Some sample_people), sample_db)"
  by (simp add: sdi_get_table_by_def schema_name_of_def sample_identifier_def id_token_def sdi_get_table_def sdi_get_schema_def xget_def
      xbind_def sample_db_def catalog_get_schema_def sample_schema_def catalog_get_table_def sample_people_def)

lemma sample_exists_table: "sdi_exists_table sample_identifier sample_db = Some (Done True, sample_db)"
  using sample_get_table by (simp add: sdi_exists_table_def sdi_get_table_by_def xbind_xcont schema_name_of_def sample_identifier_def xreturn_def)

theorem accepted_insert_typed_witness:
  "\<exists>mt s1. sdi_get_table_by sample_identifier s1 = Some (Done (Some mt), sample_db) \<and>
     row_typed mt (fst (make_row (Some [''age'']) [int_token 42] mt))"
proof -
  have "analyze_values sample_people [id_token ''age''] 0 [int_literal ''42''] = Done None"
    by (simp add: int_literal_def id_token_def has_column_def get_column_by_name_def sample_people_def is_compatible_def compat_table_def
        literal_to_data_type_table_def)
  moreover have "\<not> missing_column sample_people [id_token ''age'']"
    by (simp add: missing_column_def has_column_def id_token_def sample_people_def)
  ultimately have "analyze_insert std_db_instance sample_identifier [id_token ''age''] [[int_literal ''42'']] sample_db =
      Some (Done analysis_ok, sample_db)"
    using sample_exists_table sample_get_table
    by (simp add: analyze_insert_def with_table_def std_db_instance_def xbind_xcont xlift_def) (simp add: sample_identifier_def id_token_def)
  moreover have "rows_of_sql [[int_literal ''42'']] = Done [\<lparr>dr_id = 0, dr_flags = 0, dr_tokens = [int_token 42]\<rparr>]"
    by (simp add: data_row_of_sql_def int_literal_42)
  ultimately show ?thesis
    using accepted_insert_typed [of std_db_instance sample_identifier "[id_token ''age'']" "[[int_literal ''42'']]"]
    by (fastforce simp: analysis_ok_def std_db_instance_def id_token_def)
qed

end
