(* ===== verification/Table_Update.thy ===== *)
theory Table_Update
  imports Table_Scan
begin

text \<open>
  What deletion and update do to a table: deletion marks the live rows with the given identifiers on every page of the table, so that
  the scans that follow deliver the other rows.
\<close>

section \<open>Steps on cached pages\<close>

abbreviation entries :: "db_state \<Rightarrow> uuid \<Rightarrow> data_page cache_entry option" where
  "entries s \<equiv> map_of (ca_map (bp_data_pages (ds_bp s)))"

definition active :: "uuid \<Rightarrow> db_state \<Rightarrow> bool" where
  "active txn s \<longleftrightarrow> (\<exists>tx. ds_txns s txn = Some tx \<and> tx_state tx = TX_ACTIVE)"

text \<open>What every step of a change keeps: the files, the structure of the cache, and the behaviour of \<^verbatim>\<open>push_back\<close>.\<close>

definition leaves :: "db_state \<Rightarrow> db_state \<Rightarrow> bool" where
  "leaves s s' \<longleftrightarrow> bp_io (ds_bp s') = bp_io (ds_bp s) \<and> (cache_ok (bp_data_pages (ds_bp s)) \<longrightarrow> cache_ok (bp_data_pages (ds_bp s'))) \<and>
     ds_moves s' = ds_moves s"

lemma leaves_refl [simp]: "leaves s s"
  by (simp add: leaves_def)

lemma leaves_trans: "leaves s s' \<Longrightarrow> leaves s' s'' \<Longrightarrow> leaves s s''"
  by (simp add: leaves_def)

lemma append_record_active:
  assumes "active txn s"
  obtains s' where "append_record r txn s = Some (Done (), s')" "active txn s'" "ds_bp s' = ds_bp s" "ds_catalog s' = ds_catalog s"
    "leaves s s'"
proof -
  obtain tx where tx: "ds_txns s txn = Some tx" "tx_state tx = TX_ACTIVE" using assms by (auto simp: active_def)
  then obtain l wal where "txn_append_log r tx (ds_wal s) = Done (tx\<lparr>tx_last_lsn := l\<rparr>, wal)"
    by (simp add: txn_append_log_def case_prod_beta Let_def)
  with tx show thesis
    by (intro that [of "s\<lparr>ds_txns := (ds_txns s)(txn \<mapsto> tx\<lparr>tx_last_lsn := l\<rparr>), ds_wal := wal\<rparr>"])
      (simp_all add: append_record_def on_txn_def deref_def xupdate_def active_def leaves_def)
qed

lemma modify_table_active:
  assumes "catalog_deref (ds_catalog s) (Some k) = Done mt" and "active txn s"
  obtains s' where "modify_table k f s = Some (Done (), s')" "catalog_deref (ds_catalog s') (Some k) = Done (f mt)" "active txn s'"
    "ds_bp s' = ds_bp s" "leaves s s'"
  using that [of "s\<lparr>ds_catalog := catalog_modify k f (ds_catalog s)\<rparr>"] assms
  by (simp add: modify_table_def xset_def active_def leaves_def)

lemma last_lsn_active:
  assumes "active txn s"
  obtains l where "last_lsn txn s = Some (Done l, s)"
  using assms by (auto simp: last_lsn_def active_def deref_def xreturn_def)

text \<open>A change is logged by two records, between which the LSN of the page is taken.\<close>

lemma log_change_active:
  assumes "active txn s"
  obtains s1 l s' where "append_record r txn s = Some (Done (), s1)" "last_lsn txn s1 = Some (Done l, s1)"
    "append_record r' txn s1 = Some (Done (), s')" "active txn s'" "ds_bp s' = ds_bp s" "ds_catalog s' = ds_catalog s" "leaves s s'"
proof -
  obtain s1 where s1: "append_record r txn s = Some (Done (), s1)" "active txn s1" "ds_bp s1 = ds_bp s" "ds_catalog s1 = ds_catalog s"
    "leaves s s1" by (rule append_record_active [OF assms])
  obtain l where l: "last_lsn txn s1 = Some (Done l, s1)" by (rule last_lsn_active [OF s1(2)])
  obtain s' where "append_record r' txn s1 = Some (Done (), s')" "active txn s'" "ds_bp s' = ds_bp s1" "ds_catalog s' = ds_catalog s1"
    "leaves s1 s'" by (rule append_record_active [OF s1(2)])
  with s1 l show thesis using that leaves_trans [OF s1(5)] by simp
qed

lemma read_page_cached: "entries s pid = Some e \<Longrightarrow> read_page pid s = Some (Done (ce_value e), s)"
  by (simp add: read_page_def deref_dp_def xlift_def)

lemma modify_dp_entries:
  "entries s pid = Some e \<Longrightarrow>
    map_of (ca_map (bp_data_pages (modify_dp pid f (ds_bp s)))) = (entries s)(pid \<mapsto> e\<lparr>ce_value := f (ce_value e)\<rparr>)"
  by (simp add: modify_dp_def cache_modify_def update_conv')

lemma modify_page_cached:
  assumes "entries s pid = Some e"
  obtains s' where "modify_page pid f s = Some (Done (), s')" "entries s' = (entries s)(pid \<mapsto> e\<lparr>ce_value := f (ce_value e)\<rparr>)"
    "ds_catalog s' = ds_catalog s" "active txn s' = active txn s" "leaves s s'"
proof (rule that [of "s\<lparr>ds_bp := modify_dp pid f (ds_bp s)\<rparr>"])
  show "modify_page pid f s = Some (Done (), s\<lparr>ds_bp := modify_dp pid f (ds_bp s)\<rparr>)"
    using read_page_cached [OF assms] by (simp add: modify_page_def xbind_def set_bp_def xset_def)
qed (use modify_dp_entries [OF assms, of f] in \<open>simp_all add: active_def leaves_def modify_dp_def cache_modify_ok\<close>)

lemma dirty_page_cached:
  assumes "entries s pid = Some e"
  obtains s' where "set_bp (\<lambda>bp. snd (dirty_dp pid bp)) s = Some (Done (), s')" "entries s' = (entries s)(pid \<mapsto> e\<lparr>ce_dirty := True\<rparr>)"
    "ds_catalog s' = ds_catalog s" "active txn s' = active txn s" "leaves s s'"
proof (rule that [of "s\<lparr>ds_bp := snd (dirty_dp pid (ds_bp s))\<rparr>"])
  let ?c = "bp_data_pages (ds_bp s)"
  have d: "snd (dirty_dp pid (ds_bp s)) = (ds_bp s)\<lparr>bp_data_pages := snd (cache_get pid (cache_mark_dirty pid ?c))\<rparr>"
    by (simp add: dirty_dp_def case_prod_beta)
  show "entries (s\<lparr>ds_bp := snd (dirty_dp pid (ds_bp s))\<rparr>) = (entries s)(pid \<mapsto> e\<lparr>ce_dirty := True\<rparr>)"
    using assms by (simp add: d cache_get_def cache_mark_dirty_def update_conv')
  show "leaves s (s\<lparr>ds_bp := snd (dirty_dp pid (ds_bp s))\<rparr>)"
    using cache_mark_dirty_ok [of ?c pid] cache_get_ok [of "cache_mark_dirty pid ?c" pid] by (simp add: leaves_def d)
qed (simp_all add: set_bp_def xset_def active_def)

section \<open>Deletion\<close>

definition deletes :: "row_id set \<Rightarrow> data_row \<Rightarrow> bool" where
  "deletes row_ids r \<longleftrightarrow> dr_id r \<in> row_ids \<and> live r"

definition mark_deleted :: "row_id set \<Rightarrow> data_row \<Rightarrow> data_row" where
  "mark_deleted row_ids r = (if deletes row_ids r then set_obsolete r else r)"

abbreviation hits :: "row_id set \<Rightarrow> data_row list \<Rightarrow> nat" where
  "hits row_ids rows \<equiv> length (filter (deletes row_ids) rows)"

lemma filter_live_marked: "filter live (map (mark_deleted row_ids) rows) = filter (\<lambda>r. dr_id r \<notin> row_ids) (filter live rows)"
  by (induction rows) (auto simp: mark_deleted_def deletes_def)

lemma no_hits: "hits row_ids rows = 0 \<Longrightarrow> map (mark_deleted row_ids) rows = rows"
  by (induction rows) (auto simp: mark_deleted_def split: if_splits)

lemma delete_round:
  assumes "entries s pid = Some e" and "active txn s" and "catalog_deref (ds_catalog s) (Some k) = Done mt"
    and "deletes row_ids (dp_rows (ce_value e) ! i)"
  obtains s' l where "delete_page_rows k um row_ids txn pid (i # is) acc s = delete_page_rows k um row_ids txn pid is (True, l) s'"
    "entries s' = (entries s)(pid \<mapsto> e\<lparr>ce_value := (ce_value e)\<lparr>dp_rows :=
      (dp_rows (ce_value e))[i := set_obsolete (dp_rows (ce_value e) ! i)]\<rparr>\<rparr>)"
    "catalog_deref (ds_catalog s') (Some k) = Done (mt\<lparr>mt_live_rows := mt_live_rows mt - 1\<rparr>)" "active txn s'" "leaves s s'"
proof -
  let ?row = "dp_rows (ce_value e) ! i" and ?f = "\<lambda>mt. mt\<lparr>mt_live_rows := mt_live_rows mt - 1\<rparr>"
  obtain s1 where s1: "modify_page pid (\<lambda>p. p\<lparr>dp_rows := (dp_rows p)[i := set_obsolete ?row]\<rparr>) s = Some (Done (), s1)"
    "entries s1 = (entries s)(pid \<mapsto> e\<lparr>ce_value := (ce_value e)\<lparr>dp_rows := (dp_rows (ce_value e))[i := set_obsolete ?row]\<rparr>\<rparr>)"
    "ds_catalog s1 = ds_catalog s" "active txn s1 = active txn s" "leaves s s1"
    by (rule modify_page_cached [OF assms(1)])
  have t1: "catalog_deref (ds_catalog s1) (Some k) = Done mt" "active txn s1" using s1(3,4) assms(2,3) by simp_all
  obtain s2 where s2: "modify_table k ?f s1 = Some (Done (), s2)" "catalog_deref (ds_catalog s2) (Some k) = Done (?f mt)" "active txn s2"
    "ds_bp s2 = ds_bp s1" "leaves s1 s2" by (rule modify_table_active [OF t1])
  have rt: "read_table k s2 = Some (Done (?f mt), s2)" using s2(2) by (simp add: read_table_def xlift_def)
  obtain s3 l s4 where s4: "append_record (DeleteRecord (wal_hdr.extend new_hdr
      (delete_record.fields (mt_id (?f mt)) pid (set_obsolete ?row)))) txn s2 = Some (Done (), s3)" "last_lsn txn s3 = Some (Done l, s3)"
    "append_record (make_update_table um (?f mt)) txn s3 = Some (Done (), s4)"
    "active txn s4" "ds_bp s4 = ds_bp s2" "ds_catalog s4 = ds_catalog s2" "leaves s2 s4"
    by (rule log_change_active [OF s2(3)])
  have "delete_page_rows k um row_ids txn pid (i # is) acc s = delete_page_rows k um row_ids txn pid is (True, max (snd acc) l) s4"
    using assms(4) by (simp add: xbind_xcont read_page_cached [OF assms(1)] Let_def deletes_def s1(1) s2(1) rt s4(1) [simplified] s4(2,3))
  moreover have "leaves s s4" using s1(5) s2(5) s4(7) leaves_trans by blast
  ultimately show thesis using that s1(2) s2(2,4) s4(4-6) by simp
qed

lemma delete_page_rows_marks:
  assumes "entries s pid = Some e" and "active txn s" and "catalog_deref (ds_catalog s) (Some k) = Done mt"
    and "rows = dp_rows (ce_value e)" and "i \<le> length rows"
  shows "\<exists>s' l. delete_page_rows k um row_ids txn pid [i..<length rows] acc s =
      Some (Done (fst acc \<or> 0 < hits row_ids (drop i rows), l), s') \<and>
    entries s' = (entries s)(pid \<mapsto> e\<lparr>ce_value := (ce_value e)\<lparr>dp_rows := take i rows @ map (mark_deleted row_ids) (drop i rows)\<rparr>\<rparr>) \<and>
    catalog_deref (ds_catalog s') (Some k) =
      Done (mt\<lparr>mt_live_rows := mt_live_rows mt - of_nat (hits row_ids (drop i rows))\<rparr>) \<and> active txn s' \<and> leaves s s'"
  using assms
proof (induction "length rows - i" arbitrary: i rows s e mt acc)
  case 0
  then show ?case by (cases acc) (auto simp: xreturn_def)
next
  case (Suc m)
  then have i: "i < length rows" and m: "m = length rows - Suc i" by simp_all
  then have drop: "drop i rows = rows ! i # drop (Suc i) rows" and upt: "[i..<length rows] = i # [Suc i..<length rows]"
    by (simp_all add: Cons_nth_drop_Suc upt_conv_Cons)
  show ?case
  proof (cases "deletes row_ids (rows ! i)")
    case True
    let ?rows = "rows[i := set_obsolete (rows ! i)]" and ?mt = "mt\<lparr>mt_live_rows := mt_live_rows mt - 1\<rparr>"
    let ?e = "e\<lparr>ce_value := (ce_value e)\<lparr>dp_rows := ?rows\<rparr>\<rparr>"
    obtain s1 l where s1: "delete_page_rows k um row_ids txn pid (i # [Suc i..<length rows]) acc s =
        delete_page_rows k um row_ids txn pid [Suc i..<length rows] (True, l) s1"
      "entries s1 = (entries s)(pid \<mapsto> ?e)" "catalog_deref (ds_catalog s1) (Some k) = Done ?mt" "active txn s1" "leaves s s1"
      using delete_round [OF Suc.prems(1-3), of row_ids i um "[Suc i..<length rows]" acc] True Suc.prems(4) by metis
    obtain s2 l' where s2: "delete_page_rows k um row_ids txn pid [Suc i..<length ?rows] (True, l) s1 = Some (Done (True, l'), s2)"
      "entries s2 = (entries s1)(pid \<mapsto> ?e\<lparr>ce_value := (ce_value ?e)\<lparr>dp_rows :=
        take (Suc i) ?rows @ map (mark_deleted row_ids) (drop (Suc i) ?rows)\<rparr>\<rparr>)"
      "catalog_deref (ds_catalog s2) (Some k) = Done (?mt\<lparr>mt_live_rows := mt_live_rows ?mt - of_nat (hits row_ids (drop (Suc i) ?rows))\<rparr>)"
      "active txn s2" "leaves s1 s2"
      using Suc.hyps(1) [of ?rows "Suc i" s1 ?e ?mt "(True, l)"] m s1 i by (auto simp del: delete_page_rows.simps)
    have "take (Suc i) ?rows = take i rows @ [set_obsolete (rows ! i)]" using i by (simp add: take_Suc_conv_app_nth)
    then have "entries s2 = (entries s)(pid \<mapsto> e\<lparr>ce_value := (ce_value e)\<lparr>dp_rows := take i rows @ map (mark_deleted row_ids) (drop i rows)\<rparr>\<rparr>)"
      using s2(2) s1(2) True by (simp add: drop mark_deleted_def)
    moreover have "leaves s s2" using s1(5) s2(5) by (rule leaves_trans)
    ultimately show ?thesis using s1(1) s2 True by (simp add: upt drop algebra_simps)
  next
    case False
    have e: "e\<lparr>ce_value := (ce_value e)\<lparr>dp_rows := take i rows @ map (mark_deleted row_ids) (drop i rows)\<rparr>\<rparr> =
      e\<lparr>ce_value := (ce_value e)\<lparr>dp_rows := take (Suc i) rows @ map (mark_deleted row_ids) (drop (Suc i) rows)\<rparr>\<rparr>"
      using i False by (simp add: drop take_Suc_conv_app_nth mark_deleted_def)
    have skip: "delete_page_rows k um row_ids txn pid (i # [Suc i..<length rows]) acc s =
      delete_page_rows k um row_ids txn pid [Suc i..<length rows] acc s"
      using False Suc.prems(4) by (simp add: xbind_def read_page_cached [OF Suc.prems(1)] Let_def deletes_def)
    have h: "filter (deletes row_ids) (drop i rows) = filter (deletes row_ids) (drop (Suc i) rows)" using False by (simp add: drop)
    show ?thesis unfolding upt skip e h
      using i by (intro Suc.hyps(1) [OF m Suc.prems(1-4)]) simp
  qed
qed

definition deleted_entry :: "row_id set \<Rightarrow> data_page cache_entry \<Rightarrow> data_page cache_entry \<Rightarrow> bool" where
  "deleted_entry row_ids e e' \<longleftrightarrow>
     (if hits row_ids (dp_rows (ce_value e)) = 0 then e' = e
      else ce_dirty e' \<and> (\<exists>l. ce_value e' = (ce_value e)\<lparr>dp_rows := map (mark_deleted row_ids) (dp_rows (ce_value e)), dp_last_lsn := l\<rparr>))"

lemma finish_page_cached:
  assumes "entries s pid = Some e"
  obtains s' e' where "finish_page pid (b, l) s = Some (Done (), s')" "entries s' = (entries s)(pid \<mapsto> e')"
    "if b then ce_dirty e' \<and> ce_value e' = (ce_value e)\<lparr>dp_last_lsn := l\<rparr> else e' = e"
    "ds_catalog s' = ds_catalog s" "active txn s' = active txn s" "leaves s s'"
proof (cases b)
  case False
  then show ?thesis using that [of s e] assms by (simp add: finish_page_def xreturn_def fun_upd_idem)
next
  case True
  let ?e = "e\<lparr>ce_value := (ce_value e)\<lparr>dp_last_lsn := l\<rparr>\<rparr>"
  obtain s1 where s1: "modify_page pid (\<lambda>p. p\<lparr>dp_last_lsn := l\<rparr>) s = Some (Done (), s1)" "entries s1 = (entries s)(pid \<mapsto> ?e)"
    "ds_catalog s1 = ds_catalog s" "active txn s1 = active txn s" "leaves s s1"
    by (rule modify_page_cached [OF assms])
  then have "entries s1 pid = Some ?e" by simp
  then obtain s2 where s2: "set_bp (\<lambda>bp. snd (dirty_dp pid bp)) s1 = Some (Done (), s2)"
    "entries s2 = (entries s1)(pid \<mapsto> ?e\<lparr>ce_dirty := True\<rparr>)" "ds_catalog s2 = ds_catalog s1" "active txn s2 = active txn s1" "leaves s1 s2"
    by (rule dirty_page_cached)
  show ?thesis
    using that [of s2 "?e\<lparr>ce_dirty := True\<rparr>"] True s1 s2 leaves_trans [OF s1(5) s2(5)] by (simp add: finish_page_def xbind_xcont)
qed

lemma delete_page:
  assumes "entries s pid = Some e" and "active txn s" and "catalog_deref (ds_catalog s) (Some k) = Done mt"
  obtains s' e' where "change_pages (delete_page_rows k um row_ids txn) (Some pid # ps) s = change_pages (delete_page_rows k um row_ids txn) ps s'"
    "entries s' = (entries s)(pid \<mapsto> e')" "deleted_entry row_ids e e'"
    "catalog_deref (ds_catalog s') (Some k) = Done (mt\<lparr>mt_live_rows := mt_live_rows mt - of_nat (hits row_ids (dp_rows (ce_value e)))\<rparr>)"
    "active txn s'" "leaves s s'"
proof -
  let ?rows = "dp_rows (ce_value e)"
  let ?e = "e\<lparr>ce_value := (ce_value e)\<lparr>dp_rows := map (mark_deleted row_ids) ?rows\<rparr>\<rparr>"
  obtain s1 l where s1: "delete_page_rows k um row_ids txn pid [0..<length ?rows] (False, dp_last_lsn (ce_value e)) s =
      Some (Done (0 < hits row_ids ?rows, l), s1)" "entries s1 = (entries s)(pid \<mapsto> ?e)"
    "catalog_deref (ds_catalog s1) (Some k) = Done (mt\<lparr>mt_live_rows := mt_live_rows mt - of_nat (hits row_ids ?rows)\<rparr>)"
    "active txn s1" "leaves s s1"
    using delete_page_rows_marks [OF assms refl, of 0 um row_ids "(False, dp_last_lsn (ce_value e))"] by auto
  then have "entries s1 pid = Some ?e" by simp
  then obtain s2 e' where s2: "finish_page pid (0 < hits row_ids ?rows, l) s1 = Some (Done (), s2)" "entries s2 = (entries s1)(pid \<mapsto> e')"
    "if 0 < hits row_ids ?rows then ce_dirty e' \<and> ce_value e' = (ce_value ?e)\<lparr>dp_last_lsn := l\<rparr> else e' = ?e"
    "ds_catalog s2 = ds_catalog s1" "active txn s2 = active txn s1" "leaves s1 s2"
    by (rule finish_page_cached)
  have "deleted_entry row_ids e e'"
    using s2(3) no_hits [of row_ids ?rows] by (auto simp: deleted_entry_def split: if_splits)
  moreover have "change_pages (delete_page_rows k um row_ids txn) (Some pid # ps) s = change_pages (delete_page_rows k um row_ids txn) ps s2"
    using s1(1) s2(1) by (simp add: xbind_xcont read_page_cached [OF assms(1)])
  ultimately show thesis using that s1 s2 leaves_trans [OF s1(5) s2(6)] by simp
qed

lemma change_pages_deletes:
  assumes "\<forall>pid\<in>set pids. entries s pid \<noteq> None" and "distinct pids" and "active txn s"
    and "catalog_deref (ds_catalog s) (Some k) = Done mt"
  shows "\<exists>s'. change_pages (delete_page_rows k um row_ids txn) (map Some pids) s = Some (Done (), s') \<and>
    (\<forall>pid. if pid \<in> set pids then \<exists>e'. entries s' pid = Some e' \<and> deleted_entry row_ids (the (entries s pid)) e'
           else entries s' pid = entries s pid) \<and>
    catalog_deref (ds_catalog s') (Some k) =
      Done (mt\<lparr>mt_live_rows := mt_live_rows mt - of_nat (\<Sum>pid\<leftarrow>pids. hits row_ids (dp_rows (ce_value (the (entries s pid)))))\<rparr>) \<and>
    leaves s s'"
  using assms
proof (induction pids arbitrary: s mt)
  case Nil
  then show ?case by (simp add: xreturn_def)
next
  case (Cons pid pids)
  then obtain e where e: "entries s pid = Some e" by auto
  let ?f = "delete_page_rows k um row_ids txn" and ?mt = "mt\<lparr>mt_live_rows := mt_live_rows mt - of_nat (hits row_ids (dp_rows (ce_value e)))\<rparr>"
  obtain s1 e' where s1: "change_pages ?f (Some pid # map Some pids) s = change_pages ?f (map Some pids) s1"
    "entries s1 = (entries s)(pid \<mapsto> e')" "deleted_entry row_ids e e'" "catalog_deref (ds_catalog s1) (Some k) = Done ?mt"
    "active txn s1" "leaves s s1"
    by (rule delete_page [OF e Cons.prems(3,4)])
  have old: "entries s1 q = entries s q" if "q \<in> set pids" for q using that s1(2) Cons.prems(2) by auto
  have pages: "\<forall>q\<in>set pids. entries s1 q \<noteq> None" using Cons.prems(1) old by auto
  obtain s2 where s2: "change_pages ?f (map Some pids) s1 = Some (Done (), s2)"
    "\<forall>q. if q \<in> set pids then \<exists>e'. entries s2 q = Some e' \<and> deleted_entry row_ids (the (entries s1 q)) e' else entries s2 q = entries s1 q"
    "catalog_deref (ds_catalog s2) (Some k) = Done (?mt\<lparr>mt_live_rows := mt_live_rows ?mt -
       of_nat (\<Sum>q\<leftarrow>pids. hits row_ids (dp_rows (ce_value (the (entries s1 q)))))\<rparr>)" "leaves s1 s2"
    using Cons.IH [OF pages _ s1(5,4)] Cons.prems(2) by auto
  have "(\<Sum>q\<leftarrow>pids. hits row_ids (dp_rows (ce_value (the (entries s1 q))))) = (\<Sum>q\<leftarrow>pids. hits row_ids (dp_rows (ce_value (the (entries s q)))))"
    using old by (intro arg_cong [where f = sum_list] map_cong) simp_all
  moreover have "if q \<in> set (pid # pids) then \<exists>e'. entries s2 q = Some e' \<and> deleted_entry row_ids (the (entries s q)) e'
      else entries s2 q = entries s q" for q
    using s2(2) [rule_format, of q] old [of q] s1(2,3) e Cons.prems(2) by (cases "q = pid") (auto split: if_splits)
  ultimately show ?case
    using s1(1) s2(1,3) e leaves_trans [OF s1(6) s2(4)] by (auto simp: algebra_simps simp del: change_pages.simps)
qed

section \<open>The pages of a table in the pool\<close>

lemma table_data_loop_view:
  assumes "pool_ok (bp_data_pages bp) (bp_io bp)"
    and "\<forall>pid\<in>set pids. \<exists>p. page_view (bp_data_pages bp) (bp_io bp) pid = Done (Some p)"
    and "table_data_loop pids bp = Done (ptrs, bp')"
  shows "page_view (bp_data_pages bp') (bp_io bp') = page_view (bp_data_pages bp) (bp_io bp)"
  using assms
proof (induction pids arbitrary: bp ptrs bp')
  case (Cons pid pids)
  then obtain r where r: "page_view (bp_data_pages bp) (bp_io bp) pid = Done (Some r)" by auto
  obtain q bp1 where g: "get_dp pid bp = Done (q, bp1)" "pool_ok (bp_data_pages bp1) (bp_io bp1)"
    "page_view (bp_data_pages bp1) (bp_io bp1) = page_view (bp_data_pages bp) (bp_io bp)"
    using get_dp_view [OF Cons.prems(1) r] by blast
  then obtain ptrs' where "table_data_loop pids bp1 = Done (ptrs', bp')" using Cons.prems(3) by (auto simp: obind_Done_conv)
  with Cons.IH [OF g(2)] Cons.prems(2) g(3) show ?case by simp
qed simp

text \<open>A pool that has room for the pages of a table holds them all after they were loaded.\<close>

lemma table_pages_cached:
  assumes "db_ok s" and "bp_pages_of (ds_bp s) tid = Some pids" and "distinct pids" and "\<forall>pid\<in>set pids. \<exists>p. db_view s pid = Done (Some p)"
    and "length pids \<le> ca_max_size (bp_data_pages (ds_bp s))"
  obtains s1 where "on_bp (get_table_data tid) s = Some (Done (map Some pids), s1)" "db_ok s1" "db_view s1 = db_view s"
    "\<forall>pid\<in>set pids. entries s1 pid \<noteq> None" "ds_catalog s1 = ds_catalog s" "active txn s1 = active txn s"
proof -
  let ?bp = "ds_bp s"
  have ok: "pool_ok (bp_data_pages ?bp) (bp_io ?bp)" using assms(1) by (simp add: db_ok_def)
  have view: "\<forall>pid\<in>set pids. \<exists>p. page_view (bp_data_pages ?bp) (bp_io ?bp) pid = Done (Some p)" using assms(4) by (simp add: db_view_def)
  obtain bp' where bp': "table_data_loop pids ?bp = Done (map Some pids, bp')" "pool_ok (bp_data_pages bp') (bp_io bp')"
    "ca_lru (bp_data_pages bp') =
      take (ca_max_size (bp_data_pages ?bp)) (fold (\<lambda>k r. k # removeAll k r) pids (ca_lru (bp_data_pages ?bp)))"
    using table_data_loop_lru [OF ok view] by blast
  obtain t where "fold (\<lambda>k r. k # removeAll k r) pids (ca_lru (bp_data_pages ?bp)) = rev pids @ t"
    using fold_recency_distinct [OF assms(3)] by blast
  then have "set pids \<subseteq> set (ca_lru (bp_data_pages bp'))" using bp'(3) assms(5) by auto
  then have "set pids \<subseteq> fst ` set (ca_map (bp_data_pages bp'))" using bp'(2) by (simp add: pool_ok_def cache_ok_def)
  then have "\<forall>pid\<in>set pids. map_of (ca_map (bp_data_pages bp')) pid \<noteq> None" by (auto simp: map_of_eq_None_iff)
  then show thesis
    using that [of "s\<lparr>ds_bp := bp'\<rparr>"] bp' assms(2) table_data_loop_view [OF ok view bp'(1)]
    by (simp add: on_bp_def xupdate_def get_table_data_def db_ok_def db_view_def active_def)
qed

section \<open>Scans after a deletion\<close>

lemma storable_marked:
  assumes "storable io p"
  shows "storable io (p\<lparr>dp_rows := map (mark_deleted row_ids) (dp_rows p), dp_last_lsn := l\<rparr>)"
proof -
  have "length (ms_buffer (serialize_dr (mark_deleted row_ids r))) = length (ms_buffer (serialize_dr r))" for r
    by (simp add: mark_deleted_def length_serialize_dr)
  moreover have "ok_dr (mark_deleted row_ids r) = ok_dr r" for r by (simp add: ok_dr_def mark_deleted_def)
  ultimately show ?thesis using assms
    by (simp add: storable_def length_serialize_dp page_home_def ok_vec_def list_all_length comp_def)
qed

lemma entry_ok_deleted: "entry_ok io k e \<Longrightarrow> deleted_entry row_ids e e' \<Longrightarrow> entry_ok io k e'"
  by (auto simp: entry_ok_def deleted_entry_def storable_marked split: if_splits)

lemma deleted_entry_sel:
  assumes "deleted_entry row_ids e e'"
  shows "dp_rows (ce_value e') = map (mark_deleted row_ids) (dp_rows (ce_value e))" and "dp_next (ce_value e') = dp_next (ce_value e)"
  using assms no_hits [of row_ids "dp_rows (ce_value e)"] by (auto simp: deleted_entry_def split: if_splits)

lemma chain_deleted:
  assumes "chain_rows v pid n rows"
    and "\<forall>q\<in>P. \<exists>p p'. v q = Done (Some p) \<and> v' q = Done (Some p') \<and> dp_rows p' = map (mark_deleted row_ids) (dp_rows p) \<and>
      dp_next p' = dp_next p \<and> dp_next p \<in> insert 0 P"
    and "pid \<in> insert 0 P"
  shows "chain_rows v' pid n (filter (\<lambda>r. dr_id r \<notin> row_ids) rows)"
  using assms
proof (induction rule: chain_rows.induct)
  case (chain_null n)
  show ?case by (simp add: chain_rows.chain_null)
next
  case (chain_missing pid n)
  then show ?case by fastforce
next
  case (chain_page pid p rows n)
  then obtain p' where p': "v' pid = Done (Some p')" "dp_rows p' = map (mark_deleted row_ids) (dp_rows p)" "dp_next p' = dp_next p"
    "dp_next p \<in> insert 0 P" by fastforce
  have "chain_rows v' pid n (filter live (drop n (dp_rows p')) @ filter (\<lambda>r. dr_id r \<notin> row_ids) rows)"
    using chain_page p' by (intro chain_rows.chain_page) auto
  then show ?case by (simp add: p'(2) drop_map filter_live_marked)
qed

text \<open>The rows of a page as readers see it.\<close>

definition view_rows :: "db_state \<Rightarrow> uuid \<Rightarrow> data_row list" where
  "view_rows s pid = (case db_view s pid of Done (Some p) \<Rightarrow> dp_rows p | _ \<Rightarrow> [])"

definition live_total :: "db_state \<Rightarrow> uuid list \<Rightarrow> nat" where
  "live_total s pids = (\<Sum>pid\<leftarrow>pids. length (filter live (view_rows s pid)))"

lemma hits_live: "length (filter live rows) = length (filter live (map (mark_deleted row_ids) rows)) + hits row_ids rows"
  by (induction rows) (auto simp: mark_deleted_def deletes_def)

text \<open>The pages of a table: the pool lists and has room for them, and their chain does not leave them.\<close>

definition table_pages :: "db_state \<Rightarrow> uuid \<Rightarrow> uuid list \<Rightarrow> bool" where
  "table_pages s tid pids \<longleftrightarrow> bp_pages_of (ds_bp s) tid = Some pids \<and> distinct pids \<and>
     length pids \<le> ca_max_size (bp_data_pages (ds_bp s)) \<and>
     (\<forall>pid\<in>set pids. \<exists>p. db_view s pid = Done (Some p) \<and> dp_next p \<in> insert 0 (set pids))"

lemma db_view_cached: "entries s pid = Some e \<Longrightarrow> db_view s pid = Done (Some (stored_page (ce_value e)))"
  by (simp add: db_view_def page_view_def)

lemma deleted_state:
  assumes "db_ok s" and "leaves s s'" and "\<forall>pid\<in>set pids. entries s pid \<noteq> None"
    and "\<forall>pid. if pid \<in> set pids then \<exists>e'. entries s' pid = Some e' \<and> deleted_entry row_ids (the (entries s pid)) e'
           else entries s' pid = entries s pid"
  shows "db_ok s'"
    and "pid \<in> set pids \<Longrightarrow> \<exists>p p'. db_view s pid = Done (Some p) \<and> db_view s' pid = Done (Some p') \<and>
      dp_rows p' = map (mark_deleted row_ids) (dp_rows p) \<and> dp_next p' = dp_next p"
proof -
  have "entry_ok (bp_io (ds_bp s)) k e'" if "entries s' k = Some e'" for k e'
    using assms(1,3) assms(4) [rule_format, of k] that entry_ok_deleted [of "bp_io (ds_bp s)" k "the (entries s k)" row_ids e']
    by (cases "k \<in> set pids") (auto simp: db_ok_def pool_ok_def)
  with assms(1,2) show "db_ok s'" by (auto simp: db_ok_def pool_ok_def leaves_def)
  assume pid: "pid \<in> set pids"
  then obtain e e' where e: "entries s pid = Some e" "entries s' pid = Some e'" "deleted_entry row_ids e e'"
    using assms(3,4) by (metis option.collapse)
  with db_view_cached [OF e(1)] db_view_cached [OF e(2)] deleted_entry_sel [OF e(3)]
  show "\<exists>p p'. db_view s pid = Done (Some p) \<and> db_view s' pid = Done (Some p') \<and>
      dp_rows p' = map (mark_deleted row_ids) (dp_rows p) \<and> dp_next p' = dp_next p" by simp
qed

lemma delete_rows_total:
  assumes "\<And>pid. pid \<in> set pids \<Longrightarrow> view_rows s' pid = map (mark_deleted row_ids) (view_rows s pid)"
  shows "live_total s pids = live_total s' pids + (\<Sum>pid\<leftarrow>pids. hits row_ids (view_rows s pid))"
  using assms unfolding live_total_def
proof (induction pids)
  case (Cons pid pids)
  then show ?case using hits_live [of "view_rows s pid" row_ids] by simp
qed simp

text \<open>C11: deleting rows, in a table whose pages the pool has room for: the statement succeeds, the pool stays sound, a cursor anywhere
  in the chain of the table's pages then delivers what it delivered before less every row that has one of the given identifiers, and
  the count of live rows of the table falls by as many rows as were live and no longer are.\<close>

theorem delete_rows_then_scan:
  assumes "db_ok s" and "find_table table_name schema_name s = Some (Done (Some k), s)"
    and "read_table k s = Some (Done mt, s)" and "table_pages s (mt_id mt) pids" and "active txn s"
  shows "\<exists>s' mt'. sdi_delete_rows table_name schema_name rows txn s = Some (Done (), s') \<and> db_ok s' \<and>
    (\<forall>c out. cur_page c \<in> set pids \<and> cursor_rows s c out \<longrightarrow> cursor_rows s' c (filter (\<lambda>r. dr_id r \<notin> dr_id ` set rows) out)) \<and>
    read_table k s' = Some (Done mt', s') \<and>
    mt_live_rows mt - mt_live_rows mt' = of_nat (live_total s pids) - of_nat (live_total s' pids)"
proof -
  let ?ids = "dr_id ` set rows"
  have mt: "catalog_deref (ds_catalog s) (Some k) = Done mt" using assms(3) by (simp add: read_table_def xlift_def)
  have pages: "bp_pages_of (ds_bp s) (mt_id mt) = Some pids" "distinct pids" "\<forall>pid\<in>set pids. \<exists>p. db_view s pid = Done (Some p)"
    "length pids \<le> ca_max_size (bp_data_pages (ds_bp s))" using assms(4) by (auto simp: table_pages_def)
  obtain s1 where s1: "on_bp (get_table_data (mt_id mt)) s = Some (Done (map Some pids), s1)" "db_ok s1" "db_view s1 = db_view s"
    "\<forall>pid\<in>set pids. entries s1 pid \<noteq> None" "ds_catalog s1 = ds_catalog s" "active txn s1 = active txn s"
    by (rule table_pages_cached [OF assms(1) pages])
  let ?n = "\<Sum>pid\<leftarrow>pids. hits ?ids (dp_rows (ce_value (the (entries s1 pid))))"
  obtain s2 where s2: "change_pages (delete_page_rows k mt ?ids txn) (map Some pids) s1 = Some (Done (), s2)"
    "\<forall>pid. if pid \<in> set pids then \<exists>e'. entries s2 pid = Some e' \<and> deleted_entry ?ids (the (entries s1 pid)) e'
      else entries s2 pid = entries s1 pid"
    "catalog_deref (ds_catalog s2) (Some k) = Done (mt\<lparr>mt_live_rows := mt_live_rows mt - of_nat ?n\<rparr>)" "leaves s1 s2"
    using change_pages_deletes [OF s1(4) pages(2), of txn k mt mt ?ids] s1(5,6) assms(5) mt by auto
  note view = deleted_state [OF s1(2) s2(4) s1(4) s2(2)]
  have "cursor_rows s2 c (filter (\<lambda>r. dr_id r \<notin> ?ids) out)" if c: "cur_page c \<in> set pids" "cursor_rows s c out" for c out
  proof (cases "cur_initialized c")
    case True
    have "\<forall>q\<in>set pids. \<exists>p p'. db_view s q = Done (Some p) \<and> db_view s2 q = Done (Some p') \<and>
        dp_rows p' = map (mark_deleted ?ids) (dp_rows p) \<and> dp_next p' = dp_next p \<and> dp_next p \<in> insert 0 (set pids)"
      using view(2) s1(3) assms(4) by (fastforce simp: table_pages_def)
    with chain_deleted [of "db_view s" "cur_page c" "nat (cur_slot c)" out "set pids" "db_view s2" ?ids] c True view(1)
    show ?thesis by (simp add: cursor_rows_def)
  qed (use c view(1) in \<open>simp add: cursor_rows_def\<close>)
  moreover have "view_rows s2 pid = map (mark_deleted ?ids) (view_rows s pid)"
      "dp_rows (ce_value (the (entries s1 pid))) = view_rows s pid" if "pid \<in> set pids" for pid
    using view(2) [OF that] s1(3,4) that db_view_cached [of s1 pid] by (auto simp: view_rows_def)
  then have "live_total s pids = live_total s2 pids + (\<Sum>pid\<leftarrow>pids. hits ?ids (view_rows s pid))" "?n = (\<Sum>pid\<leftarrow>pids. hits ?ids (view_rows s pid))"
    by (auto intro!: delete_rows_total arg_cong [where f = sum_list])
  then have "of_nat ?n = (of_nat (live_total s pids) - of_nat (live_total s2 pids) :: u64)" by simp
  moreover have "sdi_delete_rows table_name schema_name rows txn s = Some (Done (), s2)"
    using assms(2,3) s1(1) s2(1) by (simp add: sdi_delete_rows_def xbind_xcont)
  ultimately show ?thesis using view(1) s2(3) by (auto simp: read_table_def xlift_def)
qed

text \<open>The sample database in a transaction.\<close>

definition sample_txn_db :: db_state where
  "sample_txn_db = sample_db\<lparr>ds_txns := [9 \<mapsto> \<lparr>tx_id = 9, tx_state = TX_ACTIVE, tx_last_lsn = 1\<rparr>]\<rparr>"

lemma sample_txn_view [simp]: "db_view sample_txn_db = db_view sample_db" "db_ok sample_txn_db" "cursor_rows sample_txn_db = cursor_rows sample_db"
  using sample_db_ok by (simp_all add: sample_txn_db_def db_view_def db_ok_def fun_eq_iff cursor_rows_def)

lemma sample_txn_active: "active 9 sample_txn_db"
  by (simp add: active_def sample_txn_db_def)

lemma sample_txn_table:
  "find_table ''t'' ''public'' sample_txn_db = Some (Done (Some 3), sample_txn_db)"
  "read_table 3 sample_txn_db = Some (Done sample_people, sample_txn_db)"
  using sample_find_table sample_read_table
  by (simp_all add: find_table_def xget_def xbind_def sample_txn_db_def read_table_def xlift_def deref_def xreturn_def xundef_def
      split: option.splits)

lemma sample_txn_pages: "table_pages sample_txn_db 3 [5]"
  by (simp add: table_pages_def) (simp add: sample_txn_db_def sample_db_def sample_pool_def db_view_def page_view_def)

theorem delete_rows_then_scan_witness:
  "\<exists>s'. sdi_delete_rows ''t'' ''public'' [sample_row] 9 sample_txn_db = Some (Done (), s') \<and> cursor_rows s' sample_cursor []"
proof -
  have "mt_id sample_people = 3" by (simp add: sample_people_def)
  with delete_rows_then_scan [OF sample_txn_view(2) sample_txn_table _ sample_txn_active, of "[5]" "[sample_row]"] sample_txn_pages
  obtain s' where "sdi_delete_rows ''t'' ''public'' [sample_row] 9 sample_txn_db = Some (Done (), s')"
    "\<forall>c out. cur_page c \<in> set [5] \<and> cursor_rows sample_txn_db c out \<longrightarrow> cursor_rows s' c (filter (\<lambda>r. dr_id r \<notin> dr_id ` set [sample_row]) out)"
    by auto
  moreover from this(2) [rule_format, of sample_cursor "[sample_row]"] have "cursor_rows s' sample_cursor []"
    using sample_rows by (simp add: sample_cursor_def)
  ultimately show ?thesis by blast
qed

section \<open>Identifiers of updated rows\<close>

lemma apply_assignments_id: "apply_assignments mt row as new_row = Done r \<Longrightarrow> dr_id r = dr_id new_row"
proof (induction as arbitrary: new_row)
  case (Cons a as)
  then show ?case by (auto simp: apply_assignment_def obind_Done_conv)
qed simp

lemma read_table_deref: "read_table k s = Some (Done mt, s) \<longleftrightarrow> catalog_deref (ds_catalog s) (Some k) = Done mt"
  by (simp add: read_table_def xlift_def)

lemma read_page_entry: "read_page pid s = Some (Done page, s) \<longleftrightarrow> (\<exists>e. entries s pid = Some e \<and> ce_value e = page)"
  by (auto simp: read_page_def xlift_def deref_dp_def split: option.splits)

text \<open>C14: the new version of an updated row is numbered \<^verbatim>\<open>++last_rid\<close>, while an inserted row is numbered \<^verbatim>\<open>last_rid++\<close>: in a
  table without indexes, and when \<^verbatim>\<open>push_back\<close> does not move the rows, the round of an update that changes a row appends
  the new version to the page, and the row that is inserted next gets the identifier of that new version.\<close>

theorem update_reuses_row_id:
  assumes "read_page pid s = Some (Done page, s)" and "read_table k s = Some (Done mt, s)" and "active txn s" and "mt_indexes mt = []"
    and "apply_assignments (mt\<lparr>mt_last_rid := mt_last_rid mt + 1\<rparr>) row update (row\<lparr>dr_id := mt_last_rid mt + 1\<rparr>) = Done new_row"
    and "\<not> ds_moves s (length (dp_rows page))"
  shows "\<exists>l s' page' mt'. update_one k um update txn pid i row page_lsn s = Some (Done l, s') \<and>
    read_page pid s' = Some (Done page', s') \<and> dp_rows page' = (dp_rows page)[i := set_obsolete row] @ [new_row] \<and>
    read_table k s' = Some (Done mt', s') \<and> dr_id (fst (make_row cols vals mt')) = dr_id new_row"
proof -
  obtain e where e: "entries s pid = Some e" "ce_value e = page" using assms(1) by (auto simp: read_page_entry)
  have mt: "catalog_deref (ds_catalog s) (Some k) = Done mt" using assms(2) by (simp add: read_table_deref)
  let ?mt = "mt\<lparr>mt_last_rid := mt_last_rid mt + 1\<rparr>"
  let ?mt' = "?mt\<lparr>mt_total_rows := mt_total_rows ?mt + 1\<rparr>" and ?rows = "(dp_rows page)[i := set_obsolete row]"
  let ?h = "\<lambda>p. p\<lparr>dp_rows := dp_rows p @ [new_row], dp_max_rid := max (dp_max_rid p) (dr_id new_row)\<rparr>"
  obtain s1 where s1: "modify_table k (\<lambda>mt. mt\<lparr>mt_last_rid := mt_last_rid mt + 1\<rparr>) s = Some (Done (), s1)"
    "catalog_deref (ds_catalog s1) (Some k) = Done ?mt" "active txn s1" "ds_bp s1 = ds_bp s" "leaves s s1"
    by (rule modify_table_active [OF mt assms(3)])
  then have "entries s1 pid = Some e" using e by simp
  then obtain s2 where s2: "modify_page pid (\<lambda>p. p\<lparr>dp_rows := (dp_rows p)[i := set_obsolete row]\<rparr>) s1 = Some (Done (), s2)"
    "entries s2 = (entries s1)(pid \<mapsto> e\<lparr>ce_value := (ce_value e)\<lparr>dp_rows := (dp_rows (ce_value e))[i := set_obsolete row]\<rparr>\<rparr>)"
    "ds_catalog s2 = ds_catalog s1" "active txn s2 = active txn s1" "leaves s1 s2" by (rule modify_page_cached)
  have t2: "catalog_deref (ds_catalog s2) (Some k) = Done ?mt" "active txn s2" using s1(2,3) s2(3,4) by simp_all
  obtain s3 where s3: "modify_table k (\<lambda>mt. mt\<lparr>mt_total_rows := mt_total_rows mt + 1\<rparr>) s2 = Some (Done (), s3)"
    "catalog_deref (ds_catalog s3) (Some k) = Done ?mt'" "active txn s3" "ds_bp s3 = ds_bp s2" "leaves s2 s3"
    by (rule modify_table_active [OF t2])
  obtain s4 l s5 where s5: "append_record (UpdateRecord (wal_hdr.extend new_hdr
      (update_record.fields (mt_id ?mt') pid (set_obsolete row) new_row))) txn s3 = Some (Done (), s4)" "last_lsn txn s4 = Some (Done l, s4)"
    "append_record (make_update_table um ?mt') txn s4 = Some (Done (), s5)"
    "active txn s5" "ds_bp s5 = ds_bp s3" "ds_catalog s5 = ds_catalog s3" "leaves s3 s5" by (rule log_change_active [OF s3(3)])
  let ?e = "e\<lparr>ce_value := page\<lparr>dp_rows := ?rows\<rparr>\<rparr>"
  have e5: "entries s5 pid = Some ?e" using s2(2) s3(4) s5(5) e(2) by simp
  obtain s6 where s6: "modify_page pid ?h s5 = Some (Done (), s6)" "entries s6 = (entries s5)(pid \<mapsto> ?e\<lparr>ce_value := ?h (ce_value ?e)\<rparr>)"
    "ds_catalog s6 = ds_catalog s5" "active txn s6 = active txn s5" "leaves s5 s6" by (rule modify_page_cached [OF e5])
  have moves: "ds_moves s6 = ds_moves s" using s1(5) s2(5) s3(5) s5(7) s6(5) by (simp add: leaves_def)
  have tables: "read_table k s2 = Some (Done ?mt, s2)" "read_table k s3 = Some (Done ?mt', s3)" "read_table k s6 = Some (Done ?mt', s6)"
    using t2(1) s3(2) s5(6) s6(3) by (simp_all add: read_table_deref)
  have "update_one k um update txn pid i row page_lsn s = Some (Done (max page_lsn l), s6)"
    unfolding update_one_def
    using assms(4-6) moves
    by (simp add: xbind_xcont s1(1) s2(1) tables s3(1) s5(1) [simplified] s5(2) s5(3) [simplified] s6(1) read_page_cached [OF e5] Let_def
        xlift_def xget_def xreturn_def)
  moreover have "read_page pid s6 = Some (Done (?h (page\<lparr>dp_rows := ?rows\<rparr>)), s6)" using s6(2) by (simp add: read_page_entry)
  moreover have "dr_id (fst (make_row cols vals ?mt')) = dr_id new_row"
    using apply_assignments_id [OF assms(5)] by (simp add: make_row_def Let_def)
  ultimately show ?thesis using tables(3) by fastforce
qed

theorem update_reuses_row_id_witness:
  "\<exists>l s' page' mt'. update_one 3 sample_people [AssignLiteral 13 null_token] 9 5 0 sample_row 0 sample_txn_db = Some (Done l, s') \<and>
     read_page 5 s' = Some (Done page', s') \<and> read_table 3 s' = Some (Done mt', s') \<and>
     dr_id (fst (make_row None [] mt')) = dr_id (dp_rows page' ! 1)"
proof -
  let ?mt = "sample_people\<lparr>mt_last_rid := mt_last_rid sample_people + 1\<rparr>"
  have page: "read_page 5 sample_txn_db = Some (Done home_page, sample_txn_db)"
    by (simp add: read_page_entry sample_txn_db_def sample_db_def sample_pool_def)
  have "length (dr_tokens sample_row) = 3" by (simp add: sample_row_def)
  then obtain new_row where new: "apply_assignments ?mt sample_row [AssignLiteral 13 null_token]
      (sample_row\<lparr>dr_id := mt_last_rid sample_people + 1\<rparr>) = Done new_row"
    by (simp add: apply_assignment_def get_column_idx_by_id_def get_column_by_pos_def assign_token_def sample_people_def)
  have "\<not> ds_moves sample_txn_db (length (dp_rows home_page))" "mt_indexes sample_people = []"
    by (simp_all add: sample_txn_db_def sample_db_def sample_people_def)
  then obtain l s' page' mt' where "update_one 3 sample_people [AssignLiteral 13 null_token] 9 5 0 sample_row 0 sample_txn_db = Some (Done l, s')"
    "read_page 5 s' = Some (Done page', s')" "dp_rows page' = (dp_rows home_page)[0 := set_obsolete sample_row] @ [new_row]"
    "read_table 3 s' = Some (Done mt', s')" "dr_id (fst (make_row None [] mt')) = dr_id new_row"
    using update_reuses_row_id [OF page sample_txn_table(2) sample_txn_active _ new, of sample_people 0 0 None "[]"] by blast
  moreover from this(3) have "dp_rows page' ! 1 = new_row" by simp
  ultimately show ?thesis by metis
qed

section \<open>Room for a row\<close>

lemma put_dp_cached: "put_dp k p bp = Done bp' \<Longrightarrow> \<exists>e. map_of (ca_map (bp_data_pages bp')) k = Some e \<and> ce_value e = p"
  by (auto simp: put_dp_def cache_put_def obind_Done_conv update_conv' split: option.splits prod.splits)

lemma create_dp_empty: "create_dp new_id mt bp = Done (page, bp') \<Longrightarrow> dp_rows page = []"
  by (auto simp: create_dp_def create_page_def data_page_make_def obind_Done_conv cache_get_def Let_def
      dest!: put_dp_cached split: option.splits)

lemma prepare_loop_room: "prepare_loop row_size pids bp = Done (Some page, bp') \<Longrightarrow> dp_size page + row_size \<le> DP_MAX_SIZE"
  by (induction row_size pids bp rule: prepare_loop.induct) (auto simp: obind_Done_conv split: option.splits if_splits)

lemma serialize_push:
  "length (ms_buffer (serialize_dp (p\<lparr>dp_rows := dp_rows p @ [row]\<rparr>))) =
     length (ms_buffer (serialize_dp p)) + length (ms_buffer (serialize_dr row))"
  by (simp add: length_serialize_dp)

lemma prefix_sizes:
  "8 * length (filter (\<lambda>t. tok_type t \<notin> {DT_NULL, DT_STRING}) ts) \<le> (\<Sum>t\<leftarrow>ts. length (ms_buffer (serialize_dt t)))"
  by (induction ts) (auto simp: length_serialize_dt)

text \<open>C27: the size of a page: a page that \<^verbatim>\<open>prepare_dp\<close> offers for a row, and whose recorded size is right, is either empty or stays,
  once the row is appended and the page written, below \<^verbatim>\<open>MAX_SIZE\<close> plus eight bytes for every value of the row that is
  neither null nor a string, which the estimate leaves out. The sum of the sizes may not wrap around 64 bits.\<close>

theorem prepared_page_bound:
  assumes "prepare_dp new_id (estimate_size row) mt bp = Done (page, bp')"
    and "dp_size page = word_of_nat (length (ms_buffer (serialize_dp page)))" and "list_all ok_token (dr_tokens row)"
    and "length (ms_buffer (serialize_dp page)) + length (ms_buffer (serialize_dr row)) < 2 ^ 64"
  shows "dp_rows page = [] \<or>
    length (ms_buffer (serialize_dp (page\<lparr>dp_rows := dp_rows page @ [row]\<rparr>))) \<le>
      32768 + 8 * length (filter (\<lambda>t. tok_type t \<notin> {DT_NULL, DT_STRING}) (dr_tokens row))"
proof (cases "dp_rows page = []")
  case False
  let ?n = "length (filter (\<lambda>t. tok_type t \<notin> {DT_NULL, DT_STRING}) (dr_tokens row))"
  let ?len = "length (ms_buffer (serialize_dp page)) + length (ms_buffer (serialize_dr row))"
  have "dp_size page + estimate_size row \<le> DP_MAX_SIZE"
    using assms(1) False
    by (auto simp: prepare_dp_def obind_Done_conv split: option.splits prod.splits dest: create_dp_empty prepare_loop_room)
  moreover have "word_of_nat (length (ms_buffer (serialize_dr row))) = estimate_size row + 8 * word_of_nat ?n"
    by (rule estimate_size_gap [OF assms(3)])
  ultimately have "(word_of_nat ?len :: u64) - word_of_nat (8 * ?n) \<le> 32768"
    by (simp add: assms(2) DP_MAX_SIZE_def algebra_simps)
  moreover have n: "8 * ?n \<le> ?len" using prefix_sizes [of "dr_tokens row"] by (simp add: length_serialize_dr)
  ultimately have "(word_of_nat (?len - 8 * ?n) :: u64) \<le> 32768" by (simp only: of_nat_diff)
  then have "?len - 8 * ?n \<le> 32768" using assms(4) by (simp add: word_le_nat_alt unsigned_of_nat take_bit_nat_eq_self)
  then have "?len \<le> 32768 + 8 * ?n" by simp
  then show ?thesis by (simp add: serialize_push)
qed simp

definition sample_room :: buffer_pool where
  "sample_room = (sample_pool sample_io)\<lparr>bp_data_pages := \<lparr>ca_max_size = 1,
     ca_map = [(5, \<lparr>ce_value = stored_page home_page, ce_dirty = False\<rparr>)], ca_lru = [5]\<rparr>, bp_pages_of := [3 \<mapsto> [5]]\<rparr>"

theorem prepared_page_bound_witness:
  "length (ms_buffer (serialize_dp (stored_page home_page\<lparr>dp_rows := [sample_row, sample_row]\<rparr>))) \<le> 32768 + 8 * 1"
proof -
  have dt: "length (ms_buffer (serialize_dr sample_row)) = 66"
    by (simp add: length_serialize_dr length_serialize_dt sample_row_def null_token_def)
  then have dp: "length (ms_buffer (serialize_dp home_page)) = 146" by (simp add: length_serialize_dp)
  have "estimate_size sample_row = 58"
    by (simp add: estimate_size_def estimate_size_token_def sample_row_def null_token_def)
  then have "\<exists>bp'. prepare_dp 7 (estimate_size sample_row) sample_people sample_room = Done (stored_page home_page, bp')"
    by (simp add: prepare_dp_def sample_room_def sample_people_def get_dp_def cache_get_def DP_MAX_SIZE_def stored_page_def dp)
  moreover have "dp_size (stored_page home_page) = word_of_nat (length (ms_buffer (serialize_dp (stored_page home_page))))"
    by (simp only: serialize_stored) (simp add: stored_page_def)
  moreover have "list_all ok_token (dr_tokens sample_row)" "length (filter (\<lambda>t. tok_type t \<notin> {DT_NULL, DT_STRING}) (dr_tokens sample_row)) = 1"
    by (simp_all add: sample_row_def null_token_def ok_token_def ok_str_def sample_simps)
  ultimately show ?thesis
    using prepared_page_bound [of 7 sample_row sample_people sample_room "stored_page home_page"] dt dp by auto
qed

end
