(* ===== verification/Sql_Lexer.thy ===== *)
theory Sql_Lexer
  imports Sql_Token
begin

text \<open>
  The lexer, \<^verbatim>\<open>src/deltabase/src/sql/lexer.cpp\<close>. The position \<^verbatim>\<open>i\<close> in the query is represented by the
  rest of the query; one round of the \<^verbatim>\<open>while\<close> loop is \<open>lex_step\<close>. A character that no branch of the
  loop accepts is not skipped, so the loop does not end: \<open>lex\<close> is then \<open>None\<close>.
\<close>

section \<open>Character classes and scanners\<close>

definition is_letter :: "char \<Rightarrow> bool" where
  "is_letter c \<longleftrightarrow> (65 \<le> (of_char c :: nat) \<and> (of_char c :: nat) \<le> 90) \<or> (97 \<le> (of_char c :: nat) \<and> (of_char c :: nat) \<le> 122)"

text \<open>The local \<^verbatim>\<open>isalpha\<close> of \<^verbatim>\<open>lex\<close> and the characters of a word.\<close>

definition is_alpha :: "char \<Rightarrow> bool" where
  "is_alpha c \<longleftrightarrow> is_letter c \<or> c = CHR ''_''"

definition is_word_char :: "char \<Rightarrow> bool" where
  "is_word_char c \<longleftrightarrow> is_letter c \<or> is_digit c \<or> c = CHR ''_''"

definition lower_char :: "char \<Rightarrow> char" where
  "lower_char c = (let n = of_char c :: nat in if 65 \<le> n \<and> n \<le> 90 then char_of (n + 32) else c)"

definition to_lower :: "string \<Rightarrow> string" where
  "to_lower str = map lower_char str"

definition get_word_length :: "string \<Rightarrow> nat" where
  "get_word_length str = length (takeWhile is_word_char str)"

fun get_number_length :: "bool \<Rightarrow> string \<Rightarrow> nat" where
  "get_number_length dot_found [] = 0"
| "get_number_length dot_found (c # cs) =
     (if is_digit c \<or> (\<not> dot_found \<and> c = CHR ''.'')
      then Suc (get_number_length (dot_found \<or> c = CHR ''.'') cs) else 0)"

definition read_next_word :: "string \<Rightarrow> string" where
  "read_next_word rest = take (get_word_length rest) rest"

definition starts_as_operator :: "char \<Rightarrow> bool" where
  "starts_as_operator c = list_ex (\<lambda>(op, _). hd op = c) operators_map"

text \<open>The candidate lengths 3, 2, 1 of an operator; the empty string if none is one.\<close>

fun longest_operator :: "nat \<Rightarrow> string \<Rightarrow> string" where
  "longest_operator 0 rest = []"
| "longest_operator (Suc n) rest =
     (let candidate = to_lower (take (Suc n) rest)
      in if Suc n \<le> length rest \<and> map_of operators_map candidate \<noteq> None then candidate
         else if Suc n \<le> length rest then longest_operator n rest
         else [])"

section \<open>The loop\<close>

datatype lex_result =
    LexSkip nat nat nat
  | LexToken sql_token nat
  | LexThrow exn
  | LexStuck

text \<open>
  One round on the non-empty rest \<open>c # cs\<close>: skip characters and move to a line and column, emit a token and
  consume a number of characters (the column advances by as many), throw, or do nothing. The branches of
  the loop, in their order:
\<close>

definition lex_space :: "char \<Rightarrow> nat \<Rightarrow> nat \<Rightarrow> lex_result" where
  "lex_space c line pos = (if c = CHR 0x0A then LexSkip 1 (line + 1) 0 else LexSkip 1 line (pos + 1))"

definition lex_word :: "string \<Rightarrow> nat \<Rightarrow> nat \<Rightarrow> lex_result" where
  "lex_word rest line pos =
     (let word = to_lower (read_next_word rest);
          token = \<lparr>st_type = TT_IDENTIFIER, st_value = word, st_line = line, st_pos = pos, st_detail = NoDetail\<rparr>
      in LexToken
           (case map_of keywords_map word of
              Some kw \<Rightarrow> token\<lparr>st_type := TT_KEYWORD, st_detail := DKeyword kw\<rparr>
            | None \<Rightarrow>
                (case map_of operators_map word of
                   Some op \<Rightarrow> token\<lparr>st_type := TT_OPERATOR, st_detail := DOperator op\<rparr>
                 | None \<Rightarrow> token))
           (length word))"

definition lex_string :: "string \<Rightarrow> nat \<Rightarrow> nat \<Rightarrow> lex_result" where
  "lex_string cs line pos =
     (if CHR 0x27 \<notin> set cs then LexThrow (RuntimeError ''Unterminated string literal'')
      else let word = takeWhile (\<lambda>x. x \<noteq> CHR 0x27) cs
           in LexToken \<lparr>st_type = TT_LITERAL, st_value = word, st_line = line, st_pos = pos,
                st_detail = DLiteral LIT_STRING\<rparr> (length word + 2))"

definition lex_quoted :: "string \<Rightarrow> nat \<Rightarrow> nat \<Rightarrow> lex_result" where
  "lex_quoted cs line pos =
     (if CHR 0x22 \<notin> set cs then LexThrow (RuntimeError ''Unterminated quoted identifier'')
      else let word = takeWhile (\<lambda>x. x \<noteq> CHR 0x22) cs
           in LexToken \<lparr>st_type = TT_IDENTIFIER, st_value = word, st_line = line, st_pos = pos,
                st_detail = NoDetail\<rparr> (length word + 2))"

definition lex_number :: "string \<Rightarrow> nat \<Rightarrow> nat \<Rightarrow> lex_result" where
  "lex_number rest line pos =
     (let word_len = get_number_length False rest;
          word = take word_len rest
      in LexToken \<lparr>st_type = TT_LITERAL, st_value = word, st_line = line, st_pos = pos,
           st_detail = DLiteral (if CHR ''.'' \<in> set word \<or> CHR ''e'' \<in> set word \<or> CHR ''E'' \<in> set word
                                 then LIT_REAL else LIT_INTEGER)\<rparr> word_len)"

definition lex_operator :: "string \<Rightarrow> nat \<Rightarrow> nat \<Rightarrow> lex_result" where
  "lex_operator rest line pos =
     (let op = longest_operator 3 rest
      in case map_of operators_map op of
           Some opr \<Rightarrow> LexToken \<lparr>st_type = TT_OPERATOR, st_value = op, st_line = line, st_pos = pos,
             st_detail = DOperator opr\<rparr> (length op)
         | None \<Rightarrow> LexThrow (RuntimeError ''Unknown operator at position ''))"

definition lex_symbol :: "char \<Rightarrow> sql_symbol \<Rightarrow> nat \<Rightarrow> nat \<Rightarrow> lex_result" where
  "lex_symbol c symb line pos =
     LexToken \<lparr>st_type = TT_SYMBOL, st_value = [c], st_line = line, st_pos = pos, st_detail = DSymbol symb\<rparr> 1"

definition lex_step :: "char \<Rightarrow> string \<Rightarrow> nat \<Rightarrow> nat \<Rightarrow> lex_result" where
  "lex_step c cs line pos =
     (if is_space c then lex_space c line pos
      else if is_alpha c then lex_word (c # cs) line pos
      else if c = CHR 0x27 then lex_string cs line pos
      else if c = CHR 0x22 then lex_quoted cs line pos
      else if is_digit c then lex_number (c # cs) line pos
      else if starts_as_operator c then lex_operator (c # cs) line pos
      else case map_of symbols_map [c] of
             Some symb \<Rightarrow> lex_symbol c symb line pos
           | None \<Rightarrow> if c = CHR ''.'' then lex_symbol c SY_PERIOD line pos else LexStuck)"

partial_function (option) lex_loop ::
  "sql_token list \<Rightarrow> string \<Rightarrow> nat \<Rightarrow> nat \<Rightarrow> (sql_token list outcome) option" where
  "lex_loop result rest line pos =
     (case rest of
        [] \<Rightarrow> Some (Done result)
      | c # cs \<Rightarrow>
          (case lex_step c cs line pos of
             LexSkip n line' pos' \<Rightarrow> lex_loop result (drop n rest) line' pos'
           | LexToken t n \<Rightarrow> lex_loop (result @ [t]) (drop n rest) line (pos + n)
           | LexThrow e \<Rightarrow> Some (Raised e)
           | LexStuck \<Rightarrow> lex_loop result rest line pos))"

definition lex :: "string \<Rightarrow> (sql_token list outcome) option" where
  "lex query = lex_loop [] query 1 0"

section \<open>Termination\<close>

definition lexable :: "char \<Rightarrow> bool" where
  "lexable c \<longleftrightarrow> is_space c \<or> is_alpha c \<or> c = CHR 0x27 \<or> c = CHR 0x22 \<or> is_digit c \<or> starts_as_operator c \<or>
     map_of symbols_map [c] \<noteq> None"

lemma length_to_lower [simp]: "length (to_lower s) = length s"
  by (simp add: to_lower_def)

lemma word_char_alpha: "is_alpha c \<Longrightarrow> is_word_char c"
  by (auto simp: is_alpha_def is_word_char_def)

lemma read_next_word_takeWhile: "read_next_word s = takeWhile is_word_char s"
  by (simp add: read_next_word_def get_word_length_def flip: takeWhile_eq_take)

text \<open>A round that succeeds consumes something; only the last \<^verbatim>\<open>else\<close>, which is missing, does not.\<close>

definition progress :: "lex_result \<Rightarrow> bool" where
  "progress r = (case r of LexSkip n l p \<Rightarrow> 0 < n | LexToken t n \<Rightarrow> 0 < n | LexThrow e \<Rightarrow> True | LexStuck \<Rightarrow> False)"

lemma progress_simple [simp]:
  "progress (lex_space c line pos)" "progress (lex_string cs line pos)" "progress (lex_quoted cs line pos)"
  "progress (lex_symbol c symb line pos)" "\<not> progress LexStuck"
  by (simp_all add: progress_def lex_space_def lex_string_def lex_quoted_def lex_symbol_def Let_def)

lemma progress_word [simp]: "is_alpha c \<Longrightarrow> progress (lex_word (c # cs) line pos)"
  by (simp add: progress_def lex_word_def Let_def read_next_word_takeWhile word_char_alpha)

lemma progress_number [simp]: "is_digit c \<Longrightarrow> progress (lex_number (c # cs) line pos)"
  by (simp add: progress_def lex_number_def Let_def)

lemma progress_operator [simp]: "progress (lex_operator rest line pos)"
proof -
  have "map_of operators_map [] = None" by (simp add: operators_map_def)
  then show ?thesis
    by (cases "longest_operator 3 rest") (auto simp: progress_def lex_operator_def Let_def split: option.split)
qed

lemma period_symbol: "map_of symbols_map ''.'' = Some SY_PERIOD"
  by (simp add: symbols_map_def)

lemma lex_step_progress: "progress (lex_step c cs line pos) \<longleftrightarrow> lexable c"
proof (cases "map_of symbols_map [c]")
  case None
  then have "c \<noteq> CHR ''.''" using period_symbol by auto
  with None show ?thesis by (simp add: lex_step_def lexable_def)
next
  case (Some symb)
  then show ?thesis by (simp add: lex_step_def lexable_def)
qed

lemma lex_step_stuck: "\<not> lexable c \<Longrightarrow> lex_step c cs line pos = LexStuck"
  using period_symbol by (auto simp: lex_step_def lexable_def)

lemma lex_loop_simps:
  "lex_loop result [] line pos = Some (Done result)"
  "lex_step c cs line pos = LexSkip n l p \<Longrightarrow> lex_loop result (c # cs) line pos = lex_loop result (drop n (c # cs)) l p"
  "lex_step c cs line pos = LexToken t n \<Longrightarrow>
     lex_loop result (c # cs) line pos = lex_loop (result @ [t]) (drop n (c # cs)) line (pos + n)"
  "lex_step c cs line pos = LexThrow e \<Longrightarrow> lex_loop result (c # cs) line pos = Some (Raised e)"
  by (subst lex_loop.simps, simp)+

lemma lex_loop_returns:
  "\<forall>c\<in>set rest. lexable c \<Longrightarrow> \<exists>r. lex_loop result rest line pos = Some r"
proof (induction "length rest" arbitrary: rest result line pos rule: less_induct)
  case less
  show ?case
  proof (cases rest)
    case Nil
    then show ?thesis by (simp add: lex_loop_simps)
  next
    case (Cons c cs)
    have rec: "\<exists>r. lex_loop res (drop n rest) l p = Some r" if "0 < n" for res n l p
    proof (rule less.hyps)
      show "length (drop n rest) < length rest" using that Cons by simp
      show "\<forall>c\<in>set (drop n rest). lexable c" using less.prems set_drop_subset [of n rest] by blast
    qed
    have "progress (lex_step c cs line pos)" using less.prems Cons by (simp add: lex_step_progress)
    then show ?thesis
      using rec Cons
      by (cases "lex_step c cs line pos") (auto simp: lex_loop_simps progress_def)
  qed
qed

lemma lex_loop_stuck:
  assumes "lex_loop result rest line pos = Some r"
  shows "\<not> (\<exists>c cs. rest = c # cs \<and> \<not> lexable c)"
proof (rule lex_loop.raw_induct [OF _ assms, of "\<lambda>result rest line pos r. \<not> (\<exists>c cs. rest = c # cs \<and> \<not> lexable c)"])
  fix rec result rest line pos r
  assume IH: "\<And>result rest line pos r. rec result rest line pos = Some r \<Longrightarrow> \<not> (\<exists>c cs. rest = c # cs \<and> \<not> lexable c)"
    and run: "(case rest of
        [] \<Rightarrow> Some (Done result)
      | c # cs \<Rightarrow>
          (case lex_step c cs line pos of
             LexSkip n line' pos' \<Rightarrow> rec result (drop n rest) line' pos'
           | LexToken t n \<Rightarrow> rec (result @ [t]) (drop n rest) line (pos + n)
           | LexThrow e \<Rightarrow> Some (Raised e)
           | LexStuck \<Rightarrow> rec result rest line pos)) = Some r"
  show "\<not> (\<exists>c cs. rest = c # cs \<and> \<not> lexable c)"
  proof
    assume "\<exists>c cs. rest = c # cs \<and> \<not> lexable c"
    then obtain c cs where c: "rest = c # cs" "\<not> lexable c" by blast
    then have "lex_step c cs line pos = LexStuck" by (simp add: lex_step_stuck)
    then have "rec result rest line pos = Some r" using run c by simp
    then show False using IH c by blast
  qed
qed

section \<open>Printing tokens\<close>

definition print_token :: "sql_token \<Rightarrow> string" where
  "print_token t = (if st_detail t = DLiteral LIT_STRING then [CHR 0x27] @ st_value t @ [CHR 0x27] else st_value t)"

definition unlex :: "sql_token list \<Rightarrow> string" where
  "unlex ts = concat (map (\<lambda>t. print_token t @ '' '') ts) @ '' ''"

definition word_string :: "string \<Rightarrow> bool" where
  "word_string w \<longleftrightarrow> w \<noteq> [] \<and> is_alpha (hd w) \<and> list_all is_word_char w \<and> to_lower w = w"

text \<open>The tokens the lexer can produce from their text, apart from positions.\<close>

definition printable :: "sql_token \<Rightarrow> bool" where
  "printable t = (case st_detail t of
       DKeyword kw \<Rightarrow> st_type t = TT_KEYWORD \<and> map_of keywords_map (st_value t) = Some kw
     | DOperator op \<Rightarrow> st_type t = TT_OPERATOR \<and> map_of operators_map (st_value t) = Some op \<and>
                        map_of keywords_map (st_value t) = None
     | DSymbol symb \<Rightarrow> st_type t = TT_SYMBOL \<and> map_of symbols_map (st_value t) = Some symb
     | DLiteral l \<Rightarrow> st_type t = TT_LITERAL \<and>
         (l = LIT_STRING \<and> CHR 0x27 \<notin> set (st_value t) \<or>
          l = LIT_INTEGER \<and> st_value t \<noteq> [] \<and> list_all is_digit (st_value t))
     | NoDetail \<Rightarrow> st_type t = TT_IDENTIFIER \<and> word_string (st_value t) \<and>
         map_of keywords_map (st_value t) = None \<and> map_of operators_map (st_value t) = None)"

definition at_pos :: "nat \<Rightarrow> nat \<Rightarrow> sql_token \<Rightarrow> sql_token" where
  "at_pos line pos t = t\<lparr>st_line := line, st_pos := pos\<rparr>"

lemma keyword_words: "map_of keywords_map w = Some kw \<Longrightarrow> word_string w"
proof -
  have "list_all (\<lambda>(w, kw). word_string w) keywords_map" by code_simp
  then show "map_of keywords_map w = Some kw \<Longrightarrow> word_string w"
    by (auto simp: list_all_iff dest!: map_of_SomeD)
qed

lemma operator_words:
  assumes "map_of operators_map w = Some op"
  shows "word_string w \<or> (\<exists>c. \<not> is_space c \<and> \<not> is_alpha c \<and> c \<noteq> CHR 0x27 \<and> c \<noteq> CHR 0x22 \<and> \<not> is_digit c \<and>
    starts_as_operator c \<and> hd w = c)"
    and "CHR '' '' \<notin> set w" and "w \<noteq> []" and "length w \<le> 3" and "to_lower w = w"
proof -
  let ?P = "\<lambda>(w, op). (word_string w \<or> (let c = hd w in \<not> is_space c \<and> \<not> is_alpha c \<and> c \<noteq> CHR 0x27 \<and> c \<noteq> CHR 0x22 \<and>
      \<not> is_digit c \<and> starts_as_operator c)) \<and> CHR '' '' \<notin> set w \<and> w \<noteq> [] \<and> length w \<le> 3 \<and> to_lower w = w"
  have "list_all ?P operators_map" by code_simp
  then have "?P (w, op)" using map_of_SomeD [OF assms] by (simp only: list_all_iff)
  then show "word_string w \<or> (\<exists>c. \<not> is_space c \<and> \<not> is_alpha c \<and> c \<noteq> CHR 0x27 \<and> c \<noteq> CHR 0x22 \<and> \<not> is_digit c \<and>
    starts_as_operator c \<and> hd w = c)"
    "CHR '' '' \<notin> set w" "w \<noteq> []" "length w \<le> 3" "to_lower w = w"
    by (auto simp: Let_def)
qed

lemma symbol_words:
  assumes "map_of symbols_map w = Some symb"
  shows "\<exists>c. w = [c] \<and> \<not> is_space c \<and> \<not> is_alpha c \<and> c \<noteq> CHR 0x27 \<and> c \<noteq> CHR 0x22 \<and> \<not> is_digit c \<and>
    \<not> starts_as_operator c"
proof -
  let ?P = "\<lambda>(w, symb :: sql_symbol). case w of [c] \<Rightarrow> \<not> is_space c \<and> \<not> is_alpha c \<and> c \<noteq> CHR 0x27 \<and> c \<noteq> CHR 0x22 \<and>
      \<not> is_digit c \<and> \<not> starts_as_operator c | _ \<Rightarrow> False"
  have "list_all ?P symbols_map" by code_simp
  then have "?P (w, symb)" using map_of_SomeD [OF assms] by (simp only: list_all_iff)
  then show ?thesis by (auto split: list.splits)
qed

lemma alpha_class: "is_alpha c \<Longrightarrow> \<not> is_space c"
  by (auto simp: is_alpha_def is_letter_def is_space_def)

lemma digit_class: "is_digit c \<Longrightarrow> \<not> is_space c \<and> \<not> is_alpha c \<and> c \<noteq> CHR 0x27 \<and> c \<noteq> CHR 0x22 \<and> c \<noteq> CHR ''.'' \<and>
    c \<noteq> CHR ''e'' \<and> c \<noteq> CHR ''E''"
  by (auto simp: is_alpha_def is_letter_def is_space_def is_digit_def)

lemma space_not_word [simp]: "\<not> is_word_char CHR '' ''" "\<not> is_digit CHR '' ''" "is_space CHR '' ''"
  by (simp_all add: is_word_char_def is_letter_def is_digit_def is_space_def)

lemma read_next_word_space: "word_string w \<Longrightarrow> read_next_word (w @ CHR '' '' # rest) = w"
  by (simp add: read_next_word_takeWhile word_string_def list_all_iff)

lemma lex_step_word:
  assumes "word_string (c # w)"
  shows "lex_step c (w @ CHR '' '' # rest) line pos = lex_word ((c # w) @ CHR '' '' # rest) line pos"
  using assms alpha_class [of c] by (simp add: lex_step_def word_string_def)

lemma get_number_length_space:
  "list_all is_digit ds \<Longrightarrow> get_number_length dot (ds @ CHR '' '' # rest) = length ds"
  by (induction ds arbitrary: dot) (auto dest: digit_class)

lemma longest_operator_space:
  assumes "map_of operators_map w = Some op"
  shows "longest_operator 3 (w @ CHR '' '' # x # rest) = w"
proof -
  have none: "map_of operators_map (to_lower (take n (w @ CHR '' '' # x # rest))) = None" if "length w < n" for n
  proof (cases "map_of operators_map (to_lower (take n (w @ CHR '' '' # x # rest)))")
    case (Some op')
    have "CHR '' '' \<in> set (to_lower (take n (w @ CHR '' '' # x # rest)))"
      using that by (auto simp: to_lower_def lower_char_def Suc_diff_le take_Cons' Let_def)
    with operator_words(2) [OF Some] show ?thesis by blast
  qed
  have self: "map_of operators_map (to_lower w) = Some op"
    using assms operator_words(5) [OF assms] by simp
  have "length w = 1 \<or> length w = 2 \<or> length w = 3"
    using operator_words(3,4) [OF assms] length_greater_0_conv [of w] by linarith
  then show ?thesis
    using none [of 2] none [of 3] self operator_words(5) [OF assms]
    by (auto simp: numeral_eq_Suc Let_def)
qed

lemma at_pos_eq: "at_pos line pos t =
    \<lparr>st_type = st_type t, st_value = st_value t, st_line = line, st_pos = pos, st_detail = st_detail t\<rparr>"
  by (cases t) (simp add: at_pos_def)

lemma lex_word_print:
  assumes "word_string (st_value t)" and "st_detail t \<noteq> DLiteral LIT_STRING"
    and "lex_word (st_value t @ CHR '' '' # x # rest) line pos = LexToken (at_pos line pos t) (length (st_value t))"
  shows "\<exists>c cs. print_token t = c # cs \<and>
    lex_step c (cs @ CHR '' '' # x # rest) line pos = LexToken (at_pos line pos t) (length (print_token t))"
proof -
  obtain c w where w: "st_value t = c # w" using assms(1) by (cases "st_value t") (auto simp: word_string_def)
  with assms(1) have "word_string (c # w)" by simp
  from lex_step_word [OF this, of "x # rest" line pos] assms w show ?thesis
    by (simp add: print_token_def)
qed

lemma lex_word_value:
  "word_string v \<Longrightarrow> lex_word (v @ CHR '' '' # rest) line pos =
    LexToken (case map_of keywords_map v of
        Some kw \<Rightarrow> \<lparr>st_type = TT_KEYWORD, st_value = v, st_line = line, st_pos = pos, st_detail = DKeyword kw\<rparr>
      | None \<Rightarrow> (case map_of operators_map v of
          Some op \<Rightarrow> \<lparr>st_type = TT_OPERATOR, st_value = v, st_line = line, st_pos = pos, st_detail = DOperator op\<rparr>
        | None \<Rightarrow> \<lparr>st_type = TT_IDENTIFIER, st_value = v, st_line = line, st_pos = pos, st_detail = NoDetail\<rparr>))
      (length v)"
  using read_next_word_space [of v rest] by (simp add: lex_word_def Let_def word_string_def cong: option.case_cong)

lemma lex_operator_print:
  assumes "map_of operators_map (st_value t) = Some op" and "st_type t = TT_OPERATOR" and "st_detail t = DOperator op"
    and "\<not> word_string (st_value t)"
  shows "\<exists>c cs. print_token t = c # cs \<and>
    lex_step c (cs @ CHR '' '' # x # rest) line pos = LexToken (at_pos line pos t) (length (print_token t))"
proof -
  obtain c w where w: "st_value t = c # w" using operator_words(3) [OF assms(1)] by (cases "st_value t") auto
  have "lex_step c (w @ CHR '' '' # x # rest) line pos = lex_operator (st_value t @ CHR '' '' # x # rest) line pos"
    using operator_words(1) [OF assms(1)] assms(4) w by (simp add: lex_step_def)
  with w assms longest_operator_space [OF assms(1), of x rest] show ?thesis
    by (simp add: print_token_def lex_operator_def at_pos_eq Let_def)
qed

lemma lex_symbol_print:
  assumes "map_of symbols_map (st_value t) = Some symb" and "st_type t = TT_SYMBOL" and "st_detail t = DSymbol symb"
  shows "\<exists>c cs. print_token t = c # cs \<and>
    lex_step c (cs @ CHR '' '' # x # rest) line pos = LexToken (at_pos line pos t) (length (print_token t))"
proof -
  obtain c where c: "st_value t = [c]" "\<not> is_space c" "\<not> is_alpha c" "c \<noteq> CHR 0x27" "c \<noteq> CHR 0x22"
    "\<not> is_digit c" "\<not> starts_as_operator c"
    using symbol_words [OF assms(1)] by blast
  then have "lex_step c (CHR '' '' # x # rest) line pos = lex_symbol c symb line pos"
    using assms(1) by (simp add: lex_step_def)
  with c(1) assms(2,3) show ?thesis by (simp add: print_token_def lex_symbol_def at_pos_eq)
qed

lemma lex_string_print:
  assumes "CHR 0x27 \<notin> set (st_value t)" and "st_type t = TT_LITERAL" and "st_detail t = DLiteral LIT_STRING"
  shows "\<exists>c cs. print_token t = c # cs \<and>
    lex_step c (cs @ CHR '' '' # x # rest) line pos = LexToken (at_pos line pos t) (length (print_token t))"
proof -
  have "takeWhile (\<lambda>x. x \<noteq> CHR 0x27) (st_value t @ CHR 0x27 # CHR '' '' # x # rest) = st_value t"
    using assms(1) by (auto simp: takeWhile_append)
  moreover have "\<not> is_space CHR 0x27" "\<not> is_alpha CHR 0x27"
    by (simp_all add: is_space_def is_alpha_def is_letter_def)
  ultimately show ?thesis
    using assms by (simp add: print_token_def lex_step_def lex_string_def at_pos_eq Let_def)
qed

lemma lex_integer_print:
  assumes "st_value t \<noteq> []" and "list_all is_digit (st_value t)" and "st_type t = TT_LITERAL"
    and "st_detail t = DLiteral LIT_INTEGER"
  shows "\<exists>c cs. print_token t = c # cs \<and>
    lex_step c (cs @ CHR '' '' # x # rest) line pos = LexToken (at_pos line pos t) (length (print_token t))"
proof -
  obtain c w where w: "st_value t = c # w" using assms(1) by (cases "st_value t") auto
  have "lex_step c (w @ CHR '' '' # x # rest) line pos = lex_number (st_value t @ CHR '' '' # x # rest) line pos"
    using digit_class [of c] assms(2) w by (simp add: lex_step_def)
  moreover have "CHR ''.'' \<notin> set (st_value t)" "CHR ''e'' \<notin> set (st_value t)" "CHR ''E'' \<notin> set (st_value t)"
    using assms(2) digit_class unfolding list_all_iff by blast+
  ultimately show ?thesis
    using w assms get_number_length_space [OF assms(2), of False "x # rest"]
    by (simp add: print_token_def lex_number_def at_pos_eq Let_def del: get_number_length.simps)
qed

lemma lex_step_print:
  assumes "printable t"
  shows "\<exists>c cs. print_token t = c # cs \<and>
    lex_step c (cs @ CHR '' '' # x # rest) line pos = LexToken (at_pos line pos t) (length (print_token t))"
proof (cases "st_detail t")
  case NoDetail
  then have "word_string (st_value t)" using assms by (simp add: printable_def)
  with NoDetail assms lex_word_value [OF this, of "x # rest" line pos] show ?thesis
    by (intro lex_word_print) (simp_all add: printable_def at_pos_eq)
next
  case (DKeyword kw)
  then have kw: "map_of keywords_map (st_value t) = Some kw" using assms by (simp add: printable_def)
  with DKeyword assms lex_word_value [OF keyword_words [OF kw], of "x # rest" line pos] show ?thesis
    by (intro lex_word_print keyword_words [OF kw]) (simp_all add: printable_def at_pos_eq)
next
  case (DOperator op)
  then have op: "map_of operators_map (st_value t) = Some op" "map_of keywords_map (st_value t) = None"
    "st_type t = TT_OPERATOR"
    using assms by (simp_all add: printable_def)
  show ?thesis
  proof (cases "word_string (st_value t)")
    case True
    with DOperator op lex_word_value [OF True, of "x # rest" line pos] show ?thesis
      by (intro lex_word_print) (simp_all add: at_pos_eq)
  next
    case False
    with op DOperator show ?thesis by (intro lex_operator_print)
  qed
next
  case (DSymbol symb)
  with assms show ?thesis by (intro lex_symbol_print) (simp_all add: printable_def)
next
  case (DLiteral l)
  then consider "l = LIT_STRING" "CHR 0x27 \<notin> set (st_value t)" "st_type t = TT_LITERAL"
    | "l = LIT_INTEGER" "st_value t \<noteq> []" "list_all is_digit (st_value t)" "st_type t = TT_LITERAL"
    using assms by (auto simp: printable_def)
  then show ?thesis
    by cases (use DLiteral in \<open>simp_all add: lex_string_print lex_integer_print\<close>)
qed

text \<open>Tokens without their positions.\<close>

definition strip :: "sql_token \<Rightarrow> sql_token" where
  "strip t = at_pos 0 0 t"

lemma strip_at_pos [simp]: "strip (at_pos line pos t) = strip t"
  by (simp add: strip_def at_pos_def)

lemma lex_loop_space: "lex_loop result (CHR '' '' # rest) line pos = lex_loop result rest line (pos + 1)"
proof -
  have "lex_step CHR '' '' rest line pos = LexSkip 1 line (pos + 1)"
    by (simp add: lex_step_def lex_space_def)
  then show ?thesis by (simp add: lex_loop_simps)
qed

lemma lex_loop_print:
  assumes "printable t"
  shows "lex_loop result (print_token t @ CHR '' '' # x # rest) line pos =
    lex_loop (result @ [at_pos line pos t]) (x # rest) line (pos + length (print_token t) + 1)"
proof -
  obtain c cs where t: "print_token t = c # cs"
    and step: "lex_step c (cs @ CHR '' '' # x # rest) line pos = LexToken (at_pos line pos t) (length (print_token t))"
    using lex_step_print [OF assms, of x rest line pos] by blast
  show ?thesis
    using lex_loop_simps(3) [OF step, of result] t by (simp add: lex_loop_space add.assoc)
qed

lemma lex_loop_unlex:
  assumes "list_all printable ts"
  shows "\<exists>ts'. lex_loop result (unlex ts) line pos = Some (Done (result @ ts')) \<and> map strip ts' = map strip ts"
  using assms
proof (induction ts arbitrary: result pos)
  case Nil
  then show ?case by (simp add: unlex_def lex_loop_space lex_loop_simps)
next
  case (Cons t ts)
  have "\<exists>x rest. unlex ts = x # rest"
    by (cases "unlex ts") (simp_all add: unlex_def)
  then obtain x rest where u: "unlex ts = x # rest" by blast
  have "unlex (t # ts) = print_token t @ CHR '' '' # unlex ts" by (simp add: unlex_def)
  then have run: "lex_loop result (unlex (t # ts)) line pos =
      lex_loop (result @ [at_pos line pos t]) (unlex ts) line (pos + length (print_token t) + 1)"
    using lex_loop_print [of t result x rest line pos] Cons.prems u by simp
  obtain ts' where "lex_loop (result @ [at_pos line pos t]) (unlex ts) line (pos + length (print_token t) + 1) =
      Some (Done ((result @ [at_pos line pos t]) @ ts'))" and "map strip ts' = map strip ts"
    using Cons.IH [of "result @ [at_pos line pos t]" "pos + length (print_token t) + 1"] Cons.prems by auto
  with run show ?case by (intro exI [of _ "at_pos line pos t # ts'"]) simp
qed

section \<open>Properties\<close>

definition kw_token :: "string \<Rightarrow> sql_keyword \<Rightarrow> sql_token" where
  "kw_token s k = \<lparr>st_type = TT_KEYWORD, st_value = s, st_line = 0, st_pos = 0, st_detail = DKeyword k\<rparr>"

definition op_token :: "string \<Rightarrow> sql_operator \<Rightarrow> sql_token" where
  "op_token s k = \<lparr>st_type = TT_OPERATOR, st_value = s, st_line = 0, st_pos = 0, st_detail = DOperator k\<rparr>"

definition str_literal :: "string \<Rightarrow> sql_token" where
  "str_literal s = \<lparr>st_type = TT_LITERAL, st_value = s, st_line = 0, st_pos = 0, st_detail = DLiteral LIT_STRING\<rparr>"

text \<open>C37: printing and lexing. A sequence of keywords, identifiers, integer and string literals, operators and
  symbols, printed with a space behind each token and one at the end, is lexed to the same tokens
  (types, texts, details) in the same order; the lexer returns.\<close>

theorem lex_unlex:
  assumes "list_all printable ts"
  shows "\<exists>ts'. lex (unlex ts) = Some (Done ts') \<and> map strip ts' = map strip ts"
  using lex_loop_unlex [OF assms, of "[]" 1 0] by (simp add: lex_def)

theorem lex_unlex_witness:
  "\<exists>ts'. lex (unlex [kw_token ''delete'' KW_DELETE, kw_token ''from'' KW_FROM, kw_token ''where'' KW_WHERE,
       op_token ''>='' OP_GRE, str_literal ''a b'']) = Some (Done ts') \<and>
     map strip ts' = map strip [kw_token ''delete'' KW_DELETE, kw_token ''from'' KW_FROM, kw_token ''where'' KW_WHERE,
       op_token ''>='' OP_GRE, str_literal ''a b'']"
  by (rule lex_unlex)
    (simp add: printable_def kw_token_def op_token_def str_literal_def keywords_map_def operators_map_def)

text \<open>C38: the lexer returns, with tokens or an exception, on every query made of the characters its loop
  handles.\<close>

theorem lex_returns:
  assumes "\<forall>c\<in>set query. lexable c"
  shows "\<exists>r. lex query = Some r"
  using lex_loop_returns [OF assms] by (simp add: lex_def)

theorem lex_returns_witness: "\<exists>r. lex ''a = 1'' = Some r"
  by (rule lex_returns) (simp add: lexable_def is_alpha_def is_letter_def is_space_def is_digit_def
      starts_as_operator_def operators_map_def)

text \<open>On a query that starts with a character no branch of the loop handles, such as \<^verbatim>\<open>@\<close> or \<^verbatim>\<open>%\<close>,
  the lexer never returns.\<close>

theorem lex_diverges:
  assumes "\<not> lexable c"
  shows "lex (c # cs) = None"
  using lex_loop_stuck [of "[]" "c # cs" 1 0] assms by (cases "lex_loop [] (c # cs) 1 0") (auto simp: lex_def)

theorem lex_diverges_witness: "lex (CHR 0x40 # ''x'') = None"
  by (rule lex_diverges)
    (simp add: lexable_def is_alpha_def is_letter_def is_space_def is_digit_def starts_as_operator_def
      operators_map_def symbols_map_def)

text \<open>An operator among the last two characters of a query is rejected: the search for the longest operator
  starts with three characters and stops when fewer are left, so that \<^verbatim>\<open>a=5\<close> throws.\<close>

theorem short_operator_rejected:
  assumes "starts_as_operator c" and "\<not> is_space c" and "\<not> is_alpha c" and "\<not> is_digit c"
    and "c \<noteq> CHR 0x27" and "c \<noteq> CHR 0x22" and "length cs \<le> 1"
  shows "lex_loop result (c # cs) line pos = Some (Raised (RuntimeError ''Unknown operator at position ''))"
proof -
  have "longest_operator 3 (c # cs) = []" using assms(7) by (simp add: numeral_eq_Suc Let_def)
  moreover have "map_of operators_map [] = None" by (simp add: operators_map_def)
  ultimately have "lex_operator (c # cs) line pos = LexThrow (RuntimeError ''Unknown operator at position '')"
    by (simp add: lex_operator_def)
  with assms have "lex_step c cs line pos = LexThrow (RuntimeError ''Unknown operator at position '')"
    by (simp add: lex_step_def)
  then show ?thesis by (rule lex_loop_simps(4))
qed

theorem short_operator_rejected_witness:
  "lex_loop [str_literal ''a''] ''=5'' 1 1 = Some (Raised (RuntimeError ''Unknown operator at position ''))"
  by (rule short_operator_rejected)
    (simp_all add: starts_as_operator_def operators_map_def is_alpha_def is_letter_def is_space_def is_digit_def)

end
