(* ===== verification/Sql_Parser.thy ===== *)
theory Sql_Parser
  imports Sql_Ast
begin

text \<open>
  The recursive-descent parser, \<^verbatim>\<open>sql/parser.cpp\<close>. The state is the token vector with the index of the current token;
  \<^verbatim>\<open>advance\<close> refuses to move beyond the last token, which is what the statements below rely on or stumble over. A call
  yields \<open>None\<close> when it does not return: the expression parser recurses without end on an opening parenthesis that is
  the last token.

  \<^verbatim>\<open>InvalidStatementSyntax\<close> is a \<^verbatim>\<open>runtime_error\<close>. \<open>junk\<close> is the uninitialised \<^verbatim>\<open>is_unique\<close> of a
  \<^verbatim>\<open>CreateIndexStatement\<close>.
\<close>

section \<open>State and calls\<close>

record parser =
  ps_tokens :: "sql_token list"
  ps_current :: nat

type_synonym 'a call = "('a \<times> parser) outcome option"

definition preturn :: "'a \<Rightarrow> parser \<Rightarrow> 'a call" where
  "preturn x st = Some (Done (x, st))"

definition praise :: "string \<Rightarrow> 'a call" where
  "praise msg = Some (Raised (RuntimeError msg))"

definition pbind :: "'a call \<Rightarrow> ('a \<Rightarrow> parser \<Rightarrow> 'b call) \<Rightarrow> 'b call" where
  "pbind m f = Option.bind m (\<lambda>r. case r of
     Done p \<Rightarrow> (case p of (x, st) \<Rightarrow> f x st) | Failed \<Rightarrow> Some Failed | Raised e \<Rightarrow> Some (Raised e) | Undef \<Rightarrow> Some Undef)"

definition sql_syntax :: string where
  "sql_syntax = ''Invalid statement syntax''"

definition advance :: "parser \<Rightarrow> bool \<times> parser" where
  "advance st = (if ps_current st + 1 < length (ps_tokens st) then (True, st\<lparr>ps_current := ps_current st + 1\<rparr>) else (False, st))"

definition advance_or_throw :: "string \<Rightarrow> parser \<Rightarrow> unit call" where
  "advance_or_throw msg st = (case advance st of (ok, st') \<Rightarrow> if ok then preturn () st' else praise msg)"

definition current :: "parser \<Rightarrow> sql_token option" where
  "current st = (if ps_current st \<ge> length (ps_tokens st) then None else Some (ps_tokens st ! ps_current st))"

text \<open>\<^verbatim>\<open>match<TEnum>\<close>, one instance per enumeration, and the dereferenced \<^verbatim>\<open>current()\<close>.\<close>

definition match_type :: "sql_token_type \<Rightarrow> parser \<Rightarrow> bool" where
  "match_type expected st = (case current st of None \<Rightarrow> False | Some t \<Rightarrow> st_type t = expected)"

definition match_kw :: "sql_keyword \<Rightarrow> parser \<Rightarrow> bool" where
  "match_kw expected st = (case current st of None \<Rightarrow> False | Some t \<Rightarrow> st_detail t = DKeyword expected)"

definition match_op :: "sql_operator \<Rightarrow> parser \<Rightarrow> bool" where
  "match_op expected st = (case current st of None \<Rightarrow> False | Some t \<Rightarrow> st_detail t = DOperator expected)"

definition match_sym :: "sql_symbol \<Rightarrow> parser \<Rightarrow> bool" where
  "match_sym expected st = (case current st of None \<Rightarrow> False | Some t \<Rightarrow> st_detail t = DSymbol expected)"

definition match_or_throw :: "bool \<Rightarrow> string \<Rightarrow> parser \<Rightarrow> unit call" where
  "match_or_throw matches msg st = (if matches then preturn () st else praise msg)"

definition deref_current :: "parser \<Rightarrow> sql_token call" where
  "deref_current st = (case current st of None \<Rightarrow> Some Undef | Some t \<Rightarrow> preturn t st)"

definition step_back :: "parser \<Rightarrow> parser" where
  "step_back st = st\<lparr>ps_current := ps_current st - 1\<rparr>"

definition is_trailing_sequence_valid :: "sql_token list \<Rightarrow> nat \<Rightarrow> bool" where
  "is_trailing_sequence_valid tokens start_index =
     (if start_index \<ge> length tokens then True
      else let token = tokens ! start_index
           in if st_type token \<noteq> TT_SYMBOL \<or> st_detail token \<noteq> DSymbol SY_SEMICOLON then False
              else start_index + 1 \<ge> length tokens)"

section \<open>Expressions\<close>

fun to_ast_operator :: "sql_operator \<Rightarrow> ast_operator option" where
  "to_ast_operator OP_OR = Some AO_OR"
| "to_ast_operator OP_AND = Some AO_AND"
| "to_ast_operator OP_EQ = Some AO_EQ"
| "to_ast_operator OP_NEQ = Some AO_NEQ"
| "to_ast_operator OP_NOT = Some AO_NOT"
| "to_ast_operator OP_GR = Some AO_GR"
| "to_ast_operator OP_GRE = Some AO_GRE"
| "to_ast_operator OP_LT = Some AO_LT"
| "to_ast_operator OP_LTE = Some AO_LTE"
| "to_ast_operator OP_IS = Some AO_IS"
| "to_ast_operator OP_ASSIGN = Some AO_ASSIGN"
| "to_ast_operator _ = None"

text \<open>The operator the loop of \<^verbatim>\<open>parse_binary_tree\<close> finds at a token: \<open>Done None\<close> ends the loop.\<close>

definition loop_operator :: "sql_token \<Rightarrow> ast_operator option outcome" where
  "loop_operator token =
     (if st_type token = TT_OPERATOR then
        (case st_detail token of DOperator op \<Rightarrow> Done (to_ast_operator op)
         | _ \<Rightarrow> Raised (RuntimeError ''bad_variant_access''))
      else if st_type token = TT_KEYWORD then
        (case st_detail token of DKeyword kw \<Rightarrow> Done (if kw = KW_IS then Some AO_IS else None)
         | _ \<Rightarrow> Raised (RuntimeError ''bad_variant_access''))
      else Done None)"

definition op_priority :: "ast_operator \<Rightarrow> int" where
  "op_priority op = (case map_of ast_operators_priorities op of Some p \<Rightarrow> p | None \<Rightarrow> 0)"

text \<open>
  \<^verbatim>\<open>parse_binary_tree\<close>, its loop with the tree built so far, and \<^verbatim>\<open>parse_primary\<close> call each other; they are
  one function of the call to make.
\<close>

datatype expr_call = Tree int | Loop int ast_node | Primary

definition binary_node :: "ast_operator \<Rightarrow> ast_node option \<Rightarrow> ast_node \<Rightarrow> ast_node" where
  "binary_node op left right = AstNode NT_BINARY_EXPR (VBinary (BinaryExpr op left (Some right)))"

text \<open>\<^verbatim>\<open>parse_binary_expr\<close> after its call of \<^verbatim>\<open>parse_binary_tree\<close>.\<close>

definition expect_binary :: "ast_node \<Rightarrow> parser \<Rightarrow> binary_expr call" where
  "expect_binary node st =
     (if an_type node \<noteq> NT_BINARY_EXPR then praise ''Expected binary expression''
      else case an_value node of VBinary e \<Rightarrow> preturn e st | _ \<Rightarrow> praise ''bad_variant_access'')"

definition null_literal :: "sql_token \<Rightarrow> sql_token" where
  "null_literal t = t\<lparr>st_type := TT_LITERAL, st_detail := DLiteral LIT_NULL\<rparr>"

partial_function (option) parse_expr :: "expr_call \<Rightarrow> parser \<Rightarrow> (ast_node \<times> parser) outcome option" where
  "parse_expr call st =
     (case call of
        Tree min_priority \<Rightarrow>
          Option.bind (parse_expr Primary st) (\<lambda>r.
          case r of
            Done p \<Rightarrow> (case p of (left, st) \<Rightarrow> parse_expr (Loop min_priority left) st)
          | Failed \<Rightarrow> Some Failed | Raised e \<Rightarrow> Some (Raised e) | Undef \<Rightarrow> Some Undef)
      | Loop min_priority left \<Rightarrow>
          (case current st of
             None \<Rightarrow> Some Undef
           | Some token \<Rightarrow>
               (case loop_operator token of
                  Done None \<Rightarrow> preturn left st
                | Done (Some op) \<Rightarrow>
                    if op_priority op < min_priority then preturn left st
                    else
                      let st = snd (advance st);
                          is_not = (op = AO_IS \<and> match_kw KW_NOT st);
                          st = (if is_not then snd (advance st) else st)
                      in Option.bind (parse_expr (Tree (op_priority op + 1)) st) (\<lambda>r.
                         case r of
                           Done p \<Rightarrow> (case p of (right, st) \<Rightarrow>
                             parse_expr (Loop min_priority (binary_node (if is_not then AO_NEQ else op) (Some left) right)) st)
                         | Failed \<Rightarrow> Some Failed | Raised e \<Rightarrow> Some (Raised e) | Undef \<Rightarrow> Some Undef)
                | Failed \<Rightarrow> Some Failed | Raised e \<Rightarrow> Some (Raised e) | Undef \<Rightarrow> Some Undef))
      | Primary \<Rightarrow>
          if match_sym SY_LPAREN st then
            Option.bind (parse_expr (Tree 0) (snd (advance st))) (\<lambda>r.
            case r of
              Done p \<Rightarrow> (case p of (node, st) \<Rightarrow>
                pbind (expect_binary node st) (\<lambda>e st.
                if \<not> match_sym SY_RPAREN st then praise ''Expected right parenthesis''
                else preturn (AstNode NT_BINARY_EXPR (VBinary e)) st))
            | Failed \<Rightarrow> Some Failed | Raised e \<Rightarrow> Some (Raised e) | Undef \<Rightarrow> Some Undef)
          else if match_op OP_NOT st then
            Option.bind (parse_expr Primary (snd (advance st))) (\<lambda>r.
            case r of
              Done p \<Rightarrow> (case p of (right, st) \<Rightarrow> preturn (binary_node AO_NOT None right) st)
            | Failed \<Rightarrow> Some Failed | Raised e \<Rightarrow> Some (Raised e) | Undef \<Rightarrow> Some Undef)
          else
            (case current st of
               None \<Rightarrow> Some Undef
             | Some token \<Rightarrow>
                 if match_kw KW_NULL st then preturn (AstNode NT_LITERAL (VToken (null_literal token))) (snd (advance st))
                 else if match_type TT_LITERAL st then preturn (AstNode NT_LITERAL (VToken token)) (snd (advance st))
                 else if match_type TT_IDENTIFIER st then preturn (AstNode NT_IDENTIFIER (VToken token)) (snd (advance st))
                 else praise ''Unexpected token in expression: ''))"

definition parse_binary_tree :: "int \<Rightarrow> parser \<Rightarrow> ast_node call" where
  "parse_binary_tree min_priority st = parse_expr (Tree min_priority) st"

definition parse_primary :: "parser \<Rightarrow> ast_node call" where
  "parse_primary st = parse_expr Primary st"

definition parse_binary_expr :: "int \<Rightarrow> parser \<Rightarrow> binary_expr call" where
  "parse_binary_expr min_priority st = pbind (parse_binary_tree min_priority st) expect_binary"

section \<open>Lists\<close>

text \<open>Every turn of these loops moves the index forward or ends the loop.\<close>

definition parser_left :: "parser \<Rightarrow> nat" where
  "parser_left st = length (ps_tokens st) - ps_current st"

lemma advance_left: "(True, st') = advance st \<Longrightarrow> parser_left st' < parser_left st"
  by (auto simp: advance_def parser_left_def split: if_splits)

text \<open>The column list of \<^verbatim>\<open>parse_select\<close>: the token that ends it is the current one.\<close>

function select_columns :: "sql_token list \<Rightarrow> parser \<Rightarrow> sql_token list call" where
  "select_columns columns st =
     (case advance st of
        (False, _) \<Rightarrow> praise sql_syntax
      | (True, st1) \<Rightarrow>
          if \<not> match_type TT_IDENTIFIER st1 then preturn columns st1
          else case current st1 of
                 None \<Rightarrow> Some Undef
               | Some t \<Rightarrow>
                   (case advance st1 of
                      (False, _) \<Rightarrow> preturn (columns @ [t]) st1
                    | (True, st2) \<Rightarrow>
                        if \<not> match_sym SY_COMMA st2 then preturn (columns @ [t]) st2
                        else select_columns (columns @ [t]) st2))"
  by pat_completeness auto
termination
  by (relation "measure (parser_left \<circ> snd)") (auto dest!: advance_left)

text \<open>The column list of \<^verbatim>\<open>parse_insert\<close>: the index stays on the last column.\<close>

function insert_columns :: "sql_token list \<Rightarrow> parser \<Rightarrow> sql_token list call" where
  "insert_columns columns st =
     (case advance st of
        (False, _) \<Rightarrow> praise sql_syntax
      | (True, st1) \<Rightarrow>
          if \<not> match_type TT_IDENTIFIER st1 then preturn columns st1
          else case current st1 of
                 None \<Rightarrow> Some Undef
               | Some t \<Rightarrow>
                   (case advance st1 of
                      (False, _) \<Rightarrow> preturn (columns @ [t]) (step_back st1)
                    | (True, st2) \<Rightarrow>
                        if \<not> match_sym SY_COMMA st2 then preturn (columns @ [t]) (step_back st2)
                        else insert_columns (columns @ [t]) st2))"
  by pat_completeness auto
termination
  by (relation "measure (parser_left \<circ> snd)") (auto dest!: advance_left)

function insert_values :: "sql_token list \<Rightarrow> parser \<Rightarrow> sql_token list call" where
  "insert_values values st =
     (case advance st of
        (False, _) \<Rightarrow> praise sql_syntax
      | (True, st1) \<Rightarrow>
          if \<not> match_type TT_LITERAL st1 then praise ''Expected a literal in VALUES expression''
          else case current st1 of
                 None \<Rightarrow> Some Undef
               | Some t \<Rightarrow>
                   (case advance st1 of
                      (False, _) \<Rightarrow> preturn (values @ [t]) (step_back st1)
                    | (True, st2) \<Rightarrow>
                        if \<not> match_sym SY_COMMA st2 then preturn (values @ [t]) (step_back st2)
                        else insert_values (values @ [t]) st2))"
  by pat_completeness auto
termination
  by (relation "measure (parser_left \<circ> snd)") (auto dest!: advance_left)

declare select_columns.simps [simp del] insert_columns.simps [simp del] insert_values.simps [simp del]

definition parse_table_identifier :: "parser \<Rightarrow> table_identifier call" where
  "parse_table_identifier st =
     pbind (match_or_throw (match_type TT_IDENTIFIER st) ''Invalid syntax'' st) (\<lambda>_ st.
     pbind (deref_current st) (\<lambda>first_token st.
     let st = snd (advance st)
     in if match_sym SY_PERIOD st then
          pbind (advance_or_throw ''Expected table name after schema'' st) (\<lambda>_ st.
          pbind (match_or_throw (match_type TT_IDENTIFIER st) ''Expected table identifier after schema name'' st) (\<lambda>_ st.
          pbind (deref_current st) (\<lambda>second_token st.
          preturn \<lparr>ti_table_name = second_token, ti_schema_name = Some first_token\<rparr> (snd (advance st)))))
        else preturn \<lparr>ti_table_name = first_token, ti_schema_name = None\<rparr> st))"

text \<open>The constraints of \<^verbatim>\<open>parse_column_def\<close>: a token passes only if it is a constraint and a data type.\<close>

function column_constraints :: "sql_token list \<Rightarrow> parser \<Rightarrow> sql_token list call" where
  "column_constraints constraints st =
     (case current st of
        None \<Rightarrow> Some Undef
      | Some cur \<Rightarrow>
          if match_sym SY_COMMA st \<or> match_sym SY_RPAREN st then preturn constraints st
          else case st_detail cur of
                 DKeyword kw \<Rightarrow>
                   (case obind (is_constraint cur) (\<lambda>c. if \<not> c then Done False else is_data_type cur) of
                      Done True \<Rightarrow>
                        (case advance st of
                           (False, _) \<Rightarrow> praise sql_syntax
                         | (True, st') \<Rightarrow> column_constraints (constraints @ [cur]) st')
                    | Done False \<Rightarrow> praise sql_syntax
                    | Failed \<Rightarrow> Some Failed | Raised e \<Rightarrow> Some (Raised e) | Undef \<Rightarrow> Some Undef)
               | _ \<Rightarrow> praise sql_syntax)"
  by pat_completeness auto
termination
  by (relation "measure (parser_left \<circ> snd)") (auto dest!: advance_left)

declare column_constraints.simps [simp del]

definition parse_column_def :: "parser \<Rightarrow> column_definition call" where
  "parse_column_def st =
     pbind (match_or_throw (match_type TT_IDENTIFIER st) ''Expected column identifier'' st) (\<lambda>_ st.
     pbind (deref_current st) (\<lambda>name st.
     pbind (advance_or_throw sql_syntax st) (\<lambda>_ st.
     pbind (deref_current st) (\<lambda>type st.
     pbind (advance_or_throw sql_syntax st) (\<lambda>_ st.
     if match_sym SY_COMMA st \<or> match_sym SY_RPAREN st
     then preturn \<lparr>cd_name = name, cd_type = type, cd_constraints = []\<rparr> st
     else pbind (advance_or_throw sql_syntax st) (\<lambda>_ st.
          pbind (column_constraints [] st) (\<lambda>constraints st.
          preturn \<lparr>cd_name = name, cd_type = type, cd_constraints = constraints\<rparr> st)))))))"

section \<open>Statements\<close>

text \<open>The optional condition of a statement.\<close>

definition where_clause :: "(parser \<Rightarrow> unit call) \<Rightarrow> parser \<Rightarrow> binary_expr option call" where
  "where_clause adv st =
     (if match_kw KW_WHERE st then
        pbind (adv st) (\<lambda>_ st. pbind (parse_binary_expr 0 st) (\<lambda>e st. preturn (Some e) st))
      else preturn None st)"

definition try_advance :: "parser \<Rightarrow> unit call" where
  "try_advance st = preturn () (snd (advance st))"

text \<open>A message that ends with a quote.\<close>

definition quoted :: "string \<Rightarrow> string" where
  "quoted msg = msg @ [CHR 0x27]"

definition parse_select :: "parser \<Rightarrow> ast_node_value call" where
  "parse_select st =
     pbind (if \<not> match_op OP_MUL st then select_columns [] st else preturn [] (snd (advance st))) (\<lambda>columns st.
     pbind (advance_or_throw sql_syntax st) (\<lambda>_ st.
     pbind (match_or_throw (match_kw KW_FROM st) (quoted ''Expected 'FROM'') st) (\<lambda>_ st.
     pbind (advance_or_throw sql_syntax st) (\<lambda>_ st.
     pbind (parse_table_identifier st) (\<lambda>table st.
     pbind (where_clause (advance_or_throw sql_syntax) st) (\<lambda>wh st.
     preturn (VSelect table columns wh None) st))))))"

definition parse_insert :: "parser \<Rightarrow> ast_node_value call" where
  "parse_insert st =
     pbind (advance_or_throw sql_syntax st) (\<lambda>_ st.
     pbind (match_or_throw (match_kw KW_INTO st) ''Expected 'INTO' keyword'' st) (\<lambda>_ st.
     pbind (advance_or_throw sql_syntax st) (\<lambda>_ st.
     pbind (parse_table_identifier st) (\<lambda>table st.
     pbind (match_or_throw (match_sym SY_LPAREN st) ''Expected left parenthesis'' st) (\<lambda>_ st.
     pbind (if \<not> match_op OP_MUL st then insert_columns [] st
            else pbind (advance_or_throw sql_syntax st) (\<lambda>_ st. preturn [] st)) (\<lambda>columns st.
     pbind (advance_or_throw sql_syntax st) (\<lambda>_ st.
     pbind (match_or_throw (match_sym SY_RPAREN st) ''Expected right parenthesis'' st) (\<lambda>_ st.
     pbind (advance_or_throw sql_syntax st) (\<lambda>_ st.
     pbind (match_or_throw (match_kw KW_VALUES st) ''Expected 'VALUES' keyword'' st) (\<lambda>_ st.
     pbind (advance_or_throw sql_syntax st) (\<lambda>_ st.
     pbind (match_or_throw (match_sym SY_LPAREN st) ''Expected left parenthesis'' st) (\<lambda>_ st.
     pbind (insert_values [] st) (\<lambda>vals st.
     pbind (advance_or_throw sql_syntax st) (\<lambda>_ st.
     pbind (match_or_throw (match_sym SY_RPAREN st) ''Expected right parenthesis'' st) (\<lambda>_ st.
     preturn (VInsert table columns [vals]) st)))))))))))))))"

partial_function (option) update_assignments :: "binary_expr list \<Rightarrow> parser \<Rightarrow> (binary_expr list \<times> parser) outcome option" where
  "update_assignments assignments st =
     Option.bind (pbind (advance_or_throw sql_syntax st) (\<lambda>_ st. parse_binary_expr 0 st)) (\<lambda>r.
     case r of
       Done p \<Rightarrow> (case p of (e, st) \<Rightarrow>
         if be_op e \<noteq> AO_ASSIGN then praise ''Expected assignment expression (col = value)''
         else if \<not> match_sym SY_COMMA st then preturn (assignments @ [e]) st
         else update_assignments (assignments @ [e]) st)
     | Failed \<Rightarrow> Some Failed | Raised e \<Rightarrow> Some (Raised e) | Undef \<Rightarrow> Some Undef)"

definition parse_update :: "parser \<Rightarrow> ast_node_value call" where
  "parse_update st =
     pbind (advance_or_throw sql_syntax st) (\<lambda>_ st.
     pbind (parse_table_identifier st) (\<lambda>table st.
     pbind (match_or_throw (match_kw KW_SET st) ''Expected 'SET' keyword'' st) (\<lambda>_ st.
     pbind (update_assignments [] st) (\<lambda>assignments st.
     pbind (where_clause try_advance st) (\<lambda>wh st.
     preturn (VUpdate table assignments wh) st)))))"

definition parse_delete :: "parser \<Rightarrow> ast_node_value call" where
  "parse_delete st =
     pbind (advance_or_throw sql_syntax st) (\<lambda>_ st.
     pbind (match_or_throw (match_kw KW_FROM st) ''Expected 'FROM' keyword after DELETE'' st) (\<lambda>_ st.
     pbind (advance_or_throw sql_syntax st) (\<lambda>_ st.
     pbind (parse_table_identifier st) (\<lambda>table st.
     pbind (where_clause try_advance st) (\<lambda>wh st.
     preturn (VDelete table wh) st)))))"

partial_function (option) create_columns :: "column_definition list \<Rightarrow> parser \<Rightarrow> (column_definition list \<times> parser) outcome option" where
  "create_columns columns st =
     Option.bind (parse_column_def st) (\<lambda>r.
     case r of
       Done p \<Rightarrow> (case p of (def, st) \<Rightarrow>
         if match_sym SY_RPAREN st then preturn (columns @ [def]) (snd (advance st))
         else create_columns (columns @ [def]) (snd (advance st)))
     | Failed \<Rightarrow> Some Failed | Raised e \<Rightarrow> Some (Raised e) | Undef \<Rightarrow> Some Undef)"

definition parse_create_table :: "parser \<Rightarrow> ast_node_value call" where
  "parse_create_table st =
     pbind (match_or_throw (match_kw KW_TABLE st) (quoted ''Expected 'TABLE' after 'CREATE'') st) (\<lambda>_ st.
     pbind (advance_or_throw sql_syntax st) (\<lambda>_ st.
     pbind (parse_table_identifier st) (\<lambda>table st.
     pbind (if match_sym SY_LPAREN st
            then pbind (advance_or_throw sql_syntax st) (\<lambda>_ st. create_columns [] st)
            else preturn [] st) (\<lambda>columns st.
     preturn (VCreateTable table columns) st))))"

partial_function (option) alter_operations :: "column_definition list \<Rightarrow> parser \<Rightarrow> (column_definition list \<times> parser) outcome option" where
  "alter_operations operations st =
     (if match_kw KW_ADD st then
        Option.bind
          (pbind (advance_or_throw (quoted ''You need to specify what to add in 'ALTER TABLE'') st) (\<lambda>_ st.
           if match_kw KW_COLUMN st
           then pbind (advance_or_throw ''Missing column definition'' st) (\<lambda>_ st. parse_column_def st)
           else praise ''Expected COLUMN after ADD'')) (\<lambda>r.
        case r of
          Done p \<Rightarrow> (case p of (def, st) \<Rightarrow> alter_operations (operations @ [def]) st)
        | Failed \<Rightarrow> Some Failed | Raised e \<Rightarrow> Some (Raised e) | Undef \<Rightarrow> Some Undef)
      else if current st = None then preturn operations st
      else praise ''Unsupported ALTER TABLE operation'')"

definition parse_alter_table :: "parser \<Rightarrow> ast_node_value call" where
  "parse_alter_table st =
     pbind (match_or_throw (match_kw KW_TABLE st) (quoted ''Expected 'TABLE' after 'ALTER'') st) (\<lambda>_ st.
     pbind (advance_or_throw sql_syntax st) (\<lambda>_ st.
     pbind (parse_table_identifier st) (\<lambda>table st.
     pbind (advance_or_throw (quoted ''Expected statement for 'ALTER TABLE'') st) (\<lambda>_ st.
     pbind (alter_operations [] st) (\<lambda>operations st.
     preturn (VAlterTable table operations) st)))))"

definition parse_create_db :: "parser \<Rightarrow> ast_node_value call" where
  "parse_create_db st =
     pbind (match_or_throw (match_kw KW_DATABASE st) ''Invalid syntax'' st) (\<lambda>_ st.
     pbind (advance_or_throw ''Expected database identifier'' st) (\<lambda>_ st.
     pbind (deref_current st) (\<lambda>name st. preturn (VCreateDb name) st)))"

definition parse_create_schema :: "parser \<Rightarrow> ast_node_value call" where
  "parse_create_schema st =
     pbind (match_or_throw (match_kw KW_SCHEMA st) ''Invalid syntax'' st) (\<lambda>_ st.
     pbind (advance_or_throw ''Expected schema identifier'' st) (\<lambda>_ st.
     pbind (deref_current st) (\<lambda>name st. preturn (VCreateSchema name) st)))"

definition parse_create_index :: "bool \<Rightarrow> parser \<Rightarrow> ast_node_value call" where
  "parse_create_index junk st =
     pbind (if match_kw KW_UNIQUE st
            then pbind (advance_or_throw (quoted ''Expected 'INDEX' after 'UNIQUE'') st) (\<lambda>_ st. preturn True st)
            else preturn junk st) (\<lambda>is_unique st.
     pbind (match_or_throw (match_kw KW_INDEX st) ''Invalid syntax'' st) (\<lambda>_ st.
     pbind (advance_or_throw ''Expected index identifier'' st) (\<lambda>_ st.
     pbind (match_or_throw (match_type TT_IDENTIFIER st) ''Expected index identifier'' st) (\<lambda>_ st.
     pbind (deref_current st) (\<lambda>index_name st.
     pbind (advance_or_throw ''Incomplete CREATE INDEX syntax'' st) (\<lambda>_ st.
     pbind (match_or_throw (match_kw KW_ON st) ''Invalid syntax'' st) (\<lambda>_ st.
     pbind (advance_or_throw (quoted ''Expected table name after 'ON'') st) (\<lambda>_ st.
     pbind (parse_table_identifier st) (\<lambda>table st.
     pbind (match_or_throw (match_sym SY_LPAREN st) ''Expected '(' after table identifier'' st) (\<lambda>_ st.
     pbind (advance_or_throw (quoted ''Expected column name after '('') st) (\<lambda>_ st.
     pbind (match_or_throw (match_type TT_IDENTIFIER st) (quoted ''Expected column name after '('') st) (\<lambda>_ st.
     pbind (deref_current st) (\<lambda>column_name st.
     pbind (advance_or_throw ''Expected ')' after column identifier'' st) (\<lambda>_ st.
     pbind (match_or_throw (match_sym SY_RPAREN st) ''Expected ')' after column identifier'' st) (\<lambda>_ st.
     preturn (VCreateIndex table index_name column_name is_unique) st)))))))))))))))"

definition parse_drop_index :: "parser \<Rightarrow> ast_node_value call" where
  "parse_drop_index st =
     pbind (match_or_throw (match_kw KW_INDEX st) ''Invalid syntax'' st) (\<lambda>_ st.
     pbind (advance_or_throw ''Expected index identifier'' st) (\<lambda>_ st.
     pbind (match_or_throw (match_type TT_IDENTIFIER st) ''Expected index identifier'' st) (\<lambda>_ st.
     pbind (deref_current st) (\<lambda>index_name st.
     pbind (advance_or_throw ''Expected 'ON' after index identifier'' st) (\<lambda>_ st.
     pbind (match_or_throw (match_kw KW_ON st) ''Expected 'ON' after index identifier'' st) (\<lambda>_ st.
     pbind (advance_or_throw (quoted ''Expected table identifier after 'ON'') st) (\<lambda>_ st.
     pbind (parse_table_identifier st) (\<lambda>table st.
     preturn (VDropIndex table index_name) st))))))))"

definition as_node :: "ast_node_type \<Rightarrow> ast_node_value call \<Rightarrow> ast_node call" where
  "as_node t m = pbind m (\<lambda>v st. preturn (AstNode t v) st)"

definition parse_statement :: "bool \<Rightarrow> parser \<Rightarrow> ast_node call" where
  "parse_statement junk st =
     (if match_kw KW_SELECT st then as_node NT_SELECT (parse_select st)
      else if match_kw KW_INSERT st then as_node NT_INSERT (parse_insert st)
      else if match_kw KW_UPDATE st then as_node NT_UPDATE (parse_update st)
      else if match_kw KW_DELETE st then as_node NT_DELETE (parse_delete st)
      else if match_kw KW_CREATE st then
        pbind (advance_or_throw sql_syntax st) (\<lambda>_ st.
        if match_kw KW_TABLE st then as_node NT_CREATE_TABLE (parse_create_table st)
        else if match_kw KW_DATABASE st then as_node NT_CREATE_DATABASE (parse_create_db st)
        else if match_kw KW_SCHEMA st then as_node NT_CREATE_SCHEMA (parse_create_schema st)
        else if match_kw KW_INDEX st \<or> match_kw KW_UNIQUE st then as_node NT_CREATE_INDEX (parse_create_index junk st)
        else praise ''Unsupported statement'')
      else if match_kw KW_DROP st then
        pbind (advance_or_throw sql_syntax st) (\<lambda>_ st.
        if match_kw KW_INDEX st then as_node NT_DROP_INDEX (parse_drop_index st)
        else praise ''Unsupported statement'')
      else if match_kw KW_ALTER st then
        pbind (advance_or_throw sql_syntax st) (\<lambda>_ st.
        if match_kw KW_TABLE st then as_node NT_ALTER_TABLE (parse_alter_table st)
        else praise ''Unsupported statement'')
      else praise ''Unsupported statement'')"

definition parse :: "bool \<Rightarrow> parser \<Rightarrow> ast_node call" where
  "parse junk st =
     pbind (parse_statement junk st) (\<lambda>parsed st.
     if \<not> is_trailing_sequence_valid (ps_tokens st) (ps_current st) \<and>
        \<not> is_trailing_sequence_valid (ps_tokens st) (ps_current st + 1)
     then praise ''Unexpected tokens after statement''
     else preturn parsed st)"

definition new_parser :: "sql_token list \<Rightarrow> parser" where
  "new_parser tokens = \<lparr>ps_tokens = tokens, ps_current = 0\<rparr>"

section \<open>Moving through the tokens\<close>

definition parser_at :: "sql_token list \<Rightarrow> sql_token list \<Rightarrow> parser" where
  "parser_at pre rest = \<lparr>ps_tokens = pre @ rest, ps_current = length pre\<rparr>"

lemma new_parser_at: "new_parser tokens = parser_at [] tokens"
  by (simp add: new_parser_def parser_at_def)

lemma parser_at_sel [simp]:
  "ps_tokens (parser_at pre rest) = pre @ rest" "ps_current (parser_at pre rest) = length pre"
  by (simp_all add: parser_at_def)

lemma parser_at_simps [simp]:
  "current (parser_at pre (t # rest)) = Some t"
  "advance (parser_at pre (t # u # rest)) = (True, parser_at (pre @ [t]) (u # rest))"
  "advance (parser_at pre [t]) = (False, parser_at pre [t])"
  "step_back (parser_at (pre @ [t]) (u # rest)) = parser_at pre (t # u # rest)"
  by (simp_all add: current_def advance_def parser_at_def step_back_def)

lemma match_simps [simp]:
  "match_type ty (parser_at pre (t # rest)) \<longleftrightarrow> st_type t = ty"
  "match_kw k (parser_at pre (t # rest)) \<longleftrightarrow> st_detail t = DKeyword k"
  "match_op op (parser_at pre (t # rest)) \<longleftrightarrow> st_detail t = DOperator op"
  "match_sym s (parser_at pre (t # rest)) \<longleftrightarrow> st_detail t = DSymbol s"
  by (simp_all add: match_type_def match_kw_def match_op_def match_sym_def)

lemma pbind_simps [simp]:
  "pbind (preturn x st) f = f x st" "pbind (praise msg) f = praise msg" "pbind None f = None" "pbind (Some Undef) f = Some Undef"
  by (simp_all add: pbind_def preturn_def praise_def)

lemma advance_or_throw_simps [simp]:
  "advance_or_throw msg (parser_at pre (t # u # rest)) = preturn () (parser_at (pre @ [t]) (u # rest))"
  "advance_or_throw msg (parser_at pre [t]) = praise msg"
  by (simp_all add: advance_or_throw_def)

lemma match_or_throw_simps [simp]:
  "match_or_throw True msg st = preturn () st" "match_or_throw False msg st = praise msg"
  by (simp_all add: match_or_throw_def)

lemma deref_current_simps [simp]: "deref_current (parser_at pre (t # rest)) = preturn t (parser_at pre (t # rest))"
  by (simp add: deref_current_def)

section \<open>Expressions and their tokens\<close>

text \<open>Conditions without parentheses: operands and binary operators, given by their tokens.\<close>

datatype cond = Operand sql_token | Binop sql_token cond cond

definition operand :: "sql_token \<Rightarrow> bool" where
  "operand t \<longleftrightarrow> (case st_detail t of
     DLiteral l \<Rightarrow> st_type t = TT_LITERAL | NoDetail \<Rightarrow> st_type t = TT_IDENTIFIER | _ \<Rightarrow> False)"

definition token_operator :: "sql_token \<Rightarrow> ast_operator option" where
  "token_operator t = (case loop_operator t of Done op \<Rightarrow> op | _ \<Rightarrow> None)"

primrec cond_tokens :: "cond \<Rightarrow> sql_token list" where
  "cond_tokens (Operand t) = [t]"
| "cond_tokens (Binop t l r) = cond_tokens l @ t # cond_tokens r"

text \<open>The tree a condition denotes: operators bind by priority and associate to the left, as \<open>binds\<close> asks.\<close>

primrec cond_tree :: "cond \<Rightarrow> ast_node" where
  "cond_tree (Operand t) = AstNode (if st_type t = TT_LITERAL then NT_LITERAL else NT_IDENTIFIER) (VToken t)"
| "cond_tree (Binop t l r) = binary_node (the (token_operator t)) (Some (cond_tree l)) (cond_tree r)"

primrec binds :: "int \<Rightarrow> cond \<Rightarrow> bool" where
  "binds m (Operand t) = operand t"
| "binds m (Binop t l r) =
     (case token_operator t of
        None \<Rightarrow> False
      | Some op \<Rightarrow> m \<le> op_priority op \<and> binds (op_priority op) l \<and> binds (op_priority op + 1) r)"

text \<open>What may follow a condition: a token that ends it or an operator that binds no tighter.\<close>

definition follows :: "cond \<Rightarrow> sql_token \<Rightarrow> bool" where
  "follows e t \<longleftrightarrow> (\<exists>found. loop_operator t = Done found \<and>
     (case (found, e) of
        (Some op, Binop u l r) \<Rightarrow> op_priority op \<le> op_priority (the (token_operator u))
      | _ \<Rightarrow> True))"

lemma operand_simps:
  assumes "operand t"
  shows "st_type t = TT_LITERAL \<or> st_type t = TT_IDENTIFIER" and "st_detail t \<noteq> DKeyword k"
    and "st_detail t \<noteq> DOperator op" and "st_detail t \<noteq> DSymbol s"
  using assms by (auto simp: operand_def split: sql_detail.splits)

lemma binds_mono: "binds m e \<Longrightarrow> k \<le> m \<Longrightarrow> binds k e"
  by (cases e) (auto split: option.splits)

lemma cond_tokens_first: "binds m e \<Longrightarrow> \<exists>t ts. cond_tokens e = t # ts \<and> operand t"
proof (induction e arbitrary: m)
  case (Binop t l r)
  then obtain op where "binds (op_priority op) l" by (auto split: option.splits)
  with Binop.IH(1) show ?case by fastforce
qed simp

lemma token_operator_Some: "token_operator t = Some op \<longleftrightarrow> loop_operator t = Done (Some op)"
  by (auto simp: token_operator_def split: outcome.splits)

lemma parse_operand:
  "operand t \<Longrightarrow> parse_expr Primary (parser_at pre (t # u # rest)) =
   preturn (cond_tree (Operand t)) (parser_at (pre @ [t]) (u # rest))"
  using operand_simps [of t] by (subst parse_expr.simps) (auto simp: preturn_def)

lemma parse_tree_unfold:
  "parse_expr (Tree m) st = pbind (parse_expr Primary st) (\<lambda>left st. parse_expr (Loop m left) st)"
  by (subst parse_expr.simps) (simp add: pbind_def)

lemma loop_stops:
  "loop_operator t = Done None \<Longrightarrow> parse_expr (Loop m left) (parser_at pre (t # rest)) = preturn left (parser_at pre (t # rest))"
  "loop_operator t = Done (Some op) \<Longrightarrow> op_priority op < m \<Longrightarrow>
    parse_expr (Loop m left) (parser_at pre (t # rest)) = preturn left (parser_at pre (t # rest))"
  by (subst parse_expr.simps; simp)+

lemma loop_goes_on:
  assumes "loop_operator t = Done (Some op)" and "m \<le> op_priority op" and "operand u"
  shows "parse_expr (Loop m left) (parser_at pre (t # u # rest)) =
    pbind (parse_expr (Tree (op_priority op + 1)) (parser_at (pre @ [t]) (u # rest)))
      (\<lambda>right st. parse_expr (Loop m (binary_node op (Some left) right)) st)"
  using assms operand_simps(2) [OF assms(3)]
  by (subst parse_expr.simps) (simp add: pbind_def Let_def)

text \<open>Parsing the tokens of a condition leads into the loop with its tree.\<close>

lemma parse_cond:
  assumes "binds m e" and "follows e t"
  shows "parse_expr (Tree m) (parser_at pre (cond_tokens e @ t # rest)) =
    parse_expr (Loop m (cond_tree e)) (parser_at (pre @ cond_tokens e) (t # rest))"
  using assms
proof (induction e arbitrary: m pre t rest)
  case (Operand u)
  then show ?case by (simp add: parse_tree_unfold parse_operand)
next
  case (Binop u l r)
  obtain op where op: "token_operator u = Some op" "m \<le> op_priority op" "binds (op_priority op) l" "binds (op_priority op + 1) r"
    using Binop.prems(1) by (auto split: option.splits)
  note lo = op(1) [unfolded token_operator_Some]
  obtain v vs where v: "cond_tokens r = v # vs" "operand v" using cond_tokens_first [OF op(4)] by blast
  have fl: "follows l u" using op(3) lo by (cases l) (auto simp: follows_def split: option.splits)
  obtain found where found: "loop_operator t = Done found" "\<And>o'. found = Some o' \<Longrightarrow> op_priority o' \<le> op_priority op"
    using Binop.prems(2) op(1) by (auto simp: follows_def split: option.splits)
  have fr: "follows r t" using op(4) found by (cases r) (auto simp: follows_def split: option.splits)
  have "parse_expr (Tree m) (parser_at pre (cond_tokens (Binop u l r) @ t # rest)) =
      parse_expr (Loop m (cond_tree l)) (parser_at (pre @ cond_tokens l) (u # v # vs @ t # rest))"
    using Binop.IH(1) [OF binds_mono [OF op(3,2)] fl, of pre "cond_tokens r @ t # rest"] v by simp
  also have "\<dots> = pbind (parse_expr (Tree (op_priority op + 1)) (parser_at (pre @ cond_tokens l @ [u]) (cond_tokens r @ t # rest)))
      (\<lambda>right st. parse_expr (Loop m (binary_node op (Some (cond_tree l)) right)) st)"
    using loop_goes_on [OF lo op(2) v(2)] v(1) by simp
  also have "parse_expr (Tree (op_priority op + 1)) (parser_at (pre @ cond_tokens l @ [u]) (cond_tokens r @ t # rest)) =
      parse_expr (Loop (op_priority op + 1) (cond_tree r)) (parser_at (pre @ cond_tokens l @ u # cond_tokens r) (t # rest))"
    using Binop.IH(2) [OF op(4) fr, of "pre @ cond_tokens l @ [u]" rest] by simp
  also have "\<dots> = preturn (cond_tree r) (parser_at (pre @ cond_tokens l @ u # cond_tokens r) (t # rest))"
  proof (cases found)
    case None
    then show ?thesis using found(1) by (simp add: loop_stops(1))
  next
    case (Some o')
    have "op_priority o' < op_priority op + 1" using found(2) [OF Some] by simp
    with found(1) Some show ?thesis by (simp add: loop_stops(2))
  qed
  finally show ?case using op(1) by simp
qed

section \<open>Statements and their tokens\<close>

definition kw :: "sql_keyword \<Rightarrow> sql_token \<Rightarrow> bool" where
  "kw k t \<longleftrightarrow> st_type t = TT_KEYWORD \<and> st_detail t = DKeyword k"

definition sym :: "sql_symbol \<Rightarrow> sql_token \<Rightarrow> bool" where
  "sym s t \<longleftrightarrow> st_type t = TT_SYMBOL \<and> st_detail t = DSymbol s"

definition ident :: "sql_token \<Rightarrow> bool" where
  "ident t \<longleftrightarrow> st_type t = TT_IDENTIFIER \<and> st_detail t = NoDetail"

definition literal :: "sql_token \<Rightarrow> bool" where
  "literal t \<longleftrightarrow> st_type t = TT_LITERAL \<and> (\<exists>l. st_detail t = DLiteral l)"

text \<open>The tokens of a table name, with or without its schema.\<close>

definition names_table :: "sql_token list \<Rightarrow> table_identifier \<Rightarrow> bool" where
  "names_table ts ti \<longleftrightarrow>
     (\<exists>t. ts = [t] \<and> ident t \<and> ti = \<lparr>ti_table_name = t, ti_schema_name = None\<rparr>) \<or>
     (\<exists>s p t. ts = [s, p, t] \<and> ident s \<and> sym SY_PERIOD p \<and> ident t \<and> ti = \<lparr>ti_table_name = t, ti_schema_name = Some s\<rparr>)"

lemma parse_table_identifier_at:
  assumes "names_table ts ti" and "st_detail u \<noteq> DSymbol SY_PERIOD"
  shows "parse_table_identifier (parser_at pre (ts @ u # rest)) = preturn ti (parser_at (pre @ ts) (u # rest))"
  using assms by (auto simp: names_table_def parse_table_identifier_def ident_def sym_def)

lemma names_table_first: "names_table ts ti \<Longrightarrow> \<exists>t us. ts = t # us"
  by (auto simp: names_table_def)

text \<open>The expression of a condition that is not a single operand.\<close>

fun cond_expr :: "cond \<Rightarrow> binary_expr" where
  "cond_expr (Binop t l r) = BinaryExpr (the (token_operator t)) (Some (cond_tree l)) (Some (cond_tree r))"
| "cond_expr (Operand t) = BinaryExpr AO_UNDEFINED None None"

lemma parse_binary_expr_at:
  assumes "binds 0 (Binop u l r)" and "loop_operator t = Done None"
  shows "parse_binary_expr 0 (parser_at pre (cond_tokens (Binop u l r) @ t # rest)) =
    preturn (cond_expr (Binop u l r)) (parser_at (pre @ cond_tokens (Binop u l r)) (t # rest))"
proof -
  have "follows (Binop u l r) t" using assms(2) by (simp add: follows_def)
  from parse_cond [OF assms(1) this] assms(2) show ?thesis
    by (simp add: parse_binary_expr_def parse_binary_tree_def loop_stops(1) expect_binary_def binary_node_def
        del: cond_tokens.simps)
qed

lemma loop_operator_stop: "sym s t \<Longrightarrow> loop_operator t = Done None" "kw k t \<Longrightarrow> k \<noteq> KW_IS \<Longrightarrow> loop_operator t = Done None"
  by (simp_all add: loop_operator_def sym_def kw_def)

lemma where_clause_at:
  assumes "kw KW_WHERE w" and "binds 0 (Binop u l r)" and "loop_operator t = Done None"
    and "\<And>x xs. adv (parser_at pre (w # x # xs)) = preturn () (parser_at (pre @ [w]) (x # xs))"
  shows "where_clause adv (parser_at pre (w # cond_tokens (Binop u l r) @ t # rest)) =
    preturn (Some (cond_expr (Binop u l r))) (parser_at (pre @ w # cond_tokens (Binop u l r)) (t # rest))"
proof -
  obtain x xs where x: "cond_tokens (Binop u l r) = x # xs" using cond_tokens_first [OF assms(2)] by blast
  have "adv (parser_at pre (w # cond_tokens (Binop u l r) @ t # rest)) =
      preturn () (parser_at (pre @ [w]) (cond_tokens (Binop u l r) @ t # rest))"
    unfolding x using assms(4) by simp
  with parse_binary_expr_at [OF assms(2,3), of "pre @ [w]" rest] assms(1) show ?thesis
    by (simp add: where_clause_def kw_def del: cond_tokens.simps cond_expr.simps)
qed

lemma where_clause_none: "sym s t \<Longrightarrow> where_clause adv (parser_at pre (t # rest)) = preturn None (parser_at pre (t # rest))"
  by (simp add: where_clause_def sym_def)

lemma try_advance_at [simp]: "try_advance (parser_at pre (t # u # rest)) = preturn () (parser_at (pre @ [t]) (u # rest))"
  by (simp add: try_advance_def)

lemma parse_done:
  assumes "parse_statement junk (new_parser ts) = preturn node (parser_at pre [z])" and "sym SY_SEMICOLON z"
  shows "parse junk (new_parser ts) = preturn node (parser_at pre [z])"
  using assms by (simp add: parse_def is_trailing_sequence_valid_def sym_def nth_append)

section \<open>The parser returns\<close>

text \<open>\<open>fine st r\<close>: the call returns, without touching a missing token, and leaves the index where it was or further on.\<close>

definition inside :: "parser \<Rightarrow> bool" where
  "inside st \<longleftrightarrow> ps_current st < length (ps_tokens st)"

definition onward :: "parser \<Rightarrow> parser \<Rightarrow> bool" where
  "onward st st' \<longleftrightarrow> ps_tokens st' = ps_tokens st \<and> ps_current st \<le> ps_current st' \<and> ps_current st' < length (ps_tokens st)"

definition fine :: "parser \<Rightarrow> 'a call \<Rightarrow> bool" where
  "fine st r \<longleftrightarrow> (\<exists>res. r = Some res \<and> res \<noteq> Undef \<and> (\<forall>x st'. res = Done (x, st') \<longrightarrow> onward st st'))"

lemma onward_refl [simp]: "onward st st \<longleftrightarrow> inside st"
  by (simp add: onward_def inside_def)

lemma onward_trans: "onward st st1 \<Longrightarrow> onward st1 st2 \<Longrightarrow> onward st st2"
  by (auto simp: onward_def)

lemma onward_inside: "onward st st' \<Longrightarrow> inside st'"
  by (simp add: onward_def inside_def)

lemma onward_left: "onward st st' \<Longrightarrow> parser_left st' \<le> parser_left st"
  by (auto simp: onward_def parser_left_def)

lemma fine_praise [simp]: "fine st (praise msg)"
  by (simp add: fine_def praise_def)

lemma fine_preturn: "onward st st' \<Longrightarrow> fine st (preturn x st')"
  by (simp add: fine_def preturn_def)

lemma fine_pbind:
  assumes "fine st m" and "\<And>x st'. onward st st' \<Longrightarrow> fine st' (f x st')"
  shows "fine st (pbind m f)"
proof -
  obtain res where res: "m = Some res" "res \<noteq> Undef" "\<forall>x st'. res = Done (x, st') \<longrightarrow> onward st st'"
    using assms(1) by (auto simp: fine_def)
  show ?thesis
  proof (cases res)
    case (Done p)
    obtain x st' where p: "p = (x, st')" by (cases p)
    with res Done have on: "onward st st'" by simp
    from assms(2) [OF this, of x] obtain r where "f x st' = Some r" "r \<noteq> Undef" "\<forall>y st''. r = Done (y, st'') \<longrightarrow> onward st' st''"
      by (auto simp: fine_def)
    with res(1) Done p on show ?thesis by (auto simp: fine_def pbind_def intro: onward_trans)
  qed (use res in \<open>simp_all add: fine_def pbind_def\<close>)
qed

lemma fine_weaken: "fine st' r \<Longrightarrow> onward st st' \<Longrightarrow> fine st r"
  unfolding fine_def using onward_trans by blast

lemma advance_onward: "inside st \<Longrightarrow> onward st (snd (advance st))"
  by (auto simp: advance_def onward_def inside_def)

lemma advance_moves:
  "inside st \<Longrightarrow> ps_current st + 1 < length (ps_tokens st) \<Longrightarrow> parser_left (snd (advance st)) < parser_left st"
  by (auto simp: advance_def parser_left_def inside_def)

lemma current_inside: "inside st \<Longrightarrow> current st = Some (ps_tokens st ! ps_current st)"
  by (simp add: inside_def current_def)

lemma fine_advance: "inside st \<Longrightarrow> fine st (advance_or_throw msg st)"
  using advance_onward [of st] by (auto simp: advance_or_throw_def fine_preturn split: prod.splits)

lemma fine_try_advance: "inside st \<Longrightarrow> fine st (try_advance st)"
  by (simp add: try_advance_def fine_preturn advance_onward)

lemma fine_match: "inside st \<Longrightarrow> fine st (match_or_throw b msg st)"
  by (simp add: match_or_throw_def fine_preturn)

lemma fine_deref: "inside st \<Longrightarrow> fine st (deref_current st)"
  by (simp add: deref_current_def current_inside fine_preturn)

lemma fine_expect: "inside st \<Longrightarrow> fine st (expect_binary node st)"
  by (auto simp: expect_binary_def fine_preturn split: ast_node_value.splits)

lemmas fine_basics = fine_advance fine_try_advance fine_match fine_deref fine_expect fine_preturn fine_praise

text \<open>A last token at which the expression parser cannot get stuck.\<close>

definition ends_well :: "sql_token list \<Rightarrow> bool" where
  "ends_well ts \<longleftrightarrow> ts \<noteq> [] \<longrightarrow> st_detail (last ts) \<noteq> DSymbol SY_LPAREN \<and> st_detail (last ts) \<noteq> DOperator OP_NOT"

lemma ends_well_moves:
  assumes "inside st" and "ends_well (ps_tokens st)" and "match_sym SY_LPAREN st \<or> match_op OP_NOT st"
  shows "ps_current st + 1 < length (ps_tokens st)"
proof (rule ccontr)
  assume "\<not> ?thesis"
  then have c: "ps_current st = length (ps_tokens st) - 1" "ps_tokens st \<noteq> []" using assms(1) by (auto simp: inside_def)
  then have "ps_tokens st ! ps_current st = last (ps_tokens st)" by (simp add: last_conv_nth)
  with assms c(2) show False by (auto simp: ends_well_def match_sym_def match_op_def current_inside)
qed

lemma bind_case_pbind:
  "Option.bind m (\<lambda>r. case r of Done p \<Rightarrow> (case p of (x, st) \<Rightarrow> f x st)
     | Failed \<Rightarrow> Some Failed | Raised e \<Rightarrow> Some (Raised e) | Undef \<Rightarrow> Some Undef) = pbind m f"
  by (simp add: pbind_def)

lemma parse_primary_unfold:
  "parse_expr Primary st =
     (if match_sym SY_LPAREN st then
        pbind (parse_expr (Tree 0) (snd (advance st))) (\<lambda>node st.
        pbind (expect_binary node st) (\<lambda>e st.
        if \<not> match_sym SY_RPAREN st then praise ''Expected right parenthesis''
        else preturn (AstNode NT_BINARY_EXPR (VBinary e)) st))
      else if match_op OP_NOT st then
        pbind (parse_expr Primary (snd (advance st))) (\<lambda>right st. preturn (binary_node AO_NOT None right) st)
      else
        (case current st of
           None \<Rightarrow> Some Undef
         | Some token \<Rightarrow>
             if match_kw KW_NULL st then preturn (AstNode NT_LITERAL (VToken (null_literal token))) (snd (advance st))
             else if match_type TT_LITERAL st then preturn (AstNode NT_LITERAL (VToken token)) (snd (advance st))
             else if match_type TT_IDENTIFIER st then preturn (AstNode NT_IDENTIFIER (VToken token)) (snd (advance st))
             else praise ''Unexpected token in expression: ''))"
  by (subst parse_expr.simps) (simp add: bind_case_pbind)

definition after_operator :: "ast_operator \<Rightarrow> parser \<Rightarrow> bool \<times> parser" where
  "after_operator op st =
     (let st = snd (advance st); is_not = (op = AO_IS \<and> match_kw KW_NOT st)
      in (is_not, if is_not then snd (advance st) else st))"

lemma parse_loop_unfold:
  "parse_expr (Loop m left) st =
     (case current st of
        None \<Rightarrow> Some Undef
      | Some token \<Rightarrow>
          (case loop_operator token of
             Done None \<Rightarrow> preturn left st
           | Done (Some op) \<Rightarrow>
               if op_priority op < m then preturn left st
               else pbind (parse_expr (Tree (op_priority op + 1)) (snd (after_operator op st))) (\<lambda>right st'.
                    parse_expr (Loop m (binary_node (if fst (after_operator op st) then AO_NEQ else op) (Some left) right)) st')
           | Failed \<Rightarrow> Some Failed | Raised e \<Rightarrow> Some (Raised e) | Undef \<Rightarrow> Some Undef))"
  by (subst parse_expr.simps) (auto simp: pbind_def after_operator_def Let_def split: option.splits outcome.splits)

text \<open>At an operator that is the last token the right operand is missing: an exception.\<close>

lemma parse_missing_operand:
  assumes "inside st" and "ends_well (ps_tokens st)" and "\<not> ps_current st + 1 < length (ps_tokens st)"
    and "loop_operator (ps_tokens st ! ps_current st) = Done (Some op)"
  shows "parse_expr (Tree m) st = praise ''Unexpected token in expression: ''"
proof -
  have "st_type (ps_tokens st ! ps_current st) = TT_OPERATOR \<and> (\<exists>o'. st_detail (ps_tokens st ! ps_current st) = DOperator o') \<or>
      st_type (ps_tokens st ! ps_current st) = TT_KEYWORD \<and> st_detail (ps_tokens st ! ps_current st) = DKeyword KW_IS"
    using assms(4) by (auto simp: loop_operator_def split: if_splits sql_detail.splits)
  moreover have "\<not> match_op OP_NOT st" using ends_well_moves [OF assms(1,2)] assms(3) by blast
  ultimately have "parse_expr Primary st = praise ''Unexpected token in expression: ''"
    using assms(1)
    by (subst parse_primary_unfold) (auto simp: match_sym_def match_op_def match_kw_def match_type_def current_inside)
  then show ?thesis by (simp add: parse_tree_unfold)
qed

lemma fine_paren:
  assumes "inside st"
  shows "fine st (pbind (expect_binary node st) (\<lambda>e st.
    if \<not> match_sym SY_RPAREN st then praise ''Expected right parenthesis'' else preturn (AstNode NT_BINARY_EXPR (VBinary e)) st))"
proof (rule fine_pbind [OF fine_expect [OF assms]])
  fix x :: binary_expr and st' assume "onward st st'"
  from onward_inside [OF this] show "fine st' (if \<not> match_sym SY_RPAREN st' then praise ''Expected right parenthesis''
      else preturn (AstNode NT_BINARY_EXPR (VBinary x)) st')" by (simp add: fine_preturn)
qed

lemma parse_expr_fine:
  assumes "inside st" and "ends_well (ps_tokens st)"
  shows "fine st (parse_expr Primary st)" and "fine st (parse_expr (Loop m left) st)" and "fine st (parse_expr (Tree m) st)"
proof -
  have "fine st (parse_expr Primary st) \<and> (\<forall>m left. fine st (parse_expr (Loop m left) st)) \<and> (\<forall>m. fine st (parse_expr (Tree m) st))"
    using assms
  proof (induction "parser_left st" arbitrary: st rule: less_induct)
    case less
    have IH: "fine st' (parse_expr Primary st')" "fine st' (parse_expr (Loop m left) st')" "fine st' (parse_expr (Tree m) st')"
      if "onward st st'" "parser_left st' < parser_left st" for st' m left
      using less.hyps [OF that(2) onward_inside [OF that(1)]] less.prems(2) that(1) by (simp_all add: onward_def)
    let ?adv = "snd (advance st)"
    have adv: "onward st ?adv" by (rule advance_onward [OF less.prems(1)])
    have prim: "fine st (parse_expr Primary st)"
    proof (cases "match_sym SY_LPAREN st \<or> match_op OP_NOT st")
      case True
      have lt: "parser_left ?adv < parser_left st"
        by (rule advance_moves [OF less.prems(1) ends_well_moves [OF less.prems True]])
      have paren: "fine st (pbind (parse_expr (Tree 0) ?adv) (\<lambda>node st. pbind (expect_binary node st) (\<lambda>e st.
          if \<not> match_sym SY_RPAREN st then praise ''Expected right parenthesis''
          else preturn (AstNode NT_BINARY_EXPR (VBinary e)) st)))"
        by (rule fine_pbind [OF fine_weaken [OF IH(3) [OF adv lt] adv]]) (rule fine_paren [OF onward_inside])
      have "fine st (pbind (parse_expr Primary ?adv) (\<lambda>right st. preturn (binary_node AO_NOT None right) st))"
        by (rule fine_pbind [OF fine_weaken [OF IH(1) [OF adv lt] adv]]) (simp add: fine_preturn onward_inside [of st])
      with True paren show ?thesis by (subst parse_primary_unfold) auto
    next
      case False
      then show ?thesis
        using less.prems(1) adv by (subst parse_primary_unfold) (simp add: current_inside fine_preturn)
    qed
    have loop: "fine st (parse_expr (Loop m left) st)" for m left
    proof (cases "loop_operator (ps_tokens st ! ps_current st)")
      case (Done found)
      show ?thesis
      proof (cases found)
        case None
        with Done less.prems(1) show ?thesis by (subst parse_loop_unfold) (simp add: current_inside fine_preturn)
      next
        case (Some op)
        let ?st1 = "snd (after_operator op st)"
        have on1: "onward st ?st1"
          using adv advance_onward [OF onward_inside [OF adv]] onward_trans by (auto simp: after_operator_def Let_def)
        show ?thesis
        proof (cases "ps_current st + 1 < length (ps_tokens st)")
          case True
          have "parser_left ?adv < parser_left st" by (rule advance_moves [OF less.prems(1) True])
          moreover have "parser_left ?st1 \<le> parser_left ?adv"
            using onward_left [OF advance_onward [OF onward_inside [OF adv]]] by (auto simp: after_operator_def Let_def)
          ultimately have lt: "parser_left ?st1 < parser_left st" by simp
          have "fine st (pbind (parse_expr (Tree (op_priority op + 1)) ?st1) (\<lambda>right st'. parse_expr (Loop m (l right)) st'))" for l
          proof (rule fine_weaken [OF fine_pbind [OF IH(3) [OF on1 lt]] on1])
            fix x st' assume "onward ?st1 st'"
            then show "fine st' (parse_expr (Loop m (l x)) st')"
              using IH(2) onward_trans [OF on1] onward_left lt by (meson le_less_trans)
          qed
          with Done Some less.prems(1) show ?thesis by (subst parse_loop_unfold) (simp add: current_inside fine_preturn)
        next
          case False
          have "?adv = st" using False by (simp add: advance_def)
          moreover from this have "\<not> (op = AO_IS \<and> match_kw KW_NOT st)"
            using Done Some less.prems(1)
            by (auto simp: match_kw_def current_inside loop_operator_def split: if_splits)
          ultimately have "?st1 = st" by (simp add: after_operator_def Let_def)
          with Done Some less.prems(1) parse_missing_operand [OF less.prems False] show ?thesis
            by (subst parse_loop_unfold) (simp add: current_inside fine_preturn)
        qed
      qed
    qed (use less.prems(1) in \<open>subst parse_loop_unfold, simp add: current_inside fine_def loop_operator_def split: if_splits sql_detail.splits\<close>)+
    have "fine st (parse_expr (Tree m) st)" for m
      unfolding parse_tree_unfold
    proof (rule fine_pbind [OF prim])
      fix x st' assume on: "onward st st'"
      show "fine st' (parse_expr (Loop m x) st')"
      proof (cases "ps_current st' = ps_current st")
        case True
        then have "st' = st" using on by (simp add: onward_def)
        then show ?thesis using loop by simp
      next
        case False
        then have "parser_left st' < parser_left st" using on by (auto simp: onward_def parser_left_def)
        from IH(2) [OF on this] show ?thesis .
      qed
    qed
    with prim loop show ?case by blast
  qed
  then show "fine st (parse_expr Primary st)" and "fine st (parse_expr (Loop m left) st)" and "fine st (parse_expr (Tree m) st)"
    by blast+
qed

text \<open>Statements.\<close>

lemma fine_binary_expr: "inside st \<Longrightarrow> ends_well (ps_tokens st) \<Longrightarrow> fine st (parse_binary_expr m st)"
  unfolding parse_binary_expr_def parse_binary_tree_def
  by (rule fine_pbind [OF parse_expr_fine(3)]) (auto intro: fine_expect onward_inside)

lemma onward_ends: "onward st st' \<Longrightarrow> ends_well (ps_tokens st) \<Longrightarrow> ends_well (ps_tokens st')"
  by (simp add: onward_def)

lemma advance_cases:
  assumes "inside st"
  obtains (no) "advance st = (False, st)" | (yes) st' where "advance st = (True, st')" and "onward st st'" and "parser_left st' < parser_left st"
proof (cases "advance st")
  case (Pair b st')
  show ?thesis
  proof (cases b)
    case True
    have on: "onward st st'" using advance_onward [OF assms] Pair by simp
    from yes [of st'] Pair True advance_left [of st' st] on show ?thesis by simp
  next
    case False
    then show ?thesis using no Pair by (auto simp: advance_def split: if_splits)
  qed
qed

lemma step_back_onward:
  "inside st \<Longrightarrow> advance st = (True, st1) \<Longrightarrow> onward st (step_back st1)"
  "inside st \<Longrightarrow> advance st = (True, st1) \<Longrightarrow> advance st1 = (True, st2) \<Longrightarrow> onward st (step_back st2)"
  by (auto simp: advance_def step_back_def onward_def inside_def split: if_splits)

text \<open>The three list loops have one shape.\<close>

lemma fine_list_loop:
  assumes unfold: "\<And>cs st. g cs st =
     (case advance st of
        (False, _) \<Rightarrow> praise msg
      | (True, st1) \<Rightarrow>
          if \<not> match_type ty st1 then stop cs st1
          else case current st1 of
                 None \<Rightarrow> Some Undef
               | Some t \<Rightarrow>
                   (case advance st1 of
                      (False, _) \<Rightarrow> preturn (cs @ [t]) (bk st1)
                    | (True, st2) \<Rightarrow>
                        if \<not> match_sym SY_COMMA st2 then preturn (cs @ [t]) (bk st2) else g (cs @ [t]) st2))"
    and stop: "\<And>cs st st1. inside st \<Longrightarrow> advance st = (True, st1) \<Longrightarrow> fine st (stop cs st1)"
    and back1: "\<And>st st1. inside st \<Longrightarrow> advance st = (True, st1) \<Longrightarrow> onward st (bk st1)"
    and back2: "\<And>st st1 st2. inside st \<Longrightarrow> advance st = (True, st1) \<Longrightarrow> advance st1 = (True, st2) \<Longrightarrow> onward st (bk st2)"
  shows "inside st \<Longrightarrow> fine st (g cs st)"
proof (induction "parser_left st" arbitrary: st cs rule: less_induct)
  case less
  show ?case
    using less.prems
  proof (cases rule: advance_cases)
    case no
    then show ?thesis by (subst unfold) simp
  next
    case (yes st1)
    note st1 = yes
    have in1: "inside st1" using onward_inside [OF st1(2)] .
    show ?thesis
      using in1
    proof (cases rule: advance_cases)
      case no
      then show ?thesis
        using st1(1) stop [OF less.prems st1(1)] back1 [OF less.prems st1(1)]
        by (subst unfold) (simp add: current_inside [OF in1] fine_preturn)
    next
      case (yes st2)
      note on = onward_trans [OF st1(2) yes(2)]
      have "parser_left st2 < parser_left st" using st1(3) yes(3) by simp
      from less.hyps [OF this onward_inside [OF on]] have "fine st (g (cs @ [t]) st2)" for t
        using on by (rule fine_weaken)
      then show ?thesis
        using st1(1) yes(1) stop [OF less.prems st1(1)] back2 [OF less.prems st1(1) yes(1)]
        by (subst unfold) (simp add: current_inside [OF in1] fine_preturn)
    qed
  qed
qed

lemma advance_True_onward: "inside st \<Longrightarrow> advance st = (True, st1) \<Longrightarrow> onward st st1"
  using advance_onward [of st] by simp

lemma fine_select_columns: "inside st \<Longrightarrow> fine st (select_columns cs st)"
  by (rule fine_list_loop [where bk = "\<lambda>st. st", OF select_columns.simps])
    (auto intro: fine_preturn advance_True_onward onward_trans onward_inside)

lemma fine_insert_columns: "inside st \<Longrightarrow> fine st (insert_columns cs st)"
  by (rule fine_list_loop [OF insert_columns.simps]) (auto intro: fine_preturn advance_True_onward step_back_onward)

lemma fine_insert_values: "inside st \<Longrightarrow> fine st (insert_values vs st)"
  by (rule fine_list_loop [OF insert_values.simps]) (auto intro: fine_preturn advance_True_onward step_back_onward)

lemma fine_column_constraints: "inside st \<Longrightarrow> fine st (column_constraints cs st)"
proof (induction "parser_left st" arbitrary: st cs rule: less_induct)
  case less
  let ?t = "ps_tokens st ! ps_current st"
  have nxt: "fine st (case advance st of (False, _) \<Rightarrow> praise sql_syntax | (True, st') \<Rightarrow> column_constraints cs' st')" for cs'
    using less.prems
  proof (cases rule: advance_cases)
    case (yes st')
    from fine_weaken [OF less.hyps [OF yes(3) onward_inside [OF yes(2)]] yes(2)] yes(1) show ?thesis by simp
  qed simp
  have "\<exists>b. obind (is_constraint t) (\<lambda>c. if \<not> c then Done False else is_data_type t) = Done b" if "st_detail t = DKeyword k" for t k
    using that by (cases "is_keyword t") (auto simp: is_constraint_def is_data_type_def)
  then have kw: "\<exists>b. obind (is_constraint ?t) (\<lambda>c. if \<not> c then Done False else is_data_type ?t) = Done b"
    if "st_detail ?t = DKeyword k" for k using that by blast
  show ?case
  proof (cases "st_detail ?t")
    case (DKeyword k)
    then obtain b where "obind (is_constraint ?t) (\<lambda>c. if \<not> c then Done False else is_data_type ?t) = Done b" using kw by blast
    with DKeyword less.prems nxt show ?thesis
      by (subst column_constraints.simps) (cases b; simp add: current_inside fine_preturn)
  qed (use less.prems in \<open>subst column_constraints.simps, simp add: current_inside fine_preturn\<close>)+
qed

lemma fine_bindI:
  "fine st m \<Longrightarrow> (\<And>x st'. inside st' \<Longrightarrow> ps_tokens st' = ps_tokens st \<Longrightarrow> fine st' (f x st')) \<Longrightarrow> fine st (pbind m f)"
  by (rule fine_pbind) (auto simp: onward_def inside_def)

lemma fine_if: "(b \<Longrightarrow> fine st x) \<Longrightarrow> (\<not> b \<Longrightarrow> fine st y) \<Longrightarrow> fine st (if b then x else y)"
  by simp

lemma fine_preturn_same: "inside st \<Longrightarrow> fine st (preturn x st)"
  by (simp add: fine_preturn)

lemma fine_preturn_advance: "inside st \<Longrightarrow> fine st (preturn x (snd (advance st)))"
  by (simp add: fine_preturn advance_onward)

lemmas fine_intros = fine_bindI fine_if fine_advance fine_try_advance fine_match fine_deref fine_expect fine_preturn_same
  fine_preturn_advance fine_praise fine_select_columns fine_insert_columns fine_insert_values fine_column_constraints

lemma fine_advanced: "inside st \<Longrightarrow> fine (snd (advance st)) r \<Longrightarrow> fine st r"
  by (rule fine_weaken [OF _ advance_onward])

lemma inside_advance: "inside st \<Longrightarrow> inside (snd (advance st))"
  by (rule onward_inside [OF advance_onward])

lemma tokens_advance [simp]: "ps_tokens (snd (advance st)) = ps_tokens st"
  by (simp add: advance_def)

lemma fine_table_identifier: "inside st \<Longrightarrow> fine st (parse_table_identifier st)"
  unfolding parse_table_identifier_def Let_def
  by (intro fine_bindI fine_match fine_deref; (assumption | rule fine_advanced); (assumption | intro fine_intros inside_advance; assumption))

lemma fine_column_def: "inside st \<Longrightarrow> fine st (parse_column_def st)"
  unfolding parse_column_def_def by (intro fine_intros; assumption)

lemma fine_where:
  assumes "inside st" and "ends_well (ps_tokens st)" and "fine st (adv st)"
  shows "fine st (where_clause adv st)"
  unfolding where_clause_def
  by (intro fine_intros assms fine_binary_expr) (simp_all add: assms)

lemma parse_binary_moves:
  assumes "inside st" and "ends_well (ps_tokens st)" and "advance_or_throw msg st = preturn u st1"
  shows "fine st1 (parse_binary_expr 0 st1)" and "parser_left st1 < parser_left st" and "onward st st1"
proof -
  have "advance st = (True, st1)" using assms(3) by (auto simp: advance_or_throw_def preturn_def praise_def split: prod.splits if_splits)
  then show l: "parser_left st1 < parser_left st" and on: "onward st st1"
    using advance_left [of st1 st] advance_True_onward [OF assms(1)] by simp_all
  show "fine st1 (parse_binary_expr 0 st1)"
    using fine_binary_expr onward_inside [OF on] onward_ends [OF on assms(2)] by blast
qed

lemma advance_or_throw_cases:
  assumes "inside st"
  obtains (no) "advance_or_throw msg st = praise msg"
  | (yes) st1 where "advance_or_throw msg st = preturn () st1" and "parser_left st1 < parser_left st" and "onward st st1"
  using assms
proof (cases rule: advance_cases)
  case no
  with that(1) show thesis by (simp add: advance_or_throw_def)
next
  case (yes st')
  with that(2) [of st'] show thesis by (simp add: advance_or_throw_def)
qed

text \<open>A loop that consumes a token before each step ends.\<close>

lemma fine_consuming_loop:
  assumes unfold: "\<And>a st. g a st = pbind (step st) (\<lambda>x st'. if done_at x st' then fin a x st' else g (upd a x) (after st'))"
    and step: "\<And>st. inside st \<Longrightarrow> ends_well (ps_tokens st) \<Longrightarrow> fine st (step st)"
    and moves: "\<And>st x st'. inside st \<Longrightarrow> ends_well (ps_tokens st) \<Longrightarrow> step st = preturn x st' \<Longrightarrow> parser_left st' < parser_left st"
    and fin: "\<And>a x st. inside st \<Longrightarrow> fine st (fin a x st)" and after: "\<And>st. inside st \<Longrightarrow> onward st (after st)"
  shows "inside st \<Longrightarrow> ends_well (ps_tokens st) \<Longrightarrow> fine st (g a st)"
proof (induction "parser_left st" arbitrary: st a rule: less_induct)
  case less
  obtain res where res: "step st = Some res" "res \<noteq> Undef" "\<forall>x st'. res = Done (x, st') \<longrightarrow> onward st st'"
    using step [OF less.prems] by (auto simp: fine_def)
  show ?case
  proof (cases res)
    case (Done p)
    obtain x st' where p: "p = (x, st')" by (cases p)
    have eq: "step st = preturn x st'" using res(1) Done p by (simp add: preturn_def)
    have on: "onward st st'" using res(3) Done p by simp
    have on': "onward st (after st')" using onward_trans [OF on after [OF onward_inside [OF on]]] .
    have "parser_left (after st') \<le> parser_left st'" by (rule onward_left [OF after [OF onward_inside [OF on]]])
    then have "parser_left (after st') < parser_left st" using moves [OF less.prems eq] by simp
    from less.hyps [OF this onward_inside [OF on'] onward_ends [OF on' less.prems(2)]]
    have "fine st (g (upd a x) (after st'))" using on' by (rule fine_weaken)
    moreover have "fine st (fin a x st')" using fin [OF onward_inside [OF on]] on by (rule fine_weaken)
    ultimately show ?thesis by (subst unfold) (simp add: eq)
  qed (use res in \<open>subst unfold, simp add: fine_def pbind_def\<close>)+
qed

lemma praise_not_preturn [simp]: "praise msg \<noteq> preturn x st" "preturn x st \<noteq> praise msg"
  by (simp_all add: praise_def preturn_def)

lemma pbind_cong_fun: "(\<And>x st. f x st = g x st) \<Longrightarrow> pbind m f = pbind m g"
  by (rule arg_cong [where f = "pbind m"]) (intro ext)

lemma pbind_preturnD:
  assumes "pbind m f = preturn x st'"
  obtains y st1 where "m = preturn y st1" and "f y st1 = preturn x st'"
proof (cases m)
  case None
  with assms show thesis by (simp add: pbind_def preturn_def)
next
  case (Some r)
  with assms that show thesis by (cases r) (auto simp: pbind_def preturn_def)
qed

lemma fine_preturnD: "fine st r \<Longrightarrow> r = preturn x st' \<Longrightarrow> onward st st'"
  by (simp add: fine_def preturn_def)

text \<open>A call that starts with \<^verbatim>\<open>advance_or_throw\<close> moves the index.\<close>

lemma advance_bind_moves:
  assumes "inside st" and "pbind (advance_or_throw msg st) f = preturn x st'"
    and "\<And>u st1. inside st1 \<Longrightarrow> ps_tokens st1 = ps_tokens st \<Longrightarrow> fine st1 (f u st1)"
  shows "parser_left st' < parser_left st"
  using assms(1)
proof (cases rule: advance_or_throw_cases [where msg = msg])
  case no
  with assms(2) show ?thesis by simp
next
  case (yes st1)
  then have f: "f () st1 = preturn x st'" using assms(2) by simp
  have "fine st1 (f () st1)" using assms(3) onward_inside [OF yes(3)] yes(3) by (simp add: onward_def)
  from onward_left [OF fine_preturnD [OF this f]] yes(2) show ?thesis by simp
qed

lemma fine_update_assignments: "inside st \<Longrightarrow> ends_well (ps_tokens st) \<Longrightarrow> fine st (update_assignments as st)"
proof (rule fine_consuming_loop [where g = update_assignments and after = "\<lambda>st. st" and upd = "\<lambda>a e. a @ [e]"
      and step = "\<lambda>st. pbind (advance_or_throw sql_syntax st) (\<lambda>_ st. parse_binary_expr 0 st)"
      and done_at = "\<lambda>e st. be_op e \<noteq> AO_ASSIGN \<or> \<not> match_sym SY_COMMA st"
      and fin = "\<lambda>a e st. if be_op e \<noteq> AO_ASSIGN then praise ''Expected assignment expression (col = value)''
        else preturn (a @ [e]) st"])
  show "update_assignments a st = pbind (pbind (advance_or_throw sql_syntax st) (\<lambda>_ st. parse_binary_expr 0 st)) (\<lambda>e st'.
      if be_op e \<noteq> AO_ASSIGN \<or> \<not> match_sym SY_COMMA st'
      then if be_op e \<noteq> AO_ASSIGN then praise ''Expected assignment expression (col = value)'' else preturn (a @ [e]) st'
      else update_assignments (a @ [e]) st')" for a st
    by (subst update_assignments.simps) (unfold bind_case_pbind, rule pbind_cong_fun, simp)
  show "fine st (pbind (advance_or_throw sql_syntax st) (\<lambda>_ st. parse_binary_expr 0 st))"
    if "inside st" "ends_well (ps_tokens st)" for st
    by (rule fine_bindI [OF fine_advance]) (simp_all add: fine_binary_expr that)
qed (auto intro: fine_intros fine_binary_expr elim!: advance_bind_moves)

lemma deref_bind: "inside st \<Longrightarrow> pbind (deref_current st) f = f (ps_tokens st ! ps_current st) st"
  by (simp add: deref_current_def current_inside)

lemma column_def_moves:
  assumes "inside st" and "parse_column_def st = preturn x st'"
  shows "parser_left st' < parser_left st"
proof -
  have m: "match_type TT_IDENTIFIER st = True" using assms(2) by (cases "match_type TT_IDENTIFIER st") (simp_all add: parse_column_def_def)
  note eq = assms(2) [unfolded parse_column_def_def m match_or_throw_simps pbind_simps deref_bind [OF assms(1)]]
  show ?thesis by (rule advance_bind_moves [OF assms(1) eq]) (intro fine_intros; assumption)
qed

lemma fine_create_columns: "inside st \<Longrightarrow> ends_well (ps_tokens st) \<Longrightarrow> fine st (create_columns cs st)"
proof (rule fine_consuming_loop [where g = create_columns and after = "\<lambda>st. snd (advance st)" and upd = "\<lambda>a d. a @ [d]"
      and step = parse_column_def and done_at = "\<lambda>d st. match_sym SY_RPAREN st"
      and fin = "\<lambda>a d st. preturn (a @ [d]) (snd (advance st))"])
  show "create_columns a st = pbind (parse_column_def st) (\<lambda>d st'.
      if match_sym SY_RPAREN st' then preturn (a @ [d]) (snd (advance st')) else create_columns (a @ [d]) (snd (advance st')))" for a st
    by (subst create_columns.simps) (unfold bind_case_pbind, rule refl)
qed (auto intro: fine_column_def column_def_moves fine_preturn_advance advance_onward)

definition alter_step :: "parser \<Rightarrow> column_definition option call" where
  "alter_step st =
     (if match_kw KW_ADD st then
        pbind (advance_or_throw (quoted ''You need to specify what to add in 'ALTER TABLE'') st) (\<lambda>_ st.
        pbind (if match_kw KW_COLUMN st
           then pbind (advance_or_throw ''Missing column definition'' st) (\<lambda>_ st. parse_column_def st)
           else praise ''Expected COLUMN after ADD'') (\<lambda>d st. preturn (Some d) st))
      else if current st = None then preturn None st
      else praise ''Unsupported ALTER TABLE operation'')"

lemma pbind_assoc: "pbind (pbind m f) g = pbind m (\<lambda>x st. pbind (f x st) g)"
  by (cases m) (auto simp: pbind_def split: outcome.splits)

lemma pbind_if: "pbind (if b then x else y) f = (if b then pbind x f else pbind y f)"
  by simp

lemma fine_alter_operations: "inside st \<Longrightarrow> ends_well (ps_tokens st) \<Longrightarrow> fine st (alter_operations os st)"
proof (rule fine_consuming_loop [where g = alter_operations and after = "\<lambda>st. st" and upd = "\<lambda>a d. a @ [the d]"
      and step = alter_step and done_at = "\<lambda>d st. d = None" and fin = "\<lambda>a d st. preturn a st"])
  show "alter_operations a st = pbind (alter_step st) (\<lambda>d st'.
      if d = None then preturn a st' else alter_operations (a @ [the d]) st')" for a st
    by (subst alter_operations.simps) (simp add: bind_case_pbind alter_step_def pbind_assoc)
  show "fine st (alter_step st)" if "inside st" for st
    unfolding alter_step_def using that by (auto intro!: fine_intros fine_column_def)
  show "parser_left st' < parser_left st" if "inside st" "alter_step st = preturn x st'" for st x st'
    using that by (auto simp: alter_step_def current_inside intro!: fine_intros fine_column_def elim!: advance_bind_moves split: if_splits)
qed (auto intro: fine_preturn_same)

lemma fine_parse_statement:
  assumes "inside st" and "ends_well (ps_tokens st)"
  shows "fine st (parse_statement junk st)"
proof -
  have select: "fine st (parse_select st)" if "inside st" "ends_well (ps_tokens st)" for st
    unfolding parse_select_def
    by (intro fine_intros fine_table_identifier fine_where; (assumption | simp add: that))
  have insert: "fine st (parse_insert st)" if "inside st" for st
    unfolding parse_insert_def by (intro fine_intros fine_table_identifier; (assumption | rule that))
  have update: "fine st (parse_update st)" if "inside st" "ends_well (ps_tokens st)" for st
    unfolding parse_update_def
    by (intro fine_intros fine_table_identifier fine_where fine_update_assignments; (assumption | simp add: that))
  have delete: "fine st (parse_delete st)" if "inside st" "ends_well (ps_tokens st)" for st
    unfolding parse_delete_def
    by (intro fine_intros fine_table_identifier fine_where; (assumption | simp add: that))
  have create: "fine st (parse_create_table st)" if "inside st" "ends_well (ps_tokens st)" for st
    unfolding parse_create_table_def
    by (intro fine_intros fine_table_identifier fine_create_columns; (assumption | simp add: that))
  have alter: "fine st (parse_alter_table st)" if "inside st" "ends_well (ps_tokens st)" for st
    unfolding parse_alter_table_def
    by (intro fine_intros fine_table_identifier fine_alter_operations; (assumption | simp add: that))
  have other: "fine st (parse_create_db st)" "fine st (parse_create_schema st)" "fine st (parse_create_index junk st)"
      "fine st (parse_drop_index st)" if "inside st" for st
    unfolding parse_create_db_def parse_create_schema_def parse_create_index_def parse_drop_index_def
    by (intro fine_intros fine_table_identifier; (assumption | rule that))+
  show ?thesis
    unfolding parse_statement_def as_node_def
    by (intro fine_intros select insert update delete create alter other; (assumption | simp add: assms))
qed

section \<open>Properties\<close>

text \<open>C39: a condition is parsed to the tree its operators denote, by priority and from left to right: the statements
  \<^verbatim>\<open>DELETE FROM t WHERE c;\<close> and \<^verbatim>\<open>SELECT * FROM t WHERE c;\<close>, for every condition built from operands and
  binary operators without parentheses, are accepted with exactly that tree.\<close>

theorem parse_condition_roundtrip:
  assumes "kw KW_DELETE d" and "kw KW_SELECT s" and "st_detail star = DOperator OP_MUL" and "st_type star = TT_OPERATOR"
    and "kw KW_FROM f" and "names_table ts ti" and "kw KW_WHERE w" and "binds 0 (Binop u l r)" and "sym SY_SEMICOLON z"
  shows "(\<exists>st. parse junk (new_parser (d # f # ts @ w # cond_tokens (Binop u l r) @ [z])) =
      preturn (AstNode NT_DELETE (VDelete ti (Some (cond_expr (Binop u l r))))) st) \<and>
    (\<exists>st. parse junk (new_parser (s # star # f # ts @ w # cond_tokens (Binop u l r) @ [z])) =
      preturn (AstNode NT_SELECT (VSelect ti [] (Some (cond_expr (Binop u l r))) None)) st)"
proof -
  have wp: "st_detail w \<noteq> DSymbol SY_PERIOD" using assms(7) by (simp add: kw_def)
  obtain x xs where x: "ts = x # xs" using names_table_first [OF assms(6)] by blast
  note stop = loop_operator_stop(1) [OF assms(9)]
  note tab = parse_table_identifier_at [OF assms(6) wp, unfolded x, simplified]
  note dets = assms(1,2,5,7) [unfolded kw_def]
  have "parse_statement junk (new_parser (d # f # ts @ w # cond_tokens (Binop u l r) @ [z])) =
      preturn (AstNode NT_DELETE (VDelete ti (Some (cond_expr (Binop u l r)))))
        (parser_at (d # f # ts @ w # cond_tokens (Binop u l r)) [z])"
    using dets where_clause_at [OF assms(7,8) stop try_advance_at]
    by (simp add: parse_statement_def new_parser_at parse_delete_def as_node_def x tab del: cond_tokens.simps cond_expr.simps)
  from parse_done [OF this assms(9)]
  have del: "\<exists>st. parse junk (new_parser (d # f # ts @ w # cond_tokens (Binop u l r) @ [z])) =
      preturn (AstNode NT_DELETE (VDelete ti (Some (cond_expr (Binop u l r))))) st" by blast
  have sel: "select_columns [] (parser_at [] (s # star # f # rest)) = preturn [] (parser_at [s] (star # f # rest))" for rest
    using assms(4) by (subst select_columns.simps) simp
  have "parse_statement junk (new_parser (s # star # f # ts @ w # cond_tokens (Binop u l r) @ [z])) =
      preturn (AstNode NT_SELECT (VSelect ti [] (Some (cond_expr (Binop u l r))) None))
        (parser_at (s # star # f # ts @ w # cond_tokens (Binop u l r)) [z])"
    using dets where_clause_at [OF assms(7,8) stop advance_or_throw_simps(1)]
    by (simp add: parse_statement_def new_parser_at parse_select_def as_node_def x tab sel del: cond_tokens.simps cond_expr.simps)
  from parse_done [OF this assms(9)] del show ?thesis by blast
qed

definition tok :: "sql_token_type \<Rightarrow> sql_detail \<Rightarrow> string \<Rightarrow> sql_token" where
  "tok ty d v = \<lparr>st_type = ty, st_value = v, st_line = 1, st_pos = 0, st_detail = d\<rparr>"

definition kw_tok :: "sql_keyword \<Rightarrow> sql_token" where
  "kw_tok k = tok TT_KEYWORD (DKeyword k) []"

definition sym_tok :: "sql_symbol \<Rightarrow> sql_token" where
  "sym_tok s = tok TT_SYMBOL (DSymbol s) []"

definition op_tok :: "sql_operator \<Rightarrow> sql_token" where
  "op_tok op = tok TT_OPERATOR (DOperator op) []"

definition id_tok :: "string \<Rightarrow> sql_token" where
  "id_tok v = tok TT_IDENTIFIER NoDetail v"

definition int_tok :: "string \<Rightarrow> sql_token" where
  "int_tok v = tok TT_LITERAL (DLiteral LIT_INTEGER) v"

lemmas tok_simps = tok_def kw_tok_def sym_tok_def op_tok_def id_tok_def int_tok_def kw_def sym_def ident_def literal_def

text \<open>\<^verbatim>\<open>a == 1 or b > 2 and c == 3\<close>.\<close>

definition sample_cond :: cond where
  "sample_cond = Binop (op_tok OP_OR)
     (Binop (op_tok OP_EQ) (Operand (id_tok ''a'')) (Operand (int_tok ''1'')))
     (Binop (op_tok OP_AND)
        (Binop (op_tok OP_GR) (Operand (id_tok ''b'')) (Operand (int_tok ''2'')))
        (Binop (op_tok OP_EQ) (Operand (id_tok ''c'')) (Operand (int_tok ''3''))))"

theorem parse_condition_roundtrip_witness:
  "\<exists>st. parse False (new_parser (kw_tok KW_DELETE # kw_tok KW_FROM # id_tok ''t'' # kw_tok KW_WHERE #
       cond_tokens sample_cond @ [sym_tok SY_SEMICOLON])) =
     preturn (AstNode NT_DELETE (VDelete \<lparr>ti_table_name = id_tok ''t'', ti_schema_name = None\<rparr> (Some (cond_expr sample_cond)))) st"
proof -
  have "names_table [id_tok ''t''] \<lparr>ti_table_name = id_tok ''t'', ti_schema_name = None\<rparr>"
    by (simp add: names_table_def tok_simps)
  moreover have "binds 0 sample_cond"
    by (simp add: sample_cond_def token_operator_def loop_operator_def operand_def tok_simps op_priority_def ast_operators_priorities_def)
  ultimately show ?thesis
    unfolding sample_cond_def
    using parse_condition_roundtrip [of "kw_tok KW_DELETE" "kw_tok KW_SELECT" "op_tok OP_MUL" "kw_tok KW_FROM" "[id_tok ''t'']"
      "\<lparr>ti_table_name = id_tok ''t'', ti_schema_name = None\<rparr>" "kw_tok KW_WHERE" _ _ _ "sym_tok SY_SEMICOLON" False]
    by (simp add: tok_simps del: cond_tokens.simps cond_expr.simps binds.simps)
qed

text \<open>The tokens of a list with a separator.\<close>

fun separated :: "sql_token \<Rightarrow> sql_token list \<Rightarrow> sql_token list" where
  "separated c [] = []"
| "separated c [t] = [t]"
| "separated c (t # ts) = t # c # separated c ts"

lemma separated_Cons: "ts \<noteq> [] \<Longrightarrow> separated c (t # ts) = t # c # separated c ts"
  by (cases ts) auto

lemma separated_first: "ts \<noteq> [] \<Longrightarrow> \<exists>us. separated c ts = hd ts # us"
  by (cases "(c, ts)" rule: separated.cases) auto

lemma insert_columns_at:
  assumes "list_all ident ts" and "ts \<noteq> []" and "sym SY_COMMA c" and "sym SY_RPAREN q"
  shows "\<exists>pre' x. insert_columns cs (parser_at pre (y # separated c ts @ q # rest)) =
    preturn (cs @ ts) (parser_at pre' (x # q # rest)) \<and> pre' @ [x] = pre @ y # separated c ts"
  using assms(1,2)
proof (induction ts arbitrary: cs pre y)
  case (Cons t ts)
  have t: "st_type t = TT_IDENTIFIER" using Cons.prems by (simp add: ident_def)
  show ?case
  proof (cases "ts = []")
    case True
    then show ?thesis
      using t assms(4) parser_at_simps(4) [of "pre @ [y]" t q rest] by (subst insert_columns.simps) (simp add: sym_def)
  next
    case False
    then obtain us where us: "separated c ts = hd ts # us" using separated_first by blast
    have "insert_columns cs (parser_at pre (y # separated c (t # ts) @ q # rest)) =
        insert_columns (cs @ [t]) (parser_at (pre @ [y, t]) (c # separated c ts @ q # rest))"
      using t assms(3) False us by (subst insert_columns.simps) (simp add: separated_Cons sym_def)
    with Cons.IH [OF _ False, of "cs @ [t]" "pre @ [y, t]" c] Cons.prems(1) show ?thesis
      using False by (simp add: separated_Cons)
  qed
qed simp

lemma insert_values_at:
  assumes "list_all literal ts" and "ts \<noteq> []" and "sym SY_COMMA c" and "sym SY_RPAREN q"
  shows "\<exists>pre' x. insert_values cs (parser_at pre (y # separated c ts @ q # rest)) =
    preturn (cs @ ts) (parser_at pre' (x # q # rest)) \<and> pre' @ [x] = pre @ y # separated c ts"
  using assms(1,2)
proof (induction ts arbitrary: cs pre y)
  case (Cons t ts)
  have t: "st_type t = TT_LITERAL" using Cons.prems by (simp add: literal_def)
  show ?case
  proof (cases "ts = []")
    case True
    then show ?thesis
      using t assms(4) parser_at_simps(4) [of "pre @ [y]" t q rest] by (subst insert_values.simps) (simp add: sym_def)
  next
    case False
    then obtain us where us: "separated c ts = hd ts # us" using separated_first by blast
    have "insert_values cs (parser_at pre (y # separated c (t # ts) @ q # rest)) =
        insert_values (cs @ [t]) (parser_at (pre @ [y, t]) (c # separated c ts @ q # rest))"
      using t assms(3) False us by (subst insert_values.simps) (simp add: separated_Cons sym_def)
    with Cons.IH [OF _ False, of "cs @ [t]" "pre @ [y, t]" c] Cons.prems(1) show ?thesis
      using False by (simp add: separated_Cons)
  qed
qed simp

text \<open>An \<^verbatim>\<open>INSERT\<close> statement with any non-empty lists of columns and of literals is parsed to exactly its table,
  columns and values.\<close>

theorem parse_insert_roundtrip:
  assumes "kw KW_INSERT i" and "kw KW_INTO n" and "names_table ts ti" and "sym SY_LPAREN p" and "sym SY_RPAREN q"
    and "sym SY_COMMA c" and "kw KW_VALUES v" and "list_all ident cols" and "cols \<noteq> []" and "list_all literal vals"
    and "vals \<noteq> []" and "sym SY_SEMICOLON z"
  shows "\<exists>st. parse junk (new_parser (i # n # ts @ p # separated c cols @ q # v # p # separated c vals @ [q, z])) =
    preturn (AstNode NT_INSERT (VInsert ti cols [vals])) st"
proof -
  obtain x xs where x: "ts = x # xs" using names_table_first [OF assms(3)] by blast
  have pp: "st_detail p \<noteq> DSymbol SY_PERIOD" using assms(4) by (simp add: sym_def)
  let ?tl = "v # p # separated c vals @ [q, z]"
  obtain pre1 x1 where c1: "insert_columns [] (parser_at (i # n # ts) (p # separated c cols @ q # ?tl)) =
      preturn cols (parser_at pre1 (x1 # q # ?tl))"
    using insert_columns_at [OF assms(8,9,6,5), of "[]" "i # n # ts" p ?tl] by auto
  obtain pre2 x2 where c2: "insert_values [] (parser_at (pre1 @ [x1, q, v]) (p # separated c vals @ q # [z])) =
      preturn vals (parser_at pre2 (x2 # q # [z]))"
    using insert_values_at [OF assms(10,11,6,5), of "[]" "pre1 @ [x1, q, v]" p "[z]"] by auto
  have "parse_statement junk (new_parser (i # n # ts @ p # separated c cols @ q # ?tl)) =
      preturn (AstNode NT_INSERT (VInsert ti cols [vals])) (parser_at (pre2 @ [x2]) [q, z])"
    using assms(1,2,4,5,7) parse_table_identifier_at [OF assms(3) pp, unfolded x] c1 [unfolded x] c2
    by (simp add: parse_statement_def new_parser_at parse_insert_def as_node_def x kw_def sym_def)
  then show ?thesis using assms(12) by (auto simp: parse_def is_trailing_sequence_valid_def sym_def nth_append)
qed

theorem parse_insert_roundtrip_witness:
  "\<exists>st. parse False (new_parser [kw_tok KW_INSERT, kw_tok KW_INTO, id_tok ''t'', sym_tok SY_LPAREN, id_tok ''a'', sym_tok SY_COMMA,
       id_tok ''b'', sym_tok SY_RPAREN, kw_tok KW_VALUES, sym_tok SY_LPAREN, int_tok ''1'', sym_tok SY_COMMA, int_tok ''2'',
       sym_tok SY_RPAREN, sym_tok SY_SEMICOLON]) =
     preturn (AstNode NT_INSERT (VInsert \<lparr>ti_table_name = id_tok ''t'', ti_schema_name = None\<rparr> [id_tok ''a'', id_tok ''b'']
       [[int_tok ''1'', int_tok ''2'']])) st"
  using parse_insert_roundtrip [of "kw_tok KW_INSERT" "kw_tok KW_INTO" "[id_tok ''t'']" "\<lparr>ti_table_name = id_tok ''t'', ti_schema_name = None\<rparr>"
    "sym_tok SY_LPAREN" "sym_tok SY_RPAREN" "sym_tok SY_COMMA" "kw_tok KW_VALUES" "[id_tok ''a'', id_tok ''b'']"
    "[int_tok ''1'', int_tok ''2'']" "sym_tok SY_SEMICOLON" False]
  by (simp add: tok_simps names_table_def)

text \<open>C40: the parser returns on every list of tokens that does not end in an opening parenthesis or in \<^verbatim>\<open>not\<close>, with a
  statement or an exception, and never dereferences the null pointer \<^verbatim>\<open>current()\<close> yields behind the last token.\<close>

theorem parse_returns:
  assumes "ends_well ts"
  shows "\<exists>res. parse junk (new_parser ts) = Some res \<and> res \<noteq> Undef"
proof (cases "ts = []")
  case True
  then show ?thesis
    by (simp add: parse_def parse_statement_def new_parser_def match_kw_def current_def praise_def pbind_def)
next
  case False
  then have "inside (new_parser ts)" by (simp add: inside_def new_parser_def)
  moreover have "ends_well (ps_tokens (new_parser ts))" using assms by (simp add: new_parser_def)
  ultimately have "fine (new_parser ts) (parse junk (new_parser ts))"
    unfolding parse_def by (intro fine_intros fine_parse_statement)
  then show ?thesis by (auto simp: fine_def)
qed

theorem parse_returns_witness:
  "\<exists>res. parse False (new_parser [kw_tok KW_DELETE, sym_tok SY_COMMA]) = Some res \<and> res \<noteq> Undef"
  by (rule parse_returns) (simp add: ends_well_def tok_simps)

lemma parse_expr_stuck:
  assumes "parse_expr call st = Some y" and "sym SY_LPAREN p"
  shows "\<not> ((\<exists>pre. st = parser_at pre [p]) \<and> (call = Primary \<or> (\<exists>m. call = Tree m)))"
proof (rule parse_expr.raw_induct [OF _ assms(1),
      of "\<lambda>call st y. \<not> ((\<exists>pre. st = parser_at pre [p]) \<and> (call = Primary \<or> (\<exists>m. call = Tree m)))"], goal_cases)
  case (1 self call st y)
  show ?case
  proof
    assume "(\<exists>pre. st = parser_at pre [p]) \<and> (call = Primary \<or> (\<exists>m. call = Tree m))"
    then obtain pre where st: "st = parser_at pre [p]" and call: "call = Primary \<or> (\<exists>m. call = Tree m)" by blast
    have "match_sym SY_LPAREN st" "snd (advance st) = st"
      using assms(2) by (simp_all add: st sym_def match_sym_def current_def parser_at_def advance_def)
    with 1(2) call obtain c z where "self c st = Some z" "c = Primary \<or> (\<exists>m. c = Tree m)"
      by (auto simp: bind_eq_Some_conv)
    with 1(1) st show False by blast
  qed
qed

text \<open>An opening parenthesis as the last token sends the expression parser into an endless recursion.\<close>

theorem parse_diverges:
  assumes "kw KW_DELETE d" and "kw KW_FROM f" and "ident t" and "kw KW_WHERE w" and "sym SY_LPAREN p"
  shows "parse junk (new_parser [d, f, t, w, p]) = None"
proof -
  have "parse_expr (Tree 0) (parser_at [d, f, t, w] [p]) = None"
    using parse_expr_stuck [of "Tree 0" "parser_at [d, f, t, w] [p]"] assms(5)
    by (cases "parse_expr (Tree 0) (parser_at [d, f, t, w] [p])") auto
  moreover have "names_table [t] \<lparr>ti_table_name = t, ti_schema_name = None\<rparr>" using assms(3) by (simp add: names_table_def)
  from parse_table_identifier_at [OF this, of w "[d, f]" "[p]"] assms(4)
  have "parse_table_identifier (parser_at [d, f] [t, w, p]) =
      preturn \<lparr>ti_table_name = t, ti_schema_name = None\<rparr> (parser_at [d, f, t] [w, p])" by (simp add: kw_def)
  ultimately show ?thesis
    using assms(1,2,4)
    by (simp add: parse_def parse_statement_def new_parser_at as_node_def parse_delete_def where_clause_def kw_def
        parse_binary_expr_def parse_binary_tree_def)
qed

theorem parse_diverges_witness:
  "parse False (new_parser [kw_tok KW_DELETE, kw_tok KW_FROM, id_tok ''t'', kw_tok KW_WHERE, sym_tok SY_LPAREN]) = None"
  by (rule parse_diverges) (simp_all add: tok_simps)

end
