(* ===== verification/Engine.thy ===== *)
theory Engine
  imports Query_Types Table_Update Sql_Lexer Sql_Parser
begin

text \<open>
  The engine, \<^verbatim>\<open>engine/engine.cpp\<close>, which runs a query from its text to its result, and the database instance it has while no
  database is attached, \<^verbatim>\<open>storage/detached_db_instance.cpp\<close>.
\<close>

section \<open>The detached instance\<close>

record detached_state =
  dd_config :: config
  dd_files :: fs_node

text \<open>\<^verbatim>\<open>DetachedFileIOManager::exists_db\<close>\<close>

definition detached_exists_db :: "fs_node \<Rightarrow> string \<Rightarrow> bool" where
  "detached_exists_db files name \<longleftrightarrow> fs_exists files (path_db name) \<and> is_directory files (path_db name)"

definition unsupported :: "string \<Rightarrow> ('s, 'a) prog" where
  "unsupported name = xraise (LogicError (''DetachedDbInstance::'' @ name @ '': this method is not supported''))"

definition detached_db_instance :: "(detached_state, uuid) db_instance" where
  "detached_db_instance = \<lparr>
     db_seq_scan_begin = (\<lambda>_ _. unsupported ''seq_scan_begin''),
     db_seq_scan_next = (\<lambda>_ _. unsupported ''seq_scan_next''),
     db_index_scan = (\<lambda>_ _ _ _. unsupported ''index_scan''),
     db_make_txn = unsupported ''make_transaction'',
     db_txn_begin = (\<lambda>_. xundef),
     db_txn_commit = (\<lambda>_. xundef),
     db_insert_row = (\<lambda>_ _ _ _ _. unsupported ''insert_row''),
     db_update_row = (\<lambda>_ _ _ _ _. unsupported ''update_row''),
     db_delete_rows = (\<lambda>_ _ _ _. unsupported ''delete_row''),
     db_get_table = (\<lambda>_ _. unsupported ''get_table''),
     db_get_table_by = (\<lambda>_. unsupported ''get_table''),
     db_exists_table = (\<lambda>_. unsupported ''exists_table''),
     db_get_schema = (\<lambda>_. unsupported ''get_schema''),
     db_get_config = xget dd_config,
     db_exists_db = (\<lambda>name. xget (\<lambda>s. detached_exists_db (dd_files s) name)),
     db_create_table = (\<lambda>_ _ _ _. unsupported ''create_table''),
     db_create_schema = (\<lambda>_ _. unsupported ''create_schema''),
     db_exists_schema = (\<lambda>_. unsupported ''exists_schema''),
     db_create_index = (\<lambda>_ _ _ _ _ _. unsupported ''create_index''),
     db_exists_index = (\<lambda>_ _. unsupported ''exists_index''),
     db_drop_index = (\<lambda>_ _ _ _. unsupported ''get_index'')\<rparr>"

section \<open>The instance of an engine\<close>

datatype database = StdDb db_state | DetachedDb detached_state

text \<open>A virtual call runs the member of the instance that is there.\<close>

fun virtual :: "'a db_prog \<Rightarrow> (detached_state, 'a) prog \<Rightarrow> (database, 'a) prog" where
  "virtual f g (StdDb s) = map_option (\<lambda>(r, s). (r, StdDb s)) (f s)"
| "virtual f g (DetachedDb s) = map_option (\<lambda>(r, s). (r, DetachedDb s)) (g s)"

definition any_db :: "(database, uuid) db_instance" where
  "any_db = (let a = std_db_instance; d = detached_db_instance in \<lparr>
     db_seq_scan_begin = (\<lambda>t s. virtual (db_seq_scan_begin a t s) (db_seq_scan_begin d t s)),
     db_seq_scan_next = (\<lambda>c r. virtual (db_seq_scan_next a c r) (db_seq_scan_next d c r)),
     db_index_scan = (\<lambda>t s i c. virtual (db_index_scan a t s i c) (db_index_scan d t s i c)),
     db_make_txn = virtual (db_make_txn a) (db_make_txn d),
     db_txn_begin = (\<lambda>x. virtual (db_txn_begin a x) (db_txn_begin d x)),
     db_txn_commit = (\<lambda>x. virtual (db_txn_commit a x) (db_txn_commit d x)),
     db_insert_row = (\<lambda>t s c r x. virtual (db_insert_row a t s c r x) (db_insert_row d t s c r x)),
     db_update_row = (\<lambda>t s u r x. virtual (db_update_row a t s u r x) (db_update_row d t s u r x)),
     db_delete_rows = (\<lambda>t s r x. virtual (db_delete_rows a t s r x) (db_delete_rows d t s r x)),
     db_get_table = (\<lambda>t s. virtual (db_get_table a t s) (db_get_table d t s)),
     db_get_table_by = (\<lambda>t. virtual (db_get_table_by a t) (db_get_table_by d t)),
     db_exists_table = (\<lambda>t. virtual (db_exists_table a t) (db_exists_table d t)),
     db_get_schema = (\<lambda>n. virtual (db_get_schema a n) (db_get_schema d n)),
     db_get_config = virtual (db_get_config a) (db_get_config d),
     db_exists_db = (\<lambda>n. virtual (db_exists_db a n) (db_exists_db d n)),
     db_create_table = (\<lambda>t s c x. virtual (db_create_table a t s c x) (db_create_table d t s c x)),
     db_create_schema = (\<lambda>n x. virtual (db_create_schema a n x) (db_create_schema d n x)),
     db_exists_schema = (\<lambda>n. virtual (db_exists_schema a n) (db_exists_schema d n)),
     db_create_index = (\<lambda>i t c s u x. virtual (db_create_index a i t c s u x) (db_create_index d i t c s u x)),
     db_exists_index = (\<lambda>i t. virtual (db_exists_index a i t) (db_exists_index d i t)),
     db_drop_index = (\<lambda>i t s x. virtual (db_drop_index a i t s x) (db_drop_index d i t s x))\<rparr>)"

section \<open>Running a query\<close>

text \<open>The loop of \<^verbatim>\<open>execute_query\<close>, which hands the same row variable to every \<^verbatim>\<open>next\<close>.\<close>

partial_function (option) collect ::
    "('s, 't) db_instance \<times> (string \<Rightarrow> ('s, unit) prog) \<times> executor \<times> data_row \<times> data_row list \<times> 's \<Rightarrow>
     ((data_row list \<times> executor) outcome \<times> 's) option" where
  "collect conf =
     (case conf of (db, make_db, ex, row, rows, s) \<Rightarrow>
        xcont (ex_run (db, make_db, s, CNext ex row)) (\<lambda>r s.
          if er_more r then collect (db, make_db, er_node r, er_out r, rows @ [er_out r], s)
          else xreturn (rows, er_node r) s))"

text \<open>\<^verbatim>\<open>open\<close>, the loop and \<^verbatim>\<open>close\<close>, which does nothing in any node.\<close>

definition run_executor :: "('s, 't) db_instance \<Rightarrow> (string \<Rightarrow> ('s, unit) prog) \<Rightarrow> executor \<Rightarrow> ('s, data_row list \<times> executor) prog" where
  "run_executor db make_db ex = xbind (ex_open db ex) (\<lambda>ex s. collect (db, make_db, ex, empty_row, [], s))"

definition run_plan :: "('s, 't) db_instance \<Rightarrow> (string \<Rightarrow> ('s, unit) prog) \<Rightarrow> query_plan \<Rightarrow> ('s, execution_result) prog" where
  "run_plan db make_db p =
     (if qp_needs_stream p then xreturn (StreamedResult (from_plan (qp_root p)))
      else xbind (run_executor db make_db (from_plan (qp_root p))) (\<lambda>(rows, ex).
           xbind (ex_output_schema db ex) (\<lambda>schema.
           xreturn (MaterializedResult \<lparr>dt_table_name = [], dt_output_schema = schema, dt_rows = rows\<rparr> 0))))"

definition run_ast ::
    "('s, 't) db_instance \<Rightarrow> 'd planner \<Rightarrow> (string \<Rightarrow> ('s, unit) prog) \<Rightarrow> ast_node \<Rightarrow> ('s, execution_result) prog" where
  "run_ast db pl make_db ast =
     xbind (analyze db ast) (\<lambda>(analysis, ast).
       if \<not> ar_is_valid analysis then (case ar_err analysis of Some e \<Rightarrow> xraise e | None \<Rightarrow> xundef)
       else xbind (plan db pl ast) (run_plan db make_db))"

section \<open>The engine\<close>

record engine =
  en_db :: "database option"
  en_planner :: "config option"
  en_analyzer :: "config option"

definition config_detached :: "string \<Rightarrow> config" where
  "config_detached exe = \<lparr>cfg_db_name = None, cfg_default_schema = ''common'', cfg_db_path = exe @ ''/data'',
     cfg_io_type = 2, cfg_planner_type = 1, cfg_serializer_type = 1, cfg_last_checkpoint_lsn = 0\<rparr>"

definition on_db :: "(database, 'a) prog \<Rightarrow> (engine, 'a) prog" where
  "on_db f en =
     (case en_db en of
        None \<Rightarrow> Some (Undef, en)
      | Some d \<Rightarrow> map_option (\<lambda>(r, d). (r, en\<lparr>en_db := Some d\<rparr>)) (f d))"

definition make_planner :: "config \<Rightarrow> (engine, unit) prog" where
  "make_planner config =
     (if cfg_planner_type config = 1 then xset (\<lambda>en. en\<lparr>en_planner := Some config\<rparr>)
      else xraise (RuntimeError ''PlannerFactory::make_planner: Invalid planner type ''))"

text \<open>\<open>detached\<close> is a new \<^verbatim>\<open>DetachedDbInstance\<close>, for a null pointer.\<close>

definition set_db_instance :: "detached_state \<Rightarrow> database option \<Rightarrow> (engine, unit) prog" where
  "set_db_instance detached db =
     xbind (xset (\<lambda>en. en\<lparr>en_db := Some (case db of None \<Rightarrow> DetachedDb detached | Some d \<Rightarrow> d)\<rparr>)) (\<lambda>_.
     xbind (on_db (db_get_config any_db)) (\<lambda>config.
     xbind (make_planner config) (\<lambda>_.
     xbind (xset (\<lambda>en. en\<lparr>en_analyzer := Some config\<rparr>)) (\<lambda>_.
     if cfg_db_name config = None then xreturn ()
     else xbind (on_db (db_exists_schema any_db (cfg_default_schema config))) (\<lambda>b.
       if b then xreturn ()
       else on_db (in_txn any_db (db_create_schema any_db (cfg_default_schema config))))))))"

definition load_config :: "fs_node \<Rightarrow> string \<Rightarrow> config outcome" where
  "load_config files name =
     (let cfg_path = path_db_meta name
      in if \<not> exists_file files cfg_path then Raised (DbDoesntExists name)
         else obind (read_file files cfg_path)
           (decode_or (RuntimeError ''StdDbInstance::load_config: failed to load config at path '') deserialize_cfg))"

text \<open>\<open>make_std cfg\<close> is the instance that the constructor \<^verbatim>\<open>StdDbInstance(cfg)\<close> makes on the files and the log of the database.\<close>

definition engine_create_db :: "detached_state \<Rightarrow> (config \<Rightarrow> db_state outcome option) \<Rightarrow> config \<Rightarrow> (engine, unit) prog" where
  "engine_create_db detached make_std config =
     xbind (\<lambda>en. map_option (\<lambda>r. (r, en)) (make_std config)) (\<lambda>db. set_db_instance detached (Some (StdDb db)))"

definition attach_db :: "detached_state \<Rightarrow> (config \<Rightarrow> db_state outcome option) \<Rightarrow> fs_node \<Rightarrow> string \<Rightarrow> (engine, unit) prog" where
  "attach_db detached make_std files db_name =
     xbind (xlift (load_config files db_name)) (engine_create_db detached make_std)"

definition detach_db :: "engine \<Rightarrow> engine" where
  "detach_db en = en\<lparr>en_planner := None, en_db := None, en_analyzer := None\<rparr>"

definition new_engine :: "detached_state \<Rightarrow> (engine, unit) prog" where
  "new_engine detached = set_db_instance detached (Some (DetachedDb detached))"

text \<open>\<open>fp\<close> is the arithmetic of the planner, \<open>junk\<close> what the parser reads of a variable it has not set.\<close>

definition execute_query ::
    "'d float_ops \<Rightarrow> (string \<Rightarrow> (database, unit) prog) \<Rightarrow> bool \<Rightarrow> string \<Rightarrow> (engine, execution_result) prog" where
  "execute_query fp make_db junk query =
     xbind (\<lambda>en. map_option (\<lambda>r. (r, en)) (lex query)) (\<lambda>tokens.
     xbind (\<lambda>en. map_option (\<lambda>r. (r, en)) (parse junk \<lparr>ps_tokens = tokens, ps_current = 0\<rparr>)) (\<lambda>(ast, _).
     xbind (xget en_analyzer) (\<lambda>analyzer. xbind (deref analyzer) (\<lambda>_.
     xbind (xget en_planner) (\<lambda>planner. xbind (deref planner) (\<lambda>config.
     on_db (run_ast any_db \<lparr>pl_config = config, pl_fp = fp\<rparr> make_db ast)))))))"

section \<open>Reading statements\<close>

definition database_rows :: "database \<Rightarrow> scan_cursor \<Rightarrow> data_row list \<Rightarrow> bool" where
  "database_rows d c rows \<longleftrightarrow> (case d of StdDb s \<Rightarrow> cursor_rows s c rows | DetachedDb _ \<Rightarrow> False)"

lemma any_db_simps:
  "db_seq_scan_begin any_db t n (StdDb s) = map_option (\<lambda>(r, s). (r, StdDb s)) (sdi_seq_scan_begin t n s)"
  "db_seq_scan_next any_db c out (StdDb s) = map_option (\<lambda>(r, s). (r, StdDb s)) (db_seq_scan_next std_db_instance c out s)"
  by (simp_all add: any_db_def std_db_instance_def)

interpretation reads: row_source any_db database_rows
proof
  fix d c out
  assume "database_rows d c []"
  then obtain s where s: "d = StdDb s" "cursor_rows s c []" by (auto simp: database_rows_def split: database.splits)
  then show "\<exists>c' d'. db_seq_scan_next any_db c out d = Some (Done (False, c', out), d') \<and> database_rows d' = database_rows d"
    using scan.next_end [of s c out] by (auto simp: any_db_simps database_rows_def fun_eq_iff)
next
  fix d c x xs out
  assume "database_rows d c (x # xs)"
  then obtain s where s: "d = StdDb s" "cursor_rows s c (x # xs)" by (auto simp: database_rows_def split: database.splits)
  then show "\<exists>c' d'. db_seq_scan_next any_db c out d = Some (Done (True, c', x), d') \<and> database_rows d' = database_rows d \<and>
      database_rows d c' xs"
    using scan.next_row [of s c x xs out] by (auto simp: any_db_simps database_rows_def fun_eq_iff)
qed

text \<open>What the loop collects from an executor that delivers \<open>fs\<close>: every row starts from the one before it.\<close>

fun accumulate :: "data_row \<Rightarrow> (data_row \<Rightarrow> data_row) list \<Rightarrow> data_row list" where
  "accumulate row [] = []"
| "accumulate row (f # fs) = f row # accumulate (f row) fs"

lemma accumulate_overwrite [simp]: "accumulate row (overwrite rows) = rows"
  by (induction rows arbitrary: row) auto

context row_source
begin

lemma collect_yields:
  "yields (delivers s) ex fs \<Longrightarrow>
   \<exists>ex' s'. collect (db, make_db, ex, row, rows, s) = Some (Done (rows @ accumulate row fs, ex'), s') \<and> delivers s' = delivers s"
proof (induction fs arbitrary: ex row rows s)
  case Nil
  obtain ex' s' where "ex_run (db, make_db, s, CNext ex row) = ex_return False ex' row s'" "delivers s' = delivers s"
    using steps_endE [OF next_steps [OF Nil, where make_db = make_db and out = row]] by metis
  then show ?case by (subst collect.simps) (simp add: xreturn_def)
next
  case (Cons f fs)
  obtain ex' s' where r: "ex_run (db, make_db, s, CNext ex row) = ex_return True ex' (f row) s'" "delivers s' = delivers s"
    "yields (delivers s) ex' fs"
    using steps_rowE [OF next_steps [OF Cons.prems, where make_db = make_db and out = row]] by metis
  have "collect (db, make_db, ex, row, rows, s) = collect (db, make_db, ex', f row, rows @ [f row], s')"
    by (subst collect.simps) (simp add: r(1))
  with Cons.IH [of s' ex' "f row" "rows @ [f row]"] r show ?case by simp
qed

end

text \<open>
  The meaning of a reading plan on the rows of its table: a filter keeps the rows its condition holds of, a limit the first
  ones. It is given for conditions that have a value on every row they are evaluated on.
\<close>

fun plan_rows :: "data_row list \<Rightarrow> plan_node \<Rightarrow> data_row list option" where
  "plan_rows rows (SeqScanPlanNode table schema) = Some rows"
| "plan_rows rows (FilterPlanNode mt condition child) =
     (case plan_rows rows child of
        None \<Rightarrow> None
      | Some rs \<Rightarrow> if evaluable mt condition rs then Some (filter (matches mt condition) rs) else None)"
| "plan_rows rows (LimitPlanNode limit child) = map_option (take (unat limit)) (plan_rows rows child)"
| "plan_rows rows _ = None"

fun plan_table :: "plan_node \<Rightarrow> string \<times> string" where
  "plan_table (SeqScanPlanNode table schema) = (table, schema)"
| "plan_table (FilterPlanNode mt condition child) = plan_table child"
| "plan_table (ProjectPlanNode mt columns child) = plan_table child"
| "plan_table (LimitPlanNode limit child) = plan_table child"
| "plan_table _ = ([], [])"

lemma open_plan:
  assumes "plan_rows rows p = Some rs" and "db_seq_scan_begin db (fst (plan_table p)) (snd (plan_table p)) s = Some (Done c, s')"
    and "src c rows"
  shows "\<exists>ex. ex_open db (from_plan p) s = Some (Done ex, s') \<and> yields src ex (overwrite rs)"
  using assms
proof (induction rows p arbitrary: rs rule: plan_rows.induct)
  case (2 rows mt condition child)
  then obtain qs where qs: "plan_rows rows child = Some qs" "evaluable mt condition qs" "rs = filter (matches mt condition) qs"
    by (auto split: option.splits if_splits)
  with 2 obtain ex where "ex_open db (from_plan child) s = Some (Done ex, s')" "yields src ex (overwrite qs)" by auto
  with qs(2,3) show ?case by (auto simp: xbind_def xreturn_def comp_def intro!: exI [of _ "overwrite qs"])
next
  case (3 rows limit child)
  then obtain qs where qs: "plan_rows rows child = Some qs" "rs = take (unat limit) qs" by auto
  with 3 obtain ex where "ex_open db (from_plan child) s = Some (Done ex, s')" "yields src ex (overwrite qs)" by auto
  with qs(2) show ?case by (auto simp: xbind_def xreturn_def take_map intro!: exI [of _ "overwrite qs"])
qed (auto simp: xbind_def xreturn_def)

lemma run_executor_yields:
  assumes "ex_open any_db ex (StdDb s) = Some (Done ex', StdDb s1)" and "yields (cursor_rows s1) ex' fs" and "db_ok s1"
  shows "\<exists>ex'' s'. run_executor any_db make_db ex (StdDb s) = Some (Done (accumulate empty_row fs, ex''), StdDb s') \<and>
    cursor_rows s' = cursor_rows s1"
proof -
  have src: "database_rows (StdDb s1) = cursor_rows s1" by (intro ext) (simp add: database_rows_def)
  obtain ex'' d where d: "collect (any_db, make_db, ex', empty_row, [], StdDb s1) = Some (Done (accumulate empty_row fs, ex''), d)"
    "database_rows d = cursor_rows s1"
    using reads.collect_yields [of "StdDb s1" ex' fs make_db empty_row "[]"] assms(2) unfolding src by auto
  have "database_rows d no_cursor []" using assms(3) by (simp add: d(2) cursor_rows_def no_cursor_def)
  then obtain s' where s': "d = StdDb s'" by (auto simp: database_rows_def split: database.splits)
  have "cursor_rows s' = cursor_rows s1" using d(2) by (auto simp: s' database_rows_def fun_eq_iff)
  with assms(1) d(1) s' show ?thesis by (auto simp: run_executor_def xbind_def)
qed


definition age_is_42 :: binary_expr where
  "age_is_42 = BinaryExpr AO_EQ (Some (AstNode NT_IDENTIFIER (VToken (id_token ''age''))))
     (Some (AstNode NT_LITERAL (VToken (int_literal ''42''))))"

definition select_age_is_42 :: plan_node where
  "select_age_is_42 = LimitPlanNode 1 (FilterPlanNode sample_people age_is_42 (SeqScanPlanNode ''t'' ''public''))"

lemma int_token_42: "int_token 42 = \<lparr>tok_bytes = [42, 0, 0, 0], tok_type = DT_INTEGER\<rparr>"
  by code_simp

lemma sample_age: "dr_tokens sample_row ! Suc (Suc 0) = int_token 42"
  by (simp add: sample_row_def int_token_42)

lemma sample_matches: "evaluate sample_people sample_people sample_row age_is_42 = Done True"
proof -
  have "find_idx (\<lambda>c. mc_name c = st_value (id_token ''age'')) (mt_columns sample_people) = Some (Suc (Suc 0))"
    by (simp add: sample_people_def id_token_def)
  moreover have "length (dr_tokens sample_row) = length (mt_columns sample_people)" by (simp add: sample_row_def sample_people_def)
  moreover have "is_identifier (id_token ''age'')" by (simp add: id_token_def is_identifier_def)
  moreover have "ev_compare (int_token 42) (int_token 42) AO_EQ = Done True"
    by (simp add: ev_eq_def int_token_def tok_defs)
  ultimately show ?thesis
    unfolding age_is_42_def using condition_column_literal [OF _ _ _ int_literal_42] by (simp add: sample_age)
qed

lemma sample_plan_rows: "plan_rows [sample_row] select_age_is_42 = Some [sample_row]"
  by (simp add: select_age_is_42_def evaluable_def matches_def sample_matches) blast

lemma select_age_is_42_table [simp]: "plan_table select_age_is_42 = (''t'', ''public'')"
  by (simp add: select_age_is_42_def)


text \<open>The loop hands the same row variable to every call, and a projection only appends to it.\<close>

lemma accumulate_append:
  "accumulate row (map append_tokens tss) =
     map (\<lambda>n. row\<lparr>dr_tokens := dr_tokens row @ concat (take (Suc n) tss)\<rparr>) [0..<length tss]"
proof (induction tss arbitrary: row)
  case (Cons ts tss)
  have "[0..<length (ts # tss)] = 0 # map Suc [0..<length tss]" by (simp add: map_Suc_upt upt_conv_Cons del: upt_Suc)
  then show ?case using Cons [of "append_tokens ts row"] by (simp add: append_tokens_def [of ts row] comp_def del: upt_Suc)
qed simp



fun reads_table :: "plan_node \<Rightarrow> bool" where
  "reads_table (SeqScanPlanNode table schema) = True"
| "reads_table (FilterPlanNode mt condition child) = reads_table child"
| "reads_table (ProjectPlanNode mt columns child) = reads_table child"
| "reads_table (LimitPlanNode limit child) = reads_table child"
| "reads_table _ = False"

lemma yields_unopened: "reads_table p \<Longrightarrow> db_ok s \<Longrightarrow> yields (cursor_rows s) (from_plan p) []"
  by (induction p rule: reads_table.induct) (auto simp: cursor_rows_def no_cursor_def evaluable_def)

text \<open>C16: a SELECT that the planner decides to stream delivers no row at all, whatever the table holds: the executor of a streamed
  result is never opened, so that the first request for a row finds a cursor that was not initialized.\<close>

theorem streamed_query_delivers_nothing:
  assumes "qp_needs_stream q" and "reads_table (qp_root q)" and "db_ok s"
  shows "\<exists>res res' s'. run_plan any_db make_db q (StdDb s) = Some (Done res, StdDb s) \<and>
    result_next any_db make_db res out (StdDb s) = Some (Done (False, res', out), StdDb s') \<and> cursor_rows s' = cursor_rows s"
proof -
  let ?ex = "from_plan (qp_root q)"
  have src: "database_rows (StdDb s) = cursor_rows s" by (intro ext) (simp add: database_rows_def)
  have "reads.steps make_db ?ex [] out (StdDb s)"
    using reads.next_steps [of "StdDb s"] yields_unopened [OF assms(2,3)] unfolding src by blast
  then obtain ex' d where d: "ex_run (any_db, make_db, StdDb s, CNext ?ex out) = ex_return False ex' out d" "database_rows d = cursor_rows s"
    using reads.steps_endE src by metis
  have "database_rows d no_cursor []" using assms(3) by (simp add: d(2) cursor_rows_def no_cursor_def)
  then obtain s' where s': "d = StdDb s'" by (auto simp: database_rows_def split: database.splits)
  have "cursor_rows s' = cursor_rows s" using d(2) by (auto simp: s' database_rows_def fun_eq_iff)
  moreover have "result_next any_db make_db (StreamedResult ?ex) out (StdDb s) = Some (Done (False, StreamedResult ex', out), StdDb s')"
    using d(1) s' by (simp add: ex_next_def xbind_fun xreturn_def)
  ultimately show ?thesis using assms(1) by (auto simp: run_plan_def xreturn_def)
qed

theorem streamed_query_delivers_nothing_witness:
  "\<exists>res res' s'. run_plan any_db (\<lambda>_. xreturn ()) \<lparr>qp_needs_stream = True, qp_db_specific = True, qp_type = QP_SELECT,
       qp_root = select_age_is_42\<rparr> (StdDb sample_db) = Some (Done res, StdDb sample_db) \<and>
    result_next any_db (\<lambda>_. xreturn ()) res empty_row (StdDb sample_db) = Some (Done (False, res', empty_row), StdDb s')"
  using streamed_query_delivers_nothing [of "\<lparr>qp_needs_stream = True, qp_db_specific = True, qp_type = QP_SELECT,
       qp_root = select_age_is_42\<rparr>" sample_db "\<lambda>_. xreturn ()" empty_row] sample_db_ok
  by (auto simp: select_age_is_42_def)

end
