(* ===== verification/Net_Server.thy ===== *)
theory Net_Server
  imports Net_Protocol
begin

text \<open>
  The network server \<^verbatim>\<open>network/server.cpp\<close> and the framing of messages \<^verbatim>\<open>network/socket_handle.cpp\<close>.

  A socket is given by the bytes its peer sends before it disconnects and by the number of bytes the peer accepts;
  a call of \<^verbatim>\<open>send\<close> that exceeds them fails. The engine of a session is used through the interface \<open>engine_ops\<close>, whose
  operations work on a world \<open>'w\<close> of heap and files; \<open>None\<close> stands for an operation that does not return. The two
  threads that serve a query are interleaved by a schedule, message by message and write by write.
\<close>

section \<open>Sockets\<close>

record socket =
  sk_input :: "byte list"
  sk_output :: "byte list"
  sk_room :: nat
  sk_valid :: bool

definition MAX_INCOMING_LEN :: u32 where
  "MAX_INCOMING_LEN = 10 * 1024 * 1024"

definition htonl :: "u32 \<Rightarrow> u32" where
  "htonl v = le_word (rev (le_bytes 4 v))"

definition ntohl :: "u32 \<Rightarrow> u32" where
  "ntohl v = le_word (rev (le_bytes 4 v))"

text \<open>\<open>None\<close> stands for a result other than \<^verbatim>\<open>len\<close>.\<close>

definition receive_full :: "nat \<Rightarrow> socket \<Rightarrow> byte list option \<times> socket" where
  "receive_full len sk =
     (if len = 0 then (Some [], sk)
      else if \<not> sk_valid sk then (None, sk)
      else if length (sk_input sk) < len then (None, sk\<lparr>sk_input := []\<rparr>)
      else (Some (take len (sk_input sk)), sk\<lparr>sk_input := drop len (sk_input sk)\<rparr>))"

definition send_full :: "byte list \<Rightarrow> socket \<Rightarrow> bool \<times> socket" where
  "send_full buf sk =
     (if buf = [] then (True, sk)
      else if \<not> sk_valid sk then (False, sk)
      else (length buf \<le> sk_room sk,
            sk\<lparr>sk_output := sk_output sk @ take (sk_room sk) buf, sk_room := sk_room sk - length buf\<rparr>))"

definition receive_message :: "socket \<Rightarrow> byte list option \<times> socket" where
  "receive_message sk =
     (case receive_full 4 sk of
        (None, sk) \<Rightarrow> (None, sk)
      | (Some bs, sk) \<Rightarrow>
          let len = ntohl (le_word bs)
          in if len > MAX_INCOMING_LEN then (None, sk) else receive_full (unat len) sk)"

text \<open>The writes of \<^verbatim>\<open>send_message\<close>, each with the message of the exception thrown when it fails.\<close>

definition message_writes :: "byte list \<Rightarrow> (byte list \<times> string) list" where
  "message_writes content =
     (let net_len = htonl (word_of_nat (length content))
      in (le_bytes 4 net_len, ''Failed to write length to socket'') #
         (if content = [] then [] else [(content, ''Failed to write message body'')]))"

primrec send_writes :: "(byte list \<times> string) list \<Rightarrow> socket \<Rightarrow> exn option \<times> socket" where
  "send_writes [] sk = (None, sk)"
| "send_writes (w # ws) sk =
     (case send_full (fst w) sk of
        (True, sk) \<Rightarrow> send_writes ws sk
      | (False, sk) \<Rightarrow> (Some (RuntimeError (snd w)), sk))"

definition send_message :: "byte list \<Rightarrow> socket \<Rightarrow> exn option \<times> socket" where
  "send_message content sk = send_writes (message_writes content) sk"

definition close_socket :: "socket \<Rightarrow> socket" where
  "close_socket sk = sk\<lparr>sk_valid := False\<rparr>"

section \<open>The engine of a session\<close>

record ('e, 'r, 'w) engine_ops =
  eo_new :: "'w \<Rightarrow> 'w \<times> (exn + 'e)"
  eo_execute_query :: "'e \<Rightarrow> string \<Rightarrow> 'w \<Rightarrow> ('w \<times> (exn + 'r)) option"
  eo_create_db :: "'e \<Rightarrow> config \<Rightarrow> 'w \<Rightarrow> ('w \<times> exn option) option"
  eo_attach_db :: "'e \<Rightarrow> string \<Rightarrow> 'w \<Rightarrow> ('w \<times> exn option) option"
  eo_output_schema :: "'r \<Rightarrow> 'w \<Rightarrow> output_column list"
  eo_next :: "'r \<Rightarrow> data_row \<Rightarrow> 'w \<Rightarrow> ('w \<times> (exn + bool \<times> data_row)) option"
  eo_what :: "exn \<Rightarrow> string"
  eo_executable_path :: string

definition config_std :: "string \<Rightarrow> string \<Rightarrow> config" where
  "config_std executable_path db_name =
     \<lparr>cfg_db_name = Some db_name, cfg_default_schema = ''common'', cfg_db_path = executable_path @ ''/data'',
      cfg_io_type = 1, cfg_planner_type = 1, cfg_serializer_type = 1, cfg_last_checkpoint_lsn = 0\<rparr>"

section \<open>Server state\<close>

record ('e, 'w) server =
  sv_sessions :: "uuid \<Rightarrow> 'e option"
  sv_running :: bool
  sv_world :: 'w

text \<open>A connection: its socket and the variable \<^verbatim>\<open>stop\<close> of \<^verbatim>\<open>handle_client\<close>.\<close>

record conn =
  cn_socket :: socket
  cn_stop :: bool

text \<open>A handler returns, throws, or ends the process: an exception that leaves the function of a thread calls
  \<^verbatim>\<open>std::terminate\<close>.\<close>

datatype 's run = Returned 's | Threw exn 's | Terminated

definition get_session :: "('e, 'w) server \<Rightarrow> uuid \<Rightarrow> 'e option" where
  "get_session sv session_id = sv_sessions sv session_id"

definition send :: "net_message \<Rightarrow> ('e, 'w) server \<times> conn \<Rightarrow> (('e, 'w) server \<times> conn) run" where
  "send msg s =
     (case send_message (encode_message msg) (cn_socket (snd s)) of
        (None, sk) \<Rightarrow> Returned (fst s, (snd s)\<lparr>cn_socket := sk\<rparr>)
      | (Some e, sk) \<Rightarrow> Threw e (fst s, (snd s)\<lparr>cn_socket := sk\<rparr>))"

definition close_and_stop :: "conn \<Rightarrow> conn" where
  "close_and_stop cn = cn\<lparr>cn_socket := close_socket (cn_socket cn), cn_stop := True\<rparr>"

definition send_pong_and_stop ::
    "uuid \<Rightarrow> net_error_code \<Rightarrow> request_id \<Rightarrow> string \<Rightarrow> ('e, 'w) server \<times> conn \<Rightarrow> (('e, 'w) server \<times> conn) run" where
  "send_pong_and_stop session_id err request_id error s =
     (let payload = (if error \<noteq> [] \<and> err \<noteq> NE_SUCCESS then bytes_of_string error else [])
      in case send (PongNetMessage session_id err request_id payload) s of
           Returned (sv, cn) \<Rightarrow> Returned (sv, close_and_stop cn)
         | r \<Rightarrow> r)"

definition send_success :: "uuid \<Rightarrow> request_id \<Rightarrow> ('e, 'w) server \<times> conn \<Rightarrow> (('e, 'w) server \<times> conn) run" where
  "send_success session_id request_id s = send (PongNetMessage session_id NE_SUCCESS request_id []) s"

section \<open>Streaming a result\<close>

definition fresh_row :: data_row where
  "fresh_row = \<lparr>dr_id = 0, dr_flags = 0, dr_tokens = []\<rparr>"

text \<open>The loop of \<^verbatim>\<open>next_chunk\<close>; \<open>n\<close> is the number of rows the chunk still takes, and \<open>row\<close> the variable handed to
  \<^verbatim>\<open>next\<close>, which keeps its contents between calls.\<close>

primrec chunk_rows :: "('e, 'r, 'w) engine_ops \<Rightarrow> 'r \<Rightarrow> nat \<Rightarrow> data_row \<Rightarrow> 'w \<Rightarrow> ('w \<times> (exn + data_row list)) option" where
  "chunk_rows ops result 0 row w = Some (w, Inr [])"
| "chunk_rows ops result (Suc n) row w =
     (case eo_next ops result row w of
        None \<Rightarrow> None
      | Some (w, Inl e) \<Rightarrow> Some (w, Inl e)
      | Some (w, Inr (False, _)) \<Rightarrow> Some (w, Inr [])
      | Some (w, Inr (True, row)) \<Rightarrow>
          (case chunk_rows ops result n row w of
             None \<Rightarrow> None
           | Some (w, Inl e) \<Rightarrow> Some (w, Inl e)
           | Some (w, Inr rows) \<Rightarrow> Some (w, Inr (row # rows))))"

definition batch_size :: nat where
  "batch_size = 1024"

definition next_chunk :: "('e, 'r, 'w) engine_ops \<Rightarrow> 'r \<Rightarrow> 'w \<Rightarrow> ('w \<times> (exn + data_row list)) option" where
  "next_chunk ops result w = chunk_rows ops result batch_size fresh_row w"

text \<open>
  The two threads of \<^verbatim>\<open>handle_stream\<close>. A thread writes (the writes it has left, and where it goes then) or is at one of
  the points at which it looks at what it shares with the other: the socket and the flag \<^verbatim>\<open>cancelled\<close>. The mutex
  \<^verbatim>\<open>send_mutex\<close> is only taken by the streaming thread.
\<close>

datatype stream_pc = SWrite "(byte list \<times> string) list" stream_pc | SSchema | SLoop | SFinished

datatype cancel_pc = CReceive | CWrite "(byte list \<times> string) list" | CFinished

record 'w stream =
  ss_conn :: conn
  ss_world :: 'w
  ss_cancelled :: bool
  ss_schema :: "output_column list"
  ss_spc :: stream_pc
  ss_cpc :: cancel_pc

definition pong_writes :: "uuid \<Rightarrow> net_error_code \<Rightarrow> request_id \<Rightarrow> byte list \<Rightarrow> (byte list \<times> string) list" where
  "pong_writes session_id err request_id payload = message_writes (encode_message (PongNetMessage session_id err request_id payload))"

definition chunk_writes :: "uuid \<Rightarrow> request_id \<Rightarrow> output_column list \<Rightarrow> data_row list \<Rightarrow> (byte list \<times> string) list" where
  "chunk_writes session_id request_id schema rows =
     pong_writes session_id NE_STREAM_CHUNK request_id
       (serialize_result \<lparr>dt_table_name = [], dt_output_schema = schema, dt_rows = rows\<rparr>)"

definition ss_write :: "byte list \<times> string \<Rightarrow> 'w stream \<Rightarrow> 'w stream option" where
  "ss_write w st =
     (case send_full (fst w) (cn_socket (ss_conn st)) of
        (True, sk) \<Rightarrow> Some (st\<lparr>ss_conn := (ss_conn st)\<lparr>cn_socket := sk\<rparr>\<rparr>)
      | (False, _) \<Rightarrow> None)"

text \<open>\<^verbatim>\<open>stream_handler\<close>\<close>

definition stream_step ::
    "('e, 'r, 'w) engine_ops \<Rightarrow> uuid \<Rightarrow> request_id \<Rightarrow> 'r \<Rightarrow> 'w stream \<Rightarrow> ('w stream) run option" where
  "stream_step ops session_id request_id result st =
     (case ss_spc st of
        SWrite [] pc \<Rightarrow> Some (Returned (st\<lparr>ss_spc := pc\<rparr>))
      | SWrite (w # ws) pc \<Rightarrow>
          (case ss_write w st of
             Some st \<Rightarrow> Some (Returned (st\<lparr>ss_spc := SWrite ws pc\<rparr>))
           | None \<Rightarrow> Some Terminated)
      | SSchema \<Rightarrow> Some (Returned (st\<lparr>ss_schema := eo_output_schema ops result (ss_world st), ss_spc := SLoop\<rparr>))
      | SLoop \<Rightarrow>
          if ss_cancelled st then Some (Returned (st\<lparr>ss_spc := SWrite (pong_writes session_id NE_END_STREAM request_id []) SFinished\<rparr>))
          else
            (case next_chunk ops result (ss_world st) of
               None \<Rightarrow> None
             | Some (w, Inl e) \<Rightarrow> Some Terminated
             | Some (w, Inr []) \<Rightarrow>
                 Some (Returned (st\<lparr>ss_world := w, ss_spc := SWrite (pong_writes session_id NE_END_STREAM request_id []) SFinished\<rparr>))
             | Some (w, Inr rows) \<Rightarrow>
                 Some (Returned (st\<lparr>ss_world := w, ss_spc := SWrite (chunk_writes session_id request_id (ss_schema st) rows) SLoop\<rparr>)))
      | SFinished \<Rightarrow> Some (Returned st))"

text \<open>\<^verbatim>\<open>cancel_handler\<close>\<close>

definition cancel_step :: "uuid \<Rightarrow> 'w stream \<Rightarrow> ('w stream) run" where
  "cancel_step session_id st =
     (case ss_cpc st of
        CReceive \<Rightarrow>
          (case receive_message (cn_socket (ss_conn st)) of
             (None, sk) \<Rightarrow> Returned (st\<lparr>ss_conn := (ss_conn st)\<lparr>cn_socket := sk, cn_stop := True\<rparr>, ss_cancelled := True, ss_cpc := CFinished\<rparr>)
           | (Some msg_bytes, sk) \<Rightarrow>
               let st = st\<lparr>ss_conn := (ss_conn st)\<lparr>cn_socket := sk\<rparr>\<rparr>
               in case parse_message msg_bytes of
                    Done (CancelStreamMessage s request_id) \<Rightarrow>
                      if s \<noteq> session_id then Returned (st\<lparr>ss_cpc := CFinished\<rparr>)
                      else Returned (st\<lparr>ss_cancelled := True, ss_cpc := CWrite (pong_writes session_id NE_SUCCESS request_id [])\<rparr>)
                  | Done _ \<Rightarrow> Returned (st\<lparr>ss_cpc := CFinished\<rparr>)
                  | _ \<Rightarrow> Terminated)
      | CWrite [] \<Rightarrow> Returned (st\<lparr>ss_cpc := CFinished\<rparr>)
      | CWrite (w # ws) \<Rightarrow>
          (case ss_write w st of
             Some st \<Rightarrow> Returned (st\<lparr>ss_cpc := CWrite ws\<rparr>)
           | None \<Rightarrow> Terminated)
      | CFinished \<Rightarrow> Returned st)"

text \<open>The steps of a schedule: \<open>True\<close> lets the streaming thread run, \<open>False\<close> the cancelling one. Then the streaming
  thread is joined, and the cancelling one after it.\<close>

primrec run_schedule ::
    "('e, 'r, 'w) engine_ops \<Rightarrow> uuid \<Rightarrow> request_id \<Rightarrow> 'r \<Rightarrow> bool list \<Rightarrow> 'w stream \<Rightarrow> ('w stream) run option" where
  "run_schedule ops session_id request_id result [] st = Some (Returned st)"
| "run_schedule ops session_id request_id result (b # bs) st =
     (case (if b then stream_step ops session_id request_id result st else Some (cancel_step session_id st)) of
        Some (Returned st) \<Rightarrow> run_schedule ops session_id request_id result bs st
      | r \<Rightarrow> r)"

partial_function (option) join_stream ::
    "('e, 'r, 'w) engine_ops \<Rightarrow> uuid \<Rightarrow> request_id \<Rightarrow> 'r \<Rightarrow> 'w stream \<Rightarrow> ('w stream) run option" where
  "join_stream ops session_id request_id result st =
     (if ss_spc st = SFinished then Some (Returned st)
      else case stream_step ops session_id request_id result st of
             None \<Rightarrow> None
           | Some (Returned st) \<Rightarrow> join_stream ops session_id request_id result st
           | Some r \<Rightarrow> Some r)"

function join_cancel :: "uuid \<Rightarrow> 'w stream \<Rightarrow> ('w stream) run" where
  "join_cancel session_id st =
     (if ss_cpc st = CFinished then Returned st
      else case cancel_step session_id st of
             Returned st \<Rightarrow> join_cancel session_id st
           | r \<Rightarrow> r)"
  by pat_completeness auto

fun cancel_steps_left :: "cancel_pc \<Rightarrow> nat" where
  "cancel_steps_left CReceive = 4"
| "cancel_steps_left (CWrite ws) = Suc (length ws)"
| "cancel_steps_left CFinished = 0"

lemma cancel_step_progress:
  "cancel_step session_id st = Returned st' \<Longrightarrow> ss_cpc st \<noteq> CFinished \<Longrightarrow>
   cancel_steps_left (ss_cpc st') < cancel_steps_left (ss_cpc st)"
  by (auto simp: cancel_step_def ss_write_def pong_writes_def message_writes_def Let_def
      split: cancel_pc.splits list.splits option.splits prod.splits bool.splits outcome.splits net_message.splits if_splits)

termination join_cancel
  by (relation "measure (\<lambda>(_, st). cancel_steps_left (ss_cpc st))") (auto intro: cancel_step_progress)

declare join_cancel.simps [simp del]

definition handle_stream ::
    "('e, 'r, 'w) engine_ops \<Rightarrow> bool list \<Rightarrow> uuid \<Rightarrow> request_id \<Rightarrow> 'r \<Rightarrow> 'w \<times> conn \<Rightarrow> ('w stream) run option" where
  "handle_stream ops sched session_id request_id result s =
     (let st = \<lparr>ss_conn = snd s, ss_world = fst s, ss_cancelled = False, ss_schema = [],
                ss_spc = SWrite (pong_writes session_id NE_START_STREAM request_id []) SSchema, ss_cpc = CReceive\<rparr>
      in case run_schedule ops session_id request_id result sched st of
           Some (Returned st) \<Rightarrow>
             (case join_stream ops session_id request_id result st of
                Some (Returned st) \<Rightarrow> Some (join_cancel session_id (st\<lparr>ss_cancelled := True\<rparr>))
              | r \<Rightarrow> r)
         | r \<Rightarrow> r)"

section \<open>Messages\<close>

type_synonym ('e, 'w) state = "('e, 'w) server \<times> conn"

text \<open>The branch for an unknown session, and the branch for an exception.\<close>

definition no_session :: "uuid \<Rightarrow> request_id \<Rightarrow> ('e, 'w) state \<Rightarrow> (('e, 'w) state) run" where
  "no_session session_id request_id s = send_pong_and_stop session_id NE_UNINITIALIZED_SESSION request_id [] s"

definition sql_error :: "('e, 'r, 'w) engine_ops \<Rightarrow> uuid \<Rightarrow> request_id \<Rightarrow> exn \<Rightarrow> ('e, 'w) state \<Rightarrow> (('e, 'w) state) run" where
  "sql_error ops session_id request_id e s = send_pong_and_stop session_id NE_SQL_ERROR request_id (eo_what ops e) s"

definition set_world :: "'w \<Rightarrow> ('e, 'w) state \<Rightarrow> ('e, 'w) state" where
  "set_world w s = ((fst s)\<lparr>sv_world := w\<rparr>, snd s)"

definition handle_query_message ::
    "('e, 'r, 'w) engine_ops \<Rightarrow> bool list \<Rightarrow> uuid \<Rightarrow> request_id \<Rightarrow> string \<Rightarrow> ('e, 'w) state \<Rightarrow> (('e, 'w) state) run option" where
  "handle_query_message ops sched session_id request_id query s =
     (case get_session (fst s) session_id of
        None \<Rightarrow> Some (no_session session_id request_id s)
      | Some engine \<Rightarrow>
          (case eo_execute_query ops engine query (sv_world (fst s)) of
             None \<Rightarrow> None
           | Some (w, Inl e) \<Rightarrow> Some (sql_error ops session_id request_id e (set_world w s))
           | Some (w, Inr result) \<Rightarrow>
               (case handle_stream ops sched session_id request_id result (w, snd s) of
                  None \<Rightarrow> None
                | Some (Returned st) \<Rightarrow> Some (Returned ((fst s)\<lparr>sv_world := ss_world st\<rparr>, ss_conn st))
                | Some (Threw e st) \<Rightarrow> Some (sql_error ops session_id request_id e ((fst s)\<lparr>sv_world := ss_world st\<rparr>, ss_conn st))
                | Some Terminated \<Rightarrow> Some Terminated)))"

definition handle_create_db_message ::
    "('e, 'r, 'w) engine_ops \<Rightarrow> uuid \<Rightarrow> request_id \<Rightarrow> string \<Rightarrow> ('e, 'w) state \<Rightarrow> (('e, 'w) state) run option" where
  "handle_create_db_message ops session_id request_id db_name s =
     (case get_session (fst s) session_id of
        None \<Rightarrow> Some (no_session session_id request_id s)
      | Some engine \<Rightarrow>
          (case eo_create_db ops engine (config_std (eo_executable_path ops) db_name) (sv_world (fst s)) of
             None \<Rightarrow> None
           | Some (w, Some e) \<Rightarrow> Some (sql_error ops session_id request_id e (set_world w s))
           | Some (w, None) \<Rightarrow>
               (case send_success session_id request_id (set_world w s) of
                  Threw e s \<Rightarrow> Some (sql_error ops session_id request_id e s)
                | r \<Rightarrow> Some r)))"

text \<open>The handler for \<^verbatim>\<open>DbDoesntExists\<close> sends no text.\<close>

definition attach_error :: "('e, 'r, 'w) engine_ops \<Rightarrow> uuid \<Rightarrow> request_id \<Rightarrow> exn \<Rightarrow> ('e, 'w) state \<Rightarrow> (('e, 'w) state) run" where
  "attach_error ops session_id request_id e s =
     (case e of
        DbDoesntExists _ \<Rightarrow> send_pong_and_stop session_id NE_DB_NOT_EXISTS request_id [] s
      | _ \<Rightarrow> sql_error ops session_id request_id e s)"

definition handle_attach_db_message ::
    "('e, 'r, 'w) engine_ops \<Rightarrow> uuid \<Rightarrow> request_id \<Rightarrow> string \<Rightarrow> ('e, 'w) state \<Rightarrow> (('e, 'w) state) run option" where
  "handle_attach_db_message ops session_id request_id db_name s =
     (case get_session (fst s) session_id of
        None \<Rightarrow> Some (no_session session_id request_id s)
      | Some engine \<Rightarrow>
          (case eo_attach_db ops engine db_name (sv_world (fst s)) of
             None \<Rightarrow> None
           | Some (w, Some e) \<Rightarrow> Some (attach_error ops session_id request_id e (set_world w s))
           | Some (w, None) \<Rightarrow>
               (case send_success session_id request_id (set_world w s) of
                  Threw e s \<Rightarrow> Some (attach_error ops session_id request_id e s)
                | r \<Rightarrow> Some r)))"

definition erase_session :: "uuid \<Rightarrow> ('e, 'w) server \<Rightarrow> ('e, 'w) server" where
  "erase_session session_id sv = sv\<lparr>sv_sessions := (sv_sessions sv)(session_id := None)\<rparr>"

definition handle_close_message :: "uuid \<Rightarrow> request_id \<Rightarrow> ('e, 'w) state \<Rightarrow> (('e, 'w) state) run" where
  "handle_close_message session_id request_id s =
     (case get_session (fst s) session_id of
        None \<Rightarrow> no_session session_id request_id s
      | Some _ \<Rightarrow> Returned (erase_session session_id (fst s), close_and_stop (snd s)))"

fun message_request_id :: "net_message \<Rightarrow> request_id" where
  "message_request_id (PingNetMessage r) = r"
| "message_request_id (PongNetMessage _ _ r _) = r"
| "message_request_id (QueryNetMessage _ r _) = r"
| "message_request_id (CreateDbNetMessage _ r _) = r"
| "message_request_id (AttachDbNetMessage _ r _) = r"
| "message_request_id (CancelStreamMessage _ r) = r"
| "message_request_id (CloseNetMessage _ r) = r"

definition protocol_violation :: "request_id \<Rightarrow> ('e, 'w) state \<Rightarrow> (('e, 'w) state) run" where
  "protocol_violation request_id s = send_pong_and_stop null_uuid NE_PROTOCOL_VIOLATION request_id [] s"

definition dispatch ::
    "('e, 'r, 'w) engine_ops \<Rightarrow> bool list \<Rightarrow> net_message \<Rightarrow> ('e, 'w) state \<Rightarrow> (('e, 'w) state) run option" where
  "dispatch ops sched message s =
     (case message of
        PingNetMessage _ \<Rightarrow> Some (protocol_violation (message_request_id message) s)
      | PongNetMessage _ _ _ _ \<Rightarrow> Some (protocol_violation (message_request_id message) s)
      | QueryNetMessage session_id request_id query \<Rightarrow> handle_query_message ops sched session_id request_id query s
      | CreateDbNetMessage session_id request_id db_name \<Rightarrow> handle_create_db_message ops session_id request_id db_name s
      | AttachDbNetMessage session_id request_id db_name \<Rightarrow> handle_attach_db_message ops session_id request_id db_name s
      | CloseNetMessage session_id request_id \<Rightarrow> Some (handle_close_message session_id request_id s)
      | CancelStreamMessage _ _ \<Rightarrow> Some (protocol_violation (message_request_id message) s))"

definition handle_message ::
    "('e, 'r, 'w) engine_ops \<Rightarrow> bool list \<Rightarrow> ('e, 'w) state \<Rightarrow> (('e, 'w) state) run option" where
  "handle_message ops sched s =
     (case receive_message (cn_socket (snd s)) of
        (None, sk) \<Rightarrow> Some (Returned (fst s, close_and_stop ((snd s)\<lparr>cn_socket := sk\<rparr>)))
      | (Some message_bytes, sk) \<Rightarrow>
          (case parse_message message_bytes of
             Done message \<Rightarrow> dispatch ops sched message (fst s, (snd s)\<lparr>cn_socket := sk\<rparr>)
           | Raised e \<Rightarrow> Some (Threw e (fst s, (snd s)\<lparr>cn_socket := sk\<rparr>))
           | _ \<Rightarrow> Some Terminated))"

section \<open>Clients\<close>

definition close_conn :: "('e, 'w) state \<Rightarrow> ('e, 'w) state" where
  "close_conn s = (fst s, (snd s)\<lparr>cn_socket := close_socket (cn_socket (snd s))\<rparr>)"

text \<open>The session a client is given for its ping: \<open>new_id\<close> is what \<^verbatim>\<open>UUID::make\<close> returns.\<close>

definition open_session ::
    "('e, 'r, 'w) engine_ops \<Rightarrow> uuid \<Rightarrow> request_id \<Rightarrow> ('e, 'w) state \<Rightarrow> (('e, 'w) state) run" where
  "open_session ops new_id request_id s =
     (case eo_new ops (sv_world (fst s)) of
        (w, Inl e) \<Rightarrow> Threw e (set_world w s)
      | (w, Inr engine) \<Rightarrow>
          send (PongNetMessage new_id NE_SUCCESS request_id [])
            ((fst s)\<lparr>sv_world := w, sv_sessions := (sv_sessions (fst s))(new_id \<mapsto> engine)\<rparr>, snd s))"

text \<open>What \<^verbatim>\<open>handle_client\<close> does before its loop: \<open>Inl\<close> if it returns there, \<open>Inr\<close> with the session's state if not.\<close>

definition greet ::
    "('e, 'r, 'w) engine_ops \<Rightarrow> uuid \<Rightarrow> ('e, 'w) state \<Rightarrow> (('e, 'w) state + ('e, 'w) state) option" where
  "greet ops new_id s =
     (case receive_message (cn_socket (snd s)) of
        (None, sk) \<Rightarrow> Some (Inl (close_conn (fst s, (snd s)\<lparr>cn_socket := sk\<rparr>)))
      | (Some ping_bytes, sk) \<Rightarrow>
          let s = (fst s, (snd s)\<lparr>cn_socket := sk\<rparr>)
          in case parse_message ping_bytes of
               Done (PingNetMessage request_id) \<Rightarrow>
                 (case open_session ops new_id request_id s of
                    Returned s \<Rightarrow> Some (Inr (fst s, (snd s)\<lparr>cn_stop := False\<rparr>))
                  | _ \<Rightarrow> None)
             | Done _ \<Rightarrow>
                 (case send (PongNetMessage null_uuid NE_PROTOCOL_VIOLATION 0 []) s of
                    Returned s \<Rightarrow> Some (Inl (close_conn s))
                  | _ \<Rightarrow> None)
             | _ \<Rightarrow> None)"

definition leave :: "uuid \<Rightarrow> ('e, 'w) state \<Rightarrow> ('e, 'w) state" where
  "leave session_id s = close_conn (erase_session session_id (fst s), snd s)"

text \<open>The loop; \<open>scheds n\<close> is the schedule of the \<open>n\<close>-th message. The function runs in a thread of its own, so that an
  exception ends the process.\<close>

partial_function (option) client_loop ::
    "('e, 'r, 'w) engine_ops \<Rightarrow> (nat \<Rightarrow> bool list) \<Rightarrow> nat \<Rightarrow> ('e, 'w) state \<Rightarrow> (('e, 'w) state) run option" where
  "client_loop ops scheds n s =
     (if sv_running (fst s) \<and> \<not> cn_stop (snd s) then
        case handle_message ops (scheds n) s of
          None \<Rightarrow> None
        | Some (Returned s) \<Rightarrow> client_loop ops scheds (Suc n) s
        | Some _ \<Rightarrow> Some Terminated
      else Some (Returned s))"

definition handle_client ::
    "('e, 'r, 'w) engine_ops \<Rightarrow> (nat \<Rightarrow> bool list) \<Rightarrow> uuid \<Rightarrow> ('e, 'w) state \<Rightarrow> (('e, 'w) state) run option" where
  "handle_client ops scheds new_id s =
     (case greet ops new_id s of
        None \<Rightarrow> Some Terminated
      | Some (Inl s) \<Rightarrow> Some (Returned s)
      | Some (Inr s) \<Rightarrow>
          (case client_loop ops scheds 0 s of
             Some (Returned s) \<Rightarrow> Some (Returned (leave new_id s))
           | r \<Rightarrow> r))"

section \<open>The server\<close>

text \<open>
  The threads of several clients work on one server. A connection is \<open>Serving\<close> between the assignment of its session and
  the end of its loop. One step accepts a client, handles a message, ends a loop or stops the server; what happens
  within a step is not interleaved with other connections.
\<close>

datatype client = Serving uuid conn | Gone

record ('e, 'w) system =
  sys_server :: "('e, 'w) server"
  sys_clients :: "client list"

inductive server_step :: "('e, 'r, 'w) engine_ops \<Rightarrow> ('e, 'w) system \<Rightarrow> ('e, 'w) system \<Rightarrow> bool" for ops where
  refused: "sv_running sv \<Longrightarrow> greet ops new_id (sv, cn) = Some (Inl s) \<Longrightarrow>
     server_step ops \<lparr>sys_server = sv, sys_clients = cs\<rparr> \<lparr>sys_server = fst s, sys_clients = cs @ [Gone]\<rparr>"
| accepted: "sv_running sv \<Longrightarrow> greet ops new_id (sv, cn) = Some (Inr s) \<Longrightarrow>
     server_step ops \<lparr>sys_server = sv, sys_clients = cs\<rparr> \<lparr>sys_server = fst s, sys_clients = cs @ [Serving new_id (snd s)]\<rparr>"
| served: "i < length cs \<Longrightarrow> cs ! i = Serving session_id cn \<Longrightarrow> sv_running sv \<Longrightarrow> \<not> cn_stop cn \<Longrightarrow>
     handle_message ops sched (sv, cn) = Some (Returned s) \<Longrightarrow>
     server_step ops \<lparr>sys_server = sv, sys_clients = cs\<rparr> \<lparr>sys_server = fst s, sys_clients = cs[i := Serving session_id (snd s)]\<rparr>"
| left: "i < length cs \<Longrightarrow> cs ! i = Serving session_id cn \<Longrightarrow> \<not> sv_running sv \<or> cn_stop cn \<Longrightarrow>
     server_step ops \<lparr>sys_server = sv, sys_clients = cs\<rparr>
       \<lparr>sys_server = fst (leave session_id (sv, cn)), sys_clients = cs[i := Gone]\<rparr>"
| stopped: "server_step ops \<lparr>sys_server = sv, sys_clients = cs\<rparr> \<lparr>sys_server = sv\<lparr>sv_running := False\<rparr>, sys_clients = cs\<rparr>"

inductive server_reachable :: "('e, 'r, 'w) engine_ops \<Rightarrow> 'w \<Rightarrow> ('e, 'w) system \<Rightarrow> bool" for ops w where
  start: "server_reachable ops w \<lparr>sys_server = \<lparr>sv_sessions = \<lambda>_. None, sv_running = True, sv_world = w\<rparr>, sys_clients = []\<rparr>"
| step: "server_reachable ops w s \<Longrightarrow> server_step ops s s' \<Longrightarrow> server_reachable ops w s'"

section \<open>Frames\<close>

definition net_frame :: "byte list \<Rightarrow> byte list" where
  "net_frame content = concat (map fst (message_writes content))"

lemma ntohl_htonl [simp]: "ntohl (htonl v) = v"
proof -
  have "le_bytes (length (rev (le_bytes 4 v))) (le_word (rev (le_bytes 4 v)) :: u32) = rev (le_bytes 4 v)"
    by (rule le_bytes_le_word) simp
  then show ?thesis by (simp add: ntohl_def htonl_def)
qed

lemma net_frame_bytes: "net_frame content = le_bytes 4 (htonl (word_of_nat (length content))) @ content"
  by (simp add: net_frame_def message_writes_def Let_def)

lemma length_net_frame [simp]: "length (net_frame content) = 4 + length content"
  by (simp add: net_frame_bytes)

lemma small_length:
  assumes "n \<le> unat MAX_INCOMING_LEN"
  shows "unat (word_of_nat n :: u32) = n" and "\<not> MAX_INCOMING_LEN < word_of_nat n" and "n \<le> max_alloc"
proof -
  have max: "unat MAX_INCOMING_LEN = 10485760" by (simp add: MAX_INCOMING_LEN_def)
  then show n: "unat (word_of_nat n :: u32) = n" using assms by (simp add: unat_of_nat)
  show "\<not> MAX_INCOMING_LEN < word_of_nat n" using assms n by (simp add: word_less_nat_alt)
  show "n \<le> max_alloc" using assms max by (simp add: max_alloc_def)
qed

lemma receive_frame:
  assumes "sk_valid sk" and "sk_input sk = net_frame content @ rest" and "length content \<le> unat MAX_INCOMING_LEN"
  shows "receive_message sk = (Some content, sk\<lparr>sk_input := rest\<rparr>)"
proof -
  have "receive_full 4 sk = (Some (le_bytes 4 (htonl (word_of_nat (length content)))), sk\<lparr>sk_input := content @ rest\<rparr>)"
    using assms by (simp add: receive_full_def net_frame_bytes)
  moreover have "receive_full (length content) (sk\<lparr>sk_input := content @ rest\<rparr>) = (Some content, sk\<lparr>sk_input := rest\<rparr>)"
    using assms(1) by (simp add: receive_full_def)
  ultimately show ?thesis using small_length [OF assms(3)] by (simp add: receive_message_def Let_def)
qed

lemma receive_message_bounded:
  assumes "receive_message sk = (Some bs, sk')"
  shows "length bs \<le> unat MAX_INCOMING_LEN"
proof -
  have "length bs = n" if "receive_full n sk = (Some bs, sk')" for n and sk :: socket
    using that by (auto simp: receive_full_def split: if_splits)
  then show ?thesis
    using assms unfolding receive_message_def Let_def
    by (auto split: prod.splits option.splits if_splits) (auto simp: not_less word_le_nat_alt)
qed

text \<open>Every call of \<^verbatim>\<open>receive_message\<close> that yields a message uses up input.\<close>

lemma receive_message_consumes:
  assumes "receive_message sk = (Some bs, sk')"
  shows "length (sk_input sk') < length (sk_input sk)" and "sk_output sk' = sk_output sk" and "sk_room sk' = sk_room sk"
    and "sk_valid sk' = sk_valid sk"
proof -
  have full: "length (sk_input s') + n = length (sk_input s) \<and> sk_output s' = sk_output s \<and> sk_room s' = sk_room s \<and>
      sk_valid s' = sk_valid s" if "receive_full n s = (Some b, s')" for n b and s s' :: socket
    using that by (auto simp: receive_full_def split: if_splits)
  obtain b s where b: "receive_full 4 sk = (Some b, s)" "receive_full (unat (ntohl (le_word b))) s = (Some bs, sk')"
    using assms by (auto simp: receive_message_def Let_def split: prod.splits option.splits if_splits)
  from full [OF b(1)] full [OF b(2)] show "length (sk_input sk') < length (sk_input sk)"
    and "sk_output sk' = sk_output sk" and "sk_room sk' = sk_room sk" and "sk_valid sk' = sk_valid sk" by auto
qed

lemma parse_received:
  assumes "receive_message sk = (Some bs, sk')"
  shows "\<exists>m. parse_message bs = Done m"
proof -
  have "length bs \<le> max_alloc" using small_length(3) [OF receive_message_bounded [OF assms]] .
  then have "rd_message (ro_new bs) = Failed \<or> (\<exists>x. rd_message (ro_new bs) = Done x)"
    using total_readerD [OF total_message, of "ro_new bs"] by (auto simp: ro_new_def)
  then show ?thesis by (auto simp: parse_message_def)
qed

lemma send_full_room:
  "sk_valid sk \<Longrightarrow> length buf \<le> sk_room sk \<Longrightarrow>
   send_full buf sk = (True, sk\<lparr>sk_output := sk_output sk @ buf, sk_room := sk_room sk - length buf\<rparr>)"
  by (simp add: send_full_def)

lemma send_writes_room:
  "sk_valid sk \<Longrightarrow> length (concat (map fst ws)) \<le> sk_room sk \<Longrightarrow>
   send_writes ws sk = (None, sk\<lparr>sk_output := sk_output sk @ concat (map fst ws), sk_room := sk_room sk - length (concat (map fst ws))\<rparr>)"
  by (induction ws arbitrary: sk) (simp_all add: send_full_room)

lemma send_message_room:
  "sk_valid sk \<Longrightarrow> length (net_frame bs) \<le> sk_room sk \<Longrightarrow>
   send_message bs sk = (None, sk\<lparr>sk_output := sk_output sk @ net_frame bs, sk_room := sk_room sk - length (net_frame bs)\<rparr>)"
  unfolding send_message_def net_frame_def by (rule send_writes_room)

lemma encode_message_nonempty [simp]: "encode_message m \<noteq> []"
  by (cases m) (simp_all add: stream_simps)

lemma parse_encoded:
  assumes "message_ok m" and "length (encode_message m) \<le> unat MAX_INCOMING_LEN"
  shows "parse_message (encode_message m) = Done m"
  using message.decode [OF assms(1), of "[]"] small_length(3) [OF assms(2)] by (simp add: parse_message_def)

section \<open>What the handlers keep\<close>

text \<open>No handler adds a session, stops the server or reopens a socket.\<close>

definition keeps :: "('e, 'w) state \<Rightarrow> ('e, 'w) state \<Rightarrow> bool" where
  "keeps s s' \<longleftrightarrow> sv_sessions (fst s') \<subseteq>\<^sub>m sv_sessions (fst s) \<and> sv_running (fst s') = sv_running (fst s)"

fun keeps_run :: "('e, 'w) state \<Rightarrow> (('e, 'w) state) run \<Rightarrow> bool" where
  "keeps_run s (Returned s') = keeps s s'"
| "keeps_run s (Threw e s') = keeps s s'"
| "keeps_run s Terminated = True"

lemma keeps_refl [simp]: "keeps s s" "keeps s (fst s, cn)" "keeps s (set_world w s)" "keeps (set_world w s) s' = keeps s s'"
  "keeps s ((fst s)\<lparr>sv_world := w\<rparr>, cn)" "keeps ((fst s)\<lparr>sv_world := w\<rparr>, cn) s' = keeps s s'"
  "keeps (fst s, cn) s' = keeps s s'"
  by (simp_all add: keeps_def set_world_def)

lemma keeps_erase [simp]: "keeps s (erase_session i (fst s), cn)"
  by (auto simp: keeps_def erase_session_def map_le_def)

lemma keeps_trans: "keeps s s' \<Longrightarrow> keeps s' s'' \<Longrightarrow> keeps s s''"
  by (auto simp: keeps_def intro: map_le_trans)

lemma keeps_run_trans: "keeps s s' \<Longrightarrow> keeps_run s' r \<Longrightarrow> keeps_run s r"
  by (cases r) (auto intro: keeps_trans)

lemma keeps_run_send: "keeps_run s (send m s)"
  by (simp add: send_def split: prod.split option.split)

lemma keeps_send: "send m s = Returned s' \<Longrightarrow> keeps s s'" "send m s = Threw e s' \<Longrightarrow> keeps s s'"
  using keeps_run_send [of s m] by simp_all

lemma keeps_run_pong: "keeps_run s (send_pong_and_stop i c r e s)"
  unfolding send_pong_and_stop_def Let_def send_def by (simp split: prod.split option.split)

lemma keeps_run_errors:
  "keeps_run s (no_session i r s)" "keeps_run s (protocol_violation r s)" "keeps_run s (sql_error ops i r e s)"
  "keeps_run s (attach_error ops i r e s)"
  by (auto simp: no_session_def protocol_violation_def sql_error_def attach_error_def keeps_run_pong split: exn.splits)

lemma keeps_run_shift:
  "keeps_run (set_world w s) r = keeps_run s r" "keeps_run ((fst s)\<lparr>sv_world := w\<rparr>, cn) r = keeps_run s r"
  "keeps_run (fst s, cn) r = keeps_run s r"
  by (cases r; simp)+

lemma keeps_run_query:
  "handle_query_message ops sched i r q s = Some x \<Longrightarrow> keeps_run s x"
  using keeps_run_errors(3) [of "((fst s)\<lparr>sv_world := w\<rparr>, cn)" ops i r e for w cn e]
    keeps_run_errors(3) [of "set_world w s" ops i r e for w e] keeps_run_errors(1) [of s i r]
  by (auto simp: handle_query_message_def keeps_run_shift split: option.splits prod.splits sum.splits run.splits)

lemma keeps_run_catch:
  assumes "(case send m (set_world w s) of Threw e s' \<Rightarrow> Some (h e s') | r \<Rightarrow> Some r) = Some x"
    and "\<And>e s'. keeps_run s' (h e s')"
  shows "keeps_run s x"
proof (cases "send m (set_world w s)")
  case (Threw e s')
  then have "keeps s s'" using keeps_send(2) [of m "set_world w s"] by simp
  from keeps_run_trans [OF this assms(2)] show ?thesis using assms(1) Threw by auto
qed (use assms(1) keeps_run_send [of "set_world w s" m] in \<open>auto simp: keeps_run_shift\<close>)

lemma keeps_run_create:
  assumes "handle_create_db_message ops i r n s = Some x"
  shows "keeps_run s x"
  using assms unfolding handle_create_db_message_def send_success_def
  by (auto simp: keeps_run_errors keeps_run_trans [OF _ keeps_run_errors(3)] split: option.splits
      intro: keeps_run_catch [where h = "sql_error ops i r", OF _ keeps_run_errors(3)])

lemma keeps_run_attach:
  assumes "handle_attach_db_message ops i r n s = Some x"
  shows "keeps_run s x"
  using assms unfolding handle_attach_db_message_def send_success_def
  by (auto simp: keeps_run_errors keeps_run_trans [OF _ keeps_run_errors(4)] split: option.splits
      intro: keeps_run_catch [where h = "attach_error ops i r", OF _ keeps_run_errors(4)])

lemma keeps_run_dispatch:
  assumes "dispatch ops sched m s = Some x"
  shows "keeps_run s x"
proof (cases m)
  case (CloseNetMessage i r)
  then show ?thesis using assms keeps_run_errors(1) [of s i r]
    by (auto simp: dispatch_def handle_close_message_def split: option.splits)
qed (use assms in \<open>auto simp: dispatch_def keeps_run_errors intro: keeps_run_query keeps_run_create keeps_run_attach\<close>)

lemma keeps_run_message:
  assumes "handle_message ops sched s = Some x"
  shows "keeps_run s x"
  using assms keeps_run_dispatch [of ops sched _ "(fst s, (snd s)\<lparr>cn_socket := sk\<rparr>)" for sk]
  unfolding handle_message_def keeps_run_shift by (auto split: prod.splits option.splits outcome.splits)

lemma greet_refused: "greet ops i s = Some (Inl s') \<Longrightarrow> fst s' = fst s"
  by (auto simp: greet_def close_conn_def send_def Let_def open_session_def
      split: prod.splits option.splits outcome.splits net_message.splits run.splits sum.splits)

lemma greet_accepted:
  assumes "greet ops i s = Some (Inr s')"
  shows "\<exists>e. sv_sessions (fst s') = (sv_sessions (fst s))(i \<mapsto> e)" and "\<not> cn_stop (snd s')"
  using assms
  by (auto simp: greet_def send_def open_session_def set_world_def Let_def
      split: prod.splits option.splits outcome.splits net_message.splits run.splits sum.splits)

definition sessions_served :: "('e, 'w) system \<Rightarrow> bool" where
  "sessions_served s \<longleftrightarrow> (\<forall>i \<in> dom (sv_sessions (sys_server s)). \<exists>cn. Serving i cn \<in> set (sys_clients s))"

lemma set_update_other: "x \<in> set xs \<Longrightarrow> x \<noteq> xs ! i \<Longrightarrow> x \<in> set (xs[i := y])"
  by (metis in_set_conv_nth length_list_update nth_list_update_neq)

lemma map_le_domD: "m \<subseteq>\<^sub>m m' \<Longrightarrow> i \<in> dom m \<Longrightarrow> i \<in> dom m'"
  using map_le_implies_dom_le by blast

lemma server_step_served:
  assumes "server_step ops s s'" and "sessions_served s"
  shows "sessions_served s'"
  using assms
proof cases
  case (refused sv new_id cn t cs)
  then show ?thesis using assms(2) greet_refused [of ops new_id "(sv, cn)"] by (auto simp: sessions_served_def)
next
  case (accepted sv new_id cn t cs)
  then show ?thesis using assms(2) greet_accepted(1) [of ops new_id "(sv, cn)" t]
    by (fastforce simp: sessions_served_def split: if_splits)
next
  case (served i cs session_id cn sv sched t)
  have le: "sv_sessions (fst t) \<subseteq>\<^sub>m sv_sessions sv"
    using keeps_run_message [OF served(7)] by (simp add: keeps_def)
  have "\<exists>c. Serving j c \<in> set (cs[i := Serving session_id (snd t)])" if j: "j \<in> dom (sv_sessions (fst t))" for j
  proof (cases "j = session_id")
    case True
    then show ?thesis using served(3) by (auto intro: set_update_memI)
  next
    case False
    obtain c where "Serving j c \<in> set cs"
      using assms(2) map_le_domD [OF le j] served(1) by (auto simp: sessions_served_def)
    then show ?thesis using set_update_other [of "Serving j c" cs i] False served(4) by auto
  qed
  then show ?thesis using served(2) by (simp add: sessions_served_def)
next
  case (left i cs session_id cn sv)
  have "\<exists>c. Serving j c \<in> set (cs[i := Gone])" if "j \<in> dom (sv_sessions (erase_session session_id sv))" for j
  proof -
    have j: "j \<noteq> session_id" "j \<in> dom (sv_sessions sv)" using that by (auto simp: erase_session_def split: if_splits)
    obtain c where "Serving j c \<in> set cs" using assms(2) j(2) left(1) by (auto simp: sessions_served_def)
    then show ?thesis using set_update_other [of "Serving j c" cs i] j(1) left(4) by auto
  qed
  then show ?thesis using left(2) by (simp add: sessions_served_def leave_def close_conn_def)
next
  case (stopped sv cs)
  then show ?thesis using assms(2) by (simp add: sessions_served_def)
qed

section \<open>Rows on the stream\<close>

text \<open>The rows a result delivers: \<^verbatim>\<open>next\<close> yields them in order, whatever the row it is handed holds, and then keeps
  returning \<^verbatim>\<open>false\<close>.\<close>

inductive delivers :: "('e, 'r, 'w) engine_ops \<Rightarrow> 'r \<Rightarrow> 'w \<Rightarrow> data_row list \<Rightarrow> 'w \<Rightarrow> bool" for ops result where
  exhausted: "(\<And>row. \<exists>row'. eo_next ops result row w = Some (w', Inr (False, row'))) \<Longrightarrow>
     (\<And>row. \<exists>row'. eo_next ops result row w' = Some (w', Inr (False, row'))) \<Longrightarrow> delivers ops result w [] w'"
| row: "(\<And>row. eo_next ops result row w = Some (w1, Inr (True, x))) \<Longrightarrow> delivers ops result w1 xs w' \<Longrightarrow>
     delivers ops result w (x # xs) w'"

inductive_cases delivers_NilE: "delivers ops result w [] w'"
inductive_cases delivers_ConsE: "delivers ops result w (x # xs) w'"

function chunks :: "'a list \<Rightarrow> 'a list list" where
  "chunks xs = (if xs = [] then [] else take batch_size xs # chunks (drop batch_size xs))"
  by pat_completeness auto

termination chunks
  by (relation "measure length") (auto simp: batch_size_def)

declare chunks.simps [simp del]

lemma concat_chunks: "concat (chunks xs) = xs"
  by (induction xs rule: chunks.induct) (subst chunks.simps, simp)

lemma chunks_bounded: "c \<in> set (chunks xs) \<Longrightarrow> c \<noteq> [] \<and> length c \<le> batch_size"
proof (induction xs rule: chunks.induct)
  case (1 xs)
  then show ?case by (subst (asm) (2) chunks.simps) (auto simp: batch_size_def split: if_splits)
qed

lemma delivers_end: "delivers ops result w rows w' \<Longrightarrow> delivers ops result w' [] w'"
  by (induction rule: delivers.induct) (auto intro: delivers.exhausted)

lemma chunk_rows_delivers:
  "delivers ops result w rows w' \<Longrightarrow>
   \<exists>w1. chunk_rows ops result n row w = Some (w1, Inr (take n rows)) \<and> delivers ops result w1 (drop n rows) w' \<and>
     (length rows < n \<longrightarrow> w1 = w')"
proof (induction n arbitrary: row w rows)
  case (Suc n)
  show ?case
  proof (cases rows)
    case Nil
    obtain row' where "eo_next ops result row w = Some (w', Inr (False, row'))"
      by (rule delivers_NilE [OF Suc.prems [unfolded Nil]]) blast
    then show ?thesis using Nil delivers_end [OF Suc.prems] by simp
  next
    case (Cons x xs)
    with Suc.prems obtain w1 where w1: "eo_next ops result row w = Some (w1, Inr (True, x))" "delivers ops result w1 xs w'"
      by (auto elim: delivers_ConsE)
    with Suc.IH [OF w1(2), of x] Cons show ?thesis by auto
  qed
qed simp

definition stream_tail :: "uuid \<Rightarrow> request_id \<Rightarrow> output_column list \<Rightarrow> data_row list \<Rightarrow> byte list" where
  "stream_tail session_id request_id schema rows =
     concat (map fst (concat (map (chunk_writes session_id request_id schema) (chunks rows)) @
       pong_writes session_id NE_END_STREAM request_id []))"

lemma stream_tail_chunk:
  "rows \<noteq> [] \<Longrightarrow> stream_tail i r schema rows =
     concat (map fst (chunk_writes i r schema (take batch_size rows))) @ stream_tail i r schema (drop batch_size rows)"
  by (subst (1) stream_tail_def, subst chunks.simps) (simp add: stream_tail_def)

text \<open>The bytes the streaming thread still writes when it is at \<open>pc\<close> and is not cancelled.\<close>

primrec todo :: "('e, 'r, 'w) engine_ops \<Rightarrow> uuid \<Rightarrow> request_id \<Rightarrow> 'r \<Rightarrow> stream_pc \<Rightarrow> 'w \<Rightarrow> output_column list \<Rightarrow> byte list \<Rightarrow> 'w \<Rightarrow> bool" where
  "todo ops i r result SFinished w schema bs w' \<longleftrightarrow> bs = [] \<and> w' = w"
| "todo ops i r result SLoop w schema bs w' \<longleftrightarrow> (\<exists>rows. delivers ops result w rows w' \<and> bs = stream_tail i r schema rows)"
| "todo ops i r result SSchema w schema bs w' \<longleftrightarrow>
     (\<exists>rows. delivers ops result w rows w' \<and> bs = stream_tail i r (eo_output_schema ops result w) rows)"
| "todo ops i r result (SWrite ws pc) w schema bs w' \<longleftrightarrow>
     (\<exists>rest. bs = concat (map fst ws) @ rest \<and> list_all (\<lambda>x. fst x \<noteq> []) ws \<and> todo ops i r result pc w schema rest w')"

primrec pc_rank :: "stream_pc \<Rightarrow> nat" where
  "pc_rank SFinished = 0"
| "pc_rank SLoop = 1"
| "pc_rank SSchema = 2"
| "pc_rank (SWrite ws pc) = (if ws = [] then Suc (pc_rank pc) else 0)"

lemma writes_nonempty: "list_all (\<lambda>x. fst x \<noteq> []) (pong_writes i c r p)" "pong_writes i c r p \<noteq> []"
proof -
  have "le_bytes 4 v \<noteq> []" for v :: u32 using length_le_bytes [of 4 v] by (metis list.size(3) zero_neq_numeral)
  then show "list_all (\<lambda>x. fst x \<noteq> []) (pong_writes i c r p)" "pong_writes i c r p \<noteq> []"
    by (simp_all add: pong_writes_def message_writes_def Let_def del: encode_message.simps)
qed

definition has_sent :: "byte list \<Rightarrow> byte list \<Rightarrow> conn \<Rightarrow> conn" where
  "has_sent inp bs cn = cn\<lparr>cn_socket := (cn_socket cn)\<lparr>sk_input := inp, sk_output := sk_output (cn_socket cn) @ bs,
     sk_room := sk_room (cn_socket cn) - length bs\<rparr>\<rparr>"

lemma has_sent_sel [simp]:
  "sk_input (cn_socket (has_sent inp bs cn)) = inp" "sk_output (cn_socket (has_sent inp bs cn)) = sk_output (cn_socket cn) @ bs"
  "sk_room (cn_socket (has_sent inp bs cn)) = sk_room (cn_socket cn) - length bs"
  "sk_valid (cn_socket (has_sent inp bs cn)) = sk_valid (cn_socket cn)" "cn_stop (has_sent inp bs cn) = cn_stop cn"
  by (simp_all add: has_sent_def)

lemma has_sent_start: "cn = has_sent (sk_input (cn_socket cn)) [] cn"
  by (simp add: has_sent_def)

lemma ss_write_has_sent:
  assumes "ss_conn st = has_sent inp bs cn" and "sk_valid (cn_socket cn)" and "length (bs @ fst w) \<le> sk_room (cn_socket cn)"
  shows "ss_write w st = Some (st\<lparr>ss_conn := has_sent inp (bs @ fst w) cn\<rparr>)"
  using assms by (simp add: ss_write_def send_full_room has_sent_def)

text \<open>
  A stream that is not cancelled: \<open>bs\<close> is everything the streaming thread writes and \<open>done\<close> what it has written so
  far; the cancelling thread takes the next message \<open>msg\<close> off the input at some moment.
\<close>

definition streaming ::
    "('e, 'r, 'w) engine_ops \<Rightarrow> uuid \<Rightarrow> request_id \<Rightarrow> 'r \<Rightarrow> byte list \<Rightarrow> byte list \<Rightarrow> conn \<Rightarrow> byte list \<Rightarrow> 'w \<Rightarrow>
     'w stream \<Rightarrow> byte list \<Rightarrow> bool" where
  "streaming ops i r result msg inp cn bs w' st rest \<longleftrightarrow>
     \<not> ss_cancelled st \<and> sk_valid (cn_socket cn) \<and> length bs \<le> sk_room (cn_socket cn) \<and>
     todo ops i r result (ss_spc st) (ss_world st) (ss_schema st) rest w' \<and>
     (\<exists>before. bs = before @ rest \<and>
       (ss_cpc st = CReceive \<and> ss_conn st = has_sent (net_frame msg @ inp) before cn \<or> ss_cpc st = CFinished \<and> ss_conn st = has_sent inp before cn))"

lemma streaming_same_output:
  assumes "streaming ops i r result msg inp cn bs w' st rest"
    and "todo ops i r result pc w schema rest w'"
  shows "streaming ops i r result msg inp cn bs w' (st\<lparr>ss_world := w, ss_schema := schema, ss_spc := pc\<rparr>) rest"
  using assms by (auto simp: streaming_def)

lemma streaming_write:
  assumes "streaming ops i r result msg inp cn bs w' st rest" and "ss_spc st = SWrite (x # ws) pc"
  shows "\<exists>st'. stream_step ops i r result st = Some (Returned st') \<and> ss_spc st' = SWrite ws pc \<and>
    streaming ops i r result msg inp cn bs w' st' (drop (length (fst x)) rest) \<and> length (drop (length (fst x)) rest) < length rest"
proof -
  from assms obtain rest' where rest': "rest = fst x @ concat (map fst ws) @ rest'" "fst x \<noteq> []"
      "list_all (\<lambda>x. fst x \<noteq> []) ws" "todo ops i r result pc (ss_world st) (ss_schema st) rest' w'"
    by (auto simp: streaming_def)
  from assms(1) obtain before inp' where st: "bs = before @ rest" "ss_conn st = has_sent inp' before cn"
      "ss_cpc st = CReceive \<and> inp' = net_frame msg @ inp \<or> ss_cpc st = CFinished \<and> inp' = inp"
    unfolding streaming_def by blast
  have "ss_write x st = Some (st\<lparr>ss_conn := has_sent inp' (before @ fst x) cn\<rparr>)"
    by (rule ss_write_has_sent [OF st(2)]) (use assms(1) rest'(1) st(1) in \<open>auto simp: streaming_def\<close>)
  then have "stream_step ops i r result st = Some (Returned (st\<lparr>ss_conn := has_sent inp' (before @ fst x) cn, ss_spc := SWrite ws pc\<rparr>))"
    using assms(2) by (simp add: stream_step_def)
  moreover have "streaming ops i r result msg inp cn bs w' (st\<lparr>ss_conn := has_sent inp' (before @ fst x) cn, ss_spc := SWrite ws pc\<rparr>)
      (drop (length (fst x)) rest)"
    using assms(1) rest' st by (auto simp: streaming_def)
  ultimately show ?thesis using rest'(1,2) by simp
qed

text \<open>Each step of the streaming thread writes a part of what is left to write, or brings it nearer to it.\<close>

lemma streaming_step:
  assumes "streaming ops i r result msg inp cn bs w' st rest" and "ss_spc st \<noteq> SFinished"
  shows "\<exists>st' rest'. stream_step ops i r result st = Some (Returned st') \<and> streaming ops i r result msg inp cn bs w' st' rest' \<and>
    ((length rest', pc_rank (ss_spc st')), (length rest, pc_rank (ss_spc st))) \<in> less_than <*lex*> less_than"
proof (cases "ss_spc st")
  case (SWrite ws pc)
  show ?thesis
  proof (cases ws)
    case Nil
    then have "streaming ops i r result msg inp cn bs w' (st\<lparr>ss_spc := pc\<rparr>) rest"
      using assms(1) SWrite by (auto simp: streaming_def)
    then show ?thesis using SWrite Nil by (intro exI conjI) (auto simp: stream_step_def)
  next
    case (Cons x ws')
    with streaming_write [OF assms(1), of x ws' pc] SWrite show ?thesis by fastforce
  qed
next
  case SSchema
  have "todo ops i r result SLoop (ss_world st) (eo_output_schema ops result (ss_world st)) rest w'"
    using assms(1) SSchema by (simp add: streaming_def)
  from streaming_same_output [OF assms(1) this] show ?thesis
    using SSchema by (intro exI conjI) (auto simp: stream_step_def)
next
  case SLoop
  then obtain rows where rows: "delivers ops result (ss_world st) rows w'" "rest = stream_tail i r (ss_schema st) rows"
    using assms(1) by (auto simp: streaming_def)
  obtain w1 where w1: "next_chunk ops result (ss_world st) = Some (w1, Inr (take batch_size rows))" "delivers ops result w1 (drop batch_size rows) w'"
      "rows = [] \<Longrightarrow> w1 = w'"
  proof -
    have "length rows < batch_size" if "rows = []" using that by (simp add: batch_size_def)
    then show ?thesis using that chunk_rows_delivers [OF rows(1), of batch_size fresh_row] unfolding next_chunk_def by blast
  qed
  have nc: "\<not> ss_cancelled st" using assms(1) by (simp add: streaming_def)
  define ws where "ws = (if rows = [] then pong_writes i NE_END_STREAM r [] else chunk_writes i r (ss_schema st) (take batch_size rows))"
  define pc where "pc = (if rows = [] then SFinished else SLoop)"
  have ws: "list_all (\<lambda>x. fst x \<noteq> []) ws" "ws \<noteq> []" by (simp_all add: ws_def chunk_writes_def writes_nonempty)
  have td: "todo ops i r result (SWrite ws pc) w1 (ss_schema st) rest w'"
    using rows(2) ws(1) w1(2,3) by (auto simp: ws_def pc_def stream_tail_chunk) (simp add: stream_tail_def chunks.simps)
  have "stream_step ops i r result st = Some (Returned (st\<lparr>ss_world := w1, ss_spc := SWrite ws pc\<rparr>))"
    using SLoop nc w1(1) by (cases rows) (simp_all add: stream_step_def ws_def pc_def batch_size_def)
  with streaming_same_output [OF assms(1) td] ws(2) SLoop show ?thesis by (intro exI conjI) auto
qed (use assms in simp)

definition harmless :: "uuid \<Rightarrow> byte list \<Rightarrow> bool" where
  "harmless i msg \<longleftrightarrow> length msg \<le> unat MAX_INCOMING_LEN \<and> (\<forall>r. parse_message msg \<noteq> Done (CancelStreamMessage i r))"

lemma streaming_cancel:
  assumes "streaming ops i r result msg inp cn bs w' st rest" and "harmless i msg"
  shows "\<exists>st'. cancel_step i st = Returned st' \<and> streaming ops i r result msg inp cn bs w' st' rest \<and>
    ss_spc st' = ss_spc st \<and> ss_cpc st' = CFinished"
proof (cases "ss_cpc st = CFinished")
  case True
  then show ?thesis using assms(1) by (simp add: cancel_step_def)
next
  case False
  then obtain before where st: "bs = before @ rest" "ss_cpc st = CReceive" "ss_conn st = has_sent (net_frame msg @ inp) before cn"
    using assms(1) by (auto simp: streaming_def)
  have "sk_valid (cn_socket (ss_conn st))" "sk_input (cn_socket (ss_conn st)) = net_frame msg @ inp"
    using assms(1) st(3) by (simp_all add: streaming_def)
  note recv = receive_frame [OF this] assms(2) [unfolded harmless_def]
  obtain m where m: "parse_message msg = Done m" using parse_received recv by blast
  let ?st = "st\<lparr>ss_conn := has_sent inp before cn, ss_cpc := CFinished\<rparr>"
  have "(ss_conn st)\<lparr>cn_socket := (cn_socket (ss_conn st))\<lparr>sk_input := inp\<rparr>\<rparr> = has_sent inp before cn"
    using st(3) by (simp add: has_sent_def)
  then have "cancel_step i st = Returned ?st"
    using recv m st(2) by (auto simp: cancel_step_def Let_def split: net_message.split)
  moreover have "streaming ops i r result msg inp cn bs w' ?st rest"
    using assms(1) st(1) by (auto simp: streaming_def)
  ultimately show ?thesis by (intro exI [of _ ?st]) simp
qed

lemma streaming_schedule:
  assumes "harmless i msg"
  shows "streaming ops i r result msg inp cn bs w' st rest \<Longrightarrow>
    \<exists>st' rest'. run_schedule ops i r result sched st = Some (Returned st') \<and> streaming ops i r result msg inp cn bs w' st' rest'"
proof (induction sched arbitrary: st rest)
  case Nil
  then show ?case by auto
next
  case (Cons b sched)
  have "\<exists>st' rest'. (if b then stream_step ops i r result st else Some (cancel_step i st)) = Some (Returned st') \<and>
      streaming ops i r result msg inp cn bs w' st' rest'"
  proof (cases "b \<and> ss_spc st \<noteq> SFinished")
    case True
    then show ?thesis using streaming_step [OF Cons.prems] by auto
  next
    case False
    then show ?thesis using streaming_cancel [OF Cons.prems assms] Cons.prems by (auto simp: stream_step_def)
  qed
  then show ?case using Cons.IH by (auto simp del: if_split)
qed

lemma streaming_join:
  "streaming ops i r result msg inp cn bs w' st rest \<Longrightarrow>
    \<exists>st'. join_stream ops i r result st = Some (Returned st') \<and> streaming ops i r result msg inp cn bs w' st' [] \<and> ss_spc st' = SFinished"
proof (induction "(length rest, pc_rank (ss_spc st))" arbitrary: st rest rule: wf_induct_rule [OF wf_lex_prod [OF wf_less_than wf_less_than]])
  case 1
  show ?case
  proof (cases "ss_spc st = SFinished")
    case True
    with 1(2) have "rest = []" by (simp add: streaming_def)
    then show ?thesis using True 1(2) by (subst join_stream.simps) simp
  next
    case False
    obtain st' rest' where st': "stream_step ops i r result st = Some (Returned st')"
        "streaming ops i r result msg inp cn bs w' st' rest'"
        "((length rest', pc_rank (ss_spc st')), (length rest, pc_rank (ss_spc st))) \<in> less_than <*lex*> less_than"
      using streaming_step [OF 1(2) False] by blast
    from 1(1) [OF st'(3) st'(2)] show ?thesis using False st'(1) by (subst join_stream.simps) simp
  qed
qed

definition stream_bytes ::
    "('e, 'r, 'w) engine_ops \<Rightarrow> uuid \<Rightarrow> request_id \<Rightarrow> 'r \<Rightarrow> 'w \<Rightarrow> data_row list \<Rightarrow> byte list" where
  "stream_bytes ops i r result w rows =
     concat (map fst (pong_writes i NE_START_STREAM r [])) @ stream_tail i r (eo_output_schema ops result w) rows"

lemma handle_stream_delivers:
  assumes "delivers ops result w rows w'" and "harmless i msg" and "sk_valid (cn_socket cn)"
    and "sk_input (cn_socket cn) = net_frame msg @ inp" and "length (stream_bytes ops i r result w rows) \<le> sk_room (cn_socket cn)"
  shows "\<exists>st. handle_stream ops sched i r result (w, cn) = Some (Returned st) \<and> ss_world st = w' \<and>
    ss_conn st = has_sent inp (stream_bytes ops i r result w rows) cn"
proof -
  let ?bs = "stream_bytes ops i r result w rows"
  let ?st = "\<lparr>ss_conn = cn, ss_world = w, ss_cancelled = False, ss_schema = [],
    ss_spc = SWrite (pong_writes i NE_START_STREAM r []) SSchema, ss_cpc = CReceive\<rparr>"
  have "streaming ops i r result msg inp cn ?bs w' ?st ?bs"
    using assms has_sent_start [of cn] by (auto simp: streaming_def stream_bytes_def writes_nonempty)
  from streaming_schedule [OF assms(2) this, of sched]
  obtain st1 rest1 where st1: "run_schedule ops i r result sched ?st = Some (Returned st1)"
      "streaming ops i r result msg inp cn ?bs w' st1 rest1" by blast
  obtain st2 where st2: "join_stream ops i r result st1 = Some (Returned st2)" "streaming ops i r result msg inp cn ?bs w' st2 []"
      "ss_spc st2 = SFinished"
    using streaming_join [OF st1(2)] by blast
  obtain st3 where st3: "cancel_step i st2 = Returned st3" "streaming ops i r result msg inp cn ?bs w' st3 []"
      "ss_spc st3 = SFinished" "ss_cpc st3 = CFinished"
    using streaming_cancel [OF st2(2) assms(2)] st2(3) by auto
  have flag: "cancel_step i (st2\<lparr>ss_cancelled := True\<rparr>) = Returned (st3\<lparr>ss_cancelled := True\<rparr>)"
    using st3(1,2) st2(2) by (auto simp: cancel_step_def streaming_def Let_def split: cancel_pc.splits prod.splits option.splits
        outcome.splits net_message.splits if_splits)
  have "join_cancel i (st2\<lparr>ss_cancelled := True\<rparr>) = Returned (st3\<lparr>ss_cancelled := True\<rparr>)"
    using st3(1,4) flag
    by (cases "ss_cpc st2 = CFinished") (simp_all add: join_cancel.simps cancel_step_def)
  then show ?thesis using st1(1) st2(1) st3 by (auto simp: handle_stream_def streaming_def)
qed

text \<open>The messages of a stream that runs to its end.\<close>

definition stream_messages :: "uuid \<Rightarrow> request_id \<Rightarrow> output_column list \<Rightarrow> data_row list \<Rightarrow> net_message list" where
  "stream_messages i r schema rows =
     PongNetMessage i NE_START_STREAM r [] #
     map (\<lambda>chunk. PongNetMessage i NE_STREAM_CHUNK r
       (serialize_result \<lparr>dt_table_name = [], dt_output_schema = schema, dt_rows = chunk\<rparr>)) (chunks rows) @
     [PongNetMessage i NE_END_STREAM r []]"

definition net_frames :: "net_message list \<Rightarrow> byte list" where
  "net_frames ms = concat (map (\<lambda>m. net_frame (encode_message m)) ms)"

lemma concat_pong_writes: "concat (map fst (pong_writes i c r p)) = net_frame (encode_message (PongNetMessage i c r p))"
  by (simp add: pong_writes_def net_frame_def del: encode_message.simps)

lemma stream_bytes_frames: "stream_bytes ops i r result w rows = net_frames (stream_messages i r (eo_output_schema ops result w) rows)"
proof -
  have "concat (map fst (concat (map (chunk_writes i r schema) cs))) =
      concat (map (\<lambda>c. net_frame (encode_message (PongNetMessage i NE_STREAM_CHUNK r
        (serialize_result \<lparr>dt_table_name = [], dt_output_schema = schema, dt_rows = c\<rparr>)))) cs)" for cs schema
    by (induction cs) (simp_all add: chunk_writes_def concat_pong_writes del: encode_message.simps)
  then show ?thesis
    by (simp add: stream_bytes_def stream_tail_def stream_messages_def net_frames_def concat_pong_writes comp_def
        del: encode_message.simps)
qed

lemma handle_message_frame:
  assumes "sk_valid (cn_socket cn)" and "sk_input (cn_socket cn) = net_frame (encode_message m) @ inp" and "message_ok m"
    and "length (encode_message m) \<le> unat MAX_INCOMING_LEN"
  shows "handle_message ops sched (sv, cn) = dispatch ops sched m (sv, cn\<lparr>cn_socket := (cn_socket cn)\<lparr>sk_input := inp\<rparr>\<rparr>)"
  using receive_frame [OF assms(1,2,4)] parse_encoded [OF assms(3,4)] by (simp add: handle_message_def)

section \<open>A cancelled stream\<close>

lemma join_stream_step:
  "stream_step ops i r result st = Some (Returned st') \<Longrightarrow> ss_spc st \<noteq> SFinished \<Longrightarrow>
   join_stream ops i r result st = join_stream ops i r result st'"
  by (subst join_stream.simps) simp

lemma join_writes:
  assumes "sk_valid (cn_socket cn)"
  shows "ss_conn st = has_sent inp bs cn \<Longrightarrow> ss_spc st = SWrite ws pc \<Longrightarrow>
    length (bs @ concat (map fst ws)) \<le> sk_room (cn_socket cn) \<Longrightarrow>
    join_stream ops i r result st =
    join_stream ops i r result (st\<lparr>ss_conn := has_sent inp (bs @ concat (map fst ws)) cn, ss_spc := pc\<rparr>)"
proof (induction ws arbitrary: st bs)
  case Nil
  have "join_stream ops i r result st = join_stream ops i r result (st\<lparr>ss_spc := pc\<rparr>)"
    by (rule join_stream_step) (simp_all add: stream_step_def Nil(2))
  then show ?case by (simp flip: Nil(1))
next
  case (Cons x ws)
  let ?st = "st\<lparr>ss_conn := has_sent inp (bs @ fst x) cn, ss_spc := SWrite ws pc\<rparr>"
  have "ss_write x st = Some (st\<lparr>ss_conn := has_sent inp (bs @ fst x) cn\<rparr>)"
    using ss_write_has_sent [OF Cons.prems(1) assms] Cons.prems(3) by simp
  then have "join_stream ops i r result st = join_stream ops i r result ?st"
    using Cons.prems(2) by (intro join_stream_step) (simp_all add: stream_step_def)
  also have "\<dots> = join_stream ops i r result (?st\<lparr>ss_conn := has_sent inp ((bs @ fst x) @ concat (map fst ws)) cn, ss_spc := pc\<rparr>)"
    by (rule Cons.IH) (use Cons.prems(3) in simp_all)
  finally show ?case by simp
qed

text \<open>A stream that was cancelled in front of its loop ends at once.\<close>

lemma join_cancelled:
  assumes "ss_cancelled st" and "ss_conn st = has_sent inp bs cn" and "ss_spc st = SWrite ws SSchema" and "sk_valid (cn_socket cn)"
    and "length (bs @ concat (map fst ws) @ net_frame (encode_message (PongNetMessage i NE_END_STREAM r []))) \<le> sk_room (cn_socket cn)"
  shows "\<exists>st'. join_stream ops i r result st = Some (Returned st') \<and> ss_cpc st' = ss_cpc st \<and>
    ss_conn st' = has_sent inp (bs @ concat (map fst ws) @ net_frame (encode_message (PongNetMessage i NE_END_STREAM r []))) cn"
proof -
  let ?fin = "pong_writes i NE_END_STREAM r []"
  let ?bs = "bs @ concat (map fst ws)"
  let ?st1 = "st\<lparr>ss_conn := has_sent inp ?bs cn, ss_spc := SSchema\<rparr>"
  let ?st2 = "?st1\<lparr>ss_schema := eo_output_schema ops result (ss_world st), ss_spc := SLoop\<rparr>"
  let ?st3 = "?st2\<lparr>ss_spc := SWrite ?fin SFinished\<rparr>"
  have "join_stream ops i r result st = join_stream ops i r result ?st1"
    by (rule join_writes [OF assms(4,2,3)]) (use assms(5) in simp)
  also have "\<dots> = join_stream ops i r result ?st2" by (rule join_stream_step) (simp_all add: stream_step_def)
  also have "\<dots> = join_stream ops i r result ?st3" by (rule join_stream_step) (simp_all add: stream_step_def assms(1))
  also have "\<dots> = join_stream ops i r result (?st3\<lparr>ss_conn := has_sent inp (?bs @ concat (map fst ?fin)) cn, ss_spc := SFinished\<rparr>)"
    by (rule join_writes [OF assms(4)]) (use assms(5) in \<open>simp_all add: concat_pong_writes\<close>)
  finally show ?thesis
    by (subst (asm) (2) join_stream.simps) (simp add: concat_pong_writes)
qed

lemma length_empty_pong: "length (encode_message (PongNetMessage i c r [])) = 30"
  by (simp add: stream_simps)

lemma pong_writes_split:
  "pong_writes i c r [] = [(le_bytes 4 (htonl 30), ''Failed to write length to socket''),
     (encode_message (PongNetMessage i c r []), ''Failed to write message body'')]"
  using length_empty_pong [of i c r] by (auto simp: pong_writes_def message_writes_def Let_def simp del: encode_message.simps)

lemma parse_unknown_type: "parse_message (0 # bs) = Done protocol_violation_message" if "length bs < max_alloc"
proof -
  have "rd_message (ro_new (0 # bs)) = Failed"
    using consumes_new [OF consumes_byte [of 0], of bs] that by (simp add: rd_message_def rbind_def rd_body_def rfail_def)
  then show ?thesis by (simp add: parse_message_def)
qed

text \<open>The streaming thread writes the length of its first message, then the other thread answers the cancellation.\<close>

lemma torn_schedule:
  assumes "sk_valid (cn_socket cn)" and "sk_input (cn_socket cn) = net_frame (encode_message (CancelStreamMessage i c)) @ inp"
    and "102 \<le> sk_room (cn_socket cn)"
  shows "run_schedule ops i r result [True, False, False, False, False]
      \<lparr>ss_conn = cn, ss_world = w, ss_cancelled = False, ss_schema = [],
       ss_spc = SWrite (pong_writes i NE_START_STREAM r []) SSchema, ss_cpc = CReceive\<rparr> =
    Some (Returned \<lparr>ss_conn = has_sent inp (le_bytes 4 (htonl 30) @ le_bytes 4 (htonl 30) @ encode_message (PongNetMessage i NE_SUCCESS c [])) cn,
       ss_world = w, ss_cancelled = True, ss_schema = [],
       ss_spc = SWrite [(encode_message (PongNetMessage i NE_START_STREAM r []), ''Failed to write message body'')] SSchema,
       ss_cpc = CFinished\<rparr>)"
  supply encode_message.simps [simp del]
proof -
  let ?cancel = "encode_message (CancelStreamMessage i c)"
  have msg: "length ?cancel \<le> unat MAX_INCOMING_LEN" by (simp add: MAX_INCOMING_LEN_def stream_simps encode_message.simps)
  have put: "ss_write x st = Some (st\<lparr>ss_conn := has_sent inp' (bs @ fst x) cn\<rparr>)"
    if "ss_conn st = has_sent inp' bs cn" "length (bs @ fst x) \<le> 102" for x inp' bs and st :: "'d stream"
    by (rule ss_write_has_sent [OF that(1) assms(1)]) (use that(2) assms(3) in simp)
  have cn: "cn = has_sent (net_frame ?cancel @ inp) [] cn" using has_sent_start [of cn] assms(2) by simp
  have parse: "parse_message ?cancel = Done (CancelStreamMessage i c)" by (rule parse_encoded [OF _ msg]) simp
  have recv: "receive_message (cn_socket (has_sent (net_frame ?cancel @ inp) bs cn)) = (Some ?cancel, cn_socket (has_sent inp bs cn))" for bs
    using receive_frame [of "cn_socket (has_sent (net_frame ?cancel @ inp) bs cn)" ?cancel inp] assms(1) msg by (simp add: has_sent_def)
  have again: "(has_sent (net_frame ?cancel @ inp) bs cn)\<lparr>cn_socket := cn_socket (has_sent inp bs cn)\<rparr> = has_sent inp bs cn" for bs
    by (simp add: has_sent_def)
  have start: "ss_write x \<lparr>ss_conn = cn, ss_world = w, ss_cancelled = False, ss_schema = [], ss_spc = p, ss_cpc = q\<rparr> =
      Some \<lparr>ss_conn = has_sent (net_frame ?cancel @ inp) (fst x) cn, ss_world = w, ss_cancelled = False, ss_schema = [], ss_spc = p, ss_cpc = q\<rparr>"
    if "length (fst x) = 4" for x p q
    using put [of "\<lparr>ss_conn = cn, ss_world = w, ss_cancelled = False, ss_schema = [], ss_spc = p, ss_cpc = q\<rparr>" "net_frame ?cancel @ inp" "[]" x]
      cn that by simp
  show ?thesis
    by (simp add: stream_step_def cancel_step_def pong_writes_split start recv parse again put length_empty_pong)
qed

lemma hdr_zero: "le_bytes 4 (htonl 30) = [0, 0, 0, 30 :: byte]"
  by code_simp

section \<open>Termination\<close>

text \<open>An engine whose operations return and whose results come to an end.\<close>

definition engine_returns :: "('e, 'r, 'w) engine_ops \<Rightarrow> ('r \<Rightarrow> 'w \<Rightarrow> nat) \<Rightarrow> bool" where
  "engine_returns ops \<mu> \<longleftrightarrow>
     (\<forall>e q w. eo_execute_query ops e q w \<noteq> None) \<and> (\<forall>e c w. eo_create_db ops e c w \<noteq> None) \<and>
     (\<forall>e n w. eo_attach_db ops e n w \<noteq> None) \<and>
     (\<forall>result row w. case eo_next ops result row w of
        None \<Rightarrow> False
      | Some (w', Inr (True, _)) \<Rightarrow> \<mu> result w' < \<mu> result w
      | Some (w', Inr (False, _)) \<Rightarrow> \<mu> result w' \<le> \<mu> result w
      | Some (w', Inl _) \<Rightarrow> True)"

lemma engine_next:
  assumes "engine_returns ops \<mu>"
  obtains (row) w' row' where "eo_next ops result row w = Some (w', Inr (True, row'))" "\<mu> result w' < \<mu> result w"
  | (end_of_rows) w' row' where "eo_next ops result row w = Some (w', Inr (False, row'))" "\<mu> result w' \<le> \<mu> result w"
  | (error) w' e where "eo_next ops result row w = Some (w', Inl e)"
proof -
  have "case eo_next ops result row w of None \<Rightarrow> False
      | Some (w', Inr (True, _)) \<Rightarrow> \<mu> result w' < \<mu> result w
      | Some (w', Inr (False, _)) \<Rightarrow> \<mu> result w' \<le> \<mu> result w
      | Some (w', Inl _) \<Rightarrow> True"
    using assms by (simp add: engine_returns_def)
  then show thesis using that by (auto split: option.splits prod.splits sum.splits bool.splits)
qed

lemma chunk_rows_returns:
  assumes "engine_returns ops \<mu>"
  shows "\<exists>w' x. chunk_rows ops result n row w = Some (w', x) \<and>
    (\<forall>rows. x = Inr rows \<longrightarrow> \<mu> result w' \<le> \<mu> result w \<and> (rows \<noteq> [] \<longrightarrow> \<mu> result w' < \<mu> result w))"
proof (induction n arbitrary: row w)
  case (Suc n)
  show ?case
  proof (cases rule: engine_next [OF assms, where result = result and row = row and w = w])
    case (1 w' row')
    obtain w1 x where w1: "chunk_rows ops result n row' w' = Some (w1, x)"
        "\<And>rows. x = Inr rows \<Longrightarrow> \<mu> result w1 \<le> \<mu> result w'"
      using Suc.IH [of row' w'] by blast
    with 1 show ?thesis by (cases x) fastforce+
  qed simp_all
qed simp

text \<open>The steps a streaming thread has left are bounded by the rows that are left.\<close>

primrec steps_left :: "nat \<Rightarrow> stream_pc \<Rightarrow> nat" where
  "steps_left k SFinished = 0"
| "steps_left k SLoop = 5 * k + 5"
| "steps_left k SSchema = 5 * k + 6"
| "steps_left k (SWrite ws pc) = Suc (length ws) + steps_left k pc"

lemma length_pong_writes: "length (pong_writes i c r p) = 2"
  by (simp add: pong_writes_def message_writes_def Let_def del: encode_message.simps)

lemma steps_left_mono: "k \<le> k' \<Longrightarrow> steps_left k pc \<le> steps_left k' pc"
  by (induction pc) auto

lemma stream_step_returns:
  assumes "engine_returns ops \<mu>"
  shows "stream_step ops i r result st = Some Terminated \<or>
    (\<exists>st'. stream_step ops i r result st = Some (Returned st') \<and>
      (ss_spc st \<noteq> SFinished \<longrightarrow> steps_left (\<mu> result (ss_world st')) (ss_spc st') < steps_left (\<mu> result (ss_world st)) (ss_spc st)))"
proof (cases "ss_spc st")
  case (SWrite ws pc)
  then show ?thesis by (cases ws) (auto simp: stream_step_def ss_write_def split: prod.splits bool.splits)
next
  case SLoop
  obtain w' x where x: "next_chunk ops result (ss_world st) = Some (w', x)"
      "\<And>rows. x = Inr rows \<Longrightarrow> \<mu> result w' \<le> \<mu> result (ss_world st) \<and> (rows \<noteq> [] \<longrightarrow> \<mu> result w' < \<mu> result (ss_world st))"
    using chunk_rows_returns [OF assms, of result batch_size fresh_row "ss_world st"] unfolding next_chunk_def by blast
  show ?thesis
  proof (cases "ss_cancelled st \<or> (\<exists>e. x = Inl e)")
    case True
    then show ?thesis using SLoop x(1) by (auto simp: stream_step_def length_pong_writes)
  next
    case False
    then obtain rows where "x = Inr rows" by (cases x) auto
    then show ?thesis using SLoop x False
      by (cases rows) (auto simp: stream_step_def length_pong_writes chunk_writes_def)
  qed
qed (simp_all add: stream_step_def)

lemma join_stream_returns:
  assumes "engine_returns ops \<mu>"
  shows "\<exists>x. join_stream ops i r result st = Some x"
proof (induction "steps_left (\<mu> result (ss_world st)) (ss_spc st)" arbitrary: st rule: less_induct)
  case less
  show ?case
    using stream_step_returns [OF assms, of i r result st] less by (subst join_stream.simps) auto
qed

lemma run_schedule_returns:
  assumes "engine_returns ops \<mu>"
  shows "\<exists>x. run_schedule ops i r result sched st = Some x"
proof (induction sched arbitrary: st)
  case (Cons b sched)
  have "\<exists>x. (if b then stream_step ops i r result st else Some (cancel_step i st)) = Some x"
    using stream_step_returns [OF assms, of i r result st] by auto
  then show ?case using Cons.IH by (auto split: run.split simp del: if_split)
qed simp

lemma handle_stream_returns:
  assumes "engine_returns ops \<mu>"
  shows "\<exists>x. handle_stream ops sched i r result s = Some x"
  unfolding handle_stream_def Let_def
  using run_schedule_returns [OF assms, of i r result sched] join_stream_returns [OF assms, of i r result]
  by (auto split: option.split run.split) (metis option.discI)+

abbreviation input_left :: "conn \<Rightarrow> nat" where
  "input_left cn \<equiv> length (sk_input (cn_socket cn))"

lemma send_full_input: "send_full bs sk = (b, sk') \<Longrightarrow> sk_input sk' = sk_input sk"
  by (auto simp: send_full_def split: if_splits)

lemma send_writes_input: "send_writes ws sk = (x, sk') \<Longrightarrow> sk_input sk' = sk_input sk"
  by (induction ws arbitrary: sk) (auto split: prod.splits bool.splits dest: send_full_input)

lemma send_input: "send m s = Returned s' \<Longrightarrow> input_left (snd s') = input_left (snd s)"
  by (auto simp: send_def send_message_def dest: send_writes_input split: prod.splits option.splits)

lemma send_pong_stops: "send_pong_and_stop i c r e s = Returned s' \<Longrightarrow> cn_stop (snd s')"
  by (auto simp: send_pong_and_stop_def close_and_stop_def Let_def split: run.splits)

lemma errors_stop:
  "no_session i r s = Returned s' \<Longrightarrow> cn_stop (snd s')" "sql_error ops i r e s = Returned s' \<Longrightarrow> cn_stop (snd s')"
  "attach_error ops i r e s = Returned s' \<Longrightarrow> cn_stop (snd s')" "protocol_violation r s = Returned s' \<Longrightarrow> cn_stop (snd s')"
  by (auto simp: no_session_def sql_error_def attach_error_def protocol_violation_def dest: send_pong_stops split: exn.splits)

lemma stream_step_input: "stream_step ops i r result st = Some (Returned st') \<Longrightarrow> input_left (ss_conn st') = input_left (ss_conn st)"
  by (auto simp: stream_step_def ss_write_def dest: send_full_input
      split: stream_pc.splits list.splits option.splits prod.splits bool.splits sum.splits if_splits)

lemma receive_message_input: "receive_message sk = (x, sk') \<Longrightarrow> length (sk_input sk') \<le> length (sk_input sk)"
  by (auto simp: receive_message_def receive_full_def Let_def split: prod.splits option.splits if_splits)

lemma cancel_step_input: "cancel_step i st = Returned st' \<Longrightarrow> input_left (ss_conn st') \<le> input_left (ss_conn st)"
  by (auto simp: cancel_step_def ss_write_def Let_def dest: send_full_input receive_message_input
      split: cancel_pc.splits list.splits option.splits prod.splits bool.splits outcome.splits net_message.splits if_splits)

lemma run_schedule_input:
  "run_schedule ops i r result sched st = Some (Returned st') \<Longrightarrow> input_left (ss_conn st') \<le> input_left (ss_conn st)"
proof (induction sched arbitrary: st)
  case (Cons b sched)
  then obtain st1 where st1: "(if b then stream_step ops i r result st else Some (cancel_step i st)) = Some (Returned st1)"
      "run_schedule ops i r result sched st1 = Some (Returned st')"
    by (auto split: option.splits run.splits simp del: if_split)
  have "input_left (ss_conn st1) \<le> input_left (ss_conn st)"
    using st1(1) by (auto split: if_splits dest: stream_step_input cancel_step_input)
  with Cons.IH [OF st1(2)] show ?case by simp
qed simp

lemma join_stream_input:
  assumes "join_stream ops i r result st = Some (Returned st')"
  shows "input_left (ss_conn st') \<le> input_left (ss_conn st)"
proof -
  have "\<forall>st'. x = Returned st' \<longrightarrow> input_left (ss_conn st') \<le> input_left (ss_conn st)"
    if "join_stream ops i r result st = Some x" for x
  proof (rule join_stream.raw_induct [OF _ that,
        of "\<lambda>ops i r result st x. \<forall>st'. x = Returned st' \<longrightarrow> input_left (ss_conn st') \<le> input_left (ss_conn st)"], goal_cases)
    case (1 self ops i r result st x)
    show ?case
    proof (cases "ss_spc st = SFinished")
      case False
      then show ?thesis using 1 stream_step_input [of ops i r result st]
        by (auto split: option.splits run.splits) fastforce
    qed (use 1(2) in auto)
  qed
  then show ?thesis using assms by blast
qed

lemma join_cancel_input: "join_cancel i st = Returned st' \<Longrightarrow> input_left (ss_conn st') \<le> input_left (ss_conn st)"
proof (induction i st rule: join_cancel.induct)
  case (1 i st)
  show ?case
  proof (cases "ss_cpc st = CFinished")
    case True
    then show ?thesis using 1(2) by (simp add: join_cancel.simps)
  next
    case False
    then obtain st1 where st1: "cancel_step i st = Returned st1" "join_cancel i st1 = Returned st'"
      using 1(2) by (subst (asm) join_cancel.simps) (auto split: run.splits)
    then show ?thesis using 1(1) [OF False st1] cancel_step_input [OF st1(1)] by simp
  qed
qed

lemma handle_stream_input:
  "handle_stream ops sched i r result s = Some (Returned st) \<Longrightarrow> input_left (ss_conn st) \<le> input_left (snd s)"
  unfolding handle_stream_def Let_def
  by (fastforce split: option.splits run.splits dest!: run_schedule_input join_stream_input join_cancel_input)

lemma catch_input:
  assumes "(case send m s of Threw e s' \<Rightarrow> Some (h e s') | r \<Rightarrow> Some r) = Some (Returned s'')"
    and "\<And>e s' s''. h e s' = Returned s'' \<Longrightarrow> cn_stop (snd s'')"
  shows "cn_stop (snd s'') \<or> input_left (snd s'') \<le> input_left (snd s)"
  using assms send_input [of m s s''] by (cases "send m s") auto

lemma catch_sql_error:
  "(case send m s of Threw e s' \<Rightarrow> Some (sql_error ops i r e s') | r \<Rightarrow> Some r) = Some (Returned s'') \<Longrightarrow>
   cn_stop (snd s'') \<or> input_left (snd s'') \<le> input_left (snd s)"
  by (erule catch_input) (rule errors_stop)

lemma catch_attach_error:
  "(case send m s of Threw e s' \<Rightarrow> Some (attach_error ops i r e s') | r \<Rightarrow> Some r) = Some (Returned s'') \<Longrightarrow>
   cn_stop (snd s'') \<or> input_left (snd s'') \<le> input_left (snd s)"
  by (erule catch_input) (rule errors_stop)

lemma set_world_conn [simp]: "snd (set_world w s) = snd s"
  by (simp add: set_world_def)

lemma dispatch_input:
  assumes "dispatch ops sched m s = Some (Returned s')"
  shows "cn_stop (snd s') \<or> input_left (snd s') \<le> input_left (snd s)"
proof (cases m)
  case (QueryNetMessage i r q)
  then show ?thesis using assms
    by (auto simp: dispatch_def handle_query_message_def dest: errors_stop handle_stream_input
        split: option.splits prod.splits sum.splits run.splits)
next
  case (CreateDbNetMessage i r n)
  then show ?thesis using assms
    by (auto simp: dispatch_def handle_create_db_message_def send_success_def split: option.splits
        dest: errors_stop dest!: catch_sql_error catch_attach_error)
next
  case (AttachDbNetMessage i r n)
  then show ?thesis using assms
    by (auto simp: dispatch_def handle_attach_db_message_def send_success_def split: option.splits
        dest: errors_stop dest!: catch_sql_error catch_attach_error)
next
  case (CloseNetMessage i r)
  then show ?thesis using assms
    by (auto simp: dispatch_def handle_close_message_def close_and_stop_def dest: errors_stop split: option.splits)
qed (use assms in \<open>auto simp: dispatch_def dest: errors_stop\<close>)

text \<open>Every message that is handled uses up input, so that the loop over the messages of a client ends.\<close>

lemma handle_message_progress:
  assumes "handle_message ops sched s = Some (Returned s')"
  shows "cn_stop (snd s') \<or> input_left (snd s') < input_left (snd s)"
proof (cases "receive_message (cn_socket (snd s))")
  case (Pair x sk)
  show ?thesis
  proof (cases x)
    case None
    then show ?thesis using assms Pair by (auto simp: handle_message_def close_and_stop_def)
  next
    case (Some bs)
    have "length (sk_input sk) < input_left (snd s)" using receive_message_consumes(1) [of "cn_socket (snd s)"] Pair Some by simp
    then show ?thesis
      using assms Pair Some dispatch_input [of ops sched _ "(fst s, (snd s)\<lparr>cn_socket := sk\<rparr>)" s']
      by (fastforce simp: handle_message_def split: outcome.splits)
  qed
qed

lemma handle_message_returns:
  assumes "engine_returns ops \<mu>"
  shows "\<exists>x. handle_message ops sched s = Some x"
proof -
  have q: "\<exists>x. handle_query_message ops sched i r q s = Some x" for i r q and s :: "('a, 'c) state"
  proof (cases "get_session (fst s) i")
    case (Some e)
    obtain w x where x: "eo_execute_query ops e q (sv_world (fst s)) = Some (w, x)"
      using assms unfolding engine_returns_def by (metis option.exhaust surj_pair)
    show ?thesis
    proof (cases x)
      case (Inr result)
      obtain y where "handle_stream ops sched i r result (w, snd s) = Some y" using handle_stream_returns [OF assms] by blast
      then show ?thesis using Some x Inr by (cases y) (simp_all add: handle_query_message_def)
    qed (use Some x in \<open>simp add: handle_query_message_def\<close>)
  qed (simp add: handle_query_message_def)
  have c: "\<exists>x. handle_create_db_message ops i r n s = Some x" "\<exists>x. handle_attach_db_message ops i r n s = Some x" for i r n and s :: "('a, 'c) state"
  proof -
    have "\<exists>w x. eo_create_db ops e c w0 = Some (w, x)" "\<exists>w x. eo_attach_db ops e n w0 = Some (w, x)" for e c w0
      using assms unfolding engine_returns_def by (metis option.exhaust surj_pair)+
    then show "\<exists>x. handle_create_db_message ops i r n s = Some x" "\<exists>x. handle_attach_db_message ops i r n s = Some x"
      unfolding handle_create_db_message_def handle_attach_db_message_def
      by (auto split: option.split run.split) (metis option.discI)+
  qed
  have d: "\<exists>x. dispatch ops sched m s = Some x" for m and s :: "('a, 'c) state"
    using q c by (cases m) (simp_all add: dispatch_def)
  show ?thesis
    unfolding handle_message_def using d by (auto split: prod.split option.split outcome.split)
qed

lemma client_loop_returns:
  assumes "engine_returns ops \<mu>"
  shows "\<exists>x. client_loop ops scheds n s = Some x"
proof (induction "if cn_stop (snd s) then 0 else Suc (input_left (snd s))" arbitrary: n s rule: less_induct)
  case less
  show ?case
  proof (cases "sv_running (fst s) \<and> \<not> cn_stop (snd s)")
    case True
    obtain x where x: "handle_message ops (scheds n) s = Some x" using handle_message_returns [OF assms] by blast
    show ?thesis
    proof (cases x)
      case (Returned s')
      with x handle_message_progress have "cn_stop (snd s') \<or> input_left (snd s') < input_left (snd s)" by blast
      then have "\<exists>x. client_loop ops scheds (Suc n) s' = Some x" using True by (intro less) auto
      then show ?thesis using True x Returned by (subst client_loop.simps) simp
    qed (use True x in \<open>subst client_loop.simps, simp\<close>)+
  next
    case False
    then show ?thesis by (subst client_loop.simps) auto
  qed
qed

section \<open>A client that stops reading\<close>

definition stuck :: "conn \<Rightarrow> bool" where
  "stuck cn \<longleftrightarrow> sk_room (cn_socket cn) < 4"

lemma send_full_stuck: "length bs \<ge> 4 \<Longrightarrow> sk_room sk < 4 \<Longrightarrow> \<exists>sk'. send_full bs sk = (False, sk') \<and> sk_room sk' < 4"
  by (auto simp: send_full_def)

lemma send_stuck:
  assumes "stuck (snd s)"
  shows "\<exists>e s'. send m s = Threw e s' \<and> stuck (snd s')"
proof -
  obtain sk' where "send_full (le_bytes 4 (htonl (word_of_nat (length (encode_message m))))) (cn_socket (snd s)) = (False, sk')" "sk_room sk' < 4"
    using send_full_stuck assms by (metis length_le_bytes order_refl stuck_def)
  then show ?thesis by (auto simp: send_def send_message_def message_writes_def Let_def stuck_def simp del: encode_message.simps)
qed

primrec no_return :: "'s run \<Rightarrow> bool" where
  "no_return (Returned s) = False"
| "no_return (Threw e s) = True"
| "no_return Terminated = True"

lemma pong_stuck:
  assumes "stuck (snd s)"
  shows "no_return (send_pong_and_stop i c r t s)"
proof -
  obtain e s' where "send (PongNetMessage i c r (if t \<noteq> [] \<and> c \<noteq> NE_SUCCESS then bytes_of_string t else [])) s = Threw e s'"
    using send_stuck [OF assms] by blast
  then show ?thesis unfolding send_pong_and_stop_def Let_def by simp
qed

lemma errors_stuck:
  assumes "stuck (snd s)"
  shows "no_return (no_session i r s)" "no_return (sql_error ops i r x s)"
    "no_return (attach_error ops i r x s)" "no_return (protocol_violation r s)"
  using pong_stuck [OF assms]
  by (simp_all add: no_session_def sql_error_def attach_error_def protocol_violation_def split: exn.split)

text \<open>The streaming thread cannot start, and the cancelling thread cannot answer.\<close>

definition stream_stuck :: "uuid \<Rightarrow> request_id \<Rightarrow> 'w stream \<Rightarrow> bool" where
  "stream_stuck i r st \<longleftrightarrow> stuck (ss_conn st) \<and> ss_spc st = SWrite (pong_writes i NE_START_STREAM r []) SSchema \<and>
     (\<forall>w ws. ss_cpc st = CWrite (w # ws) \<longrightarrow> length (fst w) \<ge> 4) \<and> ss_cpc st \<noteq> CWrite []"

lemma ss_write_stuck: "stuck (ss_conn st) \<Longrightarrow> length (fst w) \<ge> 4 \<Longrightarrow> ss_write w st = None"
  using send_full_stuck [of "fst w" "cn_socket (ss_conn st)"] by (auto simp: ss_write_def stuck_def)

lemma stream_step_stuck: "stream_stuck i r st \<Longrightarrow> stream_step ops i r result st = Some Terminated"
  using ss_write_stuck [of st] by (simp add: stream_stuck_def stream_step_def pong_writes_split del: encode_message.simps)

lemma cancel_step_stuck:
  assumes "stream_stuck i r st"
  shows "cancel_step i st = Terminated \<or> (\<exists>st'. cancel_step i st = Returned st' \<and> stream_stuck i r st')"
proof (cases "ss_cpc st")
  case CReceive
  obtain x sk where x: "receive_message (cn_socket (ss_conn st)) = (x, sk)" by fastforce
  have room: "sk_room sk < 4"
    using assms x by (auto simp: stream_stuck_def stuck_def receive_message_def receive_full_def Let_def
        split: prod.splits option.splits if_splits)
  show ?thesis
  proof (cases x)
    case None
    then show ?thesis using CReceive x room assms by (simp add: cancel_step_def stream_stuck_def stuck_def)
  next
    case (Some bs)
    have "list_all (\<lambda>w. length (fst w) \<ge> 4) (pong_writes i c q [])" for c q
      using length_empty_pong [of i c q] by (simp add: pong_writes_split del: encode_message.simps)
    then have ok: "\<forall>w ws. pong_writes i c q [] = w # ws \<longrightarrow> length (fst w) \<ge> 4" for c q by (metis list.pred_inject(2))
    show ?thesis using CReceive x Some room assms ok writes_nonempty(2)
      by (auto simp: cancel_step_def stream_stuck_def stuck_def Let_def split: outcome.split net_message.split)
  qed
next
  case (CWrite ws)
  then obtain w ws' where "ws = w # ws'" "length (fst w) \<ge> 4" using assms by (cases ws) (auto simp: stream_stuck_def)
  then show ?thesis using CWrite ss_write_stuck [of st w] assms by (simp add: cancel_step_def stream_stuck_def)
next
  case CFinished
  then show ?thesis using assms by (simp add: cancel_step_def)
qed

lemma run_schedule_stuck:
  "stream_stuck i r st \<Longrightarrow> run_schedule ops i r result sched st = Some Terminated \<or>
   (\<exists>st'. run_schedule ops i r result sched st = Some (Returned st') \<and> stream_stuck i r st')"
proof (induction sched arbitrary: st)
  case (Cons b sched)
  from cancel_step_stuck [OF Cons.prems] show ?case
  proof (elim disjE exE conjE)
    fix st' assume "cancel_step i st = Returned st'" "stream_stuck i r st'"
    then show ?thesis using Cons.IH [of st'] stream_step_stuck [OF Cons.prems, of ops result] by (cases b) simp_all
  qed (use stream_step_stuck [OF Cons.prems, of ops result] in simp)
qed simp

lemma handle_stream_stuck:
  assumes "stuck (snd s)"
  shows "handle_stream ops sched i r result s = Some Terminated"
proof -
  let ?st = "\<lparr>ss_conn = snd s, ss_world = fst s, ss_cancelled = False, ss_schema = [],
    ss_spc = SWrite (pong_writes i NE_START_STREAM r []) SSchema, ss_cpc = CReceive\<rparr>"
  have "stream_stuck i r ?st" using assms by (simp add: stream_stuck_def)
  from run_schedule_stuck [OF this, of ops result sched] show ?thesis
  proof (elim disjE exE conjE)
    fix st' assume "run_schedule ops i r result sched ?st = Some (Returned st')" "stream_stuck i r st'"
    moreover from this(2) have "join_stream ops i r result st' = Some Terminated"
      by (subst join_stream.simps) (simp add: stream_step_stuck, simp add: stream_stuck_def)
    ultimately show ?thesis by (simp add: handle_stream_def)
  qed (simp add: handle_stream_def)
qed

lemma catch_stuck:
  assumes "stuck (snd s)" and "\<And>e t. stuck (snd t) \<Longrightarrow> no_return (h e t)"
    and "(case send p (set_world w s) of Threw e t \<Rightarrow> Some (h e t) | y \<Rightarrow> Some y) = Some x"
  shows "no_return x"
proof -
  obtain e t where "send p (set_world w s) = Threw e t" "stuck (snd t)"
    using send_stuck [of "set_world w s" p] assms(1) by auto
  then show ?thesis using assms(2) [of t e] assms(3) by auto
qed

lemma dispatch_stuck:
  assumes "stuck (snd s)" and "\<And>i r. m \<noteq> CloseNetMessage i r" and "dispatch ops sched m s = Some x"
  shows "no_return x"
proof -
  note error = errors_stuck [OF assms(1)] errors_stuck [of "set_world w s" for w, simplified, OF assms(1)]
  show ?thesis
  proof (cases m)
    case (QueryNetMessage i r q)
    then show ?thesis using assms(1,3)
      by (auto simp: dispatch_def handle_query_message_def handle_stream_stuck error split: option.splits sum.splits)
  next
    case (CreateDbNetMessage i r n)
    then show ?thesis using assms(3)
      by (auto simp: dispatch_def handle_create_db_message_def send_success_def error split: option.splits
          intro: catch_stuck [OF assms(1) errors_stuck(2)])
  next
    case (AttachDbNetMessage i r n)
    then show ?thesis using assms(3)
      by (auto simp: dispatch_def handle_attach_db_message_def send_success_def error split: option.splits
          intro: catch_stuck [OF assms(1) errors_stuck(3)])
  qed (use assms(2,3) error in \<open>auto simp: dispatch_def\<close>)
qed

section \<open>Properties\<close>

text \<open>An engine whose queries deliver the rows the world consists of.\<close>

definition sample_engine :: "(unit, unit, data_row list) engine_ops" where
  "sample_engine = \<lparr>eo_new = \<lambda>w. (w, Inr ()), eo_execute_query = \<lambda>_ _ w. Some (w, Inr ()),
     eo_create_db = \<lambda>_ _ w. Some (w, None), eo_attach_db = \<lambda>_ n w. Some (w, Some (DbDoesntExists n)),
     eo_output_schema = \<lambda>_ _. [],
     eo_next = \<lambda>_ row w. case w of [] \<Rightarrow> Some ([], Inr (False, row)) | x # xs \<Rightarrow> Some (xs, Inr (True, x)),
     eo_what = \<lambda>_. [], eo_executable_path = []\<rparr>"

lemma sample_delivers: "delivers sample_engine () w w []"
  by (induction w) (auto intro!: delivers.intros simp: sample_engine_def)

lemma sample_returns: "engine_returns sample_engine (\<lambda>_ w. length w)"
  by (auto simp: engine_returns_def sample_engine_def split: list.split)

definition sample_conn :: "net_message list \<Rightarrow> nat \<Rightarrow> conn" where
  "sample_conn ms room = \<lparr>cn_socket = \<lparr>sk_input = net_frames ms, sk_output = [], sk_room = room, sk_valid = True\<rparr>, cn_stop = False\<rparr>"

definition sample_server :: "'w \<Rightarrow> (unit, 'w) server" where
  "sample_server w = \<lparr>sv_sessions = [7 \<mapsto> ()], sv_running = True, sv_world = w\<rparr>"

text \<open>C30: a query is answered with all rows of its result, in order, in chunks of at most 1024 rows between a message that
  starts and one that ends the stream, however the two threads that serve it are scheduled. The message the client sends
  after the query is taken off the connection and dropped.\<close>

theorem query_streams_result:
  assumes "sv_sessions sv i = Some engine" and "eo_execute_query ops engine q (sv_world sv) = Some (w, Inr result)"
    and "delivers ops result w rows w'"
    and "sk_valid (cn_socket cn)" and "sk_input (cn_socket cn) = net_frames [QueryNetMessage i r q, m] @ inp"
    and "message_ok m" and "\<forall>r'. m \<noteq> CancelStreamMessage i r'" and "length q \<le> max_alloc"
    and "length (encode_message (QueryNetMessage i r q)) \<le> unat MAX_INCOMING_LEN" and "length (encode_message m) \<le> unat MAX_INCOMING_LEN"
    and "length (net_frames (stream_messages i r (eo_output_schema ops result w) rows)) \<le> sk_room (cn_socket cn)"
  shows "\<exists>sv' cn'. handle_message ops sched (sv, cn) = Some (Returned (sv', cn')) \<and>
    sk_output (cn_socket cn') = sk_output (cn_socket cn) @ net_frames (stream_messages i r (eo_output_schema ops result w) rows) \<and>
    sk_input (cn_socket cn') = inp \<and> sv_sessions sv' = sv_sessions sv \<and> sv_world sv' = w' \<and> cn_stop cn' = cn_stop cn \<and>
    concat (chunks rows) = rows \<and> list_all (\<lambda>c. c \<noteq> [] \<and> length c \<le> batch_size) (chunks rows)"
proof -
  let ?cn = "cn\<lparr>cn_socket := (cn_socket cn)\<lparr>sk_input := net_frame (encode_message m) @ inp\<rparr>\<rparr>"
  have in_q: "sk_input (cn_socket cn) = net_frame (encode_message (QueryNetMessage i r q)) @ (net_frame (encode_message m) @ inp)"
    using assms(5) by (simp add: net_frames_def del: encode_message.simps)
  have 1: "handle_message ops sched (sv, cn) = handle_query_message ops sched i r q (sv, ?cn)"
    using handle_message_frame [OF assms(4) in_q _ assms(9)] assms(8) by (simp add: dispatch_def)
  have harmless: "harmless i (encode_message m)"
    using parse_encoded [OF assms(6,10)] assms(7,10) by (simp add: harmless_def)
  have "\<exists>st. handle_stream ops sched i r result (w, ?cn) = Some (Returned st) \<and> ss_world st = w' \<and>
      ss_conn st = has_sent inp (stream_bytes ops i r result w rows) ?cn"
    by (rule handle_stream_delivers [OF assms(3) harmless]) (use assms(4,11) in \<open>simp_all add: stream_bytes_frames\<close>)
  then obtain st where "handle_stream ops sched i r result (w, ?cn) = Some (Returned st)" "ss_world st = w'"
      "ss_conn st = has_sent inp (stream_bytes ops i r result w rows) ?cn" by blast
  then show ?thesis using 1 assms(1,2) chunks_bounded
    by (auto simp: handle_query_message_def get_session_def stream_bytes_frames concat_chunks list_all_iff)
qed

theorem query_streams_result_witness:
  "\<exists>sv' cn'. handle_message sample_engine [False, True, True, False]
       (sample_server [fresh_row], sample_conn [QueryNetMessage 7 1 ''a'', PingNetMessage 2] 1000) = Some (Returned (sv', cn')) \<and>
     sk_output (cn_socket cn') = net_frames (stream_messages 7 1 [] [fresh_row]) \<and> sk_input (cn_socket cn') = []"
proof -
  have len: "length (net_frames (stream_messages 7 1 [] [fresh_row])) \<le> 1000"
    by (simp add: net_frames_def stream_messages_def chunks.simps batch_size_def net_frame_bytes stream_simps serialize_result_bytes
        fresh_row_def tokens_bytes_def u64_bytes_def)
  have "\<exists>sv' cn'. handle_message sample_engine [False, True, True, False]
       (sample_server [fresh_row], sample_conn [QueryNetMessage 7 1 ''a'', PingNetMessage 2] 1000) = Some (Returned (sv', cn')) \<and>
     sk_output (cn_socket cn') = sk_output (cn_socket (sample_conn [QueryNetMessage 7 1 ''a'', PingNetMessage 2] 1000)) @
       net_frames (stream_messages 7 1 (eo_output_schema sample_engine () [fresh_row]) [fresh_row]) \<and>
     sk_input (cn_socket cn') = [] \<and> sv_sessions sv' = sv_sessions (sample_server [fresh_row]) \<and> sv_world sv' = [] \<and>
     cn_stop cn' = cn_stop (sample_conn [QueryNetMessage 7 1 ''a'', PingNetMessage 2] 1000) \<and>
     concat (chunks [fresh_row]) = [fresh_row] \<and> list_all (\<lambda>c. c \<noteq> [] \<and> length c \<le> batch_size) (chunks [fresh_row])"
    by (rule query_streams_result [where q = "''a''" and m = "PingNetMessage 2" and engine = "()"])
      (use len sample_delivers [of "[fresh_row]"] in \<open>auto simp: sample_server_def sample_conn_def sample_engine_def max_alloc_def
        MAX_INCOMING_LEN_def stream_simps\<close>)
  then show ?thesis by (auto simp: sample_conn_def sample_engine_def)
qed

text \<open>C31: in every state the server can reach, whatever its clients send and however their threads alternate, each
  session belongs to a client that is still served; a client that has left leaves no session behind.\<close>

theorem sessions_invariant:
  assumes "server_reachable ops w s"
  shows "\<forall>i \<in> dom (sv_sessions (sys_server s)). \<exists>cn. Serving i cn \<in> set (sys_clients s)"
proof -
  from assms have "sessions_served s"
  proof induction
    case start
    show ?case by (simp add: sessions_served_def)
  next
    case (step s s')
    then show ?case using server_step_served by blast
  qed
  then show ?thesis by (simp add: sessions_served_def)
qed

definition greeted_system :: "(unit, data_row list) system" where
  "greeted_system = \<lparr>sys_server = \<lparr>sv_sessions = [7 \<mapsto> ()], sv_running = True, sv_world = []\<rparr>,
     sys_clients = [Serving 7 (has_sent [] (net_frames [PongNetMessage 7 NE_SUCCESS 1 []]) (sample_conn [PingNetMessage 1] 100))]\<rparr>"

theorem sessions_invariant_witness:
  "server_reachable sample_engine [] greeted_system \<and> (\<exists>cn. Serving 7 cn \<in> set (sys_clients greeted_system))"
proof -
  let ?sv = "\<lparr>sv_sessions = \<lambda>_. None, sv_running = True, sv_world = []\<rparr> :: (unit, data_row list) server"
  let ?cn = "sample_conn [PingNetMessage 1] 100"
  let ?ping = "encode_message (PingNetMessage 1)"
  have ping: "parse_message ?ping = Done (PingNetMessage 1)" "length ?ping \<le> unat MAX_INCOMING_LEN"
    using parse_encoded [of "PingNetMessage 1"] by (simp_all add: MAX_INCOMING_LEN_def stream_simps)
  have "receive_message (cn_socket ?cn) = (Some ?ping, (cn_socket ?cn)\<lparr>sk_input := []\<rparr>)"
    by (rule receive_frame) (use ping(2) in \<open>simp_all add: sample_conn_def net_frames_def\<close>)
  moreover have "send_message (encode_message (PongNetMessage 7 NE_SUCCESS 1 [])) ((cn_socket ?cn)\<lparr>sk_input := []\<rparr>) =
      (None, cn_socket (has_sent [] (net_frames [PongNetMessage 7 NE_SUCCESS 1 []]) ?cn))"
    using send_message_room [of "(cn_socket ?cn)\<lparr>sk_input := []\<rparr>" "encode_message (PongNetMessage 7 NE_SUCCESS 1 [])"]
    by (simp add: length_empty_pong sample_conn_def net_frames_def has_sent_def del: encode_message.simps)
  ultimately have "greet sample_engine 7 (?sv, ?cn) = Some (Inr (sys_server greeted_system,
      has_sent [] (net_frames [PongNetMessage 7 NE_SUCCESS 1 []]) ?cn))"
    using ping(1) by (simp add: greet_def open_session_def send_def sample_engine_def greeted_system_def has_sent_def sample_conn_def
        del: encode_message.simps)
  from server_step.accepted [OF _ this, of "[]"]
  have "server_step sample_engine \<lparr>sys_server = ?sv, sys_clients = []\<rparr> greeted_system" by (simp add: greeted_system_def)
  from server_reachable.step [OF server_reachable.start this]
  have reach: "server_reachable sample_engine [] greeted_system" .
  have "7 \<in> dom (sv_sessions (sys_server greeted_system))" by (simp add: greeted_system_def)
  with sessions_invariant [OF reach] reach show ?thesis by blast
qed





text \<open>C34: the answer to a cancellation is written without the lock under which chunks are sent, and every message in two
  writes. There is a schedule under which both threads' messages are mixed: the first message the client then reads
  is none of those the server sent.\<close>

theorem cancel_tears_frames:
  assumes "sk_valid (cn_socket cn)" and "sk_input (cn_socket cn) = net_frames [CancelStreamMessage i c] @ inp"
    and "sk_output (cn_socket cn) = []" and "102 \<le> sk_room (cn_socket cn)"
  shows "\<exists>sched st bs sk. handle_stream ops sched i r result (w, cn) = Some (Returned st) \<and>
    receive_message \<lparr>sk_input = sk_output (cn_socket (ss_conn st)), sk_output = [], sk_room = 0, sk_valid = True\<rparr> = (Some bs, sk) \<and>
    parse_message bs = Done protocol_violation_message"
  supply encode_message.simps [simp del]
proof -
  let ?pong = "encode_message (PongNetMessage i NE_SUCCESS c [])" and ?fin = "encode_message (PongNetMessage i NE_END_STREAM r [])"
  let ?start = "encode_message (PongNetMessage i NE_START_STREAM r [])" and ?hdr = "le_bytes 4 (htonl 30)"
  let ?st = "\<lparr>ss_conn = has_sent inp (?hdr @ ?hdr @ ?pong) cn, ss_world = w, ss_cancelled = True, ss_schema = [],
       ss_spc = SWrite [(?start, ''Failed to write message body'')] SSchema, ss_cpc = CFinished\<rparr>"
  let ?out = "(?hdr @ ?hdr @ ?pong) @ ?start @ net_frame ?fin"
  have "\<exists>st'. join_stream ops i r result ?st = Some (Returned st') \<and> ss_cpc st' = CFinished \<and> ss_conn st' = has_sent inp ?out cn"
    using join_cancelled [of ?st inp "?hdr @ ?hdr @ ?pong" cn "[(?start, ''Failed to write message body'')]" i r ops result] assms(1,4)
    by (simp add: length_empty_pong)
  then obtain st' where st': "join_stream ops i r result ?st = Some (Returned st')" "ss_cpc st' = CFinished" "ss_conn st' = has_sent inp ?out cn"
    by blast
  have "handle_stream ops [True, False, False, False, False] i r result (w, cn) = Some (Returned (st'\<lparr>ss_cancelled := True\<rparr>))"
    using torn_schedule [OF assms(1) _ assms(4), of i c inp ops r result w] assms(2) st'
    by (simp add: handle_stream_def join_cancel.simps net_frames_def)
  moreover have "receive_message \<lparr>sk_input = ?out, sk_output = [], sk_room = 0, sk_valid = True\<rparr> =
      (Some (?hdr @ take 26 ?pong), \<lparr>sk_input = drop 26 ?pong @ ?start @ net_frame ?fin, sk_output = [], sk_room = 0, sk_valid = True\<rparr>)"
    using receive_frame [of "\<lparr>sk_input = ?out, sk_output = [], sk_room = 0, sk_valid = True\<rparr>" "?hdr @ take 26 ?pong"
        "drop 26 ?pong @ ?start @ net_frame ?fin"]
    by (simp add: net_frame_bytes length_empty_pong MAX_INCOMING_LEN_def)
  moreover have "parse_message (?hdr @ take 26 ?pong) = Done protocol_violation_message"
    using parse_unknown_type by (simp add: hdr_zero length_empty_pong max_alloc_def)
  moreover have "sk_output (cn_socket (ss_conn (st'\<lparr>ss_cancelled := True\<rparr>))) = ?out" using st'(3) assms(3) by simp
  ultimately show ?thesis by metis
qed

theorem cancel_tears_frames_witness:
  "\<exists>sched st bs sk. handle_stream sample_engine sched 7 1 () ([], sample_conn [CancelStreamMessage 7 2] 200) = Some (Returned st) \<and>
    receive_message \<lparr>sk_input = sk_output (cn_socket (ss_conn st)), sk_output = [], sk_room = 0, sk_valid = True\<rparr> = (Some bs, sk) \<and>
    parse_message bs = Done protocol_violation_message"
  by (rule cancel_tears_frames [where inp = "[]" and c = 2]) (simp_all add: sample_conn_def)

end
