(* ===== verification/Spec2Isabelle.thy ===== *)
theory Spec2Isabelle
  imports Engine Net_Server
begin

text \<open>
  A verification library for DeltaBase, a relational database server written in C++
  (\<^verbatim>\<open>src/deltabase/src\<close>).

  \<^bold>\<open>The program.\<close> A query is split into tokens (\<^verbatim>\<open>sql/lexer.cpp\<close>), parsed, analysed, planned and executed
  against a database instance. The instance keeps rows in data pages that a buffer pool caches
  (\<^verbatim>\<open>storage/buffer_pool.cpp\<close>, \<^verbatim>\<open>misc/include/cache.hpp\<close>) and a storage manager stores in a directory tree
  (\<^verbatim>\<open>storage/file_io_manager.cpp\<close>), one file per page, descriptor and index. Every change is first logged
  (\<^verbatim>\<open>wal/file_wal_manager.cpp\<close>) under the transaction it belongs to (\<^verbatim>\<open>transactions/transaction.cpp\<close>). At start-up
  the recovery manager (\<^verbatim>\<open>recovery/recovery_manager.cpp\<close>) redoes the committed transactions and undoes the others.

  \<^bold>\<open>Conventions.\<close> A \<^verbatim>\<open>struct\<close> or class is a record, an \<^verbatim>\<open>enum\<close> or \<^verbatim>\<open>std::variant\<close> a datatype, a fixed-width
  integer a word of that width. An operation that may throw, return \<^verbatim>\<open>false\<close> or have undefined behaviour yields an
  \<open>outcome\<close> (\<open>Done\<close>, \<open>Raised\<close>, \<open>Failed\<close>, \<open>Undef\<close>); a loop that may run forever is a partial function into
  \<open>option\<close> and \<open>None\<close> stands for not returning. No definition uses fuel. Exception messages are kept without the
  values the code inserts into them. Operations of the log and of the storage manager hold a mutex for their whole
  duration and are therefore atomic; interleaving is modelled between operations, as step relations.

  \<^bold>\<open>The theories.\<close>

  \<^item> \<open>Db_Prelude\<close>: outcomes, the collections of simplification rules, byte lists and little-endian words, and the
    lemmas shared by all components.
  \<^item> \<open>Memory_Stream\<close>: \<^verbatim>\<open>misc/memory_stream.cpp\<close>, the two stream classes, readers as a monad, and the contract
    \<open>codec\<close> of an encoder with its decoder, which all serializers interpret.
  \<^item> \<open>Data_Token\<close>, \<open>Db_Types\<close>: \<^verbatim>\<open>types/\<close>, typed values with their comparisons, rows, pages, descriptors, index pages
    and the configuration.
  \<^item> \<open>Storage_Serializer\<close>: \<^verbatim>\<open>storage/std_storage_serializer.cpp\<close>. Every object is decoded from its encoding, whatever
    follows it, and a truncated page is rejected; the index file loses its page counter, the size estimate is too small.
  \<^item> \<open>Wal_Record\<close>, \<open>Wal_Serializer\<close>: \<^verbatim>\<open>types/include/wal_log.hpp\<close> and \<^verbatim>\<open>wal/std_wal_serializer.cpp\<close>, the 25 kinds of
    log records, with the round trip of their encoding.
  \<^item> \<open>Wal_Manager\<close>: \<^verbatim>\<open>wal/file_wal_manager.cpp\<close> on a device that may fill up or break off anywhere. An invariant of all
    reachable states; what was flushed is restored after a crash and a torn batch leaves a prefix; waiting for an LSN
    that was handed out returns. The contract of a log for its clients is the locale \<open>wal_log\<close>.
  \<^item> \<open>File_System\<close>: \<^verbatim>\<open>storage/file_utils.cpp\<close> on a tree of directories, with the contract \<open>named_store\<close>.
  \<^item> \<open>File_Io\<close>, \<open>File_Catalog\<close>: \<^verbatim>\<open>storage/file_io_manager.cpp\<close> on the layout of \<^verbatim>\<open>storage/include/path.hpp\<close>. Pages,
    tables and schemas are found by identifier wherever their directory is; what is written is read back and nothing
    else changes. The contract of the page store for the buffer pool and for recovery is the locale \<open>page_store\<close>.
  \<^item> \<open>Cache\<close>, \<open>Buffer_Pool\<close>: the page cache holds the most recently used pages (contract \<open>eviction_policy\<close>); reading
    through the pool is transparent, writing back is exact, and the pointers of \<^verbatim>\<open>get_table_data\<close> may dangle.
  \<^item> \<open>Transaction\<close>: transactions interleave on one log and one pool; the records of each form a chain, and a committed
    transaction is durable.
  \<^item> \<open>Recovery\<close>: the redo pass refines replaying the committed and compensating records on each page, exactly once and
    in order, and is idempotent; recovery returns and leaves no unfinished transaction.
  \<^item> \<open>Sql_Token\<close>, \<open>Sql_Ast\<close>, \<open>Sql_Lexer\<close>: \<^verbatim>\<open>types/include/sql_token.hpp\<close>, \<^verbatim>\<open>sql/include/dictionary.hpp\<close>,
    \<^verbatim>\<open>types/include/ast_tree.hpp\<close> and \<^verbatim>\<open>sql/lexer.cpp\<close>: printed tokens are lexed back, the lexer returns on its alphabet
    and hangs outside it.
  \<^item> \<open>Sql_Parser\<close>: \<^verbatim>\<open>sql/parser.cpp\<close>, a recursive-descent parser with operator priorities. Conditions and insertions are
    parsed back from their tokens; the parser returns without touching a null pointer unless the last token is an
    opening parenthesis or \<^verbatim>\<open>not\<close>, and an opening parenthesis there makes it recurse forever.
  \<^item> \<open>Index_Tree\<close>, \<open>Index_Search\<close>: \<^verbatim>\<open>storage/index_bplus_tree.cpp\<close> over the interface \<^verbatim>\<open>IIndexPager\<close> (locale \<open>index_pager\<close>) and its
    implementation \<^verbatim>\<open>storage/BP_index_pager.cpp\<close>. Insertion keeps the pages a balanced search tree with linked leaves and
    adds exactly its entry, lookup searches it; a split is undefined when the vector of pages moves.
  \<^item> \<open>Evaluator\<close>: \<^verbatim>\<open>executor/evaluator.cpp\<close>, conditions on rows.
  \<^item> \<open>Net_Protocol\<close>: \<^verbatim>\<open>network/std_protocol.cpp\<close> and \<^verbatim>\<open>network/query_result_serializer.cpp\<close>: messages and results are
    decoded from their encodings, every input of a client is answered, and the decoder for results returns nothing.
  \<^item> \<open>Net_Server\<close>: \<^verbatim>\<open>network/server.cpp\<close> and \<^verbatim>\<open>network/socket_handle.cpp\<close> over an interface to the engine. The two threads
    that serve a query are interleaved by a schedule, the connections by a step relation. A result is delivered
    completely under every schedule and connections end; cancelling a stream may mix messages, and a client that
    stops reading ends the process.

  \<^item> \<open>Db_Interface\<close>: the interface \<^verbatim>\<open>storage/include/db_instance.hpp\<close> between query execution and storage as a record of
    operations, plans (\<^verbatim>\<open>types/include/query_plan.hpp\<close>) and \<^verbatim>\<open>misc/convert.cpp\<close>. Its programs work on a state, may throw, be
    undefined or not return, and keep the changes made before an exception.
  \<^item> \<open>Semantic_Analyzer\<close>, \<open>Planner\<close>: \<^verbatim>\<open>executor/semantic_analyzer.cpp\<close> and \<^verbatim>\<open>executor/std_planner.cpp\<close>, for every kind of
    statement.
  \<^item> \<open>Node_Executor\<close>: \<^verbatim>\<open>executor/node_executor.cpp\<close>, plans turned into trees of executors that hand out rows one by one. What it
    relies on of a database instance is the locale \<open>row_source\<close>; in it, \<open>next\<close> is shown to take an executor through
    the rows it delivers. An INSERT runs in one transaction.
  \<^item> \<open>Catalog_Cache\<close>, \<open>Db_Instance\<close>: \<^verbatim>\<open>storage/catalog.cpp\<close> and \<^verbatim>\<open>storage/std_db_instance.cpp\<close>, the implementation of the
    interface by the buffer pool, the log, the catalog cache and the index trees.
  \<^item> \<open>Table_Scan\<close>: a scan hands out the live rows of the page chain whatever is evicted meanwhile; the database instance is a
    \<open>row_source\<close>.
  \<^item> \<open>Table_Update\<close>: what changes of a table do to later scans. A deletion takes exactly the rows with its identifiers out of every
    scan and keeps the count of live rows right; an update gives the new version of a row the identifier that the next inserted
    row gets too; a page chosen for a row exceeds its limit by little, as long as its recorded size is right.
  \<^item> \<open>Query_Types\<close>: what the analyzer's checks are worth. Accepted insertions build rows of the types of the columns, on which accepted
    comparisons of a column with a literal evaluate; other conditions it accepts throw.
  \<^item> \<open>Engine\<close>: \<^verbatim>\<open>engine/engine.cpp\<close> and \<^verbatim>\<open>storage/detached_db_instance.cpp\<close>, from the text of a query to its result. A SELECT
    without a column list refines the meaning of its plan; with one, its rows accumulate, and a streamed one is empty.

  \<^bold>\<open>Parameters.\<close> libuuid's conversions (\<open>uuid_lib\<close>, with the hypothesis that parsing inverts printing), the identifiers
  \<^verbatim>\<open>UUID::make()\<close> returns, the values of uninitialised variables (\<open>junk\<close>, \<open>old\<close>) and the iteration order of an
  \<^verbatim>\<open>unordered_map\<close> (\<open>order\<close>) are arguments. Objects are bounded by \<open>max_alloc\<close>, the largest object the
  allocator admits; exhaustion of memory below it is not modelled.

  \<^bold>\<open>Not modelled.\<close> The operating system's sockets, the command line client, the dump tools, logging, the line editor
  and the .NET client are input and output around the core. The members of the detached storage manager that only
  throw are never called. The recursive mutex of the database instance makes its members atomic; two instances of one database, and the
  time at which an instance that is replaced writes its catalog back, are outside the model of the engine, which has the
  destructor as an operation of its own. Doubles in cost estimates are a parameter (\<open>float_ops\<close>), as is whether
  \<^verbatim>\<open>push_back\<close> reallocates a vector (\<open>moves\<close>).
\<close>

end
